(* ===== verification/Prelude.thy ===== *)
theory Prelude
  imports Complex_Main "HOL-Library.Word" "HOL-Library.AList"
begin

text \<open>
  What the component theories share: names for the machine integers of the C++ code, the
  collections of simplification rules, and generic lemmas on lists, association lists and words.

  A C++ \<open>unsigned int\<close> (also \<open>guint\<close>, \<open>uint32_t\<close>) is a 32 bit word, an \<open>unsigned long\<close>,
  \<open>guint64\<close> or \<open>size_t\<close> a 64 bit word; a signed \<open>int\<close> is a 32 bit word read with \<open>sint\<close>.
  A \<open>std::unordered_map\<close> or \<open>std::map\<close> that the code iterates over is an association list in
  iteration order: \<open>operator[]\<close> on a missing key appends an entry, \<open>erase\<close> removes it.
\<close>

type_synonym u8 = "8 word"
type_synonym u32 = "32 word"
type_synonym u64 = "64 word"

named_theorems pad_simps \<open>functional behaviour of the sink pad queue\<close>
named_theorems batch_simps \<open>functional behaviour of the batch policy\<close>
named_theorems frame_simps \<open>fields an operation leaves alone\<close>

section \<open>Lists\<close>

lemma filter_takeWhile_dropWhile:
  "filter P xs = filter P (takeWhile Q xs) @ filter P (dropWhile Q xs)"
  by (metis filter_append takeWhile_dropWhile_id)

lemma filter_takeWhile_same [simp]: "filter P (takeWhile P xs) = takeWhile P xs"
  by (induction xs) auto

lemma filter_takeWhile_not [simp]: "filter (\<lambda>x. \<not> P x) (takeWhile P xs) = []"
  by (induction xs) auto

lemma filter_length_partition:
  "length (filter P xs) + length (filter (\<lambda>x. \<not> P x) xs) = length xs"
  by (rule sum_length_filter_compl)

lemma sum_list_map_fst_Cons_ge: "x \<in> set xs \<Longrightarrow> f x \<le> sum_list (map f xs)"
  for f :: "'a \<Rightarrow> nat"
  by (rule member_le_sum_list) auto

section \<open>Association lists\<close>

text \<open>
  \<open>al_touch d k m\<close> is what evaluating \<open>m[k]\<close> does to an \<open>unordered_map\<close>: a missing key is
  inserted with the value-initialised \<open>d\<close>.
\<close>

definition al_touch :: "'v \<Rightarrow> 'k \<Rightarrow> ('k \<times> 'v) list \<Rightarrow> ('k \<times> 'v) list" where
  "al_touch d k m = (case map_of m k of None \<Rightarrow> m @ [(k, d)] | Some _ \<Rightarrow> m)"

definition al_get :: "'v \<Rightarrow> 'k \<Rightarrow> ('k \<times> 'v) list \<Rightarrow> 'v" where
  "al_get d k m = (case map_of m k of None \<Rightarrow> d | Some v \<Rightarrow> v)"

lemma map_of_al_touch:
  "map_of (al_touch d k m) = (case map_of m k of None \<Rightarrow> (map_of m)(k \<mapsto> d) | Some _ \<Rightarrow> map_of m)"
  by (auto simp: al_touch_def fun_eq_iff map_add_def split: option.splits)

lemma al_touch_present [simp]: "map_of m k = Some v \<Longrightarrow> al_touch d k m = m"
  by (simp add: al_touch_def)

lemma distinct_al_touch [simp]:
  "distinct (map fst m) \<Longrightarrow> distinct (map fst (al_touch d k m))"
  by (auto simp: al_touch_def map_of_eq_None_iff split: option.splits)

lemma keys_al_touch [simp]: "fst ` set (al_touch d k m) = insert k (fst ` set m)"
  by (auto simp: al_touch_def map_of_eq_None_iff image_iff split: option.splits dest!: map_of_SomeD)
    (metis fst_conv)+

lemma set_update_distinct:
  "distinct (map fst m) \<Longrightarrow> set (AList.update k v m) = insert (k, v) {p \<in> set m. fst p \<noteq> k}"
proof (induction m)
  case (Cons p m)
  then show ?case by (cases p) (auto simp: image_iff)
qed simp

lemma map_fst_update_present [simp]:
  "k \<in> fst ` set m \<Longrightarrow> map fst (AList.update k v m) = map fst m"
  by (induction m) auto

lemma length_update_present [simp]:
  "k \<in> fst ` set m \<Longrightarrow> length (AList.update k v m) = length m"
  by (metis length_map map_fst_update_present)

section \<open>Words\<close>

lemma unat_of_nat_u32 [simp]: "n < 2 ^ 32 \<Longrightarrow> unat (of_nat n :: u32) = n"
  by (simp add: unat_of_nat)

lemma unat_of_nat_u64 [simp]: "n < 2 ^ 64 \<Longrightarrow> unat (of_nat n :: u64) = n"
  by (simp add: unat_of_nat)

lemma unat_u32_less: "unat (w :: u32) < 4294967296"
proof -
  have "unat w < 2 ^ LENGTH(32)" by (rule unsigned_less)
  then show ?thesis by simp
qed

lemma unat_sub_le: "b \<le> a \<Longrightarrow> unat (a - b) = unat a - unat b"
  for a b :: "'a::len word"
  by (simp add: unat_sub word_le_nat_alt)

text \<open>Truncating a 64 bit result to 32 bits is computing at 32 bits.\<close>

lemma ucast_times_u32: "(ucast (a * b :: u64) :: u32) = ucast a * ucast b"
proof (transfer, unfold take_bit_eq_mod)
  fix a b :: int
  have "(a mod 2 ^ LENGTH(64)) * (b mod 2 ^ LENGTH(64)) mod 2 ^ LENGTH(32) = a * b mod 2 ^ LENGTH(32)"
    by (rule mod_mult_cong) (simp_all add: mod_mod_cancel)
  then show "a * b mod 2 ^ LENGTH(64) mod 2 ^ LENGTH(32) =
      a mod 2 ^ LENGTH(64) * (b mod 2 ^ LENGTH(64)) mod 2 ^ LENGTH(32)"
    by (simp add: mod_mod_cancel)
qed

lemma ucast_minus_u32: "(ucast (a - b :: u64) :: u32) = ucast a - ucast b"
proof (transfer, unfold take_bit_eq_mod)
  fix a b :: int
  have "((a mod 2 ^ LENGTH(64)) - (b mod 2 ^ LENGTH(64))) mod 2 ^ LENGTH(32) = (a - b) mod 2 ^ LENGTH(32)"
    by (rule mod_diff_cong) (simp_all add: mod_mod_cancel)
  then show "(a - b) mod 2 ^ LENGTH(64) mod 2 ^ LENGTH(32) =
      (a mod 2 ^ LENGTH(64) - b mod 2 ^ LENGTH(64)) mod 2 ^ LENGTH(32)"
    by (simp add: mod_mod_cancel)
qed

lemma ucast_of_nat_u32: "(ucast (of_nat n :: u64) :: u32) = of_nat n"
  by transfer (simp add: take_bit_eq_mod mod_mod_cancel)

lemma ucast_ucast_u32: "(ucast (ucast (e :: u32) :: u64) :: u32) = e"
  by transfer simp

end
