(* ===== verification/Doubles.thy ===== *)
theory Doubles
  imports Prelude
begin

text \<open>
  The \<open>float\<close> and \<open>double\<close> values of the code: durations of type
  \<open>std::chrono::duration<double, std::nano>\<close>, time points over them, detection scores and box
  coordinates. A value is a rational number, an infinity or a NaN, with the IEEE 754 rules for
  the non-finite cases: every comparison with a NaN is false, a non-zero number over zero is an
  infinity, \<open>0/0\<close> and \<open>inf - inf\<close> are NaN. Two things of IEEE 754 are left out: rounding (the
  sum, product or quotient of finite values is exact and does not overflow) and the sign of zero
  (the zero here is \<open>+0\<close>; every divisor of the modelled code is a converted unsigned integer, a
  positive constant, or an area that was just compared with zero).
\<close>

datatype dbl = Fin rat | PInf | NInf | NaN

fun dlt :: "dbl \<Rightarrow> dbl \<Rightarrow> bool" where
  "dlt (Fin a) (Fin b) = (a < b)"
| "dlt (Fin a) PInf = True"
| "dlt NInf (Fin b) = True"
| "dlt NInf PInf = True"
| "dlt _ _ = False"

fun dle :: "dbl \<Rightarrow> dbl \<Rightarrow> bool" where
  "dle NaN _ = False"
| "dle _ NaN = False"
| "dle NInf _ = True"
| "dle _ PInf = True"
| "dle (Fin a) (Fin b) = (a \<le> b)"
| "dle _ _ = False"

definition deq :: "dbl \<Rightarrow> dbl \<Rightarrow> bool" where
  "deq a b \<longleftrightarrow> a = b \<and> a \<noteq> NaN"

fun dadd :: "dbl \<Rightarrow> dbl \<Rightarrow> dbl" where
  "dadd (Fin a) (Fin b) = Fin (a + b)"
| "dadd NaN _ = NaN"
| "dadd _ NaN = NaN"
| "dadd PInf NInf = NaN"
| "dadd NInf PInf = NaN"
| "dadd PInf _ = PInf"
| "dadd _ PInf = PInf"
| "dadd NInf _ = NInf"
| "dadd _ NInf = NInf"

fun dneg :: "dbl \<Rightarrow> dbl" where
  "dneg (Fin a) = Fin (- a)"
| "dneg PInf = NInf"
| "dneg NInf = PInf"
| "dneg NaN = NaN"

fun dsgn :: "dbl \<Rightarrow> rat" where
  "dsgn (Fin a) = sgn a"
| "dsgn PInf = 1"
| "dsgn NInf = -1"
| "dsgn NaN = 0"

definition dinf :: "rat \<Rightarrow> dbl" where
  "dinf s = (if 0 < s then PInf else if s < 0 then NInf else NaN)"

fun dmul :: "dbl \<Rightarrow> dbl \<Rightarrow> dbl" where
  "dmul (Fin a) (Fin b) = Fin (a * b)"
| "dmul a b = (if a = NaN \<or> b = NaN then NaN else dinf (dsgn a * dsgn b))"

fun ddiv :: "dbl \<Rightarrow> dbl \<Rightarrow> dbl" where
  "ddiv (Fin a) (Fin b) = (if b = 0 then dinf (sgn a) else Fin (a / b))"
| "ddiv NaN _ = NaN"
| "ddiv _ NaN = NaN"
| "ddiv (Fin a) _ = Fin 0"
| "ddiv a (Fin b) = dinf (dsgn a * (if b < 0 then -1 else 1))"
| "ddiv _ _ = NaN"

text \<open>
  The library's classes for the arithmetic and the order. The order is IEEE's, so it is a member
  of \<open>ord\<close> only: \<open>NaN \<le> NaN\<close> is false.
\<close>

instantiation dbl :: "{ord, plus, uminus, minus, times, zero, one}"
begin
definition less_dbl :: "dbl \<Rightarrow> dbl \<Rightarrow> bool" where "less_dbl = dlt"
definition less_eq_dbl :: "dbl \<Rightarrow> dbl \<Rightarrow> bool" where "less_eq_dbl = dle"
definition plus_dbl :: "dbl \<Rightarrow> dbl \<Rightarrow> dbl" where "plus_dbl = dadd"
definition uminus_dbl :: "dbl \<Rightarrow> dbl" where "uminus_dbl = dneg"
definition minus_dbl :: "dbl \<Rightarrow> dbl \<Rightarrow> dbl" where "minus_dbl a b = dadd a (dneg b)"
definition times_dbl :: "dbl \<Rightarrow> dbl \<Rightarrow> dbl" where "times_dbl = dmul"
definition zero_dbl :: dbl where "zero_dbl = Fin 0"
definition one_dbl :: dbl where "one_dbl = Fin 1"
instance ..
end

lemmas dbl_class_defs = less_dbl_def less_eq_dbl_def plus_dbl_def uminus_dbl_def
  minus_dbl_def times_dbl_def zero_dbl_def one_dbl_def

lemma Fin_arith [simp]:
  "Fin a + Fin b = Fin (a + b)"
  "Fin a - Fin b = Fin (a - b)"
  "Fin a * Fin b = Fin (a * b)"
  "- Fin a = Fin (- a)"
  by (simp_all add: dbl_class_defs)

lemma Fin_order [simp]:
  "Fin a < Fin b \<longleftrightarrow> a < b"
  "Fin a \<le> Fin b \<longleftrightarrow> a \<le> b"
  by (simp_all add: dbl_class_defs)

lemma zero_dbl_Fin: "(0 :: dbl) = Fin 0"
  by (simp add: dbl_class_defs)

lemma NaN_order [simp]:
  "\<not> NaN < a" "\<not> a < NaN" "\<not> NaN \<le> a" "\<not> a \<le> NaN"
  by (cases a; simp add: dbl_class_defs)+

lemma PInf_order [simp]:
  "\<not> PInf < a" "Fin b < PInf" "PInf \<le> a \<longleftrightarrow> a = PInf" "Fin b \<le> PInf"
  by (cases a; simp add: dbl_class_defs)+

lemma NInf_order [simp]:
  "\<not> a < NInf" "NInf < Fin b" "NInf < PInf" "NInf \<le> Fin b" "NInf \<le> PInf" "NInf \<le> NInf"
  "a \<le> NInf \<longleftrightarrow> a = NInf"
  by (cases a; simp add: dbl_class_defs)+

lemma inf_arith [simp]:
  "PInf + Fin b = PInf" "Fin b + PInf = PInf" "PInf + PInf = PInf"
  "PInf - Fin b = PInf" "Fin b - PInf = NInf" "PInf - PInf = NaN"
  "NaN + a = NaN" "a + NaN = NaN" "NaN - a = NaN" "a - NaN = NaN"
  by (cases a; simp add: dbl_class_defs)+

lemma dless_irrefl [simp]: "\<not> (a :: dbl) < a"
  by (cases a) (simp_all add: dbl_class_defs)

lemma dless_trans: "a < b \<Longrightarrow> b < c \<Longrightarrow> a < c" for a b c :: dbl
  by (cases a; cases b; cases c) (auto simp: dbl_class_defs)

lemma dle_refl [simp]: "a \<noteq> NaN \<Longrightarrow> a \<le> a" for a :: dbl
  by (cases a) (auto simp: dbl_class_defs)

lemma dle_trans: "a \<le> b \<Longrightarrow> b \<le> c \<Longrightarrow> a \<le> c" for a b c :: dbl
  by (cases a; cases b; cases c) (auto simp: dbl_class_defs)

lemma dless_imp_dle: "a < b \<Longrightarrow> a \<le> b" for a b :: dbl
  by (cases a; cases b) (auto simp: dbl_class_defs)

lemma dnot_less: "a \<noteq> NaN \<Longrightarrow> b \<noteq> NaN \<Longrightarrow> \<not> a < b \<longleftrightarrow> b \<le> a" for a b :: dbl
  by (cases a; cases b) (auto simp: dbl_class_defs)

lemma dle_NaN: "a \<le> b \<Longrightarrow> a \<noteq> NaN \<and> b \<noteq> NaN" for a b :: dbl
  by auto

text \<open>Conversions: \<open>(double) n\<close> of an unsigned or signed integer, and back by truncation.\<close>

definition dbl_of_u32 :: "u32 \<Rightarrow> dbl" where
  "dbl_of_u32 n = Fin (of_int (uint n))"

definition dbl_of_u64 :: "u64 \<Rightarrow> dbl" where
  "dbl_of_u64 n = Fin (of_int (uint n))"

definition dbl_of_int :: "int \<Rightarrow> dbl" where
  "dbl_of_int n = Fin (of_int n)"

text \<open>
  A conversion to \<open>unsigned int\<close> truncates towards zero; it is undefined behaviour when the
  truncated value does not fit, and what comes out then is the parameter \<open>ub\<close>.
\<close>

definition rat_trunc :: "rat \<Rightarrow> int" where
  "rat_trunc r = (if 0 \<le> r then \<lfloor>r\<rfloor> else - \<lfloor>- r\<rfloor>)"

definition dbl_to_u32 :: "(dbl \<Rightarrow> u32) \<Rightarrow> dbl \<Rightarrow> u32" where
  "dbl_to_u32 ub d = (case d of
      Fin r \<Rightarrow> if 0 \<le> rat_trunc r \<and> rat_trunc r < 2 ^ 32 then word_of_int (rat_trunc r) else ub d
    | _ \<Rightarrow> ub d)"

lemma ddiv_Fin [simp]: "b \<noteq> 0 \<Longrightarrow> ddiv (Fin a) (Fin b) = Fin (a / b)"
  by simp

lemma ddiv_zero [simp]: "0 < a \<Longrightarrow> ddiv (Fin a) (Fin 0) = PInf"
  by (simp add: dinf_def)

lemma uint_eq_0_iff_word [simp]: "uint w = 0 \<longleftrightarrow> w = 0" for w :: "'a::len word"
  by (simp add: word_uint_eqI uint_0_iff)

end
