(* ===== verification/MuxPads.thy ===== *)
theory MuxPads
  imports Doubles
begin

text \<open>
  The input pads of the stream muxer: \<open>src/sources/libs/nvstreammux/nvstreammux_pads.cpp\<close> and
  \<open>include/nvstreammux_pads.h\<close>. A pad queues buffers and events in arrival order. The mux drains
  the events at the front of the queue (\<open>push_events\<close>), counts the buffers that are left
  (\<open>get_available\<close>), and removes buffers while it forms a batch. Locks are not modelled: each
  operation is one atomic step, as it is under the mutexes that the callers hold.
\<close>

section \<open>Data\<close>

datatype SOURCE_STATE =
  SOURCE_STATE_IDLE | SOURCE_STATE_PAUSED | SOURCE_STATE_PLAYING | SOURCE_STATE_STOPPING

datatype ENTRY_TYPE = ENTRY_ALL | ENTRY_BUFFER | ENTRY_EVENT

datatype BATCH_SEQUENCE_TYPE =
  BATCH_SEQUENCE_IN_BATCH | BATCH_SEQUENCE_PRE_BATCH | BATCH_SEQUENCE_POST_BATCH

datatype PAD_MIME_TYPE = PAD_MIME_TYPE_INVALID | PAD_MIME_TYPE_VIDEO | PAD_MIME_TYPE_AUDIO

datatype BUFFER_TS_STATUS = BUFFER_TS_EARLY | BUFFER_TS_ONTIME | BUFFER_TS_LATE

text \<open>
  A queue entry. \<open>wrapped\<close> stands for the wrapped \<open>GstBuffer\<close> or \<open>GstEvent\<close> pointer, which the
  queue only passes on. The two classes derived from \<open>QueueEntry\<close> fix the type of the entry.
\<close>

record QueueEntry =
  wrapped :: nat
  batch_type :: BATCH_SEQUENCE_TYPE
  entry_type :: ENTRY_TYPE
  timestamp :: u64

definition new_BufferWrapper :: "nat \<Rightarrow> BATCH_SEQUENCE_TYPE \<Rightarrow> QueueEntry" where
  "new_BufferWrapper b bt =
     \<lparr>wrapped = b, batch_type = bt, entry_type = ENTRY_BUFFER, timestamp = 0\<rparr>"

definition new_EventWrapper :: "nat \<Rightarrow> BATCH_SEQUENCE_TYPE \<Rightarrow> QueueEntry" where
  "new_EventWrapper e bt =
     \<lparr>wrapped = e, batch_type = bt, entry_type = ENTRY_EVENT, timestamp = 0\<rparr>"

abbreviation is_event :: "QueueEntry \<Rightarrow> bool" where
  "is_event e \<equiv> entry_type e = ENTRY_EVENT"

abbreviation is_buffer :: "QueueEntry \<Rightarrow> bool" where
  "is_buffer e \<equiv> entry_type e = ENTRY_BUFFER"

record SinkPad =
  pad_state :: SOURCE_STATE
  queue :: "QueueEntry list"
  event_indices :: "u32 list"
  pad_id :: u32
  source_id :: u32
  switched_to_idle :: bool
  switched_to_active :: bool
  mime_type :: PAD_MIME_TYPE
  eos :: bool
  frame_count :: u64
  buffer_count :: u64
  max_buffer_count :: u64

section \<open>Operations\<close>

definition new_SinkPad :: "u32 \<Rightarrow> SinkPad" where
  "new_SinkPad i =
     \<lparr>pad_state = SOURCE_STATE_IDLE, queue = [], event_indices = [], pad_id = i, source_id = i,
      switched_to_idle = False, switched_to_active = False, mime_type = PAD_MIME_TYPE_VIDEO,
      eos = False, frame_count = 0, buffer_count = 0, max_buffer_count = 0\<rparr>"

definition push_buffer_done :: "SinkPad \<Rightarrow> SinkPad" where
  "push_buffer_done p = p\<lparr>buffer_count := buffer_count p + 1\<rparr>"

text \<open>\<open>pop_buffer_done\<close> also wakes a blocked producer; the Boolean says whether it does.\<close>

definition pop_buffer_done :: "SinkPad \<Rightarrow> bool \<times> SinkPad" where
  "pop_buffer_done p =
     (let p' = p\<lparr>buffer_count := buffer_count p - 1\<rparr>
      in (buffer_count p' \<le> max_buffer_count p', p'))"

definition set_max_buffer_count :: "u32 \<Rightarrow> SinkPad \<Rightarrow> SinkPad" where
  "set_max_buffer_count n p = p\<lparr>max_buffer_count := ucast n\<rparr>"

definition get_max_buffer_count :: "SinkPad \<Rightarrow> u32" where
  "get_max_buffer_count p = ucast (max_buffer_count p)"

definition queue_entry :: "QueueEntry \<Rightarrow> SinkPad \<Rightarrow> SinkPad" where
  "queue_entry e p =
     (let p1 = p\<lparr>queue := queue p @ [e]\<rparr>;
          p2 = (if entry_type e = ENTRY_EVENT
                then p1\<lparr>event_indices := event_indices p1 @ [of_nat (length (queue p1)) - 1]\<rparr>
                else p1)
      in if entry_type e = ENTRY_BUFFER then push_buffer_done p2 else p2)"

definition update_frame_count :: "u32 \<Rightarrow> SinkPad \<Rightarrow> SinkPad" where
  "update_frame_count n p = p\<lparr>frame_count := frame_count p + ucast n\<rparr>"

definition reset_frame_count :: "SinkPad \<Rightarrow> SinkPad" where
  "reset_frame_count p = p\<lparr>frame_count := 0\<rparr>"

fun adjust_loop :: "u32 \<Rightarrow> bool \<Rightarrow> u32 \<Rightarrow> u32 list \<Rightarrow> u32 list" where
  "adjust_loop offset ev deleted [] = []"
| "adjust_loop offset ev deleted (i # is) =
     (if ev \<and> deleted < offset then adjust_loop offset ev (deleted + 1) is
      else (i - offset) # adjust_loop offset ev deleted is)"

definition adjust_event_indices :: "u32 \<Rightarrow> bool \<Rightarrow> SinkPad \<Rightarrow> SinkPad" where
  "adjust_event_indices offset ev p =
     p\<lparr>event_indices := adjust_loop offset ev 0 (event_indices p)\<rparr>"

text \<open>The loop of \<open>push_events\<close>: events leave the front of the queue until a buffer is met.\<close>

fun pop_front_events :: "QueueEntry list \<Rightarrow> QueueEntry list \<times> QueueEntry list" where
  "pop_front_events [] = ([], [])"
| "pop_front_events (e # q) =
     (if entry_type e = ENTRY_EVENT
      then (case pop_front_events q of (pushed, rest) \<Rightarrow> (e # pushed, rest))
      else ([], e # q))"

text \<open>\<open>push_events\<close> returns the events handed to the source pad, in order, and the pad.\<close>

definition push_events :: "SinkPad \<Rightarrow> QueueEntry list \<times> SinkPad" where
  "push_events p =
     (let bottom0 = (case event_indices p of [] \<Rightarrow> -1 | i # _ \<Rightarrow> sint i);
          bottom = (case queue p of
                      [] \<Rightarrow> bottom0
                    | e # _ \<Rightarrow> if entry_type e = ENTRY_EVENT then 0 else bottom0);
          (pushed, rest) = (if bottom = 0 then pop_front_events (queue p) else ([], queue p))
      in (pushed, adjust_event_indices (of_nat (length pushed)) True (p\<lparr>queue := rest\<rparr>)))"

definition get_available :: "SinkPad \<Rightarrow> u32" where
  "get_available p =
     ucast ((of_nat (length (queue p)) :: u64) - of_nat (length (event_indices p)))"

definition reset :: "SinkPad \<Rightarrow> SinkPad" where
  "reset p = p\<lparr>queue := [], event_indices := [], pad_state := SOURCE_STATE_IDLE\<rparr>"

text \<open>\<open>wait_if_queue_full\<close> has no effect on the pad; it blocks its caller when this holds.\<close>

definition wait_if_queue_full :: "SinkPad \<Rightarrow> bool" where
  "wait_if_queue_full p \<longleftrightarrow> max_buffer_count p \<noteq> 0 \<and> max_buffer_count p < buffer_count p"

section \<open>The invariant of a pad\<close>

text \<open>
  Only buffers and events are queued, there is one event index per queued event, and the queue
  is shorter than \<open>2 ^ 32\<close>. The stored indices themselves are not part of it: removing buffers
  makes them stale, and the code only relies on how many there are.
\<close>

definition pad_wf :: "SinkPad \<Rightarrow> bool" where
  "pad_wf p \<longleftrightarrow>
     (\<forall>e \<in> set (queue p). is_event e \<or> is_buffer e) \<and>
     length (event_indices p) = length (filter is_event (queue p)) \<and>
     length (queue p) < 2 ^ 32"

text \<open>The buffer count is exact: the field says how many buffers are queued.\<close>

definition pad_count_exact :: "SinkPad \<Rightarrow> bool" where
  "pad_count_exact p \<longleftrightarrow> buffer_count p = of_nat (length (filter is_buffer (queue p)))"

lemma pad_wf_new [simp]: "pad_wf (new_SinkPad i)" "pad_count_exact (new_SinkPad i)"
  by (simp_all add: pad_wf_def pad_count_exact_def new_SinkPad_def)

lemma pad_wf_not_event:
  "pad_wf p \<Longrightarrow> filter (\<lambda>e. \<not> is_event e) (queue p) = filter is_buffer (queue p)"
  by (rule filter_cong) (auto simp: pad_wf_def)

lemma pad_wf_buffer_events:
  "pad_wf p \<Longrightarrow> length (filter is_buffer (queue p)) + length (event_indices p) = length (queue p)"
  using filter_length_partition [of is_event "queue p"]
  by (simp add: pad_wf_not_event [symmetric]) (simp add: pad_wf_def)

lemma adjust_loop_event:
  "unat deleted + length is < 2 ^ 32 \<Longrightarrow> deleted \<le> offset \<Longrightarrow>
   adjust_loop offset True deleted is = map (\<lambda>i. i - offset) (drop (unat (offset - deleted)) is)"
proof (induction "is" arbitrary: deleted)
  case (Cons i "is")
  show ?case
  proof (cases "deleted < offset")
    case True
    then have "unat (offset - deleted) = Suc (unat (offset - (deleted + 1)))"
      and "deleted + 1 \<le> offset" and "unat (deleted + 1) = Suc (unat deleted)"
      using Cons.prems by unat_arith+
    with True Cons show ?thesis by simp
  next
    case False
    with Cons.prems have "deleted = offset" by simp
    moreover have "adjust_loop offset True offset js = map (\<lambda>i. i - offset) js" for js
      by (induction js) auto
    ultimately show ?thesis by simp
  qed
qed simp

lemma length_adjust_loop_buffer [simp]: "length (adjust_loop n False d is) = length is"
  by (induction "is" arbitrary: d) auto

lemma pop_front_events_eq [simp]:
  "pop_front_events q = (takeWhile is_event q, dropWhile is_event q)"
  by (induction q) auto

lemma length_takeWhile_event:
  "length (takeWhile is_event q) \<le> length (filter is_event q)"
  by (metis filter_takeWhile_dropWhile filter_takeWhile_same le_add1 length_append)

lemma push_events_eq:
  "push_events p =
     (takeWhile is_event (queue p),
      adjust_event_indices (of_nat (length (takeWhile is_event (queue p)))) True
        (p\<lparr>queue := dropWhile is_event (queue p)\<rparr>))"
  by (cases "queue p") (auto simp: push_events_def Let_def split: list.splits)

section \<open>What every operation keeps\<close>

lemma queue_queue_entry [simp]: "queue (queue_entry e p) = queue p @ [e]"
  by (simp add: queue_entry_def push_buffer_done_def Let_def)

lemma pad_wf_queue_entry:
  assumes "pad_wf p" "is_event e \<or> is_buffer e" "length (queue p) + 1 < 2 ^ 32"
  shows "pad_wf (queue_entry e p)"
  using assms by (auto simp: pad_wf_def queue_entry_def push_buffer_done_def Let_def)

lemma pad_count_queue_entry:
  "pad_count_exact p \<Longrightarrow> is_event e \<or> is_buffer e \<Longrightarrow> pad_count_exact (queue_entry e p)"
  by (auto simp: pad_count_exact_def queue_entry_def push_buffer_done_def Let_def)

lemma queue_push_events [simp]:
  "queue (snd (push_events p)) = dropWhile is_event (queue p)"
  by (simp add: push_events_eq adjust_event_indices_def)

lemma event_indices_push_events:
  assumes "pad_wf p"
  shows "length (event_indices (snd (push_events p))) =
           length (filter is_event (dropWhile is_event (queue p)))"
proof -
  let ?n = "length (takeWhile is_event (queue p))"
  have le: "?n \<le> length (queue p)" by (rule length_takeWhile_le)
  have idx: "length (event_indices p) =
      ?n + length (filter is_event (dropWhile is_event (queue p)))"
    using assms filter_takeWhile_dropWhile [of is_event "queue p" is_event]
    by (simp add: pad_wf_def)
  have small: "length (event_indices p) < 2 ^ 32" "?n < 2 ^ 32"
    using assms le le_less_trans [OF length_filter_le [of is_event "queue p"]]
    by (auto simp: pad_wf_def)
  have "adjust_loop (of_nat ?n) True 0 (event_indices p) =
      map (\<lambda>i. i - of_nat ?n) (drop ?n (event_indices p))"
    using small by (subst adjust_loop_event) auto
  then show ?thesis
    by (simp add: push_events_eq adjust_event_indices_def idx)
qed

lemma pad_wf_push_events: "pad_wf p \<Longrightarrow> pad_wf (snd (push_events p))"
  unfolding pad_wf_def [of "snd (push_events p)"]
  using event_indices_push_events [of p] length_dropWhile_le [of is_event "queue p"]
  by (auto simp: pad_wf_def dest: set_dropWhileD)

lemma filter_buffer_dropWhile_event [simp]:
  "filter is_buffer (dropWhile is_event q) = filter is_buffer q"
  by (induction q) auto

lemma push_events_frame [frame_simps]:
  "pad_state (snd (push_events p)) = pad_state p"
  "pad_id (snd (push_events p)) = pad_id p"
  "source_id (snd (push_events p)) = source_id p"
  "switched_to_idle (snd (push_events p)) = switched_to_idle p"
  "switched_to_active (snd (push_events p)) = switched_to_active p"
  "eos (snd (push_events p)) = eos p"
  "frame_count (snd (push_events p)) = frame_count p"
  "buffer_count (snd (push_events p)) = buffer_count p"
  "max_buffer_count (snd (push_events p)) = max_buffer_count p"
  by (simp_all add: push_events_eq adjust_event_indices_def)

lemma pad_count_push_events: "pad_count_exact p \<Longrightarrow> pad_count_exact (snd (push_events p))"
  by (simp add: pad_count_exact_def frame_simps)

lemma get_available_wf:
  assumes "pad_wf p"
  shows "unat (get_available p) = length (filter is_buffer (queue p))"
proof -
  have eq: "length (queue p) =
      length (filter is_buffer (queue p)) + length (event_indices p)"
    using pad_wf_buffer_events [OF assms] by simp
  then have "(of_nat (length (queue p)) :: u64) - of_nat (length (event_indices p)) =
      of_nat (length (filter is_buffer (queue p)))"
    by simp
  moreover have "length (filter is_buffer (queue p)) < 2 ^ 32"
    using assms eq by (simp add: pad_wf_def)
  ultimately show ?thesis
    by (simp add: get_available_def unsigned_of_nat take_bit_nat_eq_self)
qed

lemma pad_wf_reset [simp]: "pad_wf (reset p)"
  by (simp add: pad_wf_def reset_def)

section \<open>The contract the muxer relies on\<close>

text \<open>
  A queue of events and buffers: what is enqueued comes out in order, a flush takes the events
  ahead of the first buffer, and \<open>avail\<close> counts the buffers.
\<close>

locale event_queue =
  fixes enq :: "'e \<Rightarrow> 'p \<Rightarrow> 'p"
    and flush :: "'p \<Rightarrow> 'e list \<times> 'p"
    and avail :: "'p \<Rightarrow> nat"
    and content :: "'p \<Rightarrow> 'e list"
    and is_ev :: "'e \<Rightarrow> bool"
    and entry_ok :: "'e \<Rightarrow> bool"
    and inv :: "'p \<Rightarrow> bool"
    and cap :: nat
  assumes content_enq: "content (enq e p) = content p @ [e]"
    and inv_enq: "inv p \<Longrightarrow> entry_ok e \<Longrightarrow> length (content p) + 1 < cap \<Longrightarrow> inv (enq e p)"
    and fst_flush: "fst (flush p) = takeWhile is_ev (content p)"
    and content_flush: "content (snd (flush p)) = dropWhile is_ev (content p)"
    and inv_flush: "inv p \<Longrightarrow> inv (snd (flush p))"
    and avail_eq: "inv p \<Longrightarrow> avail p = length (filter (\<lambda>e. \<not> is_ev e) (content p))"
begin

lemma flush_conserves: "fst (flush p) @ content (snd (flush p)) = content p"
  by (simp add: fst_flush content_flush)

lemma flush_avail: "inv p \<Longrightarrow> avail (snd (flush p)) = avail p"
proof -
  assume "inv p"
  moreover have "filter (\<lambda>e. \<not> is_ev e) (dropWhile is_ev xs) = filter (\<lambda>e. \<not> is_ev e) xs" for xs
    by (induction xs) auto
  ultimately show ?thesis by (simp add: avail_eq inv_flush content_flush)
qed

lemma flush_twice: "fst (flush (snd (flush p))) = []"
proof -
  have "takeWhile is_ev (dropWhile is_ev xs) = []" for xs
    by (induction xs) auto
  then show ?thesis by (simp add: fst_flush content_flush)
qed

lemma content_enq_all: "content (fold enq es p) = content p @ es"
  by (induction es arbitrary: p) (simp_all add: content_enq)

lemma inv_enq_all:
  "inv p \<Longrightarrow> (\<And>e. e \<in> set es \<Longrightarrow> entry_ok e) \<Longrightarrow> length (content p) + length es < cap \<Longrightarrow>
   inv (fold enq es p)"
proof (induction es arbitrary: p)
  case (Cons e es)
  then have "inv (enq e p)" by (intro inv_enq) auto
  with Cons show ?case by (simp add: content_enq)
qed simp

lemma flush_events_only:
  "(\<And>e. e \<in> set (content p) \<Longrightarrow> is_ev e) \<Longrightarrow>
   fst (flush p) = content p \<and> content (snd (flush p)) = []"
  by (simp add: fst_flush content_flush)

text \<open>Events queued behind a drained pad are delivered by the next flush, in arrival order.\<close>

lemma flush_after_enq:
  assumes "content p = []"
  shows "fst (flush (fold enq es p)) = takeWhile is_ev es"
    and "content (snd (flush (fold enq es p))) = dropWhile is_ev es"
  by (simp_all add: fst_flush content_flush content_enq_all assms)

end

interpretation pq: event_queue queue_entry push_events "\<lambda>p. unat (get_available p)" queue
  is_event "\<lambda>e. is_event e \<or> is_buffer e" pad_wf "2 ^ 32"
proof unfold_locales
  fix p assume "pad_wf p"
  then show "unat (get_available p) = length (filter (\<lambda>e. \<not> is_event e) (queue p))"
    by (simp add: get_available_wf pad_wf_not_event)
next
  fix p show "fst (push_events p) = takeWhile is_event (queue p)"
    by (simp add: push_events_eq)
qed (auto intro: pad_wf_queue_entry pad_wf_push_events)

text \<open>
  On a well-formed pad, \<open>push_events\<close> hands over the events at the front of the
  queue, in order, and leaves the rest: nothing is lost, the queue that is left is empty or starts
  with a buffer, and \<open>get_available\<close>, the number of queued buffers, is the same before and after.
\<close>

lemma push_events_drains:
  assumes "pad_wf p"
  shows "fst (push_events p) @ queue (snd (push_events p)) = queue p \<and>
    list_all is_event (fst (push_events p)) \<and>
    (queue (snd (push_events p)) = [] \<or> is_buffer (hd (queue (snd (push_events p))))) \<and>
    unat (get_available (snd (push_events p))) = length (filter is_buffer (queue p)) \<and>
    pad_wf (snd (push_events p))"
proof -
  have "fst (push_events p) @ queue (snd (push_events p)) = queue p"
    by (rule pq.flush_conserves)
  moreover have "list_all is_event (fst (push_events p))"
    by (auto simp: push_events_eq list_all_iff dest: set_takeWhileD)
  moreover have "queue (snd (push_events p)) = [] \<or> is_buffer (hd (queue (snd (push_events p))))"
  proof (cases "dropWhile is_event (queue p)")
    case (Cons e es)
    then have "\<not> is_event e" by (simp add: dropWhile_eq_Cons_conv)
    moreover have "e \<in> set (queue p)" using Cons set_dropWhileD [of e is_event "queue p"] by simp
    ultimately have "is_buffer e" using assms by (auto simp: pad_wf_def)
    with Cons show ?thesis by simp
  qed simp
  moreover have "unat (get_available (snd (push_events p))) = length (filter is_buffer (queue p))"
    using pq.flush_avail [OF assms] get_available_wf [OF assms] by simp
  ultimately show ?thesis using pad_wf_push_events [OF assms] by blast
qed

end
