(* ===== verification/MuxBatch.thy ===== *)
theory MuxBatch
  imports MuxPads
begin

text \<open>
  The batch policy of the stream muxer: \<open>src/sources/libs/nvstreammux/nvstreammux_batch.cpp\<close> and
  \<open>include/nvstreammux_batch.h\<close>. It decides how many buffers of which source go into the next
  batch (\<open>form_batch\<close>, by priority and round robin), and how long the mux may wait.

  \<open>Clock::now()\<close>, the result of a float to integer conversion that C++ leaves undefined and the
  time synchronisation interface \<open>ISynchronizeBuffer\<close> come from outside; they are the fields of
  \<open>policy_env\<close>, an argument of the definitions that use them. Dereferencing an iterator at or past
  the end of a container is undefined behaviour in C++: \<open>form_batch\<close> then returns \<open>None\<close>.
\<close>

section \<open>Data\<close>

record NvStreammuxSourceProps =
  source_max_fps_n :: u32
  source_max_fps_d :: u32
  source_min_fps_n :: u32
  source_min_fps_d :: u32
  priority :: u32
  max_num_frames_per_batch :: u32

datatype NvStreammuxBatchMethod =
  BATCH_METHOD_NONE | BATCH_METHOD_ROUND_ROBIN | BATCH_METHOD_PRIORITY

record BatchPolicyConfig =
  cfg_type :: NvStreammuxBatchMethod
  adaptive_batching :: bool
  cfg_batch_size :: u32
  overall_max_fps_n :: u32
  overall_max_fps_d :: u32
  overall_min_fps_n :: u32
  overall_min_fps_d :: u32
  max_same_source_frames :: u32
  enable_source_rate_control :: bool
  enable_max_fps_control :: bool
  source_props :: "(u32 \<times> NvStreammuxSourceProps) list"

record LastBatchState =
  priority_list_position :: nat
  source_map_position :: nat

text \<open>
  \<open>num_sources\<close> is an \<open>unordered_map<int, int>\<close>; keys and values are kept as 32 bit words.
\<close>

record Batch =
  num_sources :: "(u32 \<times> u32) list"
  acc_batch :: u32
  batch_size :: u32

text \<open>
  \<open>sources\<close> is a \<open>std::multimap<int, int>\<close>, here the list of its pairs in iteration order: by
  priority, read as a signed \<open>int\<close>, and in insertion order within one priority. An iterator is a
  position in this list. The map of pads that the C++ object reaches through the pointer \<open>inputs\<close>
  is an argument of the operations that use it.
\<close>

type_synonym pads = "(u32 \<times> SinkPad option) list"

record BatchPolicy =
  config :: BatchPolicyConfig
  max_fps_dur :: dbl
  min_fps_dur :: dbl
  min_early_buffer_dur :: dbl
  max_dur_time :: dbl
  min_dur_time :: dbl
  src_max_fps :: "(u32 \<times> dbl) list"
  src_push_times :: "(u32 \<times> dbl) list"
  src_num_pushed :: "(u32 \<times> u32) list"
  priority_list :: "u32 list"
  sources :: "(u32 \<times> u32) list"
  last_batch_time :: dbl
  bp_batch_size :: u32
  last_batch_state :: LastBatchState
  bp_num_sources_idle :: u32
  num_sources_eos :: u32
  bp_num_surfaces_per_frame :: u32
  synch_buffer :: bool
  total_buf_available :: u32

record policy_env =
  clock_at :: "u32 \<Rightarrow> dbl"
  ub_to_u32 :: "dbl \<Rightarrow> u32"
  synch_info :: "QueueEntry \<Rightarrow> BUFFER_TS_STATUS \<times> dbl"

section \<open>The list of priorities and the multimap of sources\<close>

fun insert_before_not_less :: "u32 \<Rightarrow> u32 list \<Rightarrow> u32 list" where
  "insert_before_not_less v [] = [v]"
| "insert_before_not_less v (x # xs) =
     (if x < v then x # insert_before_not_less v xs else if x \<noteq> v then v # x # xs else x # xs)"

definition sorted_insert :: "u32 \<Rightarrow> u32 list \<Rightarrow> u32 list" where
  "sorted_insert v store =
     (case store of
        [] \<Rightarrow> [v]
      | x # _ \<Rightarrow> if v < x then v # store else insert_before_not_less v store)"

text \<open>\<open>multimap::insert\<close> puts a pair after all pairs whose key is not greater.\<close>

definition mm_insert :: "u32 \<Rightarrow> u32 \<Rightarrow> (u32 \<times> u32) list \<Rightarrow> (u32 \<times> u32) list" where
  "mm_insert k v m =
     takeWhile (\<lambda>p. sint (fst p) \<le> sint k) m @ (k, v) # dropWhile (\<lambda>p. sint (fst p) \<le> sint k) m"

definition mm_lower :: "u32 \<Rightarrow> (u32 \<times> u32) list \<Rightarrow> nat" where
  "mm_lower k m = length (takeWhile (\<lambda>p. sint (fst p) < sint k) m)"

definition mm_upper :: "u32 \<Rightarrow> (u32 \<times> u32) list \<Rightarrow> nat" where
  "mm_upper k m = length (takeWhile (\<lambda>p. sint (fst p) \<le> sint k) m)"

section \<open>Construction, timing and configuration\<close>

definition NVSTREAMMUX_DEFAULT_SOURCE_GROUP_MAX_FPS_N :: u32 where
  "NVSTREAMMUX_DEFAULT_SOURCE_GROUP_MAX_FPS_N = 60"
definition NVSTREAMMUX_DEFAULT_SOURCE_GROUP_MAX_FPS_D :: u32 where
  "NVSTREAMMUX_DEFAULT_SOURCE_GROUP_MAX_FPS_D = 1"
definition NVSTREAMMUX_DEFAULT_SOURCE_GROUP_MIN_FPS_N :: u32 where
  "NVSTREAMMUX_DEFAULT_SOURCE_GROUP_MIN_FPS_N = 30"
definition NVSTREAMMUX_DEFAULT_SOURCE_GROUP_MIN_FPS_D :: u32 where
  "NVSTREAMMUX_DEFAULT_SOURCE_GROUP_MIN_FPS_D = 1"
definition NVSTREAMMUX_DEFAULT_SOURCE_GROUP_PRIORITY :: u32 where
  "NVSTREAMMUX_DEFAULT_SOURCE_GROUP_PRIORITY = 0"
definition NVSTREAMMUX_DEFAULT_SOURCE_GROUP_MAX_FRAMES_PER_BATCH :: u32 where
  "NVSTREAMMUX_DEFAULT_SOURCE_GROUP_MAX_FRAMES_PER_BATCH = 1"

definition default_source_props :: NvStreammuxSourceProps where
  "default_source_props =
     \<lparr>source_max_fps_n = NVSTREAMMUX_DEFAULT_SOURCE_GROUP_MAX_FPS_N,
      source_max_fps_d = NVSTREAMMUX_DEFAULT_SOURCE_GROUP_MAX_FPS_D,
      source_min_fps_n = NVSTREAMMUX_DEFAULT_SOURCE_GROUP_MIN_FPS_N,
      source_min_fps_d = NVSTREAMMUX_DEFAULT_SOURCE_GROUP_MIN_FPS_D,
      priority = NVSTREAMMUX_DEFAULT_SOURCE_GROUP_PRIORITY,
      max_num_frames_per_batch = NVSTREAMMUX_DEFAULT_SOURCE_GROUP_MAX_FRAMES_PER_BATCH\<rparr>"

definition fps :: "u32 \<Rightarrow> u32 \<Rightarrow> dbl" where
  "fps n d = ddiv (dbl_of_u32 n) (dbl_of_u32 d)"

definition fps_dur :: "u32 \<Rightarrow> u32 \<Rightarrow> dbl" where
  "fps_dur n d = ddiv (dbl_of_u32 d * Fin 1000000000) (dbl_of_u32 n)"

text \<open>\<open>insert\<close> of an \<open>unordered_map\<close> leaves an existing key alone.\<close>

definition al_insert :: "'k \<Rightarrow> 'v \<Rightarrow> ('k \<times> 'v) list \<Rightarrow> ('k \<times> 'v) list" where
  "al_insert k v m = (case map_of m k of None \<Rightarrow> m @ [(k, v)] | Some _ \<Rightarrow> m)"

definition update_last_batch_time :: "dbl \<Rightarrow> BatchPolicy \<Rightarrow> BatchPolicy" where
  "update_last_batch_time now bp =
     bp\<lparr>last_batch_time := now, min_dur_time := now + max_fps_dur bp,
        max_dur_time := now + min_fps_dur bp\<rparr>"

text \<open>The first loop of the constructor: one entry per configured source.\<close>

fun add_configured :: "(u32 \<times> NvStreammuxSourceProps) list \<Rightarrow> BatchPolicy \<Rightarrow> BatchPolicy" where
  "add_configured [] bp = bp"
| "add_configured ((sid, props) # rest) bp =
     add_configured rest
       (bp\<lparr>priority_list := sorted_insert (priority props) (priority_list bp),
           sources := mm_insert (priority props) sid (sources bp),
           src_max_fps := al_insert sid (fps (source_max_fps_n props) (source_max_fps_d props))
                            (src_max_fps bp)\<rparr>)"

definition source_known :: "u32 \<Rightarrow> BatchPolicy \<Rightarrow> bool" where
  "source_known sid bp \<longleftrightarrow> (\<exists>p \<in> set (sources bp). snd p = sid)"

definition add_default_source :: "u32 \<Rightarrow> BatchPolicy \<Rightarrow> BatchPolicy" where
  "add_default_source sid bp =
     bp\<lparr>sources := mm_insert NVSTREAMMUX_DEFAULT_SOURCE_GROUP_PRIORITY sid (sources bp),
        priority_list := sorted_insert NVSTREAMMUX_DEFAULT_SOURCE_GROUP_PRIORITY (priority_list bp)\<rparr>"

text \<open>The second loop: pads that no configuration names get the default priority.\<close>

fun add_unconfigured :: "u32 list \<Rightarrow> BatchPolicy \<Rightarrow> BatchPolicy" where
  "add_unconfigured [] bp = bp"
| "add_unconfigured (sid # rest) bp =
     add_unconfigured rest (if source_known sid bp then bp else add_default_source sid bp)"

definition new_BatchPolicy :: "BatchPolicyConfig \<Rightarrow> pads \<Rightarrow> dbl \<Rightarrow> BatchPolicy" where
  "new_BatchPolicy policy ins now =
     (let bp0 = \<lparr>config = policy, max_fps_dur = Fin 0, min_fps_dur = Fin 0,
                 min_early_buffer_dur = Fin 0, max_dur_time = Fin 0, min_dur_time = Fin 0,
                 src_max_fps = [], src_push_times = [], src_num_pushed = [], priority_list = [],
                 sources = [], last_batch_time = Fin 0, bp_batch_size = 0,
                 last_batch_state = \<lparr>priority_list_position = 0, source_map_position = 0\<rparr>,
                 bp_num_sources_idle = 0, num_sources_eos = 0, bp_num_surfaces_per_frame = 1,
                 synch_buffer = False, total_buf_available = 0\<rparr>;
          bp1 = add_configured (source_props policy) bp0;
          bp2 = add_unconfigured (map fst ins) bp1;
          bp3 = bp2\<lparr>bp_batch_size := (if adaptive_batching policy then of_nat (length ins)
                                      else cfg_batch_size policy),
                    max_fps_dur := fps_dur (overall_max_fps_n policy) (overall_max_fps_d policy),
                    min_fps_dur := fps_dur (overall_min_fps_n policy) (overall_min_fps_d policy)\<rparr>
      in update_last_batch_time now bp3)"

text \<open>\<open>calculate_wait\<close> returns how long the mux may wait for more buffers.\<close>

definition calculate_wait :: "dbl \<Rightarrow> BatchPolicy \<Rightarrow> dbl \<times> BatchPolicy" where
  "calculate_wait now bp =
     (let bp1 = (if min_fps_dur bp < min_early_buffer_dur bp
                 then bp\<lparr>max_dur_time :=
                        (last_batch_time bp - min_fps_dur bp) + min_early_buffer_dur bp\<rparr>
                 else bp);
          bp2 = bp1\<lparr>min_early_buffer_dur := 0\<rparr>
      in (if now < max_dur_time bp2 then max_dur_time bp2 - now else 0, bp2))"

definition get_max_duration_delay :: "BatchPolicy \<Rightarrow> dbl" where
  "get_max_duration_delay bp = max_fps_dur bp"

definition calculate_delay :: "dbl \<Rightarrow> BatchPolicy \<Rightarrow> dbl" where
  "calculate_delay now bp = (if now < min_dur_time bp then min_dur_time bp - now else 0)"

definition check_past_min :: "dbl \<Rightarrow> BatchPolicy \<Rightarrow> bool" where
  "check_past_min now bp \<longleftrightarrow> 0 < min_dur_time bp - now"

definition is_ready :: "Batch \<Rightarrow> bool" where
  "is_ready b \<longleftrightarrow> acc_batch b = batch_size b \<and> batch_size b \<noteq> 0"

definition is_ready_or_due :: "dbl \<Rightarrow> Batch \<Rightarrow> BatchPolicy \<Rightarrow> bool" where
  "is_ready_or_due now b bp \<longleftrightarrow>
     (if is_ready b then True else deq (calculate_delay now bp) 0 \<and> 0 < acc_batch b)"

definition check_and_update_defaults :: "u32 \<Rightarrow> BatchPolicy \<Rightarrow> BatchPolicy" where
  "check_and_update_defaults sid bp =
     (if source_known sid bp then bp
      else
        let bp1 = add_default_source sid bp
        in (case map_of (source_props (config bp1)) sid of
              Some _ \<Rightarrow> bp1
            | None \<Rightarrow>
                bp1\<lparr>config := (config bp1)\<lparr>source_props :=
                        al_insert sid default_source_props (source_props (config bp1))\<rparr>,
                    src_max_fps := al_insert sid
                        (fps (source_max_fps_n default_source_props)
                             (source_max_fps_d default_source_props))
                        (src_max_fps bp1)\<rparr>))"

definition update_push_stats :: "dbl \<Rightarrow> u32 \<Rightarrow> u32 \<Rightarrow> BatchPolicy \<Rightarrow> BatchPolicy" where
  "update_push_stats now sid num_pushed bp =
     (if enable_source_rate_control (config bp)
      then bp\<lparr>src_push_times := AList.update sid now (src_push_times bp),
              src_num_pushed := AList.update sid num_pushed (src_num_pushed bp)\<rparr>
      else bp)"

definition get_allowed :: "policy_env \<Rightarrow> u32 \<Rightarrow> dbl \<Rightarrow> u32 \<Rightarrow> BatchPolicy \<Rightarrow> u32" where
  "get_allowed env sid rate available bp =
     (if enable_source_rate_control (config bp)
      then (case map_of (src_push_times bp) sid of
              None \<Rightarrow> available
            | Some t \<Rightarrow>
                let n = dbl_to_u32 (ub_to_u32 env)
                          (ddiv ((clock_at env sid - t) * rate) (Fin 1000000000))
                in if available < n then available else n)
      else available)"

definition get_config_batch_size :: "pads \<Rightarrow> BatchPolicy \<Rightarrow> u32" where
  "get_config_batch_size ins bp =
     (if adaptive_batching (config bp) then max (cfg_batch_size (config bp)) (of_nat (length ins))
      else cfg_batch_size (config bp))"

definition get_batch_size :: "pads \<Rightarrow> BatchPolicy \<Rightarrow> u32" where
  "get_batch_size ins bp =
     (if adaptive_batching (config bp)
      then ucast (((of_nat (length ins) :: u64) - ucast (num_sources_eos bp))
                  * ucast (bp_num_surfaces_per_frame bp))
      else cfg_batch_size (config bp))"

definition set_cfg_batch_size :: "u32 \<Rightarrow> BatchPolicy \<Rightarrow> BatchPolicy" where
  "set_cfg_batch_size sz bp = bp\<lparr>config := (config bp)\<lparr>cfg_batch_size := sz\<rparr>\<rparr>"

text \<open>A timeout of zero divides by zero: undefined behaviour, \<open>None\<close>.\<close>

definition set_batch_push_timeout :: "u32 \<Rightarrow> BatchPolicy \<Rightarrow> BatchPolicy option" where
  "set_batch_push_timeout timeout bp =
     (if timeout = 0 then None
      else
        let n = 1000000 div timeout
        in Some (bp\<lparr>config := (config bp)\<lparr>overall_min_fps_n := n, overall_min_fps_d := 1\<rparr>,
                    min_fps_dur := fps_dur n 1\<rparr>))"

definition check_repeats_of_source :: "pads \<Rightarrow> u32 \<Rightarrow> BatchPolicy \<Rightarrow> u32" where
  "check_repeats_of_source ins sid bp =
     (let bs = get_batch_size ins bp;
          m = (case map_of (source_props (config bp)) sid of
                 None \<Rightarrow> NVSTREAMMUX_DEFAULT_SOURCE_GROUP_MAX_FRAMES_PER_BATCH
               | Some props \<Rightarrow> max_num_frames_per_batch props)
      in if m < bs then bs else m)"

section \<open>Forming a batch\<close>

text \<open>
  The loop of \<open>synchronize_buffers_in_pad\<close> over the entries of the queue, with \<open>n\<close> buffers
  left to check and the least early-by time \<open>m\<close> so far: the number of on-time buffers, the new
  least early-by time, the entries kept and the late buffers removed.
\<close>

fun synchronize_loop ::
  "policy_env \<Rightarrow> u32 \<Rightarrow> dbl \<Rightarrow> QueueEntry list \<Rightarrow> u32 \<times> dbl \<times> QueueEntry list \<times> QueueEntry list"
where
  "synchronize_loop env n m [] = (0, m, [], [])"
| "synchronize_loop env n m (e # q) =
     (if n = 0 then (0, m, e # q, [])
      else if entry_type e \<noteq> ENTRY_BUFFER then
        (case synchronize_loop env n m q of (k, m', kept, late) \<Rightarrow> (k, m', e # kept, late))
      else
        (case synch_info env e of
           (BUFFER_TS_EARLY, early_by) \<Rightarrow>
             (0, (if early_by < m \<or> deq m 0 then early_by else m), e # q, [])
         | (BUFFER_TS_LATE, _) \<Rightarrow>
             (case synchronize_loop env n m q of (k, m', kept, late) \<Rightarrow> (k, m', kept, e # late))
         | (BUFFER_TS_ONTIME, _) \<Rightarrow>
             (case synchronize_loop env (n - 1) m q of
                (k, m', kept, late) \<Rightarrow> (k + 1, m', e # kept, late))))"

text \<open>Every late buffer is erased from the queue and counted out with \<open>pop_buffer_done\<close>.\<close>

definition synchronize_buffers_in_pad ::
  "policy_env \<Rightarrow> SinkPad \<Rightarrow> u32 \<Rightarrow> BatchPolicy \<Rightarrow> u32 \<times> SinkPad \<times> BatchPolicy \<times> QueueEntry list"
where
  "synchronize_buffers_in_pad env p allowed bp =
     (case synchronize_loop env allowed (min_early_buffer_dur bp) (queue p) of
        (k, m, kept, late) \<Rightarrow>
          (k,
           fold (\<lambda>_ p. snd (pop_buffer_done p)) late (p\<lparr>queue := kept\<rparr>),
           bp\<lparr>min_early_buffer_dur := m\<rparr>,
           late))"

text \<open>The state that one pass over the sources updates: the batch, the policy and the pads.\<close>

type_synonym form_state = "Batch \<times> BatchPolicy \<times> pads"

text \<open>With a synchronisation interface, only the on-time buffers of the pad are taken.\<close>

definition take_from_pad ::
  "policy_env \<Rightarrow> u32 \<Rightarrow> SinkPad \<Rightarrow> u32 \<Rightarrow> BatchPolicy \<Rightarrow> pads \<Rightarrow> u32 \<times> pads \<times> BatchPolicy"
where
  "take_from_pad env sid pad n bp ins =
     (if synch_buffer bp
      then (case synchronize_buffers_in_pad env pad n bp of
              (k, pad', bp', late) \<Rightarrow> (k, AList.update sid (Some pad') ins, bp'))
      else (n, ins, bp))"

definition update_with_source :: "policy_env \<Rightarrow> u32 \<Rightarrow> form_state \<Rightarrow> form_state" where
  "update_with_source env sid st =
     (case st of (b, bp, ins) \<Rightarrow>
        let r0 = max_same_source_frames (config bp);
            rs = check_repeats_of_source ins sid bp;
            allowed = min r0 rs
        in (case map_of ins sid of
              None \<Rightarrow> st
            | Some None \<Rightarrow> st
            | Some (Some pad) \<Rightarrow>
                let bp1 = bp\<lparr>src_max_fps := al_touch 0 sid (src_max_fps bp)\<rparr>;
                    avail0 = get_allowed env sid (al_get 0 sid (src_max_fps bp1))
                               (get_available pad) bp1;
                    b1 = b\<lparr>num_sources := al_touch 0 sid (num_sources b)\<rparr>
                in if al_get 0 sid (num_sources b1) = allowed then (b1, bp1, ins)
                   else
                     let avail = min avail0 allowed;
                         room = batch_size b1 - acc_batch b1;
                         n0 = min room avail;
                         (n, ins', bp2) = take_from_pad env sid pad n0 bp1 ins
                     in (b1\<lparr>num_sources := AList.update sid n (num_sources b1),
                            acc_batch := acc_batch b1 + n\<rparr>, bp2, ins')))"

text \<open>
  The inner loop of \<open>form_batch\<close> walks over the sources of one priority, \<open>first\<close> to \<open>past\<close> in
  the multimap, from position \<open>idx\<close> on and around. It returns whether the batch became ready,
  and the next source index. The count is the number of sources left to process.
\<close>

fun form_inner ::
  "policy_env \<Rightarrow> nat \<Rightarrow> nat \<Rightarrow> nat \<Rightarrow> nat \<Rightarrow> nat \<Rightarrow> form_state \<Rightarrow> (bool \<times> nat \<times> form_state) option"
where
  "form_inner env first past 0 idx si st = Some (False, si, st)"
| "form_inner env first past (Suc n) idx si st =
     (if length (sources (fst (snd st))) \<le> idx then None
      else
        let st' = update_with_source env (snd (sources (fst (snd st)) ! idx)) st;
            (idx', si') = (if idx + 1 = past then (first, 0) else (idx + 1, si + 1))
        in if is_ready (fst st') then Some (True, si', st')
           else form_inner env first past n idx' si' st')"

definition set_last_state :: "nat \<Rightarrow> nat \<Rightarrow> form_state \<Rightarrow> form_state" where
  "set_last_state pp sp st =
     (case st of (b, bp, ins) \<Rightarrow>
        (b, bp\<lparr>last_batch_state :=
              \<lparr>priority_list_position = pp, source_map_position = sp\<rparr>\<rparr>, ins))"

text \<open>
  The outer loop walks over the priorities from position \<open>pos\<close> on and around; \<open>jump\<close> holds for
  the first priority, where round robin resumes behind the source it served last. Both loops are
  \<open>do ... while\<close> loops: the body runs at least once.
\<close>

fun form_outer :: "policy_env \<Rightarrow> nat \<Rightarrow> nat \<Rightarrow> nat \<Rightarrow> bool \<Rightarrow> form_state \<Rightarrow> form_state option" where
  "form_outer env 0 pos pidx jump st = Some st"
| "form_outer env (Suc n) pos pidx jump st =
     (let bp = fst (snd st); prios = priority_list bp
      in if length prios \<le> pos then None
         else
           let prio = prios ! pos;
               lo = mm_lower prio (sources bp);
               hi = mm_upper prio (sources bp);
               rr = (jump \<and> cfg_type (config bp) = BATCH_METHOD_ROUND_ROBIN);
               si = (if rr then source_map_position (last_batch_state bp) else 0)
           in (case form_inner env lo hi (max 1 (hi - lo)) (lo + si) si st of
                 None \<Rightarrow> None
               | Some (True, si', st') \<Rightarrow> Some (set_last_state pidx si' st')
               | Some (False, si', st') \<Rightarrow>
                   let (pos', pidx') = (if pos + 1 = length prios then (0, 0) else (pos + 1, pidx + 1))
                   in if n = 0 then Some (set_last_state pidx' si' st')
                      else form_outer env n pos' pidx' (jump \<and> \<not> rr) st'))"

definition reset_batch :: "Batch \<Rightarrow> Batch" where
  "reset_batch b = b\<lparr>num_sources := [], acc_batch := 0\<rparr>"

definition set_size :: "u32 \<Rightarrow> Batch \<Rightarrow> Batch" where
  "set_size n b = b\<lparr>batch_size := n\<rparr>"

definition new_Batch :: "u32 \<Rightarrow> Batch" where
  "new_Batch n = \<lparr>num_sources = [], acc_batch = 0, batch_size = n\<rparr>"

definition form_batch ::
  "policy_env \<Rightarrow> Batch option \<Rightarrow> u32 \<Rightarrow> BatchPolicy \<Rightarrow> pads \<Rightarrow> form_state option"
where
  "form_batch env batch this_batch_size bp ins =
     (let b = reset_batch (case batch of None \<Rightarrow> new_Batch this_batch_size
                                       | Some b0 \<Rightarrow> set_size this_batch_size b0);
          total = length (priority_list bp);
          adv = (if cfg_type (config bp) = BATCH_METHOD_ROUND_ROBIN
                 then priority_list_position (last_batch_state bp) else 0)
      in if total < adv then None
         else form_outer env (max 1 total) (if adv = total then 0 else adv) adv True (b, bp, ins))"

section \<open>Counters and switches\<close>

definition set_num_surfaces :: "u32 \<Rightarrow> BatchPolicy \<Rightarrow> BatchPolicy" where
  "set_num_surfaces n bp = bp\<lparr>bp_num_surfaces_per_frame := n\<rparr>"

definition update_idle_sources :: "u32 \<Rightarrow> BatchPolicy \<Rightarrow> BatchPolicy" where
  "update_idle_sources n bp = bp\<lparr>bp_num_sources_idle := n\<rparr>"

definition update_eos_sources :: "u32 \<Rightarrow> BatchPolicy \<Rightarrow> BatchPolicy" where
  "update_eos_sources n bp = bp\<lparr>num_sources_eos := n\<rparr>"

definition get_eos_sources :: "BatchPolicy \<Rightarrow> u32" where
  "get_eos_sources bp = num_sources_eos bp"

definition is_max_fps_control_enabled :: "BatchPolicy \<Rightarrow> bool" where
  "is_max_fps_control_enabled bp = enable_max_fps_control (config bp)"

text \<open>The interface itself is the field \<open>synch_info\<close> of the environment.\<close>

definition set_synch_buffer_iface :: "bool \<Rightarrow> BatchPolicy \<Rightarrow> BatchPolicy" where
  "set_synch_buffer_iface present bp = bp\<lparr>synch_buffer := present\<rparr>"

definition get_min_fps_duration :: "BatchPolicy \<Rightarrow> dbl" where
  "get_min_fps_duration bp = min_fps_dur bp"

end
