(* ===== verification/MuxBatchOrder.thy ===== *)
theory MuxBatchOrder
  imports MuxBatch "HOL-Library.Multiset" "HOL-Library.Sublist"
begin

text \<open>
  The order in which \<open>form_batch\<close> serves the sources. The code walks over the list of priorities
  and, within one priority, over a range of the multimap, with positions that wrap around. The
  abstract description is a list, \<open>service_order\<close>: the priorities rotated to where the last batch
  stopped, the first group rotated to the source behind the one served last. The main lemma says
  that, on a well-formed policy, \<open>form_batch\<close> visits this list until the batch is ready.
\<close>

section \<open>The invariant of the policy\<close>

definition policy_wf :: "BatchPolicy \<Rightarrow> bool" where
  "policy_wf bp \<longleftrightarrow>
     sorted_wrt (<) (priority_list bp) \<and>
     sorted (map (\<lambda>p. sint (fst p)) (sources bp)) \<and>
     set (priority_list bp) = fst ` set (sources bp) \<and>
     distinct (map snd (sources bp))"

definition group_of :: "u32 \<Rightarrow> BatchPolicy \<Rightarrow> u32 list" where
  "group_of k bp = map snd (filter (\<lambda>p. fst p = k) (sources bp))"

text \<open>The saved position names a priority, and a source of its group.\<close>

definition position_ok :: "BatchPolicy \<Rightarrow> bool" where
  "position_ok bp \<longleftrightarrow>
     (let pp = priority_list_position (last_batch_state bp);
          sp = source_map_position (last_batch_state bp)
      in if priority_list bp = [] then pp = 0 \<and> sp = 0
         else pp < length (priority_list bp) \<and> sp < length (group_of (priority_list bp ! pp) bp))"

section \<open>The specification: serve a list of sources until the batch is ready\<close>

fun visit :: "policy_env \<Rightarrow> u32 list \<Rightarrow> form_state \<Rightarrow> bool \<times> form_state" where
  "visit env [] st = (False, st)"
| "visit env (s # ss) st =
     (let st' = update_with_source env s st
      in if is_ready (fst st') then (True, st') else visit env ss st')"

text \<open>How many sources of the list are served.\<close>

fun visited :: "policy_env \<Rightarrow> u32 list \<Rightarrow> form_state \<Rightarrow> nat" where
  "visited env [] st = 0"
| "visited env (s # ss) st =
     (let st' = update_with_source env s st
      in if is_ready (fst st') then 1 else Suc (visited env ss st'))"

lemma visited_le: "visited env ss st \<le> length ss"
  by (induction ss arbitrary: st) (auto simp: Let_def)

lemma visited_not_ready: "\<not> fst (visit env ss st) \<Longrightarrow> visited env ss st = length ss"
  by (induction ss arbitrary: st) (auto simp: Let_def split: if_splits)

definition service_order :: "BatchPolicy \<Rightarrow> u32 list" where
  "service_order bp =
     (let rr = (cfg_type (config bp) = BATCH_METHOD_ROUND_ROBIN);
          pp = (if rr then priority_list_position (last_batch_state bp) else 0);
          sp = (if rr then source_map_position (last_batch_state bp) else 0)
      in case rotate pp (priority_list bp) of
           [] \<Rightarrow> []
         | k # ks \<Rightarrow> rotate sp (group_of k bp) @ concat (map (\<lambda>k. group_of k bp) ks))"

lemma visit_append:
  "visit env (xs @ ys) st =
     (if fst (visit env xs st) then visit env xs st else visit env ys (snd (visit env xs st)))"
  by (induction xs arbitrary: st) (auto simp: Let_def)

section \<open>What a visit leaves alone\<close>

definition same_sources :: "BatchPolicy \<Rightarrow> BatchPolicy \<Rightarrow> bool" where
  "same_sources bp bp' \<longleftrightarrow>
     sources bp' = sources bp \<and> priority_list bp' = priority_list bp \<and>
     config bp' = config bp \<and> last_batch_state bp' = last_batch_state bp \<and>
     num_sources_eos bp' = num_sources_eos bp \<and>
     bp_num_surfaces_per_frame bp' = bp_num_surfaces_per_frame bp \<and>
     src_push_times bp' = src_push_times bp \<and> synch_buffer bp' = synch_buffer bp"

lemma same_sources_refl [simp]: "same_sources bp bp"
  by (simp add: same_sources_def)

lemma same_sources_trans: "same_sources a b \<Longrightarrow> same_sources b c \<Longrightarrow> same_sources a c"
  by (simp add: same_sources_def)

lemma same_sourcesD:
  assumes "same_sources bp bp'"
  shows "sources bp' = sources bp" "priority_list bp' = priority_list bp"
    "config bp' = config bp" "last_batch_state bp' = last_batch_state bp"
    "group_of k bp' = group_of k bp"
  using assms by (simp_all add: same_sources_def group_of_def)

text \<open>The three ways \<open>update_with_source\<close> can go.\<close>

lemma update_with_source_cases:
  obtains (no_pad) "update_with_source env sid (b, bp, ins) = (b, bp, ins)"
      "map_of ins sid = None \<or> map_of ins sid = Some None"
  | (in_batch) pad where "map_of ins sid = Some (Some pad)"
      "al_get 0 sid (num_sources b) =
         min (max_same_source_frames (config bp)) (check_repeats_of_source ins sid bp)"
      "update_with_source env sid (b, bp, ins) =
         (b\<lparr>num_sources := al_touch 0 sid (num_sources b)\<rparr>,
          bp\<lparr>src_max_fps := al_touch 0 sid (src_max_fps bp)\<rparr>, ins)"
  | (added) pad bp1 avail allowed n ins' bp2 where "map_of ins sid = Some (Some pad)"
      "bp1 = bp\<lparr>src_max_fps := al_touch 0 sid (src_max_fps bp)\<rparr>"
      "allowed = min (max_same_source_frames (config bp)) (check_repeats_of_source ins sid bp)"
      "al_get 0 sid (num_sources b) \<noteq> allowed"
      "avail = min (get_allowed env sid (al_get 0 sid (src_max_fps bp1)) (get_available pad) bp1)
                   allowed"
      "take_from_pad env sid pad (min (batch_size b - acc_batch b) avail) bp1 ins = (n, ins', bp2)"
      "update_with_source env sid (b, bp, ins) =
         (b\<lparr>num_sources := AList.update sid n (al_touch 0 sid (num_sources b)),
            acc_batch := acc_batch b + n\<rparr>, bp2, ins')"
proof -
  have get: "al_get 0 sid (al_touch 0 sid m) = al_get 0 sid m" for m :: "(u32 \<times> u32) list"
    by (simp add: al_get_def map_of_al_touch split: option.splits)
  consider "map_of ins sid = None \<or> map_of ins sid = Some None"
    | pad where "map_of ins sid = Some (Some pad)"
    by (cases "map_of ins sid") auto
  then show thesis
  proof cases
    case 1
    then show ?thesis using no_pad by (auto simp: update_with_source_def Let_def)
  next
    case 2
    define bp1 where "bp1 = bp\<lparr>src_max_fps := al_touch 0 sid (src_max_fps bp)\<rparr>"
    define allowed where
      "allowed = min (max_same_source_frames (config bp)) (check_repeats_of_source ins sid bp)"
    define avail where "avail = min
      (get_allowed env sid (al_get 0 sid (src_max_fps bp1)) (get_available pad) bp1) allowed"
    obtain n ins' bp2 where take:
      "take_from_pad env sid pad (min (batch_size b - acc_batch b) avail) bp1 ins = (n, ins', bp2)"
      by (metis prod_cases3)
    show ?thesis
    proof (cases "al_get 0 sid (num_sources b) = allowed")
      case True
      with 2 show ?thesis
        by (intro in_batch) (simp_all add: update_with_source_def Let_def get allowed_def)
    next
      case False
      have "update_with_source env sid (b, bp, ins) =
         (b\<lparr>num_sources := AList.update sid n (al_touch 0 sid (num_sources b)),
            acc_batch := acc_batch b + n\<rparr>, bp2, ins')"
        using 2 False take
        by (simp add: update_with_source_def Let_def get
            flip: allowed_def bp1_def avail_def)
      with 2 bp1_def allowed_def False avail_def take show ?thesis by (rule added)
    qed
  qed
qed

lemma synchronize_buffers_in_pad_same:
  "synchronize_buffers_in_pad env p n bp = (k, p', bp', late) \<Longrightarrow> same_sources bp bp'"
  by (auto simp: synchronize_buffers_in_pad_def same_sources_def split: prod.splits)

lemma update_with_source_same:
  "same_sources (fst (snd st)) (fst (snd (update_with_source env sid st)))"
proof (cases st)
  case (fields b bp ins)
  show ?thesis
  proof (cases rule: update_with_source_cases [of env sid b bp ins])
    case (added pad bp1 avail allowed n ins' bp2)
    have "same_sources bp bp1" using added(2) by (simp add: same_sources_def)
    moreover have "same_sources bp1 bp2"
      using added(6) by (auto simp: take_from_pad_def dest: synchronize_buffers_in_pad_same
          split: if_splits prod.splits)
    ultimately show ?thesis using added(7) fields by (auto intro: same_sources_trans)
  qed (simp_all add: fields same_sources_def)
qed

lemma update_with_source_size:
  "batch_size (fst (update_with_source env sid st)) = batch_size (fst st)"
proof (cases st)
  case (fields b bp ins)
  show ?thesis
    by (cases rule: update_with_source_cases [of env sid b bp ins]) (simp_all add: fields)
qed

lemma visit_same: "same_sources (fst (snd st)) (fst (snd (snd (visit env ss st))))"
proof (induction ss arbitrary: st)
  case (Cons s ss)
  have "same_sources (fst (snd st)) (fst (snd (update_with_source env s st)))"
    by (rule update_with_source_same)
  moreover have "same_sources (fst (snd (update_with_source env s st)))
      (fst (snd (snd (visit env ss (update_with_source env s st)))))"
    by (rule Cons.IH)
  ultimately show ?case by (simp add: Let_def) (blast intro: same_sources_trans)
qed simp

section \<open>The ranges of the multimap\<close>

lemma sint_eq_iff [simp]: "sint (a :: u32) = sint b \<longleftrightarrow> a = b"
  by (auto intro: signed_word_eqI)

lemma take_drop_range:
  "sorted (map f xs) \<Longrightarrow>
   take (length (takeWhile (\<lambda>x. f x \<le> c) xs) - length (takeWhile (\<lambda>x. f x < c) xs))
        (drop (length (takeWhile (\<lambda>x. f x < c) xs)) xs) = filter (\<lambda>x. f x = c) xs"
  for f :: "'a \<Rightarrow> int"
proof (induction xs)
  case (Cons x xs)
  show ?case
  proof (cases "f x < c")
    case True
    with Cons show ?thesis by simp
  next
    case False
    with Cons have "takeWhile (\<lambda>x. f x < c) xs = []"
      by (cases xs) auto
    moreover have "filter (\<lambda>y. f y = c) xs = []" if "f x \<noteq> c"
      using that Cons.prems False by (force simp: filter_empty_conv)
    ultimately show ?thesis
      using Cons False by (cases "f x = c") auto
  qed
qed simp

lemma take_drop_group:
  assumes "policy_wf bp"
  shows "take (mm_upper k (sources bp) - mm_lower k (sources bp))
           (drop (mm_lower k (sources bp)) (sources bp)) = filter (\<lambda>p. fst p = k) (sources bp)"
  using assms take_drop_range [of "\<lambda>p. sint (fst p)" "sources bp" "sint k"]
  by (simp add: policy_wf_def mm_upper_def mm_lower_def)

lemma length_takeWhile_mono:
  "(\<And>x. P x \<Longrightarrow> Q x) \<Longrightarrow> length (takeWhile P xs) \<le> length (takeWhile Q xs)"
  by (induction xs) auto

lemma mm_bounds:
  "mm_lower k m \<le> mm_upper k m" "mm_upper k m \<le> length m"
  by (auto simp: mm_lower_def mm_upper_def intro: length_takeWhile_mono length_takeWhile_le)

lemma length_group:
  assumes "policy_wf bp"
  shows "length (group_of k bp) = mm_upper k (sources bp) - mm_lower k (sources bp)"
proof -
  have "length (group_of k bp) =
      length (take (mm_upper k (sources bp) - mm_lower k (sources bp))
           (drop (mm_lower k (sources bp)) (sources bp)))"
    by (simp add: group_of_def take_drop_group [OF assms])
  then show ?thesis
    using mm_bounds [of k "sources bp"] by simp
qed

lemma nth_group:
  assumes "policy_wf bp" "i < length (group_of k bp)"
  shows "snd (sources bp ! (mm_lower k (sources bp) + i)) = group_of k bp ! i"
proof -
  let ?lo = "mm_lower k (sources bp)" and ?hi = "mm_upper k (sources bp)"
  have i: "i < ?hi - ?lo" using assms by (simp add: length_group)
  then have "?lo + i < length (sources bp)" using mm_bounds [of k "sources bp"] by linarith
  then have "take (?hi - ?lo) (drop ?lo (sources bp)) ! i = sources bp ! (?lo + i)"
    using i by simp
  moreover have "i < length (filter (\<lambda>p. fst p = k) (sources bp))"
    using assms(2) by (simp add: group_of_def)
  ultimately show ?thesis
    by (simp add: group_of_def take_drop_group [OF assms(1)])
qed

lemma group_nonempty:
  assumes "policy_wf bp" "k \<in> set (priority_list bp)"
  shows "group_of k bp \<noteq> []"
  using assms by (auto simp: policy_wf_def group_of_def filter_empty_conv)

lemma take_Suc_rotate:
  assumes "n < length xs" "k < length xs"
  shows "take (Suc n) (rotate k xs) = xs ! k # take n (rotate (Suc k mod length xs) xs)"
proof -
  have ne: "rotate k xs \<noteq> []" using assms by auto
  have hd: "hd (rotate k xs) = xs ! k"
    using assms by (subst hd_rotate_conv_nth) auto
  obtain y ys where r: "rotate k xs = y # ys" using ne by (cases "rotate k xs") auto
  then have "rotate (Suc k mod length xs) xs = ys @ [y]"
    by (simp add: rotate_conv_mod [symmetric])
  moreover have "length ys = length xs - 1" using arg_cong [OF r, of length] by simp
  ultimately show ?thesis using assms hd r by simp
qed

section \<open>The loops follow the service order\<close>

lemma policy_wf_same: "same_sources bp bp' \<Longrightarrow> policy_wf bp \<Longrightarrow> policy_wf bp'"
  by (simp add: policy_wf_def same_sources_def)

lemma form_inner_visit:
  fixes k bp
  defines "G \<equiv> group_of k bp" and "lo \<equiv> mm_lower k (sources bp)" and "hi \<equiv> mm_upper k (sources bp)"
  assumes "policy_wf bp" "same_sources bp (fst (snd st))" "i < length G" "n \<le> length G"
  shows "\<exists>si'. si' < length G \<and>
    form_inner env lo hi n (lo + i) i st =
      Some (fst (visit env (take n (rotate i G)) st), si',
            snd (visit env (take n (rotate i G)) st)) \<and>
    si' = (i + visited env (take n (rotate i G)) st) mod length G"
  using assms(5-7)
proof (induction n arbitrary: i st)
  case 0
  then show ?case by simp
next
  case (Suc n)
  let ?st' = "update_with_source env (G ! i) st" and ?i' = "Suc i mod length G"
  have len: "length G = hi - lo" and hi: "hi \<le> length (sources bp)"
    using length_group [OF assms(4)] mm_bounds by (auto simp: G_def lo_def hi_def)
  have src: "sources (fst (snd st)) = sources bp"
    using Suc.prems(1) by (rule same_sourcesD)
  have elem: "snd (sources bp ! (lo + i)) = G ! i"
    using nth_group [OF assms(4)] Suc.prems(2) by (simp add: G_def lo_def)
  have bound: "\<not> length (sources bp) \<le> lo + i"
    using Suc.prems(2) len hi by linarith
  have next_pos: "(if lo + i + 1 = hi then (lo, 0) else (lo + i + 1, i + 1)) = (lo + ?i', ?i')"
    using Suc.prems(2) len by (auto simp: mod_Suc)
  have step: "form_inner env lo hi (Suc n) (lo + i) i st =
      (if is_ready (fst ?st') then Some (True, ?i', ?st')
       else form_inner env lo hi n (lo + ?i') ?i' ?st')"
    using bound next_pos by (simp add: src elem Let_def split: prod.splits if_splits)
  have take: "take (Suc n) (rotate i G) = G ! i # take n (rotate ?i' G)"
    using Suc.prems by (intro take_Suc_rotate) auto
  have i': "?i' < length G" using Suc.prems(2) by (intro mod_less_divisor) linarith
  show ?case
  proof (cases "is_ready (fst ?st')")
    case True
    then show ?thesis using step i' by (auto simp: take Let_def mod_Suc)
  next
    case False
    have "same_sources bp (fst (snd ?st'))"
      using Suc.prems(1) update_with_source_same by (rule same_sources_trans)
    then obtain si' where "si' < length G"
      "form_inner env lo hi n (lo + ?i') ?i' ?st' =
         Some (fst (visit env (take n (rotate ?i' G)) ?st'), si',
               snd (visit env (take n (rotate ?i' G)) ?st'))"
      "si' = (?i' + visited env (take n (rotate ?i' G)) ?st') mod length G"
      using Suc.IH [of ?st' ?i'] i' Suc.prems(3) by auto
    with False step show ?thesis
      by (auto simp: take Let_def mod_simps)
  qed
qed

text \<open>The service order of the \<open>n\<close> priorities that are left, starting at position \<open>pos\<close>.\<close>

definition rest_order :: "BatchPolicy \<Rightarrow> nat \<Rightarrow> nat \<Rightarrow> nat \<Rightarrow> u32 list" where
  "rest_order bp n pos sp =
     (case take n (rotate pos (priority_list bp)) of
        [] \<Rightarrow> []
      | k # ks \<Rightarrow> rotate sp (group_of k bp) @ concat (map (\<lambda>k. group_of k bp) ks))"

lemma rest_order_0 [simp]: "rest_order bp 0 pos sp = []"
  by (simp add: rest_order_def)

lemma rest_order_Suc:
  assumes "n < length (priority_list bp)" "pos < length (priority_list bp)"
  shows "rest_order bp (Suc n) pos sp =
      rotate sp (group_of (priority_list bp ! pos) bp)
      @ rest_order bp n (Suc pos mod length (priority_list bp)) 0"
  using assms by (auto simp: rest_order_def take_Suc_rotate split: list.splits)

definition jump_position :: "BatchPolicy \<Rightarrow> bool \<Rightarrow> nat" where
  "jump_position bp jump =
     (if jump \<and> cfg_type (config bp) = BATCH_METHOD_ROUND_ROBIN
      then source_map_position (last_batch_state bp) else 0)"

definition forget_position :: "form_state \<Rightarrow> form_state" where
  "forget_position st = set_last_state 0 0 st"

lemma forget_set_last_state [simp]:
  "forget_position (set_last_state pp sp st) = forget_position st"
  by (cases st) (simp add: forget_position_def set_last_state_def)

lemma last_state_set_last_state [simp]:
  "last_batch_state (fst (snd (set_last_state pp sp st))) =
     \<lparr>priority_list_position = pp, source_map_position = sp\<rparr>"
  by (cases st) (simp add: set_last_state_def)

lemma set_last_state_same:
  "fst (set_last_state pp sp st) = fst st" "snd (snd (set_last_state pp sp st)) = snd (snd st)"
  "sources (fst (snd (set_last_state pp sp st))) = sources (fst (snd st))"
  "priority_list (fst (snd (set_last_state pp sp st))) = priority_list (fst (snd st))"
  "config (fst (snd (set_last_state pp sp st))) = config (fst (snd st))"
  by (cases st, simp add: set_last_state_def)+

text \<open>
  What a run of the outer loop yields: the state after the visit, but for the saved position,
  which is again in range.
\<close>

definition good_result :: "BatchPolicy \<Rightarrow> form_state \<Rightarrow> form_state option \<Rightarrow> bool" where
  "good_result bp st r \<longleftrightarrow>
     (\<exists>st'. r = Some st' \<and> forget_position st' = forget_position st \<and>
        priority_list_position (last_batch_state (fst (snd st'))) < length (priority_list bp) \<and>
        source_map_position (last_batch_state (fst (snd st'))) <
          length (group_of (priority_list bp !
                    priority_list_position (last_batch_state (fst (snd st')))) bp))"

lemma good_resultI:
  assumes "r = Some (set_last_state pp sp st)" "pp < length (priority_list bp)"
    "sp < length (group_of (priority_list bp ! pp) bp)"
  shows "good_result bp st r"
  using assms unfolding good_result_def by (intro exI [of _ "set_last_state pp sp st"]) simp

lemma jump_position_next [simp]:
  "jump_position bp (jump \<and> \<not> (jump \<and> cfg_type (config bp) = BATCH_METHOD_ROUND_ROBIN)) = 0"
  by (auto simp: jump_position_def)

text \<open>One round of the outer loop.\<close>

lemma form_outer_step:
  fixes bp
  assumes wf: "policy_wf bp" and same: "same_sources bp (fst (snd st))"
    and pos: "pos < length (priority_list bp)"
    and jp: "jump_position bp jump < length (group_of (priority_list bp ! pos) bp)"
  obtains si' jump' where "si' < length (group_of (priority_list bp ! pos) bp)"
    "jump_position bp jump' = 0"
    "\<not> fst (visit env (rotate (jump_position bp jump) (group_of (priority_list bp ! pos) bp)) st)
       \<Longrightarrow> si' = jump_position bp jump"
    "si' = (jump_position bp jump +
            visited env (rotate (jump_position bp jump) (group_of (priority_list bp ! pos) bp)) st)
           mod length (group_of (priority_list bp ! pos) bp)"
    "form_outer env (Suc n) pos pos jump st =
       (let v = visit env (rotate (jump_position bp jump) (group_of (priority_list bp ! pos) bp)) st;
            pos' = Suc pos mod length (priority_list bp)
        in if fst v then Some (set_last_state pos si' (snd v))
           else if n = 0 then Some (set_last_state pos' si' (snd v))
           else form_outer env n pos' pos' jump' (snd v))"
proof -
  let ?k = "priority_list bp ! pos" and ?sp = "jump_position bp jump"
  let ?G = "group_of ?k bp" and ?s = "sources bp"
  let ?v = "visit env (rotate ?sp ?G) st"
  note sameD = same_sourcesD [OF same]
  obtain si' where inner: "si' < length ?G"
    "form_inner env (mm_lower ?k ?s) (mm_upper ?k ?s) (length ?G) (mm_lower ?k ?s + ?sp) ?sp st =
      Some (fst ?v, si', snd ?v)"
    "si' = (?sp + visited env (rotate ?sp ?G) st) mod length ?G"
    using form_inner_visit [OF wf same jp order_refl, of env] jp by auto
  moreover have "visited env (rotate ?sp ?G) st = length ?G" if "\<not> fst ?v"
    using visited_not_ready [OF that] by simp
  ultimately have same_si: "\<not> fst ?v \<longrightarrow> si' = ?sp" using jp by simp
  have len: "max (Suc 0) (mm_upper ?k ?s - mm_lower ?k ?s) = length ?G"
    using length_group [OF wf, of ?k] jp by simp
  have pos': "(if Suc pos = length (priority_list bp) then (0, 0) else (Suc pos, Suc pos)) =
      (Suc pos mod length (priority_list bp), Suc pos mod length (priority_list bp))"
    using pos by (auto simp: mod_Suc)
  let ?jump' = "jump \<and> \<not> (jump \<and> cfg_type (config bp) = BATCH_METHOD_ROUND_ROBIN)"
  have "form_outer env (Suc n) pos pos jump st =
     (case form_inner env (mm_lower ?k ?s) (mm_upper ?k ?s) (length ?G)
             (mm_lower ?k ?s + ?sp) ?sp st of
        None \<Rightarrow> None
      | Some (True, si', st') \<Rightarrow> Some (set_last_state pos si' st')
      | Some (False, si', st') \<Rightarrow>
          (case (if Suc pos = length (priority_list bp) then (0, 0) else (Suc pos, Suc pos)) of
             (pos', pidx') \<Rightarrow>
               if n = 0 then Some (set_last_state pidx' si' st')
               else form_outer env n pos' pidx' ?jump' st'))"
    using pos by (cases "jump \<and> cfg_type (config bp) = BATCH_METHOD_ROUND_ROBIN")
      (auto simp: sameD Let_def len jump_position_def simp del: form_inner.simps
        split: option.split prod.split bool.split)
  then have "form_outer env (Suc n) pos pos jump st =
       (let v = ?v; pos' = Suc pos mod length (priority_list bp)
        in if fst v then Some (set_last_state pos si' (snd v))
           else if n = 0 then Some (set_last_state pos' si' (snd v))
           else form_outer env n pos' pos' ?jump' (snd v))"
    unfolding inner(2) pos' by (simp add: Let_def split: bool.split)
  then show thesis
    using inner(1,3) same_si jump_position_next [of bp jump]
    by (intro that [of si' ?jump']) (simp_all only: simp_thms)
qed

lemma form_outer_visit:
  fixes bp
  defines "L \<equiv> length (priority_list bp)"
  assumes wf: "policy_wf bp" and "same_sources bp (fst (snd st))" "pos < L" "n < L"
    "jump_position bp jump < length (group_of (priority_list bp ! pos) bp)"
    "n = 0 \<Longrightarrow> jump_position bp jump <
       length (group_of (priority_list bp ! (Suc pos mod L)) bp)"
  shows "good_result bp
           (snd (visit env (rest_order bp (Suc n) pos (jump_position bp jump)) st))
           (form_outer env (Suc n) pos pos jump st)"
  using assms(3-)
proof (induction n arbitrary: pos jump st)
  case (0 pos jump st)
  let ?v = "visit env (rotate (jump_position bp jump) (group_of (priority_list bp ! pos) bp)) st"
  from "0.prems" obtain si' jump' where *:
    "si' < length (group_of (priority_list bp ! pos) bp)"
    "\<not> fst ?v \<Longrightarrow> si' = jump_position bp jump"
    "form_outer env (Suc 0) pos pos jump st =
       (if fst ?v then Some (set_last_state pos si' (snd ?v))
        else Some (set_last_state (Suc pos mod L) si' (snd ?v)))"
    by (elim form_outer_step [OF wf, of st pos jump env 0]) (simp_all add: L_def Let_def)
  have "rest_order bp (Suc 0) pos (jump_position bp jump) =
      rotate (jump_position bp jump) (group_of (priority_list bp ! pos) bp)"
    using "0.prems" by (simp add: rest_order_Suc L_def)
  moreover have "good_result bp (snd ?v) (form_outer env (Suc 0) pos pos jump st)"
  proof (cases "fst ?v")
    case True
    with * "0.prems" show ?thesis by (intro good_resultI [of _ pos si']) (simp_all add: L_def)
  next
    case False
    with * "0.prems" show ?thesis
      by (intro good_resultI [of _ "Suc pos mod L" si']) (simp_all add: L_def)
  qed
  ultimately show ?case by (simp only:)
next
  case (Suc n pos jump st)
  let ?v = "visit env (rotate (jump_position bp jump) (group_of (priority_list bp ! pos) bp)) st"
  let ?pos' = "Suc pos mod L"
  from Suc.prems obtain si' jump' where *:
    "si' < length (group_of (priority_list bp ! pos) bp)" "jump_position bp jump' = 0"
    "form_outer env (Suc (Suc n)) pos pos jump st =
       (if fst ?v then Some (set_last_state pos si' (snd ?v))
        else form_outer env (Suc n) ?pos' ?pos' jump' (snd ?v))"
    by (elim form_outer_step [OF wf, of st pos jump env "Suc n"]) (simp_all add: L_def Let_def)
  have pos': "?pos' < L" using Suc.prems(2) by (intro mod_less_divisor) simp
  have order: "rest_order bp (Suc (Suc n)) pos (jump_position bp jump) =
      rotate (jump_position bp jump) (group_of (priority_list bp ! pos) bp)
      @ rest_order bp (Suc n) ?pos' 0"
    using Suc.prems unfolding L_def by (intro rest_order_Suc) simp_all
  have groups: "0 < length (group_of (priority_list bp ! i) bp)" if "i < L" for i
    using group_nonempty [OF wf nth_mem] that by (simp add: L_def)
  show ?case
  proof (cases "fst ?v")
    case True
    then have "snd (visit env (rest_order bp (Suc (Suc n)) pos (jump_position bp jump)) st) = snd ?v"
      by (simp add: order visit_append)
    with True * Suc.prems show ?thesis
      by (intro good_resultI [of _ pos si']) (simp_all add: L_def)
  next
    case False
    have "same_sources bp (fst (snd (snd ?v)))"
      using Suc.prems(1) visit_same by (rule same_sources_trans)
    then have "good_result bp
        (snd (visit env (rest_order bp (Suc n) ?pos' (jump_position bp jump')) (snd ?v)))
        (form_outer env (Suc n) ?pos' ?pos' jump' (snd ?v))"
      using Suc.prems(3) pos' *(2) groups by (intro Suc.IH) simp_all
    with False * show ?thesis
      by (simp add: order visit_append)
  qed
qed

section \<open>form_batch serves the sources in the service order\<close>

definition initial_batch :: "Batch option \<Rightarrow> u32 \<Rightarrow> Batch" where
  "initial_batch batch n =
     reset_batch (case batch of None \<Rightarrow> new_Batch n | Some b0 \<Rightarrow> set_size n b0)"

lemma initial_batch_simps [simp]:
  "num_sources (initial_batch batch n) = []" "acc_batch (initial_batch batch n) = 0"
  "batch_size (initial_batch batch n) = n"
  by (simp_all add: initial_batch_def reset_batch_def new_Batch_def set_size_def
      split: option.split)

lemma service_order_rest:
  assumes "position_ok bp" "priority_list bp \<noteq> []"
  defines "adv \<equiv> (if cfg_type (config bp) = BATCH_METHOD_ROUND_ROBIN
                  then priority_list_position (last_batch_state bp) else 0)"
  shows "service_order bp =
    rest_order bp (length (priority_list bp)) adv (jump_position bp True)"
  using assms by (simp add: service_order_def rest_order_def jump_position_def Let_def)

lemma good_result_position:
  assumes "good_result bp st r" "priority_list bp \<noteq> []" "same_sources bp (fst (snd st))"
  obtains st' where "r = Some st'" "forget_position st' = forget_position st"
    "position_ok (fst (snd st'))"
proof -
  obtain st' where st': "r = Some st'" "forget_position st' = forget_position st"
    "priority_list_position (last_batch_state (fst (snd st'))) < length (priority_list bp)"
    "source_map_position (last_batch_state (fst (snd st'))) <
       length (group_of (priority_list bp !
          priority_list_position (last_batch_state (fst (snd st')))) bp)"
    using assms(1) by (auto simp: good_result_def)
  have eq: "priority_list (fst (snd st')) = priority_list (fst (snd st))"
    "sources (fst (snd st')) = sources (fst (snd st))"
    using arg_cong [OF st'(2), of "\<lambda>s. priority_list (fst (snd s))"]
      arg_cong [OF st'(2), of "\<lambda>s. sources (fst (snd s))"]
    by (simp_all add: forget_position_def set_last_state_same)
  have "position_ok (fst (snd st'))"
    using st'(3,4) assms(2) eq same_sourcesD [OF assms(3)]
    by (simp add: position_ok_def Let_def group_of_def)
  with st'(1,2) show thesis by (rule that)
qed

lemma form_batch_visit:
  assumes wf: "policy_wf bp" and pos: "position_ok bp" and ne: "priority_list bp \<noteq> []"
  obtains st' where "form_batch env batch n bp ins = Some st'"
    "forget_position st' =
       forget_position (snd (visit env (service_order bp) (initial_batch batch n, bp, ins)))"
    "position_ok (fst (snd st'))"
proof -
  let ?st = "(initial_batch batch n, bp, ins)" and ?L = "length (priority_list bp)"
  define adv where "adv = (if cfg_type (config bp) = BATCH_METHOD_ROUND_ROBIN
                  then priority_list_position (last_batch_state bp) else 0)"
  have adv: "adv < ?L" using pos ne by (auto simp: adv_def position_ok_def Let_def)
  have groups: "0 < length (group_of (priority_list bp ! i) bp)" if "i < ?L" for i
    using group_nonempty [OF wf nth_mem] that by simp
  have jp: "jump_position bp True < length (group_of (priority_list bp ! adv) bp)"
    using pos ne groups [OF adv] by (auto simp: jump_position_def adv_def position_ok_def Let_def)
  obtain m where L: "?L = Suc m" using ne by (cases ?L) auto
  have jp': "jump_position bp True < length (group_of (priority_list bp ! (Suc adv mod ?L)) bp)"
    if "m = 0"
    using that jp adv L by simp
  have res: "good_result bp (snd (visit env (rest_order bp (Suc m) adv (jump_position bp True)) ?st))
          (form_outer env (Suc m) adv adv True ?st)"
    using wf adv jp jp' L by (intro form_outer_visit) auto
  have fb: "form_batch env batch n bp ins = form_outer env (Suc m) adv adv True ?st"
    using adv L by (simp add: form_batch_def Let_def adv_def flip: initial_batch_def
        del: form_outer.simps)
  have order: "service_order bp = rest_order bp (Suc m) adv (jump_position bp True)"
    using service_order_rest [OF pos ne] by (simp add: L adv_def)
  have "same_sources bp (fst (snd (snd (visit env (service_order bp) ?st))))"
    using visit_same [of ?st env "service_order bp"] by simp
  with res ne obtain st' where "form_outer env (Suc m) adv adv True ?st = Some st'"
    "forget_position st' = forget_position (snd (visit env (service_order bp) ?st))"
    "position_ok (fst (snd st'))"
    unfolding order by (elim good_result_position)
  then show thesis using that fb by simp
qed

text \<open>The service order lists every source once.\<close>

lemma mset_groups:
  assumes "distinct ks" "fst ` set m \<subseteq> set ks"
  shows "mset (concat (map (\<lambda>k. map snd (filter (\<lambda>p. fst p = k) m)) ks)) = mset (map snd m)"
  using assms
proof (induction ks arbitrary: m)
  case (Cons k ks)
  let ?m = "filter (\<lambda>p. fst p \<noteq> k) m"
  have eq: "filter (\<lambda>p. fst p = k') ?m = filter (\<lambda>p. fst p = k') m" if "k' \<in> set ks" for k'
    using Cons.prems(1) that by (auto intro: filter_cong)
  have "mset (concat (map (\<lambda>k. map snd (filter (\<lambda>p. fst p = k) ?m)) ks)) = mset (map snd ?m)"
    using Cons.prems by (intro Cons.IH) auto
  moreover have maps: "map (\<lambda>k. map snd (filter (\<lambda>p. fst p = k) ?m)) ks =
      map (\<lambda>k. map snd (filter (\<lambda>p. fst p = k) m)) ks"
    by (rule map_cong [OF refl]) (simp only: eq)
  moreover have "mset (map snd m) =
      mset (map snd (filter (\<lambda>p. fst p = k) m)) + mset (map snd ?m)"
    by (simp flip: image_mset_union)
  ultimately show ?case unfolding maps by simp
qed auto

lemma mset_rotate [simp]: "mset (rotate n xs) = mset xs"
proof (induction n)
  case (Suc n)
  have "mset (rotate1 ys) = mset ys" for ys :: "'a list"
    by (cases ys) simp_all
  with Suc show ?case by simp
qed simp

lemma mset_concat_map: "mset (concat (map f xs)) = \<Sum>\<^sub># (image_mset (\<lambda>x. mset (f x)) (mset xs))"
  by (induction xs) simp_all

lemma mset_service_order:
  assumes "policy_wf bp"
  shows "mset (service_order bp) = mset (map snd (sources bp))"
proof -
  have dist: "distinct (priority_list bp)"
    using assms strict_sorted_iff [of "priority_list bp"] by (simp add: policy_wf_def)
  have "mset (service_order bp) =
      mset (concat (map (\<lambda>k. group_of k bp) (rotate pp (priority_list bp))))"
    if "pp = (if cfg_type (config bp) = BATCH_METHOD_ROUND_ROBIN
              then priority_list_position (last_batch_state bp) else 0)" for pp
    using that by (simp add: service_order_def Let_def split: list.split)
  then have "mset (service_order bp) = mset (concat (map (\<lambda>k. group_of k bp) (priority_list bp)))"
    by (simp add: mset_concat_map)
  also have "\<dots> = mset (map snd (sources bp))"
    unfolding group_of_def using assms dist
    by (intro mset_groups) (auto simp: policy_wf_def)
  finally show ?thesis .
qed

lemma service_order_sources:
  assumes "policy_wf bp"
  shows "distinct (service_order bp)" "set (service_order bp) = snd ` set (sources bp)"
  using mset_eq_imp_distinct_iff [OF mset_service_order [OF assms]]
    mset_eq_setD [OF mset_service_order [OF assms]] assms
  by (simp_all add: policy_wf_def)

end
