(* ===== verification/MuxBatchProps.thy ===== *)
theory MuxBatchProps
  imports MuxBatchOrder
begin

text \<open>
  Facts about the batch policy: the priority list stays sorted, the constructor and the arrival of
  new sources keep the policy well-formed, the synchronisation of a pad removes late buffers only,
  and a batch never takes more buffers than its size, the per-source limits and the queues allow.
\<close>

section \<open>Synchronising one pad\<close>

lemma fold_pop_buffer_done:
  "fold (\<lambda>_ p. snd (pop_buffer_done p)) xs p =
     p\<lparr>buffer_count := buffer_count p - of_nat (length xs)\<rparr>"
  by (induction xs arbitrary: p) (simp_all add: pop_buffer_done_def Let_def algebra_simps)

text \<open>The four things that can happen to the entry at the front of the queue.\<close>

lemma synchronize_loop_ConsE:
  assumes "synchronize_loop env n m (e # q) = (k, m', kept, late)"
  obtains (stop) "k = 0" "kept = e # q" "late = []"
      "n = 0 \<or> is_buffer e \<and> fst (synch_info env e) = BUFFER_TS_EARLY"
  | (event) kept' where "\<not> is_buffer e" "synchronize_loop env n m q = (k, m', kept', late)"
      "kept = e # kept'"
  | (late) late' where "is_buffer e" "fst (synch_info env e) = BUFFER_TS_LATE"
      "synchronize_loop env n m q = (k, m', kept, late')" "late = e # late'"
  | (ontime) k' kept' where "n \<noteq> 0" "is_buffer e" "fst (synch_info env e) = BUFFER_TS_ONTIME"
      "synchronize_loop env (n - 1) m q = (k', m', kept', late)" "k = k' + 1" "kept = e # kept'"
proof -
  obtain status early_by where info: "synch_info env e = (status, early_by)"
    by (cases "synch_info env e")
  obtain k1 m1 kept1 late1 where l1: "synchronize_loop env n m q = (k1, m1, kept1, late1)"
    by (metis prod_cases4)
  obtain k2 m2 kept2 late2 where l2: "synchronize_loop env (n - 1) m q = (k2, m2, kept2, late2)"
    by (metis prod_cases4)
  consider "n = 0" | "n \<noteq> 0" "\<not> is_buffer e" | "n \<noteq> 0" "is_buffer e"
    by blast
  then show thesis
  proof cases
    case 1
    with assms show ?thesis by (intro stop) simp_all
  next
    case 2
    with assms l1 show ?thesis by (intro event [of kept1]) simp_all
  next
    case 3
    with assms info l1 l2 show ?thesis
      by (cases status)
        (auto intro: stop late [of late1] ontime [of k2 kept2])
  qed
qed

lemma unat_Suc_u32:
  fixes j n :: u32
  assumes "unat j \<le> unat (n - 1)" "n \<noteq> 0"
  shows "unat (j + 1) = Suc (unat j)" "Suc (unat j) \<le> unat n"
proof -
  have n: "unat (n - 1) = unat n - 1" "0 < unat n"
    using assms(2) by (simp_all add: unat_minus_one unat_gt_0)
  have "unat j + 1 < 2 ^ 32" using assms(1) n unat_u32_less [of n] by simp
  then show "unat (j + 1) = Suc (unat j)" by (simp add: unat_word_ariths)
  show "Suc (unat j) \<le> unat n" using assms(1) n by simp
qed

lemma synchronize_loop_count:
  "synchronize_loop env n m q = (k, m', kept, late) \<Longrightarrow>
   unat k \<le> unat n \<and> unat k \<le> length (filter is_buffer kept)"
proof (induction q arbitrary: n k kept late)
  case (Cons e q)
  from Cons.prems show ?case
  proof (cases rule: synchronize_loop_ConsE)
    case (ontime k' kept')
    with Cons.IH have "unat k' \<le> unat (n - 1)" "unat k' \<le> length (filter is_buffer kept')"
      by auto
    with ontime(1,2,5,6) show ?thesis using unat_Suc_u32 [of k' n] by simp
  qed (use Cons.IH in auto)
qed simp

text \<open>Only late buffers go; the entries kept stay in order, and no event is lost.\<close>

lemma synchronize_loop_kept:
  "synchronize_loop env n m q = (k, m', kept, late) \<Longrightarrow>
   subseq kept q \<and> mset q = mset kept + mset late \<and>
   filter is_event kept = filter is_event q \<and>
   (\<forall>e \<in> set late. is_buffer e \<and> fst (synch_info env e) = BUFFER_TS_LATE)"
proof (induction q arbitrary: n k kept late)
  case (Cons e q)
  from Cons.prems show ?case
    by (cases rule: synchronize_loop_ConsE) (use Cons.IH in fastforce)+
qed simp

text \<open>What is not late stays.\<close>

lemma synchronize_loop_not_late:
  "synchronize_loop env n m q = (k, m', kept, late) \<Longrightarrow>
   filter (\<lambda>e. fst (synch_info env e) \<noteq> BUFFER_TS_LATE) (filter is_buffer kept) =
   filter (\<lambda>e. fst (synch_info env e) \<noteq> BUFFER_TS_LATE) (filter is_buffer q)"
proof (induction q arbitrary: n k kept late)
  case (Cons e q)
  from Cons.prems show ?case
    by (cases rule: synchronize_loop_ConsE) (use Cons.IH in auto)
qed simp

text \<open>The buffers counted as on time are the first ones of the queue that is left.\<close>

lemma synchronize_loop_ontime:
  "synchronize_loop env n m q = (k, m', kept, late) \<Longrightarrow>
   e \<in> set (take (unat k) (filter is_buffer kept)) \<Longrightarrow>
   fst (synch_info env e) = BUFFER_TS_ONTIME"
proof (induction q arbitrary: n k kept late)
  case (Cons x q)
  from Cons.prems(1) show ?case
  proof (cases rule: synchronize_loop_ConsE)
    case (ontime k' kept')
    have "unat k = Suc (unat k')"
      using synchronize_loop_count [OF ontime(4)] ontime(1,5) unat_Suc_u32 [of k' n] by simp
    with Cons.prems(2) ontime(2,6)
    have "e = x \<or> e \<in> set (take (unat k') (filter is_buffer kept'))" by simp
    with Cons.IH [OF ontime(4)] ontime(3) show ?thesis by blast
  qed (use Cons.IH Cons.prems(2) in auto)
qed simp

lemma synchronize_pad_wf:
  assumes "synchronize_buffers_in_pad env p n bp = (k, p', bp', late)" "pad_wf p"
  shows "pad_wf p'" "unat k \<le> unat n" "unat k \<le> length (filter is_buffer (queue p'))"
    "pad_count_exact p \<Longrightarrow> pad_count_exact p'"
proof -
  obtain m kept where loop:
    "synchronize_loop env n (min_early_buffer_dur bp) (queue p) = (k, m, kept, late)"
    and p': "p' = p\<lparr>queue := kept, buffer_count := buffer_count p - of_nat (length late)\<rparr>"
    using assms(1) by (auto simp: synchronize_buffers_in_pad_def fold_pop_buffer_done
        split: prod.splits)
  note kept = synchronize_loop_kept [OF loop]
  have "length kept \<le> length (queue p)" "set kept \<subseteq> set (queue p)"
    using kept by (auto dest: list_emb_length list_emb_set)
  then show "pad_wf p'" using assms(2) kept by (auto simp: pad_wf_def p')
  show "unat k \<le> unat n" "unat k \<le> length (filter is_buffer (queue p'))"
    using synchronize_loop_count [OF loop] by (simp_all add: p')
  have "size {#e \<in># mset (queue p). is_buffer e#} =
      size {#e \<in># mset kept. is_buffer e#} + size {#e \<in># mset late. is_buffer e#}"
    using kept by simp
  moreover have "filter is_buffer late = late"
    using kept by (simp add: filter_id_conv)
  ultimately have "length (filter is_buffer (queue p)) = length (filter is_buffer kept) + length late"
    by (metis mset_filter size_mset)
  then show "pad_count_exact p \<Longrightarrow> pad_count_exact p'"
    by (simp add: pad_count_exact_def p')
qed

section \<open>What a batch may take\<close>

definition pads_wf :: "pads \<Rightarrow> bool" where
  "pads_wf ins \<longleftrightarrow>
     distinct (map fst ins) \<and>
     (\<forall>e \<in> set ins. case snd e of None \<Rightarrow> True | Some p \<Rightarrow> pad_wf p)"

lemma pads_wf_iff:
  "pads_wf ins \<longleftrightarrow>
     distinct (map fst ins) \<and> (\<forall>sid p. map_of ins sid = Some (Some p) \<longrightarrow> pad_wf p)"
  by (fastforce simp: pads_wf_def dest: map_of_SomeD map_of_is_SomeI split: option.splits)

text \<open>How many buffers the pad of a source holds.\<close>

definition buffered :: "pads \<Rightarrow> u32 \<Rightarrow> nat" where
  "buffered ins sid =
     (case map_of ins sid of Some (Some p) \<Rightarrow> length (filter is_buffer (queue p)) | _ \<Rightarrow> 0)"

text \<open>The most buffers one source may have in a batch.\<close>

definition source_limit :: "pads \<Rightarrow> BatchPolicy \<Rightarrow> u32 \<Rightarrow> u32" where
  "source_limit ins bp sid =
     min (max_same_source_frames (config bp)) (check_repeats_of_source ins sid bp)"

lemma source_limit_cong:
  "same_sources bp bp' \<Longrightarrow> length ins = length ins' \<Longrightarrow>
   source_limit ins' bp' sid = source_limit ins bp sid"
  by (simp add: source_limit_def check_repeats_of_source_def get_batch_size_def same_sources_def)

text \<open>What holds of a batch under construction, against the pads and the policy it began with.\<close>

definition batch_ok :: "pads \<Rightarrow> BatchPolicy \<Rightarrow> form_state \<Rightarrow> bool" where
  "batch_ok ins0 bp0 st \<longleftrightarrow>
     (case st of (b, bp, ins) \<Rightarrow>
        unat (acc_batch b) = sum_list (map (\<lambda>p. unat (snd p)) (num_sources b)) \<and>
        acc_batch b \<le> batch_size b \<and>
        distinct (map fst (num_sources b)) \<and>
        (\<forall>p \<in> set (num_sources b).
           (\<exists>q. map_of ins (fst p) = Some (Some q)) \<and>
           unat (snd p) \<le> buffered ins (fst p) \<and> snd p \<le> source_limit ins0 bp0 (fst p)) \<and>
        pads_wf ins \<and> map fst ins = map fst ins0 \<and>
        (\<forall>sid. sid \<notin> fst ` set (num_sources b) \<longrightarrow> map_of ins sid = map_of ins0 sid))"

lemma get_allowed_le: "get_allowed env sid rate available bp \<le> available"
  by (auto simp: get_allowed_def Let_def split: option.split)

lemma take_from_pad_wf:
  assumes "take_from_pad env sid pad n0 bp ins = (n, ins', bp')"
    and "map_of ins sid = Some (Some pad)" "pads_wf ins" "unat n0 \<le> buffered ins sid"
  shows "unat n \<le> unat n0" "unat n \<le> buffered ins' sid" "pads_wf ins'" "map fst ins' = map fst ins"
    "s \<noteq> sid \<Longrightarrow> map_of ins' s = map_of ins s" "\<exists>q. map_of ins' sid = Some (Some q)"
proof -
  have *: "unat n \<le> unat n0 \<and> unat n \<le> buffered ins' sid \<and> pads_wf ins' \<and>
      map fst ins' = map fst ins \<and> (s \<noteq> sid \<longrightarrow> map_of ins' s = map_of ins s) \<and>
      (\<exists>q. map_of ins' sid = Some (Some q))" for s
  proof (cases "synch_buffer bp")
    case False
    with assms show ?thesis by (simp add: take_from_pad_def)
  next
    case True
    then obtain pad' late where sy: "synchronize_buffers_in_pad env pad n0 bp = (n, pad', bp', late)"
      and ins': "ins' = AList.update sid (Some pad') ins"
      using assms(1) by (auto simp: take_from_pad_def split: prod.splits)
    have key: "sid \<in> fst ` set ins" using assms(2) by (metis domI dom_map_of_conv_image_fst)
    have "pad_wf pad" using assms(2,3) by (auto simp: pads_wf_iff)
    from synchronize_pad_wf [OF sy this] show ?thesis
      using assms(3) key by (auto simp: pads_wf_iff ins' update_conv' buffered_def)
  qed
  from * show "unat n \<le> unat n0" "unat n \<le> buffered ins' sid" "pads_wf ins'"
    "map fst ins' = map fst ins" "s \<noteq> sid \<Longrightarrow> map_of ins' s = map_of ins s"
    "\<exists>q. map_of ins' sid = Some (Some q)"
    by blast+
qed

lemma al_fresh:
  assumes "k \<notin> fst ` set m"
  shows "al_touch d k m = m @ [(k, d)]" "al_get d k m = d"
    "AList.update k v (m @ [(k, d)]) = m @ [(k, v)]"
proof -
  have none: "map_of m k = None" using assms by (simp add: map_of_eq_None_iff)
  then show "al_touch d k m = m @ [(k, d)]" "al_get d k m = d"
    by (simp_all add: al_touch_def al_get_def)
  show "AList.update k v (m @ [(k, d)]) = m @ [(k, v)]"
    using assms by (induction m) auto
qed

lemma batch_ok_start:
  "pads_wf ins \<Longrightarrow> batch_ok ins bp (initial_batch batch n, bp, ins)"
  by (simp add: batch_ok_def)

lemma unat_plus_room:
  fixes a n b :: u32
  assumes "unat n \<le> unat (b - a)" "a \<le> b"
  shows "unat (a + n) = unat a + unat n" "a + n \<le> b"
proof -
  have "unat a + unat n \<le> unat b"
    using assms by (simp add: unat_sub_le word_le_nat_alt)
  then show *: "unat (a + n) = unat a + unat n"
    using unat_u32_less [of b] by (simp add: unat_word_ariths)
  with \<open>unat a + unat n \<le> unat b\<close> show "a + n \<le> b" by (simp add: word_le_nat_alt)
qed

lemma batch_ok_update:
  assumes ok: "batch_ok ins0 bp0 (b, bp, ins)" and same: "same_sources bp0 bp"
    and fresh: "sid \<notin> fst ` set (num_sources b)"
  shows "batch_ok ins0 bp0 (update_with_source env sid (b, bp, ins))"
    "fst ` set (num_sources (fst (update_with_source env sid (b, bp, ins)))) \<subseteq>
       insert sid (fst ` set (num_sources b))"
proof -
  have lens: "length ins = length ins0"
    using ok by (auto simp: batch_ok_def dest: map_eq_imp_length_eq)
  have "batch_ok ins0 bp0 (update_with_source env sid (b, bp, ins)) \<and>
    fst ` set (num_sources (fst (update_with_source env sid (b, bp, ins)))) \<subseteq>
       insert sid (fst ` set (num_sources b))"
  proof (cases rule: update_with_source_cases [of env sid b bp ins])
    case (in_batch pad)
    with ok fresh show ?thesis by (auto simp: batch_ok_def al_fresh)
  next
    case (added pad bp1 avail allowed n ins' bp2)
    have "pad_wf pad" using ok added(1) by (auto simp: batch_ok_def pads_wf_iff)
    then have avail: "unat (get_available pad) \<le> buffered ins sid"
      by (simp add: buffered_def added(1) get_available_wf)
    have allowed: "allowed = source_limit ins0 bp0 sid"
      using source_limit_cong [OF same, of ins0 ins sid] lens
      by (simp add: added(3) source_limit_def)
    have bounds: "avail \<le> allowed" "avail \<le> get_available pad"
      using get_allowed_le [of env sid _ "get_available pad" bp1]
      by (auto simp: added(5) min_le_iff_disj)
    define n0 where "n0 = min (batch_size b - acc_batch b) avail"
    have n0: "unat n0 \<le> unat (batch_size b - acc_batch b)" "unat n0 \<le> unat avail"
      by (simp_all add: n0_def word_le_nat_alt [symmetric])
    have n0_avail: "unat n0 \<le> buffered ins sid"
      using n0(2) bounds(2) avail by (simp add: word_le_nat_alt)
    have wf: "pads_wf ins" using ok by (simp add: batch_ok_def)
    note taken = take_from_pad_wf [OF added(6) [folded n0_def] added(1) wf n0_avail]
    have "n \<le> source_limit ins0 bp0 sid"
      using taken(1) n0(2) bounds(1) unfolding allowed by (simp add: word_le_nat_alt)
    moreover have "buffered ins' s = buffered ins s" if "s \<noteq> sid" for s
      using taken(5) [OF that] by (simp add: buffered_def)
    moreover have "unat (acc_batch b + n) = unat (acc_batch b) + unat n"
      "acc_batch b + n \<le> batch_size b"
      using unat_plus_room [of n "batch_size b" "acc_batch b"] taken(1) n0(1) ok
      by (simp_all add: batch_ok_def)
    ultimately show ?thesis
      using ok fresh taken(2-6) unfolding batch_ok_def added(7)
      by (simp add: al_fresh image_iff) (metis)
  qed (use ok in auto)
  then show "batch_ok ins0 bp0 (update_with_source env sid (b, bp, ins))"
    "fst ` set (num_sources (fst (update_with_source env sid (b, bp, ins)))) \<subseteq>
       insert sid (fst ` set (num_sources b))"
    by simp_all
qed

lemma batch_ok_visit:
  "batch_ok ins0 bp0 st \<Longrightarrow> same_sources bp0 (fst (snd st)) \<Longrightarrow> distinct ss \<Longrightarrow>
   fst ` set (num_sources (fst st)) \<inter> set ss = {} \<Longrightarrow> batch_ok ins0 bp0 (snd (visit env ss st))"
proof (induction ss arbitrary: st)
  case (Cons s ss)
  obtain b bp ins where st: "st = (b, bp, ins)" by (cases st)
  let ?st' = "update_with_source env s st"
  have ok': "batch_ok ins0 bp0 ?st'" and keys: "fst ` set (num_sources (fst ?st')) \<subseteq>
       insert s (fst ` set (num_sources b))"
    using batch_ok_update [of ins0 bp0 b bp ins s env] Cons.prems by (auto simp: st)
  show ?case
  proof (cases "is_ready (fst ?st')")
    case True
    with ok' show ?thesis by (simp add: Let_def)
  next
    case False
    have "batch_ok ins0 bp0 (snd (visit env ss ?st'))"
    proof (rule Cons.IH [OF ok'])
      show "same_sources bp0 (fst (snd ?st'))"
        using Cons.prems(2) update_with_source_same by (rule same_sources_trans)
      show "distinct ss" using Cons.prems(3) by simp
      show "fst ` set (num_sources (fst ?st')) \<inter> set ss = {}"
        using keys Cons.prems(3,4) by (auto simp: st)
    qed
    with False show ?thesis by (simp add: Let_def)
  qed
qed simp

section \<open>Greedy allocation\<close>

text \<open>
  Without time synchronisation and rate control a batch is allocated greedily: \<open>greedy room xs\<close>
  hands out \<open>room\<close> places to the sources in order, each up to what it offers, until none is left.
\<close>

fun greedy :: "nat \<Rightarrow> (u32 \<times> nat) list \<Rightarrow> (u32 \<times> nat) list" where
  "greedy room [] = []"
| "greedy room ((s, c) # xs) =
     (s, min room c) # (if room \<le> c then [] else greedy (room - c) xs)"

lemma greedy_sum: "sum_list (map snd (greedy room xs)) = min room (sum_list (map snd xs))"
  by (induction room xs rule: greedy.induct) auto

lemma greedy_keys: "prefix (map fst (greedy room xs)) (map fst xs)"
  by (induction room xs rule: greedy.induct) auto

text \<open>What the sources of a list offer: those that have a pad, each up to its limit.\<close>

definition offers :: "pads \<Rightarrow> BatchPolicy \<Rightarrow> u32 list \<Rightarrow> (u32 \<times> nat) list" where
  "offers ins bp ss =
     concat (map (\<lambda>s. case map_of ins s of
                        Some (Some p) \<Rightarrow> [(s, min (buffered ins s) (unat (source_limit ins bp s)))]
                      | _ \<Rightarrow> []) ss)"

lemma offers_simps [simp]:
  "offers ins bp [] = []"
  "offers ins bp (s # ss) =
     (case map_of ins s of
        Some (Some p) \<Rightarrow> [(s, min (buffered ins s) (unat (source_limit ins bp s)))]
      | _ \<Rightarrow> []) @ offers ins bp ss"
  by (simp_all add: offers_def)

lemma unat_min: "unat (min a b) = min (unat a) (unat b)"
  by (simp add: min_def word_le_nat_alt)

lemma update_with_source_offer:
  assumes "\<not> synch_buffer bp" "\<not> enable_source_rate_control (config bp)" "pads_wf ins"
    and fresh: "sid \<notin> fst ` set (num_sources b)" and pad: "map_of ins sid = Some (Some pad)"
    and room: "acc_batch b \<le> batch_size b"
  obtains bp' n where
    "update_with_source env sid (b, bp, ins) =
       (b\<lparr>num_sources := num_sources b @ [(sid, n)], acc_batch := acc_batch b + n\<rparr>, bp', ins)"
    "unat n = min (unat (batch_size b) - unat (acc_batch b))
                (min (buffered ins sid) (unat (source_limit ins bp sid)))"
proof -
  have "pad_wf pad" using assms(3) pad by (auto simp: pads_wf_iff)
  then have avail: "unat (get_available pad) = buffered ins sid"
    by (simp add: buffered_def pad get_available_wf)
  show thesis
  proof (cases rule: update_with_source_cases [of env sid b bp ins])
    case no_pad
    with pad show ?thesis by simp
  next
    case (in_batch p)
    then have "source_limit ins bp sid = 0"
      using fresh by (simp add: al_fresh source_limit_def)
    with in_batch fresh show ?thesis by (intro that [of 0]) (simp_all add: al_fresh)
  next
    case (added p bp1 avail' allowed n ins' bp2)
    have "avail' = min (get_available pad) (source_limit ins bp sid)"
      using added(1-3,5) assms(2) pad by (simp add: get_allowed_def source_limit_def)
    moreover have "n = min (batch_size b - acc_batch b) avail'" "ins' = ins"
      using added(2,6) assms(1) by (auto simp: take_from_pad_def)
    ultimately show ?thesis
      using added(7) fresh room
      by (intro that [of n bp2]) (simp_all add: al_fresh unat_min avail unat_sub_le)
  qed
qed

text \<open>A pass over the sources, from a batch that still has room.\<close>

lemma batch_fields:
  "batch_size (b\<lparr>num_sources := xs, acc_batch := n\<rparr>) = batch_size b"
  "acc_batch (b\<lparr>num_sources := xs, acc_batch := n\<rparr>) = n"
  by simp_all

lemma visit_greedy:
  assumes "\<not> synch_buffer bp" "\<not> enable_source_rate_control (config bp)" "pads_wf ins"
    and "distinct ss" "fst ` set (num_sources b) \<inter> set ss = {}" "acc_batch b < batch_size b"
  shows "\<exists>bp' b'. snd (visit env ss (b, bp, ins)) = (b', bp', ins) \<and>
    map (\<lambda>p. (fst p, unat (snd p))) (num_sources b') =
      map (\<lambda>p. (fst p, unat (snd p))) (num_sources b) @
      greedy (unat (batch_size b) - unat (acc_batch b)) (offers ins bp ss)"
  using assms
proof (induction ss arbitrary: b bp)
  case (Cons s ss)
  consider "map_of ins s = None \<or> map_of ins s = Some None"
    | pad where "map_of ins s = Some (Some pad)"
    by (cases "map_of ins s") auto
  then show ?case
  proof cases
    case 1
    then have "update_with_source env s (b, bp, ins) = (b, bp, ins)"
      by (auto simp: update_with_source_def Let_def)
    moreover have "\<not> is_ready b" using Cons.prems(6) by (auto simp: is_ready_def)
    ultimately show ?thesis using Cons 1 by (auto simp: Let_def)
  next
    case 2
    have "s \<notin> fst ` set (num_sources b)" "acc_batch b \<le> batch_size b" using Cons.prems by auto
    then obtain bp' n where upd: "update_with_source env s (b, bp, ins) =
       (b\<lparr>num_sources := num_sources b @ [(s, n)], acc_batch := acc_batch b + n\<rparr>, bp', ins)"
      and n: "unat n = min (unat (batch_size b) - unat (acc_batch b))
                (min (buffered ins s) (unat (source_limit ins bp s)))"
      using update_with_source_offer [OF Cons.prems(1-3) _ 2, of b env] by metis
    let ?b' = "b\<lparr>num_sources := num_sources b @ [(s, n)], acc_batch := acc_batch b + n\<rparr>"
    let ?room = "unat (batch_size b) - unat (acc_batch b)"
    define c where "c = min (buffered ins s) (unat (source_limit ins bp s))"
    note n = n [folded c_def]
    have same: "same_sources bp bp'"
      using update_with_source_same [of "(b, bp, ins)" env s] by (simp add: upd)
    have acc: "unat (acc_batch b + n) = unat (acc_batch b) + unat n"
      "acc_batch b + n \<le> batch_size b"
      using unat_plus_room [of n "batch_size b" "acc_batch b"] Cons.prems(6) n
      by (simp_all add: unat_sub_le)
    have lt: "unat (acc_batch b) < unat (batch_size b)"
      using Cons.prems(6) by (simp add: word_less_nat_alt)
    show ?thesis
    proof (cases "?room \<le> c")
      case True
      then have "unat (acc_batch b + n) = unat (batch_size b)" using n acc(1) lt by simp
      then have "acc_batch b + n = batch_size b" by (rule unsigned_word_eqI)
      moreover have "batch_size b \<noteq> 0" using Cons.prems(6) by auto
      ultimately have "is_ready ?b'" by (simp add: is_ready_def)
      with True upd 2 n show ?thesis by (simp add: Let_def flip: c_def)
    next
      case False
      then have c: "min ?room c = c" by (intro min_absorb2) linarith
      from False have "unat (acc_batch b + n) \<noteq> unat (batch_size b)" using n acc(1) by linarith
      then have ne: "acc_batch b + n \<noteq> batch_size b" by metis
      have "\<exists>bp'' b''. snd (visit env ss (?b', bp', ins)) = (b'', bp'', ins) \<and>
        map (\<lambda>p. (fst p, unat (snd p))) (num_sources b'') =
          map (\<lambda>p. (fst p, unat (snd p))) (num_sources ?b') @
          greedy (unat (batch_size ?b') - unat (acc_batch ?b')) (offers ins bp' ss)"
        using Cons.prems same ne acc(2) by (intro Cons.IH) (auto simp: same_sources_def)
      moreover have "offers ins bp' ss = offers ins bp ss"
        unfolding offers_def source_limit_cong [OF same refl] ..
      moreover have "unat (batch_size ?b') - unat (acc_batch ?b') = ?room - c"
        using n acc(1) c by (simp only: batch_fields diff_diff_eq)
      moreover have "\<not> is_ready ?b'" using ne by (simp add: is_ready_def)
      ultimately show ?thesis using False upd 2 n c by (simp add: Let_def flip: c_def)
    qed
  qed
qed (simp add: Let_def)

section \<open>Keeping the policy well-formed\<close>

lemma sorted_wrt_insert_before:
  "sorted_wrt (<) xs \<Longrightarrow> sorted_wrt (<) (insert_before_not_less v xs)
     \<and> set (insert_before_not_less v xs) = insert v (set xs)"
proof (induction xs)
  case (Cons x xs)
  then show ?case by (auto intro: less_trans simp: not_less order_le_less)
qed simp

lemma sorted_insert_wf:
  assumes "sorted_wrt (<) xs"
  shows "sorted_wrt (<) (sorted_insert v xs)" "set (sorted_insert v xs) = insert v (set xs)"
proof -
  have "sorted_wrt (<) (sorted_insert v xs) \<and> set (sorted_insert v xs) = insert v (set xs)"
  proof (cases xs)
    case (Cons x ys)
    with assms have "v < y" if "v < x" "y \<in> set ys" for y
      using that less_trans [of v x y] by auto
    then show ?thesis
      using Cons assms sorted_wrt_insert_before [OF assms, of v]
      by (auto simp: sorted_insert_def)
  qed (simp add: sorted_insert_def)
  then show "sorted_wrt (<) (sorted_insert v xs)" "set (sorted_insert v xs) = insert v (set xs)"
    by simp_all
qed

lemma set_mm_insert: "set (mm_insert k v m) = insert (k, v) (set m)"
proof -
  have "set m = set (takeWhile P m) \<union> set (dropWhile P m)" for P
    by (metis set_append takeWhile_dropWhile_id)
  then show ?thesis by (auto simp: mm_insert_def)
qed

lemma mset_mm_insert: "mset (mm_insert k v m) = add_mset (k, v) (mset m)"
proof -
  have "mset m = mset (takeWhile P m) + mset (dropWhile P m)" for P
    by (metis mset_append takeWhile_dropWhile_id)
  then show ?thesis by (simp add: mm_insert_def)
qed

lemma sorted_mm_insert:
  assumes "sorted (map (\<lambda>p. sint (fst p)) m)"
  shows "sorted (map (\<lambda>p. sint (fst p)) (mm_insert k v m))"
  using assms
proof (induction m)
  case (Cons p m)
  show ?case
  proof (cases "sint (fst p) \<le> sint k")
    case True
    then have "mm_insert k v (p # m) = p # mm_insert k v m" by (simp add: mm_insert_def)
    with Cons True show ?thesis by (auto simp: set_mm_insert)
  next
    case False
    then have "mm_insert k v (p # m) = (k, v) # p # m" by (simp add: mm_insert_def)
    with Cons.prems False show ?thesis by auto
  qed
qed (simp add: mm_insert_def)

lemma distinct_mm_insert:
  assumes "distinct (map snd m)" "v \<notin> snd ` set m"
  shows "distinct (map snd (mm_insert k v m))"
proof -
  have "mset (map snd (mm_insert k v m)) = mset (v # map snd m)"
    by (simp add: mset_mm_insert)
  then show ?thesis using assms mset_eq_imp_distinct_iff by (metis distinct.simps(2) set_map)
qed

text \<open>A source is appended to the group of its priority; the other groups stay.\<close>

lemma filter_mm_insert:
  assumes "sorted (map (\<lambda>p. sint (fst p)) m)"
  shows "filter (\<lambda>p. fst p = k') (mm_insert k v m) =
    filter (\<lambda>p. fst p = k') m @ (if k' = k then [(k, v)] else [])"
  using assms
proof (induction m)
  case (Cons p m)
  show ?case
  proof (cases "sint (fst p) \<le> sint k")
    case True
    then have "mm_insert k v (p # m) = p # mm_insert k v m" by (simp add: mm_insert_def)
    with Cons show ?thesis by simp
  next
    case False
    then have "mm_insert k v (p # m) = (k, v) # p # m" by (simp add: mm_insert_def)
    moreover have "filter (\<lambda>p. fst p = k) (p # m) = []"
      using Cons.prems False by (auto simp: filter_empty_conv)
    ultimately show ?thesis by auto
  qed
qed (simp add: mm_insert_def)

lemma policy_wf_insert:
  assumes "policy_wf bp" "\<not> source_known sid bp"
  shows "policy_wf (bp\<lparr>priority_list := sorted_insert k (priority_list bp),
                        sources := mm_insert k sid (sources bp)\<rparr>)"
  using assms
  by (auto simp: policy_wf_def sorted_insert_wf sorted_mm_insert set_mm_insert source_known_def
      intro!: distinct_mm_insert)

lemma policy_wf_fields:
  "policy_wf bp' \<longleftrightarrow> policy_wf bp"
  if "sources bp' = sources bp" "priority_list bp' = priority_list bp"
  using that by (simp add: policy_wf_def)

lemma policy_wf_add_default:
  assumes "policy_wf bp" "\<not> source_known sid bp"
  shows "policy_wf (add_default_source sid bp)"
  using policy_wf_insert [OF assms, of NVSTREAMMUX_DEFAULT_SOURCE_GROUP_PRIORITY]
  by (rule policy_wf_fields [THEN iffD2, rotated 2]) (simp_all add: add_default_source_def)

lemma policy_wf_add_configured:
  "policy_wf bp \<Longrightarrow> distinct (map fst props) \<Longrightarrow>
   fst ` set props \<inter> snd ` set (sources bp) = {} \<Longrightarrow>
   policy_wf (add_configured props bp) \<and>
   snd ` set (sources (add_configured props bp)) = fst ` set props \<union> snd ` set (sources bp)"
proof (induction props arbitrary: bp)
  case (Cons p props)
  obtain sid pr where p: "p = (sid, pr)" by (cases p)
  let ?bp = "bp\<lparr>priority_list := sorted_insert (priority pr) (priority_list bp),
    sources := mm_insert (priority pr) sid (sources bp),
    src_max_fps := al_insert sid (fps (source_max_fps_n pr) (source_max_fps_d pr)) (src_max_fps bp)\<rparr>"
  have "\<not> source_known sid bp" using Cons.prems(3) by (auto simp: source_known_def p)
  from policy_wf_insert [OF Cons.prems(1) this, of "priority pr"] have wf: "policy_wf ?bp"
    by (rule policy_wf_fields [THEN iffD2, rotated 2]) simp_all
  have "policy_wf (add_configured props ?bp) \<and>
      snd ` set (sources (add_configured props ?bp)) = fst ` set props \<union> snd ` set (sources ?bp)"
    using Cons.prems(2,3) by (intro Cons.IH wf) (auto simp: set_mm_insert p)
  then show ?case by (auto simp: p set_mm_insert)
qed simp

lemma policy_wf_add_unconfigured:
  "policy_wf bp \<Longrightarrow> policy_wf (add_unconfigured sids bp) \<and>
   snd ` set (sources (add_unconfigured sids bp)) = set sids \<union> snd ` set (sources bp)"
proof (induction sids arbitrary: bp)
  case (Cons sid sids)
  show ?case
  proof (cases "source_known sid bp")
    case True
    with Cons show ?thesis by (auto simp: source_known_def)
  next
    case False
    have "snd ` set (sources (add_default_source sid bp)) = insert sid (snd ` set (sources bp))"
      by (simp add: add_default_source_def set_mm_insert)
    with False Cons.IH [OF policy_wf_add_default [OF Cons.prems False]] show ?thesis by auto
  qed
qed simp

lemma group_of_add_default:
  assumes "policy_wf bp"
  shows "group_of k (add_default_source sid bp) =
    group_of k bp @ (if k = NVSTREAMMUX_DEFAULT_SOURCE_GROUP_PRIORITY then [sid] else [])"
  using assms filter_mm_insert by (simp add: group_of_def add_default_source_def policy_wf_def)

lemma position_ok_add_default:
  assumes "policy_wf bp" "position_ok bp" "\<not> source_known sid bp"
    and "priority_list bp = [] \<or>
      NVSTREAMMUX_DEFAULT_SOURCE_GROUP_PRIORITY \<in> set (priority_list bp)"
  shows "position_ok (add_default_source sid bp)"
  using assms(4)
proof
  assume "priority_list bp = []"
  with assms(1,2) show ?thesis
    by (auto simp: position_ok_def Let_def add_default_source_def sorted_insert_def policy_wf_def
        group_of_def mm_insert_def)
next
  let ?k = "NVSTREAMMUX_DEFAULT_SOURCE_GROUP_PRIORITY"
  assume k: "?k \<in> set (priority_list bp)"
  have sorted: "sorted_wrt (<) (priority_list bp)" using assms(1) by (simp add: policy_wf_def)
  have "sorted_insert ?k (priority_list bp) = priority_list bp"
    by (rule strict_sorted_equal)
      (use sorted_insert_wf [OF sorted, of ?k] sorted k in auto)
  then have same: "priority_list (add_default_source sid bp) = priority_list bp"
    "last_batch_state (add_default_source sid bp) = last_batch_state bp"
    by (simp_all add: add_default_source_def)
  have "length (group_of j bp) \<le> length (group_of j (add_default_source sid bp))" for j
    by (simp add: group_of_add_default [OF assms(1)])
  then show ?thesis
    using assms(2) k unfolding position_ok_def Let_def same
    by (auto split: if_splits intro: less_le_trans)
qed

lemma position_ok_fields:
  "position_ok bp' \<longleftrightarrow> position_ok bp"
  if "sources bp' = sources bp" "priority_list bp' = priority_list bp"
    "last_batch_state bp' = last_batch_state bp"
  using that by (simp add: position_ok_def group_of_def)

lemma forget_positionD:
  assumes "forget_position st = forget_position st'"
  shows "fst st = fst st'" "snd (snd st) = snd (snd st')"
    "sources (fst (snd st)) = sources (fst (snd st'))"
    "priority_list (fst (snd st)) = priority_list (fst (snd st'))"
    "config (fst (snd st)) = config (fst (snd st'))"
  using arg_cong [OF assms, of fst] arg_cong [OF assms, of "\<lambda>s. snd (snd s)"]
    arg_cong [OF assms, of "\<lambda>s. sources (fst (snd s))"]
    arg_cong [OF assms, of "\<lambda>s. priority_list (fst (snd s))"]
    arg_cong [OF assms, of "\<lambda>s. config (fst (snd s))"]
  by (simp_all add: forget_position_def set_last_state_same)

lemma visit_final:
  assumes "forget_position st' = forget_position (snd (visit env ss (b, bp, ins)))"
  shows "sources (fst (snd st')) = sources bp" "priority_list (fst (snd st')) = priority_list bp"
    "config (fst (snd st')) = config bp" "batch_size (fst st') = batch_size b"
proof -
  have "batch_size (fst (snd (visit env ss st))) = batch_size (fst st)" for st
    by (induction ss arbitrary: st) (auto simp: Let_def update_with_source_size)
  then show "batch_size (fst st') = batch_size b" using forget_positionD(1) [OF assms] by simp
qed (use forget_positionD [OF assms] same_sourcesD [OF visit_same [of "(b, bp, ins)" env ss]]
     in simp_all)

section \<open>Properties of the batch policy\<close>

lemma form_batch_result:
  assumes "policy_wf bp" "position_ok bp" "priority_list bp \<noteq> []" "pads_wf ins"
  shows "\<exists>b bp' ins'. form_batch env batch n bp ins = Some (b, bp', ins') \<and> batch_size b = n \<and>
    batch_ok ins bp (b, bp', ins') \<and> policy_wf bp' \<and> position_ok bp'"
proof -
  let ?st = "(initial_batch batch n, bp, ins)"
  obtain st' where st': "form_batch env batch n bp ins = Some st'"
    "forget_position st' = forget_position (snd (visit env (service_order bp) ?st))"
    "position_ok (fst (snd st'))"
    using form_batch_visit [OF assms(1-3)] by blast
  obtain b bp' ins' where [simp]: "st' = (b, bp', ins')" by (cases st')
  have "batch_ok ins bp (snd (visit env (service_order bp) ?st))"
    using service_order_sources(1) [OF assms(1)] assms(4)
    by (intro batch_ok_visit batch_ok_start) simp_all
  then have "batch_ok ins bp (b, bp', ins')"
    using forget_positionD(1,2) [OF st'(2)] by (simp add: batch_ok_def split: prod.splits)
  moreover have "policy_wf bp'"
    using assms(1) visit_final [OF st'(2)] by (simp add: policy_wf_def)
  ultimately show ?thesis using st' visit_final(4) [OF st'(2)] by simp
qed

text \<open>
  Property C1. On a well-formed policy with at least one source, forming a batch never
  dereferences an iterator at the end of a container. The batch has the requested size as its
  bound, its total is the sum of the counts of its sources, no source is in it twice, no source
  gets more than its pad holds or than the limits allow, and the pads and the policy with its
  saved round robin position stay well-formed.
\<close>

theorem form_batch_safe:
  assumes "policy_wf bp" "position_ok bp" "priority_list bp \<noteq> []" "pads_wf ins"
  shows "\<exists>b bp' ins'. form_batch env batch n bp ins = Some (b, bp', ins') \<and> batch_size b = n \<and>
    batch_ok ins bp (b, bp', ins') \<and> policy_wf bp' \<and> position_ok bp'"
  using assms by (rule form_batch_result)

text \<open>
  Property C2. Without time synchronisation and rate control, the batch is exactly the greedy
  allocation along the service order: the sources are served in that order, each gets all that
  its pad holds up to its limit as long as there is room, and the pads are not changed. So the
  batch is full unless the sources together offer less than its size.
\<close>

theorem form_batch_greedy:
  assumes "policy_wf bp" "position_ok bp" "priority_list bp \<noteq> []" "pads_wf ins" "n \<noteq> 0"
    and "\<not> synch_buffer bp" "\<not> enable_source_rate_control (config bp)"
  shows "\<exists>b bp'. form_batch env batch n bp ins = Some (b, bp', ins) \<and>
    map (\<lambda>p. (fst p, unat (snd p))) (num_sources b) =
      greedy (unat n) (offers ins bp (service_order bp)) \<and>
    unat (acc_batch b) = min (unat n) (sum_list (map snd (offers ins bp (service_order bp))))"
proof -
  let ?st = "(initial_batch batch n, bp, ins)" and ?xs = "offers ins bp (service_order bp)"
  obtain st' where st': "form_batch env batch n bp ins = Some st'"
    "forget_position st' = forget_position (snd (visit env (service_order bp) ?st))"
    using form_batch_visit [OF assms(1-3)] by blast
  have "acc_batch (initial_batch batch n) < batch_size (initial_batch batch n)"
    using assms(5) by (simp add: word_neq_0_conv)
  then obtain bp'' b' where v: "snd (visit env (service_order bp) ?st) = (b', bp'', ins)"
    "map (\<lambda>p. (fst p, unat (snd p))) (num_sources b') = greedy (unat n) ?xs"
    using visit_greedy [OF assms(6,7,4) service_order_sources(1) [OF assms(1)],
        of "initial_batch batch n" env] by auto
  have "batch_ok ins bp (b', bp'', ins)"
    unfolding v(1) [symmetric] using service_order_sources(1) [OF assms(1)] assms(4)
    by (intro batch_ok_visit batch_ok_start) simp_all
  then have "unat (acc_batch b') = sum_list (map snd (greedy (unat n) ?xs))"
    unfolding v(2) [symmetric] by (simp add: batch_ok_def comp_def)
  then have "unat (acc_batch b') = min (unat n) (sum_list (map snd ?xs))"
    by (simp add: greedy_sum)
  moreover have "fst st' = b'" "snd (snd st') = ins"
    using forget_positionD(1,2) [OF st'(2)] v(1) by simp_all
  ultimately show ?thesis using st'(1) v(2) by (cases st') simp
qed

text \<open>
  Property C16. Round robin is fair: when all sources have the same priority, the next batch
  starts with the source behind the last one that this batch visited, so that the sources are
  served in turn across batches.
\<close>

theorem form_batch_round_robin:
  assumes "policy_wf bp" "position_ok bp" "priority_list bp = [k]"
    and "cfg_type (config bp) = BATCH_METHOD_ROUND_ROBIN"
  shows "\<exists>b bp' ins'. form_batch env batch n bp ins = Some (b, bp', ins') \<and>
    service_order bp' = rotate
      (visited env (service_order bp) (initial_batch batch n, bp, ins)) (service_order bp)"
proof -
  let ?st = "(initial_batch batch n, bp, ins)" and ?G = "group_of k bp"
  let ?sp = "source_map_position (last_batch_state bp)"
  let ?v = "visited env (rotate ?sp ?G) ?st"
  have order: "service_order bp = rotate ?sp ?G"
    using assms(2-4) by (simp add: service_order_def position_ok_def Let_def)
  have jp: "jump_position bp True = ?sp" using assms(4) by (simp add: jump_position_def)
  have G: "0 < length ?G" using group_nonempty [OF assms(1), of k] assms(3) by simp
  have range: "priority_list_position (last_batch_state bp) = 0" "?sp < length ?G"
    using assms(2,3) by (auto simp: position_ok_def Let_def)
  have prems: "same_sources bp (fst (snd ?st))" "0 < length (priority_list bp)"
    "jump_position bp True < length (group_of (priority_list bp ! 0) bp)"
    using range assms(3) jp by simp_all
  obtain si' where si': "si' = (?sp + ?v) mod length ?G"
    "form_outer env (Suc 0) 0 0 True ?st =
       Some (set_last_state 0 si' (snd (visit env (rotate ?sp ?G) ?st)))"
    by (rule form_outer_step [OF assms(1) prems, of env 0])
      (simp_all add: assms(3) jp Let_def del: form_outer.simps split: if_splits)
  let ?st' = "set_last_state 0 si' (snd (visit env (rotate ?sp ?G) ?st))"
  have "form_batch env batch n bp ins = Some ?st'"
    using si'(2) range(1) assms(3,4)
    by (simp add: form_batch_def Let_def flip: initial_batch_def del: form_outer.simps)
  moreover have final: "sources (fst (snd ?st')) = sources bp" "config (fst (snd ?st')) = config bp"
    "priority_list (fst (snd ?st')) = priority_list bp"
    using visit_final [of ?st' env "rotate ?sp ?G" "initial_batch batch n" bp ins] by simp_all
  moreover have "service_order (fst (snd ?st')) = rotate ((?sp + ?v) mod length ?G) ?G"
    using final assms(3,4) by (simp add: service_order_def Let_def group_of_def si'(1))
  moreover have "rotate ((?sp + ?v) mod length ?G) ?G = rotate ?v (rotate ?sp ?G)"
    by (simp add: rotate_rotate add.commute flip: rotate_conv_mod)
  ultimately show ?thesis unfolding order by (cases ?st') simp
qed

lemma new_BatchPolicy_result:
  assumes "distinct (map fst (source_props cfg))"
  shows "policy_wf (new_BatchPolicy cfg ins now) \<and> position_ok (new_BatchPolicy cfg ins now) \<and>
    snd ` set (sources (new_BatchPolicy cfg ins now)) = fst ` set (source_props cfg) \<union> fst ` set ins"
proof -
  have conf: "last_batch_state (add_configured ps bp) = last_batch_state bp" for ps bp
    by (induction ps bp rule: add_configured.induct) simp_all
  have unconf: "last_batch_state (add_unconfigured ss bp) = last_batch_state bp" for ss bp
    by (induction ss bp rule: add_unconfigured.induct) (simp_all add: add_default_source_def)
  define bp0 where "bp0 = \<lparr>config = cfg, max_fps_dur = Fin 0, min_fps_dur = Fin 0,
                 min_early_buffer_dur = Fin 0, max_dur_time = Fin 0, min_dur_time = Fin 0,
                 src_max_fps = [], src_push_times = [], src_num_pushed = [], priority_list = [],
                 sources = [], last_batch_time = Fin 0, bp_batch_size = 0,
                 last_batch_state = \<lparr>priority_list_position = 0, source_map_position = 0\<rparr>,
                 bp_num_sources_idle = 0, num_sources_eos = 0, bp_num_surfaces_per_frame = 1,
                 synch_buffer = False, total_buf_available = 0\<rparr>"
  let ?bp2 = "add_unconfigured (map fst ins) (add_configured (source_props cfg) bp0)"
  let ?bp = "new_BatchPolicy cfg ins now"
  have same: "sources ?bp = sources ?bp2" "priority_list ?bp = priority_list ?bp2"
    "last_batch_state ?bp = last_batch_state ?bp2"
    by (simp_all add: new_BatchPolicy_def Let_def update_last_batch_time_def bp0_def)
  have "policy_wf bp0" by (simp add: policy_wf_def bp0_def)
  with policy_wf_add_configured [of bp0 "source_props cfg"] assms
  have c: "policy_wf (add_configured (source_props cfg) bp0)"
    "snd ` set (sources (add_configured (source_props cfg) bp0)) = fst ` set (source_props cfg)"
    by (simp_all add: bp0_def)
  from policy_wf_add_unconfigured [OF c(1), of "map fst ins"] c(2)
  have u: "policy_wf ?bp2" "snd ` set (sources ?bp2) = fst ` set (source_props cfg) \<union> fst ` set ins"
    by auto
  have pos: "last_batch_state ?bp2 = \<lparr>priority_list_position = 0, source_map_position = 0\<rparr>"
    by (simp add: conf unconf bp0_def)
  have wf: "policy_wf ?bp" using u(1) same by (simp add: policy_wf_def)
  moreover have "position_ok ?bp"
    using group_nonempty [OF wf] same(3) pos by (auto simp: position_ok_def Let_def)
  ultimately show ?thesis using u(2) same(1) by simp
qed

text \<open>
  Property C17. The constructor yields a well-formed policy: the priorities are strictly sorted,
  the sources are sorted by priority, exactly the configured sources and the existing pads are in
  the multimap, each once, and the saved position is valid.
\<close>

theorem new_BatchPolicy_wf:
  assumes "distinct (map fst (source_props cfg))"
  shows "policy_wf (new_BatchPolicy cfg ins now) \<and> position_ok (new_BatchPolicy cfg ins now) \<and>
    snd ` set (sources (new_BatchPolicy cfg ins now)) = fst ` set (source_props cfg) \<union> fst ` set ins"
  using assms by (rule new_BatchPolicy_result)

text \<open>
  When data arrives from a source that is not known yet, it is added with the
  default priority and default properties; every source that was known stays, in its place, and
  the policy stays well-formed. The saved round robin position stays valid if the default
  priority was in use before.
\<close>

lemma check_and_update_defaults_wf:
  assumes "policy_wf bp"
  shows "policy_wf (check_and_update_defaults sid bp) \<and>
    snd ` set (sources (check_and_update_defaults sid bp)) = insert sid (snd ` set (sources bp)) \<and>
    (position_ok bp \<and> NVSTREAMMUX_DEFAULT_SOURCE_GROUP_PRIORITY \<in> set (priority_list bp) \<longrightarrow>
       position_ok (check_and_update_defaults sid bp))"
proof (cases "source_known sid bp")
  case True
  then show ?thesis using assms by (auto simp: check_and_update_defaults_def source_known_def)
next
  case False
  let ?bp = "check_and_update_defaults sid bp" and ?bp1 = "add_default_source sid bp"
  have same: "sources ?bp = sources ?bp1" "priority_list ?bp = priority_list ?bp1"
    "last_batch_state ?bp = last_batch_state ?bp1"
    using False by (simp_all add: check_and_update_defaults_def Let_def split: option.split)
  have "policy_wf ?bp" using policy_wf_add_default [OF assms False] same by (simp add: policy_wf_def)
  moreover have "snd ` set (sources ?bp) = insert sid (snd ` set (sources bp))"
    unfolding same by (simp add: add_default_source_def set_mm_insert)
  ultimately show ?thesis
    using position_ok_add_default [OF assms _ False] position_ok_fields [OF same] by blast
qed

text \<open>
  With a synchronisation interface, only late buffers leave the queue of a pad, the
  other entries stay in order and no event is lost; the count of queued buffers is adjusted. The
  buffers reported as ready are at most the allowed ones, they are on time, and they are the first
  ones of the queue that is left, which is where the copy takes them from.
\<close>

lemma synchronize_buffers_drops_late:
  assumes "synchronize_buffers_in_pad env p n bp = (k, p', bp', late)"
  shows "subseq (queue p') (queue p) \<and> mset (queue p) = mset (queue p') + mset late \<and>
    filter is_event (queue p') = filter is_event (queue p) \<and>
    list_all (\<lambda>e. is_buffer e \<and> fst (synch_info env e) = BUFFER_TS_LATE) late \<and>
    unat k \<le> unat n \<and>
    list_all (\<lambda>e. fst (synch_info env e) = BUFFER_TS_ONTIME)
      (take (unat k) (filter is_buffer (queue p'))) \<and>
    buffer_count p' = buffer_count p - of_nat (length late)"
proof -
  obtain m kept where loop:
    "synchronize_loop env n (min_early_buffer_dur bp) (queue p) = (k, m, kept, late)"
    and p': "p' = p\<lparr>queue := kept, buffer_count := buffer_count p - of_nat (length late)\<rparr>"
    using assms by (auto simp: synchronize_buffers_in_pad_def fold_pop_buffer_done
        split: prod.splits)
  show ?thesis
    using synchronize_loop_kept [OF loop] synchronize_loop_count [OF loop]
      synchronize_loop_ontime [OF loop]
    by (simp add: p' list_all_iff)
qed

end
