(* ===== verification/MuxCore.thy ===== *)
theory MuxCore
  imports MuxBatchProps
begin

text \<open>
  The muxer itself: \<open>src/sources/libs/nvstreammux/nvstreammux.cpp\<close> and \<open>include/nvstreammux.h\<close>.
  The state of the class \<open>NvStreamMux\<close> is a record; each method is a function on it. A method that
  holds the mutex from beginning to end is one function; one that releases it in between is split
  there (\<open>remove_pad\<close>, \<open>add_buffer\<close>; \<open>push_loop\<close> is the subject of the theory \<open>MuxLoop\<close>).
  \<open>None\<close> is undefined behaviour: a null pad or batch is dereferenced.

  \<open>inputs\<close> maps pad ids to pads; \<open>None\<close> is the null pointer that \<open>inputs[id]\<close> inserts for an
  unknown id.
\<close>

section \<open>State\<close>

record NvStreamMux =
  inputs :: pads
  state :: SOURCE_STATE
  num_queues_empty :: u32
  num_sources_idle :: u32
  pads_got_eos_and_empty_in_q :: u32
  num_pads_eos :: u32
  mux_batch :: "Batch option"
  current_play_start_time :: dbl
  accum_play_dur :: dbl
  frame_duration_nsec :: u64
  cur_frame_pts :: u64
  stop_task :: bool
  extra_throttle_wait_time :: dbl
  batch_policy :: BatchPolicy
  num_surfaces_per_frame :: u32
  all_pads_eos :: bool
  got_first_buffer :: bool
  frame_num_reset_on_eos :: bool
  frame_num_reset_on_stream_reset :: bool
  mux_synch_buffer :: bool

text \<open>The constructor leaves some fields as it finds them in memory.\<close>

definition new_NvStreamMux :: "NvStreamMux \<Rightarrow> NvStreamMux" where
  "new_NvStreamMux mem =
     mem\<lparr>inputs := [], state := SOURCE_STATE_IDLE, num_queues_empty := 0, num_sources_idle := 0,
         pads_got_eos_and_empty_in_q := 0, num_pads_eos := 0, mux_batch := None,
         cur_frame_pts := 0, stop_task := False, extra_throttle_wait_time := 0,
         num_surfaces_per_frame := 1, all_pads_eos := False, got_first_buffer := False,
         frame_num_reset_on_eos := False, frame_num_reset_on_stream_reset := False,
         mux_synch_buffer := False\<rparr>"

definition set_policy :: "BatchPolicyConfig \<Rightarrow> dbl \<Rightarrow> NvStreamMux \<Rightarrow> NvStreamMux" where
  "set_policy cfg now m =
     (let bp = new_BatchPolicy cfg (inputs m) now
      in m\<lparr>batch_policy := set_synch_buffer_iface (mux_synch_buffer m)
                             (bp\<lparr>total_buf_available := 0\<rparr>)\<rparr>)"

definition set_frame_num_reset_on_eos :: "bool \<Rightarrow> NvStreamMux \<Rightarrow> NvStreamMux" where
  "set_frame_num_reset_on_eos r m = m\<lparr>frame_num_reset_on_eos := r\<rparr>"

definition set_frame_num_reset_on_stream_reset :: "bool \<Rightarrow> NvStreamMux \<Rightarrow> NvStreamMux" where
  "set_frame_num_reset_on_stream_reset r m = m\<lparr>frame_num_reset_on_stream_reset := r\<rparr>"

text \<open>The pad behind an id, and writing a pad back.\<close>

definition pad_at :: "u32 \<Rightarrow> NvStreamMux \<Rightarrow> SinkPad option" where
  "pad_at sid m = (case map_of (inputs m) sid of Some (Some p) \<Rightarrow> Some p | _ \<Rightarrow> None)"

definition set_pad :: "u32 \<Rightarrow> SinkPad \<Rightarrow> NvStreamMux \<Rightarrow> NvStreamMux" where
  "set_pad sid p m = m\<lparr>inputs := AList.update sid (Some p) (inputs m)\<rparr>"

text \<open>\<open>inputs[id]\<close>: the null pointer is inserted when the id is unknown.\<close>

definition get_pad :: "u32 \<Rightarrow> NvStreamMux \<Rightarrow> SinkPad option \<times> NvStreamMux" where
  "get_pad sid m =
     (let m' = m\<lparr>inputs := al_touch None sid (inputs m)\<rparr> in (pad_at sid m', m'))"

section \<open>Events and idle or ended sources\<close>

text \<open>The body of the loop of \<open>push_events\<close> for one pad; it returns the events pushed.\<close>

definition push_events_pad ::
  "SinkPad \<Rightarrow> NvStreamMux \<Rightarrow> QueueEntry list \<times> SinkPad \<times> NvStreamMux" where
  "push_events_pad p m =
     (let (evs, p1) = push_events p;
          m1 = (if queue p1 = [] \<and> state m \<noteq> SOURCE_STATE_IDLE
                then m\<lparr>num_queues_empty := num_queues_empty m + 1\<rparr> else m);
          (p2, m2) =
            (if switched_to_idle p1 \<and> queue p1 = [] then
               let p' = p1\<lparr>pad_state := SOURCE_STATE_IDLE, switched_to_idle := False\<rparr>;
                   m' = m1\<lparr>num_sources_idle := num_sources_idle m1 + 1\<rparr>
               in if eos p' then
                    (if frame_num_reset_on_eos m' then reset_frame_count p' else p',
                     m'\<lparr>pads_got_eos_and_empty_in_q := pads_got_eos_and_empty_in_q m' + 1,
                        batch_policy := update_eos_sources
                          (get_eos_sources (batch_policy m') + 1) (batch_policy m')\<rparr>)
                  else (p', m')
             else (p1, m1));
          (p3, m3) =
            (if switched_to_active p2 then
               (p2\<lparr>switched_to_active := False\<rparr>,
                if 0 < num_sources_idle m2
                then m2\<lparr>num_sources_idle := num_sources_idle m2 - 1\<rparr> else m2)
             else (p2, m2))
      in (evs, p3, m3))"

fun push_events_loop ::
  "pads \<Rightarrow> NvStreamMux \<Rightarrow> (u32 \<times> QueueEntry) list \<times> pads \<times> NvStreamMux" where
  "push_events_loop [] m = ([], [], m)"
| "push_events_loop ((sid, None) # ins) m =
     (let (evs, ins', m') = push_events_loop ins m in (evs, (sid, None) # ins', m'))"
| "push_events_loop ((sid, Some p) # ins) m =
     (let (evs, p', m1) = push_events_pad p m;
          (evs', ins', m') = push_events_loop ins m1
      in (map (Pair sid) evs @ evs', (sid, Some p') # ins', m'))"

definition mux_push_events :: "NvStreamMux \<Rightarrow> (u32 \<times> QueueEntry) list \<times> NvStreamMux" where
  "mux_push_events m =
     (let (evs, ins, m1) = push_events_loop (inputs m) m;
          m2 = m1\<lparr>inputs := ins\<rparr>;
          m3 = (if ins \<noteq> [] then
                  m2\<lparr>all_pads_eos :=
                       ((ucast (pads_got_eos_and_empty_in_q m2) :: u64) = of_nat (length ins))\<rparr>
                else m2)
      in (evs, m3\<lparr>batch_policy :=
                    update_idle_sources (num_sources_idle m3) (batch_policy m3)\<rparr>))"

section \<open>Looking at the batch\<close>

text \<open>
  \<open>get_source_id_with_earliest_buffer\<close> reads the time stamp of the entry at the front of each
  queue. If that is an event, which has no time stamp, the cast reads past the object: \<open>None\<close>.
\<close>

fun earliest_loop :: "(u32 \<times> u32) list \<Rightarrow> u64 \<Rightarrow> u32 \<Rightarrow> pads \<Rightarrow> (u32 \<times> pads) option" where
  "earliest_loop [] ts i ins = Some (i, ins)"
| "earliest_loop ((s, n) # xs) ts i ins =
     (let ins' = al_touch None s ins
      in case map_of ins' s of
           Some (Some p) \<Rightarrow>
             (case queue p of
                [] \<Rightarrow> earliest_loop xs ts i ins'
              | e # _ \<Rightarrow>
                  if n = 0 then earliest_loop xs ts i ins'
                  else if \<not> is_buffer e then None
                  else if timestamp e < ts then earliest_loop xs (timestamp e) s ins'
                  else earliest_loop xs ts i ins')
         | _ \<Rightarrow> earliest_loop xs ts i ins')"

definition get_source_id_with_earliest_buffer :: "NvStreamMux \<Rightarrow> (u32 \<times> NvStreamMux) option" where
  "get_source_id_with_earliest_buffer m =
     (case mux_batch m of
        None \<Rightarrow> None
      | Some b \<Rightarrow>
          (case earliest_loop (num_sources b) (- 1) (- 1) (inputs m) of
             None \<Rightarrow> None
           | Some (i, ins) \<Rightarrow> Some (i, m\<lparr>inputs := ins\<rparr>)))"

fun remaining_loop :: "(u32 \<times> u32) list \<Rightarrow> u32 \<Rightarrow> pads \<Rightarrow> u32 \<times> pads" where
  "remaining_loop [] k ins = (k, ins)"
| "remaining_loop ((s, n) # xs) k ins =
     (let ins' = al_touch None s ins
      in case map_of ins' s of
           Some (Some p) \<Rightarrow>
             remaining_loop xs
               (if 0 < n then k + of_nat (length (filter is_buffer (queue p))) else k) ins'
         | _ \<Rightarrow> remaining_loop xs k ins')"

definition get_remaining_unbatched_buffers_from_all_sources ::
  "NvStreamMux \<Rightarrow> (u32 \<times> NvStreamMux) option" where
  "get_remaining_unbatched_buffers_from_all_sources m =
     (case mux_batch m of
        None \<Rightarrow> None
      | Some b \<Rightarrow>
          (let (k, ins) = remaining_loop (num_sources b) 0 (inputs m)
           in Some (k, m\<lparr>inputs := ins\<rparr>)))"

section \<open>Copying the batch\<close>

text \<open>
  The output buffer is the caller's: its method \<open>copy_buf\<close> takes the state of the buffer, an
  entry and the position in the batch, and returns how many surfaces it copied, 0 when full. For
  each copied entry the model logs what \<open>copy_meta\<close> is given: pad, entry, position in the batch,
  frame number and source.
\<close>

record copied =
  cp_pad_id :: u32
  cp_entry :: QueueEntry
  cp_batch_id :: u32
  cp_frame_number :: u64
  cp_source_id :: u32

record 'o out_state =
  out_buf :: 'o
  total_copied :: u32
  copied_log :: "copied list"

type_synonym 'o copy_fun = "'o \<Rightarrow> QueueEntry \<Rightarrow> u32 \<Rightarrow> u32 \<times> 'o"

text \<open>
  The inner loop over the queue of one pad, of which \<open>n\<close> buffers are to be copied and \<open>c\<close> have
  been. The first list holds the entries the iterator has passed (events), the second those ahead.
\<close>

fun copy_loop ::
  "'o copy_fun \<Rightarrow> policy_env \<Rightarrow> u32 \<Rightarrow> QueueEntry list \<Rightarrow> QueueEntry list \<Rightarrow> u32 \<Rightarrow> SinkPad \<Rightarrow>
   NvStreamMux \<Rightarrow> 'o out_state \<Rightarrow> QueueEntry list \<times> u32 \<times> SinkPad \<times> NvStreamMux \<times> 'o out_state"
where
  "copy_loop cb env n passed [] c p m os = (passed, c, p, m, os)"
| "copy_loop cb env n passed (e # q) c p m os =
     (if \<not> (sint c < sint n \<and> 0 < n) then (passed @ e # q, c, p, m, os)
      else if entry_type e \<noteq> ENTRY_BUFFER then copy_loop cb env n (passed @ [e]) q c p m os
      else
        let (k, out') = cb (out_buf os) e (total_copied os)
        in if k = 0 then (passed @ e # q, c, p, m, os\<lparr>out_buf := out'\<rparr>)
           else
             let os' = os\<lparr>out_buf := out', total_copied := total_copied os + k,
                         copied_log := copied_log os @
                           [\<lparr>cp_pad_id = pad_id p, cp_entry = e, cp_batch_id = total_copied os,
                             cp_frame_number = frame_count p, cp_source_id = source_id p\<rparr>]\<rparr>;
                 p' = snd (pop_buffer_done (update_frame_count k p));
                 c' = c + 1;
                 bp = batch_policy m;
                 m1 = m\<lparr>batch_policy := bp\<lparr>total_buf_available := total_buf_available bp - 1\<rparr>\<rparr>;
                 m2 = (if passed @ q = [] then m1\<lparr>num_queues_empty := num_queues_empty m1 + 1\<rparr>
                       else m1)
             in if c' = n
                then (passed @ q, c', p',
                      m2\<lparr>batch_policy := update_push_stats (clock_at env (pad_id p')) (pad_id p') c'
                                          (batch_policy m2)\<rparr>, os')
                else copy_loop cb env n passed q c' p' m2 os')"

definition copy_pad ::
  "'o copy_fun \<Rightarrow> policy_env \<Rightarrow> u32 \<Rightarrow> SinkPad \<Rightarrow> NvStreamMux \<Rightarrow> 'o out_state \<Rightarrow>
   SinkPad \<times> NvStreamMux \<times> 'o out_state" where
  "copy_pad cb env n p m os =
     (let (q, c, p', m', os') = copy_loop cb env n [] (queue p) 0 p m os
      in (adjust_event_indices c False (p'\<lparr>queue := q\<rparr>), m', os'))"

fun copy_sources ::
  "'o copy_fun \<Rightarrow> policy_env \<Rightarrow> (u32 \<times> u32) list \<Rightarrow> NvStreamMux \<Rightarrow> 'o out_state \<Rightarrow>
   NvStreamMux \<times> 'o out_state" where
  "copy_sources cb env [] m os = (m, os)"
| "copy_sources cb env ((s, n) # xs) m os =
     (let (pad, m1) = get_pad s m
      in case pad of
           None \<Rightarrow> copy_sources cb env xs m1 os
         | Some p \<Rightarrow>
             let (p', m2, os') = copy_pad cb env n p m1 os
             in copy_sources cb env xs (set_pad s p' m2) os')"

definition copy_batch ::
  "'o copy_fun \<Rightarrow> policy_env \<Rightarrow> NvStreamMux \<Rightarrow> 'o \<Rightarrow> (NvStreamMux \<times> 'o out_state) option" where
  "copy_batch cb env m ob =
     (case mux_batch m of
        None \<Rightarrow> None
      | Some b \<Rightarrow>
          Some (copy_sources cb env (num_sources b) m
                  \<lparr>out_buf = ob, total_copied = 0, copied_log = []\<rparr>))"

section \<open>Setters and getters\<close>

definition get_pad_state :: "SinkPad \<Rightarrow> SOURCE_STATE" where
  "get_pad_state p = pad_state p"

definition set_pts_offset :: "u64 \<Rightarrow> NvStreamMux \<Rightarrow> NvStreamMux" where
  "set_pts_offset off m = m\<lparr>cur_frame_pts := off\<rparr>"

text \<open>\<open>push_batch\<close> hands the batch to the source pad with this time stamp.\<close>

definition push_batch :: "NvStreamMux \<Rightarrow> u64 \<times> NvStreamMux" where
  "push_batch m =
     (let m' = m\<lparr>cur_frame_pts := cur_frame_pts m + frame_duration_nsec m\<rparr>
      in (cur_frame_pts m', m'))"

definition set_batch_size :: "u32 \<Rightarrow> NvStreamMux \<Rightarrow> NvStreamMux" where
  "set_batch_size n m = m\<lparr>batch_policy := set_cfg_batch_size n (batch_policy m)\<rparr>"

definition mux_set_batch_push_timeout :: "u32 \<Rightarrow> NvStreamMux \<Rightarrow> NvStreamMux option" where
  "mux_set_batch_push_timeout t m =
     map_option (\<lambda>bp. m\<lparr>batch_policy := bp\<rparr>) (set_batch_push_timeout t (batch_policy m))"

definition mux_get_batch_size :: "NvStreamMux \<Rightarrow> u32" where
  "mux_get_batch_size m = get_batch_size (inputs m) (batch_policy m)"

definition mux_get_config_batch_size :: "NvStreamMux \<Rightarrow> u32" where
  "mux_get_config_batch_size m = get_config_batch_size (inputs m) (batch_policy m)"

definition set_num_surfaces_per_frame :: "u32 \<Rightarrow> NvStreamMux \<Rightarrow> NvStreamMux" where
  "set_num_surfaces_per_frame n m =
     m\<lparr>num_surfaces_per_frame := n, batch_policy := set_num_surfaces n (batch_policy m)\<rparr>"

definition get_num_surfaces_per_frame :: "NvStreamMux \<Rightarrow> u32" where
  "get_num_surfaces_per_frame m = num_surfaces_per_frame m"

definition set_all_pads_eos :: "bool \<Rightarrow> NvStreamMux \<Rightarrow> NvStreamMux" where
  "set_all_pads_eos b m = m\<lparr>all_pads_eos := b\<rparr>"

definition get_all_pads_eos :: "NvStreamMux \<Rightarrow> bool" where
  "get_all_pads_eos m = all_pads_eos m"

text \<open>\<open>reset_pad\<close> is called with a pad of the muxer, here given by its id.\<close>

definition reset_pad :: "u32 \<Rightarrow> NvStreamMux \<Rightarrow> NvStreamMux option" where
  "reset_pad sid m =
     (case pad_at sid m of
        None \<Rightarrow> None
      | Some p \<Rightarrow>
          Some (if eos p then
                  let m1 = set_pad sid (p\<lparr>eos := False\<rparr>) m;
                      bp = batch_policy m1
                  in if 0 < get_eos_sources bp then
                       m1\<lparr>batch_policy := update_eos_sources (get_eos_sources bp - 1) bp,
                          pads_got_eos_and_empty_in_q := pads_got_eos_and_empty_in_q m1 - 1,
                          all_pads_eos := False\<rparr>
                     else m1
                else m))"

definition set_frame_duration :: "u64 \<Rightarrow> NvStreamMux \<Rightarrow> NvStreamMux" where
  "set_frame_duration d m = m\<lparr>frame_duration_nsec := d\<rparr>"

definition update_pad_mimetype :: "u32 \<Rightarrow> PAD_MIME_TYPE \<Rightarrow> NvStreamMux \<Rightarrow> NvStreamMux" where
  "update_pad_mimetype sid mt m =
     (case get_pad sid m of
        (None, m') \<Rightarrow> m'
      | (Some p, m') \<Rightarrow> set_pad sid (p\<lparr>mime_type := mt\<rparr>) m')"

definition get_pad_mimetype :: "u32 \<Rightarrow> NvStreamMux \<Rightarrow> PAD_MIME_TYPE \<times> NvStreamMux" where
  "get_pad_mimetype sid m =
     (case get_pad sid m of
        (None, m') \<Rightarrow> (PAD_MIME_TYPE_INVALID, m')
      | (Some p, m') \<Rightarrow> (mime_type p, m'))"

definition mux_set_synch_buffer_iface :: "bool \<Rightarrow> NvStreamMux \<Rightarrow> NvStreamMux" where
  "mux_set_synch_buffer_iface b m = m\<lparr>mux_synch_buffer := b\<rparr>"

definition mux_get_min_fps_duration :: "NvStreamMux \<Rightarrow> dbl" where
  "mux_get_min_fps_duration m = get_min_fps_duration (batch_policy m)"

definition handle_pause_play :: "dbl \<Rightarrow> NvStreamMux \<Rightarrow> NvStreamMux" where
  "handle_pause_play now m = m\<lparr>current_play_start_time := now\<rparr>"

definition handle_play_pause :: "dbl \<Rightarrow> NvStreamMux \<Rightarrow> NvStreamMux" where
  "handle_play_pause now m =
     m\<lparr>accum_play_dur := accum_play_dur m + (current_play_start_time m - now)\<rparr>"

definition handle_ready_pause :: "NvStreamMux \<Rightarrow> NvStreamMux" where
  "handle_ready_pause m = m\<lparr>accum_play_dur := 0\<rparr>"

definition reset_stop :: "NvStreamMux \<Rightarrow> NvStreamMux" where
  "reset_stop m = m\<lparr>stop_task := False\<rparr>"

section \<open>Adding and removing pads\<close>

definition add_pad :: "u32 \<Rightarrow> SinkPad \<Rightarrow> NvStreamMux \<Rightarrow> NvStreamMux" where
  "add_pad sid pad m =
     (let m1 = set_pad sid pad m;
          m2 = m1\<lparr>batch_policy := check_and_update_defaults sid (batch_policy m1),
                  all_pads_eos := False\<rparr>
      in set_pad sid (pad\<lparr>switched_to_idle := True\<rparr>) m2)"

text \<open>
  \<open>remove_pad\<close> first adjusts the counters, then polls up to 100 times, without the lock, for the
  pad to have reached its end of stream, and then erases it. The first and the last part:
\<close>

definition remove_pad_begin :: "u32 \<Rightarrow> NvStreamMux \<Rightarrow> NvStreamMux option" where
  "remove_pad_begin sid m =
     (case map_of (inputs m) sid of
        None \<Rightarrow> Some m
      | Some None \<Rightarrow> None
      | Some (Some p) \<Rightarrow>
          Some (if queue p = [] then
                  m\<lparr>num_queues_empty := num_queues_empty m - 1,
                    pads_got_eos_and_empty_in_q := pads_got_eos_and_empty_in_q m - 1,
                    batch_policy := update_eos_sources (get_eos_sources (batch_policy m) - 1)
                                      (batch_policy m)\<rparr>
                else m))"

definition remove_pad_end :: "u32 \<Rightarrow> NvStreamMux \<Rightarrow> NvStreamMux option" where
  "remove_pad_end sid m =
     (case map_of (inputs m) sid of
        None \<Rightarrow> Some m
      | Some None \<Rightarrow> None
      | Some (Some p) \<Rightarrow>
          let m1 = (if \<not> eos p
                    then m\<lparr>pads_got_eos_and_empty_in_q := pads_got_eos_and_empty_in_q m + 1\<rparr>
                    else m);
              m2 = (if state m1 = SOURCE_STATE_IDLE
                    then set_pad sid (p\<lparr>switched_to_idle := True\<rparr>) m1 else m1);
              m3 = m2\<lparr>inputs := AList.delete sid (inputs m2)\<rparr>
          in Some (if inputs m3 = [] then m3\<lparr>all_pads_eos := True\<rparr> else m3))"

text \<open>Without interference from other threads:\<close>

definition remove_pad :: "u32 \<Rightarrow> NvStreamMux \<Rightarrow> NvStreamMux option" where
  "remove_pad sid m = Option.bind (remove_pad_begin sid m) (remove_pad_end sid)"

section \<open>Buffers\<close>

text \<open>
  \<open>add_buffer\<close> raises the limit of the queue to the batch size, waits while the queue is full, and
  then queues the buffer. The Boolean of the first part says whether it must wait.
\<close>

definition add_buffer_begin :: "u32 \<Rightarrow> NvStreamMux \<Rightarrow> (bool \<times> NvStreamMux) option" where
  "add_buffer_begin sid m =
     (case get_pad sid m of
        (None, _) \<Rightarrow> None
      | (Some p, m1) \<Rightarrow>
          let bs = mux_get_batch_size m1;
              p' = (if get_max_buffer_count p < bs then set_max_buffer_count bs p else p)
          in Some (wait_if_queue_full p', set_pad sid p' m1))"

definition add_buffer_commit :: "dbl \<Rightarrow> u32 \<Rightarrow> QueueEntry \<Rightarrow> NvStreamMux \<Rightarrow> NvStreamMux option" where
  "add_buffer_commit now sid buf m =
     (case pad_at sid m of
        None \<Rightarrow> None
      | Some p \<Rightarrow>
          let p1 = (if pad_state p = SOURCE_STATE_IDLE then p\<lparr>switched_to_active := True\<rparr> else p);
              m1 = (if queue p1 = [] then m\<lparr>num_queues_empty := num_queues_empty m - 1\<rparr> else m);
              m2 = m1\<lparr>state := SOURCE_STATE_PLAYING\<rparr>;
              p2 = p1\<lparr>pad_state := SOURCE_STATE_PLAYING\<rparr>;
              bp = batch_policy m2;
              (p3, m3) = (if pad_state p2 = SOURCE_STATE_STOPPING then (p2, m2)
                          else (queue_entry buf p2,
                                m2\<lparr>batch_policy :=
                                     bp\<lparr>total_buf_available := total_buf_available bp + 1\<rparr>\<rparr>));
              m4 = m3\<lparr>all_pads_eos := False\<rparr>;
              m5 = (if \<not> got_first_buffer m4
                    then m4\<lparr>got_first_buffer := True,
                            batch_policy := update_last_batch_time now (batch_policy m4)\<rparr>
                    else m4)
          in Some (set_pad sid p3 m5))"

section \<open>Events\<close>

text \<open>Each handler returns its result, and the events that \<open>push_events\<close> pushed meanwhile.\<close>

definition handle_flush_stop :: "u32 \<Rightarrow> NvStreamMux \<Rightarrow> bool \<times> NvStreamMux" where
  "handle_flush_stop sid m =
     (case get_pad sid m of
        (None, m1) \<Rightarrow> (False, m1)
      | (Some p, m1) \<Rightarrow>
          (True, set_pad sid (p\<lparr>pad_state := SOURCE_STATE_PLAYING, switched_to_active := True\<rparr>)
                   (m1\<lparr>all_pads_eos := False\<rparr>)))"

text \<open>
  \<open>handle_eos\<close> up to the place where it gives up the lock. The first result is what it returns; when the
  second one holds it goes on with \<open>push_events\<close>, which takes the lock again, and returns.
\<close>

definition handle_eos :: "u32 \<Rightarrow> QueueEntry \<Rightarrow> NvStreamMux \<Rightarrow> bool \<times> bool \<times> NvStreamMux" where
  "handle_eos sid ev m =
     (case get_pad sid m of
        (None, m1) \<Rightarrow> (False, False, m1)
      | (Some p, m1) \<Rightarrow>
          if eos p then (False, False, m1)
          else (True, pad_state p = SOURCE_STATE_IDLE,
                set_pad sid ((queue_entry ev p)\<lparr>switched_to_idle := True, switched_to_active := False, eos := True\<rparr>) m1))"

text \<open>\<open>handle_eos_cascaded\<close> does not check for a null pad.\<close>

definition handle_eos_cascaded :: "u32 \<Rightarrow> QueueEntry \<Rightarrow> NvStreamMux \<Rightarrow> (bool \<times> NvStreamMux) option" where
  "handle_eos_cascaded sid ev m =
     (case get_pad sid m of
        (None, _) \<Rightarrow> None
      | (Some p, m1) \<Rightarrow> Some (True, set_pad sid (queue_entry ev p) m1))"

definition handle_segment :: "u32 \<Rightarrow> QueueEntry \<Rightarrow> NvStreamMux \<Rightarrow> bool \<times> NvStreamMux" where
  "handle_segment sid ev m =
     (case get_pad sid m of
        (None, m1) \<Rightarrow> (False, m1)
      | (Some p, m1) \<Rightarrow> (True, set_pad sid (queue_entry ev p) m1))"

definition handle_stream_reset :: "u32 \<Rightarrow> QueueEntry \<Rightarrow> NvStreamMux \<Rightarrow> bool \<times> NvStreamMux" where
  "handle_stream_reset sid ev m =
     (case get_pad sid m of
        (None, m1) \<Rightarrow> (False, m1)
      | (Some p, m1) \<Rightarrow>
          let p1 = queue_entry ev p
          in (True, set_pad sid (if frame_num_reset_on_stream_reset m1 then reset_frame_count p1
                                 else p1) m1))"

definition handle_stop :: "NvStreamMux \<Rightarrow> NvStreamMux" where
  "handle_stop m =
     m\<lparr>stop_task := True,
       inputs := map (\<lambda>(sid, pad).
         (sid, map_option (\<lambda>p. let p1 = reset p
                               in if frame_num_reset_on_eos m then reset_frame_count p1 else p1) pad))
         (inputs m)\<rparr>"

section \<open>Throttling\<close>

text \<open>
  \<open>apply_throttle\<close> waits; \<open>elapsed\<close> is the time the wait took. It returns how long it asked to
  wait, if it waits at all.
\<close>

definition apply_throttle :: "dbl \<Rightarrow> dbl \<Rightarrow> bool \<Rightarrow> NvStreamMux \<Rightarrow> dbl option \<times> NvStreamMux" where
  "apply_throttle now elapsed stop_when_input_buffer m =
     (let delay = (if stop_when_input_buffer then get_max_duration_delay (batch_policy m)
                   else calculate_delay now (batch_policy m))
      in if 0 < delay then
           let delay' = (if extra_throttle_wait_time m < delay
                         then delay - extra_throttle_wait_time m else delay)
           in (Some delay',
               m\<lparr>extra_throttle_wait_time := (if delay' < elapsed then elapsed - delay' else 0)\<rparr>)
         else (None, m))"

section \<open>The loop that pushes batches\<close>

text \<open>The step of \<open>push_loop\<close> that forms the batch.\<close>

definition mux_form_batch :: "policy_env \<Rightarrow> NvStreamMux \<Rightarrow> NvStreamMux option" where
  "mux_form_batch env m =
     (case form_batch env (mux_batch m) (mux_get_batch_size m) (batch_policy m) (inputs m) of
        None \<Rightarrow> None
      | Some (b, bp, ins) \<Rightarrow> Some (m\<lparr>mux_batch := Some b, batch_policy := bp, inputs := ins\<rparr>))"

text \<open>
  \<open>push_loop\<close> releases the mutex several times, and other threads run in between. It is modelled
  as a machine: \<open>loop_pc\<close> says where the loop is when the mutex is free, \<open>loop_step\<close> runs it to the
  next such point. \<open>Head\<close> is the head of the \<open>while\<close> loop (its argument is \<open>push_events_called\<close>),
  \<open>Forming\<close> the point behind the first \<open>push_events\<close>, \<open>Waiting\<close> the wait for the condition
  variable, \<open>Checking\<close> the point behind it, \<open>Formed\<close> the point before the events ahead of the batch
  are pushed, \<open>Copying\<close> the point before \<open>copy_batch\<close>, \<open>Throttling\<close> and \<open>Pushing\<close> those before
  \<open>apply_throttle\<close> and \<open>push_batch\<close>, \<open>Resetting\<close> the point behind it, \<open>Ending\<close> and \<open>Finishing\<close> the end
  of the function, with its result.
\<close>

datatype loop_pc =
  Outside | Head bool | Forming | Waiting | Checking | Formed | Copying | Throttling | Pushing
| Resetting | Ending bool | Finishing bool

text \<open>What a step lets out: events pushed, entries copied into the batch, and time stamps pushed.\<close>

record mux_output =
  o_events :: "(u32 \<times> QueueEntry) list"
  o_copied :: "copied list"
  o_pushed :: "u64 list"

definition silent :: mux_output where
  "silent = \<lparr>o_events = [], o_copied = [], o_pushed = []\<rparr>"

text \<open>What a step takes from outside: clocks, the policy's environment, and the output buffer.\<close>

record 'o loop_input =
  in_env :: policy_env
  in_now :: dbl
  in_later :: dbl
  in_elapsed :: dbl
  in_out :: "'o option"

definition events_step :: "loop_pc \<Rightarrow> NvStreamMux \<Rightarrow> (mux_output \<times> loop_pc \<times> NvStreamMux) option" where
  "events_step pc m =
     (let (evs, m') = mux_push_events m in Some (silent\<lparr>o_events := evs\<rparr>, pc, m'))"

definition form_step ::
  "'o loop_input \<Rightarrow> NvStreamMux \<Rightarrow> (mux_output \<times> loop_pc \<times> NvStreamMux) option" where
  "form_step i m =
     (case mux_form_batch (in_env i) m of
        None \<Rightarrow> None
      | Some m1 \<Rightarrow>
          (case mux_batch m1 of
             None \<Rightarrow> None
           | Some b \<Rightarrow>
               let (wait_time, bp) = calculate_wait (in_now i) (batch_policy m1);
                   m2 = m1\<lparr>batch_policy := bp\<rparr>;
                   wait_not_past_max = (0 < wait_time)
               in Some (silent,
                    (if \<not> is_ready b \<and> wait_not_past_max then Waiting
                     else if (is_ready_or_due (in_later i) b bp \<or> \<not> wait_not_past_max) \<and>
                             0 < acc_batch b then Formed
                     else if acc_batch b = 0 \<and> \<not> wait_not_past_max then Ending False
                     else Head True), m2)))"

definition check_step ::
  "'o loop_input \<Rightarrow> NvStreamMux \<Rightarrow> (mux_output \<times> loop_pc \<times> NvStreamMux) option" where
  "check_step i m =
     (case mux_batch m of
        None \<Rightarrow> None
      | Some b \<Rightarrow>
          Some (silent,
            (if stop_task m \<or> is_ready_or_due (in_now i) b (batch_policy m) then Ending False
             else Head True), m))"

definition finish_copy :: "dbl \<Rightarrow> NvStreamMux \<Rightarrow> NvStreamMux" where
  "finish_copy now m = m\<lparr>batch_policy := update_last_batch_time now (batch_policy m)\<rparr>"

fun loop_step ::
  "'o copy_fun \<Rightarrow> 'o loop_input \<Rightarrow> loop_pc \<Rightarrow> NvStreamMux \<Rightarrow> (mux_output \<times> loop_pc \<times> NvStreamMux) option"
where
  "loop_step cb i Outside m =
     (case in_out i of None \<Rightarrow> events_step Outside m | Some _ \<Rightarrow> Some (silent, Head False, m))"
| "loop_step cb i (Head push_events_called) m =
     (if stop_task m \<or> (case mux_batch m of None \<Rightarrow> False | Some b \<Rightarrow> is_ready b)
      then Some (silent, Ending False, m)
      else if inputs m = [] then Some (silent, Ending False, m)
      else if \<not> push_events_called then events_step Forming m
      else form_step i m)"
| "loop_step cb i Forming m = form_step i m"
| "loop_step cb i Waiting m =
     (case mux_batch m of
        None \<Rightarrow> None
      | Some b \<Rightarrow> if acc_batch b = 0 then events_step Checking m else check_step i m)"
| "loop_step cb i Checking m = check_step i m"
| "loop_step cb i Formed m = events_step Copying m"
| "loop_step cb i Copying m =
     (case in_out i of
        None \<Rightarrow> None
      | Some ob \<Rightarrow>
          (case copy_batch cb (in_env i) m ob of
             None \<Rightarrow> None
           | Some (m1, os) \<Rightarrow>
               let out = silent\<lparr>o_copied := copied_log os\<rparr>
               in if is_max_fps_control_enabled (batch_policy m1) \<and>
                     check_past_min (in_now i) (batch_policy m1)
                  then Some (out, Throttling, m1)
                  else Some (out, Pushing, finish_copy (in_later i) m1)))"
| "loop_step cb i Throttling m =
     (let (_, m1) = apply_throttle (in_now i) (in_elapsed i) False m
      in Some (silent, Pushing, finish_copy (in_later i) m1))"
| "loop_step cb i Pushing m =
     (let (pts, m1) = push_batch m in Some (silent\<lparr>o_pushed := [pts]\<rparr>, Resetting, m1))"
| "loop_step cb i Resetting m =
     Some (silent, Ending True, m\<lparr>mux_batch := map_option reset_batch (mux_batch m)\<rparr>)"
| "loop_step cb i (Ending r) m = events_step (Finishing r) m"
| "loop_step cb i (Finishing r) m =
     (if \<not> r then
        let (_, m1) = apply_throttle (in_now i) (in_elapsed i) True m in Some (silent, Outside, m1)
      else Some (silent, Outside, m))"

end
