(* ===== verification/MuxCoreProps.thy ===== *)
theory MuxCoreProps
  imports MuxCore
begin

text \<open>
  What the methods of the muxer do to the queues of its pads. Every method is described by the
  buffers (\<open>buf_q\<close>) and the events (\<open>ev_q\<close>) queued for each source before and after it, and keeps
  the invariant \<open>mux_wf\<close>.
\<close>

section \<open>Observing the queues\<close>

definition buf_q :: "u32 \<Rightarrow> NvStreamMux \<Rightarrow> QueueEntry list" where
  "buf_q sid m = (case pad_at sid m of None \<Rightarrow> [] | Some p \<Rightarrow> filter is_buffer (queue p))"

definition ev_q :: "u32 \<Rightarrow> NvStreamMux \<Rightarrow> QueueEntry list" where
  "ev_q sid m = (case pad_at sid m of None \<Rightarrow> [] | Some p \<Rightarrow> filter is_event (queue p))"

text \<open>
  The invariant: the pads are well-formed and sit under their own id, the policy is well-formed,
  its saved position is valid, the default priority is in use as soon as any is, and there is
  a source in the policy as soon as there is a pad or a batch.
\<close>

definition pads_ok :: "pads \<Rightarrow> bool" where
  "pads_ok ins \<longleftrightarrow>
     pads_wf ins \<and> (\<forall>e \<in> set ins. case snd e of None \<Rightarrow> True | Some p \<Rightarrow> pad_id p = fst e)"

definition policy_ok :: "BatchPolicy \<Rightarrow> bool" where
  "policy_ok bp \<longleftrightarrow>
     policy_wf bp \<and> position_ok bp \<and>
     (priority_list bp = [] \<or> NVSTREAMMUX_DEFAULT_SOURCE_GROUP_PRIORITY \<in> set (priority_list bp))"

definition mux_wf :: "NvStreamMux \<Rightarrow> bool" where
  "mux_wf m \<longleftrightarrow>
     pads_ok (inputs m) \<and> policy_ok (batch_policy m) \<and>
     (inputs m \<noteq> [] \<or> mux_batch m \<noteq> None \<longrightarrow> priority_list (batch_policy m) \<noteq> [])"

lemma pads_ok_iff:
  "pads_ok ins \<longleftrightarrow> distinct (map fst ins) \<and>
     (\<forall>sid p. map_of ins sid = Some (Some p) \<longrightarrow> pad_wf p \<and> pad_id p = sid)"
  unfolding pads_ok_def pads_wf_iff
  by (fastforce dest: map_of_SomeD map_of_is_SomeI split: option.splits)

lemma pad_at_Some_iff: "pad_at sid m = Some p \<longleftrightarrow> map_of (inputs m) sid = Some (Some p)"
  by (auto simp: pad_at_def split: option.splits)

lemma pads_ok_pad_at:
  "pads_ok (inputs m) \<longleftrightarrow> distinct (map fst (inputs m)) \<and>
     (\<forall>sid p. pad_at sid m = Some p \<longrightarrow> pad_wf p \<and> pad_id p = sid)"
  by (simp add: pads_ok_iff pad_at_Some_iff)

lemma pads_okD: "pads_ok (inputs m) \<Longrightarrow> pad_at sid m = Some p \<Longrightarrow> pad_wf p \<and> pad_id p = sid"
  by (simp add: pads_ok_pad_at)

text \<open>The policy only matters through its sources and its position.\<close>

lemma policy_ok_cong:
  "policy_ok bp' \<longleftrightarrow> policy_ok bp"
  if "sources bp' = sources bp" "priority_list bp' = priority_list bp"
    "last_batch_state bp' = last_batch_state bp"
  using that position_ok_fields [of bp' bp] by (simp add: policy_ok_def policy_wf_def)

text \<open>Changes to the muxer that leave the pads and the sources of the policy alone.\<close>

definition same_core :: "NvStreamMux \<Rightarrow> NvStreamMux \<Rightarrow> bool" where
  "same_core m m' \<longleftrightarrow>
     inputs m' = inputs m \<and> sources (batch_policy m') = sources (batch_policy m) \<and>
     priority_list (batch_policy m') = priority_list (batch_policy m) \<and>
     last_batch_state (batch_policy m') = last_batch_state (batch_policy m)"

lemma same_core_refl [simp]: "same_core m m"
  by (simp add: same_core_def)

lemma same_core_trans: "same_core a b \<Longrightarrow> same_core b c \<Longrightarrow> same_core a c"
  by (simp add: same_core_def)

lemma same_core_pad_at: "same_core m m' \<Longrightarrow> pad_at s m' = pad_at s m"
  by (simp add: same_core_def pad_at_def)

lemma same_core_q: "same_core m m' \<Longrightarrow> buf_q s m' = buf_q s m \<and> ev_q s m' = ev_q s m"
  by (simp add: buf_q_def ev_q_def same_core_pad_at)

section \<open>Writing a pad\<close>

lemma pad_at_set_pad [simp]: "pad_at s (set_pad sid p m) = (if s = sid then Some p else pad_at s m)"
  by (simp add: pad_at_def set_pad_def update_conv')

lemma batch_policy_set_pad [simp]: "batch_policy (set_pad sid p m) = batch_policy m"
  by (simp add: set_pad_def)

lemma inputs_set_pad: "inputs (set_pad sid p m) = AList.update sid (Some p) (inputs m)"
  by (simp add: set_pad_def)

lemma buf_q_set_pad [simp]:
  "buf_q s (set_pad sid p m) = (if s = sid then filter is_buffer (queue p) else buf_q s m)"
  by (simp add: buf_q_def)

lemma ev_q_set_pad [simp]:
  "ev_q s (set_pad sid p m) = (if s = sid then filter is_event (queue p) else ev_q s m)"
  by (simp add: ev_q_def)

lemma pad_at_present: "pad_at sid m = Some p \<Longrightarrow> sid \<in> fst ` set (inputs m)"
  by (metis domI dom_map_of_conv_image_fst pad_at_Some_iff)

lemma mux_wf_set_pad:
  assumes "mux_wf m" "pad_at sid m = Some p0" "pad_wf p" "pad_id p = sid"
  shows "mux_wf (set_pad sid p m)"
proof -
  have "pads_ok (inputs (set_pad sid p m))"
    using assms unfolding mux_wf_def pads_ok_pad_at pad_at_set_pad
    by (simp add: inputs_set_pad distinct_update)
  moreover have "inputs m \<noteq> []" using pad_at_present [OF assms(2)] by auto
  ultimately show ?thesis using assms(1) by (simp add: mux_wf_def set_pad_def)
qed

lemma get_pad_present: "pad_at sid m = Some p \<Longrightarrow> get_pad sid m = (Some p, m)"
  by (auto simp: get_pad_def pad_at_Some_iff Let_def)

text \<open>For an unknown id a null entry appears; the queues that can be observed stay.\<close>

lemma get_pad_unknown:
  assumes "pad_at sid m = None"
  shows "fst (get_pad sid m) = None" "pad_at s (snd (get_pad sid m)) = pad_at s m"
    "batch_policy (snd (get_pad sid m)) = batch_policy m"
    "pads_ok (inputs m) \<Longrightarrow> pads_ok (inputs (snd (get_pad sid m)))"
proof -
  have map: "map_of (al_touch None sid (inputs m)) s =
      (if map_of (inputs m) sid = None \<and> s = sid then Some None else map_of (inputs m) s)" for s
    by (auto simp: map_of_al_touch split: option.splits)
  show eq: "pad_at s (snd (get_pad sid m)) = pad_at s m" for s
    by (auto simp: get_pad_def Let_def pad_at_def map split: option.splits)
  with assms show "fst (get_pad sid m) = None" by (simp add: get_pad_def Let_def)
  show "pads_ok (inputs m) \<Longrightarrow> pads_ok (inputs (snd (get_pad sid m)))"
    unfolding pads_ok_pad_at eq by (simp add: get_pad_def Let_def)
qed (simp add: get_pad_def Let_def)

section \<open>Pushing events\<close>

text \<open>The counters that \<open>push_events\<close> maintains while it walks over the pads.\<close>

lemma push_events_pad_spec:
  assumes "push_events_pad p m = (evs, p', m')"
  shows "evs = takeWhile is_event (queue p)" "queue p' = dropWhile is_event (queue p)"
    "pad_id p' = pad_id p" "pad_wf p \<Longrightarrow> pad_wf p'" "same_core m m'"
    "synch_buffer (batch_policy m') = synch_buffer (batch_policy m)"
    "mux_batch m' = mux_batch m" "stop_task m' = stop_task m"
proof -
  obtain p1 where p1: "push_events p = (evs, p1)"
    and q: "queue p1 = dropWhile is_event (queue p)" "pad_id p1 = pad_id p"
      "event_indices p1 = event_indices (snd (push_events p))"
    and evs: "evs = takeWhile is_event (queue p)"
    using assms queue_push_events [of p] push_events_frame(2) [of p]
    by (cases "push_events p")
      (auto simp: push_events_pad_def Let_def push_events_eq [of p] split: prod.splits)
  have all: "queue p' = queue p1 \<and> pad_id p' = pad_id p1 \<and> event_indices p' = event_indices p1 \<and>
      same_core m m' \<and> synch_buffer (batch_policy m') = synch_buffer (batch_policy m) \<and>
      mux_batch m' = mux_batch m \<and> stop_task m' = stop_task m"
    using assms unfolding push_events_pad_def p1
    by (auto simp: Let_def same_core_def reset_frame_count_def update_eos_sources_def
        split: if_splits)
  show "evs = takeWhile is_event (queue p)" by (rule evs)
  show "queue p' = dropWhile is_event (queue p)" "pad_id p' = pad_id p" "same_core m m'"
    "synch_buffer (batch_policy m') = synch_buffer (batch_policy m)"
    "mux_batch m' = mux_batch m" "stop_task m' = stop_task m"
    using all q by simp_all
  have "pad_wf p' \<longleftrightarrow> pad_wf (snd (push_events p))"
    using all q by (simp add: pad_wf_def)
  then show "pad_wf p \<Longrightarrow> pad_wf p'" by (simp add: pad_wf_push_events)
qed

text \<open>What the loop pushed for one source.\<close>

definition events_of :: "u32 \<Rightarrow> (u32 \<times> QueueEntry) list \<Rightarrow> QueueEntry list" where
  "events_of sid evs = map snd (filter (\<lambda>e. fst e = sid) evs)"

lemma events_of_simps [simp]:
  "events_of sid [] = []" "events_of sid (xs @ ys) = events_of sid xs @ events_of sid ys"
  "events_of sid (map (Pair s) es) = (if s = sid then es else [])"
  by (auto simp: events_of_def comp_def filter_empty_conv)

text \<open>How a pad (or null pointer) looks after the events were pushed.\<close>

definition flushed ::
  "u32 \<Rightarrow> SinkPad option option \<Rightarrow> QueueEntry list \<Rightarrow> SinkPad option option \<Rightarrow> bool" where
  "flushed sid r evs r' \<longleftrightarrow>
     (case r of
        Some (Some p) \<Rightarrow> evs = takeWhile is_event (queue p) \<and>
          (\<exists>p'. r' = Some (Some p') \<and> queue p' = dropWhile is_event (queue p) \<and>
                pad_wf p' \<and> pad_id p' = sid)
      | _ \<Rightarrow> evs = [] \<and> r' = r)"

definition same_run :: "NvStreamMux \<Rightarrow> NvStreamMux \<Rightarrow> bool" where
  "same_run m m' \<longleftrightarrow>
     sources (batch_policy m') = sources (batch_policy m) \<and>
     priority_list (batch_policy m') = priority_list (batch_policy m) \<and>
     last_batch_state (batch_policy m') = last_batch_state (batch_policy m) \<and>
     synch_buffer (batch_policy m') = synch_buffer (batch_policy m) \<and>
     mux_batch m' = mux_batch m \<and> stop_task m' = stop_task m"

lemma same_run_trans: "same_run a b \<Longrightarrow> same_run b c \<Longrightarrow> same_run a c"
  by (simp add: same_run_def)

lemma push_events_loop_spec:
  "push_events_loop ins m = (evs, ins', m') \<Longrightarrow> pads_ok ins \<Longrightarrow>
   map fst ins' = map fst ins \<and> same_run m m' \<and> fst ` set evs \<subseteq> fst ` set ins \<and>
   (\<forall>sid. flushed sid (map_of ins sid) (events_of sid evs) (map_of ins' sid))"
proof (induction ins m arbitrary: evs ins' m' rule: push_events_loop.induct)
  case (1 m)
  then show ?case by (simp add: same_run_def flushed_def)
next
  case (2 sid ins m)
  obtain evs1 ins1 m1 where l: "push_events_loop ins m = (evs1, ins1, m1)" by (metis prod_cases3)
  have fresh: "sid \<notin> fst ` set ins" and ok: "pads_ok ins"
    using "2.prems"(2) by (auto simp: pads_ok_def pads_wf_def)
  note IH = "2.IH" [OF l ok]
  have "events_of sid evs1 = []" using IH fresh by (auto simp: events_of_def filter_empty_conv)
  then have "flushed sid (Some None) (events_of sid evs1) (Some None)" by (simp add: flushed_def)
  with IH "2.prems"(1) l show ?case by auto
next
  case (3 sid p ins m)
  obtain evs0 p' m0 where b: "push_events_pad p m = (evs0, p', m0)" by (metis prod_cases3)
  obtain evs1 ins1 m1 where l: "push_events_loop ins m0 = (evs1, ins1, m1)" by (metis prod_cases3)
  have fresh: "sid \<notin> fst ` set ins" and ok: "pads_ok ins" and p: "pad_wf p" "pad_id p = sid"
    using "3.prems"(2) by (auto simp: pads_ok_def pads_wf_def)
  note IH = "3.IH" [OF b [symmetric] refl refl l ok]
  note spec = push_events_pad_spec [OF b]
  have res: "evs = map (Pair sid) evs0 @ evs1" "ins' = (sid, Some p') # ins1" "m' = m1"
    using "3.prems"(1) b l by simp_all
  have "events_of sid evs1 = []" using IH fresh by (auto simp: events_of_def filter_empty_conv)
  then have "flushed sid (Some (Some p)) (events_of sid evs) (Some (Some p'))"
    using spec p by (simp add: flushed_def res)
  moreover have "same_run m m1"
    using spec(5-8) IH by (intro same_run_trans [of m m0 m1]) (simp_all add: same_run_def same_core_def)
  ultimately show ?case using IH by (auto simp: res)
qed

lemma same_run_policy_ok: "same_run m m' \<Longrightarrow> policy_ok (batch_policy m') = policy_ok (batch_policy m)"
  by (rule policy_ok_cong) (simp_all add: same_run_def)

lemma filter_event_split:
  "takeWhile is_event q @ filter is_event (dropWhile is_event q) = filter is_event q"
  by (induction q) auto

lemma flushedD:
  assumes "flushed sid (map_of (inputs m) sid) evs (map_of (inputs m') sid)"
  shows "buf_q sid m' = buf_q sid m" "evs @ ev_q sid m' = ev_q sid m"
    "pad_at sid m = Some p \<Longrightarrow> evs = takeWhile is_event (queue p)"
    "pad_at sid m' = Some p' \<Longrightarrow> pad_wf p' \<and> pad_id p' = sid"
    "pad_at sid m' = None \<longleftrightarrow> pad_at sid m = None"
proof -
  consider "map_of (inputs m) sid = None" | "map_of (inputs m) sid = Some None"
    | q where "map_of (inputs m) sid = Some (Some q)"
    by (cases "map_of (inputs m) sid") auto
  then have "buf_q sid m' = buf_q sid m \<and> evs @ ev_q sid m' = ev_q sid m \<and>
    (pad_at sid m = Some p \<longrightarrow> evs = takeWhile is_event (queue p)) \<and>
    (pad_at sid m' = Some p' \<longrightarrow> pad_wf p' \<and> pad_id p' = sid) \<and>
    (pad_at sid m' = None \<longleftrightarrow> pad_at sid m = None)"
  proof cases
    case 3
    with assms obtain q' where q': "evs = takeWhile is_event (queue q)"
      "map_of (inputs m') sid = Some (Some q')" "queue q' = dropWhile is_event (queue q)"
      "pad_wf q'" "pad_id q' = sid"
      by (auto simp: flushed_def)
    from 3 q'(2) have "pad_at sid m = Some q" "pad_at sid m' = Some q'"
      by (simp_all add: pad_at_Some_iff)
    with q' show ?thesis by (auto simp: buf_q_def ev_q_def filter_event_split)
  qed (use assms in \<open>simp_all add: flushed_def pad_at_def buf_q_def ev_q_def\<close>)
  then show "buf_q sid m' = buf_q sid m" "evs @ ev_q sid m' = ev_q sid m"
    "pad_at sid m = Some p \<Longrightarrow> evs = takeWhile is_event (queue p)"
    "pad_at sid m' = Some p' \<Longrightarrow> pad_wf p' \<and> pad_id p' = sid"
    "pad_at sid m' = None \<longleftrightarrow> pad_at sid m = None"
    by blast+
qed

lemma mux_push_events_flushed:
  assumes "mux_push_events m = (evs, m')" "mux_wf m"
  shows "map fst (inputs m') = map fst (inputs m)" "same_run m m'"
    "flushed sid (map_of (inputs m) sid) (events_of sid evs) (map_of (inputs m') sid)"
proof -
  obtain ins m1 where l: "push_events_loop (inputs m) m = (evs, ins, m1)"
    using assms(1) by (auto simp: mux_push_events_def Let_def split: prod.splits)
  have ok: "pads_ok (inputs m)" using assms(2) by (simp add: mux_wf_def)
  have m': "inputs m' = ins" "same_run m1 m'"
    using assms(1) l by (auto simp: mux_push_events_def same_run_def update_idle_sources_def Let_def
      split: if_splits)
  note spec = push_events_loop_spec [OF l ok]
  show "map fst (inputs m') = map fst (inputs m)" "same_run m m'"
    "flushed sid (map_of (inputs m) sid) (events_of sid evs) (map_of (inputs m') sid)"
    using spec m' by (auto intro: same_run_trans)
qed

lemma mux_push_events_spec:
  assumes "mux_push_events m = (evs, m')" "mux_wf m"
  shows "mux_wf m'" "same_run m m'" "buf_q sid m' = buf_q sid m"
    "events_of sid evs @ ev_q sid m' = ev_q sid m" "pad_at sid m' = None \<longleftrightarrow> pad_at sid m = None"
    "pad_at sid m = Some p \<Longrightarrow> events_of sid evs = takeWhile is_event (queue p)"
proof -
  note fl = mux_push_events_flushed [OF assms]
  have "pads_ok (inputs m')"
    unfolding pads_ok_pad_at fl(1) using assms(2) flushedD(4) [OF fl(3)]
    by (auto simp: mux_wf_def pads_ok_iff)
  moreover have "inputs m' = [] \<longleftrightarrow> inputs m = []" using fl(1) by (metis map_is_Nil_conv)
  ultimately show "mux_wf m'"
    using assms(2) fl(2) same_run_policy_ok [OF fl(2)] by (simp add: mux_wf_def same_run_def)
qed (use mux_push_events_flushed [OF assms] flushedD [OF mux_push_events_flushed(3) [OF assms]]
     in blast)+

section \<open>Copying\<close>

text \<open>The three ways a step of the copy loop can go.\<close>

lemma copy_loop_ConsE:
  assumes "copy_loop cb env n passed (e # q) c p m os = (q', c', p', m', os')"
  obtains (stop) out' where "q' = passed @ e # q" "c' = c" "p' = p" "m' = m"
      "os' = os\<lparr>out_buf := out'\<rparr>"
  | (event) "\<not> is_buffer e"
      "copy_loop cb env n (passed @ [e]) q c p m os = (q', c', p', m', os')"
  | (last) p1 m1 x out' k where "is_buffer e" "sint c < sint n" "q' = passed @ q" "c' = c + 1"
      "p' = p1" "m' = m1"
      "os' = os\<lparr>out_buf := out', total_copied := total_copied os + k,
                copied_log := copied_log os @ [x]\<rparr>"
      "cp_entry x = e" "cp_pad_id x = pad_id p" "p1 = snd (pop_buffer_done (update_frame_count k p))"
      "same_run m m1" "inputs m1 = inputs m" "c + 1 = n"
  | (more) p1 m1 x out' k os1 where "is_buffer e" "sint c < sint n"
      "os1 = os\<lparr>out_buf := out', total_copied := total_copied os + k,
                copied_log := copied_log os @ [x]\<rparr>"
      "cp_entry x = e" "cp_pad_id x = pad_id p" "p1 = snd (pop_buffer_done (update_frame_count k p))"
      "same_run m m1" "inputs m1 = inputs m" "c + 1 \<noteq> n"
      "copy_loop cb env n passed q (c + 1) p1 m1 os1 = (q', c', p', m', os')"
proof -
  consider "\<not> (sint c < sint n \<and> 0 < n)" | "sint c < sint n \<and> 0 < n" "\<not> is_buffer e"
    | "sint c < sint n \<and> 0 < n" "is_buffer e" by blast
  then show thesis
  proof cases
    case 1
    with assms show ?thesis by (intro stop [of "out_buf os"]) simp_all
  next
    case 2
    with assms show ?thesis by (intro event) simp_all
  next
    case 3
    obtain k out' where cb: "cb (out_buf os) e (total_copied os) = (k, out')" by fastforce
    show ?thesis
    proof (cases "k = 0")
      case True
      with assms 3 cb show ?thesis by (intro stop [of out']) simp_all
    next
      case False
      define x where "x = \<lparr>cp_pad_id = pad_id p, cp_entry = e, cp_batch_id = total_copied os,
                             cp_frame_number = frame_count p, cp_source_id = source_id p\<rparr>"
      define p1 where "p1 = snd (pop_buffer_done (update_frame_count k p))"
      define os1 where "os1 = os\<lparr>out_buf := out', total_copied := total_copied os + k,
                copied_log := copied_log os @ [x]\<rparr>"
      define m1 where "m1 = m\<lparr>batch_policy := (batch_policy m)\<lparr>total_buf_available :=
                                total_buf_available (batch_policy m) - 1\<rparr>\<rparr>"
      define m2 where "m2 = (if passed @ q = [] then m1\<lparr>num_queues_empty := num_queues_empty m1 + 1\<rparr>
                       else m1)"
      have x: "cp_entry x = e" "cp_pad_id x = pad_id p" by (simp_all add: x_def)
      have m2: "same_run m m2" "inputs m2 = inputs m"
        by (simp_all add: same_run_def m2_def m1_def)
      have eq: "copy_loop cb env n passed (e # q) c p m os =
         (if c + 1 = n
          then (passed @ q, c + 1, p1,
                m2\<lparr>batch_policy := update_push_stats (clock_at env (pad_id p1)) (pad_id p1) (c + 1)
                                          (batch_policy m2)\<rparr>, os1)
          else copy_loop cb env n passed q (c + 1) p1 m2 os1)"
        using 3 cb False
        by (simp add: Let_def x_def p1_def os1_def m1_def m2_def)
      show ?thesis
      proof (cases "c + 1 = n")
        case True
        define m3 where "m3 = m2\<lparr>batch_policy := update_push_stats (clock_at env (pad_id p1))
            (pad_id p1) (c + 1) (batch_policy m2)\<rparr>"
        have m3: "same_run m m3" "inputs m3 = inputs m"
          using m2 by (simp_all add: same_run_def update_push_stats_def m3_def)
        have "q' = passed @ q" "c' = c + 1" "p' = p1" "m' = m3" "os' = os1"
          using assms True unfolding eq m3_def by auto
        then show ?thesis
          using 3 x m3 True by (intro last [OF _ _ _ _ _ _ _ x p1_def m3]) (simp_all add: os1_def)
      next
        case False
        with assms eq 3 x m2 show ?thesis
          by (intro more [OF _ _ os1_def x p1_def m2]) auto
      qed
    qed
  qed
qed

lemma sint_less_ne: "sint (c :: u32) < sint n \<Longrightarrow> c \<noteq> n"
  by auto

lemma unat_Suc_le:
  fixes c n :: u32
  assumes "unat c \<le> unat n" "c \<noteq> n"
  shows "unat (c + 1) = Suc (unat c)" "Suc (unat c) \<le> unat n"
proof -
  have "unat c \<noteq> unat n" using assms(2) unsigned_word_eqI [of c n] by metis
  then show "Suc (unat c) \<le> unat n" using assms(1) by simp
  then have "Suc (unat c) < 2 ^ 32" using unat_u32_less [of n] by simp
  then show "unat (c + 1) = Suc (unat c)" by (simp add: unat_word_ariths)
qed

text \<open>
  The copy loop takes buffers from the front of the queue, in order, and leaves the events; the
  log grows by what it takes, at most \<open>n\<close> entries in all.
\<close>

lemma copy_loop_spec:
  "copy_loop cb env n passed q c p m os = (q', c', p', m', os') \<Longrightarrow>
   unat c \<le> unat n \<Longrightarrow> \<forall>e \<in> set passed. \<not> is_buffer e \<Longrightarrow>
   \<forall>e \<in> set q. is_event e \<or> is_buffer e \<Longrightarrow>
   (\<exists>L. copied_log os' = copied_log os @ L \<and> (\<forall>x \<in> set L. cp_pad_id x = pad_id p) \<and>
      map cp_entry L @ filter is_buffer q' = filter is_buffer q \<and>
      unat c' = unat c + length L) \<and>
   unat c' \<le> unat n \<and>
   filter is_event q' = filter is_event passed @ filter is_event q \<and>
   set q' \<subseteq> set passed \<union> set q \<and> length q' \<le> length passed + length q \<and>
   pad_id p' = pad_id p \<and> event_indices p' = event_indices p \<and>
   same_run m m' \<and> inputs m' = inputs m"
proof (induction q arbitrary: passed c p m os)
  case Nil
  then show ?case by (auto simp: same_run_def)
next
  case (Cons e q)
  have keep: "pad_id (snd (pop_buffer_done (update_frame_count k p))) = pad_id p"
    "event_indices (snd (pop_buffer_done (update_frame_count k p))) = event_indices p" for k
    by (simp_all add: pop_buffer_done_def update_frame_count_def Let_def)
  have nobuf: "filter is_buffer passed = []" using Cons.prems(3) by (simp add: filter_empty_conv)
  from Cons.prems(1) show ?case
  proof (cases rule: copy_loop_ConsE)
    case (stop out')
    then show ?thesis using Cons.prems(2,3) nobuf by (auto simp: same_run_def)
  next
    case event
    then have "is_event e" using Cons.prems(4) by auto
    then show ?thesis using Cons.IH [OF event(2)] Cons.prems(2-4) event(1) by auto
  next
    case (last p1 m1 x out' k)
    note c = unat_Suc_le [OF Cons.prems(2) sint_less_ne [OF last(2)]]
    show ?thesis
      using last c nobuf keep by (auto intro!: exI [of _ "[x]"])
  next
    case (more p1 m1 x out' k os1)
    note c = unat_Suc_le [OF Cons.prems(2) sint_less_ne [OF more(2)]]
    have "unat (c + 1) \<le> unat n" using c by simp
    note IH = Cons.IH [OF more(10) this Cons.prems(3)]
    obtain L where L: "copied_log os' = copied_log os1 @ L" "\<forall>y \<in> set L. cp_pad_id y = pad_id p1"
      "map cp_entry L @ filter is_buffer q' = filter is_buffer q" "unat c' = unat (c + 1) + length L"
      using IH Cons.prems(4) by auto
    have "\<exists>L. copied_log os' = copied_log os @ L \<and> (\<forall>x \<in> set L. cp_pad_id x = pad_id p) \<and>
      map cp_entry L @ filter is_buffer q' = filter is_buffer (e # q) \<and>
      unat c' = unat c + length L"
      using L more(1,3-6) c keep by (intro exI [of _ "x # L"]) auto
    then show ?thesis
      using IH Cons.prems(4) more(1,6-8) keep by (auto intro: same_run_trans)
  qed
qed

lemma same_run_wf: "same_run m m' \<Longrightarrow> inputs m' = inputs m \<Longrightarrow> mux_wf m' \<longleftrightarrow> mux_wf m"
  using same_run_policy_ok [of m m'] by (simp add: mux_wf_def same_run_def)

text \<open>The entries of a log that came from one source.\<close>

definition copied_for :: "u32 \<Rightarrow> copied list \<Rightarrow> QueueEntry list" where
  "copied_for sid L = map cp_entry (filter (\<lambda>x. cp_pad_id x = sid) L)"

lemma copied_for_simps [simp]:
  "copied_for sid [] = []" "copied_for sid (xs @ ys) = copied_for sid xs @ copied_for sid ys"
  by (simp_all add: copied_for_def)

lemma copied_for_all: "\<forall>x \<in> set L. cp_pad_id x = s \<Longrightarrow>
    copied_for sid L = (if sid = s then map cp_entry L else [])"
  by (auto simp: copied_for_def filter_empty_conv filter_id_conv)

lemma copy_pad_spec:
  assumes "copy_pad cb env n p m os = (p', m', os')" "pad_wf p"
  obtains L where "copied_log os' = copied_log os @ L" "\<forall>x \<in> set L. cp_pad_id x = pad_id p"
    "map cp_entry L @ filter is_buffer (queue p') = filter is_buffer (queue p)"
    "filter is_event (queue p') = filter is_event (queue p)" "length L \<le> unat n"
    "pad_wf p'" "pad_id p' = pad_id p" "same_run m m'" "inputs m' = inputs m"
proof -
  obtain q c p1 where l: "copy_loop cb env n [] (queue p) 0 p m os = (q, c, p1, m', os')"
    and p': "p' = adjust_event_indices c False (p1\<lparr>queue := q\<rparr>)"
    using assms(1) by (auto simp: copy_pad_def split: prod.splits)
  have entries: "\<forall>e \<in> set (queue p). is_event e \<or> is_buffer e"
    using assms(2) by (simp add: pad_wf_def)
  note spec = copy_loop_spec [OF l _ _ entries, simplified]
  have q: "queue p' = q" "pad_id p' = pad_id p" "length (event_indices p') = length (event_indices p)"
    using spec by (simp_all add: p' adjust_event_indices_def)
  have "pad_wf p'"
    using assms(2) spec q by (auto simp: pad_wf_def)
  with spec q show thesis by (auto intro: that)
qed

lemma copy_sources_spec:
  "copy_sources cb env xs m os = (m', os') \<Longrightarrow> pads_ok (inputs m) \<Longrightarrow>
   same_run m m' \<and> pads_ok (inputs m') \<and>
   (\<forall>sid. (pad_at sid m' = None \<longleftrightarrow> pad_at sid m = None) \<and> ev_q sid m' = ev_q sid m) \<and>
   (\<exists>L. copied_log os' = copied_log os @ L \<and>
      (\<forall>sid. copied_for sid L @ buf_q sid m' = buf_q sid m \<and>
         length (copied_for sid L) \<le> sum_list (map (\<lambda>x. unat (snd x)) (filter (\<lambda>x. fst x = sid) xs))))"
proof (induction xs arbitrary: m os)
  case Nil
  then show ?case by (simp add: same_run_def)
next
  case (Cons x xs)
  obtain s n where x: "x = (s, n)" by (cases x)
  show ?case
  proof (cases "pad_at s m")
    case None
    note gp = get_pad_unknown [OF None]
    obtain m1 where m1: "get_pad s m = (None, m1)" using gp(1) by (cases "get_pad s m") simp
    have run: "same_run m m1" using m1 by (auto simp: get_pad_def Let_def same_run_def)
    have "copy_sources cb env xs m1 os = (m', os')" using Cons.prems(1) m1 by (simp add: x)
    moreover have "pads_ok (inputs m1)" using gp(4) Cons.prems(2) m1 by simp
    ultimately have IH: "same_run m1 m' \<and> pads_ok (inputs m') \<and>
      (\<forall>sid. (pad_at sid m' = None \<longleftrightarrow> pad_at sid m1 = None) \<and> ev_q sid m' = ev_q sid m1) \<and>
      (\<exists>L. copied_log os' = copied_log os @ L \<and>
        (\<forall>sid. copied_for sid L @ buf_q sid m' = buf_q sid m1 \<and>
         length (copied_for sid L) \<le> sum_list (map (\<lambda>x. unat (snd x)) (filter (\<lambda>x. fst x = sid) xs))))"
      by (rule Cons.IH)
    have "pad_at sid m1 = pad_at sid m" for sid using gp(2) m1 by simp
    then have "buf_q sid m1 = buf_q sid m" "ev_q sid m1 = ev_q sid m" "pad_at sid m1 = pad_at sid m"
      for sid by (simp_all add: buf_q_def ev_q_def)
    with IH run show ?thesis by (auto simp: x intro: same_run_trans intro!: trans_le_add2)
  next
    case (Some p)
    then have wf: "pad_wf p" "pad_id p = s" using pads_okD [OF Cons.prems(2)] by auto
    obtain p' m2 os2 where cp: "copy_pad cb env n p m os = (p', m2, os2)" by (metis prod_cases3)
    obtain L1 where L1: "copied_log os2 = copied_log os @ L1" "\<forall>x \<in> set L1. cp_pad_id x = s"
      "map cp_entry L1 @ filter is_buffer (queue p') = filter is_buffer (queue p)"
      "filter is_event (queue p') = filter is_event (queue p)" "length L1 \<le> unat n"
      "pad_wf p'" "pad_id p' = s" "same_run m m2" "inputs m2 = inputs m"
      by (rule copy_pad_spec [OF cp wf(1)]) (auto simp: wf)
    let ?m = "set_pad s p' m2"
    have "copy_sources cb env xs ?m os2 = (m', os')"
      using Cons.prems(1) get_pad_present [OF Some] cp by (simp add: x)
    moreover have at: "pad_at sid m2 = pad_at sid m" for sid
      using L1(9) by (simp add: pad_at_def)
    have "pads_ok (inputs ?m)"
      using Cons.prems(2) L1(6,7,9) at unfolding pads_ok_pad_at pad_at_set_pad
      by (simp add: inputs_set_pad distinct_update)
    ultimately have IH: "same_run ?m m' \<and> pads_ok (inputs m') \<and>
      (\<forall>sid. (pad_at sid m' = None \<longleftrightarrow> pad_at sid ?m = None) \<and> ev_q sid m' = ev_q sid ?m) \<and>
      (\<exists>L. copied_log os' = copied_log os2 @ L \<and>
        (\<forall>sid. copied_for sid L @ buf_q sid m' = buf_q sid ?m \<and>
         length (copied_for sid L) \<le> sum_list (map (\<lambda>x. unat (snd x)) (filter (\<lambda>x. fst x = sid) xs))))"
      by (rule Cons.IH)
    then obtain L2 where L2: "copied_log os' = copied_log os2 @ L2"
      "\<And>sid. copied_for sid L2 @ buf_q sid m' = buf_q sid ?m"
      "\<And>sid. length (copied_for sid L2) \<le>
         sum_list (map (\<lambda>x. unat (snd x)) (filter (\<lambda>x. fst x = sid) xs))"
      by blast
    have q: "buf_q sid m2 = buf_q sid m" "ev_q sid m2 = ev_q sid m" for sid
      using at by (simp_all add: buf_q_def ev_q_def)
    have run: "same_run m m'"
      using L1(8) IH by (auto intro!: same_run_trans [of m m2 m'] simp: same_run_def set_pad_def)
    have log: "copied_log os' = copied_log os @ (L1 @ L2)" using L1(1) L2(1) by simp
    have "copied_for sid (L1 @ L2) @ buf_q sid m' = buf_q sid m \<and>
      length (copied_for sid (L1 @ L2)) \<le>
        sum_list (map (\<lambda>x. unat (snd x)) (filter (\<lambda>x. fst x = sid) ((s, n) # xs)))" for sid
      using L1(3,5) L2(2,3) [of sid] copied_for_all [OF L1(2), of sid] q [of sid]
      by (auto simp: buf_q_def Some)
    moreover have "(pad_at sid m' = None \<longleftrightarrow> pad_at sid m = None) \<and> ev_q sid m' = ev_q sid m" for sid
      using IH L1(4) q(2) [of sid] at [of sid] Some by (auto simp: ev_q_def)
    ultimately show ?thesis using run IH log unfolding x by blast
  qed
qed

lemma copy_batch_spec:
  assumes "copy_batch cb env m ob = Some (m', os)" "mux_wf m"
  shows "mux_wf m'" "same_run m m'" "ev_q sid m' = ev_q sid m"
    "copied_for sid (copied_log os) @ buf_q sid m' = buf_q sid m"
    "pad_at sid m' = None \<longleftrightarrow> pad_at sid m = None"
proof -
  obtain b where b: "mux_batch m = Some b"
    and cs: "copy_sources cb env (num_sources b) m
               \<lparr>out_buf = ob, total_copied = 0, copied_log = []\<rparr> = (m', os)"
    using assms(1) by (auto simp: copy_batch_def split: option.splits)
  have "pads_ok (inputs m)" using assms(2) by (simp add: mux_wf_def)
  note spec = copy_sources_spec [OF cs this, simplified]
  show "same_run m m'" "ev_q sid m' = ev_q sid m"
    "copied_for sid (copied_log os) @ buf_q sid m' = buf_q sid m"
    "pad_at sid m' = None \<longleftrightarrow> pad_at sid m = None"
    using spec by blast+
  then show "mux_wf m'"
    using assms(2) b spec same_run_policy_ok [of m m'] by (simp add: mux_wf_def same_run_def)
qed

section \<open>Forming the batch\<close>

text \<open>
  What forming a batch does to the pad of a source: with a synchronisation interface it drops buffers that the
  interface calls late, and no others.
\<close>

definition late_for :: "policy_env \<Rightarrow> bool \<Rightarrow> QueueEntry \<Rightarrow> bool" where
  "late_for env sync e \<longleftrightarrow> sync \<and> fst (synch_info env e) = BUFFER_TS_LATE"

lemma not_late_for [simp]: "late_for env False e = False"
  by (simp add: late_for_def)

definition thinned :: "(QueueEntry \<Rightarrow> bool) \<Rightarrow> SinkPad option option \<Rightarrow> SinkPad option option \<Rightarrow> bool" where
  "thinned late r r' \<longleftrightarrow>
     (case r of
        Some (Some p) \<Rightarrow>
          (\<exists>p'. r' = Some (Some p') \<and> (pad_wf p \<longrightarrow> pad_wf p') \<and> pad_id p' = pad_id p \<and>
             subseq (filter is_buffer (queue p')) (filter is_buffer (queue p)) \<and>
             filter is_event (queue p') = filter is_event (queue p) \<and>
             filter (\<lambda>e. \<not> late e) (filter is_buffer (queue p')) = filter (\<lambda>e. \<not> late e) (filter is_buffer (queue p)))
      | _ \<Rightarrow> r' = r)"

lemma thinned_refl [simp]: "thinned late r r"
  by (auto simp: thinned_def split: option.splits)

lemma thinned_trans: "thinned late a b \<Longrightarrow> thinned late b c \<Longrightarrow> thinned late a c"
  unfolding thinned_def by (auto split: option.splits intro: subseq_order.order_trans)

lemma synchronize_buffers_thinned:
  assumes "synchronize_buffers_in_pad env p n bp = (k, p', bp', late)"
  shows "thinned (late_for env True) (Some (Some p)) (Some (Some p'))"
proof -
  obtain m kept where loop:
    "synchronize_loop env n (min_early_buffer_dur bp) (queue p) = (k, m, kept, late)"
    and p': "p' = p\<lparr>queue := kept, buffer_count := buffer_count p - of_nat (length late)\<rparr>"
    using assms by (auto simp: synchronize_buffers_in_pad_def fold_pop_buffer_done
        split: prod.splits)
  note kept = synchronize_loop_kept [OF loop]
  have "subseq (filter is_buffer kept) (filter is_buffer (queue p))"
    using kept by (intro subseq_filter) simp
  with kept synchronize_loop_not_late [OF loop] synchronize_pad_wf(1) [OF assms] show ?thesis
    by (auto simp: thinned_def p' late_for_def)
qed

lemma take_from_pad_thinned:
  assumes "take_from_pad env sid pad n0 bp ins = (n, ins', bp')" "map_of ins sid = Some (Some pad)"
  shows "map fst ins' = map fst ins" "thinned (late_for env (synch_buffer bp)) (map_of ins s) (map_of ins' s)"
proof -
  have key: "sid \<in> fst ` set ins" using assms(2) by (metis domI dom_map_of_conv_image_fst)
  have "map fst ins' = map fst ins \<and> thinned (late_for env (synch_buffer bp)) (map_of ins s) (map_of ins' s)"
  proof (cases "synch_buffer bp")
    case True
    then obtain pad' late where "synchronize_buffers_in_pad env pad n0 bp = (n, pad', bp', late)"
      "ins' = AList.update sid (Some pad') ins"
      using assms(1) by (auto simp: take_from_pad_def split: prod.splits)
    with synchronize_buffers_thinned [OF this(1)] key True assms(2) show ?thesis
      by (auto simp: update_conv')
  qed (use assms in \<open>simp add: take_from_pad_def\<close>)
  then show "map fst ins' = map fst ins" "thinned (late_for env (synch_buffer bp)) (map_of ins s) (map_of ins' s)"
    by blast+
qed

lemma update_with_source_thinned:
  "map fst (snd (snd (update_with_source env sid st))) = map fst (snd (snd st)) \<and>
   thinned (late_for env (synch_buffer (fst (snd st)))) (map_of (snd (snd st)) s)
     (map_of (snd (snd (update_with_source env sid st))) s)"
proof (cases st)
  case (fields b bp ins)
  show ?thesis
  proof (cases rule: update_with_source_cases [of env sid b bp ins])
    case (added pad bp1 avail allowed n ins' bp2)
    have "synch_buffer bp1 = synch_buffer bp" by (simp add: added(2))
    with take_from_pad_thinned(1) [OF added(6,1)] take_from_pad_thinned(2) [OF added(6,1), of s] added(7) fields show ?thesis by simp
  qed (simp_all add: fields)
qed

lemma visit_thinned:
  "map fst (snd (snd (snd (visit env ss st)))) = map fst (snd (snd st)) \<and>
   thinned (late_for env (synch_buffer (fst (snd st)))) (map_of (snd (snd st)) s)
     (map_of (snd (snd (snd (visit env ss st)))) s)"
proof (induction ss arbitrary: st)
  case (Cons sid ss)
  let ?st' = "update_with_source env sid st"
  have "synch_buffer (fst (snd ?st')) = synch_buffer (fst (snd st))"
    using update_with_source_same [of st env sid] by (simp add: same_sources_def)
  then show ?case
    using update_with_source_thinned [of env sid st s] Cons.IH [of ?st']
    by (auto simp: Let_def intro: thinned_trans)
qed simp

lemma thinned_SomeD:
  "thinned late r (Some (Some p')) \<Longrightarrow>
   \<exists>p. r = Some (Some p) \<and> (pad_wf p \<longrightarrow> pad_wf p') \<and> pad_id p' = pad_id p"
  by (auto simp: thinned_def split: option.splits)

lemma thinned_q:
  assumes "thinned late (map_of (inputs m) sid) (map_of (inputs m') sid)"
  shows "ev_q sid m' = ev_q sid m" "subseq (buf_q sid m') (buf_q sid m)"
    "filter (\<lambda>e. \<not> late e) (buf_q sid m') = filter (\<lambda>e. \<not> late e) (buf_q sid m)" "pad_at sid m' = None \<longleftrightarrow> pad_at sid m = None"
proof -
  consider "map_of (inputs m) sid = None" | "map_of (inputs m) sid = Some None"
    | q where "map_of (inputs m) sid = Some (Some q)"
    by (cases "map_of (inputs m) sid") auto
  then have "ev_q sid m' = ev_q sid m \<and> subseq (buf_q sid m') (buf_q sid m) \<and>
    filter (\<lambda>e. \<not> late e) (buf_q sid m') = filter (\<lambda>e. \<not> late e) (buf_q sid m) \<and> (pad_at sid m' = None \<longleftrightarrow> pad_at sid m = None)"
    by cases (use assms in \<open>auto simp: thinned_def ev_q_def buf_q_def pad_at_def\<close>)
  then show "ev_q sid m' = ev_q sid m" "subseq (buf_q sid m') (buf_q sid m)"
    "filter (\<lambda>e. \<not> late e) (buf_q sid m') = filter (\<lambda>e. \<not> late e) (buf_q sid m)" "pad_at sid m' = None \<longleftrightarrow> pad_at sid m = None"
    by blast+
qed

lemma mux_form_batch_spec:
  assumes "mux_wf m" "priority_list (batch_policy m) \<noteq> []"
  obtains m' b where "mux_form_batch env m = Some m'" "mux_wf m'" "mux_batch m' = Some b"
    "batch_ok (inputs m) (batch_policy m) (b, batch_policy m', inputs m')"
    "batch_size b = mux_get_batch_size m"
    "synch_buffer (batch_policy m') = synch_buffer (batch_policy m)" "stop_task m' = stop_task m"
    "\<And>sid. ev_q sid m' = ev_q sid m" "\<And>sid. subseq (buf_q sid m') (buf_q sid m)"
    "\<And>sid. filter (\<lambda>e. \<not> late_for env (synch_buffer (batch_policy m)) e) (buf_q sid m') =
       filter (\<lambda>e. \<not> late_for env (synch_buffer (batch_policy m)) e) (buf_q sid m)"
    "\<And>sid. pad_at sid m' = None \<longleftrightarrow> pad_at sid m = None" "inputs m' = [] \<longleftrightarrow> inputs m = []"
proof -
  let ?bp = "batch_policy m" and ?ins = "inputs m" and ?n = "mux_get_batch_size m"
  let ?st = "(initial_batch (mux_batch m) ?n, ?bp, ?ins)"
  have wf: "policy_wf ?bp" "position_ok ?bp" "priority_list ?bp \<noteq> []" "pads_ok ?ins" "pads_wf ?ins"
    using assms by (auto simp: mux_wf_def policy_ok_def pads_ok_def)
  obtain st' where st': "form_batch env (mux_batch m) ?n ?bp ?ins = Some st'"
    "forget_position st' = forget_position (snd (visit env (service_order ?bp) ?st))"
    using form_batch_visit [OF wf(1-3)] by blast
  obtain b bp' ins' where [simp]: "st' = (b, bp', ins')" by (cases st')
  have safe: "batch_size b = ?n" "batch_ok ?ins ?bp (b, bp', ins')" "policy_wf bp'" "position_ok bp'"
    using form_batch_result [OF wf(1-3,5), of env "mux_batch m" ?n] st'(1) by auto
  note fin = visit_final [OF st'(2)] and vt = visit_thinned [of env "service_order ?bp" ?st]
  have ins': "ins' = snd (snd (snd (visit env (service_order ?bp) ?st)))"
    using forget_positionD(2) [OF st'(2)] by simp
  have keys: "map fst ins' = map fst ?ins" and thin: "thinned (late_for env (synch_buffer ?bp)) (map_of ?ins s) (map_of ins' s)" for s
    using vt by (simp_all add: ins')
  have sync: "synch_buffer bp' = synch_buffer ?bp"
    using arg_cong [OF st'(2), of "\<lambda>s. synch_buffer (fst (snd s))"] visit_same [of ?st env "service_order ?bp"]
    by (simp add: forget_position_def set_last_state_def same_sources_def split: prod.splits)
  let ?m' = "m\<lparr>mux_batch := Some b, batch_policy := bp', inputs := ins'\<rparr>"
  have ok: "pads_ok ins'"
    unfolding pads_ok_iff
  proof (intro conjI allI impI)
    show "distinct (map fst ins')" using wf(4) by (simp add: keys pads_ok_iff)
    fix sid p assume "map_of ins' sid = Some (Some p)"
    then obtain p0 where "map_of ?ins sid = Some (Some p0)" "pad_wf p0 \<longrightarrow> pad_wf p"
      "pad_id p = pad_id p0"
      using thin [of sid] thinned_SomeD by fastforce
    then show "pad_wf p" "pad_id p = sid" using wf(4) by (simp_all add: pads_ok_iff)
  qed
  have eq: "mux_form_batch env m = Some ?m'" using st'(1) by (simp add: mux_form_batch_def)
  have "policy_ok bp'" using assms(1) safe(3,4) fin by (simp add: mux_wf_def policy_ok_def)
  then have "mux_wf ?m'" using wf(3) fin ok by (simp add: mux_wf_def)
  moreover have "ev_q sid ?m' = ev_q sid m \<and> subseq (buf_q sid ?m') (buf_q sid m) \<and>
      filter (\<lambda>e. \<not> late_for env (synch_buffer ?bp) e) (buf_q sid ?m') =
        filter (\<lambda>e. \<not> late_for env (synch_buffer ?bp) e) (buf_q sid m) \<and>
      (pad_at sid ?m' = None \<longleftrightarrow> pad_at sid m = None)" for sid
  proof -
    have "thinned (late_for env (synch_buffer ?bp)) (map_of ?ins sid) (map_of (inputs ?m') sid)"
      using thin by simp
    from thinned_q [OF this] show ?thesis by blast
  qed
  moreover have "ins' = [] \<longleftrightarrow> ?ins = []" using keys by (metis map_is_Nil_conv)
  ultimately show thesis
    using eq safe sync by (intro that [of ?m' b]) simp_all
qed

section \<open>The plan is carried out\<close>

text \<open>When the output buffer takes everything, the copy loop takes \<open>n\<close> buffers if there are as many.\<close>

lemma sint_less_unat:
  fixes c n :: u32
  assumes "unat n < 2 ^ 31" "unat c \<le> unat n"
  shows "sint c < sint n \<longleftrightarrow> unat c < unat n"
proof -
  have "sint w = int (unat w)" if "unat w < 2 ^ 31" for w :: u32
  proof -
    have "unat w < 2147483648" using that by simp
    then have "uint w < 2147483648" by (simp only: uint_nat of_nat_less_numeral_iff)
    then have "0 \<le> uint w" "uint w < 2 ^ 31" by simp_all
    then have "signed_take_bit 31 (uint w) = uint w"
      by (intro signed_take_bit_int_eq_self) (simp_all add: order_trans [of _ 0])
    then show ?thesis by (simp add: sint_uint)
  qed
  then show ?thesis
    using assms by (simp add: word_less_def [symmetric] word_less_nat_alt [symmetric])
qed

lemma copy_loop_ConsE_full:
  assumes "copy_loop cb env n passed (e # q) c p m os = (q', c', p', m', os')"
    and "\<And>ob e k. fst (cb ob e k) \<noteq> 0" "sint c < sint n" "0 < n"
  obtains (event) "\<not> is_buffer e"
      "copy_loop cb env n (passed @ [e]) q c p m os = (q', c', p', m', os')"
  | (last) "is_buffer e" "c' = c + 1" "c + 1 = n"
  | (more) p1 m1 os1 where "is_buffer e" "c + 1 \<noteq> n"
      "copy_loop cb env n passed q (c + 1) p1 m1 os1 = (q', c', p', m', os')"
proof (cases "is_buffer e")
  case False
  with assms(1,3,4) show ?thesis by (intro event) simp_all
next
  case True
  obtain k out' where cb: "cb (out_buf os) e (total_copied os) = (k, out')" by fastforce
  then have "k \<noteq> 0" using assms(2) [of "out_buf os" e "total_copied os"] by simp
  show ?thesis
  proof (cases "c + 1 = n")
    case eq: True
    then have "c' = c + 1"
      using assms(1,3,4) True cb \<open>k \<noteq> 0\<close> by (auto simp: Let_def)
    from last [OF True this eq] show ?thesis .
  next
    case False
    then show ?thesis
      using assms(1,3,4) True cb \<open>k \<noteq> 0\<close> by (intro more [OF True False]) (auto simp: Let_def)
  qed
qed

lemma copy_loop_full:
  assumes "\<And>ob e k. fst (cb ob e k) \<noteq> 0" "unat n < 2 ^ 31"
  shows "copy_loop cb env n passed q c p m os = (q', c', p', m', os') \<Longrightarrow> unat c \<le> unat n \<Longrightarrow>
    unat c' = min (unat n) (unat c + length (filter is_buffer q))"
proof (induction q arbitrary: passed c p m os)
  case (Cons e q)
  show ?case
  proof (cases "unat c < unat n")
    case False
    then have "\<not> sint c < sint n" using sint_less_unat [OF assms(2) Cons.prems(2)] by simp
    with Cons.prems False show ?thesis by simp
  next
    case True
    then have s: "sint c < sint n" "0 < n"
      using sint_less_unat [OF assms(2) Cons.prems(2)] by (auto simp: word_less_nat_alt)
    note c = unat_Suc_le [OF Cons.prems(2) sint_less_ne [OF s(1)]]
    from Cons.prems(1) assms(1) s show ?thesis
    proof (cases rule: copy_loop_ConsE_full)
      case event
      then show ?thesis using Cons.IH [OF event(2) Cons.prems(2)] by simp
    next
      case last
      then show ?thesis using c by auto
    next
      case (more p1 m1 os1)
      then show ?thesis using Cons.IH [OF more(3)] c by simp
    qed
  qed
qed simp

lemma copy_pad_full:
  assumes "copy_pad cb env n p m os = (p', m', os')" "pad_wf p" "unat n < 2 ^ 31"
    and "\<And>ob e k. fst (cb ob e k) \<noteq> 0" "unat n \<le> length (filter is_buffer (queue p))"
  shows "\<exists>L. copied_log os' = copied_log os @ L \<and> (\<forall>x \<in> set L. cp_pad_id x = pad_id p) \<and>
    map cp_entry L = take (unat n) (filter is_buffer (queue p))"
proof -
  obtain q c p1 where l: "copy_loop cb env n [] (queue p) 0 p m os = (q, c, p1, m', os')"
    and p': "p' = adjust_event_indices c False (p1\<lparr>queue := q\<rparr>)"
    using assms(1) by (auto simp: copy_pad_def split: prod.splits)
  have entries: "\<forall>e \<in> set (queue p). is_event e \<or> is_buffer e"
    using assms(2) by (simp add: pad_wf_def)
  obtain L where L: "copied_log os' = copied_log os @ L" "\<forall>x \<in> set L. cp_pad_id x = pad_id p"
    "map cp_entry L @ filter is_buffer q = filter is_buffer (queue p)" "unat c = length L"
    using copy_loop_spec [OF l _ _ entries] by auto
  have "unat c = unat n"
    using copy_loop_full [OF assms(4,3) l] assms(5) by simp
  then have "map cp_entry L = take (unat n) (filter is_buffer (queue p))"
    using L(3,4) by (metis append_eq_conv_conj length_map)
  with L(1,2) show ?thesis by blast
qed

lemma copy_sources_full:
  assumes cb: "\<And>ob e k. fst (cb ob e k) \<noteq> 0"
  shows "copy_sources cb env xs m os = (m', os') \<Longrightarrow> pads_ok (inputs m) \<Longrightarrow> distinct (map fst xs) \<Longrightarrow>
    \<forall>(s, n) \<in> set xs. unat n < 2 ^ 31 \<and> pad_at s m \<noteq> None \<and> unat n \<le> length (buf_q s m) \<Longrightarrow>
    \<exists>L. copied_log os' = copied_log os @ L \<and>
      length L = sum_list (map (\<lambda>x. unat (snd x)) xs) \<and>
      (\<forall>(s, n) \<in> set xs. copied_for s L = take (unat n) (buf_q s m)) \<and>
      (\<forall>s. s \<notin> fst ` set xs \<longrightarrow> copied_for s L = [])"
proof (induction xs arbitrary: m os)
  case (Cons x xs)
  obtain s n where x: "x = (s, n)" by (cases x)
  obtain p where p: "pad_at s m = Some p" using Cons.prems(4) by (auto simp: x)
  then have wf: "pad_wf p" "pad_id p = s" using pads_okD [OF Cons.prems(2)] by auto
  have n: "unat n < 2 ^ 31" "unat n \<le> length (filter is_buffer (queue p))"
    using Cons.prems(4) p by (auto simp: x buf_q_def)
  obtain p' m2 os2 where cp: "copy_pad cb env n p m os = (p', m2, os2)" by (metis prod_cases3)
  obtain L1 where L1: "copied_log os2 = copied_log os @ L1" "\<forall>x \<in> set L1. cp_pad_id x = s"
    "map cp_entry L1 = take (unat n) (filter is_buffer (queue p))"
    using copy_pad_full [OF cp wf(1) n(1) cb n(2)] wf(2) by auto
  have p': "pad_wf p'" "pad_id p' = s" "inputs m2 = inputs m"
    by (rule copy_pad_spec [OF cp wf(1)], simp add: wf)+
  let ?m = "set_pad s p' m2"
  have at: "pad_at t m2 = pad_at t m" for t using p'(3) by (simp add: pad_at_def)
  then have q: "buf_q t m2 = buf_q t m" for t by (simp add: buf_q_def)
  have fresh: "s \<notin> fst ` set xs" using Cons.prems(3) by (simp add: x)
  have "copy_sources cb env xs ?m os2 = (m', os')"
    using Cons.prems(1) get_pad_present [OF p] cp by (simp add: x)
  moreover have "pads_ok (inputs ?m)"
    using Cons.prems(2) p' at unfolding pads_ok_pad_at pad_at_set_pad
    by (simp add: inputs_set_pad distinct_update)
  moreover have "distinct (map fst xs)" using Cons.prems(3) by simp
  moreover have "\<forall>(t, k) \<in> set xs. unat k < 2 ^ 31 \<and> pad_at t ?m \<noteq> None \<and> unat k \<le> length (buf_q t ?m)"
    using Cons.prems(4) fresh at q by (force simp: x)
  ultimately obtain L2 where L2: "copied_log os' = copied_log os2 @ L2"
    "length L2 = sum_list (map (\<lambda>x. unat (snd x)) xs)"
    "\<forall>(t, k) \<in> set xs. copied_for t L2 = take (unat k) (buf_q t ?m)"
    "\<forall>t. t \<notin> fst ` set xs \<longrightarrow> copied_for t L2 = []"
    using Cons.IH by blast
  have len: "length L1 = unat n" using arg_cong [OF L1(3), of length] n(2) by simp
  have "copied_for t (L1 @ L2) = take (unat k) (buf_q t m)" if "(t, k) \<in> set (x # xs)" for t k
  proof (cases "t = s")
    case True
    with that fresh have "k = n" by (force simp: x)
    with True L1(3) L2(4) fresh copied_for_all [OF L1(2)] p show ?thesis by (simp add: buf_q_def)
  next
    case False
    with that L2(3) have "copied_for t L2 = take (unat k) (buf_q t ?m)" by (auto simp: x)
    with False copied_for_all [OF L1(2), of t] q [of t] show ?thesis by simp
  qed
  moreover have "copied_for t (L1 @ L2) = []" if "t \<notin> fst ` set (x # xs)" for t
    using that L2(4) copied_for_all [OF L1(2), of t] by (simp add: x)
  moreover have "copied_log os' = copied_log os @ (L1 @ L2)" using L1(1) L2(1) by simp
  moreover have "length (L1 @ L2) = sum_list (map (\<lambda>x. unat (snd x)) (x # xs))"
    using len L2(2) by (simp add: x)
  ultimately show ?case by (intro exI [of _ "L1 @ L2"]) (auto simp del: append_assoc)
qed (simp add: copied_for_def)

section \<open>Properties of the muxer\<close>

text \<open>
  \<open>push_events\<close> pushes, for every pad, exactly the events ahead of the first buffer
  of its queue, in order; so no event overtakes a buffer of its pad. The buffers stay, and the
  invariant is kept.
\<close>

lemma mux_push_events_front:
  assumes "mux_wf m" "mux_push_events m = (evs, m')" "pad_at sid m = Some p"
  shows "events_of sid evs = takeWhile is_event (queue p) \<and>
    (\<exists>p'. pad_at sid m' = Some p' \<and> queue p' = dropWhile is_event (queue p)) \<and> mux_wf m'"
proof -
  have "flushed sid (Some (Some p)) (events_of sid evs) (map_of (inputs m') sid)"
    using mux_push_events_flushed(3) [OF assms(2,1), of sid] assms(3)
    by (simp add: pad_at_Some_iff)
  then show ?thesis
    using mux_push_events_spec(1) [OF assms(2,1)] by (auto simp: flushed_def pad_at_Some_iff)
qed

text \<open>
  Copying a batch is first in, first out: the buffers copied from a pad, followed by
  those still queued, are the buffers queued before; events are left in place. This holds whatever
  the output buffer accepts, and the invariant is kept.
\<close>

lemma copy_batch_fifo:
  assumes "mux_wf m" "copy_batch cb env m ob = Some (m', os)"
  shows "mux_wf m' \<and> ev_q sid m' = ev_q sid m \<and>
    copied_for sid (copied_log os) @ buf_q sid m' = buf_q sid m"
  using copy_batch_spec [OF assms(2,1)] by blast

text \<open>
  Property C15. A batch delivers what it planned: if the output buffer has room for every entry and
  no other thread comes in between, forming a batch and copying it takes from every source of the
  batch exactly the planned number of buffers, the oldest ones, and nothing else.
\<close>

theorem form_and_copy:
  assumes "mux_wf m" "priority_list (batch_policy m) \<noteq> []" "unat (mux_get_batch_size m) < 2 ^ 31"
    and "\<And>ob e k. fst (cb ob e k) \<noteq> 0"
  shows "\<exists>m1 b m2 os. mux_form_batch env m = Some m1 \<and> mux_batch m1 = Some b \<and>
    copy_batch cb env' m1 ob = Some (m2, os) \<and>
    length (copied_log os) = unat (acc_batch b) \<and>
    (\<forall>(s, n) \<in> set (num_sources b). copied_for s (copied_log os) = take (unat n) (buf_q s m1)) \<and>
    (\<forall>s. s \<notin> fst ` set (num_sources b) \<longrightarrow> copied_for s (copied_log os) = [])"
proof -
  obtain m1 b where f: "mux_form_batch env m = Some m1" "mux_wf m1" "mux_batch m1 = Some b"
    "batch_ok (inputs m) (batch_policy m) (b, batch_policy m1, inputs m1)"
    "batch_size b = mux_get_batch_size m"
    using mux_form_batch_spec [OF assms(1,2), of env] by metis
  obtain m2 os where cp: "copy_sources cb env' (num_sources b) m1
      \<lparr>out_buf = ob, total_copied = 0, copied_log = []\<rparr> = (m2, os)"
    by fastforce
  have sum: "unat (acc_batch b) = sum_list (map (\<lambda>p. unat (snd p)) (num_sources b))"
    using f(4) by (simp add: batch_ok_def)
  have "unat n < 2 ^ 31 \<and> pad_at s m1 \<noteq> None \<and> unat n \<le> length (buf_q s m1)"
    if mem: "(s, n) \<in> set (num_sources b)" for s n
  proof -
    obtain q where q: "map_of (inputs m1) s = Some (Some q)" "unat n \<le> buffered (inputs m1) s"
      using f(4) mem by (fastforce simp: batch_ok_def)
    have "unat n \<le> unat (acc_batch b)"
      unfolding sum using sum_list_map_fst_Cons_ge [OF mem, of "\<lambda>p. unat (snd p)"] by simp
    also have "\<dots> \<le> unat (batch_size b)" using f(4) by (simp add: batch_ok_def word_le_nat_alt)
    finally have "unat n < 2 ^ 31" using assms(3) f(5) by simp
    with q show ?thesis by (simp add: pad_at_def buffered_def buf_q_def)
  qed
  moreover have "pads_ok (inputs m1)" "distinct (map fst (num_sources b))"
    using f(2,4) by (simp_all add: mux_wf_def batch_ok_def)
  ultimately obtain L where L: "copied_log os = L"
    "length L = sum_list (map (\<lambda>x. unat (snd x)) (num_sources b))"
    "\<forall>(s, n) \<in> set (num_sources b). copied_for s L = take (unat n) (buf_q s m1)"
    "\<forall>s. s \<notin> fst ` set (num_sources b) \<longrightarrow> copied_for s L = []"
    using copy_sources_full [OF assms(4) cp] by auto
  have "copy_batch cb env' m1 ob = Some (m2, os)" using cp f(3) by (simp add: copy_batch_def)
  with f(1,3) L sum show ?thesis by auto
qed

text \<open>The batch size of the adaptive mode, computed at 32 bits.\<close>

lemma get_batch_size_adaptive:
  assumes "adaptive_batching (config bp)"
  shows "get_batch_size ins bp =
    (of_nat (length ins) - num_sources_eos bp) * bp_num_surfaces_per_frame bp"
proof -
  have "(ucast (((of_nat n :: u64) - ucast e) * ucast k) :: u32) = (of_nat n - e) * k"
    for n and e k :: u32
    by (simp add: ucast_times_u32 ucast_minus_u32 ucast_of_nat_u32 ucast_ucast_u32)
  then show ?thesis using assms by (simp add: get_batch_size_def)
qed

text \<open>
  Removing a pad that never saw its end of stream and has an empty queue: in adaptive
  mode the batch size does not shrink although a pad is gone, because the counter of ended sources
  is decremented too, past zero if it was zero. The counter of pads that are ended and drained is
  put back; only the policy's counter is not.
\<close>

lemma remove_pad_keeps_batch_size:
  assumes "mux_wf m" "pad_at s m = Some p" "queue p = []" "\<not> eos p"
    and "adaptive_batching (config (batch_policy m))"
  shows "\<exists>m'. remove_pad s m = Some m' \<and> pad_at s m' = None \<and>
    length (inputs m) = Suc (length (inputs m')) \<and>
    mux_get_batch_size m' = mux_get_batch_size m \<and>
    pads_got_eos_and_empty_in_q m' = pads_got_eos_and_empty_in_q m \<and>
    get_eos_sources (batch_policy m') = get_eos_sources (batch_policy m) - 1"
proof -
  define m1 where "m1 = m\<lparr>num_queues_empty := num_queues_empty m - 1,
    pads_got_eos_and_empty_in_q := pads_got_eos_and_empty_in_q m - 1,
    batch_policy := update_eos_sources (get_eos_sources (batch_policy m) - 1) (batch_policy m)\<rparr>"
  have at: "map_of (inputs m) s = Some (Some p)" using assms(2) by (simp add: pad_at_Some_iff)
  then have b: "remove_pad_begin s m = Some m1"
    using assms(3) by (simp add: remove_pad_begin_def m1_def)
  let ?ins = "if state m = SOURCE_STATE_IDLE
              then AList.update s (Some (p\<lparr>switched_to_idle := True\<rparr>)) (inputs m) else inputs m"
  have "map_of (inputs m1) s = Some (Some p)" using at by (simp add: m1_def)
  then obtain m' where m': "remove_pad_end s m1 = Some m'" "inputs m' = AList.delete s ?ins"
    "batch_policy m' = batch_policy m1"
    "pads_got_eos_and_empty_in_q m' = pads_got_eos_and_empty_in_q m1 + 1"
    using assms(4) by (auto simp: remove_pad_end_def Let_def set_pad_def m1_def)
  have key: "s \<in> fst ` set (inputs m)" by (rule pad_at_present [OF assms(2)])
  then have "map fst ?ins = map fst (inputs m)" by simp
  then have "distinct (map fst ?ins)" "s \<in> fst ` set ?ins" "length ?ins = length (inputs m)"
    using assms(1) key by (metis mux_wf_def pads_ok_def pads_wf_def, metis list.set_map,
      metis length_map)
  moreover have "length (AList.delete k xs) + 1 = length xs"
    if "distinct (map fst xs)" "k \<in> fst ` set xs" for k :: u32 and xs :: pads
    using that
  proof (induction xs)
    case (Cons x xs)
    have none: "AList.delete k ys = ys" if "k \<notin> fst ` set ys" for ys :: pads
      using that by (auto simp: AList.delete_eq filter_id_conv case_prod_beta image_iff)
    from Cons show ?case by (cases "fst x = k") (auto simp: AList.delete_eq none [unfolded AList.delete_eq])
  qed simp
  ultimately have len: "length (inputs m) = Suc (length (inputs m'))" using m'(2) by fastforce
  have "mux_get_batch_size m' = mux_get_batch_size m"
    using assms(5) m'(3) len
    by (simp add: mux_get_batch_size_def get_batch_size_adaptive m1_def update_eos_sources_def
        get_eos_sources_def algebra_simps)
  moreover have "pad_at s m' = None" using m'(2) by (simp add: pad_at_def delete_conv')
  ultimately show ?thesis
    using b m' len by (simp add: remove_pad_def m1_def get_eos_sources_def update_eos_sources_def)
qed

text \<open>
  Stopping the muxer empties the queue of a pad but not its count of buffers: a pad
  whose producer had to wait makes it wait again after the stop, on an empty queue, and no buffer
  is left whose removal could wake it.
\<close>

lemma stop_leaves_pad_full:
  assumes "pad_at s m = Some p" "wait_if_queue_full p"
  shows "\<exists>p'. pad_at s (handle_stop m) = Some p' \<and> queue p' = [] \<and> wait_if_queue_full p'"
proof -
  have "pad_at s (handle_stop m) = Some (if frame_num_reset_on_eos m then reset_frame_count (reset p)
      else reset p)"
    using assms(1) by (simp add: pad_at_Some_iff handle_stop_def map_of_map)
  then show ?thesis
    using assms(2) by (auto simp: wait_if_queue_full_def reset_def reset_frame_count_def)
qed

end
