(* ===== verification/MuxLoop.thy ===== *)
theory MuxLoop
  imports MuxCoreProps
begin

text \<open>
  The muxer at work: \<open>push_loop\<close> runs in one thread while other threads add and remove pads, queue
  buffers and events, and change settings. \<open>mux_step\<close> is the interleaving of the loop with those
  calls. Ghost fields record what was queued for every source and what left it. The invariants hold
  in every reachable state, whatever the clocks, the output buffer and the synchronisation
  interface return.
\<close>

section \<open>Calls from other threads\<close>

datatype mux_call =
  Add_pad u32
| Remove_pad_begin u32
| Remove_pad_end u32
| Add_buffer_begin u32
| Add_buffer_commit dbl u32 QueueEntry
| Handle_eos u32 QueueEntry
| Handle_eos_cascaded u32 QueueEntry
| Handle_segment u32 QueueEntry
| Handle_stream_reset u32 QueueEntry
| Handle_flush_stop u32
| Handle_stop
| Reset_stop
| Reset_pad u32
| Set_batch_size u32
| Set_num_surfaces u32
| Set_frame_duration u64
| Push_events

text \<open>
  The result of a call: events pushed meanwhile, entries queued for sources, the new state. \<open>Push_events\<close> is also
  what \<open>handle_eos\<close> does after it gave up the lock; other threads can come in between.
\<close>

definition quiet :: "NvStreamMux \<Rightarrow> (mux_output \<times> (u32 \<times> QueueEntry) list \<times> NvStreamMux)" where
  "quiet m = (silent, [], m)"

fun call ::
  "mux_call \<Rightarrow> NvStreamMux \<Rightarrow> (mux_output \<times> (u32 \<times> QueueEntry) list \<times> NvStreamMux) option"
where
  "call (Add_pad s) m = Some (quiet (add_pad s (new_SinkPad s) m))"
| "call (Remove_pad_begin s) m = map_option quiet (remove_pad_begin s m)"
| "call (Remove_pad_end s) m = map_option quiet (remove_pad_end s m)"
| "call (Add_buffer_begin s) m = map_option (\<lambda>(_, m'). quiet m') (add_buffer_begin s m)"
| "call (Add_buffer_commit now s e) m =
     map_option (\<lambda>m'. (silent, [(s, e)], m')) (add_buffer_commit now s e m)"
| "call (Handle_eos s e) m =
     (let (ok, push, m') = handle_eos s e m in Some (silent, if ok then [(s, e)] else [], m'))"
| "call (Handle_eos_cascaded s e) m =
     map_option (\<lambda>(_, m'). (silent, [(s, e)], m')) (handle_eos_cascaded s e m)"
| "call (Handle_segment s e) m =
     (let (ok, m') = handle_segment s e m in Some (silent, if ok then [(s, e)] else [], m'))"
| "call (Handle_stream_reset s e) m =
     (let (ok, m') = handle_stream_reset s e m in Some (silent, if ok then [(s, e)] else [], m'))"
| "call (Handle_flush_stop s) m = Some (quiet (snd (handle_flush_stop s m)))"
| "call Handle_stop m = Some (quiet (handle_stop m))"
| "call Reset_stop m = Some (quiet (reset_stop m))"
| "call (Reset_pad s) m = map_option quiet (reset_pad s m)"
| "call (Set_batch_size n) m = Some (quiet (set_batch_size n m))"
| "call (Set_num_surfaces n) m = Some (quiet (set_num_surfaces_per_frame n m))"
| "call (Set_frame_duration d) m = Some (quiet (set_frame_duration d m))"
| "call Push_events m =
     (let (evs, m') = mux_push_events m in Some (silent\<lparr>o_events := evs\<rparr>, [], m'))"

text \<open>
  What the callers guarantee: a pad is added under a fresh id, the other calls name a pad that
  exists, buffers and events are of their type, and a queue stays shorter than \<open>2 ^ 32\<close>.
\<close>

definition room :: "u32 \<Rightarrow> NvStreamMux \<Rightarrow> bool" where
  "room s m \<longleftrightarrow>
     (case pad_at s m of None \<Rightarrow> False | Some p \<Rightarrow> int (length (queue p)) + 1 < 2 ^ 32)"

lemma roomE:
  assumes "room s m"
  obtains p where "pad_at s m = Some p" "length (queue p) + 1 < 2 ^ 32"
  using assms by (auto simp: room_def split: option.splits)

fun allowed :: "mux_call \<Rightarrow> NvStreamMux \<Rightarrow> bool" where
  "allowed (Add_pad s) m = (pad_at s m = None)"
| "allowed (Remove_pad_begin s) m = (pad_at s m \<noteq> None)"
| "allowed (Remove_pad_end s) m = (pad_at s m \<noteq> None)"
| "allowed (Add_buffer_begin s) m = (pad_at s m \<noteq> None)"
| "allowed (Add_buffer_commit now s e) m = (is_buffer e \<and> room s m)"
| "allowed (Handle_eos s e) m = (is_event e \<and> room s m)"
| "allowed (Handle_eos_cascaded s e) m = (is_event e \<and> room s m)"
| "allowed (Handle_segment s e) m = (is_event e \<and> room s m)"
| "allowed (Handle_stream_reset s e) m = (is_event e \<and> room s m)"
| "allowed (Handle_flush_stop s) m = (pad_at s m \<noteq> None)"
| "allowed (Reset_pad s) m = (pad_at s m \<noteq> None)"
| "allowed _ m = True"

text \<open>The sources that may lose entries from their queue, other than into a batch.\<close>

fun loses :: "mux_call \<Rightarrow> u32 \<Rightarrow> bool" where
  "loses (Remove_pad_end s) = (\<lambda>sid. sid = s)"
| "loses Handle_stop = (\<lambda>_. True)"
| "loses _ = (\<lambda>_. False)"

section \<open>The system\<close>

record mux_system =
  mux :: NvStreamMux
  pc :: loop_pc
  fed :: "u32 \<Rightarrow> QueueEntry list"
  sent :: "u32 \<Rightarrow> QueueEntry list"
  sent_events :: "u32 \<Rightarrow> QueueEntry list"
  lossy :: "u32 \<Rightarrow> bool"
  judged :: "u32 \<Rightarrow> QueueEntry \<Rightarrow> bool"

definition observe ::
  "mux_output \<Rightarrow> (u32 \<times> QueueEntry) list \<Rightarrow> (u32 \<Rightarrow> bool) \<Rightarrow> loop_pc \<Rightarrow> NvStreamMux \<Rightarrow>
   mux_system \<Rightarrow> mux_system" where
  "observe out new lost pc' m' s =
     s\<lparr>mux := m', pc := pc',
       fed := (\<lambda>sid. fed s sid @ events_of sid new),
       sent := (\<lambda>sid. sent s sid @ copied_for sid (o_copied out)),
       sent_events := (\<lambda>sid. sent_events s sid @ events_of sid (o_events out)),
       lossy := (\<lambda>sid. lossy s sid \<or> lost sid)\<rparr>"

text \<open>
  The buffers of a source that the synchronisation interface calls late when a batch is formed; \<open>judged\<close> are all of
  them so far.
\<close>

definition now_late :: "'o loop_input \<Rightarrow> loop_pc \<Rightarrow> NvStreamMux \<Rightarrow> u32 \<Rightarrow> QueueEntry \<Rightarrow> bool" where
  "now_late i k m sid e \<longleftrightarrow> k \<in> {Forming, Head True} \<and> e \<in> set (buf_q sid m) \<and>
     late_for (in_env i) (synch_buffer (batch_policy m)) e"

definition observe_loop ::
  "'o loop_input \<Rightarrow> mux_output \<Rightarrow> loop_pc \<Rightarrow> NvStreamMux \<Rightarrow> mux_system \<Rightarrow> mux_system" where
  "observe_loop i out pc' m' s =
     (observe out [] (\<lambda>_. False) pc' m' s)\<lparr>judged := (\<lambda>sid e. judged s sid e \<or> now_late i (pc s) (mux s) sid e)\<rparr>"

inductive mux_step :: "'o copy_fun \<Rightarrow> mux_system \<Rightarrow> mux_system \<Rightarrow> bool" for cb where
  loop: "loop_step cb i (pc s) (mux s) = Some (out, pc', m') \<Longrightarrow>
     (pc s = Copying \<Longrightarrow> in_out i \<noteq> None) \<Longrightarrow>
     mux_step cb s (observe_loop i out pc' m' s)"
| call: "allowed c (mux s) \<Longrightarrow> call c (mux s) = Some (out, new, m') \<Longrightarrow>
     mux_step cb s (observe out new (loses c) (pc s) m' s)"

text \<open>
  Start: a new muxer with a policy. The sources are a map, so each is configured once. The code also accepts
  configurations none of whose sources has the default priority; with those the saved position of
  round robin can become invalid when a source of another one arrives, so the theorems below ask
  for \<open>config_ok\<close>: no source is configured, or one has the default priority.
\<close>

definition config_ok :: "BatchPolicyConfig \<Rightarrow> bool" where
  "config_ok cfg \<longleftrightarrow>
     distinct (map fst (source_props cfg)) \<and>
     (source_props cfg = [] \<or>
      (\<exists>p \<in> set (source_props cfg). priority (snd p) = NVSTREAMMUX_DEFAULT_SOURCE_GROUP_PRIORITY))"

definition start :: "BatchPolicyConfig \<Rightarrow> dbl \<Rightarrow> NvStreamMux \<Rightarrow> bool \<Rightarrow> mux_system" where
  "start cfg now mem sync =
     \<lparr>mux = set_policy cfg now (mux_set_synch_buffer_iface sync (new_NvStreamMux mem)),
      pc = Outside, fed = (\<lambda>_. []), sent = (\<lambda>_. []), sent_events = (\<lambda>_. []), lossy = (\<lambda>_. False), judged = (\<lambda>_ _. False)\<rparr>"

inductive reachable :: "'o copy_fun \<Rightarrow> BatchPolicyConfig \<Rightarrow> mux_system \<Rightarrow> bool" for cb cfg where
  init: "reachable cb cfg (start cfg now mem sync)"
| step: "reachable cb cfg s \<Longrightarrow> mux_step cb s s' \<Longrightarrow> reachable cb cfg s'"

section \<open>The invariant\<close>

definition holds_batch :: "loop_pc \<Rightarrow> bool" where
  "holds_batch k = (k \<in> {Waiting, Checking, Formed, Copying, Throttling, Pushing, Resetting})"

definition history_ok :: "mux_system \<Rightarrow> bool" where
  "history_ok s \<longleftrightarrow>
     (\<forall>sid. subseq (sent s sid @ buf_q sid (mux s)) (filter is_buffer (fed s sid)) \<and>
            subseq (sent_events s sid @ ev_q sid (mux s)) (filter is_event (fed s sid)) \<and>
            (\<not> lossy s sid \<longrightarrow>
               filter (\<lambda>e. \<not> judged s sid e) (sent s sid @ buf_q sid (mux s)) =
                 filter (\<lambda>e. \<not> judged s sid e) (filter is_buffer (fed s sid)) \<and>
               sent_events s sid @ ev_q sid (mux s) = filter is_event (fed s sid)))"

definition system_ok :: "mux_system \<Rightarrow> bool" where
  "system_ok s \<longleftrightarrow>
     mux_wf (mux s) \<and> history_ok s \<and> (holds_batch (pc s) \<longrightarrow> mux_batch (mux s) \<noteq> None) \<and>
     (pc s = Forming \<longrightarrow> priority_list (batch_policy (mux s)) \<noteq> [])"

section \<open>Every call keeps the invariant\<close>

definition good_call ::
  "mux_output \<Rightarrow> (u32 \<times> QueueEntry) list \<Rightarrow> (u32 \<Rightarrow> bool) \<Rightarrow> NvStreamMux \<Rightarrow> NvStreamMux \<Rightarrow> bool" where
  "good_call out new lost m m' \<longleftrightarrow>
     mux_wf m' \<and> mux_batch m' = mux_batch m \<and> o_copied out = [] \<and>
     (priority_list (batch_policy m) \<noteq> [] \<longrightarrow> priority_list (batch_policy m') \<noteq> []) \<and>
     (\<forall>sid. if lost sid then
        buf_q sid m' = [] \<and> ev_q sid m' = [] \<and> events_of sid new = [] \<and>
        events_of sid (o_events out) = []
      else
        buf_q sid m' = buf_q sid m @ filter is_buffer (events_of sid new) \<and>
        events_of sid (o_events out) @ ev_q sid m' = ev_q sid m @ filter is_event (events_of sid new))"

lemma silent_simps [simp]:
  "o_events silent = []" "o_copied silent = []" "o_pushed silent = []"
  by (simp_all add: silent_def)

lemma buf_ev_at: "pad_at s m = Some p \<Longrightarrow>
    buf_q s m = filter is_buffer (queue p) \<and> ev_q s m = filter is_event (queue p)"
  by (simp add: buf_q_def ev_q_def)

text \<open>Most calls write one pad back, with entries appended to its queue or not.\<close>

lemma good_set_pad:
  assumes "mux_wf m" "pad_at s m = Some p" "pad_wf p'" "pad_id p' = s" "queue p' = queue p @ es"
    and "same_run m m1" "inputs m1 = inputs m"
  shows "good_call silent (map (Pair s) es) (\<lambda>_. False) m (set_pad s p' m1)"
proof -
  have wf: "mux_wf m1" using same_run_wf [OF assms(6,7)] assms(1) by simp
  have at: "pad_at sid m1 = pad_at sid m" for sid by (simp add: pad_at_def assms(7))
  then have q: "buf_q sid m1 = buf_q sid m" "ev_q sid m1 = ev_q sid m" for sid
    by (simp_all add: buf_q_def ev_q_def)
  have "mux_wf (set_pad s p' m1)"
    using mux_wf_set_pad [OF wf _ assms(3,4)] at assms(2) by simp
  then show ?thesis
    using assms(2,5,6) q buf_ev_at [OF assms(2)]
    by (auto simp: good_call_def same_run_def set_pad_def [of s p' m1] buf_q_def ev_q_def pad_at_def
        update_conv' split: option.splits)
qed

lemma good_same:
  assumes "mux_wf m" "same_run m (m'\<lparr>stop_task := stop_task m\<rparr>)" "inputs m' = inputs m"
  shows "good_call silent [] (\<lambda>_. False) m m'"
proof -
  have at: "pad_at sid m' = pad_at sid m" for sid by (simp add: pad_at_def assms(3))
  have "mux_wf (m'\<lparr>stop_task := stop_task m\<rparr>)"
    using same_run_wf [OF assms(2)] assms(1,3) by simp
  then have "mux_wf m'" by (simp add: mux_wf_def)
  then show ?thesis
    using assms(2) at by (simp add: good_call_def same_run_def buf_q_def ev_q_def)
qed

lemma good_set_pad_quiet:
  assumes "mux_wf m" "pad_at s m = Some p" "pad_wf p'" "pad_id p' = s" "queue p' = queue p"
    and "same_run m m1" "inputs m1 = inputs m"
  shows "good_call silent [] (\<lambda>_. False) m (set_pad s p' m1)"
  using good_set_pad [OF assms(1-4) _ assms(6,7), of "[]"] assms(5) by simp

lemma pad_wf_cong: "pad_wf p' \<longleftrightarrow> pad_wf p"
  if "queue p' = queue p" "event_indices p' = event_indices p"
  using that by (simp add: pad_wf_def)

lemma same_run_refl [simp]: "same_run m m"
  by (simp add: same_run_def)

lemma pad_id_queue_entry [simp]: "pad_id (queue_entry e p) = pad_id p"
  by (simp add: queue_entry_def push_buffer_done_def Let_def)

lemma policy_ok_check_and_update:
  assumes "policy_ok bp"
  shows "policy_ok (check_and_update_defaults sid bp)"
    "priority_list (check_and_update_defaults sid bp) \<noteq> []"
proof -
  let ?k = NVSTREAMMUX_DEFAULT_SOURCE_GROUP_PRIORITY
  have wf: "policy_wf bp" "position_ok bp" using assms by (simp_all add: policy_ok_def)
  have "policy_ok (check_and_update_defaults sid bp) \<and>
      priority_list (check_and_update_defaults sid bp) \<noteq> []"
  proof (cases "source_known sid bp")
    case True
    then have "priority_list bp \<noteq> []" using wf(1) by (auto simp: source_known_def policy_wf_def)
    with True assms show ?thesis by (simp add: check_and_update_defaults_def)
  next
    case False
    let ?bp = "check_and_update_defaults sid bp" and ?bp1 = "add_default_source sid bp"
    have same: "sources ?bp = sources ?bp1" "priority_list ?bp = priority_list ?bp1"
      "last_batch_state ?bp = last_batch_state ?bp1"
      using False by (simp_all add: check_and_update_defaults_def Let_def split: option.split)
    have "sorted_wrt (<) (priority_list bp)" using wf(1) by (simp add: policy_wf_def)
    then have k: "?k \<in> set (priority_list ?bp1)"
      by (simp add: add_default_source_def sorted_insert_wf)
    have "policy_wf ?bp1" by (rule policy_wf_add_default [OF wf(1) False])
    moreover have "position_ok ?bp1"
      using assms by (intro position_ok_add_default [OF wf False]) (simp add: policy_ok_def)
    ultimately have "policy_ok ?bp1" using k by (simp add: policy_ok_def)
    then have "policy_ok ?bp" using policy_ok_cong [OF same] by simp
    with k same(2) show ?thesis by auto
  qed
  then show "policy_ok (check_and_update_defaults sid bp)"
    "priority_list (check_and_update_defaults sid bp) \<noteq> []" by simp_all
qed

lemma good_add_pad:
  assumes "mux_wf m" "pad_at s m = None"
  shows "good_call silent [] (\<lambda>_. False) m (add_pad s (new_SinkPad s) m)"
proof -
  let ?p = "(new_SinkPad s)\<lparr>switched_to_idle := True\<rparr>" and ?m' = "add_pad s (new_SinkPad s) m"
  have p: "pad_wf ?p" "pad_id ?p = s" "queue ?p = []"
    by (simp_all add: pad_wf_def new_SinkPad_def)
  have at: "pad_at sid ?m' = (if sid = s then Some ?p else pad_at sid m)" for sid
    by (simp add: add_pad_def Let_def) (simp add: set_pad_def pad_at_def update_conv')
  have "distinct (map fst (inputs ?m'))"
    using assms(1) by (simp add: add_pad_def Let_def set_pad_def mux_wf_def pads_ok_def pads_wf_def
        distinct_update)
  then have "pads_ok (inputs ?m')"
    using assms(1) p unfolding mux_wf_def pads_ok_pad_at at by auto
  moreover have "batch_policy ?m' = check_and_update_defaults s (batch_policy m)"
    by (simp add: add_pad_def Let_def set_pad_def)
  moreover have "mux_batch ?m' = mux_batch m" by (simp add: add_pad_def Let_def set_pad_def)
  ultimately show ?thesis
    using assms policy_ok_check_and_update [of "batch_policy m" s] p
    by (auto simp: good_call_def mux_wf_def buf_q_def ev_q_def at)
qed

lemma good_remove_begin:
  assumes "mux_wf m" "pad_at s m \<noteq> None"
  shows "\<exists>m'. remove_pad_begin s m = Some m' \<and> good_call silent [] (\<lambda>_. False) m m'"
proof -
  obtain p where p: "map_of (inputs m) s = Some (Some p)"
    using assms(2) by (auto simp: pad_at_Some_iff)
  obtain m' where "remove_pad_begin s m = Some m'" "same_run m m'" "inputs m' = inputs m"
    by (cases "queue p = []") (simp_all add: remove_pad_begin_def p same_run_def update_eos_sources_def)
  then show ?thesis
    using good_same [OF assms(1), of m'] by (simp add: same_run_def)
qed

lemma good_remove_end:
  assumes "mux_wf m" "pad_at s m \<noteq> None"
  shows "\<exists>m'. remove_pad_end s m = Some m' \<and> good_call silent [] (\<lambda>sid. sid = s) m m'"
proof -
  obtain p where p: "map_of (inputs m) s = Some (Some p)"
    using assms(2) by (auto simp: pad_at_Some_iff)
  let ?ins = "if state m = SOURCE_STATE_IDLE
              then AList.update s (Some (p\<lparr>switched_to_idle := True\<rparr>)) (inputs m) else inputs m"
  obtain m' where m': "remove_pad_end s m = Some m'" "same_run m m'"
    "inputs m' = AList.delete s ?ins"
    by (auto simp: remove_pad_end_def p Let_def same_run_def set_pad_def)
  have at: "pad_at sid m' = (if sid = s then None else pad_at sid m)" for sid
    by (simp add: pad_at_def m'(3) delete_conv' update_conv')
  have "distinct (map fst (inputs m))"
    using assms(1) by (simp add: mux_wf_def pads_ok_def pads_wf_def)
  then have "distinct (map fst (inputs m'))"
    unfolding m'(3) by (simp add: distinct_delete distinct_update)
  then have "pads_ok (inputs m')"
    using assms(1) unfolding mux_wf_def pads_ok_pad_at at by auto
  moreover have "inputs m \<noteq> []" using p by auto
  ultimately have "good_call silent [] (\<lambda>sid. sid = s) m m'"
    using assms(1) m'(2) same_run_policy_ok [OF m'(2)]
    by (simp add: good_call_def mux_wf_def same_run_def buf_q_def ev_q_def at)
  with m'(1) show ?thesis by blast
qed

lemma good_add_buffer_begin:
  assumes "mux_wf m" "pad_at s m \<noteq> None"
  shows "\<exists>w m'. add_buffer_begin s m = Some (w, m') \<and> good_call silent [] (\<lambda>_. False) m m'"
proof -
  obtain p where p: "pad_at s m = Some p" using assms(2) by auto
  then have wf: "pad_wf p" "pad_id p = s" using assms(1) pads_okD by (auto simp: mux_wf_def)
  have id: "set_max_buffer_count n p = p\<lparr>max_buffer_count := ucast n\<rparr>" for n
    by (simp add: set_max_buffer_count_def)
  have "good_call silent [] (\<lambda>_. False) m (set_pad s (p\<lparr>max_buffer_count := n\<rparr>) m)"
    and "good_call silent [] (\<lambda>_. False) m (set_pad s p m)" for n
    using wf by (intro good_set_pad_quiet [OF assms(1) p]; simp add: pad_wf_def)+
  then show ?thesis
    by (simp add: add_buffer_begin_def get_pad_present [OF p] Let_def id)
qed

lemma good_add_buffer_commit:
  assumes "mux_wf m" "is_buffer e" "room s m"
  shows "\<exists>m'. add_buffer_commit now s e m = Some m' \<and>
    good_call silent [(s, e)] (\<lambda>_. False) m m'"
proof -
  obtain p where p: "pad_at s m = Some p" "length (queue p) + 1 < 2 ^ 32"
    using roomE [OF assms(3)] .
  then have wf: "pad_wf p" "pad_id p = s" using assms(1) pads_okD by (auto simp: mux_wf_def)
  let ?p1 = "if pad_state p = SOURCE_STATE_IDLE then p\<lparr>switched_to_active := True\<rparr> else p"
  let ?p2 = "?p1\<lparr>pad_state := SOURCE_STATE_PLAYING\<rparr>"
  have p2: "pad_wf ?p2" "pad_id ?p2 = s" "queue ?p2 = queue p"
    using wf by (simp_all add: pad_wf_def)
  obtain m1 where m1: "add_buffer_commit now s e m = Some (set_pad s (queue_entry e ?p2) m1)"
    "same_run m m1" "inputs m1 = inputs m"
    by (auto simp: add_buffer_commit_def p(1) Let_def same_run_def update_last_batch_time_def)
  have "pad_wf (queue_entry e ?p2)"
    using p2 p(2) assms(2) by (intro pad_wf_queue_entry) auto
  then have "good_call silent (map (Pair s) [e]) (\<lambda>_. False) m (set_pad s (queue_entry e ?p2) m1)"
    using p2 m1(2,3) by (intro good_set_pad [OF assms(1) p(1)]) auto
  with m1(1) show ?thesis by simp
qed

lemma good_queue_event:
  assumes "mux_wf m" "is_event e" "room s m"
  obtains p where "pad_at s m = Some p" "get_pad s m = (Some p, m)" "pad_wf p" "pad_id p = s"
    "\<And>p'. queue p' = queue (queue_entry e p) \<Longrightarrow>
       event_indices p' = event_indices (queue_entry e p) \<Longrightarrow> pad_id p' = s \<Longrightarrow>
       good_call silent [(s, e)] (\<lambda>_. False) m (set_pad s p' m)"
proof -
  obtain p where p: "pad_at s m = Some p" "length (queue p) + 1 < 2 ^ 32"
    using roomE [OF assms(3)] .
  then have wf: "pad_wf p" "pad_id p = s" using assms(1) pads_okD by (auto simp: mux_wf_def)
  have q: "pad_wf (queue_entry e p)"
    using wf(1) p(2) assms(2) by (intro pad_wf_queue_entry) auto
  have "good_call silent [(s, e)] (\<lambda>_. False) m (set_pad s p' m)"
    if "queue p' = queue (queue_entry e p)" "event_indices p' = event_indices (queue_entry e p)"
      "pad_id p' = s" for p'
    using good_set_pad [OF assms(1) p(1), of p' "[e]" m] that q pad_wf_cong [OF that(1,2)] by simp
  with p(1) get_pad_present [OF p(1)] wf show thesis by (rule that)
qed

text \<open>Pushing events after a call.\<close>

lemma good_push_events:
  assumes "good_call silent new (\<lambda>_. False) m m1" "mux_push_events m1 = (evs, m')"
  shows "good_call (silent\<lparr>o_events := evs\<rparr>) new (\<lambda>_. False) m m'"
proof -
  have wf: "mux_wf m1" using assms(1) by (simp add: good_call_def)
  note ev = mux_push_events_spec [OF assms(2) wf]
  have "buf_q sid m' = buf_q sid m @ filter is_buffer (events_of sid new) \<and>
    events_of sid evs @ ev_q sid m' = ev_q sid m @ filter is_event (events_of sid new)" for sid
    using assms(1) ev(3,4) [of sid] by (simp add: good_call_def)
  moreover have "priority_list (batch_policy m') = priority_list (batch_policy m1)"
    "mux_batch m' = mux_batch m1"
    using ev(2) by (simp_all add: same_run_def)
  ultimately show ?thesis
    using assms(1) ev(1) by (simp add: good_call_def)
qed

lemma good_handle_eos:
  assumes "mux_wf m" "is_event e" "room s m" "handle_eos s e m = (ok, push, m')"
  shows "good_call silent (if ok then [(s, e)] else []) (\<lambda>_. False) m m'"
proof -
  obtain p where p: "get_pad s m = (Some p, m)" "pad_id p = s"
    "\<And>p'. queue p' = queue (queue_entry e p) \<Longrightarrow>
       event_indices p' = event_indices (queue_entry e p) \<Longrightarrow> pad_id p' = s \<Longrightarrow>
       good_call silent [(s, e)] (\<lambda>_. False) m (set_pad s p' m)"
    using good_queue_event [OF assms(1-3)] by metis
  let ?p1 = "(queue_entry e p)\<lparr>switched_to_idle := True, switched_to_active := False, eos := True\<rparr>"
  have good: "good_call silent [(s, e)] (\<lambda>_. False) m (set_pad s ?p1 m)"
    using p(2) by (intro p(3)) simp_all
  show ?thesis
  proof (cases "eos p")
    case True
    with assms(1,4) p(1) show ?thesis
      using good_same [OF assms(1), of m] by (simp add: handle_eos_def)
  next
    case False
    with assms(4) p(1) good show ?thesis by (auto simp: handle_eos_def)
  qed
qed

lemma good_handle_stop:
  assumes "mux_wf m"
  shows "good_call silent [] (\<lambda>_. True) m (handle_stop m)"
proof -
  let ?f = "\<lambda>p. let p1 = reset p in if frame_num_reset_on_eos m then reset_frame_count p1 else p1"
  have f: "pad_wf (?f p)" "pad_id (?f p) = pad_id p" "queue (?f p) = []" for p
    by (simp_all add: Let_def pad_wf_def reset_def reset_frame_count_def)
  have map: "map_of (inputs (handle_stop m)) sid = map_option (map_option ?f) (map_of (inputs m) sid)"
    for sid by (simp add: handle_stop_def map_of_map)
  have at: "pad_at sid (handle_stop m) = map_option ?f (pad_at sid m)" for sid
    unfolding pad_at_def map by (auto split: option.split)
  have keys: "map fst (inputs (handle_stop m)) = map fst (inputs m)"
    by (simp add: handle_stop_def comp_def case_prod_beta)
  have "pads_ok (inputs (handle_stop m))"
    unfolding pads_ok_pad_at keys at using assms f by (auto simp: mux_wf_def pads_ok_pad_at)
  moreover have "inputs (handle_stop m) = [] \<longleftrightarrow> inputs m = []" using keys by (metis map_is_Nil_conv)
  moreover have "mux_batch (handle_stop m) = mux_batch m"
    "batch_policy (handle_stop m) = batch_policy m"
    by (simp_all add: handle_stop_def)
  ultimately show ?thesis
    using assms f by (auto simp: good_call_def mux_wf_def buf_q_def ev_q_def at split: option.split)
qed

theorem call_good:
  assumes "mux_wf m" "allowed c m"
  shows "\<exists>out new m'. call c m = Some (out, new, m') \<and> good_call out new (loses c) m m'"
proof -
  have same: "good_call silent [] (\<lambda>_. False) m m'"
    if "same_run m (m'\<lparr>stop_task := stop_task m\<rparr>)" "inputs m' = inputs m" for m'
    using good_same [OF assms(1) that] .
  show ?thesis
  proof (cases c)
    case (Add_pad s)
    with assms(2) good_add_pad [OF assms(1), of s] show ?thesis by (simp add: quiet_def)
  next
    case (Remove_pad_begin s)
    with assms(2) good_remove_begin [OF assms(1), of s] show ?thesis by (auto simp: quiet_def)
  next
    case (Remove_pad_end s)
    with assms(2) good_remove_end [OF assms(1), of s] show ?thesis by (auto simp: quiet_def)
  next
    case (Add_buffer_begin s)
    with assms(2) good_add_buffer_begin [OF assms(1), of s] show ?thesis by (auto simp: quiet_def)
  next
    case (Add_buffer_commit now s e)
    with assms(2) good_add_buffer_commit [OF assms(1), of e s now] show ?thesis by auto
  next
    case (Handle_eos s e)
    obtain ok push m' where "handle_eos s e m = (ok, push, m')" by (metis prod_cases3)
    with Handle_eos assms(2) good_handle_eos [OF assms(1), of e s] show ?thesis by simp
  next
    case (Handle_eos_cascaded s e)
    with assms(2) have "is_event e" "room s m" by simp_all
    then show ?thesis
      by (rule good_queue_event [OF assms(1)])
        (simp add: Handle_eos_cascaded handle_eos_cascaded_def)
  next
    case (Handle_segment s e)
    with assms(2) have "is_event e" "room s m" by simp_all
    then show ?thesis
      by (rule good_queue_event [OF assms(1)])
        (simp add: Handle_segment handle_segment_def Let_def)
  next
    case (Handle_stream_reset s e)
    with assms(2) have "is_event e" "room s m" by simp_all
    then show ?thesis
      by (rule good_queue_event [OF assms(1)])
        (simp add: Handle_stream_reset handle_stream_reset_def reset_frame_count_def Let_def)
  next
    case (Handle_flush_stop s)
    with assms(2) obtain p where p: "pad_at s m = Some p" by auto
    then have "pad_wf p" "pad_id p = s" using assms(1) pads_okD by (auto simp: mux_wf_def)
    then have "good_call silent [] (\<lambda>_. False) m
        (set_pad s (p\<lparr>pad_state := SOURCE_STATE_PLAYING, switched_to_active := True\<rparr>)
          (m\<lparr>all_pads_eos := False\<rparr>))"
      by (intro good_set_pad_quiet [OF assms(1) p]) (simp_all add: pad_wf_def same_run_def)
    then have "good_call silent [] (\<lambda>_. False) m (snd (handle_flush_stop s m))"
      by (simp add: handle_flush_stop_def get_pad_present [OF p])
    then show ?thesis by (simp add: Handle_flush_stop quiet_def)
  next
    case Handle_stop
    with good_handle_stop [OF assms(1)] show ?thesis by (simp add: quiet_def)
  next
    case (Reset_pad s)
    with assms(2) obtain p where p: "pad_at s m = Some p" by auto
    then have wf: "pad_wf p" "pad_id p = s" using assms(1) pads_okD by (auto simp: mux_wf_def)
    have "\<exists>m'. reset_pad s m = Some m' \<and> good_call silent [] (\<lambda>_. False) m m'"
    proof (cases "eos p")
      case True
      define bp where "bp = batch_policy m"
      let ?m1 = "m\<lparr>batch_policy := update_eos_sources (get_eos_sources bp - 1) bp,
                    pads_got_eos_and_empty_in_q := pads_got_eos_and_empty_in_q m - 1,
                    all_pads_eos := False\<rparr>"
      have "reset_pad s m = Some (set_pad s (p\<lparr>eos := False\<rparr>) (if 0 < get_eos_sources bp then ?m1 else m))"
        using True p by (simp add: reset_pad_def Let_def bp_def set_pad_def)
      moreover have "good_call silent [] (\<lambda>_. False) m
          (set_pad s (p\<lparr>eos := False\<rparr>) (if 0 < get_eos_sources bp then ?m1 else m))"
        using wf by (intro good_set_pad_quiet [OF assms(1) p])
          (simp_all add: pad_wf_def same_run_def update_eos_sources_def bp_def)
      ultimately show ?thesis by blast
    next
      case False
      with p same [of m] show ?thesis by (simp add: reset_pad_def)
    qed
    then show ?thesis by (auto simp: Reset_pad quiet_def)
  next
    case Push_events
    obtain evs m' where pe: "mux_push_events m = (evs, m')" by fastforce
    have "good_call silent [] (\<lambda>_. False) m m" by (rule same) simp_all
    from good_push_events [OF this pe] pe show ?thesis by (simp add: Push_events)
  qed (use same in \<open>simp_all add: quiet_def reset_stop_def set_batch_size_def set_cfg_batch_size_def
        set_num_surfaces_per_frame_def set_num_surfaces_def set_frame_duration_def same_run_def\<close>)
qed

section \<open>Every step of the loop keeps the invariant\<close>

definition good_loop :: "'o loop_input \<Rightarrow> loop_pc \<Rightarrow> NvStreamMux \<Rightarrow> mux_output \<Rightarrow> loop_pc \<Rightarrow> NvStreamMux \<Rightarrow> bool" where
  "good_loop i k m out k' m' \<longleftrightarrow>
     mux_wf m' \<and> (holds_batch k' \<longrightarrow> mux_batch m' \<noteq> None) \<and>
     (k' = Forming \<longrightarrow> priority_list (batch_policy m') \<noteq> []) \<and>
     (\<forall>sid. subseq (copied_for sid (o_copied out) @ buf_q sid m') (buf_q sid m) \<and>
        events_of sid (o_events out) @ ev_q sid m' = ev_q sid m \<and>
        filter (\<lambda>e. \<not> now_late i k m sid e) (copied_for sid (o_copied out) @ buf_q sid m') =
          filter (\<lambda>e. \<not> now_late i k m sid e) (buf_q sid m))"

text \<open>Steps that leave the queues alone.\<close>

lemma good_loop_same:
  assumes "mux_wf m" "same_run (m\<lparr>mux_batch := mux_batch m'\<rparr>) m'" "inputs m' = inputs m"
    and "o_copied out = []" "o_events out = []" "k' \<noteq> Forming"
    and "holds_batch k' \<longrightarrow> mux_batch m' \<noteq> None" "mux_batch m' \<noteq> None \<longrightarrow> mux_batch m \<noteq> None"
  shows "good_loop i k m out k' m'"
proof -
  have "pad_at sid m' = pad_at sid m" for sid by (simp add: pad_at_def assms(3))
  then have q: "buf_q sid m' = buf_q sid m" "ev_q sid m' = ev_q sid m" for sid
    by (simp_all add: buf_q_def ev_q_def)
  have "mux_wf (m\<lparr>mux_batch := mux_batch m'\<rparr>)"
    using assms(1,8) by (simp add: mux_wf_def)
  then have "mux_wf m'"
    using same_run_wf [OF assms(2)] assms(3) by simp
  with q assms(4-7) show ?thesis by (simp add: good_loop_def)
qed

lemma good_loop_events:
  assumes "mux_wf m" "holds_batch k' \<longrightarrow> mux_batch m \<noteq> None"
    and "k' = Forming \<longrightarrow> priority_list (batch_policy m) \<noteq> []"
  shows "\<exists>out m'. events_step k' m = Some (out, k', m') \<and> good_loop i k m out k' m'"
proof -
  obtain evs m' where pe: "mux_push_events m = (evs, m')" by fastforce
  note ev = mux_push_events_spec [OF pe assms(1)]
  have "good_loop i k m (silent\<lparr>o_events := evs\<rparr>) k' m'"
    using ev(1-4) assms(2,3) by (simp add: good_loop_def same_run_def)
  then show ?thesis by (simp add: events_step_def pe)
qed

lemma good_loop_form:
  assumes "mux_wf m" "priority_list (batch_policy m) \<noteq> []" "k \<in> {Forming, Head True}"
  shows "\<exists>out k' m'. form_step i m = Some (out, k', m') \<and> good_loop i k m out k' m'"
proof -
  obtain m1 b where f: "mux_form_batch (in_env i) m = Some m1" "mux_wf m1" "mux_batch m1 = Some b"
    "synch_buffer (batch_policy m1) = synch_buffer (batch_policy m)"
    "\<And>sid. ev_q sid m1 = ev_q sid m" "\<And>sid. subseq (buf_q sid m1) (buf_q sid m)"
    "\<And>sid. filter (\<lambda>e. \<not> late_for (in_env i) (synch_buffer (batch_policy m)) e) (buf_q sid m1) =
      filter (\<lambda>e. \<not> late_for (in_env i) (synch_buffer (batch_policy m)) e) (buf_q sid m)"
    using mux_form_batch_spec [OF assms(1,2), of "in_env i"] by metis
  obtain w bp where c: "calculate_wait (in_now i) (batch_policy m1) = (w, bp)" by fastforce
  then have bp: "sources bp = sources (batch_policy m1)"
    "priority_list bp = priority_list (batch_policy m1)"
    "last_batch_state bp = last_batch_state (batch_policy m1)"
    by (auto simp: calculate_wait_def Let_def split: if_splits)
  let ?m2 = "m1\<lparr>batch_policy := bp\<rparr>"
  obtain k' where k': "form_step i m = Some (silent, k', ?m2)" "k' \<noteq> Forming"
    using f(1,3) c by (auto simp: form_step_def Let_def)
  have "mux_wf ?m2" using f(2) policy_ok_cong [OF bp] bp(2) by (simp add: mux_wf_def)
  moreover have "buf_q sid ?m2 = buf_q sid m1" "ev_q sid ?m2 = ev_q sid m1" for sid
    by (simp_all add: buf_q_def ev_q_def pad_at_def)
  moreover have "filter (\<lambda>e. \<not> now_late i k m sid e) (buf_q sid m1) = filter (\<lambda>e. \<not> now_late i k m sid e) (buf_q sid m)" for sid
  proof -
    have "set (buf_q sid m1) \<subseteq> set (buf_q sid m)" using f(6) [of sid] by (auto dest: list_emb_set)
    then have "filter (\<lambda>e. \<not> now_late i k m sid e) (buf_q sid m1) =
        filter (\<lambda>e. \<not> late_for (in_env i) (synch_buffer (batch_policy m)) e) (buf_q sid m1)"
      using assms(3) by (intro filter_cong) (auto simp: now_late_def)
    moreover have "filter (\<lambda>e. \<not> now_late i k m sid e) (buf_q sid m) =
        filter (\<lambda>e. \<not> late_for (in_env i) (synch_buffer (batch_policy m)) e) (buf_q sid m)"
      using assms(3) by (intro filter_cong) (auto simp: now_late_def)
    ultimately show ?thesis using f(7) [of sid] by simp
  qed
  ultimately have "good_loop i k m silent k' ?m2"
    using f k'(2) by (simp add: good_loop_def)
  with k'(1) show ?thesis by blast
qed

text \<open>
  No step of the loop fails, and every step keeps the invariant; only \<open>Copying\<close> needs the output
  buffer.
\<close>

theorem loop_good:
  assumes "mux_wf m" "holds_batch k \<longrightarrow> mux_batch m \<noteq> None"
    and "k = Forming \<longrightarrow> priority_list (batch_policy m) \<noteq> []" "k = Copying \<longrightarrow> in_out i \<noteq> None"
  shows "\<exists>out k' m'. loop_step cb i k m = Some (out, k', m') \<and> good_loop i k m out k' m'"
proof -
  have prio: "priority_list (batch_policy m) \<noteq> []" if "inputs m \<noteq> [] \<or> mux_batch m \<noteq> None"
    using assms(1) that by (auto simp: mux_wf_def)
  have same: "good_loop i k m out k' m'"
    if "same_run m m'" "inputs m' = inputs m" "o_copied out = []" "o_events out = []"
      "k' \<noteq> Forming" "holds_batch k' \<longrightarrow> mux_batch m \<noteq> None" for out k' m'
    using that by (intro good_loop_same [OF assms(1)]) (auto simp: same_run_def)
  have check: "\<exists>out k' m'. check_step i m = Some (out, k', m') \<and> good_loop i k m out k' m'"
    if "mux_batch m \<noteq> None"
    using that by (auto simp: check_step_def holds_batch_def intro!: same)
  show ?thesis
  proof (cases k)
    case Outside
    have "good_loop i k m silent (Head False) m" by (rule same) (simp_all add: holds_batch_def)
    with Outside good_loop_events [OF assms(1), of Outside i k] show ?thesis
      by (auto simp: holds_batch_def split: option.split)
  next
    case (Head called)
    consider "stop_task m \<or> (case mux_batch m of None \<Rightarrow> False | Some b \<Rightarrow> is_ready b) \<or> inputs m = []"
      | "\<not> stop_task m" "\<not> (case mux_batch m of None \<Rightarrow> False | Some b \<Rightarrow> is_ready b)"
        "inputs m \<noteq> []" by blast
    then show ?thesis
    proof cases
      case 1
      then have "loop_step cb i k m = Some (silent, Ending False, m)" by (auto simp: Head)
      moreover have "good_loop i k m silent (Ending False) m"
        by (rule same) (simp_all add: holds_batch_def)
      ultimately show ?thesis by blast
    next
      case 2
      then have p: "priority_list (batch_policy m) \<noteq> []" using prio by blast
      show ?thesis
      proof (cases called)
        case True
        with 2 Head have "loop_step cb i k m = form_step i m" by simp
        then show ?thesis using good_loop_form [OF assms(1) p, of k i] True Head by simp
      next
        case False
        with 2 Head have "loop_step cb i k m = events_step Forming m" by simp
        moreover have "\<exists>out m'. events_step Forming m = Some (out, Forming, m') \<and>
            good_loop i k m out Forming m'"
          using p by (intro good_loop_events [OF assms(1)]) (simp_all add: holds_batch_def)
        ultimately show ?thesis by auto
      qed
    qed
  next
    case Forming
    then show ?thesis using good_loop_form [OF assms(1), of k i] assms(3) by simp
  next
    case Waiting
    then obtain b where b: "mux_batch m = Some b" using assms(2) by (auto simp: holds_batch_def)
    then show ?thesis
      using good_loop_events [OF assms(1), of Checking i k] check by (auto simp: Waiting)
  next
    case Checking
    then show ?thesis using assms(2) check by (simp add: holds_batch_def)
  next
    case Formed
    then have "mux_batch m \<noteq> None" using assms(2) by (simp add: holds_batch_def)
    then show ?thesis
      using good_loop_events [OF assms(1), of Copying i k] by (auto simp: Formed)
  next
    case Copying
    then obtain b ob where b: "mux_batch m = Some b" "in_out i = Some ob"
      using assms(2,4) by (auto simp: holds_batch_def)
    then obtain m1 os where cb: "copy_batch cb (in_env i) m ob = Some (m1, os)"
      by (cases "copy_batch cb (in_env i) m ob") (auto simp: copy_batch_def)
    note cs = copy_batch_spec [OF cb assms(1)]
    have "mux_batch m1 \<noteq> None" using cs(2) b(1) by (simp add: same_run_def)
    then have 1: "good_loop i k m (silent\<lparr>o_copied := copied_log os\<rparr>) Throttling m1"
      using cs(1,3,4) by (simp add: good_loop_def)
    have fc: "same_run m1 (finish_copy now m1)" "inputs (finish_copy now m1) = inputs m1" for now
      by (simp_all add: finish_copy_def same_run_def update_last_batch_time_def)
    then have "pad_at sid (finish_copy now m1) = pad_at sid m1" for sid now by (simp add: pad_at_def)
    then have "buf_q sid (finish_copy now m1) = buf_q sid m1"
      "ev_q sid (finish_copy now m1) = ev_q sid m1" for sid now by (simp_all add: buf_q_def ev_q_def)
    with 1 fc have 2: "good_loop i k m (silent\<lparr>o_copied := copied_log os\<rparr>) Pushing
        (finish_copy now m1)" for now
      using same_run_wf [OF fc] by (simp add: good_loop_def same_run_def holds_batch_def)
    show ?thesis using 1 2 cb b(2) by (auto simp: Copying Let_def)
  next
    case Throttling
    then have b: "mux_batch m \<noteq> None" using assms(2) by (simp add: holds_batch_def)
    obtain w m1 where t: "apply_throttle (in_now i) (in_elapsed i) False m = (w, m1)" by fastforce
    then have "same_run m (finish_copy (in_later i) m1)" "inputs (finish_copy (in_later i) m1) = inputs m"
      by (auto simp: apply_throttle_def finish_copy_def same_run_def update_last_batch_time_def Let_def
          split: if_splits)
    with t b show ?thesis by (simp add: Throttling) (intro same [unfolded Throttling]; simp)
  next
    case Pushing
    then have "mux_batch m \<noteq> None" using assms(2) by (simp add: holds_batch_def)
    then show ?thesis
      by (simp add: Pushing push_batch_def Let_def)
        (intro same [unfolded Pushing]; simp add: same_run_def silent_def)
  next
    case Resetting
    then show ?thesis
      by (simp, intro good_loop_same [OF assms(1)]) (auto simp: same_run_def holds_batch_def)
  next
    case (Ending r)
    then show ?thesis
      using good_loop_events [OF assms(1), of "Finishing r" i k] by (auto simp: holds_batch_def)
  next
    case (Finishing r)
    obtain w m1 where t: "apply_throttle (in_now i) (in_elapsed i) True m = (w, m1)" by fastforce
    then have "same_run m m1" "inputs m1 = inputs m"
      by (auto simp: apply_throttle_def same_run_def Let_def split: if_splits)
    then have "good_loop i k m silent Outside m1" "good_loop i k m silent Outside m"
      by (intro same; simp add: holds_batch_def)+
    with t Finishing show ?thesis by (cases r) simp_all
  qed
qed

section \<open>Reachable states\<close>

lemma system_ok_start:
  assumes "config_ok cfg"
  shows "system_ok (start cfg now mem sync)"
proof -
  let ?m0 = "mux_set_synch_buffer_iface sync (new_NvStreamMux mem)"
  have m0: "inputs ?m0 = []" "mux_batch ?m0 = None"
    by (simp_all add: mux_set_synch_buffer_iface_def new_NvStreamMux_def)
  let ?bp = "new_BatchPolicy cfg [] now"
  have wf: "policy_wf ?bp" "position_ok ?bp" and src: "snd ` set (sources ?bp) = fst ` set (source_props cfg)"
    using new_BatchPolicy_result [of cfg "[]" now] assms by (auto simp: config_ok_def)
  have "priority_list ?bp = [] \<or> NVSTREAMMUX_DEFAULT_SOURCE_GROUP_PRIORITY \<in> set (priority_list ?bp)"
  proof (cases "source_props cfg = []")
    case True
    then have "sources ?bp = []" using src by simp
    then show ?thesis using wf(1) by (simp add: policy_wf_def)
  next
    case False
    have "sorted_wrt (<) (priority_list bp) \<Longrightarrow>
        set (priority_list (add_configured props bp)) =
          (\<lambda>p. priority (snd p)) ` set props \<union> set (priority_list bp)" for props bp
      by (induction props bp rule: add_configured.induct) (auto simp: sorted_insert_wf)
    then have "set (priority_list ?bp) = (\<lambda>p. priority (snd p)) ` set (source_props cfg)"
      by (simp add: new_BatchPolicy_def Let_def update_last_batch_time_def)
    with False assms show ?thesis by (force simp: config_ok_def)
  qed
  then have "policy_ok (batch_policy (set_policy cfg now ?m0))"
    using wf m0(1) policy_ok_cong [of "batch_policy (set_policy cfg now ?m0)" ?bp]
    by (simp add: policy_ok_def set_policy_def Let_def set_synch_buffer_iface_def)
  moreover have "inputs (set_policy cfg now ?m0) = []" "mux_batch (set_policy cfg now ?m0) = None"
    using m0 by (simp_all add: set_policy_def Let_def)
  ultimately show ?thesis
    by (simp add: system_ok_def start_def mux_wf_def pads_ok_def pads_wf_def holds_batch_def
        history_ok_def buf_q_def ev_q_def pad_at_def)
qed

lemma subseq_append_right: "subseq xs ys \<Longrightarrow> subseq (zs @ xs) (zs @ ys)"
  by (rule list_emb_append_mono) simp_all

lemma history_loop:
  assumes "history_ok s" "good_loop i (pc s) (mux s) out k' m'"
  shows "history_ok (observe_loop i out k' m' s)"
  unfolding history_ok_def
proof (intro allI conjI impI)
  fix sid
  let ?s' = "observe_loop i out k' m' s" and ?J = "judged s sid" and ?N = "now_late i (pc s) (mux s) sid"
  have h: "subseq (sent s sid @ buf_q sid (mux s)) (filter is_buffer (fed s sid))"
    "subseq (sent_events s sid @ ev_q sid (mux s)) (filter is_event (fed s sid))"
    "\<not> lossy s sid \<Longrightarrow> filter (\<lambda>e. \<not> ?J e) (sent s sid @ buf_q sid (mux s)) = filter (\<lambda>e. \<not> ?J e) (filter is_buffer (fed s sid))"
    "\<not> lossy s sid \<Longrightarrow> sent_events s sid @ ev_q sid (mux s) = filter is_event (fed s sid)"
    using assms(1) unfolding history_ok_def by blast+
  have g: "subseq (copied_for sid (o_copied out) @ buf_q sid m') (buf_q sid (mux s))"
    "events_of sid (o_events out) @ ev_q sid m' = ev_q sid (mux s)"
    "filter (\<lambda>e. \<not> ?N e) (copied_for sid (o_copied out) @ buf_q sid m') = filter (\<lambda>e. \<not> ?N e) (buf_q sid (mux s))"
    using assms(2) unfolding good_loop_def by blast+
  have fields: "sent ?s' sid = sent s sid @ copied_for sid (o_copied out)" "mux ?s' = m'" "fed ?s' sid = fed s sid"
    "sent_events ?s' sid = sent_events s sid @ events_of sid (o_events out)" "lossy ?s' sid = lossy s sid"
    "judged ?s' sid = (\<lambda>e. ?J e \<or> ?N e)" by (simp_all add: observe_loop_def observe_def)
  show "subseq (sent ?s' sid @ buf_q sid (mux ?s')) (filter is_buffer (fed ?s' sid))"
    using subseq_order.order_trans [OF subseq_append_right [OF g(1)] h(1)] by (simp add: fields)
  show "subseq (sent_events ?s' sid @ ev_q sid (mux ?s')) (filter is_event (fed ?s' sid))"
    using h(2) g(2) by (simp add: fields)
  assume "\<not> lossy ?s' sid"
  then have l: "\<not> lossy s sid" by (simp add: fields)
  have swap: "filter (\<lambda>e. \<not> (?J e \<or> ?N e)) xs = filter (\<lambda>e. \<not> ?N e) (filter (\<lambda>e. \<not> ?J e) xs)" for xs
    unfolding filter_filter by (rule filter_cong) auto
  have join: "filter (\<lambda>e. \<not> (?J e \<or> ?N e)) xs = filter (\<lambda>e. \<not> ?J e) (filter (\<lambda>e. \<not> ?N e) xs)" for xs
    unfolding filter_filter by (rule filter_cong) auto
  have "filter (\<lambda>e. \<not> (?J e \<or> ?N e)) (sent s sid @ copied_for sid (o_copied out) @ buf_q sid m') =
      filter (\<lambda>e. \<not> ?J e) (filter (\<lambda>e. \<not> ?N e) (sent s sid)) @
      filter (\<lambda>e. \<not> ?J e) (filter (\<lambda>e. \<not> ?N e) (copied_for sid (o_copied out) @ buf_q sid m'))"
    by (simp only: join filter_append)
  also have "\<dots> = filter (\<lambda>e. \<not> (?J e \<or> ?N e)) (sent s sid @ buf_q sid (mux s))" unfolding g(3) by (simp only: join filter_append)
  also have "\<dots> = filter (\<lambda>e. \<not> (?J e \<or> ?N e)) (filter is_buffer (fed s sid))" unfolding swap h(3) [OF l] ..
  finally show "filter (\<lambda>e. \<not> judged ?s' sid e) (sent ?s' sid @ buf_q sid (mux ?s')) =
      filter (\<lambda>e. \<not> judged ?s' sid e) (filter is_buffer (fed ?s' sid))"
    unfolding fields append_assoc .
  show "sent_events ?s' sid @ ev_q sid (mux ?s') = filter is_event (fed ?s' sid)"
    using h(4) [OF l] g(2) by (simp add: fields)
qed

lemma history_call:
  assumes "history_ok s" "good_call out new lost (mux s) m'"
  shows "history_ok (observe out new lost k m' s)"
  unfolding history_ok_def
proof (intro allI)
  fix sid
  let ?s' = "observe out new lost k m' s"
  have h: "subseq (sent s sid @ buf_q sid (mux s)) (filter is_buffer (fed s sid))"
    "subseq (sent_events s sid @ ev_q sid (mux s)) (filter is_event (fed s sid))"
    "\<not> lossy s sid \<Longrightarrow> filter (\<lambda>e. \<not> judged s sid e) (sent s sid @ buf_q sid (mux s)) =
       filter (\<lambda>e. \<not> judged s sid e) (filter is_buffer (fed s sid))"
    "\<not> lossy s sid \<Longrightarrow> sent_events s sid @ ev_q sid (mux s) = filter is_event (fed s sid)"
    using assms(1) unfolding history_ok_def by blast+
  have copied: "o_copied out = []" using assms(2) by (simp add: good_call_def)
  show "subseq (sent ?s' sid @ buf_q sid (mux ?s')) (filter is_buffer (fed ?s' sid)) \<and>
    subseq (sent_events ?s' sid @ ev_q sid (mux ?s')) (filter is_event (fed ?s' sid)) \<and>
    (\<not> lossy ?s' sid \<longrightarrow>
       filter (\<lambda>e. \<not> judged ?s' sid e) (sent ?s' sid @ buf_q sid (mux ?s')) =
         filter (\<lambda>e. \<not> judged ?s' sid e) (filter is_buffer (fed ?s' sid)) \<and>
       sent_events ?s' sid @ ev_q sid (mux ?s') = filter is_event (fed ?s' sid))"
  proof (cases "lost sid")
    case True
    then have g: "buf_q sid m' = []" "ev_q sid m' = []" "events_of sid new = []"
      "events_of sid (o_events out) = []"
      using assms(2) by (simp_all add: good_call_def)
    have "subseq (sent s sid) (filter is_buffer (fed s sid))"
      "subseq (sent_events s sid) (filter is_event (fed s sid))"
      using h(1,2) by (auto intro: subseq_order.order_trans [rotated])
    with g True copied show ?thesis by (simp add: observe_def)
  next
    case False
    then have g: "buf_q sid m' = buf_q sid (mux s) @ filter is_buffer (events_of sid new)"
      "events_of sid (o_events out) @ ev_q sid m' = ev_q sid (mux s) @ filter is_event (events_of sid new)"
      using assms(2) by (simp_all add: good_call_def)
    have "subseq (sent s sid @ buf_q sid m') (filter is_buffer (fed s sid @ events_of sid new))"
      using list_emb_append_mono [OF h(1) subseq_order.order_refl] by (simp add: g(1))
    moreover have "subseq ((sent_events s sid @ events_of sid (o_events out)) @ ev_q sid m')
        (filter is_event (fed s sid @ events_of sid new))"
      using list_emb_append_mono [OF h(2) subseq_order.order_refl, of "filter is_event (events_of sid new)"]
      by (simp add: g(2))
    moreover have "filter (\<lambda>e. \<not> judged s sid e) (sent s sid @ buf_q sid m') =
        filter (\<lambda>e. \<not> judged s sid e) (filter is_buffer (fed s sid @ events_of sid new))"
      if "\<not> lossy s sid"
      using h(3) [OF that] g(1) by simp
    moreover have "(sent_events s sid @ events_of sid (o_events out)) @ ev_q sid m' =
         filter is_event (fed s sid @ events_of sid new)" if "\<not> lossy s sid"
      using h(4) [OF that] g(2) by simp
    ultimately show ?thesis using copied by (simp add: observe_def)
  qed
qed

lemma system_ok_step:
  assumes "mux_step cb s s'" "system_ok s"
  shows "system_ok s'"
  using assms
proof (induction rule: mux_step.induct)
  case (loop i s out k' m')
  have "good_loop i (pc s) (mux s) out k' m'"
    using loop_good [of "mux s" "pc s" i cb] loop by (auto simp: system_ok_def)
  with loop history_loop [of s i out k' m'] show ?case
    by (simp add: system_ok_def) (simp add: good_loop_def observe_loop_def observe_def)
next
  case (call c s out new m')
  have good: "good_call out new (loses c) (mux s) m'"
    using call_good [of "mux s" c] call by (auto simp: system_ok_def)
  with call history_call [OF _ good, of "pc s"] show ?case
    by (simp add: system_ok_def) (simp add: good_call_def observe_def)
qed

theorem reachable_system_ok:
  assumes "reachable cb cfg s" "config_ok cfg"
  shows "system_ok s"
  using assms(1) by induction (use assms(2) in \<open>auto intro: system_ok_start system_ok_step\<close>)

text \<open>A schedule: moves of the loop and calls of other threads, in order.\<close>

datatype 'o move = Loop "'o loop_input" | Call mux_call

fun run :: "'o copy_fun \<Rightarrow> 'o move list \<Rightarrow> mux_system \<Rightarrow> mux_system option" where
  "run cb [] s = Some s"
| "run cb (Loop i # ms) s =
     (if pc s = Copying \<and> in_out i = None then None
      else case loop_step cb i (pc s) (mux s) of
             None \<Rightarrow> None
           | Some (out, k, m) \<Rightarrow>
               run cb ms (observe_loop i out k m s))"
| "run cb (Call c # ms) s =
     (if allowed c (mux s)
      then case call c (mux s) of
             None \<Rightarrow> None
           | Some (out, new, m) \<Rightarrow> run cb ms (observe out new (loses c) (pc s) m s)
      else None)"

lemma run_reachable: "run cb ms s = Some s' \<Longrightarrow> reachable cb cfg s \<Longrightarrow> reachable cb cfg s'"
proof (induction ms arbitrary: s)
  case (Cons x ms)
  show ?case
  proof (cases x)
    case (Loop i)
    then obtain out k m where st: "\<not> (pc s = Copying \<and> in_out i = None)"
      "loop_step cb i (pc s) (mux s) = Some (out, k, m)"
      "run cb ms (observe_loop i out k m s) = Some s'"
      using Cons.prems(1) by (auto split: if_splits option.splits)
    have "mux_step cb s (observe_loop i out k m s)"
      using st(1,2) by (intro mux_step.loop) auto
    with Cons.prems(2) have "reachable cb cfg (observe_loop i out k m s)"
      by (rule reachable.step)
    with Cons.IH [OF st(3)] show ?thesis .
  next
    case (Call c)
    then obtain out new m where st: "allowed c (mux s)" "call c (mux s) = Some (out, new, m)"
      "run cb ms (observe out new (loses c) (pc s) m s) = Some s'"
      using Cons.prems(1) by (auto split: if_splits option.splits)
    have "reachable cb cfg (observe out new (loses c) (pc s) m s)"
      using Cons.prems(2) mux_step.call [OF st(1,2)] by (rule reachable.step)
    with Cons.IH [OF st(3)] show ?thesis .
  qed
qed simp

section \<open>Properties of the muxer at work\<close>

text \<open>
  Property C3. When no source is configured or one of them has the default priority, \<open>push_loop\<close> never fails,
  in any interleaving with the other threads: in every reachable state the step of the loop is defined, so
  no iterator at the end of a container and no null batch is ever dereferenced. (The copy step
  needs the output buffer of its caller.) Other configurations can fail, see \<open>no_default_priority_undefined\<close>.
\<close>

theorem push_loop_safe:
  assumes "config_ok cfg" "reachable cb cfg s" "pc s = Copying \<Longrightarrow> in_out i \<noteq> None"
  shows "loop_step cb i (pc s) (mux s) \<noteq> None"
  using loop_good [of "mux s" "pc s" i cb] reachable_system_ok [OF assms(2,1)] assms(3)
  by (auto simp: system_ok_def)

text \<open>
  A call from another thread that names an existing pad never fails and keeps the
  pads and the policy well-formed, in every reachable state.
\<close>

lemma calls_safe:
  assumes "config_ok cfg" "reachable cb cfg s" "allowed c (mux s)"
  shows "\<exists>out new m'. call c (mux s) = Some (out, new, m') \<and> mux_wf m'"
  using call_good [of "mux s" c] reachable_system_ok [OF assms(2,1)] assms(3)
  by (auto simp: system_ok_def good_call_def)

text \<open>
  Property C4. Order and no duplication, end to end: in every reachable state, what went into
  batches from a source, followed by what is queued, is a subsequence of the buffers queued for
  it, and the same holds of its events. Nothing is lost either unless the pad was removed or the
  muxer stopped, except buffers that the synchronisation interface called late while a batch was
  formed: whatever is not one of those is there, in order. (The configuration is as in the property
  before.)
\<close>

theorem mux_fifo:
  assumes "config_ok cfg" "reachable cb cfg s"
  shows "subseq (sent s sid @ buf_q sid (mux s)) (filter is_buffer (fed s sid)) \<and>
    subseq (sent_events s sid @ ev_q sid (mux s)) (filter is_event (fed s sid)) \<and>
    (\<not> lossy s sid \<longrightarrow>
       filter (\<lambda>e. \<not> judged s sid e) (sent s sid @ buf_q sid (mux s)) =
         filter (\<lambda>e. \<not> judged s sid e) (filter is_buffer (fed s sid)) \<and>
       sent_events s sid @ ev_q sid (mux s) = filter is_event (fed s sid))"
  using reachable_system_ok [OF assms(2,1)] by (simp add: system_ok_def history_ok_def)

text \<open>
  Every batch formed in a reachable state respects its limits: its size is the
  current batch size of the muxer, its total does not exceed it, and every source in it has a pad
  with as many buffers as planned, within the limits per source.
\<close>

lemma formed_batch_ok:
  assumes "config_ok cfg" "reachable cb cfg s" "pc s = Forming"
  shows "\<exists>m' b. mux_form_batch env (mux s) = Some m' \<and> mux_batch m' = Some b \<and>
    batch_size b = mux_get_batch_size (mux s) \<and>
    batch_ok (inputs (mux s)) (batch_policy (mux s)) (b, batch_policy m', inputs m')"
proof -
  have "mux_wf (mux s)" "priority_list (batch_policy (mux s)) \<noteq> []"
    using reachable_system_ok [OF assms(2,1)] assms(3) by (simp_all add: system_ok_def)
  then show ?thesis using mux_form_batch_spec [of "mux s" env] by metis
qed

end
