(* ===== verification/MuxExamples.thy ===== *)
theory MuxExamples
  imports MuxLoop
begin

text \<open>
  Concrete pads, policies and schedules: the theorems about the muxer applied to them, and runs of
  the model that show behaviour worth knowing (a source that round robin skips, a pad that is
  removed early).
\<close>

section \<open>Data\<close>

definition ex_env :: policy_env where
  "ex_env = \<lparr>clock_at = (\<lambda>_. 0), ub_to_u32 = (\<lambda>_. 0), synch_info = (\<lambda>_. (BUFFER_TS_ONTIME, 0))\<rparr>"

definition ex_cfg :: BatchPolicyConfig where
  "ex_cfg = \<lparr>cfg_type = BATCH_METHOD_ROUND_ROBIN, adaptive_batching = True, cfg_batch_size = 2,
     overall_max_fps_n = 120, overall_max_fps_d = 1, overall_min_fps_n = 5, overall_min_fps_d = 1,
     max_same_source_frames = 1, enable_source_rate_control = False,
     enable_max_fps_control = False, source_props = []\<rparr>"

definition ex_buf :: "nat \<Rightarrow> QueueEntry" where
  "ex_buf n = new_BufferWrapper n BATCH_SEQUENCE_IN_BATCH"

definition ex_event :: "nat \<Rightarrow> QueueEntry" where
  "ex_event n = new_EventWrapper n BATCH_SEQUENCE_PRE_BATCH"

definition ex_pad :: "u32 \<Rightarrow> QueueEntry list \<Rightarrow> SinkPad" where
  "ex_pad i es = fold queue_entry es (new_SinkPad i)"

definition ex_pads :: pads where
  "ex_pads = [(1, Some (ex_pad 1 [ex_event 10, ex_buf 11, ex_buf 12])), (2, Some (ex_pad 2 [ex_buf 21]))]"

definition ex_bp :: BatchPolicy where
  "ex_bp = new_BatchPolicy ex_cfg ex_pads 0"

definition ex_mux :: NvStreamMux where
  "ex_mux = \<lparr>inputs = ex_pads, state = SOURCE_STATE_PLAYING, num_queues_empty = 0,
     num_sources_idle = 0, pads_got_eos_and_empty_in_q = 0, num_pads_eos = 0, mux_batch = None,
     current_play_start_time = 0, accum_play_dur = 0, frame_duration_nsec = 33, cur_frame_pts = 0,
     stop_task = False, extra_throttle_wait_time = 0, batch_policy = ex_bp,
     num_surfaces_per_frame = 1, all_pads_eos = False, got_first_buffer = True,
     frame_num_reset_on_eos = False, frame_num_reset_on_stream_reset = False,
     mux_synch_buffer = False\<rparr>"

text \<open>An output buffer that takes everything.\<close>

definition ex_copy :: "unit copy_fun" where
  "ex_copy ob e k = (1, ())"

lemmas ex_entry_defs = ex_buf_def ex_event_def new_BufferWrapper_def new_EventWrapper_def

lemmas ex_pad_defs = ex_pad_def new_SinkPad_def queue_entry_def push_buffer_done_def Let_def

lemma ex_pads_wf: "pads_wf ex_pads" "pads_ok ex_pads"
  by (simp_all add: pads_ok_def pads_wf_def ex_pads_def pad_wf_def ex_pad_defs ex_entry_defs)

lemma ex_bp_simps:
  "sources ex_bp = [(0, 1), (0, 2)]" "priority_list ex_bp = [0]" "config ex_bp = ex_cfg"
  "last_batch_state ex_bp = \<lparr>priority_list_position = 0, source_map_position = 0\<rparr>"
  "synch_buffer ex_bp = False" "num_sources_eos ex_bp = 0" "bp_num_surfaces_per_frame ex_bp = 1"
  by (simp_all add: ex_bp_def new_BatchPolicy_def Let_def ex_cfg_def ex_pads_def
      source_known_def add_default_source_def mm_insert_def sorted_insert_def
      NVSTREAMMUX_DEFAULT_SOURCE_GROUP_PRIORITY_def update_last_batch_time_def)

lemma ex_bp_wf: "policy_wf ex_bp" "position_ok ex_bp"
  by (simp_all add: policy_wf_def position_ok_def Let_def group_of_def ex_bp_simps)

lemma ex_mux_wf: "mux_wf ex_mux"
  using ex_bp_wf ex_pads_wf
  by (simp add: mux_wf_def policy_ok_def ex_mux_def ex_bp_simps
      NVSTREAMMUX_DEFAULT_SOURCE_GROUP_PRIORITY_def)

definition ex_input :: "unit loop_input" where
  "ex_input = \<lparr>in_env = ex_env, in_now = 0, in_later = 0, in_elapsed = 0, in_out = Some ()\<rparr>"

text \<open>A pad is added, an event and two buffers arrive, and the loop runs up to the push.\<close>

definition ex_moves :: "unit move list" where
  "ex_moves =
     [Call (Add_pad 1), Call (Handle_segment 1 (ex_event 10)), Call (Add_buffer_begin 1),
      Call (Add_buffer_commit 0 1 (ex_buf 11)), Loop ex_input, Loop ex_input,
      Call (Add_buffer_commit 0 1 (ex_buf 12)), Loop ex_input, Loop ex_input, Loop ex_input]"

definition ex_start :: mux_system where
  "ex_start = start ex_cfg 0 ex_mux False"

definition ex_system :: "mux_system option" where
  "ex_system = run ex_copy ex_moves ex_start"

lemma ex_cfg_ok: "config_ok ex_cfg"
  by (simp add: config_ok_def ex_cfg_def)

lemma ex_start_reachable: "reachable ex_copy ex_cfg ex_start"
  unfolding ex_start_def by (rule reachable.init)

lemma ex_run:
  "(case ex_system of None \<Rightarrow> False
    | Some s \<Rightarrow> pc s = Pushing \<and> sent s 1 = [ex_buf 11] \<and> sent_events s 1 = [ex_event 10] \<and>
        fed s 1 = [ex_event 10, ex_buf 11, ex_buf 12] \<and> buf_q 1 (mux s) = [ex_buf 12] \<and>
        \<not> lossy s 1)"
  by code_simp

section \<open>The theorems applied\<close>

lemma ex_system_reachable: "ex_system = Some s \<Longrightarrow> reachable ex_copy ex_cfg s"
  unfolding ex_system_def using ex_start_reachable by (rule run_reachable [rotated])

lemma ex_system_runs: "\<exists>s. ex_system = Some s \<and> pc s = Pushing \<and> fed s 1 = [ex_event 10, ex_buf 11, ex_buf 12] \<and>
    \<not> lossy s 1"
  using ex_run by (auto split: option.splits)

theorem form_batch_safe_witness:
  "\<exists>b bp' ins'. form_batch ex_env None 2 ex_bp ex_pads = Some (b, bp', ins') \<and> batch_size b = 2 \<and>
    batch_ok ex_pads ex_bp (b, bp', ins') \<and> policy_wf bp' \<and> position_ok bp'"
  using form_batch_safe [OF ex_bp_wf _ ex_pads_wf(1), of ex_env None 2] by (simp add: ex_bp_simps)

lemma ex_service_order: "service_order ex_bp = [1, 2]"
  by (simp add: service_order_def ex_bp_simps ex_cfg_def group_of_def)

lemma ex_offers: "offers ex_pads ex_bp (service_order ex_bp) = [(1, 1), (2, 1)]"
  unfolding ex_service_order
  by (simp add: ex_pads_def buffered_def ex_pad_defs ex_entry_defs source_limit_def ex_bp_simps
      ex_cfg_def check_repeats_of_source_def get_batch_size_def
      NVSTREAMMUX_DEFAULT_SOURCE_GROUP_MAX_FRAMES_PER_BATCH_def)

theorem form_batch_greedy_witness:
  "\<exists>b bp'. form_batch ex_env None 2 ex_bp ex_pads = Some (b, bp', ex_pads) \<and>
    map (\<lambda>p. (fst p, unat (snd p))) (num_sources b) = [(1, 1), (2, 1)] \<and> unat (acc_batch b) = 2"
proof -
  have "unat (2 :: u32) = 2" "greedy 2 [(1, 1), (2, 1)] = [(1, 1), (2, 1)]"
    "min 2 (sum_list (map snd [(1 :: u32, 1), (2, 1)])) = (2 :: nat)" by simp_all
  then show ?thesis
    using form_batch_greedy [OF ex_bp_wf _ ex_pads_wf(1), of 2 ex_env None, unfolded ex_offers]
    by (simp only: ex_bp_simps ex_cfg_def BatchPolicyConfig.simps list.simps not_False_eq_True
        simp_thms) (simp add: numeral_eq_iff)
qed

theorem form_batch_round_robin_witness:
  "\<exists>b bp' ins'. form_batch ex_env None 1 ex_bp ex_pads = Some (b, bp', ins') \<and>
    service_order bp' = rotate (visited ex_env (service_order ex_bp) (initial_batch None 1, ex_bp, ex_pads))
      (service_order ex_bp)"
  using form_batch_round_robin [OF ex_bp_wf, of 0 ex_env None 1 ex_pads]
  by (simp add: ex_bp_simps ex_cfg_def)

theorem new_BatchPolicy_wf_witness:
  "policy_wf (new_BatchPolicy ex_cfg ex_pads 0) \<and> position_ok (new_BatchPolicy ex_cfg ex_pads 0) \<and>
    snd ` set (sources (new_BatchPolicy ex_cfg ex_pads 0)) = {1, 2}"
  using new_BatchPolicy_wf [of ex_cfg ex_pads 0] by (simp add: ex_cfg_def ex_pads_def insert_commute)

theorem check_and_update_defaults_wf_witness:
  "policy_wf (check_and_update_defaults 3 ex_bp) \<and> position_ok (check_and_update_defaults 3 ex_bp) \<and>
    snd ` set (sources (check_and_update_defaults 3 ex_bp)) = {1, 2, 3}"
  using check_and_update_defaults_wf [OF ex_bp_wf(1), of 3] ex_bp_wf
  by (auto simp: ex_bp_simps NVSTREAMMUX_DEFAULT_SOURCE_GROUP_PRIORITY_def)

definition ex_late_env :: policy_env where
  "ex_late_env = ex_env\<lparr>synch_info :=
     (\<lambda>e. if wrapped e = 11 then (BUFFER_TS_LATE, 0) else (BUFFER_TS_ONTIME, 0))\<rparr>"

lemma synchronize_buffers_drops_late_witness:
  "\<exists>k p' bp' late. synchronize_buffers_in_pad ex_late_env
       (ex_pad 1 [ex_event 10, ex_buf 11, ex_buf 12]) 1 ex_bp = (k, p', bp', late) \<and>
     mset (queue (ex_pad 1 [ex_event 10, ex_buf 11, ex_buf 12])) = mset (queue p') + mset late \<and>
     late = [ex_buf 11]"
proof -
  let ?p = "ex_pad 1 [ex_event 10, ex_buf 11, ex_buf 12]"
  obtain k p' bp' late where r: "synchronize_buffers_in_pad ex_late_env ?p 1 ex_bp = (k, p', bp', late)"
    by (metis prod_cases4)
  then have "late = [ex_buf 11]"
    by (simp add: synchronize_buffers_in_pad_def ex_pad_defs ex_entry_defs ex_late_env_def)
  with r synchronize_buffers_drops_late [OF r] show ?thesis by blast
qed

lemma ex_mux_pads: "pad_at 1 ex_mux = Some (ex_pad 1 [ex_event 10, ex_buf 11, ex_buf 12])"
  by (simp add: pad_at_def ex_mux_def ex_pads_def)

theorem mux_push_events_front_witness:
  "events_of 1 (fst (mux_push_events ex_mux)) = [ex_event 10] \<and> mux_wf (snd (mux_push_events ex_mux))"
proof -
  obtain evs m' where r: "mux_push_events ex_mux = (evs, m')" by fastforce
  from mux_push_events_front [OF ex_mux_wf r ex_mux_pads] show ?thesis
    by (simp add: r ex_pad_defs ex_entry_defs)
qed

definition ex_batched :: NvStreamMux where
  "ex_batched = ex_mux\<lparr>mux_batch := Some \<lparr>num_sources = [(1, 1)], acc_batch = 1, batch_size = 1\<rparr>\<rparr>"

theorem copy_batch_fifo_witness:
  "\<exists>m' os. copy_batch ex_copy ex_env ex_batched () = Some (m', os) \<and>
    copied_for 1 (copied_log os) @ buf_q 1 m' = buf_q 1 ex_batched"
proof -
  have "mux_wf ex_batched" using ex_mux_wf by (simp add: mux_wf_def ex_batched_def ex_mux_def ex_bp_simps)
  moreover obtain m' os where r: "copy_batch ex_copy ex_env ex_batched () = Some (m', os)"
    by (cases "copy_batch ex_copy ex_env ex_batched ()") (auto simp: copy_batch_def ex_batched_def)
  ultimately have "copied_for 1 (copied_log os) @ buf_q 1 m' = buf_q 1 ex_batched"
    using copy_batch_fifo [of ex_batched ex_copy ex_env "()" m' os 1] by simp
  with r show ?thesis by blast
qed

lemma ex_mux_fields [simp]:
  "batch_policy ex_mux = ex_bp" "inputs ex_mux = ex_pads"
  by (simp_all add: ex_mux_def)

theorem form_and_copy_witness:
  "\<exists>m1 b m2 os. mux_form_batch ex_env ex_mux = Some m1 \<and> mux_batch m1 = Some b \<and>
    copy_batch ex_copy ex_env m1 () = Some (m2, os) \<and> length (copied_log os) = unat (acc_batch b)"
proof -
  have "unat (mux_get_batch_size ex_mux) < 2 ^ 31"
    by (simp add: mux_get_batch_size_def get_batch_size_def ex_bp_simps ex_cfg_def ex_pads_def)
  moreover have "priority_list (batch_policy ex_mux) \<noteq> []" by (simp add: ex_bp_simps)
  moreover have "fst (ex_copy ob e k) \<noteq> 0" for ob e k by (simp add: ex_copy_def)
  ultimately show ?thesis using form_and_copy [OF ex_mux_wf, of ex_copy ex_env ex_env "()"] by blast
qed

definition ex_eos_free :: NvStreamMux where
  "ex_eos_free = ex_mux\<lparr>inputs := [(1, Some (new_SinkPad 1)), (2, Some (ex_pad 2 [ex_buf 21]))]\<rparr>"

theorem remove_pad_keeps_batch_size_witness:
  "\<exists>m'. remove_pad 1 ex_eos_free = Some m' \<and> length (inputs m') = 1 \<and>
    mux_get_batch_size m' = 2 \<and> get_eos_sources (batch_policy m') = - 1"
proof -
  have "mux_wf ex_eos_free"
    using ex_mux_wf by (simp add: mux_wf_def ex_eos_free_def ex_bp_simps pads_ok_def pads_wf_def
        pad_wf_def ex_pad_defs ex_entry_defs)
  moreover have "pad_at 1 ex_eos_free = Some (new_SinkPad 1)"
    by (simp add: pad_at_def ex_eos_free_def)
  moreover have "queue (new_SinkPad 1) = []" "\<not> eos (new_SinkPad 1)"
    by (simp_all add: new_SinkPad_def)
  moreover have "adaptive_batching (config (batch_policy ex_eos_free))"
    by (simp add: ex_eos_free_def ex_bp_simps ex_cfg_def)
  ultimately obtain m' where "remove_pad 1 ex_eos_free = Some m'"
    "length (inputs ex_eos_free) = Suc (length (inputs m'))"
    "mux_get_batch_size m' = mux_get_batch_size ex_eos_free"
    "get_eos_sources (batch_policy m') = get_eos_sources (batch_policy ex_eos_free) - 1"
    using remove_pad_keeps_batch_size by blast
  moreover have "mux_get_batch_size ex_eos_free = 2" "length (inputs ex_eos_free) = 2"
    "get_eos_sources (batch_policy ex_eos_free) = 0"
    by (simp_all add: ex_eos_free_def mux_get_batch_size_def get_batch_size_def ex_bp_simps
        ex_cfg_def get_eos_sources_def)
  ultimately show ?thesis by auto
qed

definition ex_full :: NvStreamMux where
  "ex_full = ex_mux\<lparr>inputs :=
     [(1, Some ((ex_pad 1 [ex_buf 11, ex_buf 12])\<lparr>max_buffer_count := 1\<rparr>))]\<rparr>"

theorem stop_leaves_pad_full_witness:
  "\<exists>p'. pad_at 1 (handle_stop ex_full) = Some p' \<and> queue p' = [] \<and> wait_if_queue_full p'"
proof -
  let ?p = "(ex_pad 1 [ex_buf 11, ex_buf 12])\<lparr>max_buffer_count := 1\<rparr>"
  have "pad_at 1 ex_full = Some ?p" by (simp add: pad_at_def ex_full_def)
  moreover have "wait_if_queue_full ?p"
    by (simp add: wait_if_queue_full_def ex_pad_defs ex_entry_defs)
  ultimately show ?thesis by (rule stop_leaves_pad_full)
qed

theorem push_loop_safe_witness:
  "\<exists>s. ex_system = Some s \<and> loop_step ex_copy ex_input (pc s) (mux s) \<noteq> None"
proof -
  obtain s where s: "ex_system = Some s" using ex_system_runs by blast
  have "loop_step ex_copy ex_input (pc s) (mux s) \<noteq> None"
    by (rule push_loop_safe [OF ex_cfg_ok ex_system_reachable [OF s]]) (simp add: ex_input_def)
  with s show ?thesis by blast
qed

lemma calls_safe_witness:
  "\<exists>s out new m'. ex_system = Some s \<and> call Handle_stop (mux s) = Some (out, new, m') \<and> mux_wf m'"
proof -
  obtain s where s: "ex_system = Some s" using ex_system_runs by blast
  have "\<exists>out new m'. call Handle_stop (mux s) = Some (out, new, m') \<and> mux_wf m'"
    by (rule calls_safe [OF ex_cfg_ok ex_system_reachable [OF s]]) simp
  with s show ?thesis by blast
qed

text \<open>With a synchronisation interface that calls the first buffer late: it is dropped, the second one is not.\<close>

definition ex_late_input :: "unit loop_input" where
  "ex_late_input = ex_input\<lparr>in_env := ex_env\<lparr>synch_info := (\<lambda>e. if wrapped e = 11 then (BUFFER_TS_LATE, 0) else (BUFFER_TS_ONTIME, 0))\<rparr>\<rparr>"

definition ex_late :: "mux_system option" where
  "ex_late = run ex_copy
     [Call (Add_pad 1), Call (Add_buffer_begin 1), Call (Add_buffer_commit 0 1 (ex_buf 11)), Loop ex_late_input,
      Call (Add_buffer_commit 0 1 (ex_buf 12)), Loop ex_late_input, Loop ex_late_input] (start ex_cfg 0 ex_mux True)"

lemma ex_late_runs:
  "(case ex_late of None \<Rightarrow> False
    | Some s \<Rightarrow> fed s 1 = [ex_buf 11, ex_buf 12] \<and> sent s 1 @ buf_q 1 (mux s) = [ex_buf 12] \<and>
        judged s 1 (ex_buf 11) \<and> \<not> judged s 1 (ex_buf 12) \<and> \<not> lossy s 1)"
  by code_simp

theorem mux_fifo_witness:
  "\<exists>s. ex_late = Some s \<and> fed s 1 = [ex_buf 11, ex_buf 12] \<and>
    filter (\<lambda>e. \<not> judged s 1 e) (sent s 1 @ buf_q 1 (mux s)) = [ex_buf 12]"
proof -
  obtain s where s: "ex_late = Some s" "fed s 1 = [ex_buf 11, ex_buf 12]" "judged s 1 (ex_buf 11)" "\<not> judged s 1 (ex_buf 12)"
      "\<not> lossy s 1"
    using ex_late_runs by (auto split: option.splits)
  have "reachable ex_copy ex_cfg s"
    using s(1) reachable.init unfolding ex_late_def by (rule run_reachable)
  moreover have "filter is_buffer (fed s 1) = [ex_buf 11, ex_buf 12]" unfolding s(2) by (simp add: ex_entry_defs)
  ultimately have "filter (\<lambda>e. \<not> judged s 1 e) (sent s 1 @ buf_q 1 (mux s)) = [ex_buf 12]"
    using mux_fifo [OF ex_cfg_ok, of ex_copy s 1] s by simp
  with s(1,2) show ?thesis by blast
qed

definition ex_forming :: "mux_system option" where
  "ex_forming = run ex_copy (take 6 ex_moves) ex_start"

lemma ex_forming_runs: "case ex_forming of None \<Rightarrow> False | Some s \<Rightarrow> pc s = Forming"
  by code_simp

lemma formed_batch_ok_witness:
  "\<exists>s m' b. ex_forming = Some s \<and> mux_form_batch ex_env (mux s) = Some m' \<and>
    mux_batch m' = Some b \<and> batch_size b = mux_get_batch_size (mux s)"
proof -
  obtain s where s: "ex_forming = Some s" "pc s = Forming"
    using ex_forming_runs by (auto split: option.splits)
  have "reachable ex_copy ex_cfg s"
    using s(1) ex_start_reachable unfolding ex_forming_def by (rule run_reachable)
  from formed_batch_ok [OF ex_cfg_ok this s(2), of ex_env] s(1) show ?thesis by blast
qed

section \<open>A stale position\<close>

text \<open>Two sources of priority 1 are configured, round robin has served one; then source 7 arrives.\<close>

definition ex_stale_cfg :: BatchPolicyConfig where
  "ex_stale_cfg = ex_cfg\<lparr>source_props :=
     [(5, default_source_props\<lparr>priority := 1\<rparr>), (6, default_source_props\<lparr>priority := 1\<rparr>)]\<rparr>"

definition ex_stale_pads :: pads where
  "ex_stale_pads = [(5, Some (ex_pad 5 [ex_buf 51])), (6, Some (ex_pad 6 [ex_buf 61])),
                    (7, Some (ex_pad 7 [ex_buf 71]))]"

definition ex_stale_bp :: BatchPolicy where
  "ex_stale_bp = (new_BatchPolicy ex_stale_cfg [] 0)\<lparr>last_batch_state :=
     \<lparr>priority_list_position = 0, source_map_position = 1\<rparr>\<rparr>"

text \<open>
  The saved position of round robin can become stale. Sources 5 and 6 have priority
  1, and the last batch stopped behind 5; then source 7 arrives, with the default priority 0. The
  new priority takes the first place in the list, the saved position names it, and the next batch
  starts outside its group: source 7 gets nothing, although it has the best priority, holds a
  buffer and the batch of size 3 has room for it.
\<close>

lemma stale_position_skips_source:
  "position_ok ex_stale_bp \<and>
   \<not> position_ok (check_and_update_defaults 7 ex_stale_bp) \<and>
   buffered ex_stale_pads 7 = 1 \<and>
   (case form_batch ex_env None 3 (check_and_update_defaults 7 ex_stale_bp) ex_stale_pads of
      None \<Rightarrow> False
    | Some (b, _, _) \<Rightarrow> num_sources b = [(5, 1), (6, 1)] \<and> acc_batch b = 2)"
  by (intro conjI; code_simp)

section \<open>No source of the default priority\<close>

text \<open>
  With such a configuration \<open>config_ok\<close> fails: both sources have priority -1. A batch that ends in the second
  source leaves a position behind that is outside of the group of a new source with the default priority, and
  the next batch dereferences the end of the group.
\<close>

definition ex_odd_cfg :: BatchPolicyConfig where
  "ex_odd_cfg = ex_cfg\<lparr>source_props :=
     [(5, default_source_props\<lparr>priority := - 1\<rparr>), (6, default_source_props\<lparr>priority := - 1\<rparr>)]\<rparr>"

definition ex_odd :: "mux_system option" where
  "ex_odd = run ex_copy
     ([Call (Add_pad 5), Call (Add_buffer_begin 5), Call (Add_buffer_commit 0 5 (ex_buf 51))] @
      replicate 9 (Loop ex_input) @ [Call (Add_pad 7), Loop ex_input, Loop ex_input])
     (start ex_odd_cfg 0 ex_mux False)"

lemma ex_odd_runs:
  "(case ex_odd of None \<Rightarrow> False | Some s \<Rightarrow> pc s = Forming \<and> loop_step ex_copy ex_input Forming (mux s) = None)"
  by code_simp

lemma no_default_priority_undefined:
  "\<exists>s. reachable ex_copy ex_odd_cfg s \<and> loop_step ex_copy ex_input (pc s) (mux s) = None"
proof -
  obtain s where s: "ex_odd = Some s" "pc s = Forming" "loop_step ex_copy ex_input Forming (mux s) = None"
    using ex_odd_runs by (auto split: option.splits)
  have "reachable ex_copy ex_odd_cfg s"
    using s(1) reachable.init unfolding ex_odd_def by (rule run_reachable)
  with s show ?thesis by metis
qed

end
