(* ===== verification/MuxTimeSync.thy ===== *)
theory MuxTimeSync
  imports MuxBatchProps
begin

text \<open>
  The provider of the synchronisation interface, \<open>NvTimeSync\<close>:
  \<open>src/sources/gst-plugins/gst-nvmultistream2/gstnvtimesynch.cpp\<close> and \<open>gstnvtimesynch.h\<close>. It tells
  the batch policy whether a buffer is early, on time or late against the clock of the pipeline.

  The GStreamer element and its clock are outside of the repository: \<open>gst_env\<close> holds what the code
  asks of them. Times are unsigned 64 bit integers; \<open>GST_CLOCK_TIME_NONE\<close> has all bits set.
\<close>

section \<open>Data\<close>

definition GST_CLOCK_TIME_NONE :: u64 where
  "GST_CLOCK_TIME_NONE = - 1"

record 'seg gst_env =
  is_element :: bool
  element_base_time :: u64
  element_clock :: "u64 option"
  state_playing :: bool
  segment_to_running_time :: "'seg \<Rightarrow> u64 \<Rightarrow> u64"

text \<open>
  A null pointer in \<open>segments\<close> is \<open>None\<close>; reading \<open>segments[id]\<close> inserts it for an unknown id.
\<close>

record 'seg NvTimeSync =
  pipelineLatency :: u64
  upstreamLatency :: u64
  minFpsDuration :: u64
  bufferWasEarlyByTime :: u64
  segments :: "(u32 \<times> 'seg option) list"

section \<open>Operations\<close>

text \<open>The constructor does not initialise \<open>bufferWasEarlyByTime\<close>; it keeps what memory holds.\<close>

definition new_NvTimeSync :: "u64 \<Rightarrow> 'seg NvTimeSync" where
  "new_NvTimeSync mem =
     \<lparr>pipelineLatency = 0, upstreamLatency = 0, minFpsDuration = 0, bufferWasEarlyByTime = mem,
      segments = []\<rparr>"

definition gst_get_current_clock_time :: "'seg gst_env \<Rightarrow> u64" where
  "gst_get_current_clock_time g =
     (if \<not> is_element g then GST_CLOCK_TIME_NONE
      else case element_clock g of None \<Rightarrow> GST_CLOCK_TIME_NONE | Some t \<Rightarrow> t)"

definition GetCurrentRunningTime :: "'seg gst_env \<Rightarrow> u64" where
  "GetCurrentRunningTime g =
     (if \<not> is_element g then GST_CLOCK_TIME_NONE
      else
        let base_time = element_base_time g
        in if base_time = GST_CLOCK_TIME_NONE then GST_CLOCK_TIME_NONE
           else
             let clock_time = gst_get_current_clock_time g
             in if clock_time = GST_CLOCK_TIME_NONE then GST_CLOCK_TIME_NONE
                else if clock_time < base_time then GST_CLOCK_TIME_NONE
                else if base_time = 0 \<and> \<not> state_playing g then 0
                else clock_time - base_time)"

text \<open>\<open>gst_segment_copy_into\<close> copies the value.\<close>

definition SetSegment :: "u32 \<Rightarrow> 'seg \<Rightarrow> 'seg NvTimeSync \<Rightarrow> 'seg NvTimeSync" where
  "SetSegment stream_id segment ts = ts\<lparr>segments := AList.update stream_id (Some segment) (segments ts)\<rparr>"

definition SetPipelineLatency :: "u64 \<Rightarrow> 'seg NvTimeSync \<Rightarrow> 'seg NvTimeSync" where
  "SetPipelineLatency latency ts = ts\<lparr>pipelineLatency := latency\<rparr>"

definition SetUpstreamLatency :: "u64 \<Rightarrow> 'seg NvTimeSync \<Rightarrow> 'seg NvTimeSync" where
  "SetUpstreamLatency latency ts = ts\<lparr>upstreamLatency := latency\<rparr>"

definition GetUpstreamLatency :: "'seg NvTimeSync \<Rightarrow> u64" where
  "GetUpstreamLatency ts = upstreamLatency ts"

text \<open>The conversion of a float that is out of range is left to \<open>ub\<close>.\<close>

definition SetOperatingMinFpsDuration ::
  "(dbl \<Rightarrow> u64) \<Rightarrow> dbl \<Rightarrow> 'seg NvTimeSync \<Rightarrow> 'seg NvTimeSync" where
  "SetOperatingMinFpsDuration ub d ts =
     ts\<lparr>minFpsDuration :=
         (case d of
            Fin x \<Rightarrow> if 0 \<le> rat_trunc x \<and> rat_trunc x < 2 ^ 64 then of_int (rat_trunc x) else ub d
          | _ \<Rightarrow> ub d)\<rparr>"

text \<open>The macro \<open>PTS_TO_RUNNING_TIME\<close>.\<close>

definition PTS_TO_RUNNING_TIME ::
  "'seg gst_env \<Rightarrow> u64 \<Rightarrow> u32 \<Rightarrow> 'seg NvTimeSync \<Rightarrow> u64 \<times> 'seg NvTimeSync" where
  "PTS_TO_RUNNING_TIME g pts stream_id ts =
     (let ts' = ts\<lparr>segments := al_touch None stream_id (segments ts)\<rparr>
      in (case al_get None stream_id (segments ts') of
            None \<Rightarrow> pts
          | Some seg \<Rightarrow> segment_to_running_time g seg pts, ts'))"

definition GetBufferRunningTime ::
  "'seg gst_env \<Rightarrow> u64 \<Rightarrow> u32 \<Rightarrow> 'seg NvTimeSync \<Rightarrow> u64 \<times> 'seg NvTimeSync" where
  "GetBufferRunningTime g pts stream_id ts = PTS_TO_RUNNING_TIME g pts stream_id ts"

text \<open>A buffer is given by its time stamp and the id of its stream.\<close>

definition get_synch_info ::
  "'seg gst_env \<Rightarrow> u64 \<Rightarrow> u32 \<Rightarrow> 'seg NvTimeSync \<Rightarrow> BUFFER_TS_STATUS \<times> 'seg NvTimeSync" where
  "get_synch_info g pts stream_id ts =
     (let (buffer_running_time, ts1) = PTS_TO_RUNNING_TIME g pts stream_id ts;
          current_running_time = GetCurrentRunningTime g;
          ts2 = ts1\<lparr>bufferWasEarlyByTime := 0\<rparr>
      in if current_running_time = GST_CLOCK_TIME_NONE \<or> current_running_time < minFpsDuration ts2
         then (BUFFER_TS_ONTIME, ts2)
         else if current_running_time - minFpsDuration ts2 < buffer_running_time
         then (BUFFER_TS_EARLY,
               if current_running_time < buffer_running_time
               then ts2\<lparr>bufferWasEarlyByTime := buffer_running_time - current_running_time\<rparr> else ts2)
         else if buffer_running_time + upstreamLatency ts2 < current_running_time - minFpsDuration ts2
         then (BUFFER_TS_LATE, ts2)
         else (BUFFER_TS_ONTIME, ts2))"

definition get_buffer_earlyby_time :: "'seg NvTimeSync \<Rightarrow> dbl" where
  "get_buffer_earlyby_time ts = dbl_of_u64 (bufferWasEarlyByTime ts)"

section \<open>The window of on-time buffers\<close>

definition running_time :: "'seg gst_env \<Rightarrow> u64 \<Rightarrow> u32 \<Rightarrow> 'seg NvTimeSync \<Rightarrow> u64" where
  "running_time g pts sid ts =
     (case map_of (segments ts) sid of Some (Some s) \<Rightarrow> segment_to_running_time g s pts | _ \<Rightarrow> pts)"

lemma PTS_TO_RUNNING_TIME_eq:
  "PTS_TO_RUNNING_TIME g pts sid ts =
     (running_time g pts sid ts, ts\<lparr>segments := al_touch None sid (segments ts)\<rparr>)"
  by (auto simp: PTS_TO_RUNNING_TIME_def running_time_def Let_def al_get_def map_of_al_touch
      split: option.splits)

text \<open>The current running time is the clock minus the base time, when both are known.\<close>

lemma GetCurrentRunningTime_eq:
  assumes "is_element g" "element_base_time g \<noteq> GST_CLOCK_TIME_NONE" "element_clock g = Some t"
    and "t \<noteq> GST_CLOCK_TIME_NONE" "element_base_time g \<le> t" "element_base_time g \<noteq> 0 \<or> state_playing g"
  shows "unat (GetCurrentRunningTime g) = unat t - unat (element_base_time g)"
  using assms by (auto simp: GetCurrentRunningTime_def gst_get_current_clock_time_def Let_def
      unat_sub_le not_less)

lemma unat_plus_u64:
  fixes a b :: u64
  assumes "unat a + unat b < 2 ^ 64"
  shows "unat (a + b) = unat a + unat b"
  using assms by (simp add: unat_word_ariths)

text \<open>
  When the clock is running and has passed the minimum frame duration, and as long as
  running time and latency do not overflow, a buffer is late exactly if its running time plus the
  upstream latency lies before the window that ends at the current time less the minimum frame
  duration, early exactly if it lies behind that point, and on time otherwise. The early-by time
  is how far it is ahead of the current time, and 0 for any other buffer.
\<close>

lemma get_synch_info_window:
  assumes "GetCurrentRunningTime g \<noteq> GST_CLOCK_TIME_NONE"
    and "minFpsDuration ts \<le> GetCurrentRunningTime g"
    and "unat (running_time g pts sid ts) + unat (upstreamLatency ts) < 2 ^ 64"
  shows "let rt = unat (running_time g pts sid ts); cur = unat (GetCurrentRunningTime g);
             edge = cur - unat (minFpsDuration ts);
             (status, ts') = get_synch_info g pts sid ts
         in (status = BUFFER_TS_EARLY \<longleftrightarrow> edge < rt) \<and>
            (status = BUFFER_TS_LATE \<longleftrightarrow> rt + unat (upstreamLatency ts) < edge) \<and>
            (status = BUFFER_TS_ONTIME \<longleftrightarrow> rt \<le> edge \<and> edge \<le> rt + unat (upstreamLatency ts)) \<and>
            unat (bufferWasEarlyByTime ts') = rt - cur"
proof -
  let ?rt = "running_time g pts sid ts" and ?cur = "GetCurrentRunningTime g"
  let ?edge = "?cur - minFpsDuration ts"
  have edge: "unat ?edge = unat ?cur - unat (minFpsDuration ts)"
    by (rule unat_sub_le [OF assms(2)])
  have late: "?rt + upstreamLatency ts < ?edge \<longleftrightarrow>
      unat ?rt + unat (upstreamLatency ts) < unat ?cur - unat (minFpsDuration ts)"
    by (simp only: word_less_nat_alt edge unat_plus_u64 [OF assms(3)])
  have early: "?edge < ?rt \<longleftrightarrow> unat ?cur - unat (minFpsDuration ts) < unat ?rt"
    by (simp only: word_less_nat_alt edge)
  have ahead: "unat (?rt - ?cur) = unat ?rt - unat ?cur" if "?cur < ?rt"
    using that by (intro unat_sub_le) simp
  have zero: "unat ?rt - unat ?cur = 0" if "\<not> ?cur < ?rt"
    using that by (simp add: word_less_nat_alt)
  have zero': "unat ?rt - unat ?cur = 0" if "\<not> ?edge < ?rt"
    using that early by linarith
  have step: "get_synch_info g pts sid ts =
    (if ?edge < ?rt
     then (BUFFER_TS_EARLY, ts\<lparr>segments := al_touch None sid (segments ts), bufferWasEarlyByTime :=
             (if ?cur < ?rt then ?rt - ?cur else 0)\<rparr>)
     else if ?rt + upstreamLatency ts < ?edge
     then (BUFFER_TS_LATE, ts\<lparr>segments := al_touch None sid (segments ts), bufferWasEarlyByTime := 0\<rparr>)
     else (BUFFER_TS_ONTIME, ts\<lparr>segments := al_touch None sid (segments ts), bufferWasEarlyByTime := 0\<rparr>))"
  proof -
    have "\<not> (?cur = GST_CLOCK_TIME_NONE \<or> ?cur < minFpsDuration ts)"
      using assms(1,2) by auto
    then show ?thesis
      by (simp only: get_synch_info_def PTS_TO_RUNNING_TIME_eq Let_def prod.case
          NvTimeSync.simps NvTimeSync.update_convs if_False if_True simp_thms split: if_split) simp
  qed
  show ?thesis
  proof (cases "?edge < ?rt")
    case True
    then show ?thesis using ahead zero early unfolding step Let_def by auto
  next
    case False
    then show ?thesis using zero' early late unfolding step Let_def by auto
  qed
qed

section \<open>The synchronisation interface\<close>

text \<open>
  What the loop over a pad relies on: as running time grows a buffer is first late, then on time,
  then early. The late test adds the latency to the running time, so its law is about the
  buffers for which this sum \<open>fits\<close>.
\<close>

locale sync_source =
  fixes info :: "QueueEntry \<Rightarrow> BUFFER_TS_STATUS \<times> dbl"
    and time_of :: "QueueEntry \<Rightarrow> nat"
    and fits :: "QueueEntry \<Rightarrow> bool"
  assumes early_up: "fst (info e) = BUFFER_TS_EARLY \<Longrightarrow> time_of e \<le> time_of e' \<Longrightarrow>
      fst (info e') = BUFFER_TS_EARLY"
    and late_down: "fst (info e) = BUFFER_TS_LATE \<Longrightarrow> time_of e' \<le> time_of e \<Longrightarrow> fits e \<Longrightarrow> fits e' \<Longrightarrow>
      fst (info e') = BUFFER_TS_LATE"
begin

definition is_late :: "QueueEntry \<Rightarrow> bool" where
  "is_late e \<longleftrightarrow> is_buffer e \<and> fst (info e) = BUFFER_TS_LATE"

definition is_ontime :: "QueueEntry \<Rightarrow> bool" where
  "is_ontime e \<longleftrightarrow> is_buffer e \<and> fst (info e) = BUFFER_TS_ONTIME"

definition in_order :: "QueueEntry list \<Rightarrow> bool" where
  "in_order q \<longleftrightarrow> sorted (map time_of (filter is_buffer q)) \<and> (\<forall>e \<in> set q. is_buffer e \<longrightarrow> fits e)"

lemma in_order_Cons:
  "in_order (e # q) \<longleftrightarrow> in_order q \<and>
     (is_buffer e \<longrightarrow> fits e \<and> (\<forall>x \<in> set q. is_buffer x \<longrightarrow> time_of e \<le> time_of x))"
  by (auto simp: in_order_def)

lemma none_late:
  assumes "in_order (e # q)" "is_buffer e" "fst (info e) \<noteq> BUFFER_TS_LATE"
  shows "filter is_late q = []" "filter (\<lambda>x. \<not> is_late x) q = q"
proof -
  have no: "\<not> is_late x" if x: "x \<in> set q" for x
  proof
    assume "is_late x"
    then have b: "is_buffer x" and l: "fst (info x) = BUFFER_TS_LATE" by (simp_all add: is_late_def)
    have "time_of e \<le> time_of x" "fits e" "fits x"
      using assms(1,2) x b by (simp_all add: in_order_Cons in_order_def)
    with assms(3) late_down [OF l] show False by simp
  qed
  then show "filter is_late q = []" "filter (\<lambda>x. \<not> is_late x) q = q"
    by (simp_all add: filter_id_conv filter_empty_conv)
qed

lemma none_ontime:
  assumes "in_order (e # q)" "is_buffer e" "fst (info e) = BUFFER_TS_EARLY"
  shows "filter is_ontime q = []"
proof -
  have "\<not> is_ontime x" if "x \<in> set q" for x
    using assms that early_up [of e x] by (auto simp: in_order_Cons is_ontime_def)
  then show ?thesis by (simp add: filter_empty_conv)
qed

text \<open>On a queue in order the loop is a partition of the queue.\<close>

lemma loop_partitions:
  assumes "synch_info env = info" "in_order q" "n \<noteq> 0"
    and "synchronize_loop env n m q = (k, m', kept, late)"
  shows "late = filter is_late q \<and> kept = filter (\<lambda>e. \<not> is_late e) q \<and>
    unat k = min (unat n) (length (filter is_ontime q))"
  using assms(2-4)
proof (induction q arbitrary: n k kept late)
  case (Cons e q)
  have q: "in_order q" using Cons.prems(1) by (simp add: in_order_Cons)
  from Cons.prems(3) show ?case
  proof (cases rule: synchronize_loop_ConsE)
    case stop
    with Cons.prems(2) assms(1) have e: "is_buffer e" "fst (info e) = BUFFER_TS_EARLY" by auto
    then have "\<not> is_late e" "\<not> is_ontime e" "fst (info e) \<noteq> BUFFER_TS_LATE"
      by (simp_all add: is_late_def is_ontime_def)
    with none_late [OF Cons.prems(1) e(1)] none_ontime [OF Cons.prems(1) e] stop show ?thesis
      by simp
  next
    case (event kept')
    then have "\<not> is_late e" "\<not> is_ontime e" by (simp_all add: is_late_def is_ontime_def)
    with Cons.IH [OF q Cons.prems(2) event(2)] event(3) show ?thesis by simp
  next
    case (late late')
    then have "is_late e" "\<not> is_ontime e" using assms(1) by (simp_all add: is_late_def is_ontime_def)
    with Cons.IH [OF q Cons.prems(2) late(3)] late(4) show ?thesis by simp
  next
    case (ontime k' kept')
    have here: "\<not> is_late e" "is_ontime e" and "fst (info e) \<noteq> BUFFER_TS_LATE"
      using ontime(2,3) assms(1) by (simp_all add: is_late_def is_ontime_def)
    note rest = none_late [OF Cons.prems(1) ontime(2) this(3)]
    have k: "unat k = Suc (unat k')"
      using synchronize_loop_count [OF ontime(4)] ontime(1,5) unat_Suc_u32 [of k' n] by simp
    have n1: "unat (n - 1) = unat n - 1" "0 < unat n"
      using ontime(1) by (simp_all add: unat_minus_one unat_gt_0)
    show ?thesis
    proof (cases "n - 1 = 0")
      case True
      have "kept' = q \<and> k' = 0 \<and> late = []"
        using ontime(4) unfolding True by (cases q) auto
      moreover have "unat n = 1" using n1 True by simp
      ultimately show ?thesis using here rest k ontime(6) by simp
    next
      case False
      with Cons.IH [OF q False ontime(4)] here rest k n1 ontime(6) show ?thesis by simp
    qed
  qed
qed (simp add: is_late_def)

lemma pad_partition:
  assumes "synch_info env = info"
    and "sorted (map time_of (filter is_buffer (queue p)))"
    and "\<forall>e \<in> set (queue p). is_buffer e \<longrightarrow> fits e"
    and "n \<noteq> 0"
    and "synchronize_buffers_in_pad env p n bp = (k, p', bp', late)"
  shows "late = filter (\<lambda>e. is_buffer e \<and> fst (info e) = BUFFER_TS_LATE) (queue p) \<and>
    queue p' = filter (\<lambda>e. \<not> (is_buffer e \<and> fst (info e) = BUFFER_TS_LATE)) (queue p) \<and>
    unat k = min (unat n)
      (length (filter (\<lambda>e. is_buffer e \<and> fst (info e) = BUFFER_TS_ONTIME) (queue p)))"
proof -
  obtain m kept where loop:
    "synchronize_loop env n (min_early_buffer_dur bp) (queue p) = (k, m, kept, late)"
    and "queue p' = kept"
    using assms(5) by (auto simp: synchronize_buffers_in_pad_def fold_pop_buffer_done
        split: prod.splits)
  with loop_partitions [OF assms(1) _ assms(4) loop] assms(2,3) show ?thesis
    by (simp add: in_order_def is_late_def [abs_def] is_ontime_def [abs_def])
qed

end

text \<open>
  The time stamp of a wrapped \<open>GstBuffer\<close> is \<open>pts\<close>; all buffers of a pad carry the id \<open>sid\<close> of its
  stream.
\<close>

definition sync_info_of ::
  "'seg gst_env \<Rightarrow> (nat \<Rightarrow> u64) \<Rightarrow> u32 \<Rightarrow> 'seg NvTimeSync \<Rightarrow> QueueEntry \<Rightarrow> BUFFER_TS_STATUS \<times> dbl"
where
  "sync_info_of g pts sid ts e =
     (case get_synch_info g (pts (wrapped e)) sid ts of (status, ts') \<Rightarrow> (status, get_buffer_earlyby_time ts'))"

definition entry_time :: "'seg gst_env \<Rightarrow> (nat \<Rightarrow> u64) \<Rightarrow> u32 \<Rightarrow> 'seg NvTimeSync \<Rightarrow> QueueEntry \<Rightarrow> nat" where
  "entry_time g pts sid ts e = unat (running_time g (pts (wrapped e)) sid ts)"

definition entry_fits :: "'seg gst_env \<Rightarrow> (nat \<Rightarrow> u64) \<Rightarrow> u32 \<Rightarrow> 'seg NvTimeSync \<Rightarrow> QueueEntry \<Rightarrow> bool" where
  "entry_fits g pts sid ts e \<longleftrightarrow> entry_time g pts sid ts e + unat (upstreamLatency ts) < 2 ^ 64"

text \<open>The status as a function of the running time alone.\<close>

definition status_at :: "u64 \<Rightarrow> u64 \<Rightarrow> u64 \<Rightarrow> u64 \<Rightarrow> BUFFER_TS_STATUS" where
  "status_at cur dur up rt =
     (if cur = GST_CLOCK_TIME_NONE \<or> cur < dur then BUFFER_TS_ONTIME
      else if cur - dur < rt then BUFFER_TS_EARLY
      else if rt + up < cur - dur then BUFFER_TS_LATE else BUFFER_TS_ONTIME)"

lemma get_synch_info_status:
  "fst (get_synch_info g pts sid ts) =
     status_at (GetCurrentRunningTime g) (minFpsDuration ts) (upstreamLatency ts) (running_time g pts sid ts)"
  by (simp only: get_synch_info_def PTS_TO_RUNNING_TIME_eq Let_def prod.case NvTimeSync.simps
      NvTimeSync.update_convs status_at_def fst_conv split: if_split) simp

lemma status_at_early_up:
  "status_at cur dur up rt = BUFFER_TS_EARLY \<Longrightarrow> rt \<le> rt' \<Longrightarrow> status_at cur dur up rt' = BUFFER_TS_EARLY"
  by (auto simp: status_at_def split: if_splits)

lemma status_at_late_down:
  assumes "status_at cur dur up rt = BUFFER_TS_LATE" "rt' \<le> rt"
    and "unat rt + unat up < 2 ^ 64" "unat rt' + unat up < 2 ^ 64"
  shows "status_at cur dur up rt' = BUFFER_TS_LATE"
proof -
  have le: "rt' + up \<le> rt + up"
    using assms(2) unfolding word_le_nat_alt by (simp only: unat_plus_u64 [OF assms(3)] unat_plus_u64 [OF assms(4)])
  have "\<not> (cur = GST_CLOCK_TIME_NONE \<or> cur < dur)" "\<not> cur - dur < rt" "rt + up < cur - dur"
    using assms(1) by (auto simp: status_at_def split: if_splits)
  then have "\<not> (cur = GST_CLOCK_TIME_NONE \<or> cur < dur)" "\<not> cur - dur < rt'" "rt' + up < cur - dur"
    using le assms(2) by auto
  then show ?thesis by (simp add: status_at_def)
qed

lemma fst_sync_info_of:
  "fst (sync_info_of g pts sid ts e) =
     status_at (GetCurrentRunningTime g) (minFpsDuration ts) (upstreamLatency ts)
       (running_time g (pts (wrapped e)) sid ts)"
  by (simp add: sync_info_of_def get_synch_info_status split: prod.split) (metis fst_conv get_synch_info_status)

interpretation nts: sync_source "sync_info_of g pts sid ts" "entry_time g pts sid ts" "entry_fits g pts sid ts"
  for g :: "'seg gst_env" and pts sid and ts :: "'seg NvTimeSync"
proof unfold_locales
  fix e e'
  assume "entry_time g pts sid ts e \<le> entry_time g pts sid ts e'"
  then have le: "running_time g (pts (wrapped e)) sid ts \<le> running_time g (pts (wrapped e')) sid ts"
    by (simp only: entry_time_def word_le_nat_alt)
  show "fst (sync_info_of g pts sid ts e') = BUFFER_TS_EARLY"
    if "fst (sync_info_of g pts sid ts e) = BUFFER_TS_EARLY"
    using that le status_at_early_up unfolding fst_sync_info_of by blast
next
  fix e e'
  assume "entry_time g pts sid ts e' \<le> entry_time g pts sid ts e"
  then have le: "running_time g (pts (wrapped e')) sid ts \<le> running_time g (pts (wrapped e)) sid ts"
    by (simp only: entry_time_def word_le_nat_alt)
  show "fst (sync_info_of g pts sid ts e') = BUFFER_TS_LATE"
    if "fst (sync_info_of g pts sid ts e) = BUFFER_TS_LATE" "entry_fits g pts sid ts e" "entry_fits g pts sid ts e'"
    using that le status_at_late_down unfolding fst_sync_info_of entry_fits_def entry_time_def by blast
qed

section \<open>Properties\<close>

text \<open>
  Property C18. With the clock standing still during the call, buffers of a pad in the order of their
  running times and no overflow, the synchronisation of a pad with \<open>NvTimeSync\<close> is a partition: the
  late buffers are removed, everything else is kept in order, and the number reported is that of
  the on-time buffers, up to the number asked for.
\<close>

theorem synchronize_buffers_partition:
  assumes "synch_info env = sync_info_of g pts sid ts"
    and "sorted (map (entry_time g pts sid ts) (filter is_buffer (queue p)))"
    and "\<forall>e \<in> set (queue p). is_buffer e \<longrightarrow> entry_fits g pts sid ts e"
    and "n \<noteq> 0"
    and "synchronize_buffers_in_pad env p n bp = (k, p', bp', late)"
  shows "late = filter (\<lambda>e. is_buffer e \<and> fst (synch_info env e) = BUFFER_TS_LATE) (queue p) \<and>
    queue p' = filter (\<lambda>e. \<not> (is_buffer e \<and> fst (synch_info env e) = BUFFER_TS_LATE)) (queue p) \<and>
    unat k = min (unat n)
      (length (filter (\<lambda>e. is_buffer e \<and> fst (synch_info env e) = BUFFER_TS_ONTIME) (queue p)))"
  using nts.pad_partition [OF assms(1-5)] unfolding assms(1) .

text \<open>
  \<open>upstreamLatency\<close> is added to the running time at 64 bits. The largest latency, which
  should let every buffer pass, wraps around: a buffer is then late exactly if its running time is
  positive and not early.
\<close>

lemma unlimited_latency_drops:
  assumes "GetCurrentRunningTime g \<noteq> GST_CLOCK_TIME_NONE"
    and "minFpsDuration ts \<le> GetCurrentRunningTime g"
    and "upstreamLatency ts = GST_CLOCK_TIME_NONE"
  shows "fst (get_synch_info g pts sid ts) = BUFFER_TS_LATE \<longleftrightarrow>
    0 < running_time g pts sid ts \<and>
    running_time g pts sid ts \<le> GetCurrentRunningTime g - minFpsDuration ts"
proof -
  let ?rt = "running_time g pts sid ts" and ?edge = "GetCurrentRunningTime g - minFpsDuration ts"
  have wrap: "?rt - 1 < ?edge \<longleftrightarrow> ?rt \<le> ?edge" if "?rt \<noteq> 0"
  proof -
    have "unat (?rt - 1) = unat ?rt - 1" "0 < unat ?rt"
      using that by (simp_all add: unat_minus_one unat_gt_0)
    then show ?thesis unfolding word_less_nat_alt word_le_nat_alt by linarith
  qed
  show ?thesis
    using assms wrap unfolding get_synch_info_status status_at_def
    by (cases "?rt = 0") (auto simp: GST_CLOCK_TIME_NONE_def not_less word_gt_0)
qed

section \<open>The theorems applied\<close>

text \<open>A playing pipeline at running time 100; buffers carry their running time.\<close>

definition ex_gst :: "unit gst_env" where
  "ex_gst = \<lparr>is_element = True, element_base_time = 7, element_clock = Some 107, state_playing = True,
     segment_to_running_time = (\<lambda>_ pts. pts)\<rparr>"

definition ex_ts :: "u64 \<Rightarrow> unit NvTimeSync" where
  "ex_ts up = \<lparr>pipelineLatency = 0, upstreamLatency = up, minFpsDuration = 20, bufferWasEarlyByTime = 5,
     segments = [(1, Some ())]\<rparr>"

definition ex_pts :: "nat \<Rightarrow> u64" where
  "ex_pts n = of_nat n"

definition ex_sync_env :: policy_env where
  "ex_sync_env = \<lparr>clock_at = (\<lambda>_. 0), ub_to_u32 = (\<lambda>_. 0),
     synch_info = sync_info_of ex_gst ex_pts 1 (ex_ts 10)\<rparr>"

definition ex_sync_pad :: SinkPad where
  "ex_sync_pad = fold (\<lambda>n. queue_entry (new_BufferWrapper n BATCH_SEQUENCE_IN_BATCH))
     [60, 69, 70, 80, 90] (new_SinkPad 1)"

lemma ex_current: "GetCurrentRunningTime ex_gst = 100"
  by (simp add: GetCurrentRunningTime_def gst_get_current_clock_time_def ex_gst_def
      GST_CLOCK_TIME_NONE_def)

lemma ex_running: "running_time ex_gst t 1 (ex_ts up) = t"
  by (simp add: running_time_def ex_ts_def ex_gst_def)

lemma ex_ts_simps [simp]: "upstreamLatency (ex_ts up) = up" "minFpsDuration (ex_ts up) = 20"
  by (simp_all add: ex_ts_def)

lemma ex_info:
  "fst (sync_info_of ex_gst ex_pts 1 (ex_ts 10) e) = status_at 100 20 10 (ex_pts (wrapped e))"
  by (simp add: fst_sync_info_of ex_current ex_running)

lemma get_synch_info_window_witness:
  "fst (get_synch_info ex_gst 130 1 (ex_ts 10)) = BUFFER_TS_EARLY \<and>
   unat (bufferWasEarlyByTime (snd (get_synch_info ex_gst 130 1 (ex_ts 10)))) = 30"
  using get_synch_info_window [of ex_gst "ex_ts 10" 130 1]
  by (simp add: ex_current ex_running Let_def GST_CLOCK_TIME_NONE_def split: prod.splits)

lemma unlimited_latency_drops_witness:
  "fst (get_synch_info ex_gst 80 1 (ex_ts GST_CLOCK_TIME_NONE)) = BUFFER_TS_LATE"
  using unlimited_latency_drops [of ex_gst "ex_ts GST_CLOCK_TIME_NONE" 80 1]
  by (simp add: ex_current ex_running GST_CLOCK_TIME_NONE_def)

lemmas ex_sync_pad_defs =
  ex_sync_pad_def new_SinkPad_def queue_entry_def push_buffer_done_def new_BufferWrapper_def

theorem synchronize_buffers_partition_witness:
  "\<forall>bp. case synchronize_buffers_in_pad ex_sync_env ex_sync_pad 8 bp of
     (k, p', bp', late) \<Rightarrow> map wrapped late = [60, 69] \<and> map wrapped (queue p') = [70, 80, 90] \<and> unat k = 2"
proof
  fix bp
  obtain k p' bp' late where
    r: "synchronize_buffers_in_pad ex_sync_env ex_sync_pad 8 bp = (k, p', bp', late)"
    by (metis prod_cases4)
  have info: "synch_info ex_sync_env = sync_info_of ex_gst ex_pts 1 (ex_ts 10)"
    by (simp add: ex_sync_env_def)
  note part = synchronize_buffers_partition [OF info _ _ _ r]
  have "late = filter (\<lambda>e. is_buffer e \<and> fst (synch_info ex_sync_env e) = BUFFER_TS_LATE) (queue ex_sync_pad) \<and>
    queue p' = filter (\<lambda>e. \<not> (is_buffer e \<and> fst (synch_info ex_sync_env e) = BUFFER_TS_LATE)) (queue ex_sync_pad) \<and>
    unat k = min (unat (8 :: u32))
      (length (filter (\<lambda>e. is_buffer e \<and> fst (synch_info ex_sync_env e) = BUFFER_TS_ONTIME) (queue ex_sync_pad)))"
    by (rule part) (simp_all add: ex_sync_pad_defs Let_def entry_fits_def entry_time_def ex_running ex_pts_def)
  then show "case synchronize_buffers_in_pad ex_sync_env ex_sync_pad 8 bp of
     (k, p', bp', late) \<Rightarrow> map wrapped late = [60, 69] \<and> map wrapped (queue p') = [70, 80, 90] \<and> unat k = 2"
    unfolding r prod.case by (simp add: info ex_info ex_sync_pad_defs Let_def ex_pts_def status_at_def GST_CLOCK_TIME_NONE_def)
qed

end
