(* ===== verification/MuxConfig.thy ===== *)
theory MuxConfig
  imports MuxBatch
begin

text \<open>
  The configuration file of the stream muxer: \<open>src/sources/libs/nvstreammux/MuxConfigParser.cpp\<close> and
  \<open>include/MuxConfigParser.h\<close>. A file is read either with yaml-cpp or as a GLib key file; both
  libraries are outside of the repository, so \<open>yml_file\<close> and \<open>key_file\<close> hold what the parser gets from
  them: the names of the groups, the entries of a group in order, and integers, where \<open>None\<close> is a
  value that is no integer (a \<open>BadConversion\<close> exception in yaml-cpp, a \<open>GError\<close> in GLib). The number that
  \<open>g_ascii_strtoull\<close> finds is a parameter too. A result \<open>None\<close> is an exception that nothing catches.
\<close>

section \<open>Keys and defaults\<close>

definition NVSTREAMMUX_CONFIG_SOURCE_GROUP_PREFIX :: string where
  "NVSTREAMMUX_CONFIG_SOURCE_GROUP_PREFIX = ''source-config-''"

definition NVSTREAMMUX_CONFIG_PROP_GROUP :: string where
  "NVSTREAMMUX_CONFIG_PROP_GROUP = ''property''"

definition NVSTREAMMUX_DEFAULT_PROP_GROUP_BATCH_SIZE :: u32 where
  "NVSTREAMMUX_DEFAULT_PROP_GROUP_BATCH_SIZE = 1"

record yml_file =
  yml_groups :: "string list"
  yml_entries :: "string \<Rightarrow> (string \<times> int option) list"

record key_file =
  kf_groups :: "string list"
  kf_keys :: "string \<Rightarrow> string list"
  kf_integer :: "string \<Rightarrow> string \<Rightarrow> int option"

text \<open>
  The cast of an integer to the enumeration. The policy only asks whether the method is round
  robin; what an integer outside of the enumeration gives is left to \<open>ub\<close>.
\<close>

definition batch_method_of :: "(int \<Rightarrow> NvStreammuxBatchMethod) \<Rightarrow> int \<Rightarrow> NvStreammuxBatchMethod" where
  "batch_method_of ub i =
     (if i = 0 then BATCH_METHOD_NONE else if i = 1 then BATCH_METHOD_ROUND_ROBIN
      else if i = 2 then BATCH_METHOD_PRIORITY else ub i)"

text \<open>The assignments of defaults that the two parsers and the default configuration share.\<close>

definition set_common_defaults :: "BatchPolicyConfig \<Rightarrow> BatchPolicyConfig" where
  "set_common_defaults c =
     c\<lparr>cfg_type := BATCH_METHOD_ROUND_ROBIN, adaptive_batching := True,
       enable_source_rate_control := False, enable_max_fps_control := False,
       overall_max_fps_n := 120, overall_max_fps_d := 1,
       overall_min_fps_n := 5, overall_min_fps_d := 1,
       max_same_source_frames := NVSTREAMMUX_DEFAULT_SOURCE_GROUP_MAX_FRAMES_PER_BATCH\<rparr>"

section \<open>YAML\<close>

text \<open>The chain of comparisons in the loop over the entries of a source group; unknown keys are skipped.\<close>

definition set_source_prop :: "string \<Rightarrow> int \<Rightarrow> NvStreammuxSourceProps \<Rightarrow> NvStreammuxSourceProps" where
  "set_source_prop key v s =
     (if key = ''max-fps-n'' then s\<lparr>source_max_fps_n := of_int v\<rparr>
      else if key = ''max-fps-d'' then s\<lparr>source_max_fps_d := of_int v\<rparr>
      else if key = ''min-fps-n'' then s\<lparr>source_min_fps_n := of_int v\<rparr>
      else if key = ''min-fps-d'' then s\<lparr>source_min_fps_d := of_int v\<rparr>
      else if key = ''priority'' then s\<lparr>priority := of_int v\<rparr>
      else if key = ''max-num-frames-per-batch'' then s\<lparr>max_num_frames_per_batch := of_int v\<rparr>
      else s)"

definition source_keys :: "string list" where
  "source_keys = [''max-fps-n'', ''max-fps-d'', ''min-fps-n'', ''min-fps-d'', ''priority'',
     ''max-num-frames-per-batch'']"

fun yml_source_entries ::
  "(string \<times> int option) list \<Rightarrow> NvStreammuxSourceProps \<Rightarrow> NvStreammuxSourceProps option" where
  "yml_source_entries [] s = Some s"
| "yml_source_entries ((key, v) # es) s =
     (if key \<in> set source_keys
      then (case v of None \<Rightarrow> None | Some i \<Rightarrow> yml_source_entries es (set_source_prop key i s))
      else yml_source_entries es s)"

definition ParseYmlConfigPerSourceProps :: "yml_file \<Rightarrow> string \<Rightarrow> NvStreammuxSourceProps option" where
  "ParseYmlConfigPerSourceProps f grp = yml_source_entries (yml_entries f grp) default_source_props"

definition set_common_prop ::
  "(int \<Rightarrow> NvStreammuxBatchMethod) \<Rightarrow> string \<Rightarrow> int \<Rightarrow> BatchPolicyConfig \<Rightarrow> BatchPolicyConfig" where
  "set_common_prop ub key v c =
     (if key = ''algorithm-type'' then c\<lparr>cfg_type := batch_method_of ub v\<rparr>
      else if key = ''adaptive-batching'' then c\<lparr>adaptive_batching := (v \<noteq> 0)\<rparr>
      else if key = ''enable-source-rate-control'' then c\<lparr>enable_source_rate_control := (v \<noteq> 0)\<rparr>
      else if key = ''max-fps-control'' then c\<lparr>enable_max_fps_control := (v \<noteq> 0)\<rparr>
      else if key = ''batch-size'' then c\<lparr>cfg_batch_size := of_int v\<rparr>
      else if key = ''overall-max-fps-n'' then c\<lparr>overall_max_fps_n := of_int v\<rparr>
      else if key = ''overall-max-fps-d'' then c\<lparr>overall_max_fps_d := of_int v\<rparr>
      else if key = ''overall-min-fps-n'' then c\<lparr>overall_min_fps_n := of_int v\<rparr>
      else if key = ''overall-min-fps-d'' then c\<lparr>overall_min_fps_d := of_int v\<rparr>
      else if key = ''max-same-source-frames'' then c\<lparr>max_same_source_frames := of_int v\<rparr>
      else c)"

definition common_keys :: "string list" where
  "common_keys = [''algorithm-type'', ''adaptive-batching'', ''enable-source-rate-control'',
     ''max-fps-control'', ''batch-size'', ''overall-max-fps-n'', ''overall-max-fps-d'',
     ''overall-min-fps-n'', ''overall-min-fps-d'', ''max-same-source-frames'']"

text \<open>The second component is \<open>batch_size_parsed\<close>.\<close>

fun yml_common_entries ::
  "(int \<Rightarrow> NvStreammuxBatchMethod) \<Rightarrow> (string \<times> int option) list \<Rightarrow> BatchPolicyConfig \<times> bool \<Rightarrow>
   (BatchPolicyConfig \<times> bool) option" where
  "yml_common_entries ub [] s = Some s"
| "yml_common_entries ub ((key, v) # es) (c, parsed) =
     (if key \<in> set common_keys
      then (case v of None \<Rightarrow> None
            | Some i \<Rightarrow> yml_common_entries ub es (set_common_prop ub key i c, parsed \<or> key = ''batch-size''))
      else yml_common_entries ub es (c, parsed))"

definition ParseYmlConfigCommonProps ::
  "(int \<Rightarrow> NvStreammuxBatchMethod) \<Rightarrow> yml_file \<Rightarrow> string \<Rightarrow> BatchPolicyConfig \<Rightarrow> BatchPolicyConfig option" where
  "ParseYmlConfigCommonProps ub f grp c =
     (let set_batch_size = cfg_batch_size c;
          c0 = (set_common_defaults c)\<lparr>cfg_batch_size := NVSTREAMMUX_DEFAULT_PROP_GROUP_BATCH_SIZE\<rparr>
      in case yml_common_entries ub (yml_entries f grp) (c0, False) of
           None \<Rightarrow> None
         | Some (c1, parsed) \<Rightarrow>
             Some (if set_batch_size \<noteq> 0 \<and> \<not> parsed then c1\<lparr>cfg_batch_size := set_batch_size\<rparr> else c1))"

text \<open>
  \<open>std::stoull\<close> in base 10: white space, a sign, digits; no digits and a value that does not fit are
  exceptions, a negative number wraps.
\<close>

definition is_space :: "char \<Rightarrow> bool" where
  "is_space ch \<longleftrightarrow> ch \<in> set [CHR '' '', CHR 0x09, CHR 0x0A, CHR 0x0B, CHR 0x0C, CHR 0x0D]"

definition is_digit :: "char \<Rightarrow> bool" where
  "is_digit ch \<longleftrightarrow> (48 :: nat) \<le> of_char ch \<and> (of_char ch :: nat) \<le> 57"

fun digits_value :: "string \<Rightarrow> nat \<Rightarrow> nat" where
  "digits_value [] n = n"
| "digits_value (ch # s) n = digits_value s (10 * n + (of_char ch - 48))"

definition stoull :: "string \<Rightarrow> u64 option" where
  "stoull s =
     (let s1 = dropWhile is_space s;
          minus = (case s1 of [] \<Rightarrow> False | ch # _ \<Rightarrow> ch = CHR ''-'');
          s2 = (case s1 of [] \<Rightarrow> [] | ch # r \<Rightarrow> if ch = CHR ''-'' \<or> ch = CHR ''+'' then r else ch # r);
          ds = takeWhile is_digit s2;
          n = digits_value ds 0
      in if ds = [] \<or> n \<ge> 18446744073709551616 then None
         else Some (if minus then - of_nat n else of_nat n))"

text \<open>
  \<open>source_props.insert\<close> converts the 64 bit index to the key type \<open>unsigned int\<close> and leaves an entry
  that is already there.
\<close>

definition insert_source_props :: "u64 \<Rightarrow> NvStreammuxSourceProps \<Rightarrow> BatchPolicyConfig \<Rightarrow> BatchPolicyConfig" where
  "insert_source_props idx props c = c\<lparr>source_props := al_touch props (ucast idx) (source_props c)\<rparr>"

definition source_suffix :: "string \<Rightarrow> string" where
  "source_suffix grp = drop (length NVSTREAMMUX_CONFIG_SOURCE_GROUP_PREFIX) grp"

definition has_prefix :: "string \<Rightarrow> string \<Rightarrow> bool" where
  "has_prefix p s \<longleftrightarrow> take (length p) s = p"

fun yml_groups_loop ::
  "(int \<Rightarrow> NvStreammuxBatchMethod) \<Rightarrow> yml_file \<Rightarrow> string list \<Rightarrow> BatchPolicyConfig \<Rightarrow> BatchPolicyConfig option"
where
  "yml_groups_loop ub f [] c = Some c"
| "yml_groups_loop ub f (grp # gs) c =
     (if grp = NVSTREAMMUX_CONFIG_PROP_GROUP
      then (case ParseYmlConfigCommonProps ub f grp c of
              None \<Rightarrow> None | Some c' \<Rightarrow> yml_groups_loop ub f gs c')
      else if has_prefix NVSTREAMMUX_CONFIG_SOURCE_GROUP_PREFIX grp
      then (case stoull (source_suffix grp) of
              None \<Rightarrow> None
            | Some idx \<Rightarrow>
                (case ParseYmlConfigPerSourceProps f grp of
                   None \<Rightarrow> None
                 | Some props \<Rightarrow> yml_groups_loop ub f gs (insert_source_props idx props c)))
      else yml_groups_loop ub f gs c)"

definition ParseYmlConfig ::
  "(int \<Rightarrow> NvStreammuxBatchMethod) \<Rightarrow> yml_file \<Rightarrow> BatchPolicyConfig \<Rightarrow> (bool \<times> BatchPolicyConfig) option" where
  "ParseYmlConfig ub f c =
     (case yml_groups_loop ub f (yml_groups f) c of None \<Rightarrow> None | Some c' \<Rightarrow> Some (True, c'))"

section \<open>Key files\<close>

definition kf_int_or :: "key_file \<Rightarrow> string \<Rightarrow> string \<Rightarrow> u32 \<Rightarrow> u32" where
  "kf_int_or f grp key d = (case kf_integer f grp key of None \<Rightarrow> d | Some i \<Rightarrow> of_int i)"

definition ParseTxtConfigPerSourceProps :: "key_file \<Rightarrow> string \<Rightarrow> NvStreammuxSourceProps" where
  "ParseTxtConfigPerSourceProps f grp =
     \<lparr>source_max_fps_n = kf_int_or f grp ''max-fps-n'' NVSTREAMMUX_DEFAULT_SOURCE_GROUP_MAX_FPS_N,
      source_max_fps_d = kf_int_or f grp ''max-fps-d'' NVSTREAMMUX_DEFAULT_SOURCE_GROUP_MAX_FPS_D,
      source_min_fps_n = kf_int_or f grp ''min-fps-n'' NVSTREAMMUX_DEFAULT_SOURCE_GROUP_MIN_FPS_N,
      source_min_fps_d = kf_int_or f grp ''min-fps-d'' NVSTREAMMUX_DEFAULT_SOURCE_GROUP_MIN_FPS_D,
      priority = kf_int_or f grp ''priority'' NVSTREAMMUX_DEFAULT_SOURCE_GROUP_PRIORITY,
      max_num_frames_per_batch = kf_int_or f grp ''max-num-frames-per-batch''
        NVSTREAMMUX_DEFAULT_SOURCE_GROUP_MAX_FRAMES_PER_BATCH\<rparr>"

text \<open>
  One round of the loop over the keys of a group: \<open>v\<close> is what \<open>g_key_file_get_integer\<close> gives, and
  an error puts the default back; for the batch size, the size the caller had set unless it is 0.
\<close>

definition txt_common_prop ::
  "(int \<Rightarrow> NvStreammuxBatchMethod) \<Rightarrow> u32 \<Rightarrow> string \<Rightarrow> int option \<Rightarrow> BatchPolicyConfig \<Rightarrow> BatchPolicyConfig" where
  "txt_common_prop ub set_batch_size key v c =
     (case v of
        Some i \<Rightarrow> set_common_prop ub key i c
      | None \<Rightarrow>
          if key = ''algorithm-type'' then c\<lparr>cfg_type := BATCH_METHOD_ROUND_ROBIN\<rparr>
          else if key = ''adaptive-batching'' then c\<lparr>adaptive_batching := True\<rparr>
          else if key = ''enable-source-rate-control'' then c\<lparr>enable_source_rate_control := False\<rparr>
          else if key = ''max-fps-control'' then c\<lparr>enable_max_fps_control := False\<rparr>
          else if key = ''batch-size'' then
            c\<lparr>cfg_batch_size := (if set_batch_size = 0 then NVSTREAMMUX_DEFAULT_PROP_GROUP_BATCH_SIZE
                                else set_batch_size)\<rparr>
          else if key = ''overall-max-fps-n'' then c\<lparr>overall_max_fps_n := 120\<rparr>
          else if key = ''overall-max-fps-d'' then c\<lparr>overall_max_fps_d := 1\<rparr>
          else if key = ''overall-min-fps-n'' then c\<lparr>overall_min_fps_n := 5\<rparr>
          else if key = ''overall-min-fps-d'' then c\<lparr>overall_min_fps_d := 1\<rparr>
          else if key = ''max-same-source-frames'' then
            c\<lparr>max_same_source_frames := NVSTREAMMUX_DEFAULT_SOURCE_GROUP_MAX_FRAMES_PER_BATCH\<rparr>
          else c)"

definition ParseTxtConfigCommonProps ::
  "(int \<Rightarrow> NvStreammuxBatchMethod) \<Rightarrow> key_file \<Rightarrow> string \<Rightarrow> BatchPolicyConfig \<Rightarrow> BatchPolicyConfig" where
  "ParseTxtConfigCommonProps ub f grp c =
     fold (\<lambda>key. txt_common_prop ub (cfg_batch_size c) key (kf_integer f grp key)) (kf_keys f grp)
       (set_common_defaults c)"

fun txt_groups_loop ::
  "(int \<Rightarrow> NvStreammuxBatchMethod) \<Rightarrow> (string \<Rightarrow> u64) \<Rightarrow> key_file \<Rightarrow> string list \<Rightarrow> BatchPolicyConfig \<Rightarrow>
   BatchPolicyConfig"
where
  "txt_groups_loop ub strtoull f [] c = c"
| "txt_groups_loop ub strtoull f (grp # gs) c =
     txt_groups_loop ub strtoull f gs
       (if has_prefix NVSTREAMMUX_CONFIG_PROP_GROUP grp then ParseTxtConfigCommonProps ub f grp c
        else if has_prefix NVSTREAMMUX_CONFIG_SOURCE_GROUP_PREFIX grp
        then insert_source_props (strtoull (source_suffix grp)) (ParseTxtConfigPerSourceProps f grp) c
        else c)"

text \<open>A file that does not load is \<open>None\<close>.\<close>

definition ParseTxtConfig ::
  "(int \<Rightarrow> NvStreammuxBatchMethod) \<Rightarrow> (string \<Rightarrow> u64) \<Rightarrow> key_file option \<Rightarrow> BatchPolicyConfig \<Rightarrow>
   bool \<times> BatchPolicyConfig" where
  "ParseTxtConfig ub strtoull file c =
     (case file of None \<Rightarrow> (False, c) | Some f \<Rightarrow> (True, txt_groups_loop ub strtoull f (kf_groups f) c))"

section \<open>The entry points\<close>

text \<open>
  What the parser finds at a path. The existence test of \<open>SetConfigFile\<close> is \<open>path_exists\<close>; \<open>as_yml\<close> is
  \<open>None\<close> if \<open>YAML::LoadFile\<close> throws.
\<close>

record file_system =
  path_exists :: "string \<Rightarrow> bool"
  as_yml :: "string \<Rightarrow> yml_file option"
  as_key_file :: "string \<Rightarrow> key_file option"

record config_libs =
  ub_method :: "int \<Rightarrow> NvStreammuxBatchMethod"
  ascii_strtoull :: "string \<Rightarrow> u64"

text \<open>\<open>cfgFile\<close> is a null pointer before the first call.\<close>

definition SetConfigFile :: "file_system \<Rightarrow> string \<Rightarrow> string option \<times> bool" where
  "SetConfigFile fs path = (Some path, path_exists fs path)"

definition has_suffix :: "string \<Rightarrow> string \<Rightarrow> bool" where
  "has_suffix s p \<longleftrightarrow> length p \<le> length s \<and> drop (length s - length p) s = p"

definition default_configs :: "nat \<Rightarrow> BatchPolicyConfig \<Rightarrow> BatchPolicyConfig" where
  "default_configs numSources c =
     fold (\<lambda>i. insert_source_props (of_nat i) default_source_props) [0..<numSources]
       ((set_common_defaults c)\<lparr>cfg_batch_size := NVSTREAMMUX_DEFAULT_PROP_GROUP_BATCH_SIZE,
          max_same_source_frames := 1\<rparr>)"

text \<open>A null \<open>cfgFile\<close> makes \<open>g_str_has_suffix\<close> return false and the key file fail to load.\<close>

definition ParseConfigs ::
  "config_libs \<Rightarrow> file_system \<Rightarrow> string option \<Rightarrow> bool \<Rightarrow> u32 \<Rightarrow> BatchPolicyConfig \<Rightarrow>
   (bool \<times> BatchPolicyConfig) option" where
  "ParseConfigs L fs cfgFile defaults numSources c =
     (if defaults then Some (True, default_configs (unat numSources) c)
      else
        case cfgFile of
          None \<Rightarrow> Some (ParseTxtConfig (ub_method L) (ascii_strtoull L) None c)
        | Some path \<Rightarrow>
            if has_suffix path ''.yml'' \<or> has_suffix path ''.yaml''
            then (case as_yml fs path of None \<Rightarrow> None | Some f \<Rightarrow> ParseYmlConfig (ub_method L) f c)
            else Some (ParseTxtConfig (ub_method L) (ascii_strtoull L) (as_key_file fs path) c))"

end
