(* ===== verification/MuxConfigProps.thy ===== *)
theory MuxConfigProps
  imports MuxConfig MuxBatchProps
begin

text \<open>
  Facts about the configuration parser: a group with distinct keys is read as a lookup per field
  with the documented default, both file formats agree on well-formed files, an index that was
  printed in decimal is found again, and a parsed configuration gives a well-formed batch policy.
\<close>

section \<open>A group as a lookup\<close>

definition entry_or :: "(int \<Rightarrow> 'a) \<Rightarrow> 'a \<Rightarrow> int option option \<Rightarrow> 'a" where
  "entry_or f d x = (case x of Some (Some i) \<Rightarrow> f i | _ \<Rightarrow> d)"

lemma entry_or_simps [simp]:
  "entry_or f d None = d" "entry_or f d (Some (Some i)) = f i"
  by (simp_all add: entry_or_def)

definition overlay_source ::
  "(string \<rightharpoonup> int option) \<Rightarrow> NvStreammuxSourceProps \<Rightarrow> NvStreammuxSourceProps" where
  "overlay_source m s =
     \<lparr>source_max_fps_n = entry_or of_int (source_max_fps_n s) (m ''max-fps-n''),
      source_max_fps_d = entry_or of_int (source_max_fps_d s) (m ''max-fps-d''),
      source_min_fps_n = entry_or of_int (source_min_fps_n s) (m ''min-fps-n''),
      source_min_fps_d = entry_or of_int (source_min_fps_d s) (m ''min-fps-d''),
      priority = entry_or of_int (priority s) (m ''priority''),
      max_num_frames_per_batch = entry_or of_int (max_num_frames_per_batch s) (m ''max-num-frames-per-batch'')\<rparr>"

definition overlay_common ::
  "(int \<Rightarrow> NvStreammuxBatchMethod) \<Rightarrow> (string \<rightharpoonup> int option) \<Rightarrow> BatchPolicyConfig \<Rightarrow> BatchPolicyConfig" where
  "overlay_common ub m c =
     \<lparr>cfg_type = entry_or (batch_method_of ub) (cfg_type c) (m ''algorithm-type''),
      adaptive_batching = entry_or (\<lambda>i. i \<noteq> 0) (adaptive_batching c) (m ''adaptive-batching''),
      cfg_batch_size = entry_or of_int (cfg_batch_size c) (m ''batch-size''),
      overall_max_fps_n = entry_or of_int (overall_max_fps_n c) (m ''overall-max-fps-n''),
      overall_max_fps_d = entry_or of_int (overall_max_fps_d c) (m ''overall-max-fps-d''),
      overall_min_fps_n = entry_or of_int (overall_min_fps_n c) (m ''overall-min-fps-n''),
      overall_min_fps_d = entry_or of_int (overall_min_fps_d c) (m ''overall-min-fps-d''),
      max_same_source_frames = entry_or of_int (max_same_source_frames c) (m ''max-same-source-frames''),
      enable_source_rate_control =
        entry_or (\<lambda>i. i \<noteq> 0) (enable_source_rate_control c) (m ''enable-source-rate-control''),
      enable_max_fps_control = entry_or (\<lambda>i. i \<noteq> 0) (enable_max_fps_control c) (m ''max-fps-control''),
      source_props = source_props c\<rparr>"

lemma overlay_empty [simp]: "overlay_source (\<lambda>_. None) s = s" "overlay_common ub (\<lambda>_. None) c = c"
  by (simp_all add: overlay_source_def overlay_common_def)

lemma overlay_source_other:
  assumes "key \<notin> set source_keys"
  shows "overlay_source (m(key \<mapsto> v)) s = overlay_source m s"
  using assms by (auto simp: overlay_source_def source_keys_def)

lemma overlay_common_other:
  assumes "key \<notin> set common_keys"
  shows "overlay_common ub (m(key \<mapsto> v)) c = overlay_common ub m c"
  using assms by (auto simp: overlay_common_def common_keys_def)

lemma overlay_source_step:
  assumes "m key = None"
  shows "overlay_source m (set_source_prop key i s) = overlay_source (m(key \<mapsto> Some i)) s"
  using assms unfolding set_source_prop_def
  by (auto simp: overlay_source_def)

lemma overlay_common_step:
  assumes "m key = None"
  shows "overlay_common ub m (set_common_prop ub key i c) = overlay_common ub (m(key \<mapsto> Some i)) c"
proof (cases "key \<in> set common_keys")
  case True
  with assms show ?thesis
    unfolding common_keys_def list.set insert_iff empty_iff
    by (elim disjE) (simp_all add: set_common_prop_def overlay_common_def)
next
  case False
  then have "set_common_prop ub key i c = c"
    by (simp add: common_keys_def set_common_prop_def)
  with False show ?thesis by (simp add: overlay_common_other)
qed

lemmas overlay_cons =
  overlay_source_step [unfolded fun_upd_def] overlay_common_step [unfolded fun_upd_def]
  overlay_source_other [unfolded fun_upd_def] overlay_common_other [unfolded fun_upd_def]

text \<open>A group that a key file and a YAML file read alike: no key twice, and known keys hold integers.\<close>

definition group_ok :: "string list \<Rightarrow> (string \<times> int option) list \<Rightarrow> bool" where
  "group_ok known es \<longleftrightarrow> distinct (map fst es) \<and> list_all (\<lambda>(k, v). k \<in> set known \<longrightarrow> v \<noteq> None) es"

lemma group_ok_Cons:
  "group_ok known ((k, v) # es) \<longleftrightarrow>
     group_ok known es \<and> map_of es k = None \<and> (k \<in> set known \<longrightarrow> v \<noteq> None)"
  by (auto simp: group_ok_def map_of_eq_None_iff)

lemma yml_source_entries_lookup:
  "group_ok source_keys es \<Longrightarrow> yml_source_entries es s = Some (overlay_source (map_of es) s)"
proof (induction es s rule: yml_source_entries.induct)
  case (2 key v es s)
  then show ?case
    by (auto simp: group_ok_Cons overlay_cons)
qed simp

lemma yml_common_entries_lookup:
  "group_ok common_keys es \<Longrightarrow>
   yml_common_entries ub es (c, parsed) =
     Some (overlay_common ub (map_of es) c, parsed \<or> ''batch-size'' \<in> fst ` set es)"
proof (induction es arbitrary: c parsed)
  case (Cons e es)
  obtain key v where e: "e = (key, v)" by (cases e)
  have "''batch-size'' \<in> set common_keys" by (simp add: common_keys_def)
  with Cons show ?case
    by (auto simp: e group_ok_Cons overlay_cons)
qed simp

section \<open>The reference for the common group\<close>

text \<open>
  What \<open>MuxConfigParser.h\<close> documents: every field has the value of its key or its default, and the
  default of the batch size applies only if the caller had not set it to a non-zero value.
\<close>

definition documented_common ::
  "(int \<Rightarrow> NvStreammuxBatchMethod) \<Rightarrow> (string \<rightharpoonup> int option) \<Rightarrow> BatchPolicyConfig \<Rightarrow> BatchPolicyConfig" where
  "documented_common ub m c =
     overlay_common ub m ((set_common_defaults c)
       \<lparr>cfg_batch_size := (if cfg_batch_size c = 0 then NVSTREAMMUX_DEFAULT_PROP_GROUP_BATCH_SIZE
                         else cfg_batch_size c)\<rparr>)"

lemma overlay_common_batch_size_absent:
  "m ''batch-size'' = None \<Longrightarrow>
   (overlay_common ub m c)\<lparr>cfg_batch_size := b\<rparr> = overlay_common ub m (c\<lparr>cfg_batch_size := b\<rparr>)"
  by (simp add: overlay_common_def)

lemma overlay_common_batch_size_present:
  "m ''batch-size'' = Some (Some i) \<Longrightarrow>
   overlay_common ub m (c\<lparr>cfg_batch_size := b\<rparr>) = overlay_common ub m c"
  by (simp add: overlay_common_def)

lemma group_ok_lookup:
  assumes "group_ok known es" "key \<in> set known"
  shows "(key \<in> fst ` set es \<and> (\<exists>i. map_of es key = Some (Some i))) \<or>
    (key \<notin> fst ` set es \<and> map_of es key = None)"
proof (cases "map_of es key")
  case None
  then show ?thesis by (simp add: map_of_eq_None_iff)
next
  case (Some v)
  then have "(key, v) \<in> set es" by (rule map_of_SomeD)
  with assms Some show ?thesis
    by (auto simp: group_ok_def list_all_iff rev_image_eqI)
qed

lemma yml_common_lookup:
  assumes "group_ok common_keys (yml_entries f grp)"
  shows "ParseYmlConfigCommonProps ub f grp c =
    Some (documented_common ub (map_of (yml_entries f grp)) c)"
proof -
  have "''batch-size'' \<in> set common_keys" by (simp add: common_keys_def)
  from group_ok_lookup [OF assms this] show ?thesis
    by (auto simp: ParseYmlConfigCommonProps_def Let_def documented_common_def
        yml_common_entries_lookup [OF assms] overlay_common_batch_size_absent
        overlay_common_batch_size_present)
qed

text \<open>
  A \<open>property\<close> group in YAML whose keys are distinct and whose known keys hold integers is
  read without an exception, and exactly as documented: a lookup per field with its default.
\<close>

lemma yml_common_documented:
  assumes "group_ok common_keys (yml_entries f grp)"
  shows "ParseYmlConfigCommonProps ub f grp c =
    Some (documented_common ub (map_of (yml_entries f grp)) c)"
  using assms by (rule yml_common_lookup)

section \<open>The same file in both formats\<close>

definition kf_of :: "yml_file \<Rightarrow> key_file" where
  "kf_of f =
     \<lparr>kf_groups = yml_groups f, kf_keys = (\<lambda>grp. map fst (yml_entries f grp)),
      kf_integer = (\<lambda>grp key. case map_of (yml_entries f grp) key of None \<Rightarrow> None | Some v \<Rightarrow> v)\<rparr>"

lemma txt_common_fold:
  assumes "group_ok common_keys es" "\<forall>(k, v) \<in> set es. get k = v"
  shows "fold (\<lambda>key. txt_common_prop ub b key (get key)) (map fst es) c = overlay_common ub (map_of es) c"
  using assms
proof (induction es arbitrary: c)
  case (Cons e es)
  obtain k v where e: "e = (k, v)" by (cases e)
  have other: "txt_common_prop ub b k w c = c" if "k \<notin> set common_keys" for w
    using that by (cases w) (simp_all add: txt_common_prop_def common_keys_def set_common_prop_def)
  have known: "txt_common_prop ub b k (Some i) c = set_common_prop ub k i c" for i
    by (simp add: txt_common_prop_def)
  show ?case
  proof (cases "k \<in> set common_keys")
    case True
    with Cons.prems obtain i where "v = Some i" by (auto simp: e group_ok_Cons)
    with Cons show ?thesis by (simp add: e group_ok_Cons known overlay_cons)
  next
    case False
    with Cons show ?thesis by (simp add: e group_ok_Cons other overlay_cons)
  qed
qed simp

lemma txt_common_lookup:
  assumes "group_ok common_keys (yml_entries f grp)"
  shows "ParseTxtConfigCommonProps ub (kf_of f) grp c =
    overlay_common ub (map_of (yml_entries f grp)) (set_common_defaults c)"
  unfolding ParseTxtConfigCommonProps_def
  using txt_common_fold [OF assms, of "kf_integer (kf_of f) grp" ub "cfg_batch_size c"
      "set_common_defaults c"] assms
  by (force simp: kf_of_def group_ok_def)

lemma txt_source_lookup:
  assumes "group_ok source_keys (yml_entries f grp)"
  shows "ParseTxtConfigPerSourceProps (kf_of f) grp =
    overlay_source (map_of (yml_entries f grp)) default_source_props"
  by (simp add: ParseTxtConfigPerSourceProps_def overlay_source_def default_source_props_def
      kf_int_or_def kf_of_def entry_or_def split: option.split)

text \<open>Groups that both formats classify alike, with source indices that are numbers.\<close>

definition names_ok :: "(string \<Rightarrow> u64) \<Rightarrow> string \<Rightarrow> bool" where
  "names_ok strtoull grp \<longleftrightarrow>
     (has_prefix NVSTREAMMUX_CONFIG_PROP_GROUP grp \<longrightarrow> grp = NVSTREAMMUX_CONFIG_PROP_GROUP) \<and>
     (has_prefix NVSTREAMMUX_CONFIG_SOURCE_GROUP_PREFIX grp \<longrightarrow>
        stoull (source_suffix grp) = Some (strtoull (source_suffix grp)))"

lemma insert_source_props_batch_size [simp]:
  "cfg_batch_size (insert_source_props idx p c) = cfg_batch_size c"
  by (simp add: insert_source_props_def)

lemma groups_agree:
  assumes "distinct gs" "\<forall>grp \<in> set gs. names_ok strtoull grp \<and>
      group_ok common_keys (yml_entries f grp) \<and> group_ok source_keys (yml_entries f grp)"
    and "cfg_batch_size c \<noteq> 0 \<or> ''batch-size'' \<in> fst ` set (yml_entries f NVSTREAMMUX_CONFIG_PROP_GROUP)
      \<or> NVSTREAMMUX_CONFIG_PROP_GROUP \<notin> set gs"
  shows "yml_groups_loop ub f gs c = Some (txt_groups_loop ub strtoull (kf_of f) gs c)"
  using assms
proof (induction gs arbitrary: c)
  case (Cons grp gs)
  have ok: "names_ok strtoull grp" "group_ok common_keys (yml_entries f grp)"
    "group_ok source_keys (yml_entries f grp)"
    using Cons.prems(2) by simp_all
  show ?case
  proof (cases "grp = NVSTREAMMUX_CONFIG_PROP_GROUP")
    case True
    have "''batch-size'' \<in> set common_keys" by (simp add: common_keys_def)
    from group_ok_lookup [OF ok(2) this] Cons.prems(3) True
    have "documented_common ub (map_of (yml_entries f grp)) c =
        overlay_common ub (map_of (yml_entries f grp)) (set_common_defaults c)"
      by (auto simp: documented_common_def overlay_common_batch_size_present set_common_defaults_def)
    moreover have "has_prefix NVSTREAMMUX_CONFIG_PROP_GROUP grp"
      by (simp add: True has_prefix_def)
    moreover have "NVSTREAMMUX_CONFIG_PROP_GROUP \<notin> set gs" using Cons.prems(1) True by simp
    ultimately show ?thesis
      using Cons.IH Cons.prems(1,2) True
      by (simp add: yml_common_lookup [OF ok(2), unfolded True] txt_common_lookup [OF ok(2), unfolded True])
  next
    case False
    with ok(1) have "\<not> has_prefix NVSTREAMMUX_CONFIG_PROP_GROUP grp" by (auto simp: names_ok_def)
    with False show ?thesis
      using Cons.IH Cons.prems ok(1)
      by (auto simp: names_ok_def ParseYmlConfigPerSourceProps_def
          yml_source_entries_lookup [OF ok(3)] txt_source_lookup [OF ok(3)])
  qed
qed simp

text \<open>
  Property C19. Both parsers read a well-formed file alike: distinct groups with distinct keys, known
  keys with integers, no group that only starts with \<open>property\<close>, source indices that are numbers,
  and a batch size in the file or from the caller.
\<close>

theorem yml_txt_agree:
  assumes "distinct (yml_groups f)"
    and "\<forall>grp \<in> set (yml_groups f). names_ok strtoull grp \<and>
      group_ok common_keys (yml_entries f grp) \<and> group_ok source_keys (yml_entries f grp)"
    and "cfg_batch_size c \<noteq> 0 \<or> ''batch-size'' \<in> fst ` set (yml_entries f NVSTREAMMUX_CONFIG_PROP_GROUP)"
  shows "ParseYmlConfig ub f c = Some (ParseTxtConfig ub strtoull (Some (kf_of f)) c)"
  using groups_agree [OF assms(1,2), of c ub] assms(3)
  by (auto simp: ParseYmlConfig_def ParseTxtConfig_def kf_of_def)

text \<open>
  Without a batch size in the file or from the caller the formats differ: YAML gives the
  documented default 1, the key file keeps the caller's 0, with which the mux never forms a batch.
\<close>

lemma txt_keeps_batch_size_zero:
  assumes "group_ok common_keys (yml_entries f grp)" "cfg_batch_size c = 0"
    and "''batch-size'' \<notin> fst ` set (yml_entries f grp)"
  shows "cfg_batch_size (ParseTxtConfigCommonProps ub (kf_of f) grp c) = 0 \<and>
    map_option cfg_batch_size (ParseYmlConfigCommonProps ub f grp c) = Some 1"
proof -
  have "map_of (yml_entries f grp) ''batch-size'' = None"
    using assms(3) by (simp add: map_of_eq_None_iff)
  then show ?thesis
    using assms(2)
    by (simp add: txt_common_lookup [OF assms(1)] yml_common_lookup [OF assms(1)] documented_common_def
        overlay_common_def set_common_defaults_def NVSTREAMMUX_DEFAULT_PROP_GROUP_BATCH_SIZE_def)
qed

section \<open>Source indices\<close>

text \<open>The decimal digits of a number.\<close>

fun decimal :: "nat \<Rightarrow> string" where
  "decimal n = (if n < 10 then [char_of (48 + n)] else decimal (n div 10) @ [char_of (48 + n mod 10)])"

declare decimal.simps [simp del]

lemma of_char_digit: "d < 10 \<Longrightarrow> (of_char (char_of (48 + d) :: char) :: nat) = 48 + d"
  by (simp add: take_bit_nat_eq_self)

lemma digits_value_append:
  "digits_value (s @ [ch]) n = 10 * digits_value s n + (of_char ch - 48)"
  by (induction s n rule: digits_value.induct) simp_all

lemma decimal_digits: "\<forall>ch \<in> set (decimal n). is_digit ch"
proof (induction n rule: decimal.induct)
  case (1 n)
  have "is_digit (char_of (48 + d))" if "d < 10" for d :: nat
    using that by (simp add: is_digit_def of_char_digit del: of_char_of)
  then show ?case using 1 by (subst decimal.simps) auto
qed

lemma decimal_value: "digits_value (decimal n) 0 = n"
proof (induction n rule: decimal.induct)
  case (1 n)
  show ?case
  proof (cases "n < 10")
    case True
    then show ?thesis by (subst decimal.simps) (simp add: of_char_digit del: of_char_of)
  next
    case False
    have "digits_value (decimal n) 0 = 10 * (n div 10) + n mod 10"
      using 1 False
      by (subst decimal.simps) (simp add: digits_value_append of_char_digit del: of_char_of)
    then show ?thesis by simp
  qed
qed

lemma decimal_nonempty: "decimal n \<noteq> []"
  by (subst decimal.simps) simp

lemma digit_not_special:
  assumes "is_digit ch"
  shows "\<not> is_space ch" "ch \<noteq> CHR ''-''" "ch \<noteq> CHR ''+''"
  using assms by (auto simp: is_digit_def is_space_def)

lemma stoull_decimal: "n < 18446744073709551616 \<Longrightarrow> stoull (decimal n) = Some (of_nat n)"
proof -
  assume n: "n < 18446744073709551616"
  obtain ch s where d: "decimal n = ch # s" using decimal_nonempty by (cases "decimal n") auto
  note ch = digit_not_special [of ch]
  have "is_digit ch" using decimal_digits [of n] d by simp
  then have "dropWhile is_space (decimal n) = decimal n" "ch \<noteq> CHR ''-''" "ch \<noteq> CHR ''+''"
    using ch by (simp_all add: d)
  moreover have "takeWhile is_digit (decimal n) = decimal n"
    using decimal_digits by (simp add: takeWhile_eq_all_conv)
  ultimately show ?thesis
    using n decimal_value [of n] unfolding stoull_def Let_def
    by (simp add: d)
qed

text \<open>
  A source group that is named with the decimal number of a source is stored under this
  number, with the values of its keys and the defaults for the others, as long as the number fits into 32 bits;
  a larger one is stored under its remainder, so that it collides with another source.
\<close>

lemma source_group_roundtrip:
  assumes "n < 18446744073709551616" "group_ok source_keys (yml_entries f grp)"
    and "grp = NVSTREAMMUX_CONFIG_SOURCE_GROUP_PREFIX @ decimal n"
  shows "yml_groups_loop ub f [grp] c = Some (c\<lparr>source_props :=
      al_touch (overlay_source (map_of (yml_entries f grp)) default_source_props)
        (of_nat (n mod 4294967296)) (source_props c)\<rparr>)"
proof -
  have "grp \<noteq> NVSTREAMMUX_CONFIG_PROP_GROUP" "has_prefix NVSTREAMMUX_CONFIG_SOURCE_GROUP_PREFIX grp"
    "source_suffix grp = decimal n"
    by (simp_all add: assms(3) NVSTREAMMUX_CONFIG_PROP_GROUP_def has_prefix_def source_suffix_def
        NVSTREAMMUX_CONFIG_SOURCE_GROUP_PREFIX_def)
  moreover have "(ucast (of_nat n :: u64) :: u32) = of_nat (n mod 4294967296)"
    by (simp add: word_unat_eq_iff unsigned_ucast_eq unat_of_nat take_bit_eq_mod mod_mod_cancel)
  ultimately show ?thesis
    using assms(1) by (simp add: stoull_decimal insert_source_props_def
        ParseYmlConfigPerSourceProps_def yml_source_entries_lookup [OF assms(2)])
qed

section \<open>From the file to the batch policy\<close>

text \<open>Every parser only adds entries with fresh ids to the table of source properties.\<close>

lemma distinct_insert_source_props [simp]:
  "distinct (map fst (source_props c)) \<Longrightarrow> distinct (map fst (source_props (insert_source_props idx p c)))"
  by (simp add: insert_source_props_def)

lemma source_props_set_common [simp]:
  "source_props (set_common_prop ub key i c) = source_props c"
  "source_props (set_common_defaults c) = source_props c"
  by (simp_all add: set_common_prop_def set_common_defaults_def)

lemma source_props_yml_entries:
  "yml_common_entries ub es (c, parsed) = Some (c', parsed') \<Longrightarrow> source_props c' = source_props c"
  by (induction es arbitrary: c parsed) (auto split: if_splits option.splits)

lemma source_props_yml_common:
  "ParseYmlConfigCommonProps ub f grp c = Some c' \<Longrightarrow> source_props c' = source_props c"
  by (auto simp: ParseYmlConfigCommonProps_def Let_def dest!: source_props_yml_entries
      split: option.splits if_splits)

lemma source_props_txt_common [simp]:
  "source_props (ParseTxtConfigCommonProps ub f grp c) = source_props c"
proof -
  have "source_props (txt_common_prop ub b key v c) = source_props c" for b key v c
    by (cases v) (simp_all add: txt_common_prop_def)
  then have "source_props (fold (\<lambda>key. txt_common_prop ub b key (g key)) ks c) = source_props c" for b g ks c
    by (induction ks arbitrary: c) simp_all
  then show ?thesis by (simp add: ParseTxtConfigCommonProps_def)
qed

lemma distinct_yml_groups:
  "yml_groups_loop ub f gs c = Some c' \<Longrightarrow> distinct (map fst (source_props c)) \<Longrightarrow>
   distinct (map fst (source_props c'))"
  by (induction gs arbitrary: c)
    (auto dest: source_props_yml_common split: if_splits option.splits)

lemma distinct_txt_groups:
  "distinct (map fst (source_props c)) \<Longrightarrow>
   distinct (map fst (source_props (txt_groups_loop ub strtoull f gs c)))"
  by (induction gs arbitrary: c) auto

lemma distinct_default_configs:
  assumes "distinct (map fst (source_props c))"
  shows "distinct (map fst (source_props (default_configs n c)))"
proof -
  have "distinct (map fst (source_props d)) \<Longrightarrow>
      distinct (map fst (source_props (fold (\<lambda>i. insert_source_props (of_nat i) p) xs d)))" for p xs d
    by (induction xs arbitrary: d) simp_all
  then show ?thesis using assms by (simp add: default_configs_def)
qed

lemma distinct_ParseConfigs:
  assumes "ParseConfigs L fs cfgFile defaults n c = Some (ok, c')"
    and "distinct (map fst (source_props c))"
  shows "distinct (map fst (source_props c'))"
  using assms
  by (auto simp: ParseConfigs_def ParseYmlConfig_def ParseTxtConfig_def
      split: if_splits option.splits
      intro: distinct_yml_groups distinct_txt_groups distinct_default_configs)

text \<open>
  Whatever the configuration file says, the policy made from the result is well-formed,
  starts at a valid position and knows exactly the configured sources and the existing pads.
\<close>

lemma parsed_policy_wf:
  assumes "ParseConfigs L fs cfgFile defaults n c = Some (ok, c')"
    and "distinct (map fst (source_props c))"
  shows "policy_wf (new_BatchPolicy c' ins now) \<and> position_ok (new_BatchPolicy c' ins now) \<and>
    snd ` set (sources (new_BatchPolicy c' ins now)) = fst ` set (source_props c') \<union> fst ` set ins"
  using new_BatchPolicy_result [OF distinct_ParseConfigs [OF assms]] .

text \<open>The source groups of a file, in its order, and the ids they stand for.\<close>

definition source_group :: "nat \<Rightarrow> string" where
  "source_group n = NVSTREAMMUX_CONFIG_SOURCE_GROUP_PREFIX @ decimal n"

definition is_source_group :: "string \<Rightarrow> bool" where
  "is_source_group g \<longleftrightarrow> g \<noteq> NVSTREAMMUX_CONFIG_PROP_GROUP \<and> has_prefix NVSTREAMMUX_CONFIG_SOURCE_GROUP_PREFIX g"

definition source_settings :: "yml_file \<Rightarrow> nat \<Rightarrow> u32 \<times> NvStreammuxSourceProps" where
  "source_settings f n = (of_nat n, overlay_source (map_of (yml_entries f (source_group n))) default_source_props)"

lemma of_nat_u32_eq: "n < 4294967296 \<Longrightarrow> n' < 4294967296 \<Longrightarrow> (of_nat n :: u32) = of_nat n' \<longleftrightarrow> n = n'"
  by (simp add: of_nat_inverse word_unat_eq_iff unat_of_nat take_bit_eq_mod)

lemma yml_groups_sources:
  assumes "\<forall>g\<in>set gs. group_ok common_keys (yml_entries f g) \<and> group_ok source_keys (yml_entries f g)"
    and "filter is_source_group gs = map source_group ns" "distinct ns" "\<forall>n\<in>set ns. n < 4294967296"
    and "of_nat ` set ns \<inter> fst ` set (source_props c) = {}"
  shows "\<exists>c'. yml_groups_loop ub f gs c = Some c' \<and> source_props c' = source_props c @ map (source_settings f) ns"
  using assms
proof (induction gs arbitrary: ns c)
  case (Cons g gs)
  then have ok: "group_ok common_keys (yml_entries f g)" "group_ok source_keys (yml_entries f g)"
    and rest: "\<forall>g\<in>set gs. group_ok common_keys (yml_entries f g) \<and> group_ok source_keys (yml_entries f g)" by simp_all
  show ?case
  proof (cases "is_source_group g")
    case True
    then obtain n ns' where ns: "ns = n # ns'" "g = source_group n" "filter is_source_group gs = map source_group ns'"
      using Cons.prems(2) by (cases ns) auto
    define c1 where "c1 = c\<lparr>source_props := source_props c @ [source_settings f n]\<rparr>"
    have fresh: "map_of (source_props c) (of_nat n) = None" using Cons.prems(5) ns(1) by (auto simp: map_of_eq_None_iff)
    have small: "n < 4294967296" using Cons.prems(4) ns(1) by simp
    then have "yml_groups_loop ub f [g] c = Some c1"
      using source_group_roundtrip[OF _ ok(2), of n ub c] ns(2) fresh
      by (simp add: source_group_def source_settings_def c1_def al_touch_def del: yml_groups_loop.simps)
    then have head: "yml_groups_loop ub f (g # gs) c = yml_groups_loop ub f gs c1"
      using True by (auto simp: is_source_group_def split: option.splits)
    have "of_nat ` set ns' \<inter> fst ` set (source_props c1) = {}"
      using Cons.prems(3-5) ns(1) by (auto simp: c1_def source_settings_def of_nat_u32_eq)
    from Cons.IH[OF rest ns(3) _ _ this] Cons.prems(3,4) ns(1) show ?thesis unfolding head by (simp add: c1_def)
  next
    case False
    with Cons.prems(2) have gs: "filter is_source_group gs = map source_group ns" by simp
    obtain c1 where head: "yml_groups_loop ub f (g # gs) c = yml_groups_loop ub f gs c1" "source_props c1 = source_props c"
    proof (cases "g = NVSTREAMMUX_CONFIG_PROP_GROUP")
      case True
      define c1 where "c1 = documented_common ub (map_of (yml_entries f g)) c"
      have "ParseYmlConfigCommonProps ub f g c = Some c1" unfolding c1_def by (rule yml_common_documented[OF ok(1)])
      with True source_props_yml_common[OF this] show ?thesis by (intro that[of c1]) simp_all
    next
      case False
      with \<open>\<not> is_source_group g\<close> show ?thesis using that by (simp add: is_source_group_def)
    qed
    from Cons.IH[OF rest gs Cons.prems(3,4), of c1] Cons.prems(5) show ?thesis unfolding head by simp
  qed
qed simp

text \<open>
  Property C20. From the file to the policy: when the source groups of a YAML file are named with different numbers below
  2 to the 32, the file is accepted, the configuration has exactly these sources, each with the values of its keys and the
  defaults for the others, and the policy made from it is well-formed and knows these sources and the existing pads, no others.
\<close>

theorem parsed_policy_sources:
  assumes "has_suffix path ''.yml'' \<or> has_suffix path ''.yaml''" "as_yml fs path = Some f" "source_props c = []"
    and "\<forall>g\<in>set (yml_groups f). group_ok common_keys (yml_entries f g) \<and> group_ok source_keys (yml_entries f g)"
    and "filter is_source_group (yml_groups f) = map source_group ns" "distinct ns" "\<forall>n\<in>set ns. n < 4294967296"
  shows "\<exists>c'. ParseConfigs L fs (Some path) False num c = Some (True, c') \<and> source_props c' = map (source_settings f) ns \<and>
    policy_wf (new_BatchPolicy c' ins now) \<and> position_ok (new_BatchPolicy c' ins now) \<and>
    snd ` set (sources (new_BatchPolicy c' ins now)) = of_nat ` set ns \<union> fst ` set ins"
proof -
  from yml_groups_sources[OF assms(4-7), of c "ub_method L"] assms(3)
  obtain c' where c': "yml_groups_loop (ub_method L) f (yml_groups f) c = Some c'" "source_props c' = map (source_settings f) ns"
    by auto
  then have parsed: "ParseConfigs L fs (Some path) False num c = Some (True, c')"
    using assms(1,2) by (simp add: ParseConfigs_def ParseYmlConfig_def)
  have "fst ` set (source_props c') = of_nat ` set ns" by (simp add: c'(2) source_settings_def image_image)
  with parsed_policy_wf[OF parsed, of ins now] parsed c'(2) assms(3) show ?thesis by auto
qed

lemma yml_groups_no_property:
  "yml_groups_loop ub f gs c = Some c' \<Longrightarrow> NVSTREAMMUX_CONFIG_PROP_GROUP \<notin> set gs \<Longrightarrow>
   c' = c\<lparr>source_props := source_props c'\<rparr>"
proof (induction gs arbitrary: c)
  case (Cons grp gs)
  show ?case
  proof (cases "has_prefix NVSTREAMMUX_CONFIG_SOURCE_GROUP_PREFIX grp")
    case True
    with Cons.prems obtain idx p where
      "yml_groups_loop ub f gs (insert_source_props idx p c) = Some c'"
      by (auto split: option.splits)
    from Cons.IH [OF this] Cons.prems(2) show ?thesis by (simp add: insert_source_props_def)
  next
    case False
    with Cons show ?thesis by auto
  qed
qed simp

lemma txt_groups_no_property:
  "\<forall>grp \<in> set gs. \<not> has_prefix NVSTREAMMUX_CONFIG_PROP_GROUP grp \<Longrightarrow>
   txt_groups_loop ub strtoull f gs c =
     c\<lparr>source_props := source_props (txt_groups_loop ub strtoull f gs c)\<rparr>"
proof (induction gs arbitrary: c)
  case (Cons grp gs)
  let ?c = "if has_prefix NVSTREAMMUX_CONFIG_SOURCE_GROUP_PREFIX grp
      then insert_source_props (strtoull (source_suffix grp)) (ParseTxtConfigPerSourceProps f grp) c else c"
  have step: "txt_groups_loop ub strtoull f (grp # gs) c = txt_groups_loop ub strtoull f gs ?c"
    using Cons.prems by simp
  have "?c = c\<lparr>source_props := source_props ?c\<rparr>" by (simp add: insert_source_props_def)
  then obtain p where p: "?c = c\<lparr>source_props := p\<rparr>" by blast
  have "txt_groups_loop ub strtoull f gs ?c =
      ?c\<lparr>source_props := source_props (txt_groups_loop ub strtoull f gs ?c)\<rparr>"
    by (rule Cons.IH) (use Cons.prems in simp)
  then show ?case unfolding step p by simp
qed simp

text \<open>
  A file without a \<open>property\<close> group parses successfully and leaves every common field as
  the caller had it; \<open>configure_module\<close> passes a configuration of which only the batch size is
  initialised.
\<close>

lemma missing_property_group:
  assumes "ParseConfigs L fs (Some path) False n c = Some (ok, c')"
    and "\<forall>f. as_yml fs path = Some f \<longrightarrow> NVSTREAMMUX_CONFIG_PROP_GROUP \<notin> set (yml_groups f)"
    and "\<forall>f. as_key_file fs path = Some f \<longrightarrow>
      (\<forall>grp \<in> set (kf_groups f). \<not> has_prefix NVSTREAMMUX_CONFIG_PROP_GROUP grp)"
  shows "c' = c\<lparr>source_props := source_props c'\<rparr>"
proof (cases "has_suffix path ''.yml'' \<or> has_suffix path ''.yaml''")
  case True
  with assms(1) obtain f where "as_yml fs path = Some f" "yml_groups_loop (ub_method L) f (yml_groups f) c = Some c'"
    by (auto simp: ParseConfigs_def ParseYmlConfig_def split: option.splits)
  with assms(2) show ?thesis by (intro yml_groups_no_property) auto
next
  case False
  with assms(1) have "ParseTxtConfig (ub_method L) (ascii_strtoull L) (as_key_file fs path) c = (ok, c')"
    by (simp add: ParseConfigs_def)
  then show ?thesis
    using txt_groups_no_property assms(3)
    by (auto simp: ParseTxtConfig_def split: option.splits)
qed

section \<open>The theorems applied\<close>

definition ex_libs :: config_libs where
  "ex_libs = \<lparr>ub_method = (\<lambda>_. BATCH_METHOD_NONE), ascii_strtoull = (\<lambda>s. of_nat (digits_value s 0))\<rparr>"

definition ex_yml :: yml_file where
  "ex_yml = \<lparr>yml_groups = [''property'', ''source-config-7'', ''other''],
     yml_entries = (\<lambda>grp.
       if grp = ''property'' then [(''batch-size'', Some 4), (''overall-min-fps-n'', Some 10), (''comment'', None)]
       else if grp = ''source-config-7'' then [(''priority'', Some 2)] else [])\<rparr>"

definition ex_fs :: file_system where
  "ex_fs = \<lparr>path_exists = (\<lambda>_. True),
     as_yml = (\<lambda>p. if p = ''a.yml'' then Some ex_yml else None),
     as_key_file = (\<lambda>p. if p = ''a.txt'' then Some \<lparr>kf_groups = [''source-config-1''], kf_keys = (\<lambda>_. []),
        kf_integer = (\<lambda>_ _. None)\<rparr> else None)\<rparr>"

definition ex_caller :: "u32 \<Rightarrow> BatchPolicyConfig" where
  "ex_caller b = \<lparr>cfg_type = BATCH_METHOD_NONE, adaptive_batching = False, cfg_batch_size = b,
     overall_max_fps_n = 0, overall_max_fps_d = 0, overall_min_fps_n = 0, overall_min_fps_d = 0,
     max_same_source_frames = 0, enable_source_rate_control = True, enable_max_fps_control = True,
     source_props = []\<rparr>"

lemma ex_groups_ok:
  "group_ok common_keys (yml_entries ex_yml grp)" "group_ok source_keys (yml_entries ex_yml grp)"
  by (simp_all add: ex_yml_def group_ok_def common_keys_def source_keys_def)

lemma yml_common_documented_witness:
  "map_option (\<lambda>c. (cfg_batch_size c, overall_min_fps_n c, overall_max_fps_n c))
     (ParseYmlConfigCommonProps (\<lambda>_. BATCH_METHOD_NONE) ex_yml ''property'' (ex_caller 9)) = Some (4, 10, 120)"
  unfolding yml_common_documented [OF ex_groups_ok(1)]
  by (simp add: ex_yml_def ex_caller_def documented_common_def overlay_common_def set_common_defaults_def)

lemma stoull_7: "stoull ''7'' = Some 7"
  by (simp add: stoull_def is_space_def is_digit_def Let_def)

theorem yml_txt_agree_witness:
  "ParseYmlConfig (ub_method ex_libs) ex_yml (ex_caller 0) =
     Some (ParseTxtConfig (ub_method ex_libs) (ascii_strtoull ex_libs) (Some (kf_of ex_yml)) (ex_caller 0))"
proof (rule yml_txt_agree)
  show "distinct (yml_groups ex_yml)" by (simp add: ex_yml_def)
  have "names_ok (ascii_strtoull ex_libs) grp" if "grp \<in> set (yml_groups ex_yml)" for grp
  proof -
    have "list_all (names_ok (ascii_strtoull ex_libs)) (yml_groups ex_yml)"
      by (simp add: ex_yml_def stoull_7 names_ok_def has_prefix_def source_suffix_def ex_libs_def
          NVSTREAMMUX_CONFIG_PROP_GROUP_def NVSTREAMMUX_CONFIG_SOURCE_GROUP_PREFIX_def)
    with that show ?thesis by (simp add: list_all_iff)
  qed
  then show "\<forall>grp \<in> set (yml_groups ex_yml). names_ok (ascii_strtoull ex_libs) grp \<and>
      group_ok common_keys (yml_entries ex_yml grp) \<and> group_ok source_keys (yml_entries ex_yml grp)"
    using ex_groups_ok by blast
qed (simp add: ex_yml_def NVSTREAMMUX_CONFIG_PROP_GROUP_def)

lemma txt_keeps_batch_size_zero_witness:
  "cfg_batch_size (ParseTxtConfigCommonProps (ub_method ex_libs) (kf_of ex_yml) ''source-config-7'' (ex_caller 0)) = 0"
  using txt_keeps_batch_size_zero [OF ex_groups_ok(1), of "ex_caller 0" "''source-config-7''" "ub_method ex_libs"]
  by (simp add: ex_caller_def ex_yml_def)

lemma source_group_roundtrip_witness:
  "map_option (\<lambda>c. map fst (source_props c))
     (yml_groups_loop (ub_method ex_libs) ex_yml [''source-config-'' @ decimal 4294967303] (ex_caller 1)) = Some [7]"
proof -
  let ?g = "NVSTREAMMUX_CONFIG_SOURCE_GROUP_PREFIX @ decimal 4294967303"
  have "(4294967303 :: nat) < 18446744073709551616" by simp
  note r = source_group_roundtrip [OF this ex_groups_ok(2) refl, of "ub_method ex_libs" "ex_caller 1"]
  have g: "?g = ''source-config-'' @ decimal 4294967303"
    by (simp only: NVSTREAMMUX_CONFIG_SOURCE_GROUP_PREFIX_def)
  have "source_props (ex_caller 1) = []" by (simp add: ex_caller_def)
  then show ?thesis using r unfolding g by (simp add: al_touch_def)
qed

lemma parsed_policy_wf_witness:
  "\<exists>c'. ParseConfigs ex_libs ex_fs None True 2 (ex_caller 0) = Some (True, c') \<and>
     policy_wf (new_BatchPolicy c' [] 0) \<and> snd ` set (sources (new_BatchPolicy c' [] 0)) = {0, 1}"
proof -
  define c' where "c' = default_configs 2 (ex_caller 0)"
  have two: "[0..<2] = [0, 1 :: nat]" by (simp add: upt_rec)
  have r: "ParseConfigs ex_libs ex_fs None True 2 (ex_caller 0) = Some (True, c')"
    by (simp add: ParseConfigs_def c'_def)
  have ids: "fst ` set (source_props c') = {0, 1}"
    by (simp add: c'_def default_configs_def two insert_source_props_def al_touch_def ex_caller_def)
  have "distinct (map fst (source_props (ex_caller 0)))" by (simp add: ex_caller_def)
  from parsed_policy_wf [OF r this, of "[]" 0, unfolded ids] r show ?thesis by auto
qed

theorem parsed_policy_sources_witness:
  "\<exists>c'. ParseConfigs ex_libs ex_fs (Some ''a.yml'') False 0 (ex_caller 0) = Some (True, c') \<and>
     source_props c' = [(7, default_source_props\<lparr>priority := 2\<rparr>)] \<and>
     snd ` set (sources (new_BatchPolicy c' [(3, None)] 0)) = {3, 7}"
proof -
  have d: "decimal 7 = ''7''" by code_simp
  have yml: "has_suffix ''a.yml'' ''.yml'' \<or> has_suffix ''a.yml'' ''.yaml''" "as_yml ex_fs ''a.yml'' = Some ex_yml"
    "source_props (ex_caller 0) = []"
    by (simp_all add: has_suffix_def ex_fs_def ex_caller_def)
  have groups: "filter is_source_group (yml_groups ex_yml) = map source_group [7]"
    by (simp add: ex_yml_def is_source_group_def source_group_def d has_prefix_def
        NVSTREAMMUX_CONFIG_PROP_GROUP_def NVSTREAMMUX_CONFIG_SOURCE_GROUP_PREFIX_def)
  have settings: "map (source_settings ex_yml) [7] = [(7, default_source_props\<lparr>priority := 2\<rparr>)]"
    by (simp add: source_settings_def source_group_def d ex_yml_def overlay_source_def default_source_props_def
        NVSTREAMMUX_CONFIG_SOURCE_GROUP_PREFIX_def)
  show ?thesis
    using parsed_policy_sources[OF yml _ groups, of ex_libs 0 "[(3, None)]" 0] ex_groups_ok unfolding settings
    by auto
qed

lemma missing_property_group_witness:
  "\<exists>c'. ParseConfigs ex_libs ex_fs (Some ''a.txt'') False 1 (ex_caller 0) = Some (True, c') \<and>
     enable_max_fps_control c' = True \<and> overall_min_fps_d c' = 0"
proof -
  have "case ParseConfigs ex_libs ex_fs (Some ''a.txt'') False 1 (ex_caller 0) of
      None \<Rightarrow> False | Some (ok, c') \<Rightarrow> ok"
    by code_simp
  then obtain c' where r: "ParseConfigs ex_libs ex_fs (Some ''a.txt'') False 1 (ex_caller 0) = Some (True, c')"
    by (auto split: option.splits)
  have "c' = ex_caller 0\<lparr>source_props := source_props c'\<rparr>"
    by (rule missing_property_group [OF r])
      (simp_all add: ex_fs_def has_prefix_def NVSTREAMMUX_CONFIG_PROP_GROUP_def)
  then have "enable_max_fps_control c' = True \<and> overall_min_fps_d c' = 0"
    by (metis (no_types, lifting) BatchPolicyConfig.select_convs(7,10) BatchPolicyConfig.update_convs(11) ex_caller_def)
  with r show ?thesis by blast
qed

end
