(* ===== verification/BufferPool.thy ===== *)
theory BufferPool
  imports Prelude "HOL-Library.Multiset"
begin

text \<open>
  The contract that the two buffer pools of the tracker plugin share, and what a client may conclude
  from it. \<open>free_bufs\<close> are the unused buffers in queue order, \<open>all_bufs\<close> the buffers the pool was made
  with, \<open>wf\<close> is the invariant of the pool. The client holds the buffers it took; it gives back only
  those.
\<close>

datatype 'b pool_op = Take | Give 'b

text \<open>A pointer in the queue of free buffers that is one of the pool, and not null.\<close>

fun of_pool :: "nat list \<Rightarrow> nat option \<Rightarrow> bool" where
  "of_pool bs None = False"
| "of_pool bs (Some b) = (b \<in> set bs)"

locale buffer_pool =
  fixes wf :: "'p \<Rightarrow> bool"
    and free_bufs :: "'p \<Rightarrow> 'b list"
    and all_bufs :: "'p \<Rightarrow> 'b list"
    and take_buf :: "'p \<Rightarrow> ('b \<times> 'p) option"
    and give_buf :: "'b \<Rightarrow> 'p \<Rightarrow> 'p option"
  assumes take_front: "wf p \<Longrightarrow> free_bufs p = b # q \<Longrightarrow>
      \<exists>p'. take_buf p = Some (b, p') \<and> free_bufs p' = q \<and> all_bufs p' = all_bufs p \<and> wf p'"
    and take_empty: "wf p \<Longrightarrow> free_bufs p = [] \<Longrightarrow> take_buf p = None"
    and give_end: "wf p \<Longrightarrow> b \<in> set (all_bufs p) \<Longrightarrow>
      \<exists>p'. give_buf b p = Some p' \<and> free_bufs p' = free_bufs p @ [b] \<and> all_bufs p' = all_bufs p \<and> wf p'"
begin

text \<open>The pool and the buffers lent out. A \<open>Take\<close> from an empty pool leaves both as they are.\<close>

fun pool_step :: "'b pool_op \<Rightarrow> 'p \<times> 'b list \<Rightarrow> ('p \<times> 'b list) option" where
  "pool_step Take (p, lent) =
     (case take_buf p of None \<Rightarrow> Some (p, lent) | Some (b, p') \<Rightarrow> Some (p', b # lent))"
| "pool_step (Give b) (p, lent) =
     (if b \<in> set lent then (case give_buf b p of None \<Rightarrow> None | Some p' \<Rightarrow> Some (p', remove1 b lent))
      else None)"

fun pool_run :: "'b pool_op list \<Rightarrow> 'p \<times> 'b list \<Rightarrow> ('p \<times> 'b list) option" where
  "pool_run [] s = Some s"
| "pool_run (a # as) s = (case pool_step a s of None \<Rightarrow> None | Some s' \<Rightarrow> pool_run as s')"

definition conserved :: "'p \<times> 'b list \<Rightarrow> bool" where
  "conserved s \<longleftrightarrow> wf (fst s) \<and> mset (free_bufs (fst s)) + mset (snd s) = mset (all_bufs (fst s))"

lemma step_conserved:
  assumes "conserved s" "pool_step a s = Some s'"
  shows "conserved s' \<and> all_bufs (fst s') = all_bufs (fst s)"
proof (cases a)
  case Take
  obtain p lent where s: "s = (p, lent)" by (cases s)
  have wf: "wf p" using assms(1) by (simp add: s conserved_def)
  show ?thesis
  proof (cases "free_bufs p")
    case Nil
    with take_empty [OF wf] assms Take show ?thesis by (simp add: s)
  next
    case (Cons b q)
    from take_front [OF wf Cons] assms Take Cons show ?thesis
      by (auto simp: s conserved_def)
  qed
next
  case (Give b)
  obtain p lent where s: "s = (p, lent)" by (cases s)
  have wf: "wf p" and b: "b \<in> set lent"
    using assms Give by (auto simp: s conserved_def split: if_splits)
  have all: "mset (free_bufs p) + mset lent = mset (all_bufs p)"
    using assms(1) by (simp add: s conserved_def)
  have "b \<in> set (all_bufs p)" using b all by (metis UnCI set_mset_mset set_mset_union)
  from give_end [OF wf this] obtain p' where
    g: "give_buf b p = Some p'" "free_bufs p' = free_bufs p @ [b]" "all_bufs p' = all_bufs p" "wf p'"
    by blast
  have "s' = (p', remove1 b lent)" using assms(2) Give b g(1) by (simp add: s)
  moreover have "mset (free_bufs p) + add_mset b (mset lent - {#b#}) = mset (all_bufs p)"
    using b all by simp
  ultimately show ?thesis using g by (simp add: s conserved_def)
qed

lemma run_conserved:
  "pool_run as s = Some s' \<Longrightarrow> conserved s \<Longrightarrow> conserved s' \<and> all_bufs (fst s') = all_bufs (fst s)"
proof (induction as arbitrary: s)
  case (Cons a as)
  then obtain t where t: "pool_step a s = Some t" "pool_run as t = Some s'"
    by (auto split: option.splits)
  with step_conserved [OF Cons.prems(2) t(1)] Cons.IH [OF t(2)] show ?case by simp
qed simp

text \<open>No buffer is handed out twice, and none is free and lent at the same time.\<close>

lemma conserved_distinct:
  assumes "conserved s" "distinct (all_bufs (fst s))"
  shows "distinct (free_bufs (fst s) @ snd s)"
proof -
  have "mset (free_bufs (fst s) @ snd s) = mset (all_bufs (fst s))"
    using assms(1) by (simp add: conserved_def)
  with assms(2) show ?thesis by (metis mset_eq_imp_distinct_iff)
qed

text \<open>Once everything is given back the queue is full, so whoever waits for that goes on.\<close>

lemma conserved_full:
  assumes "conserved s"
  shows "length (free_bufs (fst s)) = length (all_bufs (fst s)) \<longleftrightarrow> snd s = []"
proof -
  have "length (free_bufs (fst s)) + length (snd s) = length (all_bufs (fst s))"
    using assms unfolding conserved_def by (metis size_mset size_union)
  then show ?thesis by auto
qed

lemma pool_contract:
  assumes "wf p" "free_bufs p = all_bufs p" "distinct (all_bufs p)"
    and "pool_run as (p, []) = Some (p', lent)"
  shows "distinct (free_bufs p' @ lent) \<and> set (free_bufs p') \<union> set lent = set (all_bufs p) \<and>
    (length (free_bufs p') = length (all_bufs p) \<longleftrightarrow> lent = [])"
proof -
  have "conserved (p, [])" using assms(1,2) by (simp add: conserved_def)
  from run_conserved [OF assms(4) this] have c: "conserved (p', lent)" "all_bufs p' = all_bufs p"
    by simp_all
  have "set (free_bufs p') \<union> set lent = set (all_bufs p)"
    using c unfolding conserved_def by (metis fst_conv set_mset_mset set_mset_union snd_conv)
  with conserved_distinct [OF c(1)] conserved_full [OF c(1)] c(2) assms(3) show ?thesis by simp
qed

end

text \<open>
  A pool that cleans a buffer when it comes back, with a client that writes into the buffers it holds.
\<close>

locale clean_pool = buffer_pool wf free_bufs all_bufs take_buf give_buf
  for wf :: "'p \<Rightarrow> bool" and free_bufs all_bufs :: "'p \<Rightarrow> 'b list" and take_buf give_buf +
  fixes clean :: "'b \<Rightarrow> 'p \<Rightarrow> bool"
    and write_buf :: "'w \<Rightarrow> 'b \<Rightarrow> 'p \<Rightarrow> 'p"
  assumes take_clean: "wf p \<Longrightarrow> take_buf p = Some (b, p') \<Longrightarrow> clean x p \<Longrightarrow> clean x p'"
    and give_clean: "wf p \<Longrightarrow> b \<in> set (all_bufs p) \<Longrightarrow> give_buf b p = Some p' \<Longrightarrow>
      clean b p' \<and> (clean x p \<longrightarrow> clean x p')"
    and write_frame: "wf p \<Longrightarrow> b \<in> set (all_bufs p) \<Longrightarrow>
      wf (write_buf w b p) \<and> free_bufs (write_buf w b p) = free_bufs p \<and>
      all_bufs (write_buf w b p) = all_bufs p \<and> (x \<noteq> b \<longrightarrow> clean x p \<longrightarrow> clean x (write_buf w b p))"
begin

fun client_step :: "'b pool_op + 'w \<times> 'b \<Rightarrow> 'p \<times> 'b list \<Rightarrow> ('p \<times> 'b list) option" where
  "client_step (Inl a) s = pool_step a s"
| "client_step (Inr (w, b)) (p, lent) = (if b \<in> set lent then Some (write_buf w b p, lent) else None)"

fun client_run :: "('b pool_op + 'w \<times> 'b) list \<Rightarrow> 'p \<times> 'b list \<Rightarrow> ('p \<times> 'b list) option" where
  "client_run [] s = Some s"
| "client_run (a # as) s = (case client_step a s of None \<Rightarrow> None | Some s' \<Rightarrow> client_run as s')"

definition clean_state :: "'p \<times> 'b list \<Rightarrow> bool" where
  "clean_state s \<longleftrightarrow> conserved s \<and> distinct (all_bufs (fst s)) \<and> (\<forall>b \<in> set (free_bufs (fst s)). clean b (fst s))"

lemma client_step_clean:
  assumes "clean_state s" "client_step a s = Some s'"
  shows "clean_state s' \<and> all_bufs (fst s') = all_bufs (fst s)"
proof (cases a)
  case (Inl op)
  have c: "conserved s" and step: "pool_step op s = Some s'"
    using assms Inl by (simp_all add: clean_state_def)
  note keep = step_conserved [OF c step]
  obtain p lent where s: "s = (p, lent)" by (cases s)
  have wf: "wf p" and all: "mset (free_bufs p) + mset lent = mset (all_bufs p)"
    and cl: "\<forall>b \<in> set (free_bufs p). clean b p"
    using c assms(1) by (simp_all add: s conserved_def clean_state_def)
  have "\<forall>b \<in> set (free_bufs (fst s')). clean b (fst s')"
  proof (cases op)
    case Take
    show ?thesis
    proof (cases "free_bufs p")
      case Nil
      with take_empty [OF wf] step Take have "s' = (p, lent)" by (simp add: s)
      with Nil show ?thesis by simp
    next
      case (Cons b q)
      from take_front [OF wf Cons] obtain p' where
        p': "take_buf p = Some (b, p')" "free_bufs p' = q" by blast
      with step Take have "s' = (p', b # lent)" by (simp add: s)
      with p'(2) Cons cl take_clean [OF wf p'(1)] show ?thesis by simp
    qed
  next
    case (Give b)
    then have b: "b \<in> set lent" using step by (auto simp: s split: if_splits)
    then have "b \<in> set (all_bufs p)" using all by (metis UnCI set_mset_mset set_mset_union)
    from give_end [OF wf this] obtain p' where
      p': "give_buf b p = Some p'" "free_bufs p' = free_bufs p @ [b]" by blast
    with step Give b have "s' = (p', remove1 b lent)" by (simp add: s)
    with p'(2) cl give_clean [OF wf \<open>b \<in> set (all_bufs p)\<close> p'(1)] show ?thesis by auto
  qed
  with keep assms(1) show ?thesis by (simp add: clean_state_def)
next
  case (Inr wb)
  obtain w b where wb: "wb = (w, b)" by (cases wb)
  obtain p lent where s: "s = (p, lent)" by (cases s)
  have b: "b \<in> set lent" and s': "s' = (write_buf w b p, lent)"
    using assms(2) by (auto simp: Inr wb s split: if_splits)
  have c: "conserved (p, lent)" and d: "distinct (all_bufs p)"
    using assms(1) by (simp_all add: s clean_state_def)
  have wf: "wf p" and all: "mset (free_bufs p) + mset lent = mset (all_bufs p)"
    using c by (simp_all add: conserved_def)
  have "b \<in> set (all_bufs p)" using b all by (metis UnCI set_mset_mset set_mset_union)
  note frame = write_frame [OF wf this]
  have "b \<notin> set (free_bufs p)" using conserved_distinct [OF c] d b by auto
  then have "clean x (write_buf w b p)" if "x \<in> set (free_bufs p)" for x
    using frame [of w x] that assms(1) by (auto simp: s clean_state_def)
  then show ?thesis
    using frame [of w b] assms(1) c by (simp add: s s' clean_state_def conserved_def)
qed

lemma client_run_clean:
  "client_run as s = Some s' \<Longrightarrow> clean_state s \<Longrightarrow> clean_state s' \<and> all_bufs (fst s') = all_bufs (fst s)"
proof (induction as arbitrary: s)
  case (Cons a as)
  then obtain t where t: "client_step a s = Some t" "client_run as t = Some s'"
    by (auto split: option.splits)
  with client_step_clean [OF Cons.prems(2) t(1)] Cons.IH [OF t(2)] show ?case by simp
qed simp

lemma clean_contract:
  assumes "wf p" "free_bufs p = all_bufs p" "distinct (all_bufs p)" "\<forall>b \<in> set (all_bufs p). clean b p"
    and "client_run as (p, []) = Some (p', lent)"
  shows "distinct (free_bufs p' @ lent) \<and> set (free_bufs p') \<union> set lent = set (all_bufs p) \<and>
    (\<forall>b \<in> set (free_bufs p'). clean b p') \<and> wf p'"
proof -
  have "clean_state (p, [])" using assms(1-4) by (simp add: clean_state_def conserved_def)
  from client_run_clean [OF assms(5) this]
  have c: "clean_state (p', lent)" "all_bufs p' = all_bufs p" by simp_all
  then have cons: "conserved (p', lent)" by (simp add: clean_state_def)
  then have "set (free_bufs p') \<union> set lent = set (all_bufs p)"
    using c(2) unfolding conserved_def by (metis fst_conv set_mset_mset set_mset_union snd_conv)
  with conserved_distinct [OF cons] c assms(3) cons show ?thesis
    by (simp add: clean_state_def conserved_def)
qed

end

end
