(* ===== verification/ConvPool.thy ===== *)
theory ConvPool
  imports BufferPool
begin

text \<open>
  The pool of surfaces for format conversion in the tracker plugin:
  \<open>src/sources/gst-plugins/gst-nvtracker/convbufmanager.cpp\<close> and \<open>convbufmanager.h\<close>.

  CUDA and the surface libraries are outside of the repository; \<open>conv_libs\<close> holds the outcome of the
  calls the code makes. A surface pointer is a number, a null pointer in the queue is \<open>None\<close>. Every
  operation that can run into undefined behaviour (taking the front of an empty queue, using a null
  or indeterminate pointer, writing behind an array) returns \<open>None\<close> then.
\<close>

section \<open>State\<close>

record Rect =
  rect_top :: u32
  rect_left :: u32
  rect_width :: u32
  rect_height :: u32

text \<open>The constructor leaves the pointers in the transform parameters indeterminate.\<close>

datatype rects = Indeterminate | NullRects | Rects "Rect list"

record ConvBufManager =
  m_BufferSet :: "nat list"
  m_Running :: bool
  m_Initialized :: bool
  m_IntentionallyEmpty :: bool
  src_rect :: rects
  dst_rect :: rects
  m_FreeQueue :: "nat option list"

record conv_libs =
  cudaSetDevice_ok :: bool
  cudaStreamCreate_ok :: bool
  surface_create :: "nat \<Rightarrow> nat option"
  surface_batch :: "nat \<Rightarrow> nat"
  needs_map :: "nat \<Rightarrow> bool"
  is_surface_array :: "nat \<Rightarrow> bool"
  surface_map :: "nat \<Rightarrow> nat \<Rightarrow> bool"
  map_egl :: "nat \<Rightarrow> bool"
  session_ok :: bool
  num_filled :: "nat \<Rightarrow> nat"
  plane_size :: "nat \<Rightarrow> nat \<Rightarrow> u32 \<times> u32"
  transform_async :: "nat \<Rightarrow> nat \<Rightarrow> nat option"

definition MAX_BUFFER_POOL_SIZE :: nat where
  "MAX_BUFFER_POOL_SIZE = 2"

definition new_ConvBufManager :: ConvBufManager where
  "new_ConvBufManager =
     \<lparr>m_BufferSet = [], m_Running = False, m_Initialized = False, m_IntentionallyEmpty = False,
      src_rect = Indeterminate, dst_rect = Indeterminate, m_FreeQueue = []\<rparr>"

section \<open>Operations\<close>

definition returnBuffer :: "nat option \<Rightarrow> ConvBufManager \<Rightarrow> ConvBufManager" where
  "returnBuffer b m =
     (if m_IntentionallyEmpty m then m else m\<lparr>m_FreeQueue := m_FreeQueue m @ [b]\<rparr>)"

text \<open>The surfaces that \<open>deInit\<close> destroys, in order; a null pointer is dereferenced.\<close>

fun destroy_all :: "nat option list \<Rightarrow> nat list option" where
  "destroy_all [] = Some []"
| "destroy_all (None # q) = None"
| "destroy_all (Some b # q) = (case destroy_all q of None \<Rightarrow> None | Some bs \<Rightarrow> Some (b # bs))"

fun free_rects :: "rects \<Rightarrow> rects option" where
  "free_rects Indeterminate = None"
| "free_rects NullRects = Some NullRects"
| "free_rects (Rects _) = Some NullRects"

definition deInit :: "ConvBufManager \<Rightarrow> (nat list \<times> ConvBufManager) option" where
  "deInit m =
     (let m0 = m\<lparr>m_Running := False\<rparr>
      in if m_IntentionallyEmpty m0 then Some ([], m0)
         else
           case destroy_all (m_FreeQueue m0) of
             None \<Rightarrow> None
           | Some bs \<Rightarrow>
               (case (free_rects (src_rect m0), free_rects (dst_rect m0)) of
                  (Some s, Some d) \<Rightarrow>
                    Some (bs, m0\<lparr>m_FreeQueue := [], m_BufferSet := [], src_rect := s, dst_rect := d\<rparr>)
                | _ \<Rightarrow> None))"

text \<open>One round of the loop that creates the buffer sets; \<open>False\<close> is the exit through \<open>deInit\<close>.\<close>

definition create_set :: "conv_libs \<Rightarrow> nat \<Rightarrow> ConvBufManager \<Rightarrow> bool \<times> ConvBufManager" where
  "create_set L setInd m =
     (case surface_create L setInd of
        None \<Rightarrow> (False, m)
      | Some b \<Rightarrow>
          let m1 = m\<lparr>m_BufferSet := m_BufferSet m @ [b]\<rparr>
          in if needs_map L b \<and> \<not> list_all (surface_map L b) [0..<surface_batch L b] then (False, m1)
             else if is_surface_array L b \<and> \<not> map_egl L b then (False, m1)
             else (True, returnBuffer (Some b) m1))"

fun create_sets :: "conv_libs \<Rightarrow> nat list \<Rightarrow> ConvBufManager \<Rightarrow> bool \<times> ConvBufManager" where
  "create_sets L [] m = (True, m)"
| "create_sets L (i # is) m =
     (case create_set L i m of (ok, m') \<Rightarrow> if ok then create_sets L is m' else (False, m'))"

definition zero_rect :: Rect where
  "zero_rect = \<lparr>rect_top = 0, rect_left = 0, rect_width = 0, rect_height = 0\<rparr>"

definition init_pool ::
  "conv_libs \<Rightarrow> u32 \<Rightarrow> bool \<Rightarrow> ConvBufManager \<Rightarrow> (bool \<times> nat list \<times> ConvBufManager) option" where
  "init_pool L batchSize no_bufs m =
     (if no_bufs then Some (True, [], m\<lparr>m_IntentionallyEmpty := True, m_Running := True\<rparr>)
      else if \<not> cudaSetDevice_ok L then Some (False, [], m)
      else if \<not> cudaStreamCreate_ok L then Some (False, [], m)
      else
        let m1 = m\<lparr>src_rect := Rects (replicate (unat batchSize) zero_rect),
                   dst_rect := Rects (replicate (unat batchSize) zero_rect)\<rparr>
        in case create_sets L [0..<MAX_BUFFER_POOL_SIZE] m1 of
             (False, m2) \<Rightarrow>
               (case deInit m2 of None \<Rightarrow> None | Some (bs, m3) \<Rightarrow> Some (False, bs, m3))
           | (True, m2) \<Rightarrow> Some (True, [], m2\<lparr>m_Running := True, m_Initialized := True\<rparr>))"

text \<open>The first \<open>n\<close> rectangles are set to whole surfaces; writing behind the array is undefined.\<close>

definition whole_surface :: "conv_libs \<Rightarrow> nat \<Rightarrow> nat \<Rightarrow> Rect" where
  "whole_surface L b i =
     \<lparr>rect_top = 0, rect_left = 0, rect_width = fst (plane_size L b i), rect_height = snd (plane_size L b i)\<rparr>"

definition set_rois :: "conv_libs \<Rightarrow> nat \<Rightarrow> nat \<Rightarrow> rects \<Rightarrow> rects option" where
  "set_rois L b n r =
     (case r of
        Rects rs \<Rightarrow>
          if n \<le> length rs \<and> n \<le> surface_batch L b
          then Some (Rects (map (whole_surface L b) [0..<n] @ drop n rs)) else None
      | _ \<Rightarrow> if n = 0 then Some r else None)"

text \<open>The result is the converted surface, or null, with the synchronisation object.\<close>

definition convertBatchAsync ::
  "conv_libs \<Rightarrow> nat \<Rightarrow> ConvBufManager \<Rightarrow> (nat option \<times> nat option \<times> ConvBufManager) option" where
  "convertBatchAsync L batch_in m =
     (if m_IntentionallyEmpty m then Some (None, None, m)
      else
        case m_FreeQueue m of
          [] \<Rightarrow> None
        | pBuffer # q \<Rightarrow>
            let m1 = m\<lparr>m_FreeQueue := q\<rparr>
            in case pBuffer of
                 None \<Rightarrow> Some (None, None, m1)
               | Some b \<Rightarrow>
                   if \<not> session_ok L then Some (None, None, m1)
                   else
                     let n = num_filled L batch_in
                     in case (set_rois L batch_in n (src_rect m1), set_rois L b n (dst_rect m1)) of
                          (Some s, Some d) \<Rightarrow>
                            let m2 = m1\<lparr>src_rect := s, dst_rect := d\<rparr>
                            in (case transform_async L batch_in b of
                                  None \<Rightarrow> Some (None, None, returnBuffer pBuffer m2)
                                | Some sync \<Rightarrow> Some (pBuffer, Some sync, m2))
                        | _ \<Rightarrow> None)"

datatype sync_call = SyncObjWait nat | SyncObjDestroy nat | SyncForCpu nat nat

definition syncBuffer :: "conv_libs \<Rightarrow> nat option \<Rightarrow> nat option \<Rightarrow> ConvBufManager \<Rightarrow> sync_call list" where
  "syncBuffer L pBuffer sync m =
     (if m_IntentionallyEmpty m then []
      else (case sync of None \<Rightarrow> [] | Some s \<Rightarrow> [SyncObjWait s, SyncObjDestroy s]) @
           (case pBuffer of
              None \<Rightarrow> []
            | Some b \<Rightarrow>
                if is_surface_array L b then map (SyncForCpu b) [0..<num_filled L b] else []))"

definition isQueueFull :: "ConvBufManager \<Rightarrow> bool" where
  "isQueueFull m \<longleftrightarrow> length (m_FreeQueue m) = MAX_BUFFER_POOL_SIZE"

definition isQueueEmpty :: "ConvBufManager \<Rightarrow> bool" where
  "isQueueEmpty m \<longleftrightarrow> m_FreeQueue m = []"

definition getMaxPoolSize :: nat where
  "getMaxPoolSize = MAX_BUFFER_POOL_SIZE"

section \<open>The pool as provider of the contract\<close>

text \<open>
  Taking a buffer is a conversion that succeeds; \<open>pool_ready\<close> says when that is: the arrays of
  rectangles are large enough for every surface, no pointer is null and the libraries do not fail.
\<close>

definition take_converted :: "conv_libs \<Rightarrow> nat \<Rightarrow> ConvBufManager \<Rightarrow> (nat \<times> ConvBufManager) option" where
  "take_converted L batch_in m =
     (if isQueueEmpty m then None
      else case convertBatchAsync L batch_in m of Some (Some b, _, m') \<Rightarrow> Some (b, m') | _ \<Rightarrow> None)"

definition room_for :: "nat \<Rightarrow> rects \<Rightarrow> bool" where
  "room_for n r \<longleftrightarrow> (case r of Rects rs \<Rightarrow> n \<le> length rs | _ \<Rightarrow> False)"

definition pool_ready :: "conv_libs \<Rightarrow> nat \<Rightarrow> ConvBufManager \<Rightarrow> bool" where
  "pool_ready L batch_in m \<longleftrightarrow>
     \<not> m_IntentionallyEmpty m \<and> session_ok L \<and> num_filled L batch_in \<le> surface_batch L batch_in \<and>
     room_for (num_filled L batch_in) (src_rect m) \<and> room_for (num_filled L batch_in) (dst_rect m) \<and>
     list_all (\<lambda>b. num_filled L batch_in \<le> surface_batch L b \<and> transform_async L batch_in b \<noteq> None)
       (m_BufferSet m) \<and>
     list_all (of_pool (m_BufferSet m)) (m_FreeQueue m)"

definition free_surfaces :: "ConvBufManager \<Rightarrow> nat list" where
  "free_surfaces m = map the (m_FreeQueue m)"

lemma set_rois_room:
  assumes "room_for n r" "n \<le> surface_batch L b"
  shows "\<exists>r'. set_rois L b n r = Some r' \<and> (\<forall>k. room_for k r \<longrightarrow> room_for k r')"
  using assms by (auto simp: set_rois_def room_for_def split: rects.splits)

lemma pool_ready_member:
  assumes "pool_ready L i m" "b \<in> set (m_BufferSet m)"
  shows "num_filled L i \<le> surface_batch L b" "\<exists>sync. transform_async L i b = Some sync"
  using assms by (simp_all add: pool_ready_def list_all_iff)

lemma take_converted_front:
  assumes "pool_ready L i m" "free_surfaces m = b # q"
  shows "\<exists>m'. take_converted L i m = Some (b, m') \<and> free_surfaces m' = q \<and>
    m_BufferSet m' = m_BufferSet m \<and> pool_ready L i m'"
proof -
  obtain p ps where fq: "m_FreeQueue m = p # ps" "the p = b" "map the ps = q"
    using assms(2) by (auto simp: free_surfaces_def map_eq_Cons_conv)
  with assms(1) have p: "p = Some b" and b: "b \<in> set (m_BufferSet m)"
    by (cases p; simp add: pool_ready_def)+
  let ?n = "num_filled L i"
  have lib: "?n \<le> surface_batch L i" "?n \<le> surface_batch L b" "session_ok L" "\<not> m_IntentionallyEmpty m"
    using assms(1) pool_ready_member [OF assms(1) b] by (simp_all add: pool_ready_def)
  obtain s d where s: "set_rois L i ?n (src_rect m) = Some s" "\<forall>k. room_for k (src_rect m) \<longrightarrow> room_for k s"
    and d: "set_rois L b ?n (dst_rect m) = Some d" "\<forall>k. room_for k (dst_rect m) \<longrightarrow> room_for k d"
    using set_rois_room [OF _ lib(1), of "src_rect m"] set_rois_room [OF _ lib(2), of "dst_rect m"] assms(1)
    unfolding pool_ready_def by blast
  obtain sync where sync: "transform_async L i b = Some sync"
    using pool_ready_member [OF assms(1) b] by blast
  have "take_converted L i m = Some (b, m\<lparr>m_FreeQueue := ps, src_rect := s, dst_rect := d\<rparr>)"
    using fq p lib s(1) d(1) sync
    by (simp add: take_converted_def isQueueEmpty_def convertBatchAsync_def Let_def)
  moreover have "pool_ready L i (m\<lparr>m_FreeQueue := ps, src_rect := s, dst_rect := d\<rparr>)"
    using assms(1) fq(1) s(2) d(2) by (simp add: pool_ready_def)
  ultimately show ?thesis using fq(3) by (simp add: free_surfaces_def)
qed

interpretation conv: buffer_pool "pool_ready L i" free_surfaces m_BufferSet "take_converted L i"
  "\<lambda>b m. Some (returnBuffer (Some b) m)" for L i
proof unfold_locales
  show "take_converted L i p = None" if "pool_ready L i p" "free_surfaces p = []" for p
    using that by (simp add: take_converted_def isQueueEmpty_def free_surfaces_def)
  show "\<exists>p'. Some (returnBuffer (Some b) p) = Some p' \<and> free_surfaces p' = free_surfaces p @ [b] \<and>
      m_BufferSet p' = m_BufferSet p \<and> pool_ready L i p'"
    if "pool_ready L i p" "b \<in> set (m_BufferSet p)" for p b
    using that by (simp add: returnBuffer_def free_surfaces_def pool_ready_def)
qed (rule take_converted_front)

section \<open>Properties\<close>

lemma create_set_True:
  assumes "create_set L i m = (True, m')" "\<not> m_IntentionallyEmpty m"
    and "m_FreeQueue m = map Some (m_BufferSet m)"
  shows "\<exists>b. surface_create L i = Some b \<and>
    m' = m\<lparr>m_BufferSet := m_BufferSet m @ [b], m_FreeQueue := map Some (m_BufferSet m @ [b])\<rparr>"
  using assms by (auto simp: create_set_def returnBuffer_def Let_def split: option.splits if_splits)

lemma create_sets_True:
  assumes "create_sets L is m = (True, m')" "\<not> m_IntentionallyEmpty m"
    and "m_FreeQueue m = map Some (m_BufferSet m)"
  shows "\<exists>bs. map (surface_create L) is = map Some bs \<and>
    m' = m\<lparr>m_BufferSet := m_BufferSet m @ bs, m_FreeQueue := map Some (m_BufferSet m @ bs)\<rparr>"
  using assms
proof (induction "is" arbitrary: m)
  case (Cons i "is")
  obtain m1 where m1: "create_set L i m = (True, m1)" "create_sets L is m1 = (True, m')"
    using Cons.prems(1) by (auto split: prod.splits if_splits)
  from create_set_True [OF this(1) Cons.prems(2,3)] obtain b where
    b: "surface_create L i = Some b"
    "m1 = m\<lparr>m_BufferSet := m_BufferSet m @ [b], m_FreeQueue := map Some (m_BufferSet m @ [b])\<rparr>"
    by blast
  from Cons.IH [OF m1(2)] Cons.prems(2) b(2) obtain bs where
    "map (surface_create L) is = map Some bs"
    "m' = m1\<lparr>m_BufferSet := m_BufferSet m1 @ bs, m_FreeQueue := map Some (m_BufferSet m1 @ bs)\<rparr>"
    by auto
  with b show ?case by (intro exI [of _ "b # bs"]) simp
qed simp

lemma init_pool_True:
  assumes "init_pool L bs False m = Some (True, ds, m')"
    and "\<not> m_IntentionallyEmpty m" "m_FreeQueue m = []" "m_BufferSet m = []"
  shows "\<exists>b0 b1. surface_create L 0 = Some b0 \<and> surface_create L 1 = Some b1 \<and> ds = [] \<and>
    m' = m\<lparr>m_BufferSet := [b0, b1], m_FreeQueue := [Some b0, Some b1], m_Running := True,
           m_Initialized := True, src_rect := Rects (replicate (unat bs) zero_rect),
           dst_rect := Rects (replicate (unat bs) zero_rect)\<rparr>"
proof -
  let ?m = "m\<lparr>src_rect := Rects (replicate (unat bs) zero_rect), dst_rect := Rects (replicate (unat bs) zero_rect)\<rparr>"
  have two: "[0..<MAX_BUFFER_POOL_SIZE] = [0, 1]"
    by (simp add: MAX_BUFFER_POOL_SIZE_def upt_rec)
  obtain m2 where m2: "create_sets L [0, 1] ?m = (True, m2)" "ds = []"
    "m' = m2\<lparr>m_Running := True, m_Initialized := True\<rparr>"
    using assms(1) unfolding init_pool_def two Let_def
    by (auto split: if_splits prod.splits bool.splits option.splits)
  have created: "\<exists>xs. map (surface_create L) [0, 1] = map Some xs \<and>
      m2 = ?m\<lparr>m_BufferSet := m_BufferSet ?m @ xs, m_FreeQueue := map Some (m_BufferSet ?m @ xs)\<rparr>"
    by (rule create_sets_True [OF m2(1)]) (use assms(2-4) in simp_all)
  obtain xs where xs: "map (surface_create L) [0, 1] = map Some xs"
    and m2': "m2 = ?m\<lparr>m_BufferSet := xs, m_FreeQueue := map Some xs\<rparr>"
  proof -
    have none: "m_BufferSet ?m = []" using assms(4) by simp
    show ?thesis using created that unfolding none append_Nil by blast
  qed
  obtain b0 b1 where "xs = [b0, b1]" "surface_create L 0 = Some b0" "surface_create L 1 = Some b1"
    using xs by (auto simp: Cons_eq_map_conv)
  then show ?thesis using m2(2,3) m2' by simp
qed

definition conv_run ::
  "conv_libs \<Rightarrow> nat \<Rightarrow> nat pool_op list \<Rightarrow> ConvBufManager \<times> nat list \<Rightarrow> (ConvBufManager \<times> nat list) option" where
  "conv_run L i = conv.pool_run L i"

text \<open>
  When the libraries do not fail, the contract of the pools holds: along every sequence of conversions and returns
  the two surfaces of the pool are either free or lent, and the pool counts as full exactly when nothing is lent.
\<close>

lemma conv_pool_steady:
  assumes "init_pool L bs False new_ConvBufManager = Some (True, ds, m)"
    and "surface_create L 0 \<noteq> surface_create L 1" "session_ok L"
    and "num_filled L i \<le> unat bs" "num_filled L i \<le> surface_batch L i"
    and "\<forall>b \<in> set (m_BufferSet m). num_filled L i \<le> surface_batch L b \<and> transform_async L i b \<noteq> None"
    and "conv_run L i ops (m, []) = Some (m', lent)"
  shows "distinct (free_surfaces m' @ lent) \<and>
    set (free_surfaces m') \<union> set lent = {the (surface_create L 0), the (surface_create L 1)} \<and>
    (isQueueFull m' \<longleftrightarrow> lent = [])"
proof -
  obtain b0 b1 where b: "surface_create L 0 = Some b0" "surface_create L 1 = Some b1"
    and m: "m_BufferSet m = [b0, b1]" "m_FreeQueue m = [Some b0, Some b1]"
      "\<not> m_IntentionallyEmpty m" "src_rect m = Rects (replicate (unat bs) zero_rect)"
      "dst_rect m = Rects (replicate (unat bs) zero_rect)"
    using init_pool_True [OF assms(1)] by (auto simp: new_ConvBufManager_def)
  have ready: "pool_ready L i m"
    using m assms(3-6) by (simp add: pool_ready_def room_for_def)
  have free: "free_surfaces m = m_BufferSet m" "distinct (m_BufferSet m)"
    using m(1,2) b assms(2) by (simp_all add: free_surfaces_def)
  from conv.pool_contract [OF ready free assms(7) [unfolded conv_run_def]]
  show ?thesis using b m(1)
    by (simp add: isQueueFull_def MAX_BUFFER_POOL_SIZE_def free_surfaces_def numeral_2_eq_2)
qed

lemma destroy_all_some:
  "list_all (of_pool bs) q \<Longrightarrow> destroy_all q = Some (map the q)"
proof (induction q)
  case (Cons b q)
  then show ?case by (cases b) simp_all
qed simp

section \<open>With failures of the libraries\<close>

text \<open>
  A client converts batches when a surface is free and returns what it got. Every conversion has its own outcome of the
  libraries. The last list has the surfaces that left the queue and were not handed to the client.
\<close>

datatype conv_op = Convert conv_libs nat | GiveBack nat

fun conv_step :: "conv_op \<Rightarrow> ConvBufManager \<times> nat list \<times> nat list \<Rightarrow> (ConvBufManager \<times> nat list \<times> nat list) option" where
  "conv_step (Convert L i) (m, lent, lost) =
     (if isQueueEmpty m then Some (m, lent, lost)
      else case convertBatchAsync L i m of
             None \<Rightarrow> None
           | Some (Some b, sync, m') \<Rightarrow> Some (m', b # lent, lost)
           | Some (None, sync, m') \<Rightarrow>
               Some (m', lent, if length (m_FreeQueue m') < length (m_FreeQueue m)
                               then the (hd (m_FreeQueue m)) # lost else lost))"
| "conv_step (GiveBack b) (m, lent, lost) =
     (if b \<in> set lent then Some (returnBuffer (Some b) m, remove1 b lent, lost) else None)"

fun conv_steps :: "conv_op list \<Rightarrow> ConvBufManager \<times> nat list \<times> nat list \<Rightarrow> (ConvBufManager \<times> nat list \<times> nat list) option" where
  "conv_steps [] s = Some s"
| "conv_steps (a # as) s = (case conv_step a s of None \<Rightarrow> None | Some s' \<Rightarrow> conv_steps as s')"

fun session_fails :: "conv_op \<Rightarrow> bool" where
  "session_fails (Convert L i) = (\<not> session_ok L)"
| "session_fails (GiveBack b) = False"

definition surfaces_kept :: "nat list \<Rightarrow> nat \<Rightarrow> ConvBufManager \<times> nat list \<times> nat list \<Rightarrow> bool" where
  "surfaces_kept bs n = (\<lambda>(m, lent, lost). \<not> m_IntentionallyEmpty m \<and> room_for n (src_rect m) \<and> room_for n (dst_rect m) \<and>
     list_all (of_pool bs) (m_FreeQueue m) \<and> mset (free_surfaces m) + mset lent + mset lost = mset bs)"

lemma set_rois_keeps_room: "set_rois L b k r = Some r' \<Longrightarrow> room_for n r \<Longrightarrow> room_for n r'"
  by (auto simp: set_rois_def room_for_def split: rects.splits if_splits)

lemma conv_step_kept:
  assumes "conv_step a s = Some s'" "surfaces_kept bs n s"
  shows "surfaces_kept bs n s' \<and> (snd (snd s') = snd (snd s) \<or> session_fails a)"
proof (cases a)
  case (GiveBack b)
  obtain m lent lost where s: "s = (m, lent, lost)" by (cases s)
  then have b: "b \<in> set lent" and s': "s' = (returnBuffer (Some b) m, remove1 b lent, lost)"
    using assms(1) GiveBack by (auto split: if_splits)
  have "mset (free_surfaces m) + mset lent + mset lost = mset bs" using assms(2) by (simp add: s surfaces_kept_def)
  moreover from this b have "b \<in> set bs" by (metis UnCI set_mset_mset set_mset_union)
  ultimately show ?thesis using assms(2) b by (simp add: s s' surfaces_kept_def returnBuffer_def free_surfaces_def)
next
  case (Convert L i)
  obtain m lent lost where s: "s = (m, lent, lost)" by (cases s)
  show ?thesis
  proof (cases "m_FreeQueue m")
    case Nil
    then show ?thesis using assms Convert s by (simp add: isQueueEmpty_def)
  next
    case (Cons x q)
    obtain b where x: "x = Some b" and kept: "\<not> m_IntentionallyEmpty m" "list_all (of_pool bs) q" "b \<in> set bs"
        "add_mset b (mset (map the q)) + mset lent + mset lost = mset bs" "room_for n (src_rect m)" "room_for n (dst_rect m)"
      using assms(2) Cons by (cases x) (auto simp: s surfaces_kept_def free_surfaces_def)
    let ?m1 = "m\<lparr>m_FreeQueue := q\<rparr>"
    show ?thesis
    proof (cases "session_ok L")
      case False
      then have "s' = (?m1, lent, b # lost)"
        using assms(1) Convert Cons x kept(1) by (simp add: s convertBatchAsync_def isQueueEmpty_def Let_def)
      then show ?thesis using kept False by (simp add: s Convert surfaces_kept_def free_surfaces_def)
    next
      case True
      let ?n = "num_filled L i"
      obtain sr d where sd: "set_rois L i ?n (src_rect m) = Some sr" "set_rois L b ?n (dst_rect m) = Some d"
        using assms(1) Convert Cons x kept(1) True
        by (auto simp: s convertBatchAsync_def isQueueEmpty_def Let_def split: option.splits)
      have room: "room_for n sr" "room_for n d" using sd kept(5,6) by (auto dest: set_rois_keeps_room)
      have "s' = (case transform_async L i b of
            None \<Rightarrow> (?m1\<lparr>src_rect := sr, dst_rect := d, m_FreeQueue := q @ [Some b]\<rparr>, lent, lost)
          | Some sync \<Rightarrow> (?m1\<lparr>src_rect := sr, dst_rect := d\<rparr>, b # lent, lost))"
        using assms(1) Convert Cons x kept(1) True sd
        by (auto simp: s convertBatchAsync_def isQueueEmpty_def returnBuffer_def Let_def split: option.splits)
      then show ?thesis using kept room
        by (simp add: s surfaces_kept_def free_surfaces_def split: option.splits)
    qed
  qed
qed

lemma conv_steps_kept:
  "conv_steps as s = Some s' \<Longrightarrow> surfaces_kept bs n s \<Longrightarrow>
     surfaces_kept bs n s' \<and> (snd (snd s') = snd (snd s) \<or> (\<exists>a\<in>set as. session_fails a))"
proof (induction as arbitrary: s)
  case (Cons a as)
  then obtain t where t: "conv_step a s = Some t" "conv_steps as t = Some s'" by (auto split: option.splits)
  from conv_step_kept[OF t(1) Cons.prems(2)] Cons.IH[OF t(2)] show ?case by auto
qed simp

text \<open>
  Property C21. After a successful initialisation that got two different surfaces, along every sequence of conversions and
  returns, whatever the libraries answer: a surface is free, lent, or lost, and never two of these or one twice; the
  pool counts as full, which the shutdown waits for, exactly when nothing is lent or lost; and a surface gets lost only when
  setting the session parameters failed, so a conversion that fails otherwise leaves no surface behind. While frames fit
  the arrays, a conversion with a free surface is defined.
\<close>

theorem conv_pool_exclusive:
  assumes "init_pool L0 bs False new_ConvBufManager = Some (True, ds, m)"
    and "surface_create L0 0 = Some b0" "surface_create L0 1 = Some b1" "b0 \<noteq> b1"
    and "conv_steps ops (m, [], []) = Some (m', lent, lost)"
  shows "distinct (free_surfaces m' @ lent @ lost) \<and> set (free_surfaces m' @ lent @ lost) = {b0, b1} \<and>
    (isQueueFull m' \<longleftrightarrow> lent = [] \<and> lost = []) \<and> (lost = [] \<or> (\<exists>op\<in>set ops. session_fails op)) \<and>
    (\<forall>L i. \<not> isQueueEmpty m' \<longrightarrow> num_filled L i \<le> unat bs \<longrightarrow> (\<forall>b\<in>{i, b0, b1}. num_filled L i \<le> surface_batch L b) \<longrightarrow>
       convertBatchAsync L i m' \<noteq> None)"
proof -
  have m: "m_FreeQueue m = [Some b0, Some b1]" "\<not> m_IntentionallyEmpty m" "src_rect m = Rects (replicate (unat bs) zero_rect)"
      "dst_rect m = Rects (replicate (unat bs) zero_rect)"
    using init_pool_True[OF assms(1)] assms(2,3) by (auto simp: new_ConvBufManager_def)
  then have "surfaces_kept [b0, b1] (unat bs) (m, [], [])"
    by (simp add: surfaces_kept_def free_surfaces_def room_for_def)
  from conv_steps_kept[OF assms(5) this] have kept: "surfaces_kept [b0, b1] (unat bs) (m', lent, lost)"
    and lost: "lost = [] \<or> (\<exists>op\<in>set ops. session_fails op)" by auto
  have all: "mset (free_surfaces m' @ lent @ lost) = mset [b0, b1]" using kept by (simp add: surfaces_kept_def add.assoc)
  then have d: "distinct (free_surfaces m' @ lent @ lost)" using assms(4) mset_eq_imp_distinct_iff[OF all] by simp
  have e: "set (free_surfaces m' @ lent @ lost) = {b0, b1}" using mset_eq_setD[OF all] by simp
  have "length (m_FreeQueue m') + length lent + length lost = 2"
    using arg_cong[OF all, of size] by (simp add: free_surfaces_def)
  then have full: "isQueueFull m' \<longleftrightarrow> lent = [] \<and> lost = []" by (auto simp: isQueueFull_def MAX_BUFFER_POOL_SIZE_def)
  have def: "convertBatchAsync L i m' \<noteq> None" if "\<not> isQueueEmpty m'" "num_filled L i \<le> unat bs"
      "\<forall>b\<in>{i, b0, b1}. num_filled L i \<le> surface_batch L b" for L i
  proof -
    note free = that(1)
    obtain x q where x: "m_FreeQueue m' = x # q" using free by (cases "m_FreeQueue m'") (auto simp: isQueueEmpty_def)
    then obtain b where q: "m_FreeQueue m' = Some b # q" "b \<in> {b0, b1}"
      using kept by (cases x) (auto simp: surfaces_kept_def)
    then have "num_filled L i \<le> surface_batch L i" "num_filled L i \<le> surface_batch L b" using that(3) by auto
    then show ?thesis using kept q(1) that(2)
      by (auto simp: surfaces_kept_def convertBatchAsync_def Let_def set_rois_def room_for_def split: option.splits rects.splits)
  qed
  show ?thesis using d e full lost def by blast
qed

section \<open>Shutdown and leaks\<close>

text \<open>
  \<open>deInit\<close> on an initialised pool destroys exactly the free surfaces, each once, and is
  never undefined; a surface that is lent at that time is forgotten.
\<close>

lemma deInit_destroys_free:
  assumes "pool_ready L i m"
  shows "\<exists>m'. deInit m = Some (free_surfaces m, m') \<and> m_FreeQueue m' = [] \<and> m_BufferSet m' = [] \<and>
    src_rect m' = NullRects \<and> dst_rect m' = NullRects \<and> \<not> m_Running m'"
proof -
  obtain s d where "src_rect m = Rects s" "dst_rect m = Rects d"
    using assms by (auto simp: pool_ready_def room_for_def split: rects.splits)
  moreover have "destroy_all (m_FreeQueue m) = Some (free_surfaces m)" "\<not> m_IntentionallyEmpty m"
    using assms destroy_all_some by (auto simp: pool_ready_def free_surfaces_def)
  ultimately show ?thesis by (simp add: deInit_def Let_def)
qed

text \<open>
  When the session parameters cannot be set, the surface taken from the queue is neither
  returned to the queue nor handed to the caller: the pool can never be full again, not even after
  everything that was lent has come back.
\<close>

lemma session_failure_leaks:
  assumes "\<not> m_IntentionallyEmpty m" "m_FreeQueue m = Some b # q" "\<not> session_ok L"
    and "length q + length lent < MAX_BUFFER_POOL_SIZE"
  shows "\<exists>m'. convertBatchAsync L i m = Some (None, None, m') \<and> m_FreeQueue m' = q \<and>
    \<not> isQueueFull (fold (\<lambda>x. returnBuffer (Some x)) lent m')"
proof -
  have len: "length (m_FreeQueue (fold (\<lambda>x. returnBuffer (Some x)) xs p)) = length (m_FreeQueue p) + length xs"
    if "\<not> m_IntentionallyEmpty p" for xs p
    using that by (induction xs arbitrary: p) (simp_all add: returnBuffer_def)
  have "convertBatchAsync L i m = Some (None, None, m\<lparr>m_FreeQueue := q\<rparr>)"
    using assms(1-3) by (simp add: convertBatchAsync_def Let_def)
  then show ?thesis using assms(1,4) len [of "m\<lparr>m_FreeQueue := q\<rparr>" lent] by (simp add: isQueueFull_def)
qed

text \<open>
  When mapping the first surface fails, initialisation reports failure after \<open>deInit\<close>, but
  the surface that was created is not among those destroyed, and the pool no longer knows it.
\<close>

lemma map_failure_leaks:
  assumes "cudaSetDevice_ok L" "cudaStreamCreate_ok L" "surface_create L 0 = Some b" "needs_map L b"
    and "0 < surface_batch L b" "\<not> surface_map L b 0"
  shows "\<exists>m'. init_pool L bs False new_ConvBufManager = Some (False, [], m') \<and> m_BufferSet m' = []"
proof -
  have "0 \<in> set [0..<surface_batch L b]" using assms(5) by simp
  then have "\<not> list_all (surface_map L b) [0..<surface_batch L b]"
    using assms(6) unfolding list_all_iff by blast
  then show ?thesis
    using assms(1-4)
    by (simp add: init_pool_def Let_def create_set_def deInit_def new_ConvBufManager_def
        MAX_BUFFER_POOL_SIZE_def upt_rec)
qed

section \<open>The theorems applied\<close>

lemma returnBuffer_running:
  "\<not> m_IntentionallyEmpty m \<Longrightarrow> returnBuffer b m = m\<lparr>m_FreeQueue := m_FreeQueue m @ [b]\<rparr>"
  by (simp add: returnBuffer_def)

definition ex_conv :: "bool \<Rightarrow> bool \<Rightarrow> conv_libs" where
  "ex_conv sess maps =
     \<lparr>cudaSetDevice_ok = True, cudaStreamCreate_ok = True, surface_create = (\<lambda>i. Some (i + 10)),
      surface_batch = (\<lambda>_. 4), needs_map = (\<lambda>_. \<not> maps), is_surface_array = (\<lambda>_. False),
      surface_map = (\<lambda>_ _. maps), map_egl = (\<lambda>_. True), session_ok = sess, num_filled = (\<lambda>_. 3),
      plane_size = (\<lambda>_ _. (1920, 1080)), transform_async = (\<lambda>_ b. Some (b + 1))\<rparr>"

definition ex_conv_pool :: ConvBufManager where
  "ex_conv_pool = new_ConvBufManager
     \<lparr>m_BufferSet := [10, 11], m_FreeQueue := [Some 10, Some 11], m_Running := True, m_Initialized := True,
      src_rect := Rects (replicate 4 zero_rect), dst_rect := Rects (replicate 4 zero_rect)\<rparr>"

lemma ex_conv_init: "init_pool (ex_conv True True) 4 False new_ConvBufManager = Some (True, [], ex_conv_pool)"
  by (simp add: init_pool_def Let_def MAX_BUFFER_POOL_SIZE_def upt_rec create_set_def ex_conv_def
      returnBuffer_def new_ConvBufManager_def ex_conv_pool_def)

lemma case_Some_triple:
  "(case x of None \<Rightarrow> False | Some (a, b, c) \<Rightarrow> b = u \<and> c = v) \<Longrightarrow> \<exists>a. x = Some (a, u, v)"
  by (auto split: option.splits)

text \<open>Two conversions, a return, and a conversion whose session fails: surface 10 is lent, 11 is lost.\<close>

theorem conv_pool_exclusive_witness:
  "\<exists>m' lent lost. conv_steps [Convert (ex_conv True True) 5, Convert (ex_conv True True) 6, GiveBack 11, Convert (ex_conv False True) 7]
       (ex_conv_pool, [], []) = Some (m', lent, lost) \<and> lent = [10] \<and> lost = [11] \<and> free_surfaces m' = [] \<and> \<not> isQueueFull m'"
proof -
  let ?ops = "[Convert (ex_conv True True) 5, Convert (ex_conv True True) 6, GiveBack 11, Convert (ex_conv False True) 7]"
  have "case conv_steps ?ops (ex_conv_pool, [], []) of None \<Rightarrow> False | Some (m', lent, lost) \<Rightarrow> lent = [10] \<and> lost = [11]"
    by (simp add: convertBatchAsync_def isQueueEmpty_def Let_def ex_conv_pool_def ex_conv_def new_ConvBufManager_def
        set_rois_def returnBuffer_running)
  from case_Some_triple[OF this] obtain m' where r: "conv_steps ?ops (ex_conv_pool, [], []) = Some (m', [10], [11])" by blast
  have "surface_create (ex_conv True True) 0 = Some 10" "surface_create (ex_conv True True) 1 = Some 11" by (simp_all add: ex_conv_def)
  from conv_pool_exclusive[OF ex_conv_init this _ r] have "set (free_surfaces m' @ [10, 11]) = {10, 11}"
      "distinct (free_surfaces m' @ [10, 11])" "\<not> isQueueFull m'" by auto
  moreover from this have "free_surfaces m' = []" by (cases "free_surfaces m'") auto
  ultimately show ?thesis using r by blast
qed

lemma ex_conv_ready: "pool_ready (ex_conv s True) 5 ex_conv_pool \<longleftrightarrow> s"
  by (simp add: pool_ready_def ex_conv_def ex_conv_pool_def new_ConvBufManager_def room_for_def)

lemma deInit_destroys_free_witness:
  "map_option fst (deInit ex_conv_pool) = Some [10, 11]"
proof -
  have "pool_ready (ex_conv True True) 5 ex_conv_pool" by (simp add: ex_conv_ready)
  from deInit_destroys_free [OF this] show ?thesis
    by (auto simp: free_surfaces_def ex_conv_pool_def)
qed

lemma session_failure_leaks_witness:
  "\<exists>m'. convertBatchAsync (ex_conv False True) 5 ex_conv_pool = Some (None, None, m') \<and> \<not> isQueueFull m'"
  using session_failure_leaks [of ex_conv_pool 10 "[Some 11]" "ex_conv False True" "[]" 5]
  by (auto simp: ex_conv_pool_def new_ConvBufManager_def ex_conv_def MAX_BUFFER_POOL_SIZE_def)

lemma map_failure_leaks_witness:
  "\<exists>m'. init_pool (ex_conv True False) 4 False new_ConvBufManager = Some (False, [], m') \<and> m_BufferSet m' = []"
  by (rule map_failure_leaks [of _ 10]) (simp_all add: ex_conv_def)

end
