(* ===== verification/MiscPool.thy ===== *)
theory MiscPool
  imports BufferPool
begin

text \<open>
  The pool of buffers for the user metadata of the tracker plugin:
  \<open>src/sources/gst-plugins/gst-nvtracker/miscdatabufmanager.cpp\<close> and \<open>miscdatabufmanager.h\<close>, with the
  structures of \<open>src/sources/includes/nvds_tracker_meta.h\<close>.

  A buffer is known by its address, a number; the contents of all live buffers are the heap of the
  manager, which the low-level tracker writes through the pointers. \<open>new\<close> without an initialiser leaves
  the members of a structure indeterminate: the contents come from \<open>raw\<close>. A result \<open>None\<close> is undefined
  behaviour (a null or freed pointer, an index behind an array) or an exit of the process (\<open>gpuAssert\<close>).
\<close>

section \<open>The buffers\<close>

text \<open>Of the frames of a target only their number is kept, the length of the array \<open>list\<close>.\<close>

record TargetObject =
  frames_allocated :: nat
  numObj :: u32
  obj_numAllocated :: u32

record TargetStream =
  objects :: "TargetObject list"
  stream_numAllocated :: u32
  stream_numFilled :: u32

record TargetBatch =
  streams :: "TargetStream list"
  batch_numAllocated :: u32
  batch_numFilled :: u32

record ReidBatch =
  featureSize :: u32
  reid_numFilled :: u32
  reid_bytes :: nat

record MiscDataBuffer =
  pastFrameObjBatch :: TargetBatch
  reidTensorBatch :: ReidBatch
  terminatedTrackBatch :: TargetBatch
  shadowTracksBatch :: TargetBatch

record MiscDataManager =
  misc_empty :: bool
  m_PastFrame :: bool
  m_OutputReidTensor :: bool
  m_OutputTerminatedTracks :: bool
  m_OutputShadowTracks :: bool
  free_queue :: "nat option list"
  buffer_set :: "nat list"
  heap :: "nat \<rightharpoonup> MiscDataBuffer"

text \<open>
  What \<open>new\<close> and \<open>cudaMalloc\<close> give: the address of the buffer created in round \<open>i\<close>, the indeterminate
  contents of fresh structures, and whether an allocation of so many bytes succeeds.
\<close>

record misc_libs =
  new_address :: "nat \<Rightarrow> nat"
  raw_object :: TargetObject
  raw_stream :: TargetStream
  raw_buffer :: MiscDataBuffer
  cuda_malloc_ok :: "nat \<Rightarrow> bool"

definition new_TrackerMiscDataManager :: "MiscDataManager \<Rightarrow> MiscDataManager" where
  "new_TrackerMiscDataManager mem =
     mem\<lparr>misc_empty := False, free_queue := [], buffer_set := [], heap := (\<lambda>_. None)\<rparr>"

section \<open>Allocation\<close>

text \<open>
  The three batches of targets are allocated alike, up to the frames per target and whether the
  number of frames is stored in the target.
\<close>

definition alloc_object :: "misc_libs \<Rightarrow> nat \<Rightarrow> u32 option \<Rightarrow> TargetObject" where
  "alloc_object L frames alloc =
     (raw_object L)\<lparr>frames_allocated := frames, numObj := 0,
        obj_numAllocated := (case alloc of None \<Rightarrow> obj_numAllocated (raw_object L) | Some n \<Rightarrow> n)\<rparr>"

definition alloc_batch :: "misc_libs \<Rightarrow> u32 \<Rightarrow> u32 \<Rightarrow> nat \<Rightarrow> u32 option \<Rightarrow> TargetBatch" where
  "alloc_batch L batchSize maxTargets frames alloc =
     \<lparr>streams = replicate (unat batchSize)
        ((raw_stream L)\<lparr>objects := replicate (unat maxTargets) (alloc_object L frames alloc),
           stream_numAllocated := maxTargets, stream_numFilled := 0\<rparr>),
      batch_numAllocated = batchSize, batch_numFilled = 0\<rparr>"

definition allocatePastFrame ::
  "misc_libs \<Rightarrow> u32 \<Rightarrow> u32 \<Rightarrow> u32 \<Rightarrow> MiscDataManager \<Rightarrow> MiscDataBuffer \<Rightarrow> MiscDataBuffer" where
  "allocatePastFrame L batchSize maxTargets maxShadowAge m b =
     (if \<not> m_PastFrame m then b
      else b\<lparr>pastFrameObjBatch := alloc_batch L batchSize maxTargets (unat maxShadowAge) None\<rparr>)"

text \<open>
  The size is a product of 32 bit numbers, widened to 64 bits only by \<open>sizeof\<close>; a failed \<open>cudaMalloc\<close>
  ends the process.
\<close>

definition reid_size :: "u32 \<Rightarrow> u32 \<Rightarrow> u32 \<Rightarrow> nat" where
  "reid_size batchSize maxTargets reidFeatureSize = unat (batchSize * maxTargets * reidFeatureSize) * 4"

definition allocateReid ::
  "misc_libs \<Rightarrow> u32 \<Rightarrow> u32 \<Rightarrow> u32 \<Rightarrow> MiscDataManager \<Rightarrow> MiscDataBuffer \<Rightarrow> MiscDataBuffer option" where
  "allocateReid L batchSize maxTargets reidFeatureSize m b =
     (if \<not> m_OutputReidTensor m then Some b
      else let n = reid_size batchSize maxTargets reidFeatureSize
           in if cuda_malloc_ok L n
              then Some (b\<lparr>reidTensorBatch :=
                             \<lparr>featureSize = reidFeatureSize, reid_numFilled = 0, reid_bytes = n\<rparr>\<rparr>)
              else None)"

definition allocateTerminatedTracks ::
  "misc_libs \<Rightarrow> u32 \<Rightarrow> u32 \<Rightarrow> u32 \<Rightarrow> MiscDataManager \<Rightarrow> MiscDataBuffer \<Rightarrow> MiscDataBuffer" where
  "allocateTerminatedTracks L batchSize maxTargets maxHistory m b =
     (if \<not> m_OutputTerminatedTracks m then b
      else b\<lparr>terminatedTrackBatch := alloc_batch L batchSize maxTargets (unat maxHistory) (Some maxHistory)\<rparr>)"

definition allocateShadowTracks ::
  "misc_libs \<Rightarrow> u32 \<Rightarrow> u32 \<Rightarrow> MiscDataManager \<Rightarrow> MiscDataBuffer \<Rightarrow> MiscDataBuffer" where
  "allocateShadowTracks L batchSize maxTargets m b =
     (if \<not> m_OutputShadowTracks m then b
      else b\<lparr>shadowTracksBatch := alloc_batch L batchSize maxTargets 1 None\<rparr>)"

record misc_params =
  p_batchSize :: u32
  p_maxTargets :: u32
  p_maxShadowAge :: u32
  p_reidFeatureSize :: u32
  p_poolSize :: u32
  p_pastFrame :: bool
  p_reid :: bool
  p_terminated :: bool
  p_shadow :: bool
  p_maxHistory :: u32

definition alloc_buffer :: "misc_libs \<Rightarrow> misc_params \<Rightarrow> MiscDataManager \<Rightarrow> MiscDataBuffer option" where
  "alloc_buffer L P m =
     (case allocateReid L (p_batchSize P) (p_maxTargets P) (p_reidFeatureSize P) m
             (allocatePastFrame L (p_batchSize P) (p_maxTargets P) (p_maxShadowAge P) m (raw_buffer L)) of
        None \<Rightarrow> None
      | Some b \<Rightarrow>
          Some (allocateShadowTracks L (p_batchSize P) (p_maxTargets P) m
            (allocateTerminatedTracks L (p_batchSize P) (p_maxTargets P) (p_maxHistory P) m b)))"

fun create_buffers :: "misc_libs \<Rightarrow> misc_params \<Rightarrow> nat list \<Rightarrow> MiscDataManager \<Rightarrow> MiscDataManager option" where
  "create_buffers L P [] m = Some m"
| "create_buffers L P (i # is) m =
     (case alloc_buffer L P m of
        None \<Rightarrow> None
      | Some b \<Rightarrow>
          let a = new_address L i
          in create_buffers L P is
               (m\<lparr>heap := (heap m)(a \<mapsto> b), buffer_set := buffer_set m @ [a], free_queue := free_queue m @ [Some a]\<rparr>))"

definition misc_init :: "misc_libs \<Rightarrow> misc_params \<Rightarrow> MiscDataManager \<Rightarrow> (bool \<times> MiscDataManager) option" where
  "misc_init L P m =
     (let m1 = m\<lparr>misc_empty := (misc_empty m \<or> (\<not> p_pastFrame P \<and> \<not> p_reid P \<and> \<not> p_terminated P)),
                 m_PastFrame := p_pastFrame P, m_OutputReidTensor := p_reid P,
                 m_OutputTerminatedTracks := p_terminated P, m_OutputShadowTracks := p_shadow P\<rparr>
      in if misc_empty m1 then Some (True, m1)
         else if m_OutputReidTensor m1 \<and> p_reidFeatureSize P = 0 then Some (False, m1)
         else case create_buffers L P [0..<unat (p_poolSize P)] m1 of
                None \<Rightarrow> None | Some m2 \<Rightarrow> Some (True, m2))"

section \<open>Reset and release\<close>

text \<open>
  A loop \<open>for (i = 0; i < n; i++)\<close> over an array, with the update of one element; an index behind the
  array is undefined.
\<close>

fun for_first :: "nat \<Rightarrow> ('a \<Rightarrow> 'a option) \<Rightarrow> 'a list \<Rightarrow> 'a list option" where
  "for_first 0 f xs = Some xs"
| "for_first (Suc n) f [] = None"
| "for_first (Suc n) f (x # xs) =
     (case f x of None \<Rightarrow> None
      | Some y \<Rightarrow> (case for_first n f xs of None \<Rightarrow> None | Some ys \<Rightarrow> Some (y # ys)))"

definition reset_stream :: "TargetStream \<Rightarrow> TargetStream option" where
  "reset_stream s =
     (case for_first (unat (stream_numAllocated s)) (\<lambda>ob. Some (ob\<lparr>numObj := 0\<rparr>)) (objects s) of
        None \<Rightarrow> None | Some obs \<Rightarrow> Some (s\<lparr>stream_numFilled := 0, objects := obs\<rparr>))"

definition reset_batch :: "TargetBatch \<Rightarrow> TargetBatch option" where
  "reset_batch b =
     (case for_first (unat (batch_numAllocated b)) reset_stream (streams b) of
        None \<Rightarrow> None | Some ss \<Rightarrow> Some (b\<lparr>batch_numFilled := 0, streams := ss\<rparr>))"

definition resetPastFrame :: "MiscDataManager \<Rightarrow> MiscDataBuffer \<Rightarrow> MiscDataBuffer option" where
  "resetPastFrame m b =
     (if \<not> m_PastFrame m then Some b
      else map_option (\<lambda>x. b\<lparr>pastFrameObjBatch := x\<rparr>) (reset_batch (pastFrameObjBatch b)))"

definition resetReid :: "MiscDataManager \<Rightarrow> MiscDataBuffer \<Rightarrow> MiscDataBuffer option" where
  "resetReid m b = Some b"

definition resetTerminatedTracks :: "MiscDataManager \<Rightarrow> MiscDataBuffer \<Rightarrow> MiscDataBuffer option" where
  "resetTerminatedTracks m b =
     (if \<not> m_OutputTerminatedTracks m then Some b
      else map_option (\<lambda>x. b\<lparr>terminatedTrackBatch := x\<rparr>) (reset_batch (terminatedTrackBatch b)))"

definition resetShadowTracks :: "MiscDataManager \<Rightarrow> MiscDataBuffer \<Rightarrow> MiscDataBuffer option" where
  "resetShadowTracks m b =
     (if \<not> m_OutputShadowTracks m then Some b
      else map_option (\<lambda>x. b\<lparr>shadowTracksBatch := x\<rparr>) (reset_batch (shadowTracksBatch b)))"

definition reset_buffer :: "MiscDataManager \<Rightarrow> MiscDataBuffer \<Rightarrow> MiscDataBuffer option" where
  "reset_buffer m b =
     Option.bind (resetPastFrame m b) (\<lambda>b1. Option.bind (resetReid m b1)
       (\<lambda>b2. Option.bind (resetTerminatedTracks m b2) (resetShadowTracks m)))"

text \<open>
  \<open>returnBuffer\<close> gets a pointer that may be null: it is dereferenced by the resets of the enabled
  batches, and queued if there is none.
\<close>

definition misc_returnBuffer :: "nat option \<Rightarrow> MiscDataManager \<Rightarrow> MiscDataManager option" where
  "misc_returnBuffer data m =
     (if misc_empty m then Some m
      else
        case data of
          None \<Rightarrow>
            if m_PastFrame m \<or> m_OutputTerminatedTracks m \<or> m_OutputShadowTracks m then None
            else Some (m\<lparr>free_queue := free_queue m @ [None]\<rparr>)
        | Some a \<Rightarrow>
            (case heap m a of
               None \<Rightarrow> None
             | Some b \<Rightarrow>
                 (case reset_buffer m b of
                    None \<Rightarrow> None
                  | Some b' \<Rightarrow> Some (m\<lparr>heap := (heap m)(a \<mapsto> b'), free_queue := free_queue m @ [Some a]\<rparr>))))"

text \<open>The wait for a buffer ends after 50 ms; a queue that is empty then gives a null pointer.\<close>

definition misc_pop :: "MiscDataManager \<Rightarrow> nat option \<times> MiscDataManager" where
  "misc_pop m =
     (if misc_empty m then (None, m)
      else case free_queue m of [] \<Rightarrow> (None, m) | a # q \<Rightarrow> (a, m\<lparr>free_queue := q\<rparr>))"

definition misc_isQueueFull :: "MiscDataManager \<Rightarrow> bool" where
  "misc_isQueueFull m \<longleftrightarrow> length (buffer_set m) = length (free_queue m)"

text \<open>
  Releasing a batch frees the frames of every target up to \<open>numAllocated\<close>, the targets and the streams:
  the number of arrays freed.
\<close>

definition release_stream :: "TargetStream \<Rightarrow> nat option" where
  "release_stream s =
     (if unat (stream_numAllocated s) \<le> length (objects s) then Some (unat (stream_numAllocated s) + 1) else None)"

definition release_batch :: "TargetBatch \<Rightarrow> nat option" where
  "release_batch b =
     (if unat (batch_numAllocated b) \<le> length (streams b)
         \<and> list_all (\<lambda>s. release_stream s \<noteq> None) (take (unat (batch_numAllocated b)) (streams b))
      then Some (sum_list (map (the \<circ> release_stream) (take (unat (batch_numAllocated b)) (streams b))) + 1)
      else None)"

definition release_if :: "bool \<Rightarrow> TargetBatch \<Rightarrow> nat option" where
  "release_if enabled b = (if \<not> enabled then Some 0 else release_batch b)"

definition release_buffer :: "MiscDataManager \<Rightarrow> MiscDataBuffer \<Rightarrow> nat option" where
  "release_buffer m b =
     Option.bind (release_if (m_PastFrame m) (pastFrameObjBatch b)) (\<lambda>n1.
     Option.bind (Some (if m_OutputReidTensor m then 2 else 0)) (\<lambda>n2.
     Option.bind (release_if (m_OutputTerminatedTracks m) (terminatedTrackBatch b)) (\<lambda>n3.
     Option.bind (release_if (m_OutputShadowTracks m) (shadowTracksBatch b)) (\<lambda>n4.
       Some (n1 + n2 + n3 + n4)))))"

text \<open>A null pointer is dereferenced by the release of the enabled batches.\<close>

fun release_all :: "nat option list \<Rightarrow> MiscDataManager \<Rightarrow> MiscDataManager option" where
  "release_all [] m = Some m"
| "release_all (None # q) m =
     (if m_PastFrame m \<or> m_OutputReidTensor m \<or> m_OutputTerminatedTracks m \<or> m_OutputShadowTracks m
      then None else release_all q m)"
| "release_all (Some a # q) m =
     (case Option.bind (heap m a) (release_buffer m) of
        None \<Rightarrow> None
      | Some _ \<Rightarrow> release_all q (m\<lparr>heap := (heap m)(a := None)\<rparr>))"

text \<open>\<open>deInit\<close> waits until the queue is full; \<open>Inl\<close> is a call that is still waiting.\<close>

definition misc_deInit :: "MiscDataManager \<Rightarrow> (MiscDataManager + MiscDataManager) option" where
  "misc_deInit m =
     (if misc_empty m then Some (Inr m)
      else if \<not> misc_isQueueFull m then Some (Inl m)
      else map_option (\<lambda>m'. Inr (m'\<lparr>free_queue := [], buffer_set := []\<rparr>)) (release_all (free_queue m) m))"

section \<open>Shapes\<close>

text \<open>The counters of allocated elements do not exceed the arrays; the tracker library keeps them.\<close>

definition stream_shaped :: "TargetStream \<Rightarrow> bool" where
  "stream_shaped s \<longleftrightarrow> unat (stream_numAllocated s) \<le> length (objects s)"

definition batch_shaped :: "TargetBatch \<Rightarrow> bool" where
  "batch_shaped b \<longleftrightarrow> unat (batch_numAllocated b) \<le> length (streams b) \<and>
     list_all stream_shaped (take (unat (batch_numAllocated b)) (streams b))"

definition buffer_shaped :: "MiscDataManager \<Rightarrow> MiscDataBuffer \<Rightarrow> bool" where
  "buffer_shaped m b \<longleftrightarrow>
     (m_PastFrame m \<longrightarrow> batch_shaped (pastFrameObjBatch b)) \<and>
     (m_OutputTerminatedTracks m \<longrightarrow> batch_shaped (terminatedTrackBatch b)) \<and>
     (m_OutputShadowTracks m \<longrightarrow> batch_shaped (shadowTracksBatch b))"

text \<open>No targets are left in a batch.\<close>

definition stream_clean :: "TargetStream \<Rightarrow> bool" where
  "stream_clean s \<longleftrightarrow> stream_numFilled s = 0 \<and>
     list_all (\<lambda>ob. numObj ob = 0) (take (unat (stream_numAllocated s)) (objects s))"

definition batch_clean :: "TargetBatch \<Rightarrow> bool" where
  "batch_clean b \<longleftrightarrow> batch_numFilled b = 0 \<and>
     list_all stream_clean (take (unat (batch_numAllocated b)) (streams b))"

definition buffer_clean :: "MiscDataManager \<Rightarrow> MiscDataBuffer \<Rightarrow> bool" where
  "buffer_clean m b \<longleftrightarrow>
     (m_PastFrame m \<longrightarrow> batch_clean (pastFrameObjBatch b)) \<and>
     (m_OutputTerminatedTracks m \<longrightarrow> batch_clean (terminatedTrackBatch b)) \<and>
     (m_OutputShadowTracks m \<longrightarrow> batch_clean (shadowTracksBatch b))"

lemma for_first_map:
  assumes "n \<le> length xs" "list_all (\<lambda>x. f x \<noteq> None) (take n xs)"
  shows "for_first n f xs = Some (map (the \<circ> f) (take n xs) @ drop n xs)"
  using assms by (induction n f xs rule: for_first.induct) auto

lemma reset_stream_shaped:
  assumes "stream_shaped s"
  shows "\<exists>s'. reset_stream s = Some s' \<and> stream_shaped s' \<and> stream_clean s'"
  using assms by (simp add: reset_stream_def stream_shaped_def stream_clean_def for_first_map list_all_iff)

lemma reset_batch_shaped:
  assumes "batch_shaped b"
  shows "\<exists>b'. reset_batch b = Some b' \<and> batch_shaped b' \<and> batch_clean b'"
proof -
  let ?n = "unat (batch_numAllocated b)"
  have len: "?n \<le> length (streams b)" and sh: "list_all stream_shaped (take ?n (streams b))"
    using assms by (simp_all add: batch_shaped_def)
  have some: "list_all (\<lambda>s. reset_stream s \<noteq> None) (take ?n (streams b))"
    using sh reset_stream_shaped by (fastforce simp: list_all_iff)
  have good: "stream_shaped (the (reset_stream s)) \<and> stream_clean (the (reset_stream s))"
    if "s \<in> set (take ?n (streams b))" for s
    using reset_stream_shaped [of s] sh that by (auto simp: list_all_iff)
  have "reset_batch b = Some (b\<lparr>batch_numFilled := 0,
      streams := map (the \<circ> reset_stream) (take ?n (streams b)) @ drop ?n (streams b)\<rparr>)"
    using for_first_map [OF len some] by (simp add: reset_batch_def)
  then show ?thesis using good len by (simp add: batch_shaped_def batch_clean_def list_all_iff)
qed

lemma reset_buffer_shaped:
  assumes "buffer_shaped m b"
  shows "\<exists>b'. reset_buffer m b = Some b' \<and> buffer_shaped m b' \<and> buffer_clean m b' \<and>
    reidTensorBatch b' = reidTensorBatch b"
proof -
  have step: "\<exists>x'. (if e then reset_batch x else Some x) = Some x' \<and>
      (e \<longrightarrow> batch_shaped x' \<and> batch_clean x')" if "e \<longrightarrow> batch_shaped x" for e x
    using that reset_batch_shaped [of x] by (cases e) auto
  obtain p where p: "(if m_PastFrame m then reset_batch (pastFrameObjBatch b) else Some (pastFrameObjBatch b)) = Some p"
    "m_PastFrame m \<longrightarrow> batch_shaped p \<and> batch_clean p"
    using step [of "m_PastFrame m" "pastFrameObjBatch b"] assms by (auto simp: buffer_shaped_def)
  obtain t where t: "(if m_OutputTerminatedTracks m then reset_batch (terminatedTrackBatch b) else Some (terminatedTrackBatch b)) = Some t"
    "m_OutputTerminatedTracks m \<longrightarrow> batch_shaped t \<and> batch_clean t"
    using step [of "m_OutputTerminatedTracks m" "terminatedTrackBatch b"] assms by (auto simp: buffer_shaped_def)
  obtain h where h: "(if m_OutputShadowTracks m then reset_batch (shadowTracksBatch b) else Some (shadowTracksBatch b)) = Some h"
    "m_OutputShadowTracks m \<longrightarrow> batch_shaped h \<and> batch_clean h"
    using step [of "m_OutputShadowTracks m" "shadowTracksBatch b"] assms by (auto simp: buffer_shaped_def)
  have "reset_buffer m b = Some (b\<lparr>pastFrameObjBatch := p, terminatedTrackBatch := t, shadowTracksBatch := h\<rparr>)"
    using p(1) t(1) h(1)
    by (auto simp: reset_buffer_def resetPastFrame_def resetReid_def resetTerminatedTracks_def
        resetShadowTracks_def split: if_splits)
  then show ?thesis using p(2) t(2) h(2) by (simp add: buffer_shaped_def buffer_clean_def)
qed

section \<open>The pool as provider of the contract\<close>

definition live_shaped :: "MiscDataManager \<Rightarrow> nat \<Rightarrow> bool" where
  "live_shaped m a \<longleftrightarrow> (case heap m a of None \<Rightarrow> False | Some b \<Rightarrow> buffer_shaped m b)"

definition misc_ok :: "MiscDataManager \<Rightarrow> bool" where
  "misc_ok m \<longleftrightarrow> \<not> misc_empty m \<and> list_all (of_pool (buffer_set m)) (free_queue m) \<and>
     (\<forall>a \<in> set (buffer_set m). live_shaped m a)"

definition free_addresses :: "MiscDataManager \<Rightarrow> nat list" where
  "free_addresses m = map the (free_queue m)"

definition misc_take :: "MiscDataManager \<Rightarrow> (nat \<times> MiscDataManager) option" where
  "misc_take m = (case misc_pop m of (Some a, m') \<Rightarrow> Some (a, m') | (None, _) \<Rightarrow> None)"

definition misc_give :: "nat \<Rightarrow> MiscDataManager \<Rightarrow> MiscDataManager option" where
  "misc_give a = misc_returnBuffer (Some a)"

definition misc_clean :: "nat \<Rightarrow> MiscDataManager \<Rightarrow> bool" where
  "misc_clean a m \<longleftrightarrow> (case heap m a of None \<Rightarrow> False | Some b \<Rightarrow> buffer_clean m b)"

text \<open>The client fills a buffer within its allocated arrays; other writes are not considered.\<close>

definition misc_write :: "(MiscDataBuffer \<Rightarrow> MiscDataBuffer) \<Rightarrow> nat \<Rightarrow> MiscDataManager \<Rightarrow> MiscDataManager" where
  "misc_write w a m =
     (case heap m a of
        None \<Rightarrow> m
      | Some b \<Rightarrow> if buffer_shaped m (w b) then m\<lparr>heap := (heap m)(a \<mapsto> w b)\<rparr> else m)"

lemma flags_only [simp]:
  "buffer_shaped (m\<lparr>heap := h, free_queue := q\<rparr>) b = buffer_shaped m b"
  "buffer_shaped (m\<lparr>heap := h\<rparr>) b = buffer_shaped m b"
  "buffer_shaped (m\<lparr>free_queue := q\<rparr>) b = buffer_shaped m b"
  "buffer_clean (m\<lparr>heap := h, free_queue := q\<rparr>) b = buffer_clean m b"
  "buffer_clean (m\<lparr>heap := h\<rparr>) b = buffer_clean m b"
  "buffer_clean (m\<lparr>free_queue := q\<rparr>) b = buffer_clean m b"
  by (simp_all add: buffer_shaped_def buffer_clean_def)

lemma misc_take_front:
  assumes "misc_ok m" "free_addresses m = a # q"
  shows "\<exists>m'. misc_take m = Some (a, m') \<and> m' = m\<lparr>free_queue := tl (free_queue m)\<rparr> \<and> free_addresses m' = q \<and> misc_ok m'"
proof -
  obtain x xs where fq: "free_queue m = x # xs" "the x = a" "map the xs = q"
    using assms(2) by (auto simp: free_addresses_def map_eq_Cons_conv)
  with assms(1) have "x = Some a" by (cases x; simp add: misc_ok_def)
  with fq assms(1) show ?thesis
    by (simp add: misc_take_def misc_pop_def misc_ok_def free_addresses_def live_shaped_def split: option.splits)
qed

lemma misc_give_end:
  assumes "misc_ok m" "a \<in> set (buffer_set m)"
  shows "\<exists>b b'. heap m a = Some b \<and> buffer_shaped m b' \<and> buffer_clean m b' \<and>
    reidTensorBatch b' = reidTensorBatch b \<and>
    misc_give a m = Some (m\<lparr>heap := (heap m)(a \<mapsto> b'), free_queue := free_queue m @ [Some a]\<rparr>)"
proof -
  obtain b where b: "heap m a = Some b" "buffer_shaped m b"
    using assms by (auto simp: misc_ok_def live_shaped_def split: option.splits)
  from reset_buffer_shaped [OF b(2)] obtain b' where
    "reset_buffer m b = Some b'" "buffer_shaped m b'" "buffer_clean m b'" "reidTensorBatch b' = reidTensorBatch b"
    by blast
  with b assms(1) have "misc_give a m = Some (m\<lparr>heap := (heap m)(a \<mapsto> b'), free_queue := free_queue m @ [Some a]\<rparr>)"
    by (simp add: misc_give_def misc_returnBuffer_def misc_ok_def)
  with \<open>heap m a = Some b\<close> \<open>buffer_shaped m b'\<close> \<open>buffer_clean m b'\<close> \<open>reidTensorBatch b' = reidTensorBatch b\<close>
  show ?thesis by blast
qed

lemma misc_ok_update:
  assumes "misc_ok m" "buffer_shaped m b" "list_all (of_pool (buffer_set m)) q"
  shows "misc_ok (m\<lparr>heap := (heap m)(a \<mapsto> b), free_queue := q\<rparr>)"
  using assms by (auto simp: misc_ok_def live_shaped_def split: option.splits)

interpretation misc: clean_pool misc_ok free_addresses buffer_set misc_take misc_give misc_clean misc_write
proof unfold_locales
  fix p b q
  assume ok: "misc_ok p"
  show "\<exists>p'. misc_take p = Some (b, p') \<and> free_addresses p' = q \<and> buffer_set p' = buffer_set p \<and> misc_ok p'"
    if "free_addresses p = b # q"
    using misc_take_front [OF ok that] by auto
  show "misc_take p = None" if "free_addresses p = []"
    using that ok by (simp add: misc_take_def misc_pop_def free_addresses_def)
  show "\<exists>p'. misc_give b p = Some p' \<and> free_addresses p' = free_addresses p @ [b] \<and>
      buffer_set p' = buffer_set p \<and> misc_ok p'" if b: "b \<in> set (buffer_set p)"
  proof -
    from misc_give_end [OF ok b] obtain b' where g: "buffer_shaped p b'"
      "misc_give b p = Some (p\<lparr>heap := (heap p)(b \<mapsto> b'), free_queue := free_queue p @ [Some b]\<rparr>)" by blast
    have "list_all (of_pool (buffer_set p)) (free_queue p @ [Some b])"
      using ok b by (simp add: misc_ok_def)
    from misc_ok_update [OF ok g(1) this, of b] g(2) show ?thesis by (simp add: free_addresses_def)
  qed
next
  fix p b p' x
  assume "misc_ok p" "misc_take p = Some (b, p')" "misc_clean x p"
  then show "misc_clean x p'"
    by (auto simp: misc_take_def misc_pop_def misc_clean_def split: list.splits option.splits if_splits)
next
  fix p b p' x
  assume "misc_ok p" "b \<in> set (buffer_set p)" "misc_give b p = Some p'"
  with misc_give_end [of p b] show "misc_clean b p' \<and> (misc_clean x p \<longrightarrow> misc_clean x p')"
    by (auto simp: misc_clean_def split: option.splits if_splits)
next
  fix p b w x
  assume ok: "misc_ok p" "b \<in> set (buffer_set p)"
  show "misc_ok (misc_write w b p) \<and> free_addresses (misc_write w b p) = free_addresses p \<and>
      buffer_set (misc_write w b p) = buffer_set p \<and> (x \<noteq> b \<longrightarrow> misc_clean x p \<longrightarrow> misc_clean x (misc_write w b p))"
    using ok by (auto simp: misc_write_def free_addresses_def misc_clean_def misc_ok_def live_shaped_def
        split: option.splits)
qed

section \<open>Properties\<close>

lemma alloc_batch_good: "batch_shaped (alloc_batch L n t f a) \<and> batch_clean (alloc_batch L n t f a)"
  by (simp add: batch_shaped_def batch_clean_def alloc_batch_def stream_shaped_def stream_clean_def
      alloc_object_def list_all_iff in_set_replicate)

lemma alloc_buffer_good:
  assumes "alloc_buffer L P m = Some b"
  shows "buffer_shaped m b \<and> buffer_clean m b"
  using assms alloc_batch_good
  by (auto simp: alloc_buffer_def allocateReid_def allocatePastFrame_def allocateTerminatedTracks_def
      allocateShadowTracks_def Let_def buffer_shaped_def buffer_clean_def split: option.splits if_splits)

definition fresh_ok :: "MiscDataManager \<Rightarrow> bool" where
  "fresh_ok m \<longleftrightarrow> misc_ok m \<and> free_queue m = map Some (buffer_set m) \<and> (\<forall>a \<in> set (buffer_set m). misc_clean a m)"

lemma create_buffers_fresh:
  "create_buffers L P is m = Some m' \<Longrightarrow> fresh_ok m \<Longrightarrow>
   fresh_ok m' \<and> buffer_set m' = buffer_set m @ map (new_address L) is"
proof (induction "is" arbitrary: m)
  case (Cons i "is")
  obtain b where b: "alloc_buffer L P m = Some b"
    using Cons.prems(1) by (auto split: option.splits)
  let ?m = "m\<lparr>heap := (heap m)(new_address L i \<mapsto> b), buffer_set := buffer_set m @ [new_address L i],
      free_queue := free_queue m @ [Some (new_address L i)]\<rparr>"
  have run: "create_buffers L P is ?m = Some m'" using Cons.prems(1) b by (simp add: Let_def)
  have same: "buffer_shaped (m\<lparr>heap := h, buffer_set := s, free_queue := q\<rparr>) x = buffer_shaped m x"
    "buffer_clean (m\<lparr>heap := h, buffer_set := s, free_queue := q\<rparr>) x = buffer_clean m x"
    "buffer_shaped (m\<lparr>heap := h, buffer_set := s\<rparr>) x = buffer_shaped m x"
    "buffer_clean (m\<lparr>heap := h, buffer_set := s\<rparr>) x = buffer_clean m x" for h s q x
    by (simp_all add: buffer_shaped_def buffer_clean_def)
  have "list_all (of_pool (buffer_set ?m)) (map Some (buffer_set ?m))" by (simp add: list_all_iff)
  then have "fresh_ok ?m"
    using Cons.prems(2) alloc_buffer_good [OF b]
    by (auto simp: fresh_ok_def misc_ok_def live_shaped_def misc_clean_def same split: option.splits)
  with Cons.IH [OF run] show ?case by simp
qed simp

lemma misc_init_fresh:
  assumes "misc_init L P (new_TrackerMiscDataManager mem) = Some (True, m)"
    and "p_pastFrame P \<or> p_reid P \<or> p_terminated P"
  shows "fresh_ok m \<and> buffer_set m = map (new_address L) [0..<unat (p_poolSize P)]"
proof -
  let ?m = "(new_TrackerMiscDataManager mem)\<lparr>misc_empty := False, m_PastFrame := p_pastFrame P, m_OutputReidTensor := p_reid P,
      m_OutputTerminatedTracks := p_terminated P, m_OutputShadowTracks := p_shadow P\<rparr>"
  have "create_buffers L P [0..<unat (p_poolSize P)] ?m = Some m"
    using assms by (auto simp: misc_init_def new_TrackerMiscDataManager_def Let_def split: if_splits option.splits)
  moreover have "fresh_ok ?m" "buffer_set ?m = []"
    by (simp_all add: fresh_ok_def misc_ok_def new_TrackerMiscDataManager_def)
  ultimately show ?thesis using create_buffers_fresh by fastforce
qed

definition misc_run ::
  "(nat pool_op + (MiscDataBuffer \<Rightarrow> MiscDataBuffer) \<times> nat) list \<Rightarrow> MiscDataManager \<times> nat list \<Rightarrow>
   (MiscDataManager \<times> nat list) option" where
  "misc_run = misc.client_run"

text \<open>
  Property C22. Along every sequence of pops, returns and writes of the tracker into the buffers it
  holds: no buffer is handed out twice or while it is free, every buffer of the pool is free or lent,
  and a buffer in the free queue carries no targets of an earlier batch.
\<close>

theorem misc_pool_clean:
  assumes "misc_init L P (new_TrackerMiscDataManager mem) = Some (True, m)"
    and "p_pastFrame P \<or> p_reid P \<or> p_terminated P"
    and "distinct (map (new_address L) [0..<unat (p_poolSize P)])"
    and "misc_run ops (m, []) = Some (m', lent)"
  shows "distinct (free_addresses m' @ lent) \<and>
    set (free_addresses m') \<union> set lent = new_address L ` {..<unat (p_poolSize P)} \<and>
    (\<forall>a \<in> set (free_addresses m'). misc_clean a m')"
proof -
  from misc_init_fresh [OF assms(1,2)] have f: "fresh_ok m"
    and set: "buffer_set m = map (new_address L) [0..<unat (p_poolSize P)]" by simp_all
  then have "misc_ok m" "free_addresses m = buffer_set m" "distinct (buffer_set m)"
    "\<forall>a \<in> set (buffer_set m). misc_clean a m"
    using assms(3) by (simp_all add: fresh_ok_def free_addresses_def)
  from misc.clean_contract [OF this assms(4) [unfolded misc_run_def]] show ?thesis
    by (simp add: set atLeast_upt)
qed

lemma release_batch_shaped: "batch_shaped b \<Longrightarrow> \<exists>n. release_batch b = Some n"
  by (simp add: release_batch_def batch_shaped_def release_stream_def stream_shaped_def list_all_iff)

lemma release_if_shaped: "(e \<longrightarrow> batch_shaped b) \<Longrightarrow> \<exists>n. release_if e b = Some n"
  using release_batch_shaped by (auto simp: release_if_def)

lemma release_buffer_shaped: "buffer_shaped m b \<Longrightarrow> \<exists>n. release_buffer m b = Some n"
proof -
  assume "buffer_shaped m b"
  then obtain n1 n3 n4 where "release_if (m_PastFrame m) (pastFrameObjBatch b) = Some n1"
    "release_if (m_OutputTerminatedTracks m) (terminatedTrackBatch b) = Some n3"
    "release_if (m_OutputShadowTracks m) (shadowTracksBatch b) = Some n4"
    unfolding buffer_shaped_def using release_if_shaped by metis
  then show ?thesis by (simp add: release_buffer_def)
qed

lemma release_all_shaped:
  "distinct as \<Longrightarrow> \<forall>a \<in> set as. live_shaped m a \<Longrightarrow>
   \<exists>m'. release_all (map Some as) m = Some m' \<and> (\<forall>a \<in> set as. heap m' a = None) \<and>
     (\<forall>a. heap m a = None \<longrightarrow> heap m' a = None)"
proof (induction as arbitrary: m)
  case (Cons a as)
  obtain b n where b: "heap m a = Some b" "release_buffer m b = Some n"
    using Cons.prems(2) release_buffer_shaped by (auto simp: live_shaped_def split: option.splits)
  let ?m = "m\<lparr>heap := (heap m)(a := None)\<rparr>"
  have "\<forall>x \<in> set as. live_shaped ?m x"
    using Cons.prems by (auto simp: live_shaped_def split: option.splits)
  with Cons.IH [of ?m] Cons.prems(1) obtain m' where
    "release_all (map Some as) ?m = Some m'" "\<forall>x \<in> set as. heap m' x = None"
    "\<forall>x. heap ?m x = None \<longrightarrow> heap m' x = None" by auto
  with b show ?case by auto
qed simp

text \<open>
  Property C23. Shutting the pool down after any such run waits exactly as long as a buffer is lent;
  when everything has come back it ends, without undefined behaviour, and frees every buffer.
\<close>

theorem misc_deInit_complete:
  assumes "misc_init L P (new_TrackerMiscDataManager mem) = Some (True, m)"
    and "p_pastFrame P \<or> p_reid P \<or> p_terminated P"
    and "distinct (map (new_address L) [0..<unat (p_poolSize P)])"
    and "misc_run ops (m, []) = Some (m', lent)"
  shows "if lent = []
    then \<exists>m''. misc_deInit m' = Some (Inr m'') \<and> free_queue m'' = [] \<and>
           (\<forall>a \<in> new_address L ` {..<unat (p_poolSize P)}. heap m'' a = None)
    else misc_deInit m' = Some (Inl m')"
proof -
  from misc_init_fresh [OF assms(1,2)] have f: "fresh_ok m"
    and set: "buffer_set m = map (new_address L) [0..<unat (p_poolSize P)]" by simp_all
  then have start: "misc_ok m" "free_addresses m = buffer_set m" "distinct (buffer_set m)"
    "\<forall>a \<in> set (buffer_set m). misc_clean a m"
    using assms(3) by (simp_all add: fresh_ok_def free_addresses_def)
  have "misc.clean_state (m, [])"
    using start by (simp add: misc.clean_state_def misc.conserved_def)
  from misc.client_run_clean [OF assms(4) [unfolded misc_run_def] this]
  have c: "misc.conserved (m', lent)" "buffer_set m' = buffer_set m" "misc_ok m'"
    by (simp_all add: misc.clean_state_def misc.conserved_def)
  have full: "misc_isQueueFull m' \<longleftrightarrow> lent = []"
    using misc.conserved_full [OF c(1)] by (auto simp: misc_isQueueFull_def free_addresses_def)
  have "\<not> misc_empty m'" using c(3) by (simp add: misc_ok_def)
  show ?thesis
  proof (cases "lent = []")
    case True
    have fq: "free_queue m' = map Some (free_addresses m')"
    proof -
      have "x = Some (the x)" if "x \<in> set (free_queue m')" for x
        using c(3) that by (cases x) (auto simp: misc_ok_def list_all_iff)
      then show ?thesis by (simp add: free_addresses_def map_idI)
    qed
    have fs: "mset (free_addresses m') = mset (buffer_set m)"
      using c(1,2) True by (simp add: misc.conserved_def)
    then have "set (free_addresses m') = set (buffer_set m)" "distinct (free_addresses m')"
      using start(3) by (metis set_mset_mset, metis mset_eq_imp_distinct_iff)
    moreover have "\<forall>a \<in> set (buffer_set m). live_shaped m' a"
      using c(2,3) by (simp add: misc_ok_def)
    ultimately obtain m'' where "release_all (map Some (free_addresses m')) m' = Some m''"
      "\<forall>a \<in> set (buffer_set m). heap m'' a = None"
      using release_all_shaped [of "free_addresses m'" m'] by auto
    then show ?thesis
      using True full \<open>\<not> misc_empty m'\<close> fq by (simp add: misc_deInit_def set atLeast_upt)
  next
    case False
    with full \<open>\<not> misc_empty m'\<close> show ?thesis by (simp add: misc_deInit_def)
  qed
qed

text \<open>
  \<open>resetReid\<close> does nothing: a returned buffer keeps the number of feature vectors of its last batch.
\<close>

lemma returned_reid_stale:
  assumes "misc_ok m" "a \<in> set (buffer_set m)"
  shows "\<exists>b b' m'. heap m a = Some b \<and> misc_returnBuffer (Some a) m = Some m' \<and> heap m' a = Some b' \<and>
    reid_numFilled (reidTensorBatch b') = reid_numFilled (reidTensorBatch b)"
  using misc_give_end [OF assms] by (auto simp: misc_give_def)

text \<open>
  The buffer for the feature vectors has the size of the product only if that product fits
  into 32 bits; otherwise it is smaller by a multiple of 16 GiB, and an accepted configuration gets
  a buffer its targets do not fit into.
\<close>

lemma reid_size_exact_iff:
  "reid_size n t f \<le> 4 * (unat n * unat t * unat f) \<and>
   (reid_size n t f = 4 * (unat n * unat t * unat f) \<longleftrightarrow> unat n * unat t * unat f < 4294967296)"
proof -
  let ?p = "unat n * unat t * unat f"
  have "unat (n * t * f) = ?p mod 4294967296"
    by (simp add: unat_word_ariths mod_mult_left_eq)
  then have s: "reid_size n t f = 4 * (?p mod 4294967296)" by (simp add: reid_size_def)
  have "?p mod 4294967296 \<le> ?p" by (rule mod_less_eq_dividend)
  moreover have "?p mod 4294967296 = ?p \<longleftrightarrow> ?p < 4294967296"
    by (metis mod_less mod_less_divisor zero_less_numeral)
  ultimately show ?thesis unfolding s by simp
qed

text \<open>
  With shadow tracks as the only output no pool is made: initialisation succeeds, and every \<open>pop\<close>
  gives a null pointer.
\<close>

lemma shadow_only_no_pool:
  assumes "p_shadow P" "\<not> p_pastFrame P" "\<not> p_reid P" "\<not> p_terminated P"
  shows "\<exists>m. misc_init L P (new_TrackerMiscDataManager mem) = Some (True, m) \<and> m_OutputShadowTracks m \<and>
    misc_pop m = (None, m) \<and> buffer_set m = []"
  using assms by (simp add: misc_init_def Let_def misc_pop_def new_TrackerMiscDataManager_def)

text \<open>
  When all buffers are lent for longer than the timeout, \<open>pop\<close> gives a null pointer and
  leaves the pool as it is; handing this pointer back, as the sub-batch thread does when the tracker
  library fails, dereferences it as soon as one of the target outputs is enabled.
\<close>

lemma exhausted_pool_null_return:
  assumes "misc_ok m" "free_addresses m = []"
    and "m_PastFrame m \<or> m_OutputTerminatedTracks m \<or> m_OutputShadowTracks m"
  shows "misc_pop m = (None, m) \<and> misc_returnBuffer (fst (misc_pop m)) m = None"
  using assms by (simp add: misc_pop_def misc_ok_def misc_returnBuffer_def free_addresses_def)

section \<open>The theorems applied\<close>

definition ex_misc_libs :: misc_libs where
  "ex_misc_libs =
     \<lparr>new_address = (\<lambda>i. 100 + i),
      raw_object = \<lparr>frames_allocated = 0, numObj = 7, obj_numAllocated = 9\<rparr>,
      raw_stream = \<lparr>objects = [], stream_numAllocated = 3, stream_numFilled = 4\<rparr>,
      raw_buffer =
        \<lparr>pastFrameObjBatch = \<lparr>streams = [], batch_numAllocated = 5, batch_numFilled = 5\<rparr>,
         reidTensorBatch = \<lparr>featureSize = 1, reid_numFilled = 1, reid_bytes = 0\<rparr>,
         terminatedTrackBatch = \<lparr>streams = [], batch_numAllocated = 5, batch_numFilled = 5\<rparr>,
         shadowTracksBatch = \<lparr>streams = [], batch_numAllocated = 5, batch_numFilled = 5\<rparr>\<rparr>,
      cuda_malloc_ok = (\<lambda>_. True)\<rparr>"

definition ex_misc_params :: misc_params where
  "ex_misc_params =
     \<lparr>p_batchSize = 1, p_maxTargets = 2, p_maxShadowAge = 3, p_reidFeatureSize = 0, p_poolSize = 2,
      p_pastFrame = True, p_reid = False, p_terminated = False, p_shadow = False, p_maxHistory = 4\<rparr>"

definition ex_misc_mem :: MiscDataManager where
  "ex_misc_mem =
     \<lparr>misc_empty = True, m_PastFrame = False, m_OutputReidTensor = False, m_OutputTerminatedTracks = False,
      m_OutputShadowTracks = False, free_queue = [], buffer_set = [], heap = (\<lambda>_. None)\<rparr>"

definition ex_fill :: "MiscDataBuffer \<Rightarrow> MiscDataBuffer" where
  "ex_fill b = b\<lparr>pastFrameObjBatch := (pastFrameObjBatch b)\<lparr>batch_numFilled := 1\<rparr>\<rparr>"

definition ex_misc_ops :: "(nat pool_op + (MiscDataBuffer \<Rightarrow> MiscDataBuffer) \<times> nat) list" where
  "ex_misc_ops = [Inl Take, Inr (ex_fill, 100), Inl (Give 100)]"

lemma ex_misc_addresses: "map (new_address ex_misc_libs) [0..<unat (p_poolSize ex_misc_params)] = [100, 101]"
  by (simp add: ex_misc_libs_def ex_misc_params_def upt_rec)

lemma ex_misc_started:
  "\<exists>m. misc_init ex_misc_libs ex_misc_params (new_TrackerMiscDataManager ex_misc_mem) = Some (True, m)"
  by (simp add: misc_init_def Let_def new_TrackerMiscDataManager_def ex_misc_params_def ex_misc_mem_def
      alloc_buffer_def allocateReid_def upt_rec)

lemma ex_misc_run:
  assumes "misc_ok m" "free_addresses m = [a, b]" "buffer_set m = [a, b]" "a = 100"
  shows "\<exists>m'. misc_run ex_misc_ops (m, []) = Some (m', [])"
proof -
  obtain m1 where t: "misc_take m = Some (a, m1)" "buffer_set m1 = [a, b]" "misc_ok m1"
    using misc_take_front [OF assms(1,2)] assms(3) by auto
  have a: "a \<in> set (buffer_set m1)" using t(2) by simp
  note w = misc.write_frame [OF t(3) a, of ex_fill]
  have "a \<in> set (buffer_set (misc_write ex_fill a m1))" using w a by simp
  with misc_give_end [of "misc_write ex_fill a m1" a] w obtain m2 where
    "misc_give a (misc_write ex_fill a m1) = Some m2" by blast
  with t(1) assms(4) show ?thesis by (simp add: misc_run_def ex_misc_ops_def)
qed

lemma ex_misc_system:
  "\<exists>m m'. misc_init ex_misc_libs ex_misc_params (new_TrackerMiscDataManager ex_misc_mem) = Some (True, m) \<and>
     misc_run ex_misc_ops (m, []) = Some (m', [])"
proof -
  obtain m where m: "misc_init ex_misc_libs ex_misc_params (new_TrackerMiscDataManager ex_misc_mem) = Some (True, m)"
    using ex_misc_started by blast
  have "p_pastFrame ex_misc_params" by (simp add: ex_misc_params_def)
  with misc_init_fresh [OF m] have "fresh_ok m" "buffer_set m = [100, 101]"
    by (simp_all add: ex_misc_addresses)
  then have "\<exists>m'. misc_run ex_misc_ops (m, []) = Some (m', [])"
    by (intro ex_misc_run [of m 100 101]) (simp_all add: fresh_ok_def free_addresses_def)
  with m show ?thesis by blast
qed

lemma ex_misc_image: "new_address ex_misc_libs ` {..<unat (p_poolSize ex_misc_params)} = {100, 101}"
proof -
  have "new_address ex_misc_libs ` {..<unat (p_poolSize ex_misc_params)} =
      set (map (new_address ex_misc_libs) [0..<unat (p_poolSize ex_misc_params)])"
    by (simp add: atLeast_upt)
  then show ?thesis unfolding ex_misc_addresses by simp
qed

theorem misc_pool_clean_witness:
  "\<exists>m m'. misc_init ex_misc_libs ex_misc_params (new_TrackerMiscDataManager ex_misc_mem) = Some (True, m) \<and>
     misc_run ex_misc_ops (m, []) = Some (m', []) \<and> set (free_addresses m') = {100, 101} \<and>
     misc_clean 100 m' \<and> misc_clean 101 m'"
proof -
  obtain m m' where m: "misc_init ex_misc_libs ex_misc_params (new_TrackerMiscDataManager ex_misc_mem) = Some (True, m)"
    and r: "misc_run ex_misc_ops (m, []) = Some (m', [])"
    using ex_misc_system by blast
  have "p_pastFrame ex_misc_params \<or> p_reid ex_misc_params \<or> p_terminated ex_misc_params"
    by (simp add: ex_misc_params_def)
  from misc_pool_clean [OF m this _ r] have "set (free_addresses m') = {100, 101}"
    "\<forall>a \<in> set (free_addresses m'). misc_clean a m'"
    by (simp_all add: ex_misc_addresses ex_misc_image)
  with m r show ?thesis by auto
qed

theorem misc_deInit_complete_witness:
  "\<exists>m m' m''. misc_init ex_misc_libs ex_misc_params (new_TrackerMiscDataManager ex_misc_mem) = Some (True, m) \<and>
     misc_run ex_misc_ops (m, []) = Some (m', []) \<and> misc_deInit m' = Some (Inr m'') \<and> heap m'' 100 = None"
proof -
  obtain m m' where m: "misc_init ex_misc_libs ex_misc_params (new_TrackerMiscDataManager ex_misc_mem) = Some (True, m)"
    and r: "misc_run ex_misc_ops (m, []) = Some (m', [])"
    using ex_misc_system by blast
  have "p_pastFrame ex_misc_params \<or> p_reid ex_misc_params \<or> p_terminated ex_misc_params"
    by (simp add: ex_misc_params_def)
  from misc_deInit_complete [OF m this _ r] have "\<exists>m''. misc_deInit m' = Some (Inr m'') \<and> heap m'' 100 = None"
    by (auto simp: ex_misc_addresses ex_misc_image)
  with m r show ?thesis by blast
qed

lemma exhausted_pool_null_return_witness:
  "\<exists>m. misc_pop m = (None, m) \<and> misc_returnBuffer None m = None"
proof -
  let ?m = "ex_misc_mem\<lparr>misc_empty := False, m_PastFrame := True\<rparr>"
  have "misc_ok ?m" "free_addresses ?m = []" "m_PastFrame ?m"
    by (simp_all add: misc_ok_def ex_misc_mem_def free_addresses_def)
  with exhausted_pool_null_return [of ?m] show ?thesis by auto
qed

end
