(* ===== verification/DetectPost.thy ===== *)
theory DetectPost
  imports Doubles
begin

text \<open>
  The post-processing of detector networks in the inference library:
  \<open>src/sources/libs/nvdsinfer/nvdsinfer_context_impl_output_parsing.cpp\<close>, the class
  \<open>DetectPostprocessor\<close> of \<open>nvdsinfer_context_impl.h\<close>, and the structures of
  \<open>src/sources/includes/nvdsinfer.h\<close>, \<open>nvdsinfer_context.h\<close> and \<open>nvdsinfer_custom_impl.h\<close>.

  A result \<open>None\<close> is undefined behaviour or an exception (an index behind an array, a sort whose
  comparison is no ordering, a division by zero). The clustering of DBSCAN and OpenCV and a custom
  parser are outside of the repository and parameters. A \<open>float\<close> is a value of type \<open>dbl\<close>.
  The number of objects of a frame is taken to fit into an \<open>int\<close>, so that a position in a list is
  a \<open>nat\<close>.
\<close>

section \<open>Data\<close>

record NvDsInferDimsCHW =
  dims_c :: u32
  dims_h :: u32
  dims_w :: u32

text \<open>The array \<open>d\<close> of the dimensions, the name and the buffer of a layer, read as floats.\<close>

record NvDsInferLayerInfo =
  inferDims :: "u32 list"
  layerName :: string
  layer_buffer :: "dbl list"

record NvDsInferNetworkInfo =
  net_width :: u32
  net_height :: u32

record NvDsInferObjectDetectionInfo =
  classId :: u32
  det_left :: dbl
  det_top :: dbl
  det_width :: dbl
  det_height :: dbl
  detectionConfidence :: dbl

text \<open>The same members with the mask of the object; \<open>None\<close> is a null pointer.\<close>

record NvDsInferInstanceMaskInfo = NvDsInferObjectDetectionInfo +
  mask :: "dbl list option"
  mask_width :: u32
  mask_height :: u32
  mask_size :: u32

record NvDsInferDetectionParams =
  preClusterThreshold :: dbl
  postClusterThreshold :: dbl
  det_eps :: dbl
  minBoxes :: int
  groupThreshold :: int
  minScore :: dbl
  nmsIOUThreshold :: dbl
  topK :: int

record NvDsInferParseDetectionParams =
  numClassesConfigured :: u32
  perClassPreclusterThreshold :: "dbl list"
  perClassPostclusterThreshold :: "dbl list"

datatype NvDsInferClusterMode =
  NVDSINFER_CLUSTER_GROUP_RECTANGLES | NVDSINFER_CLUSTER_DBSCAN | NVDSINFER_CLUSTER_NMS
| NVDSINFER_CLUSTER_DBSCAN_NMS_HYBRID | NVDSINFER_CLUSTER_NONE

datatype NvDsInferTensorOrder =
  NvDsInferTensorOrder_kNCHW | NvDsInferTensorOrder_kNHWC | NvDsInferTensorOrder_kNC

datatype NvDsInferStatus =
  NVDSINFER_SUCCESS | NVDSINFER_CONFIG_FAILED | NVDSINFER_CUSTOM_LIB_FAILED | NVDSINFER_INVALID_PARAMS
| NVDSINFER_OUTPUT_PARSING_FAILED | NVDSINFER_CUDA_ERROR | NVDSINFER_TENSORRT_ERROR
| NVDSINFER_RESOURCE_ERROR | NVDSINFER_TRITON_ERROR | NVDSINFER_MEM_ERROR | NVDSINFER_UNKNOWN_ERROR

text \<open>
  A null label or mask is \<open>None\<close>; the width, height and size of a mask are set together with its
  pointer and belong to it.
\<close>

record NvDsInferObject =
  obj_left :: dbl
  obj_top :: dbl
  obj_width :: dbl
  obj_height :: dbl
  classIndex :: int
  obj_label :: "string option"
  confidence :: dbl
  obj_mask :: "(dbl list \<times> u32 \<times> u32 \<times> u32) option"

record NvDsInferDetectionOutput =
  out_objects :: "NvDsInferObject list"
  numObjects :: u32

record cv_rect =
  cv_x :: int
  cv_y :: int
  cv_width :: int
  cv_height :: int

record DetectPostprocessor =
  m_ClusterMode :: NvDsInferClusterMode
  m_NumDetectedClasses :: u32
  m_PerClassDetectionParams :: "NvDsInferDetectionParams list"
  m_DetectionParams :: NvDsInferParseDetectionParams
  m_ObjectList :: "NvDsInferObjectDetectionInfo list"
  m_PerClassCvRectList :: "cv_rect list list"
  m_PerClassObjectList :: "NvDsInferObjectDetectionInfo list list"
  m_Labels :: "string list list"
  m_NetworkInfo :: NvDsInferNetworkInfo
  m_CustomBBoxParseFunc :: bool
  m_DBScanHandle :: bool

text \<open>
  The calls that leave the repository. DBSCAN works on the array in place and sets the number of
  objects; \<open>with_opencv\<close> is the build flag.
\<close>

record dbscan_params =
  db_eps :: dbl
  db_minBoxes :: int
  db_minScore :: dbl

record detect_libs =
  custom_bbox_parse :: "NvDsInferLayerInfo list \<Rightarrow> NvDsInferNetworkInfo \<Rightarrow> NvDsInferParseDetectionParams \<Rightarrow>
    NvDsInferObjectDetectionInfo list option"
  dbscan_cluster :: "dbscan_params \<Rightarrow> NvDsInferObjectDetectionInfo list \<Rightarrow> NvDsInferObjectDetectionInfo list \<times> nat"
  dbscan_hybrid :: "dbscan_params \<Rightarrow> NvDsInferObjectDetectionInfo list \<Rightarrow> NvDsInferObjectDetectionInfo list \<times> nat"
  group_rectangles :: "int \<Rightarrow> dbl \<Rightarrow> cv_rect list \<Rightarrow> cv_rect list"
  float_to_int :: "dbl \<Rightarrow> int"
  with_opencv :: bool

section \<open>Parsing the output layers\<close>

text \<open>\<open>strstr\<close> finds a pattern.\<close>

definition has_substring :: "string \<Rightarrow> string \<Rightarrow> bool" where
  "has_substring pat s \<longleftrightarrow> list_ex (\<lambda>k. take (length pat) (drop k s) = pat) [0..<Suc (length s)]"

text \<open>The last layer whose name contains the pattern.\<close>

fun find_layer :: "string \<Rightarrow> NvDsInferLayerInfo list \<Rightarrow> NvDsInferLayerInfo option" where
  "find_layer pat [] = None"
| "find_layer pat (l # ls) =
     (case find_layer pat ls of
        Some l' \<Rightarrow> Some l' | None \<Rightarrow> if has_substring pat (layerName l) then Some l else None)"

definition getDimsCHWFromDims :: "u32 list \<Rightarrow> NvDsInferDimsCHW" where
  "getDimsCHWFromDims d = \<lparr>dims_c = d ! 0, dims_h = d ! 1, dims_w = d ! 2\<rparr>"

definition DIVIDE_AND_ROUND_UP :: "u32 \<Rightarrow> u32 \<Rightarrow> u32 option" where
  "DIVIDE_AND_ROUND_UP a b = (if b = 0 then None else Some ((a + b - 1) div b))"

definition read_float :: "dbl list \<Rightarrow> int \<Rightarrow> dbl option" where
  "read_float buf i = (if 0 \<le> i \<and> i < int (length buf) then Some (buf ! nat i) else None)"

definition bboxNorm :: dbl where
  "bboxNorm = Fin 35"

definition grid_center :: "u32 \<Rightarrow> u32 \<Rightarrow> dbl" where
  "grid_center i stride = ddiv (dbl_of_u32 (i * stride) + Fin (1 / 2)) bboxNorm"

text \<open>The upper bound is compared as a signed integer and assigned from an unsigned one.\<close>

definition clip_high :: "u32 \<Rightarrow> dbl \<Rightarrow> dbl" where
  "clip_high bound x = (if dbl_of_int (sint bound) \<le> x then dbl_of_u32 (bound - 1) else x)"

definition clip_low :: "dbl \<Rightarrow> dbl" where
  "clip_low x = (if x < 0 then 0 else x)"

definition clip :: "u32 \<Rightarrow> dbl \<Rightarrow> dbl" where
  "clip bound x = clip_low (clip_high bound x)"

record bbox_grid =
  g_coverage :: "dbl list"
  g_bboxes :: "dbl list"
  g_cov :: NvDsInferDimsCHW
  g_bbox :: NvDsInferDimsCHW
  g_strideX :: u32
  g_strideY :: u32

text \<open>
  One point of the grid: \<open>None\<close> when a read is out of bounds, \<open>Some None\<close> for a \<open>continue\<close>. Offsets into
  the buffers are computed as in the code: the class offset of the box layer in 64 bits, the grid
  size as a signed and the index in the coverage layer as an unsigned 32 bit number.
\<close>

definition parse_cell ::
  "bbox_grid \<Rightarrow> NvDsInferNetworkInfo \<Rightarrow> dbl list \<Rightarrow> u32 \<times> u32 \<times> u32 \<Rightarrow> NvDsInferObjectDetectionInfo option option"
where
  "parse_cell g net thresholds cell =
     (let (c, h, w) = cell;
          gridSize = dims_w (g_cov g) * dims_h (g_cov g);
          i = w + h * dims_w (g_cov g);
          x1 = uint (ucast c * 4 * ucast (dims_h (g_bbox g)) * ucast (dims_w (g_bbox g)) :: u64);
          y1 = x1 + sint gridSize; x2 = y1 + sint gridSize; y2 = x2 + sint gridSize
      in case (read_float (g_coverage g) (uint (c * gridSize + i)), unat c < length thresholds) of
           (Some conf, True) \<Rightarrow>
             if conf < thresholds ! unat c then Some None
             else
               (case (read_float (g_bboxes g) (x1 + uint i), read_float (g_bboxes g) (y1 + uint i),
                      read_float (g_bboxes g) (x2 + uint i), read_float (g_bboxes g) (y2 + uint i)) of
                  (Some fx1, Some fy1, Some fx2, Some fy2) \<Rightarrow>
                    let gx = grid_center w (g_strideX g); gy = grid_center h (g_strideY g);
                        rx1 = clip (net_width net) ((fx1 - gx) * - bboxNorm);
                        ry1 = clip (net_height net) ((fy1 - gy) * - bboxNorm);
                        rx2 = clip (net_width net) ((fx2 + gx) * bboxNorm);
                        ry2 = clip (net_height net) ((fy2 + gy) * bboxNorm)
                    in if rx2 - rx1 < 0 \<or> ry2 - ry1 < 0 then Some None
                       else Some (Some \<lparr>classId = c, det_left = rx1, det_top = ry1, det_width = rx2 - rx1,
                                        det_height = ry2 - ry1, detectionConfidence = conf\<rparr>)
                | _ \<Rightarrow> None)
         | _ \<Rightarrow> None)"

fun collect :: "('a \<Rightarrow> 'b option option) \<Rightarrow> 'a list \<Rightarrow> 'b list option" where
  "collect f [] = Some []"
| "collect f (x # xs) =
     (case f x of
        None \<Rightarrow> None
      | Some r \<Rightarrow>
          (case collect f xs of
             None \<Rightarrow> None
           | Some ys \<Rightarrow> Some (case r of None \<Rightarrow> ys | Some y \<Rightarrow> y # ys)))"

text \<open>The loops over classes, rows and columns.\<close>

definition cells :: "u32 \<Rightarrow> u32 \<Rightarrow> u32 \<Rightarrow> (u32 \<times> u32 \<times> u32) list" where
  "cells n h w =
     concat (map (\<lambda>c. concat (map (\<lambda>y. map (\<lambda>x. (of_nat c, of_nat y, of_nat x)) [0..<unat w]) [0..<unat h]))
       [0..<unat n])"

text \<open>The result is \<open>Some None\<close> when a layer is missing.\<close>

definition parseBoundingBox ::
  "NvDsInferLayerInfo list \<Rightarrow> NvDsInferNetworkInfo \<Rightarrow> NvDsInferParseDetectionParams \<Rightarrow>
   NvDsInferObjectDetectionInfo list option option" where
  "parseBoundingBox layers net params =
     (case (find_layer ''cov'' layers, find_layer ''bbox'' layers) of
        (Some cov, Some bbox) \<Rightarrow>
          let cd = getDimsCHWFromDims (inferDims cov); bd = getDimsCHWFromDims (inferDims bbox)
          in (case (DIVIDE_AND_ROUND_UP (net_width net) (dims_w bd), DIVIDE_AND_ROUND_UP (net_height net) (dims_h bd)) of
                (Some sx, Some sy) \<Rightarrow>
                  let g = \<lparr>g_coverage = layer_buffer cov, g_bboxes = layer_buffer bbox, g_cov = cd, g_bbox = bd,
                           g_strideX = sx, g_strideY = sy\<rparr>;
                      numClasses = min (dims_c cd) (numClassesConfigured params)
                  in map_option Some
                       (collect (parse_cell g net (perClassPreclusterThreshold params))
                          (cells numClasses (dims_h cd) (dims_w cd)))
              | _ \<Rightarrow> None)
      | _ \<Rightarrow> Some None)"

section \<open>Filtering\<close>

definition pre_keep :: "NvDsInferParseDetectionParams \<Rightarrow> 'a NvDsInferObjectDetectionInfo_scheme \<Rightarrow> bool option" where
  "pre_keep params ob =
     (if numClassesConfigured params \<le> classId ob then Some False
      else if length (perClassPreclusterThreshold params) \<le> unat (classId ob) then None
      else Some (\<not> detectionConfidence ob < perClassPreclusterThreshold params ! unat (classId ob)))"

definition preClusteringThreshold ::
  "NvDsInferParseDetectionParams \<Rightarrow> 'a NvDsInferObjectDetectionInfo_scheme list \<Rightarrow>
   'a NvDsInferObjectDetectionInfo_scheme list option" where
  "preClusteringThreshold params objs =
     collect (\<lambda>ob. map_option (\<lambda>keep. if keep then Some ob else None) (pre_keep params ob)) objs"

text \<open>
  \<open>std::stable_sort\<close> by descending key. The comparison is a strict weak ordering of the elements unless
  a NaN meets two keys that differ; the standard leaves the result undefined then.
\<close>

definition weakly_ordered :: "dbl list \<Rightarrow> bool" where
  "weakly_ordered ks \<longleftrightarrow> NaN \<notin> set ks \<or> list_all (\<lambda>a. list_all (\<lambda>b. \<not> a < b) ks) ks"

fun insert_desc :: "('a \<Rightarrow> dbl) \<Rightarrow> 'a \<Rightarrow> 'a list \<Rightarrow> 'a list" where
  "insert_desc key x [] = [x]"
| "insert_desc key x (y # ys) = (if key x < key y then y # insert_desc key x ys else x # y # ys)"

fun sort_desc :: "('a \<Rightarrow> dbl) \<Rightarrow> 'a list \<Rightarrow> 'a list" where
  "sort_desc key [] = []"
| "sort_desc key (x # xs) = insert_desc key x (sort_desc key xs)"

definition stable_sort_desc :: "('a \<Rightarrow> dbl) \<Rightarrow> 'a list \<Rightarrow> 'a list option" where
  "stable_sort_desc key xs = (if weakly_ordered (map key xs) then Some (sort_desc key xs) else None)"

definition filterTopKOutputs ::
  "int \<Rightarrow> 'a NvDsInferObjectDetectionInfo_scheme list \<Rightarrow> 'a NvDsInferObjectDetectionInfo_scheme list option" where
  "filterTopKOutputs k objs =
     (if k < 0 then Some objs
      else map_option (take (nat k)) (stable_sort_desc detectionConfidence objs))"

section \<open>Non-maximum suppression\<close>

definition std_min :: "dbl \<Rightarrow> dbl \<Rightarrow> dbl" where
  "std_min a b = (if b < a then b else a)"

definition overlap1D :: "dbl \<Rightarrow> dbl \<Rightarrow> dbl \<Rightarrow> dbl \<Rightarrow> dbl" where
  "overlap1D x1min x1max x2min x2max =
     (let (a, b, c, d) = (if x2min < x1min then (x2min, x2max, x1min, x1max) else (x1min, x1max, x2min, x2max))
      in if b < c then 0 else std_min b d - c)"

definition computeIoU :: "NvDsInferObjectDetectionInfo \<Rightarrow> NvDsInferObjectDetectionInfo \<Rightarrow> dbl" where
  "computeIoU b1 b2 =
     (let overlapX = overlap1D (det_left b1) (det_left b1 + det_width b1) (det_left b2) (det_left b2 + det_width b2);
          overlapY = overlap1D (det_top b1) (det_top b1 + det_height b1) (det_top b2) (det_top b2 + det_height b2);
          area1 = det_width b1 * det_height b1;
          area2 = det_width b2 * det_height b2;
          overlap2D = overlapX * overlapY;
          u = area1 + area2 - overlap2D
      in if deq u 0 then 0 else ddiv overlap2D u)"

text \<open>The inner loop, which stops at the first overlap; \<open>bbox.at\<close> throws for an index out of range.\<close>

fun nms_check ::
  "dbl \<Rightarrow> NvDsInferObjectDetectionInfo list \<Rightarrow> nat \<Rightarrow> nat list \<Rightarrow> bool option" where
  "nms_check thr bbox idx [] = Some True"
| "nms_check thr bbox idx (k # ks) =
     (if length bbox \<le> idx \<or> length bbox \<le> k then None
      else if computeIoU (bbox ! idx) (bbox ! k) \<le> thr then nms_check thr bbox idx ks else Some False)"

fun nms_loop ::
  "dbl \<Rightarrow> NvDsInferObjectDetectionInfo list \<Rightarrow> (dbl \<times> nat) list \<Rightarrow> nat list \<Rightarrow> nat list option" where
  "nms_loop thr bbox [] indices = Some indices"
| "nms_loop thr bbox ((s, idx) # rest) indices =
     (case nms_check thr bbox idx indices of
        None \<Rightarrow> None
      | Some keep \<Rightarrow> nms_loop thr bbox rest (if keep then indices @ [idx] else indices))"

definition nonMaximumSuppression ::
  "(dbl \<times> nat) list \<Rightarrow> NvDsInferObjectDetectionInfo list \<Rightarrow> dbl \<Rightarrow> nat list option" where
  "nonMaximumSuppression scoreIndex bbox nmsThreshold = nms_loop nmsThreshold bbox scoreIndex []"

end
