(* ===== verification/DetectFill.thy ===== *)
theory DetectFill
  imports DetectPost
begin

text \<open>
  The clustering modes of \<open>DetectPostprocessor\<close> and what they write to the output of a frame
  (\<open>nvdsinfer_context_impl_output_parsing.cpp\<close>), with the initialisation and the entry point of
  the class (\<open>nvdsinfer_context_impl.cpp\<close>).

  An operation takes the post-processor and returns it updated. The output of a frame is a piece of
  memory that \<open>new NvDsInferFrameOutput[]\<close> leaves uninitialised; the operations that do not write it
  return it unchanged.
\<close>

section \<open>Lists of the classes\<close>

text \<open>\<open>m_PerClassObjectList[object.classId].emplace_back(object)\<close> for every object.\<close>

fun distribute ::
  "'a NvDsInferObjectDetectionInfo_scheme list \<Rightarrow> 'a NvDsInferObjectDetectionInfo_scheme list list \<Rightarrow>
   'a NvDsInferObjectDetectionInfo_scheme list list option" where
  "distribute [] ls = Some ls"
| "distribute (ob # obs) ls =
     (let c = unat (classId ob)
      in if c < length ls then distribute obs (ls[c := ls ! c @ [ob]]) else None)"

text \<open>
  A loop over the classes that replaces the list of every class; an index behind the lists or the
  parameters is \<open>None\<close>.
\<close>

definition for_classes ::
  "u32 \<Rightarrow> NvDsInferDetectionParams list \<Rightarrow> (NvDsInferDetectionParams \<Rightarrow> 'a \<Rightarrow> 'b option) \<Rightarrow> 'a list \<Rightarrow> 'b list option"
where
  "for_classes n ps f ls =
     (if length ls < unat n \<or> length ps < unat n then None
      else those (map (\<lambda>c. f (ps ! c) (ls ! c)) [0..<unat n]))"

text \<open>\<open>vector::resize\<close> fills with value-initialised objects.\<close>

definition vec_resize :: "'a \<Rightarrow> nat \<Rightarrow> 'a list \<Rightarrow> 'a list" where
  "vec_resize d n xs = take n xs @ replicate (n - length xs) d"

definition zero_object :: NvDsInferObjectDetectionInfo where
  "zero_object = \<lparr>classId = 0, det_left = 0, det_top = 0, det_width = 0, det_height = 0, detectionConfidence = 0\<rparr>"

section \<open>Objects of the output\<close>

definition class_label :: "string list list \<Rightarrow> nat \<Rightarrow> string option" where
  "class_label labels c = (if c < length labels \<and> labels ! c \<noteq> [] then Some (labels ! c ! 0) else None)"

definition make_object ::
  "int \<Rightarrow> string option \<Rightarrow> 'a NvDsInferObjectDetectionInfo_scheme \<Rightarrow> NvDsInferObject" where
  "make_object c l ob =
     \<lparr>obj_left = det_left ob, obj_top = det_top ob, obj_width = det_width ob, obj_height = det_height ob,
      classIndex = c, obj_label = l, confidence = detectionConfidence ob, obj_mask = None\<rparr>"

definition make_output :: "NvDsInferObject list \<Rightarrow> NvDsInferDetectionOutput" where
  "make_output os = \<lparr>out_objects = os, numObjects = of_nat (length os)\<rparr>"

text \<open>
  With NMS the class index is compared as an \<open>int\<close>: a class id of \<open>2^31\<close> or more is a negative
  index into the labels.
\<close>

definition nms_object :: "string list list \<Rightarrow> NvDsInferObjectDetectionInfo \<Rightarrow> NvDsInferObject option" where
  "nms_object labels ob =
     (let c = sint (classId ob)
      in if c < sint (of_nat (length labels) :: u32) then
           if c < 0 then None else Some (make_object c (class_label labels (nat c)) ob)
         else Some (make_object c None ob))"

section \<open>Clustering\<close>

definition nms_class ::
  "NvDsInferDetectionParams \<Rightarrow> NvDsInferObjectDetectionInfo list \<Rightarrow> NvDsInferObjectDetectionInfo list option" where
  "nms_class p objs =
     (if objs = [] then Some []
      else (case stable_sort_desc fst (zip (map detectionConfidence objs) [0..<length objs]) of
              None \<Rightarrow> None
            | Some scoreIndex \<Rightarrow>
                (case nonMaximumSuppression scoreIndex objs (nmsIOUThreshold p) of
                   None \<Rightarrow> None
                 | Some indices \<Rightarrow>
                     filterTopKOutputs (topK p)
                       (filter (\<lambda>ob. postClusterThreshold p < detectionConfidence ob)
                          (map ((!) objs) indices)))))"

text \<open>The largest list is read through \<open>max_element\<close>, which is the end iterator without classes.\<close>

definition clusterAndFillDetectionOutputNMS :: "DetectPostprocessor \<Rightarrow> NvDsInferDetectionOutput option" where
  "clusterAndFillDetectionOutputNMS p =
     (if m_PerClassObjectList p = [] then None
      else (case for_classes (m_NumDetectedClasses p) (m_PerClassDetectionParams p) nms_class
                   (m_PerClassObjectList p) of
              None \<Rightarrow> None
            | Some per \<Rightarrow> map_option make_output (those (map (nms_object (m_Labels p)) (concat per)))))"

definition make_dbscan_params :: "NvDsInferDetectionParams \<Rightarrow> dbscan_params" where
  "make_dbscan_params p = \<lparr>db_eps = det_eps p, db_minBoxes = minBoxes p, db_minScore = minScore p\<rparr>"

definition dbscan_class ::
  "detect_libs \<Rightarrow> NvDsInferDetectionParams \<Rightarrow> NvDsInferObjectDetectionInfo list \<Rightarrow>
   NvDsInferObjectDetectionInfo list option" where
  "dbscan_class L p objs =
     (let (arr, n) = (if 0 < minBoxes p then dbscan_cluster L (make_dbscan_params p) objs else (objs, length objs))
      in filterTopKOutputs (topK p)
           (filter (\<lambda>ob. \<not> detectionConfidence ob < postClusterThreshold p) (vec_resize zero_object n arr)))"

definition set_class_lists ::
  "NvDsInferObjectDetectionInfo list list \<Rightarrow> DetectPostprocessor \<Rightarrow> DetectPostprocessor" where
  "set_class_lists ls p =
     p\<lparr>m_PerClassObjectList := ls @ drop (unat (m_NumDetectedClasses p)) (m_PerClassObjectList p)\<rparr>"

text \<open>The objects of class \<open>c\<close> get the class \<open>c\<close>, whatever their class id is.\<close>

definition class_objects ::
  "string list list \<Rightarrow> nat \<Rightarrow> 'a NvDsInferObjectDetectionInfo_scheme list \<Rightarrow> NvDsInferObject list" where
  "class_objects labels c obs = map (make_object (sint (of_nat c :: u32)) (class_label labels c)) obs"

definition clusterAndFillDetectionOutputDBSCAN ::
  "detect_libs \<Rightarrow> DetectPostprocessor \<Rightarrow> (DetectPostprocessor \<times> NvDsInferDetectionOutput) option" where
  "clusterAndFillDetectionOutputDBSCAN L p =
     (if \<not> m_DBScanHandle p then None
      else map_option
             (\<lambda>per. (set_class_lists per p,
                make_output (concat (map (\<lambda>c. class_objects (m_Labels p) c (per ! c))
                  [0..<unat (m_NumDetectedClasses p)]))))
             (for_classes (m_NumDetectedClasses p) (m_PerClassDetectionParams p) (dbscan_class L)
                (m_PerClassObjectList p)))"

definition hybrid_class ::
  "detect_libs \<Rightarrow> NvDsInferDetectionParams \<Rightarrow> NvDsInferObjectDetectionInfo list \<Rightarrow>
   NvDsInferObjectDetectionInfo list option" where
  "hybrid_class L p objs =
     (let (arr, n) = (if 0 < minBoxes p then dbscan_hybrid L (make_dbscan_params p) objs else (objs, length objs))
      in Some (vec_resize zero_object n arr))"

definition clusterAndFillDetectionOutputHybrid ::
  "detect_libs \<Rightarrow> DetectPostprocessor \<Rightarrow> (DetectPostprocessor \<times> NvDsInferDetectionOutput) option" where
  "clusterAndFillDetectionOutputHybrid L p =
     (if \<not> m_DBScanHandle p then None
      else (case for_classes (m_NumDetectedClasses p) (m_PerClassDetectionParams p) (hybrid_class L)
                   (m_PerClassObjectList p) of
              None \<Rightarrow> None
            | Some per \<Rightarrow>
                let p' = set_class_lists per p
                in map_option (\<lambda>out. (p', out)) (clusterAndFillDetectionOutputNMS p')))"

text \<open>OpenCV's rectangles have integer members; the confidence of a group is lost.\<close>

definition to_cv_rect :: "detect_libs \<Rightarrow> NvDsInferObjectDetectionInfo \<Rightarrow> cv_rect" where
  "to_cv_rect L ob =
     \<lparr>cv_x = float_to_int L (det_left ob), cv_y = float_to_int L (det_top ob),
      cv_width = float_to_int L (det_width ob), cv_height = float_to_int L (det_height ob)\<rparr>"

fun distribute_rects ::
  "detect_libs \<Rightarrow> NvDsInferObjectDetectionInfo list \<Rightarrow> cv_rect list list \<Rightarrow> cv_rect list list option" where
  "distribute_rects L [] ls = Some ls"
| "distribute_rects L (ob # obs) ls =
     (let c = unat (classId ob)
      in if c < length ls then distribute_rects L obs (ls[c := ls ! c @ [to_cv_rect L ob]]) else None)"

definition cv_class :: "detect_libs \<Rightarrow> NvDsInferDetectionParams \<Rightarrow> cv_rect list \<Rightarrow> cv_rect list option" where
  "cv_class L p rects =
     Some (if 0 < groupThreshold p then group_rectangles L (groupThreshold p) (det_eps p) rects else rects)"

definition cv_object :: "string list list \<Rightarrow> nat \<Rightarrow> cv_rect \<Rightarrow> NvDsInferObject" where
  "cv_object labels c r =
     \<lparr>obj_left = dbl_of_int (cv_x r), obj_top = dbl_of_int (cv_y r), obj_width = dbl_of_int (cv_width r),
      obj_height = dbl_of_int (cv_height r), classIndex = sint (of_nat c :: u32),
      obj_label = class_label labels c, confidence = Fin (- 1 / 10), obj_mask = None\<rparr>"

definition clusterAndFillDetectionOutputCV ::
  "detect_libs \<Rightarrow> DetectPostprocessor \<Rightarrow> (DetectPostprocessor \<times> NvDsInferDetectionOutput) option" where
  "clusterAndFillDetectionOutputCV L p =
     (case distribute_rects L (m_ObjectList p) (map (\<lambda>_. []) (m_PerClassCvRectList p)) of
        None \<Rightarrow> None
      | Some rs \<Rightarrow>
          map_option
            (\<lambda>per. (p\<lparr>m_PerClassCvRectList := per @ drop (unat (m_NumDetectedClasses p)) rs\<rparr>,
               make_output (concat (map (\<lambda>c. map (cv_object (m_Labels p) c) (per ! c))
                 [0..<unat (m_NumDetectedClasses p)]))))
            (for_classes (m_NumDetectedClasses p) (m_PerClassDetectionParams p) (cv_class L) rs))"

text \<open>
  Without clustering the array has room for the classes of the loop; an object in a list behind them
  would be written past its end.
\<close>

definition fillUnclusteredOutput ::
  "DetectPostprocessor \<Rightarrow> (DetectPostprocessor \<times> NvDsInferDetectionOutput) option" where
  "fillUnclusteredOutput p =
     (case distribute (m_ObjectList p) (m_PerClassObjectList p) of
        None \<Rightarrow> None
      | Some ls \<Rightarrow>
          (case for_classes (m_NumDetectedClasses p) (m_PerClassDetectionParams p)
                  (\<lambda>q. filterTopKOutputs (topK q)) ls of
             None \<Rightarrow> None
           | Some per \<Rightarrow>
               if concat (drop (unat (m_NumDetectedClasses p)) ls) \<noteq> [] then None
               else Some (set_class_lists per (p\<lparr>m_PerClassObjectList := ls\<rparr>),
                      make_output (map (\<lambda>ob. make_object (sint (classId ob))
                        (class_label (m_Labels p) (unat (classId ob))) ob) (concat per)))))"

section \<open>A frame\<close>

text \<open>The objects parsed from the layers, or the status the operation returns with.\<close>

definition parse_objects ::
  "detect_libs \<Rightarrow> DetectPostprocessor \<Rightarrow> NvDsInferLayerInfo list \<Rightarrow>
   (NvDsInferStatus + NvDsInferObjectDetectionInfo list) option" where
  "parse_objects L p layers =
     (if m_CustomBBoxParseFunc p then
        (case custom_bbox_parse L layers (m_NetworkInfo p) (m_DetectionParams p) of
           None \<Rightarrow> Some (Inl NVDSINFER_CUSTOM_LIB_FAILED) | Some objs \<Rightarrow> Some (Inr objs))
      else
        (case parseBoundingBox layers (m_NetworkInfo p) (m_DetectionParams p) of
           None \<Rightarrow> None
         | Some None \<Rightarrow> Some (Inl NVDSINFER_OUTPUT_PARSING_FAILED)
         | Some (Some objs) \<Rightarrow> Some (Inr objs)))"

definition clears_lists :: "DetectPostprocessor \<Rightarrow> DetectPostprocessor" where
  "clears_lists p = p\<lparr>m_ObjectList := [], m_PerClassObjectList := map (\<lambda>_. []) (m_PerClassObjectList p)\<rparr>"

text \<open>The clustering modes that need the objects of every class apart.\<close>

definition splits_classes :: "detect_libs \<Rightarrow> NvDsInferClusterMode \<Rightarrow> bool" where
  "splits_classes L mode \<longleftrightarrow>
     mode \<noteq> NVDSINFER_CLUSTER_NONE \<and> (with_opencv L \<longrightarrow> mode \<noteq> NVDSINFER_CLUSTER_GROUP_RECTANGLES)"

definition cluster_and_fill ::
  "detect_libs \<Rightarrow> DetectPostprocessor \<Rightarrow> NvDsInferDetectionOutput option \<Rightarrow>
   (DetectPostprocessor \<times> NvDsInferDetectionOutput option) option" where
  "cluster_and_fill L p out =
     (case m_ClusterMode p of
        NVDSINFER_CLUSTER_NMS \<Rightarrow> map_option (\<lambda>o'. (p, Some o')) (clusterAndFillDetectionOutputNMS p)
      | NVDSINFER_CLUSTER_DBSCAN \<Rightarrow> map_option (apsnd Some) (clusterAndFillDetectionOutputDBSCAN L p)
      | NVDSINFER_CLUSTER_GROUP_RECTANGLES \<Rightarrow>
          if with_opencv L then map_option (apsnd Some) (clusterAndFillDetectionOutputCV L p)
          else Some (p, out)
      | NVDSINFER_CLUSTER_DBSCAN_NMS_HYBRID \<Rightarrow> map_option (apsnd Some) (clusterAndFillDetectionOutputHybrid L p)
      | NVDSINFER_CLUSTER_NONE \<Rightarrow> map_option (apsnd Some) (fillUnclusteredOutput p))"

text \<open>The output is an option: \<open>None\<close> is the uninitialised memory the caller passes.\<close>

definition fillDetectionOutput ::
  "detect_libs \<Rightarrow> DetectPostprocessor \<Rightarrow> NvDsInferLayerInfo list \<Rightarrow> NvDsInferDetectionOutput option \<Rightarrow>
   (DetectPostprocessor \<times> NvDsInferStatus \<times> NvDsInferDetectionOutput option) option" where
  "fillDetectionOutput L p0 layers out =
     (let p1 = clears_lists p0
      in case parse_objects L p1 layers of
           None \<Rightarrow> None
         | Some (Inl e) \<Rightarrow> Some (p1, e, out)
         | Some (Inr objs) \<Rightarrow>
             (case preClusteringThreshold (m_DetectionParams p1) objs of
                None \<Rightarrow> None
              | Some kept \<Rightarrow>
                  (case (if splits_classes L (m_ClusterMode p1) then distribute kept (m_PerClassObjectList p1)
                         else Some (m_PerClassObjectList p1)) of
                     None \<Rightarrow> None
                   | Some ls \<Rightarrow>
                       map_option (\<lambda>(p', out'). (p', NVDSINFER_SUCCESS, out'))
                         (cluster_and_fill L (p1\<lparr>m_ObjectList := kept, m_PerClassObjectList := ls\<rparr>) out))))"

section \<open>Initialisation\<close>

text \<open>The members of \<open>NvDsInferContextInitParams\<close> the post-processors read; a null array is \<open>None\<close>.\<close>

record NvDsInferContextInitParams =
  labelsFilePath :: string
  numDetectedClasses :: u32
  perClassDetectionParams :: "NvDsInferDetectionParams list option"
  init_classifierThreshold :: dbl
  init_segmentationThreshold :: dbl
  customBBoxParseFuncName :: string
  customClassifierParseFuncName :: string
  init_clusterMode :: NvDsInferClusterMode
  customBBoxInstanceMaskParseFuncName :: string
  init_segmentationOutputOrder :: NvDsInferTensorOrder

text \<open>
  The file system, the custom library and the DBSCAN library: the content of a file that opens, the
  symbols of the library that was loaded (if any), whether a handle can be created.
\<close>

record infer_env =
  read_file :: "string \<Rightarrow> string option"
  custom_lib :: "(string \<Rightarrow> bool) option"
  dbscan_create :: bool

text \<open>A line of the labels file is split at semicolons.\<close>

function split_words :: "string \<Rightarrow> string list" where
  "split_words s =
     (case dropWhile (\<lambda>c. c \<noteq> CHR '';'') s of
        [] \<Rightarrow> [takeWhile (\<lambda>c. c \<noteq> CHR '';'') s]
      | d # rest \<Rightarrow> takeWhile (\<lambda>c. c \<noteq> CHR '';'') s # split_words rest)"
  by pat_completeness auto

lemma dropWhile_shorter: "dropWhile P xs = y # ys \<Longrightarrow> length ys < length xs"
  by (metis length_Cons length_dropWhile_le less_eq_Suc_le)

termination split_words
  by (relation "measure length") (auto dest: dropWhile_shorter)

declare split_words.simps [simp del]

text \<open>
  \<open>std::getline\<close> until the end of the file: the last line need not end with a newline, empty lines are
  skipped. Reading does not fail once the file is open.
\<close>

function file_lines :: "string \<Rightarrow> string list" where
  "file_lines s =
     (let line = takeWhile (\<lambda>c. c \<noteq> CHR ''\<newline>'') s
      in (if line = [] then [] else [line]) @
         (case dropWhile (\<lambda>c. c \<noteq> CHR ''\<newline>'') s of [] \<Rightarrow> [] | d # rest \<Rightarrow> file_lines rest))"
  by pat_completeness auto

termination file_lines
  by (relation "measure length") (auto dest: dropWhile_shorter)

declare file_lines.simps [simp del]

definition parseLabelsFile :: "infer_env \<Rightarrow> string \<Rightarrow> string list list \<Rightarrow> NvDsInferStatus \<times> string list list" where
  "parseLabelsFile env path labels =
     (case read_file env path of
        None \<Rightarrow> (NVDSINFER_CONFIG_FAILED, labels)
      | Some s \<Rightarrow> (NVDSINFER_SUCCESS, labels @ map split_words (file_lines s)))"

text \<open>The part of \<open>InferPostprocessor::initResource\<close> without the dump and overwrite files.\<close>

definition base_initResource ::
  "infer_env \<Rightarrow> NvDsInferContextInitParams \<Rightarrow> string list list \<Rightarrow> NvDsInferStatus \<times> string list list" where
  "base_initResource env ip labels =
     (if labelsFilePath ip = [] then (NVDSINFER_SUCCESS, labels)
      else parseLabelsFile env (labelsFilePath ip) labels)"

text \<open>
  The custom function is looked up when there is a library and a name: \<open>None\<close> when the lookup fails,
  otherwise whether the function is set.
\<close>

definition lookup_custom :: "infer_env \<Rightarrow> string \<Rightarrow> bool \<Rightarrow> bool option" where
  "lookup_custom env name old =
     (case custom_lib env of
        None \<Rightarrow> Some old
      | Some has_sym \<Rightarrow> if name = [] then Some old else if has_sym name then Some True else None)"

definition class_thresholds :: "u32 \<Rightarrow> NvDsInferDetectionParams list \<Rightarrow> NvDsInferParseDetectionParams" where
  "class_thresholds n ps =
     \<lparr>numClassesConfigured = n, perClassPreclusterThreshold = map preClusterThreshold ps,
      perClassPostclusterThreshold = map postClusterThreshold ps\<rparr>"

text \<open>An array with fewer elements than classes would be read past its end (\<open>None\<close>).\<close>

definition class_params :: "u32 \<Rightarrow> NvDsInferDetectionParams list option \<Rightarrow> NvDsInferDetectionParams list option" where
  "class_params n arr =
     (let ps = (case arr of None \<Rightarrow> [] | Some a \<Rightarrow> a)
      in if length ps < unat n then None else Some (take (unat n) ps))"

definition init_rects :: "detect_libs \<Rightarrow> DetectPostprocessor \<Rightarrow> DetectPostprocessor" where
  "init_rects L p =
     (if with_opencv L \<and> m_ClusterMode p = NVDSINFER_CLUSTER_GROUP_RECTANGLES
      then p\<lparr>m_PerClassCvRectList := vec_resize [] (unat (m_NumDetectedClasses p)) (m_PerClassCvRectList p)\<rparr> else p)"

definition init_dbscan :: "infer_env \<Rightarrow> DetectPostprocessor \<Rightarrow> DetectPostprocessor \<times> NvDsInferStatus" where
  "init_dbscan env p =
     (if m_ClusterMode p = NVDSINFER_CLUSTER_DBSCAN \<or> m_ClusterMode p = NVDSINFER_CLUSTER_DBSCAN_NMS_HYBRID then
        (p\<lparr>m_DBScanHandle := dbscan_create env\<rparr>,
         if dbscan_create env then NVDSINFER_SUCCESS else NVDSINFER_RESOURCE_ERROR)
      else (p, NVDSINFER_SUCCESS))"

definition Detect_initResource ::
  "detect_libs \<Rightarrow> infer_env \<Rightarrow> NvDsInferContextInitParams \<Rightarrow> DetectPostprocessor \<Rightarrow>
   (DetectPostprocessor \<times> NvDsInferStatus) option" where
  "Detect_initResource L env ip p0 =
     (let (st, labels) = base_initResource env ip (m_Labels p0); n = numDetectedClasses ip;
          p1 = p0\<lparr>m_Labels := labels\<rparr>
      in if st \<noteq> NVDSINFER_SUCCESS then Some (p1, st)
         else
           let p2 = p1\<lparr>m_ClusterMode := init_clusterMode ip, m_NumDetectedClasses := n\<rparr>
           in if 0 < n \<and> perClassDetectionParams ip = None then Some (p2, NVDSINFER_CONFIG_FAILED)
              else
                (case class_params n (perClassDetectionParams ip) of
                   None \<Rightarrow> None
                 | Some ps \<Rightarrow>
                     let p3 = init_rects L (p2\<lparr>m_PerClassDetectionParams := ps, m_DetectionParams := class_thresholds n ps,
                                 m_PerClassObjectList := vec_resize [] (unat n) (m_PerClassObjectList p2)\<rparr>)
                     in (case lookup_custom env (customBBoxParseFuncName ip) (m_CustomBBoxParseFunc p3) of
                           None \<Rightarrow> Some (p3\<lparr>m_CustomBBoxParseFunc := False\<rparr>, NVDSINFER_CUSTOM_LIB_FAILED)
                         | Some b \<Rightarrow> Some (init_dbscan env (p3\<lparr>m_CustomBBoxParseFunc := b\<rparr>)))))"

end
