(* ===== verification/InferPost.thy ===== *)
theory InferPost
  imports DetectFill
begin

text \<open>
  The other post-processors of the inference library (instance segmentation, classification, semantic
  segmentation), the output of a frame and of a batch, and their release:
  \<open>nvdsinfer_context_impl_output_parsing.cpp\<close> and \<open>nvdsinfer_context_impl.cpp\<close>.

  A frame's output is a union. \<open>Uninitialised\<close> is the memory as \<open>new\<close> leaves it; using it as an
  output is undefined behaviour (\<open>None\<close>).
\<close>

section \<open>Data\<close>

record NvDsInferAttribute =
  attributeIndex :: u32
  attributeValue :: u32
  attributeConfidence :: dbl
  attributeLabel :: "string option"

record NvDsInferClassificationOutput =
  class_attributes :: "NvDsInferAttribute list"
  numAttributes :: u32
  attr_string :: string

text \<open>A cell of a new class map has no value until it is written; the probability map is the layer's buffer.\<close>

record NvDsInferSegmentationOutput =
  seg_width :: u32
  seg_height :: u32
  seg_classes :: u32
  class_map :: "int option list"
  class_probability_map :: "dbl list"

datatype NvDsInferNetworkType =
  NvDsInferNetworkType_Detector | NvDsInferNetworkType_Classifier | NvDsInferNetworkType_Segmentation
| NvDsInferNetworkType_InstanceSegmentation | NvDsInferNetworkType_Other

datatype frame_union =
  Uninitialised
| DetectionOutput NvDsInferDetectionOutput
| ClassificationOutput NvDsInferClassificationOutput
| SegmentationOutput NvDsInferSegmentationOutput

record NvDsInferFrameOutput =
  outputType :: NvDsInferNetworkType
  frame_output :: frame_union

section \<open>Classification\<close>

record ClassifyPostprocessor =
  m_ClassifierThreshold :: dbl
  classify_Labels :: "string list list"
  m_OutputLayerInfo :: "NvDsInferLayerInfo list"
  classify_NetworkInfo :: NvDsInferNetworkInfo
  m_CustomClassifierParseFunc :: bool

text \<open>
  The scan over the classes: the best class so far and its probability; a probability that cannot be
  read is \<open>None\<close>.
\<close>

fun scan_best :: "dbl \<Rightarrow> (nat \<Rightarrow> dbl option) \<Rightarrow> nat list \<Rightarrow> dbl \<Rightarrow> nat option \<Rightarrow> (nat option \<times> dbl) option" where
  "scan_best thr prob [] m best = Some (best, m)"
| "scan_best thr prob (c # cs) m best =
     (case prob c of
        None \<Rightarrow> None
      | Some p \<Rightarrow> if thr < p \<and> m < p then scan_best thr prob cs p (Some c) else scan_best thr prob cs m best)"

definition attribute_label :: "string list list \<Rightarrow> u32 \<Rightarrow> u32 \<Rightarrow> string option" where
  "attribute_label labels i v =
     (if unat i < length labels \<and> unat v < length (labels ! unat i) then Some (labels ! unat i ! unat v) else None)"

definition parse_layer :: "ClassifyPostprocessor \<Rightarrow> nat \<Rightarrow> NvDsInferLayerInfo \<Rightarrow> NvDsInferAttribute option option" where
  "parse_layer p l layer =
     map_option (\<lambda>(best, m). map_option
         (\<lambda>c. \<lparr>attributeIndex = of_nat l, attributeValue = of_nat c, attributeConfidence = m,
               attributeLabel = attribute_label (classify_Labels p) (of_nat l) (of_nat c)\<rparr>) best)
       (scan_best (m_ClassifierThreshold p) (\<lambda>c. read_float (layer_buffer layer) (int c))
          [0..<unat (dims_c (getDimsCHWFromDims (inferDims layer)))] 0 None)"

definition attr_text :: "NvDsInferAttribute list \<Rightarrow> string" where
  "attr_text as = concat (map (\<lambda>a. case attributeLabel a of None \<Rightarrow> [] | Some s \<Rightarrow> s @ '' '') as)"

text \<open>The layers are the member's, not the argument's.\<close>

definition parseAttributesFromSoftmaxLayers ::
  "ClassifyPostprocessor \<Rightarrow> (NvDsInferAttribute list \<times> string) option" where
  "parseAttributesFromSoftmaxLayers p =
     map_option (\<lambda>as. (as, attr_text as))
       (collect (\<lambda>l. parse_layer p l (m_OutputLayerInfo p ! l)) [0..<length (m_OutputLayerInfo p)])"

type_synonym custom_classify =
  "NvDsInferLayerInfo list \<Rightarrow> NvDsInferNetworkInfo \<Rightarrow> dbl \<Rightarrow> (NvDsInferAttribute list \<times> string) option"

text \<open>The result is the status and the output, unchanged when the custom parser fails.\<close>

definition fillClassificationOutput ::
  "custom_classify \<Rightarrow> ClassifyPostprocessor \<Rightarrow> NvDsInferLayerInfo list \<Rightarrow> NvDsInferClassificationOutput option \<Rightarrow>
   (NvDsInferStatus \<times> NvDsInferClassificationOutput option) option" where
  "fillClassificationOutput custom p layers out =
     (let filled = \<lambda>(as, s). (NVDSINFER_SUCCESS,
            Some \<lparr>class_attributes = as, numAttributes = of_nat (length as), attr_string = s\<rparr>)
      in if m_CustomClassifierParseFunc p then
           (case custom layers (classify_NetworkInfo p) (m_ClassifierThreshold p) of
              None \<Rightarrow> Some (NVDSINFER_CUSTOM_LIB_FAILED, out)
            | Some r \<Rightarrow> Some (filled r))
         else map_option filled (parseAttributesFromSoftmaxLayers p))"

section \<open>Semantic segmentation\<close>

record SegmentPostprocessor =
  m_SegmentationThreshold :: dbl
  m_SegmentationOutputOrder :: NvDsInferTensorOrder
  segment_Labels :: "string list list"

definition getDimsHWCFromDims :: "u32 list \<Rightarrow> NvDsInferDimsCHW" where
  "getDimsHWCFromDims d = \<lparr>dims_c = d ! 2, dims_h = d ! 0, dims_w = d ! 1\<rparr>"

text \<open>The position of a probability in the layer, in 32 bits as in the code.\<close>

definition indAlongChannel :: "NvDsInferTensorOrder \<Rightarrow> NvDsInferDimsCHW \<Rightarrow> u32 \<Rightarrow> u32 \<Rightarrow> u32 \<Rightarrow> u32" where
  "indAlongChannel order d x y c =
     (case order of
        NvDsInferTensorOrder_kNHWC \<Rightarrow> dims_c d * (y * dims_w d + x) + c
      | _ \<Rightarrow> c * dims_w d * dims_h d + y * dims_w d + x)"

definition seg_dims :: "NvDsInferTensorOrder \<Rightarrow> u32 list \<Rightarrow> NvDsInferDimsCHW" where
  "seg_dims order d =
     (case order of
        NvDsInferTensorOrder_kNCHW \<Rightarrow> getDimsCHWFromDims d
      | NvDsInferTensorOrder_kNHWC \<Rightarrow> getDimsHWCFromDims d
      | NvDsInferTensorOrder_kNC \<Rightarrow> \<lparr>dims_c = 0, dims_h = 0, dims_w = 0\<rparr>)"

definition segment_pixel ::
  "SegmentPostprocessor \<Rightarrow> NvDsInferDimsCHW \<Rightarrow> dbl list \<Rightarrow> u32 \<Rightarrow> u32 \<Rightarrow> int option" where
  "segment_pixel p d buf x y =
     map_option (\<lambda>(best, m). case best of None \<Rightarrow> -1 | Some c \<Rightarrow> sint (of_nat c :: u32))
       (scan_best (m_SegmentationThreshold p)
          (\<lambda>c. read_float buf (uint (indAlongChannel (m_SegmentationOutputOrder p) d x y (of_nat c))))
          [0..<unat (dims_c d)] (Fin (- 1)) None)"

text \<open>The pixels in the order of the two loops; a write behind the map is \<open>None\<close>.\<close>

fun segment_loop ::
  "(u32 \<Rightarrow> u32 \<Rightarrow> int option) \<Rightarrow> u32 \<Rightarrow> (u32 \<times> u32) list \<Rightarrow> int option list \<Rightarrow> int option list option" where
  "segment_loop pixel w [] cmap = Some cmap"
| "segment_loop pixel w ((y, x) # ps) cmap =
     (let i = unat (y * w + x)
      in case pixel x y of
           None \<Rightarrow> None
         | Some cls \<Rightarrow> if i < length cmap then segment_loop pixel w ps (cmap[i := Some cls]) else None)"

definition pixels :: "u32 \<Rightarrow> u32 \<Rightarrow> (u32 \<times> u32) list" where
  "pixels h w = concat (map (\<lambda>y. map (\<lambda>x. (of_nat y, of_nat x)) [0..<unat w]) [0..<unat h])"

definition fillSegmentationOutput ::
  "SegmentPostprocessor \<Rightarrow> NvDsInferLayerInfo list \<Rightarrow> (NvDsInferStatus \<times> NvDsInferSegmentationOutput) option" where
  "fillSegmentationOutput p layers =
     (case layers of
        [] \<Rightarrow> None
      | layer # _ \<Rightarrow>
          let d = seg_dims (m_SegmentationOutputOrder p) (inferDims layer); w = dims_w d; h = dims_h d
          in map_option
               (\<lambda>cmap. (NVDSINFER_SUCCESS, \<lparr>seg_width = w, seg_height = h, seg_classes = dims_c d, class_map = cmap,
                   class_probability_map = layer_buffer layer\<rparr>))
               (segment_loop (segment_pixel p d (layer_buffer layer)) w (pixels h w) (replicate (unat (w * h)) None)))"

section \<open>Instance segmentation\<close>

record InstanceSegmentPostprocessor =
  inst_ClusterMode :: NvDsInferClusterMode
  inst_NumDetectedClasses :: u32
  inst_PerClassDetectionParams :: "NvDsInferDetectionParams list"
  inst_DetectionParams :: NvDsInferParseDetectionParams
  m_InstanceMaskList :: "NvDsInferInstanceMaskInfo list"
  m_PerClassInstanceMaskList :: "NvDsInferInstanceMaskInfo list list"
  inst_Labels :: "string list list"
  inst_NetworkInfo :: NvDsInferNetworkInfo
  m_CustomParseFunc :: bool

definition mask_object :: "string list list \<Rightarrow> NvDsInferInstanceMaskInfo \<Rightarrow> NvDsInferObject" where
  "mask_object labels ob =
     (make_object (sint (classId ob)) (class_label labels (unat (classId ob))) ob)
       \<lparr>obj_mask := map_option (\<lambda>m. (m, mask_width ob, mask_height ob, mask_size ob)) (mask ob)\<rparr>"

definition Instance_preClusteringThreshold ::
  "NvDsInferParseDetectionParams \<Rightarrow> NvDsInferInstanceMaskInfo list \<Rightarrow> NvDsInferInstanceMaskInfo list option" where
  "Instance_preClusteringThreshold params objs =
     collect (\<lambda>ob. map_option (\<lambda>keep. if keep then Some ob else None) (pre_keep params ob)) objs"

definition Instance_filterTopKOutputs :: "int \<Rightarrow> NvDsInferInstanceMaskInfo list \<Rightarrow> NvDsInferInstanceMaskInfo list option" where
  "Instance_filterTopKOutputs k objs =
     (if k < 0 then Some objs
      else map_option (take (nat k)) (stable_sort_desc detectionConfidence objs))"

definition Instance_fillUnclusteredOutput ::
  "InstanceSegmentPostprocessor \<Rightarrow> (InstanceSegmentPostprocessor \<times> NvDsInferDetectionOutput) option" where
  "Instance_fillUnclusteredOutput p =
     (case distribute (m_InstanceMaskList p) (m_PerClassInstanceMaskList p) of
        None \<Rightarrow> None
      | Some ls \<Rightarrow>
          (case for_classes (inst_NumDetectedClasses p) (inst_PerClassDetectionParams p)
                  (\<lambda>q. Instance_filterTopKOutputs (topK q)) ls of
             None \<Rightarrow> None
           | Some per \<Rightarrow>
               if concat (drop (unat (inst_NumDetectedClasses p)) ls) \<noteq> [] then None
               else Some (p\<lparr>m_PerClassInstanceMaskList := per @ drop (unat (inst_NumDetectedClasses p)) ls\<rparr>,
                      make_output (map (mask_object (inst_Labels p)) (concat per)))))"

type_synonym custom_masks =
  "NvDsInferLayerInfo list \<Rightarrow> NvDsInferNetworkInfo \<Rightarrow> NvDsInferParseDetectionParams \<Rightarrow>
    NvDsInferInstanceMaskInfo list option"

definition Instance_fillDetectionOutput ::
  "custom_masks \<Rightarrow> InstanceSegmentPostprocessor \<Rightarrow> NvDsInferLayerInfo list \<Rightarrow> NvDsInferDetectionOutput option \<Rightarrow>
   (InstanceSegmentPostprocessor \<times> NvDsInferStatus \<times> NvDsInferDetectionOutput option) option" where
  "Instance_fillDetectionOutput custom p0 layers out =
     (let p1 = p0\<lparr>m_InstanceMaskList := [],
                 m_PerClassInstanceMaskList := map (\<lambda>_. []) (m_PerClassInstanceMaskList p0)\<rparr>
      in if \<not> m_CustomParseFunc p1 then Some (p1, NVDSINFER_OUTPUT_PARSING_FAILED, out)
         else
           (case custom layers (inst_NetworkInfo p1) (inst_DetectionParams p1) of
              None \<Rightarrow> Some (p1, NVDSINFER_CUSTOM_LIB_FAILED, out)
            | Some objs \<Rightarrow>
                (case Instance_preClusteringThreshold (inst_DetectionParams p1) objs of
                   None \<Rightarrow> None
                 | Some kept \<Rightarrow>
                     let p2 = p1\<lparr>m_InstanceMaskList := kept\<rparr>
                     in if inst_ClusterMode p2 = NVDSINFER_CLUSTER_NONE then
                          map_option (\<lambda>(p', out'). (p', NVDSINFER_SUCCESS, Some out')) (Instance_fillUnclusteredOutput p2)
                        else Some (p2, NVDSINFER_OUTPUT_PARSING_FAILED, out))))"

section \<open>Initialisation\<close>

definition Instance_initResource ::
  "infer_env \<Rightarrow> NvDsInferContextInitParams \<Rightarrow> InstanceSegmentPostprocessor \<Rightarrow>
   (InstanceSegmentPostprocessor \<times> NvDsInferStatus) option" where
  "Instance_initResource env ip p0 =
     (let (st, labels) = base_initResource env ip (inst_Labels p0); n = numDetectedClasses ip;
          p1 = p0\<lparr>inst_Labels := labels\<rparr>
      in if st \<noteq> NVDSINFER_SUCCESS then Some (p1, st)
         else
           let p2 = p1\<lparr>inst_ClusterMode := init_clusterMode ip\<rparr>
           in if init_clusterMode ip \<noteq> NVDSINFER_CLUSTER_NONE then Some (p2, NVDSINFER_CONFIG_FAILED)
              else
                let p3 = p2\<lparr>inst_NumDetectedClasses := n\<rparr>
                in if 0 < n \<and> perClassDetectionParams ip = None then Some (p3, NVDSINFER_CONFIG_FAILED)
                   else
                     (case class_params n (perClassDetectionParams ip) of
                        None \<Rightarrow> None
                      | Some ps \<Rightarrow>
                          let p4 = p3\<lparr>inst_PerClassDetectionParams := ps, inst_DetectionParams := class_thresholds n ps,
                                m_PerClassInstanceMaskList := vec_resize [] (unat n) (m_PerClassInstanceMaskList p3)\<rparr>
                          in (case custom_lib env of
                                None \<Rightarrow> Some (p4, NVDSINFER_RESOURCE_ERROR)
                              | Some has_sym \<Rightarrow>
                                  if customBBoxInstanceMaskParseFuncName ip = [] then Some (p4, NVDSINFER_RESOURCE_ERROR)
                                  else if has_sym (customBBoxInstanceMaskParseFuncName ip)
                                    then Some (p4\<lparr>m_CustomParseFunc := True\<rparr>, NVDSINFER_SUCCESS)
                                  else Some (p4\<lparr>m_CustomParseFunc := False\<rparr>, NVDSINFER_CUSTOM_LIB_FAILED))))"

definition Classify_initResource ::
  "infer_env \<Rightarrow> NvDsInferContextInitParams \<Rightarrow> ClassifyPostprocessor \<Rightarrow> ClassifyPostprocessor \<times> NvDsInferStatus" where
  "Classify_initResource env ip p0 =
     (let (st, labels) = base_initResource env ip (classify_Labels p0); p1 = p0\<lparr>classify_Labels := labels\<rparr>
      in if st \<noteq> NVDSINFER_SUCCESS then (p1, st)
         else
           let p2 = p1\<lparr>m_ClassifierThreshold := init_classifierThreshold ip\<rparr>
           in (case lookup_custom env (customClassifierParseFuncName ip) (m_CustomClassifierParseFunc p2) of
                 None \<Rightarrow> (p2\<lparr>m_CustomClassifierParseFunc := False\<rparr>, NVDSINFER_CUSTOM_LIB_FAILED)
               | Some b \<Rightarrow> (p2\<lparr>m_CustomClassifierParseFunc := b\<rparr>, NVDSINFER_SUCCESS)))"

definition Segment_initResource ::
  "infer_env \<Rightarrow> NvDsInferContextInitParams \<Rightarrow> SegmentPostprocessor \<Rightarrow> SegmentPostprocessor \<times> NvDsInferStatus" where
  "Segment_initResource env ip p0 =
     (let (st, labels) = base_initResource env ip (segment_Labels p0); p1 = p0\<lparr>segment_Labels := labels\<rparr>
      in if st \<noteq> NVDSINFER_SUCCESS then (p1, st)
         else (p1\<lparr>m_SegmentationThreshold := init_segmentationThreshold ip,
                 m_SegmentationOutputOrder := init_segmentationOutputOrder ip\<rparr>, NVDSINFER_SUCCESS))"

section \<open>Frames and batches\<close>

text \<open>The status of the parser is not looked at.\<close>

definition store_frame :: "NvDsInferNetworkType \<Rightarrow> ('o \<Rightarrow> frame_union) \<Rightarrow> frame_union \<Rightarrow> 'o option \<Rightarrow> NvDsInferFrameOutput" where
  "store_frame t con old out = \<lparr>outputType = t, frame_output = (case out of None \<Rightarrow> old | Some out' \<Rightarrow> con out')\<rparr>"

definition Detect_parseEachBatch ::
  "detect_libs \<Rightarrow> DetectPostprocessor \<Rightarrow> NvDsInferLayerInfo list \<Rightarrow> NvDsInferFrameOutput \<Rightarrow>
   (DetectPostprocessor \<times> NvDsInferStatus \<times> NvDsInferFrameOutput) option" where
  "Detect_parseEachBatch L p layers fr =
     map_option (\<lambda>(p', st, out). (p', NVDSINFER_SUCCESS,
         store_frame NvDsInferNetworkType_Detector DetectionOutput (frame_output fr) out))
       (fillDetectionOutput L p layers None)"

definition Instance_parseEachBatch ::
  "custom_masks \<Rightarrow> InstanceSegmentPostprocessor \<Rightarrow> NvDsInferLayerInfo list \<Rightarrow> NvDsInferFrameOutput \<Rightarrow>
   (InstanceSegmentPostprocessor \<times> NvDsInferStatus \<times> NvDsInferFrameOutput) option" where
  "Instance_parseEachBatch custom p layers fr =
     map_option (\<lambda>(p', st, out). (p', NVDSINFER_SUCCESS,
         store_frame NvDsInferNetworkType_InstanceSegmentation DetectionOutput (frame_output fr) out))
       (Instance_fillDetectionOutput custom p layers None)"

definition Classify_parseEachBatch ::
  "custom_classify \<Rightarrow> ClassifyPostprocessor \<Rightarrow> NvDsInferLayerInfo list \<Rightarrow> NvDsInferFrameOutput \<Rightarrow>
   (ClassifyPostprocessor \<times> NvDsInferStatus \<times> NvDsInferFrameOutput) option" where
  "Classify_parseEachBatch custom p layers fr =
     map_option (\<lambda>(st, out). (p, NVDSINFER_SUCCESS,
         store_frame NvDsInferNetworkType_Classifier ClassificationOutput (frame_output fr) out))
       (fillClassificationOutput custom p layers None)"

definition Segment_parseEachBatch ::
  "SegmentPostprocessor \<Rightarrow> NvDsInferLayerInfo list \<Rightarrow> NvDsInferFrameOutput \<Rightarrow>
   (SegmentPostprocessor \<times> NvDsInferStatus \<times> NvDsInferFrameOutput) option" where
  "Segment_parseEachBatch p layers fr =
     map_option (\<lambda>(st, out). (p, NVDSINFER_SUCCESS,
         store_frame NvDsInferNetworkType_Segmentation SegmentationOutput (frame_output fr) (Some out)))
       (fillSegmentationOutput p layers)"

definition Other_parseEachBatch ::
  "'p \<Rightarrow> NvDsInferLayerInfo list \<Rightarrow> NvDsInferFrameOutput \<Rightarrow> ('p \<times> NvDsInferStatus \<times> NvDsInferFrameOutput) option" where
  "Other_parseEachBatch p layers fr = Some (p, NVDSINFER_SUCCESS, fr)"

text \<open>
  The loop of \<open>postProcessHost\<close> over the frames of a batch. \<open>layers_of\<close> gives the output layers with the
  buffers of a frame; an error of the parser ends the batch.
\<close>

fun post_frames ::
  "('p \<Rightarrow> NvDsInferLayerInfo list \<Rightarrow> NvDsInferFrameOutput \<Rightarrow> ('p \<times> NvDsInferStatus \<times> NvDsInferFrameOutput) option) \<Rightarrow>
   (nat \<Rightarrow> NvDsInferLayerInfo list) \<Rightarrow> nat list \<Rightarrow> 'p \<Rightarrow> ('p \<times> NvDsInferStatus \<times> NvDsInferFrameOutput list) option"
where
  "post_frames parse layers_of [] p = Some (p, NVDSINFER_SUCCESS, [])"
| "post_frames parse layers_of (i # is) p =
     (case parse p (layers_of i) \<lparr>outputType = NvDsInferNetworkType_Other, frame_output = Uninitialised\<rparr> of
        None \<Rightarrow> None
      | Some (p', st, fr) \<Rightarrow>
          if st \<noteq> NVDSINFER_SUCCESS then Some (p', st, [fr])
          else map_option (\<lambda>(p'', st', frs). (p'', st', fr # frs)) (post_frames parse layers_of is p'))"

text \<open>What is given back to the heap for a frame, in order; a null label or mask is not.\<close>

datatype heap_block =
  ObjectLabel nat | ObjectMask nat | ObjectArray | AttributeLabel nat | ClassLabel | AttributeArray | ClassMap

definition label_blocks :: "NvDsInferObject list \<Rightarrow> nat \<Rightarrow> heap_block list" where
  "label_blocks os j = (if obj_label (os ! j) \<noteq> None then [ObjectLabel j] else [])"

definition mask_blocks :: "NvDsInferObject list \<Rightarrow> nat \<Rightarrow> heap_block list" where
  "mask_blocks os j = (if obj_mask (os ! j) \<noteq> None then [ObjectMask j] else [])"

definition releaseFrameOutput :: "NvDsInferFrameOutput \<Rightarrow> heap_block list option" where
  "releaseFrameOutput fr =
     (case (outputType fr, frame_output fr) of
        (NvDsInferNetworkType_Detector, DetectionOutput out) \<Rightarrow>
          if unat (numObjects out) \<le> length (out_objects out) then
            Some (concat (map (label_blocks (out_objects out)) [0..<unat (numObjects out)]) @ [ObjectArray])
          else None
      | (NvDsInferNetworkType_InstanceSegmentation, DetectionOutput out) \<Rightarrow>
          if unat (numObjects out) \<le> length (out_objects out) then
            Some (concat (map (\<lambda>j. label_blocks (out_objects out) j @ mask_blocks (out_objects out) j)
                    [0..<unat (numObjects out)]) @ [ObjectArray])
          else None
      | (NvDsInferNetworkType_Classifier, ClassificationOutput out) \<Rightarrow>
          if unat (numAttributes out) \<le> length (class_attributes out) then
            Some (map AttributeLabel (filter (\<lambda>j. attributeLabel (class_attributes out ! j) \<noteq> None)
                    [0..<unat (numAttributes out)]) @ [ClassLabel, AttributeArray])
          else None
      | (NvDsInferNetworkType_Segmentation, SegmentationOutput out) \<Rightarrow> Some [ClassMap]
      | (NvDsInferNetworkType_Other, _) \<Rightarrow> Some []
      | _ \<Rightarrow> None)"

definition freeBatchOutput :: "NvDsInferFrameOutput list \<Rightarrow> heap_block list list option" where
  "freeBatchOutput frs = those (map releaseFrameOutput frs)"

end
