(* ===== verification/FrameParser.thy ===== *)
theory FrameParser
  imports InferPost
begin

text \<open>
  The virtual method \<open>parseEachBatch\<close> as an interface: what \<open>InferPostprocessor::postProcessHost\<close> and
  \<open>freeBatchOutput\<close> rely on, and what follows for a batch. The classes of \<open>nvdsinfer_context_impl.h\<close>
  are the providers.
\<close>

definition new_frame :: NvDsInferFrameOutput where
  "new_frame = \<lparr>outputType = NvDsInferNetworkType_Other, frame_output = Uninitialised\<rparr>"

text \<open>Every provider reports success and sets the type of the frame.\<close>

locale frame_parser =
  fixes parse :: "'p \<Rightarrow> NvDsInferLayerInfo list \<Rightarrow> NvDsInferFrameOutput \<Rightarrow>
      ('p \<times> NvDsInferStatus \<times> NvDsInferFrameOutput) option"
    and tag :: NvDsInferNetworkType
  assumes parse_success: "parse p layers new_frame = Some (p', st, fr) \<Longrightarrow> st = NVDSINFER_SUCCESS \<and> outputType fr = tag"
begin

lemma post_frames_typed:
  "post_frames parse layers_of is p = Some (p', st, frs) \<Longrightarrow>
     st = NVDSINFER_SUCCESS \<and> length frs = length is \<and> (\<forall>fr\<in>set frs. outputType fr = tag)"
proof (induction "is" arbitrary: p frs)
  case (Cons i "is")
  from Cons.prems obtain q st' fr where q: "parse p (layers_of i) new_frame = Some (q, st', fr)"
    by (auto simp flip: new_frame_def split: option.splits)
  then have fr: "st' = NVDSINFER_SUCCESS" "outputType fr = tag" using parse_success by blast+
  with Cons.prems q obtain frs' where "post_frames parse layers_of is q = Some (p', st, frs')" "frs = fr # frs'"
    by (auto simp flip: new_frame_def)
  then show ?case using Cons.IH fr(2) by auto
qed simp

end

text \<open>
  A provider that is ready for the layers of a frame writes an output that can be released, and stays
  ready for the layers of the other frames.
\<close>

locale ready_parser = frame_parser parse tag
  for parse :: "'p \<Rightarrow> NvDsInferLayerInfo list \<Rightarrow> NvDsInferFrameOutput \<Rightarrow>
      ('p \<times> NvDsInferStatus \<times> NvDsInferFrameOutput) option"
    and tag :: NvDsInferNetworkType +
  fixes ready :: "'p \<Rightarrow> NvDsInferLayerInfo list \<Rightarrow> bool"
  assumes parse_ready: "ready p layers \<Longrightarrow> \<exists>p' st fr. parse p layers new_frame = Some (p', st, fr) \<and>
      releaseFrameOutput fr \<noteq> None \<and> (\<forall>ls. ready p ls \<longrightarrow> ready p' ls)"
begin

lemma post_frames_released:
  assumes "\<forall>i\<in>set is. ready p (layers_of i)"
  shows "\<exists>p' frs. post_frames parse layers_of is p = Some (p', NVDSINFER_SUCCESS, frs) \<and> freeBatchOutput frs \<noteq> None"
  using assms
proof (induction "is" arbitrary: p)
  case Nil
  then show ?case by (simp add: freeBatchOutput_def)
next
  case (Cons i "is")
  then obtain q st fr where q: "parse p (layers_of i) new_frame = Some (q, st, fr)" "releaseFrameOutput fr \<noteq> None"
    "\<forall>ls. ready p ls \<longrightarrow> ready q ls" using parse_ready[of p "layers_of i"] by auto
  have st: "st = NVDSINFER_SUCCESS" using parse_success[OF q(1)] by simp
  from Cons.IH[of q] Cons.prems q(3) obtain p' frs where
    "post_frames parse layers_of is q = Some (p', NVDSINFER_SUCCESS, frs)" "freeBatchOutput frs \<noteq> None" by auto
  then show ?case using q(1,2) by (auto simp: st freeBatchOutput_def simp flip: new_frame_def)
qed

lemma batch_released:
  assumes "\<forall>i\<in>set is. ready p (layers_of i)"
  shows "\<exists>p' frs. post_frames parse layers_of is p = Some (p', NVDSINFER_SUCCESS, frs) \<and> length frs = length is \<and>
    (\<forall>fr\<in>set frs. outputType fr = tag) \<and> freeBatchOutput frs \<noteq> None"
  using post_frames_released[OF assms] post_frames_typed by metis

end

end
