(* ===== verification/DetectProps.thy ===== *)
theory DetectProps
  imports DetectFill "HOL-Library.Multiset" "HOL-Library.Sublist"
begin

text \<open>
  The filters of the detector's post-processing: the intersection over union of two boxes, greedy
  non-maximum suppression, the best k objects, and the boxes of the built-in parser.
\<close>

section \<open>Intersection over union\<close>

text \<open>A box with finite coordinates, and the overlap of two intervals.\<close>

definition finite_box :: "NvDsInferObjectDetectionInfo \<Rightarrow> bool" where
  "finite_box b \<longleftrightarrow>
     (\<exists>x y w h. det_left b = Fin x \<and> det_top b = Fin y \<and> det_width b = Fin w \<and> det_height b = Fin h \<and>
        0 \<le> w \<and> 0 \<le> h)"

definition overlap :: "rat \<Rightarrow> rat \<Rightarrow> rat \<Rightarrow> rat \<Rightarrow> rat" where
  "overlap a b c d = max 0 (min b d - max a c)"

lemma finite_boxE:
  assumes "finite_box b"
  obtains x y w h where "det_left b = Fin x" "det_top b = Fin y" "det_width b = Fin w"
    "det_height b = Fin h" "0 \<le> w" "0 \<le> h"
  using assms by (auto simp: finite_box_def)

lemma overlap1D_Fin:
  "a \<le> b \<Longrightarrow> c \<le> d \<Longrightarrow> overlap1D (Fin a) (Fin b) (Fin c) (Fin d) = Fin (overlap a b c d)"
  by (auto simp: overlap1D_def overlap_def std_min_def zero_dbl_Fin Let_def min_def max_def)

lemma overlap_nonneg: "0 \<le> overlap a b c d"
  by (simp add: overlap_def)

lemma overlap_le: "a \<le> b \<Longrightarrow> overlap a b c d \<le> b - a"
  by (auto simp: overlap_def min_def max_def)

lemma overlap_commute: "overlap a b c d = overlap c d a b"
  by (simp add: overlap_def min.commute max.commute)

text \<open>The value of the intersection over union for finite boxes.\<close>

definition iou_rat :: "rat \<Rightarrow> rat \<Rightarrow> rat \<Rightarrow> rat" where
  "iou_rat a1 a2 ov = (if a1 + a2 - ov = 0 then 0 else ov / (a1 + a2 - ov))"

lemma computeIoU_Fin:
  assumes "det_left b1 = Fin x1" "det_top b1 = Fin y1" "det_width b1 = Fin w1" "det_height b1 = Fin h1"
    and "det_left b2 = Fin x2" "det_top b2 = Fin y2" "det_width b2 = Fin w2" "det_height b2 = Fin h2"
    and "0 \<le> w1" "0 \<le> h1" "0 \<le> w2" "0 \<le> h2"
  shows "computeIoU b1 b2 =
     Fin (iou_rat (w1 * h1) (w2 * h2)
       (overlap x1 (x1 + w1) x2 (x2 + w2) * overlap y1 (y1 + h1) y2 (y2 + h2)))"
  using assms by (simp add: computeIoU_def overlap1D_Fin iou_rat_def deq_def zero_dbl_Fin)

lemma iou_rat_bounds:
  assumes "0 \<le> ov" "ov \<le> a1" "ov \<le> a2"
  shows "0 \<le> iou_rat a1 a2 ov" "iou_rat a1 a2 ov \<le> 1"
  using assms by (auto simp: iou_rat_def divide_simps)

lemma overlap_area:
  assumes "0 \<le> w" "0 \<le> h"
  shows "overlap x (x + w) c d * overlap y (y + h) e f \<le> w * h"
  using overlap_le[of x "x + w" c d] overlap_le[of y "y + h" e f] assms
  by (intro mult_mono) (auto simp: overlap_nonneg)

lemma computeIoU_bounds:
  assumes "finite_box b1" "finite_box b2"
  shows "0 \<le> computeIoU b1 b2 \<and> computeIoU b1 b2 \<le> 1"
proof -
  from \<open>finite_box b1\<close> obtain x1 y1 w1 h1 where
    b1: "det_left b1 = Fin x1" "det_top b1 = Fin y1" "det_width b1 = Fin w1" "det_height b1 = Fin h1"
      "0 \<le> w1" "0 \<le> h1" by (rule finite_boxE)
  from \<open>finite_box b2\<close> obtain x2 y2 w2 h2 where
    b2: "det_left b2 = Fin x2" "det_top b2 = Fin y2" "det_width b2 = Fin w2" "det_height b2 = Fin h2"
      "0 \<le> w2" "0 \<le> h2" by (rule finite_boxE)
  let ?ov = "overlap x1 (x1 + w1) x2 (x2 + w2) * overlap y1 (y1 + h1) y2 (y2 + h2)"
  have "0 \<le> ?ov" by (simp add: overlap_nonneg)
  moreover have "?ov \<le> w1 * h1" using b1 by (intro overlap_area) auto
  moreover have "?ov \<le> w2 * h2"
    using overlap_area[of w2 h2 x2 x1 "x1 + w1" y2 y1 "y1 + h1"] b2
    by (simp add: overlap_commute[of x1] overlap_commute[of y1])
  ultimately show ?thesis
    using iou_rat_bounds[of ?ov "w1 * h1" "w2 * h2"] computeIoU_Fin[OF b1(1-4) b2(1-4) b1(5,6) b2(5,6)]
    by (simp add: dbl_class_defs)
qed

lemma computeIoU_commute:
  assumes "finite_box b1" "finite_box b2"
  shows "computeIoU b1 b2 = computeIoU b2 b1"
proof -
  from \<open>finite_box b1\<close> obtain x1 y1 w1 h1 where
    b1: "det_left b1 = Fin x1" "det_top b1 = Fin y1" "det_width b1 = Fin w1" "det_height b1 = Fin h1"
      "0 \<le> w1" "0 \<le> h1" by (rule finite_boxE)
  from \<open>finite_box b2\<close> obtain x2 y2 w2 h2 where
    b2: "det_left b2 = Fin x2" "det_top b2 = Fin y2" "det_width b2 = Fin w2" "det_height b2 = Fin h2"
      "0 \<le> w2" "0 \<le> h2" by (rule finite_boxE)
  show ?thesis
    using b1 b2
    by (simp add: computeIoU_Fin iou_rat_def overlap_commute[of x1] overlap_commute[of y1] add.commute)
qed

lemma computeIoU_self:
  assumes "finite_box b" "0 < det_width b" "0 < det_height b"
  shows "computeIoU b b = 1"
  using assms
  by (auto elim!: finite_boxE simp: computeIoU_Fin[of b _ _ _ _ b] iou_rat_def overlap_def zero_dbl_Fin one_dbl_def)

section \<open>Greedy suppression\<close>

definition allows ::
  "dbl \<Rightarrow> NvDsInferObjectDetectionInfo list \<Rightarrow> nat \<Rightarrow> nat list \<Rightarrow> bool" where
  "allows thr bbox i ks \<longleftrightarrow> (\<forall>k\<in>set ks. computeIoU (bbox ! i) (bbox ! k) \<le> thr)"

lemma nms_check_allows:
  "i < length bbox \<Longrightarrow> \<forall>k\<in>set ks. k < length bbox \<Longrightarrow> nms_check thr bbox i ks = Some (allows thr bbox i ks)"
  by (induction ks) (auto simp: allows_def)

lemma nms_loop_append:
  "nms_loop thr bbox (xs @ ys) ks = Option.bind (nms_loop thr bbox xs ks) (nms_loop thr bbox ys)"
  by (induction thr bbox xs ks rule: nms_loop.induct) (auto split: option.splits)

lemma nth_snoc_less: "i < length (xs @ [x]) \<Longrightarrow> (xs @ [x]) ! i = (if i < length xs then xs ! i else x)"
  by (auto simp: nth_append)

definition greedy_kept ::
  "dbl \<Rightarrow> NvDsInferObjectDetectionInfo list \<Rightarrow> nat list \<Rightarrow> nat set \<Rightarrow> bool" where
  "greedy_kept thr bbox ord K \<longleftrightarrow>
     K \<subseteq> set ord \<and>
     (\<forall>i<length ord. ord ! i \<in> K \<longleftrightarrow>
        (\<forall>j<i. ord ! j \<in> K \<longrightarrow> computeIoU (bbox ! (ord ! i)) (bbox ! (ord ! j)) \<le> thr))"

lemma greedy_kept_snoc:
  assumes "greedy_kept thr bbox ord K" "x \<notin> set ord"
    and "K' = (if \<forall>k\<in>K. computeIoU (bbox ! x) (bbox ! k) \<le> thr then insert x K else K)"
  shows "greedy_kept thr bbox (ord @ [x]) K'"
proof -
  let ?n = "length ord"
  from assms(1) have sub: "K \<subseteq> set ord" and old: "\<And>i. i < ?n \<Longrightarrow> ord ! i \<in> K \<longleftrightarrow>
      (\<forall>j<i. ord ! j \<in> K \<longrightarrow> computeIoU (bbox ! (ord ! i)) (bbox ! (ord ! j)) \<le> thr)"
    by (auto simp: greedy_kept_def)
  have nth: "(ord @ [x]) ! j = ord ! j" "ord ! j \<in> K' \<longleftrightarrow> ord ! j \<in> K" if "j < ?n" for j
    using that assms(2,3) by (auto simp: nth_append split: if_splits)
  have x_mem: "x \<in> K' \<longleftrightarrow> (\<forall>k\<in>K. computeIoU (bbox ! x) (bbox ! k) \<le> thr)"
    using assms(2,3) sub by auto
  have K_ord: "(\<forall>k\<in>K. computeIoU (bbox ! x) (bbox ! k) \<le> thr) \<longleftrightarrow>
      (\<forall>j<?n. ord ! j \<in> K \<longrightarrow> computeIoU (bbox ! x) (bbox ! (ord ! j)) \<le> thr)"
    using sub by (metis in_set_conv_nth subsetD)
  have "(ord @ [x]) ! i \<in> K' \<longleftrightarrow> (\<forall>j<i. (ord @ [x]) ! j \<in> K' \<longrightarrow>
      computeIoU (bbox ! ((ord @ [x]) ! i)) (bbox ! ((ord @ [x]) ! j)) \<le> thr)" if "i < Suc ?n" for i
  proof (cases "i < ?n")
    case True
    then show ?thesis using old[OF True] nth by auto
  next
    case False
    with that have i: "i = ?n" by simp
    have "(\<forall>j<?n. (ord @ [x]) ! j \<in> K' \<longrightarrow> computeIoU (bbox ! x) (bbox ! ((ord @ [x]) ! j)) \<le> thr) \<longleftrightarrow>
        (\<forall>j<?n. ord ! j \<in> K \<longrightarrow> computeIoU (bbox ! x) (bbox ! (ord ! j)) \<le> thr)"
      using nth by auto
    then show ?thesis using x_mem K_ord by (simp add: i)
  qed
  moreover have "K' \<subseteq> set (ord @ [x])" using sub assms(3) by auto
  ultimately show ?thesis by (simp add: greedy_kept_def)
qed

lemma nms_loop_greedy:
  assumes "distinct (map snd si)" "\<forall>p\<in>set si. snd p < length bbox"
  shows "\<exists>kept. nms_loop thr bbox si [] = Some kept \<and> kept = filter (\<lambda>i. i \<in> set kept) (map snd si) \<and>
    greedy_kept thr bbox (map snd si) (set kept)"
  using assms
proof (induction si rule: rev_induct)
  case Nil
  then show ?case by (simp add: greedy_kept_def)
next
  case (snoc p si)
  obtain s x where p: "p = (s, x)" by (cases p)
  from snoc obtain kept where kept: "nms_loop thr bbox si [] = Some kept"
    "kept = filter (\<lambda>i. i \<in> set kept) (map snd si)" "greedy_kept thr bbox (map snd si) (set kept)"
    by auto
  then have sub: "set kept \<subseteq> set (map snd si)" by (simp add: greedy_kept_def)
  have x: "x < length bbox" "x \<notin> set (map snd si)" using snoc.prems p by auto
  have in_range: "\<forall>k\<in>set kept. k < length bbox" using sub snoc.prems(2) by auto
  have loop: "nms_loop thr bbox (si @ [p]) [] =
      Some (if allows thr bbox x kept then kept @ [x] else kept)"
    using kept(1) x(1) in_range by (simp add: nms_loop_append p nms_check_allows)
  let ?kept' = "if allows thr bbox x kept then kept @ [x] else kept"
  have "set ?kept' = (if \<forall>k\<in>set kept. computeIoU (bbox ! x) (bbox ! k) \<le> thr
      then insert x (set kept) else set kept)"
    by (simp add: allows_def)
  from greedy_kept_snoc[OF kept(3) x(2) this]
  have "greedy_kept thr bbox (map snd (si @ [p])) (set ?kept')" by (simp add: p)
  moreover have "filter (\<lambda>i. i = x \<or> i \<in> set kept) (map snd si) = kept"
    using kept(2) x(2) by (metis (mono_tags, lifting) filter_cong)
  moreover have "x \<notin> set kept" using sub x(2) by auto
  ultimately show ?case
    using kept(2) unfolding loop by (simp add: p)
qed

section \<open>The best k objects\<close>

lemma mset_insert_desc [simp]: "mset (insert_desc key x ys) = add_mset x (mset ys)"
  by (induction ys) auto

lemma mset_sort_desc [simp]: "mset (sort_desc key xs) = mset xs"
  by (induction xs) auto

lemma set_sort_desc [simp]: "set (sort_desc key xs) = set xs"
  by (rule mset_eq_setD) simp

lemma length_sort_desc [simp]: "length (sort_desc key xs) = length xs"
  by (rule mset_eq_length) simp

abbreviation descending :: "('a \<Rightarrow> dbl) \<Rightarrow> 'a list \<Rightarrow> bool" where
  "descending key \<equiv> sorted_wrt (\<lambda>a b. \<not> key a < key b)"

lemma not_less_trans: "b \<noteq> NaN \<Longrightarrow> \<not> a < b \<Longrightarrow> \<not> b < c \<Longrightarrow> \<not> a < c" for a b c :: dbl
  by (cases a; cases b; cases c) auto

lemma set_insert_desc [simp]: "set (insert_desc key x ys) = insert x (set ys)"
  by (induction ys) auto

lemma insert_desc_sorted:
  "NaN \<notin> key ` set (x # ys) \<Longrightarrow> descending key ys \<Longrightarrow> descending key (insert_desc key x ys)"
proof (induction ys)
  case (Cons y ys)
  then show ?case
    by (auto simp: image_iff dest: dless_trans) (metis not_less_trans)+
qed simp

lemma sort_desc_sorted: "NaN \<notin> key ` set xs \<Longrightarrow> descending key (sort_desc key xs)"
  by (induction xs) (auto intro!: insert_desc_sorted)

lemma insert_desc_flat: "\<forall>y\<in>set ys. \<not> key x < key y \<Longrightarrow> insert_desc key x ys = x # ys"
  by (cases ys) auto

lemma sort_desc_flat: "\<forall>x\<in>set xs. \<forall>y\<in>set xs. \<not> key x < key y \<Longrightarrow> sort_desc key xs = xs"
  by (induction xs) (auto simp: insert_desc_flat)

lemma stable_sort_desc_sorted:
  assumes "stable_sort_desc key xs = Some ys"
  shows "ys = sort_desc key xs \<and> descending key ys"
proof -
  from assms have ys: "ys = sort_desc key xs" and w: "weakly_ordered (map key xs)"
    by (auto simp: stable_sort_desc_def split: if_splits)
  have "descending key ys"
  proof (cases "NaN \<in> set (map key xs)")
    case True
    then have flat: "\<forall>x\<in>set xs. \<forall>y\<in>set xs. \<not> key x < key y"
      using w by (auto simp: weakly_ordered_def list_all_iff)
    then show ?thesis by (simp add: ys sort_desc_flat sorted_wrt_iff_nth_less)
  next
    case False
    then show ?thesis by (simp add: ys sort_desc_sorted)
  qed
  with ys show ?thesis by simp
qed

text \<open>The sort is stable: objects of the same key keep their order.\<close>

lemma filter_insert_desc:
  "filter (\<lambda>y. key y = v) (insert_desc key x ys) = filter (\<lambda>y. key y = v) (x # ys)"
  by (induction ys) auto

lemma filter_sort_desc: "filter (\<lambda>y. key y = v) (sort_desc key xs) = filter (\<lambda>y. key y = v) xs"
  by (induction xs) (auto simp: filter_insert_desc)

lemma stable_sort_desc_no_NaN: "NaN \<notin> key ` set xs \<Longrightarrow> stable_sort_desc key xs = Some (sort_desc key xs)"
  by (simp add: stable_sort_desc_def weakly_ordered_def)

text \<open>What \<open>filterTopKOutputs\<close> keeps.\<close>

definition best_k :: "('a \<Rightarrow> dbl) \<Rightarrow> nat \<Rightarrow> 'a list \<Rightarrow> 'a list \<Rightarrow> bool" where
  "best_k key k xs ys \<longleftrightarrow>
     length ys = min k (length xs) \<and> descending key ys \<and>
     (\<exists>zs. mset xs = mset ys + mset zs \<and> (\<forall>y\<in>set ys. \<forall>z\<in>set zs. \<not> key y < key z)) \<and>
     (\<forall>v. prefix (filter (\<lambda>y. key y = v) ys) (filter (\<lambda>x. key x = v) xs))"

lemma best_k_take:
  assumes "descending key ys" "mset ys = mset xs"
    and stable: "\<And>v. filter (\<lambda>y. key y = v) ys = filter (\<lambda>y. key y = v) xs"
  shows "best_k key k xs (take k ys)"
proof -
  have ys: "ys = take k ys @ drop k ys" by simp
  have "descending key (take k ys @ drop k ys)" using assms(1) by simp
  then have "descending key (take k ys)" "\<forall>y\<in>set (take k ys). \<forall>z\<in>set (drop k ys). \<not> key y < key z"
    unfolding sorted_wrt_append by auto
  moreover have "mset xs = mset (take k ys) + mset (drop k ys)"
    using assms(2) ys by (metis mset_append)
  moreover have "length (take k ys) = min k (length xs)"
    using assms(2) by (metis length_take min.commute mset_eq_length)
  moreover have "prefix (filter (\<lambda>y. key y = v) (take k ys)) (filter (\<lambda>x. key x = v) xs)" for v
    unfolding stable[symmetric] by (metis filter_append prefixI ys)
  ultimately show ?thesis unfolding best_k_def by blast
qed

lemma filterTopKOutputs_best:
  assumes "filterTopKOutputs k objs = Some r" "0 \<le> k"
  shows "best_k detectionConfidence (nat k) objs r"
proof -
  from assms obtain ys where ys: "stable_sort_desc detectionConfidence objs = Some ys" "r = take (nat k) ys"
    by (auto simp: filterTopKOutputs_def)
  have "ys = sort_desc detectionConfidence objs" "descending detectionConfidence ys"
    using stable_sort_desc_sorted[OF ys(1)] by auto
  then show ?thesis unfolding ys(2) by (intro best_k_take) (auto simp: filter_sort_desc)
qed

lemma filterTopKOutputs_subset: "filterTopKOutputs k objs = Some r \<Longrightarrow> set r \<subseteq> set objs"
  by (auto simp: filterTopKOutputs_def stable_sort_desc_def split: if_splits dest: in_set_takeD)

lemma filterTopKOutputs_length: "filterTopKOutputs k objs = Some r \<Longrightarrow> 0 \<le> k \<Longrightarrow> length r \<le> nat k"
  by (auto simp: filterTopKOutputs_def)

lemma filterTopKOutputs_no_NaN:
  "NaN \<notin> detectionConfidence ` set objs \<Longrightarrow> \<exists>r. filterTopKOutputs k objs = Some r"
  by (simp add: filterTopKOutputs_def stable_sort_desc_no_NaN)

lemma image_not_NaN: "NaN \<notin> f ` A \<Longrightarrow> x \<in> A \<Longrightarrow> f x \<noteq> NaN"
  by (metis image_eqI)

section \<open>Suppression in a class\<close>

lemma greedy_sorted:
  assumes "greedy_kept thr bbox ord K"
  shows "sorted_wrt (\<lambda>a b. computeIoU (bbox ! b) (bbox ! a) \<le> thr) (filter (\<lambda>i. i \<in> K) ord)"
proof -
  have "sorted_wrt (\<lambda>a b. a \<in> K \<longrightarrow> b \<in> K \<longrightarrow> computeIoU (bbox ! b) (bbox ! a) \<le> thr) ord"
    using assms by (auto simp: greedy_kept_def sorted_wrt_iff_nth_less)
  then have "sorted_wrt (\<lambda>a b. a \<in> K \<longrightarrow> b \<in> K \<longrightarrow> computeIoU (bbox ! b) (bbox ! a) \<le> thr)
      (filter (\<lambda>i. i \<in> K) ord)"
    by (rule sorted_wrt_filter)
  then show ?thesis by (rule sorted_wrt_mono_rel[rotated]) auto
qed

lemma greedy_suppressed:
  assumes "greedy_kept thr bbox ord K" "sorted_wrt R ord" "i \<in> set ord" "i \<notin> K"
  shows "\<exists>k\<in>K. R k i \<and> \<not> computeIoU (bbox ! i) (bbox ! k) \<le> thr"
proof -
  from assms(3) obtain m where m: "m < length ord" "i = ord ! m" by (auto simp: in_set_conv_nth)
  with assms(1,4) obtain j where "j < m" "ord ! j \<in> K" "\<not> computeIoU (bbox ! i) (bbox ! (ord ! j)) \<le> thr"
    by (auto simp: greedy_kept_def)
  moreover from this have "R (ord ! j) i" using assms(2) m by (simp add: sorted_wrt_iff_nth_less)
  ultimately show ?thesis by blast
qed

text \<open>The order in which the objects of a class are looked at.\<close>

definition score_order :: "NvDsInferObjectDetectionInfo list \<Rightarrow> nat list" where
  "score_order objs = map snd (sort_desc fst (zip (map detectionConfidence objs) [0..<length objs]))"

lemma mset_score_order: "mset (score_order objs) = mset [0..<length objs]"
proof -
  let ?z = "zip (map detectionConfidence objs) [0..<length objs]"
  have "mset (score_order objs) = image_mset snd (mset ?z)"
    by (simp only: score_order_def mset_map mset_sort_desc)
  also have "\<dots> = mset (map snd ?z)" by (simp only: mset_map)
  also have "map snd ?z = [0..<length objs]" by (rule map_snd_zip) simp
  finally show ?thesis .
qed

lemma score_order_perm:
  "distinct (score_order objs)" "set (score_order objs) = {..<length objs}"
  using mset_eq_imp_distinct_iff[OF mset_score_order[of objs]] mset_eq_setD[OF mset_score_order[of objs]]
  by (simp_all add: lessThan_atLeast0)

lemma score_order_sorted:
  assumes "NaN \<notin> detectionConfidence ` set objs"
  shows "sorted_wrt (\<lambda>i j. \<not> detectionConfidence (objs ! i) < detectionConfidence (objs ! j)) (score_order objs)"
proof -
  let ?z = "zip (map detectionConfidence objs) [0..<length objs]"
  have "NaN \<notin> fst ` set ?z" using assms by (auto simp: set_zip image_iff)
  then have "descending fst (sort_desc fst ?z)" by (rule sort_desc_sorted)
  then have "sorted_wrt (\<lambda>p q. \<not> detectionConfidence (objs ! snd p) < detectionConfidence (objs ! snd q))
      (sort_desc fst ?z)"
    by (rule sorted_wrt_mono_rel[rotated]) (auto simp: set_zip)
  then show ?thesis by (simp add: score_order_def sorted_wrt_map)
qed

lemma sort_desc_id: "descending key xs \<Longrightarrow> sort_desc key xs = xs"
  by (induction xs) (auto simp: insert_desc_flat)

lemma filterTopKOutputs_sorted:
  assumes "descending detectionConfidence objs" "NaN \<notin> detectionConfidence ` set objs"
  shows "filterTopKOutputs k objs = Some (if k < 0 then objs else take (nat k) objs)"
  using assms by (simp add: filterTopKOutputs_def stable_sort_desc_no_NaN sort_desc_id)

definition post_nms ::
  "NvDsInferDetectionParams \<Rightarrow> NvDsInferObjectDetectionInfo list \<Rightarrow> nat set \<Rightarrow> NvDsInferObjectDetectionInfo list"
where
  "post_nms p objs K = filter (\<lambda>ob. postClusterThreshold p < detectionConfidence ob)
     (map ((!) objs) (filter (\<lambda>i. i \<in> K) (score_order objs)))"

lemma post_nms_sorted:
  assumes "NaN \<notin> detectionConfidence ` set objs"
  shows "descending detectionConfidence (post_nms p objs K)"
  unfolding post_nms_def
  by (intro sorted_wrt_filter) (simp add: sorted_wrt_map sorted_wrt_filter score_order_sorted assms)

lemma set_post_nms:
  "K \<subseteq> set (score_order objs) \<Longrightarrow>
   set (post_nms p objs K) = {ob \<in> (!) objs ` K. postClusterThreshold p < detectionConfidence ob}"
  by (auto simp: post_nms_def)

lemma set_post_nms_subset: "K \<subseteq> set (score_order objs) \<Longrightarrow> set (post_nms p objs K) \<subseteq> set objs"
  by (auto simp: set_post_nms score_order_perm)

lemma nms_class_eq:
  assumes "NaN \<notin> detectionConfidence ` set objs"
  shows "\<exists>K. greedy_kept (nmsIOUThreshold p) objs (score_order objs) K \<and>
    nms_class p objs = Some (if topK p < 0 then post_nms p objs K else take (nat (topK p)) (post_nms p objs K))"
proof -
  let ?si = "sort_desc fst (zip (map detectionConfidence objs) [0..<length objs])"
  have nan: "NaN \<notin> fst ` set (zip (map detectionConfidence objs) [0..<length objs])"
    using assms by (auto simp: set_zip image_iff)
  have "distinct (map snd ?si)" "\<forall>q\<in>set ?si. snd q < length objs"
    using score_order_perm(1)[of objs] by (auto simp: score_order_def set_zip)
  from nms_loop_greedy[OF this, of "nmsIOUThreshold p"] obtain kept where
    kept: "nonMaximumSuppression ?si objs (nmsIOUThreshold p) = Some kept"
      "kept = filter (\<lambda>i. i \<in> set kept) (score_order objs)"
      "greedy_kept (nmsIOUThreshold p) objs (score_order objs) (set kept)"
    by (auto simp: nonMaximumSuppression_def score_order_def)
  have K: "set kept \<subseteq> set (score_order objs)" using kept(3) by (simp add: greedy_kept_def)
  have post: "filter (\<lambda>ob. postClusterThreshold p < detectionConfidence ob) (map ((!) objs) kept) =
      post_nms p objs (set kept)"
    using kept(2) by (simp add: post_nms_def)
  have nan': "NaN \<notin> detectionConfidence ` set (post_nms p objs (set kept))"
    using assms set_post_nms_subset[OF K] by auto
  have "nms_class p objs = filterTopKOutputs (topK p) (post_nms p objs (set kept))"
  proof (cases "objs = []")
    case True
    then have "post_nms p objs (set kept) = []" by (simp add: post_nms_def score_order_def)
    with True show ?thesis by (simp add: nms_class_def filterTopKOutputs_def stable_sort_desc_def weakly_ordered_def)
  next
    case False
    then show ?thesis by (simp add: nms_class_def stable_sort_desc_no_NaN[OF nan] kept(1) post)
  qed
  also have "\<dots> = Some (if topK p < 0 then post_nms p objs (set kept)
      else take (nat (topK p)) (post_nms p objs (set kept)))"
    by (rule filterTopKOutputs_sorted[OF post_nms_sorted[OF assms] nan'])
  finally show ?thesis using kept(3) by blast
qed

lemma post_nms_disjoint:
  assumes "greedy_kept thr objs (score_order objs) K"
  shows "sorted_wrt (\<lambda>a b. computeIoU b a \<le> thr) (post_nms p objs K)"
  unfolding post_nms_def
  by (intro sorted_wrt_filter) (simp add: sorted_wrt_map greedy_sorted[OF assms])

lemma post_nms_complete:
  assumes "greedy_kept thr objs (score_order objs) K" "NaN \<notin> detectionConfidence ` set objs"
    and "ob \<in> set objs" "postClusterThreshold p < detectionConfidence ob" "ob \<notin> set (post_nms p objs K)"
  shows "\<exists>k\<in>set (post_nms p objs K).
    \<not> detectionConfidence k < detectionConfidence ob \<and> \<not> computeIoU ob k \<le> thr"
proof -
  have K: "K \<subseteq> set (score_order objs)" using assms(1) by (simp add: greedy_kept_def)
  from assms(3) obtain i where i: "i < length objs" "ob = objs ! i" by (auto simp: in_set_conv_nth)
  then have "i \<notin> K" using assms(4,5) K by (auto simp: set_post_nms)
  from greedy_suppressed[OF assms(1) score_order_sorted[OF assms(2)] _ this] obtain k where
    k: "k \<in> K" "\<not> detectionConfidence (objs ! k) < detectionConfidence ob"
      "\<not> computeIoU ob (objs ! k) \<le> thr"
    using i by (auto simp: score_order_perm)
  have "k < length objs" using k(1) K by (auto simp: score_order_perm)
  then have "detectionConfidence (objs ! k) \<noteq> NaN" using image_not_NaN[OF assms(2) nth_mem] by blast
  moreover have "detectionConfidence ob \<noteq> NaN" using assms(2,3) by (rule image_not_NaN)
  ultimately have "postClusterThreshold p < detectionConfidence (objs ! k)"
    using k(2) assms(4)
    by (cases "detectionConfidence (objs ! k)"; cases "detectionConfidence ob"; cases "postClusterThreshold p") auto
  then have "objs ! k \<in> set (post_nms p objs K)" using k(1) K by (auto simp: set_post_nms)
  then show ?thesis using k(2,3) by blast
qed

end
