(* ===== verification/DetectContract.thy ===== *)
theory DetectContract
  imports DetectProps
begin

text \<open>
  What the detector's post-processing promises: the boxes of the built-in parser lie inside of the
  frame, the objects of a class after suppression do not overlap, the output of a frame respects the
  classes and thresholds of the configuration, and what happens when parsing fails.
\<close>

section \<open>Suppression in a class\<close>

lemma take_descending:
  assumes "descending key xs" "x \<in> set xs" "x \<notin> set (take k xs)"
  shows "length (take k xs) = k \<and> (\<forall>y\<in>set (take k xs). \<not> key y < key x)"
proof -
  from assms(2,3) have x: "x \<in> set (drop k xs)" by (metis UnE append_take_drop_id set_append)
  then have "k < length xs" by (metis drop_all length_pos_if_in_set list.size(3) not_le not_less_zero)
  moreover have "descending key (take k xs @ drop k xs)" using assms(1) by simp
  ultimately show ?thesis using x unfolding sorted_wrt_append by auto
qed

lemma nms_class_parts:
  assumes "NaN \<notin> detectionConfidence ` set objs"
  obtains R r where "nms_class p objs = Some r" "r = (if topK p < 0 then R else take (nat (topK p)) R)"
    "set R \<subseteq> set objs" "\<And>ob. ob \<in> set R \<Longrightarrow> postClusterThreshold p < detectionConfidence ob"
    "descending detectionConfidence R" "sorted_wrt (\<lambda>a b. computeIoU b a \<le> nmsIOUThreshold p) R"
    "\<And>ob. ob \<in> set objs \<Longrightarrow> postClusterThreshold p < detectionConfidence ob \<Longrightarrow> ob \<notin> set R \<Longrightarrow>
       \<exists>k\<in>set R. \<not> detectionConfidence k < detectionConfidence ob \<and> \<not> computeIoU ob k \<le> nmsIOUThreshold p"
proof -
  from nms_class_eq[OF assms, of p] obtain K where
    K: "greedy_kept (nmsIOUThreshold p) objs (score_order objs) K"
    and eq: "nms_class p objs = Some (if topK p < 0 then post_nms p objs K
      else take (nat (topK p)) (post_nms p objs K))" by blast
  from K have sub: "K \<subseteq> set (score_order objs)" by (simp add: greedy_kept_def)
  show thesis
    by (rule that[OF eq refl set_post_nms_subset[OF sub] _ post_nms_sorted[OF assms] post_nms_disjoint[OF K]
          post_nms_complete[OF K assms]])
      (simp_all add: post_nms_def)
qed

lemma suppressed_or_full:
  assumes R: "descending detectionConfidence R" "NaN \<notin> detectionConfidence ` set R"
    and r: "r = (if topK p < 0 then R else take (nat (topK p)) R)"
    and ob: "ob \<notin> set r" "detectionConfidence ob \<noteq> NaN"
    and compl: "ob \<notin> set R \<Longrightarrow>
      \<exists>k\<in>set R. \<not> detectionConfidence k < detectionConfidence ob \<and> \<not> computeIoU ob k \<le> thr"
  shows "(\<exists>k\<in>set r. \<not> detectionConfidence k < detectionConfidence ob \<and> \<not> computeIoU ob k \<le> thr) \<or>
    0 \<le> topK p \<and> length r = nat (topK p) \<and> (\<forall>k\<in>set r. \<not> detectionConfidence k < detectionConfidence ob)"
proof (cases "ob \<in> set R")
  case True
  then show ?thesis using take_descending[OF R(1) True, of "nat (topK p)"] ob(1) r by (auto split: if_splits)
next
  case False
  from compl[OF this] obtain k where k: "k \<in> set R" "\<not> detectionConfidence k < detectionConfidence ob"
    "\<not> computeIoU ob k \<le> thr" by blast
  show ?thesis
  proof (cases "k \<in> set r")
    case True
    then show ?thesis using k by blast
  next
    case no: False
    have kn: "detectionConfidence k \<noteq> NaN" using R(2) k(1) by (rule image_not_NaN)
    from no r k(1) have "\<not> topK p < 0" "k \<notin> set (take (nat (topK p)) R)" by (auto split: if_splits)
    with take_descending[OF R(1) k(1), of "nat (topK p)"] r
    have "0 \<le> topK p" "length r = nat (topK p)"
      "\<forall>y\<in>set r. \<not> detectionConfidence y < detectionConfidence k" by auto
    then show ?thesis using not_less_trans[OF kn _ k(2)] by blast
  qed
qed

text \<open>
  Property C30. Suppression in a class always has a result when no confidence is a NaN: objects of the
  class above the post-cluster threshold, in descending confidence, none of which overlaps a more
  confident one by more than the IOU threshold, and no more than topK of them. Nothing is lost without
  a reason: an object above the threshold that is missing overlaps a kept object that is at least as
  confident, or the topK places are taken by objects that are.
\<close>

theorem nms_class_contract:
  assumes "NaN \<notin> detectionConfidence ` set objs"
  shows "\<exists>r. nms_class p objs = Some r \<and> set r \<subseteq> set objs \<and>
    (\<forall>ob\<in>set r. postClusterThreshold p < detectionConfidence ob) \<and>
    descending detectionConfidence r \<and>
    sorted_wrt (\<lambda>a b. computeIoU b a \<le> nmsIOUThreshold p) r \<and>
    (0 \<le> topK p \<longrightarrow> length r \<le> nat (topK p)) \<and>
    (\<forall>ob\<in>set objs. postClusterThreshold p < detectionConfidence ob \<longrightarrow> ob \<notin> set r \<longrightarrow>
       (\<exists>k\<in>set r. \<not> detectionConfidence k < detectionConfidence ob \<and> \<not> computeIoU ob k \<le> nmsIOUThreshold p) \<or>
       0 \<le> topK p \<and> length r = nat (topK p) \<and>
         (\<forall>k\<in>set r. \<not> detectionConfidence k < detectionConfidence ob))"
proof -
  obtain R r where r: "nms_class p objs = Some r" "r = (if topK p < 0 then R else take (nat (topK p)) R)"
    and R: "set R \<subseteq> set objs" "\<And>ob. ob \<in> set R \<Longrightarrow> postClusterThreshold p < detectionConfidence ob"
      "descending detectionConfidence R" "sorted_wrt (\<lambda>a b. computeIoU b a \<le> nmsIOUThreshold p) R"
    and compl: "\<And>ob. ob \<in> set objs \<Longrightarrow> postClusterThreshold p < detectionConfidence ob \<Longrightarrow> ob \<notin> set R \<Longrightarrow>
       \<exists>k\<in>set R. \<not> detectionConfidence k < detectionConfidence ob \<and> \<not> computeIoU ob k \<le> nmsIOUThreshold p"
    by (rule nms_class_parts[OF assms, of p]) (rule that; assumption)
  have sub: "set r \<subseteq> set R" using r(2) by (auto dest: in_set_takeD)
  have nan: "NaN \<notin> detectionConfidence ` set R" using assms R(1) by auto
  have lost: "(\<exists>k\<in>set r. \<not> detectionConfidence k < detectionConfidence ob \<and> \<not> computeIoU ob k \<le> nmsIOUThreshold p) \<or>
       0 \<le> topK p \<and> length r = nat (topK p) \<and> (\<forall>k\<in>set r. \<not> detectionConfidence k < detectionConfidence ob)"
    if "ob \<in> set objs" "postClusterThreshold p < detectionConfidence ob" "ob \<notin> set r" for ob
  proof (rule suppressed_or_full[OF R(3) nan r(2) that(3) _ compl[OF that(1,2)]])
    show "detectionConfidence ob \<noteq> NaN" using assms that(1) by (rule image_not_NaN)
  qed
  have order: "descending detectionConfidence r" "sorted_wrt (\<lambda>a b. computeIoU b a \<le> nmsIOUThreshold p) r"
    "0 \<le> topK p \<longrightarrow> length r \<le> nat (topK p)"
    using R(3,4) r(2) by (simp_all add: sorted_wrt_take)
  show ?thesis
  proof (intro exI[of _ r] conjI ballI impI)
    show "nms_class p objs = Some r" by (rule r(1))
    show "set r \<subseteq> set objs" using sub R(1) by (rule subset_trans)
    show "postClusterThreshold p < detectionConfidence ob" if "ob \<in> set r" for ob
      using R(2) sub that by blast
  qed (use order lost in simp_all)
qed

definition sample_params :: NvDsInferDetectionParams where
  "sample_params = \<lparr>preClusterThreshold = Fin (1 / 5), postClusterThreshold = Fin (2 / 5), det_eps = 0, minBoxes = 0,
     groupThreshold = 0, minScore = 0, nmsIOUThreshold = Fin (1 / 2), topK = -1\<rparr>"

definition sample_box :: "u32 \<Rightarrow> rat \<Rightarrow> rat \<Rightarrow> NvDsInferObjectDetectionInfo" where
  "sample_box c x s = \<lparr>classId = c, det_left = Fin x, det_top = 0, det_width = Fin 10, det_height = Fin 10,
     detectionConfidence = Fin s\<rparr>"

lemma sample_box_simps [simp]:
  "classId (sample_box c x s) = c" "det_left (sample_box c x s) = Fin x" "det_top (sample_box c x s) = Fin 0"
  "det_width (sample_box c x s) = Fin 10" "det_height (sample_box c x s) = Fin 10"
  "detectionConfidence (sample_box c x s) = Fin s"
  by (simp_all add: sample_box_def zero_dbl_Fin)

lemma sample_iou:
  "computeIoU (sample_box c x s) (sample_box c' x' s') =
     Fin (iou_rat 100 100 (overlap x (x + 10) x' (x' + 10) * 10))"
  by (subst computeIoU_Fin) (auto simp: overlap_def)

text \<open>The second box overlaps the first by 9/11 and is suppressed; the third is below the threshold.\<close>

theorem nms_class_contract_witness:
  "nms_class sample_params [sample_box 0 1 (1/2), sample_box 0 40 (3/10), sample_box 0 0 (9/10), sample_box 0 6 (7/10)]
     = Some [sample_box 0 0 (9/10), sample_box 0 6 (7/10)]"
proof -
  let ?objs = "[sample_box 0 1 (1/2), sample_box 0 40 (3/10), sample_box 0 0 (9/10), sample_box 0 6 (7/10)]"
  have "nms_class sample_params ?objs = Some [sample_box 0 0 (9/10), sample_box 0 6 (7/10)]"
    by (simp add: nms_class_def stable_sort_desc_def weakly_ordered_def nonMaximumSuppression_def sample_iou
        overlap_def iou_rat_def sample_params_def filterTopKOutputs_def)
  moreover have "NaN \<notin> detectionConfidence ` set ?objs" by simp
  note nms_class_contract[OF this, of sample_params]
  ultimately show ?thesis by simp
qed

section \<open>The best k objects\<close>

text \<open>
  Filtering the top k has a result when no confidence is a NaN: the min(k, n) objects of
  highest confidence, in descending order, where no object left out is more confident than one that
  is kept; objects of equal confidence are taken in the order of the input.
\<close>

lemma top_k_best:
  assumes "NaN \<notin> detectionConfidence ` set objs" "0 \<le> k"
  shows "\<exists>r. filterTopKOutputs k objs = Some r \<and> best_k detectionConfidence (nat k) objs r"
proof -
  from filterTopKOutputs_no_NaN[OF assms(1), of k] obtain r where r: "filterTopKOutputs k objs = Some r" ..
  then show ?thesis using filterTopKOutputs_best[OF r assms(2)] by blast
qed

lemma top_k_best_witness:
  "filterTopKOutputs 2 [sample_box 0 1 (1/2), sample_box 1 2 (9/10), sample_box 2 3 (1/2)] =
     Some [sample_box 1 2 (9/10), sample_box 0 1 (1/2)]"
proof -
  let ?objs = "[sample_box 0 1 (1/2), sample_box 1 2 (9/10), sample_box 2 3 (1/2)]"
  have "NaN \<notin> detectionConfidence ` set ?objs" by simp
  from top_k_best[OF this, of 2]
  show ?thesis by (simp add: filterTopKOutputs_def stable_sort_desc_def weakly_ordered_def)
qed

section \<open>Intersection over union\<close>

text \<open>
  The intersection over union of two boxes with finite coordinates and sides of at least
  zero is between 0 and 1 and does not depend on the order of the boxes; of a box with a positive area
  with itself it is 1.
\<close>

lemma iou_bounded_symmetric:
  assumes "finite_box b1" "finite_box b2"
  shows "0 \<le> computeIoU b1 b2 \<and> computeIoU b1 b2 \<le> 1 \<and> computeIoU b1 b2 = computeIoU b2 b1 \<and>
    (0 < det_width b1 \<and> 0 < det_height b1 \<longrightarrow> computeIoU b1 b1 = 1)"
  using computeIoU_bounds[OF assms] computeIoU_commute[OF assms] computeIoU_self[OF assms(1)] by blast

lemma finite_sample_box: "finite_box (sample_box c x s)"
  by (simp add: finite_box_def)

lemma iou_bounded_symmetric_witness:
  "computeIoU (sample_box 0 0 1) (sample_box 0 5 1) = Fin (1 / 3) \<and>
   computeIoU (sample_box 0 5 1) (sample_box 0 0 1) = Fin (1 / 3)"
  using iou_bounded_symmetric[OF finite_sample_box[of 0 0 1] finite_sample_box[of 0 5 1]]
  by (simp add: sample_iou overlap_def iou_rat_def)

section \<open>The boxes of the built-in parser\<close>

lemma sint_eq_uint_small: "uint w < 2 ^ 31 \<Longrightarrow> sint w = uint w" for w :: u32
  unfolding sint_uint
  by (rule signed_take_bit_int_eq_self) (use uint_ge_0[of w] in \<open>simp_all add: order_trans[of _ 0]\<close>)

lemma uint_pred: "0 < uint w \<Longrightarrow> uint (w - 1) = uint w - 1" for w :: u32
  by (simp add: uint_sub_if')

text \<open>Clipping to the frame leaves no infinite coordinate.\<close>

lemma clip_range:
  assumes "x \<noteq> NaN" "0 < uint bound" "uint bound < 2 ^ 31"
  shows "\<exists>r. clip bound x = Fin r \<and> 0 \<le> r \<and> r < of_int (uint bound)"
proof -
  have *: "sint bound = uint bound" "uint (bound - 1) = uint bound - 1"
    using assms(2,3) by (simp_all add: sint_eq_uint_small uint_pred)
  have "rat_of_int 1 \<le> rat_of_int (uint bound)" unfolding of_int_le_iff using assms(2) by linarith
  then show ?thesis
    using assms by (cases x) (auto simp: clip_def clip_high_def clip_low_def * dbl_of_int_def dbl_of_u32_def
        zero_dbl_Fin)
qed

lemma read_float_mem: "read_float buf i = Some v \<Longrightarrow> v \<in> set buf"
  by (auto simp: read_float_def split: if_splits)

lemma grid_center_Fin: "\<exists>r. grid_center i stride = Fin r"
  unfolding grid_center_def bboxNorm_def dbl_of_u32_def Fin_arith by (rule exI, rule ddiv_Fin) simp

lemma mult_Fin_not_NaN: "x \<noteq> NaN \<Longrightarrow> r \<noteq> 0 \<Longrightarrow> x * Fin r \<noteq> NaN"
  by (cases x) (auto simp: times_dbl_def dinf_def sgn_if)

lemma add_Fin_not_NaN: "x \<noteq> NaN \<Longrightarrow> x + Fin r \<noteq> NaN"
  by (cases x) (simp_all add: plus_dbl_def)

lemma diff_Fin_not_NaN: "x \<noteq> NaN \<Longrightarrow> x - Fin r \<noteq> NaN"
  by (cases x) (simp_all add: minus_dbl_def)

lemma scaled_not_NaN:
  "x \<noteq> NaN \<Longrightarrow> (x - Fin r) * - bboxNorm \<noteq> NaN" "x \<noteq> NaN \<Longrightarrow> (x + Fin r) * bboxNorm \<noteq> NaN"
  by (simp_all add: bboxNorm_def mult_Fin_not_NaN add_Fin_not_NaN diff_Fin_not_NaN)

definition in_frame :: "NvDsInferNetworkInfo \<Rightarrow> NvDsInferObjectDetectionInfo \<Rightarrow> bool" where
  "in_frame net ob \<longleftrightarrow>
     (\<exists>x y w h. det_left ob = Fin x \<and> det_top ob = Fin y \<and> det_width ob = Fin w \<and> det_height ob = Fin h \<and>
        0 \<le> x \<and> 0 \<le> w \<and> x + w < of_int (uint (net_width net)) \<and>
        0 \<le> y \<and> 0 \<le> h \<and> y + h < of_int (uint (net_height net)))"

text \<open>The size of the frame is what the signed comparison of the code can hold.\<close>

definition net_ok :: "NvDsInferNetworkInfo \<Rightarrow> bool" where
  "net_ok net \<longleftrightarrow> 0 < uint (net_width net) \<and> uint (net_width net) < 2 ^ 31 \<and>
     0 < uint (net_height net) \<and> uint (net_height net) < 2 ^ 31"

lemma clipped_box_in_frame:
  assumes "net_ok net" "a \<noteq> NaN" "b \<noteq> NaN" "c \<noteq> NaN" "d \<noteq> NaN"
    and x: "x1 = clip (net_width net) a" "x2 = clip (net_width net) b" "\<not> x2 - x1 < 0"
    and y: "y1 = clip (net_height net) c" "y2 = clip (net_height net) d" "\<not> y2 - y1 < 0"
    and ob: "det_left ob = x1" "det_top ob = y1" "det_width ob = x2 - x1" "det_height ob = y2 - y1"
  shows "in_frame net ob"
proof -
  from clip_range[OF assms(2), of "net_width net"] assms(1) obtain r1 where
    r1: "x1 = Fin r1" "0 \<le> r1" "r1 < of_int (uint (net_width net))" by (auto simp: net_ok_def x)
  from clip_range[OF assms(3), of "net_width net"] assms(1) obtain r2 where
    r2: "x2 = Fin r2" "0 \<le> r2" "r2 < of_int (uint (net_width net))" by (auto simp: net_ok_def x)
  from clip_range[OF assms(4), of "net_height net"] assms(1) obtain s1 where
    s1: "y1 = Fin s1" "0 \<le> s1" "s1 < of_int (uint (net_height net))" by (auto simp: net_ok_def y)
  from clip_range[OF assms(5), of "net_height net"] assms(1) obtain s2 where
    s2: "y2 = Fin s2" "0 \<le> s2" "s2 < of_int (uint (net_height net))" by (auto simp: net_ok_def y)
  show ?thesis
    using r1 r2 s1 s2 x(3) y(3) by (simp add: in_frame_def ob zero_dbl_Fin)
qed

lemma parse_cell_SomeE:
  assumes "parse_cell g net thr (c, h, w) = Some (Some ob)"
  obtains conf gx gy fx1 fy1 fx2 fy2 where
    "unat c < length thr" "conf \<in> set (g_coverage g)" "\<not> conf < thr ! unat c"
    "{fx1, fy1, fx2, fy2} \<subseteq> set (g_bboxes g)"
    "\<not> clip (net_width net) ((fx2 + Fin gx) * bboxNorm) - clip (net_width net) ((fx1 - Fin gx) * - bboxNorm) < 0"
    "\<not> clip (net_height net) ((fy2 + Fin gy) * bboxNorm) - clip (net_height net) ((fy1 - Fin gy) * - bboxNorm) < 0"
    "ob = \<lparr>classId = c, det_left = clip (net_width net) ((fx1 - Fin gx) * - bboxNorm),
       det_top = clip (net_height net) ((fy1 - Fin gy) * - bboxNorm),
       det_width = clip (net_width net) ((fx2 + Fin gx) * bboxNorm) - clip (net_width net) ((fx1 - Fin gx) * - bboxNorm),
       det_height = clip (net_height net) ((fy2 + Fin gy) * bboxNorm) - clip (net_height net) ((fy1 - Fin gy) * - bboxNorm),
       detectionConfidence = conf\<rparr>"
proof -
  from grid_center_Fin obtain gx where gx: "grid_center w (g_strideX g) = Fin gx" by blast
  from grid_center_Fin obtain gy where gy: "grid_center h (g_strideY g) = Fin gy" by blast
  from assms show thesis
    unfolding parse_cell_def Let_def prod.case gx gy
    by (simp split: option.splits bool.splits if_splits) (rule that; force dest: read_float_mem)
qed

lemma parse_cell_in_frame:
  assumes "parse_cell g net thr (c, h, w) = Some (Some ob)" "net_ok net" "NaN \<notin> set (g_bboxes g)"
  shows "classId ob = c \<and> unat c < length thr \<and> \<not> detectionConfidence ob < thr ! unat c \<and> in_frame net ob"
  using assms(1)
proof (rule parse_cell_SomeE, goal_cases)
  case (1 conf gx gy fx1 fy1 fx2 fy2)
  then have "fx1 \<noteq> NaN" "fy1 \<noteq> NaN" "fx2 \<noteq> NaN" "fy2 \<noteq> NaN" using assms(3) by auto
  then have "in_frame net ob"
    using 1 by (intro clipped_box_in_frame[OF assms(2) scaled_not_NaN(1)[of fx1 gx] scaled_not_NaN(2)[of fx2 gx]
          scaled_not_NaN(1)[of fy1 gy] scaled_not_NaN(2)[of fy2 gy] refl refl _ refl refl]) simp_all
  with 1 show ?case by simp
qed

lemma collect_mem: "collect f xs = Some ys \<Longrightarrow> y \<in> set ys \<Longrightarrow> \<exists>x\<in>set xs. f x = Some (Some y)"
  by (induction xs arbitrary: ys) (auto split: option.splits)

lemma cells_class: "(c, h, w) \<in> set (cells n rows cols) \<Longrightarrow> unat c < unat n"
  by (auto simp: cells_def unat_of_nat intro: le_less_trans[OF mod_less_eq_dividend])

text \<open>
  The layers a detector of \<open>n\<close> classes has: a confidence for every class and grid point, and the four
  edges of a box for each of them.
\<close>

definition grid_shape :: "nat \<Rightarrow> bbox_grid \<Rightarrow> bool" where
  "grid_shape n g \<longleftrightarrow>
     (let k = unat (dims_w (g_cov g)) * unat (dims_h (g_cov g))
      in dims_h (g_bbox g) = dims_h (g_cov g) \<and> dims_w (g_bbox g) = dims_w (g_cov g) \<and>
         n * k \<le> length (g_coverage g) \<and> 4 * (n * k) \<le> length (g_bboxes g) \<and> 4 * (n * k) < 2 ^ 31)"

lemma unat_mult_small: "unat a * unat b < 2 ^ LENGTH('a) \<Longrightarrow> unat (a * b) = unat a * unat b"
  for a b :: "'a::len word"
  by (simp add: unat_mult_lem)

lemma unat_plus_small: "unat a + unat b < 2 ^ LENGTH('a) \<Longrightarrow> unat (a + b) = unat a + unat b"
  for a b :: "'a::len word"
  by (simp add: unat_add_lem)

lemma unat_ucast_u64 [simp]: "unat (ucast (w :: u32) :: u64) = unat w"
  using unat_u32_less[of w] by (simp add: unsigned_ucast_eq take_bit_nat_eq_self)

lemma grid_index_less:
  assumes "(x::nat) < w" "y < h"
  shows "x + y * w < w * h"
proof -
  have "x + y * w < Suc y * w" using assms(1) by simp
  also have "\<dots> \<le> h * w" using assms(2) by (intro mult_le_mono1) simp
  finally show ?thesis by (simp add: mult.commute)
qed

lemma class_index_less: "(c::nat) < n \<Longrightarrow> i < k \<Longrightarrow> c * k + i < n * k"
  using grid_index_less[of i k c n] by (simp add: add.commute mult.commute)

lemma read_float_ok: "i < int (length buf) \<Longrightarrow> 0 \<le> i \<Longrightarrow> \<exists>v. read_float buf i = Some v"
  by (simp add: read_float_def)

lemma parse_cell_offsets:
  assumes shape: "grid_shape n g" and c: "unat c < n" "unat w < unat (dims_w (g_cov g))" "unat h < unat (dims_h (g_cov g))"
  defines "k \<equiv> unat (dims_w (g_cov g)) * unat (dims_h (g_cov g))"
  shows "unat (w + h * dims_w (g_cov g)) < k"
    and "unat (dims_w (g_cov g) * dims_h (g_cov g)) = k"
    and "sint (dims_w (g_cov g) * dims_h (g_cov g)) = int k"
    and "unat (c * (dims_w (g_cov g) * dims_h (g_cov g)) + (w + h * dims_w (g_cov g))) < n * k"
    and "unat (ucast c * 4 * ucast (dims_h (g_bbox g)) * ucast (dims_w (g_bbox g)) :: u64) = 4 * unat c * k"
proof -
  let ?W = "dims_w (g_cov g)" and ?H = "dims_h (g_cov g)"
  have k: "4 * (n * k) < 2 ^ 31" and b: "dims_h (g_bbox g) = ?H" "dims_w (g_bbox g) = ?W"
    using shape unfolding grid_shape_def Let_def k_def by blast+
  have idx: "unat w + unat h * unat ?W < k" unfolding k_def by (rule grid_index_less[OF c(2,3)])
  have "k \<le> n * k" using c(1) by simp
  with k have small: "k < 2 ^ 31" "n * k < 2 ^ 31" by linarith+
  show gs: "unat (?W * ?H) = k" unfolding k_def by (rule unat_mult_small) (use small in \<open>simp add: k_def\<close>)
  then have "uint (?W * ?H) = int k" by (metis uint_nat)
  then show "sint (?W * ?H) = int k" using small(1) by (subst sint_eq_uint_small) simp_all
  have hw: "unat (h * ?W) = unat h * unat ?W" by (rule unat_mult_small) (use idx small in simp)
  then have i: "unat (w + h * ?W) = unat w + unat h * unat ?W"
    by (subst unat_plus_small) (use idx small in simp_all)
  then show "unat (w + h * ?W) < k" using idx by simp
  have cn: "unat c * k + (unat w + unat h * unat ?W) < n * k" by (rule class_index_less[OF c(1) idx])
  have cg: "unat (c * (?W * ?H)) = unat c * k" unfolding gs[symmetric]
    by (rule unat_mult_small) (use cn small gs in simp)
  show "unat (c * (?W * ?H) + (w + h * ?W)) < n * k"
    by (subst unat_plus_small) (use cg i cn small in simp_all)
  have "4 * unat c * unat ?H * unat ?W = 4 * (unat c * k)" by (simp add: k_def ac_simps)
  then have all: "4 * unat c * unat ?H * unat ?W < 2 ^ 31" using k cn by linarith
  have "1 \<le> unat ?W" using c(2) by simp
  then have part: "4 * unat c * unat ?H < 2 ^ 31" using all
    by (metis le_less_trans mult.right_neutral mult_le_mono2)
  have four: "unat (ucast c * 4 :: u64) = 4 * unat c"
    by (subst unat_mult_small) (use unat_u32_less[of c] in simp_all)
  have "unat (ucast c * 4 * ucast ?H :: u64) = 4 * unat c * unat ?H"
    by (subst unat_mult_small) (use four part in simp_all)
  then have "unat (ucast c * 4 * ucast ?H * ucast ?W :: u64) = 4 * unat c * unat ?H * unat ?W"
    by (subst unat_mult_small) (use all in simp_all)
  then show "unat (ucast c * 4 * ucast (dims_h (g_bbox g)) * ucast (dims_w (g_bbox g)) :: u64) = 4 * unat c * k"
    by (simp add: b k_def ac_simps)
qed

lemma read_float_plane:
  assumes "x = int p" "y = int q" "i = int j" "p + 4 * q \<le> length buf" "j < q" "m \<in> {0, 1, 2, 3}"
  shows "\<exists>v. read_float buf (x + y * m + i) = Some v"
  by (rule read_float_ok) (use assms in auto)

text \<open>With layers of this shape no read is out of bounds.\<close>

lemma parse_cell_defined:
  assumes "grid_shape n g" "unat c < n" "unat w < unat (dims_w (g_cov g))" "unat h < unat (dims_h (g_cov g))"
    and "unat c < length thr"
  shows "parse_cell g net thr (c, h, w) \<noteq> None"
proof -
  let ?k = "unat (dims_w (g_cov g)) * unat (dims_h (g_cov g))"
  let ?G = "dims_w (g_cov g) * dims_h (g_cov g)" and ?i = "w + h * dims_w (g_cov g)"
  let ?x1 = "ucast c * 4 * ucast (dims_h (g_bbox g)) * ucast (dims_w (g_bbox g)) :: u64"
  note off = parse_cell_offsets[OF assms(1-4)]
  have len: "n * ?k \<le> length (g_coverage g)" "4 * (n * ?k) \<le> length (g_bboxes g)"
    using assms(1) unfolding grid_shape_def Let_def by blast+
  have u: "uint ?x1 = int (4 * unat c * ?k)" "uint ?i = int (unat ?i)"
    "uint (c * ?G + ?i) = int (unat (c * ?G + ?i))"
    using off(5) by (metis uint_nat)+
  have "Suc (unat c) * ?k \<le> n * ?k" using assms(2) by (intro mult_le_mono1) simp
  then have top: "4 * unat c * ?k + 4 * ?k \<le> length (g_bboxes g)" using len(2) by simp
  have "\<exists>v. read_float (g_coverage g) (uint (c * ?G + ?i)) = Some v"
    by (rule read_float_ok) (use off(4) len(1) u(3) in linarith)+
  moreover have "\<exists>v. read_float (g_bboxes g) (uint ?x1 + sint ?G * m + uint ?i) = Some v" if "m \<in> {0, 1, 2, 3}" for m
    by (rule read_float_plane[OF u(1) off(3) u(2) top off(1) that])
  from this[of 0] this[of 1] this[of 2] this[of 3]
  have "\<exists>v. read_float (g_bboxes g) (uint ?x1 + uint ?i) = Some v"
    "\<exists>v. read_float (g_bboxes g) (uint ?x1 + sint ?G + uint ?i) = Some v"
    "\<exists>v. read_float (g_bboxes g) (uint ?x1 + sint ?G + sint ?G + uint ?i) = Some v"
    "\<exists>v. read_float (g_bboxes g) (uint ?x1 + sint ?G + sint ?G + sint ?G + uint ?i) = Some v"
    by (simp_all add: algebra_simps)
  ultimately show ?thesis
    using assms(5) unfolding parse_cell_def Let_def prod.case by (clarsimp split: if_splits)
qed

lemma collect_defined: "\<forall>x\<in>set xs. f x \<noteq> None \<Longrightarrow> \<exists>ys. collect f xs = Some ys"
  by (induction xs) auto

lemma cells_range:
  assumes "(c, y, x) \<in> set (cells n h w)"
  shows "unat c < unat n \<and> unat y < unat h \<and> unat x < unat w"
proof -
  have "unat (of_nat i :: u32) < unat b" if "i < unat b" for i and b :: u32
    using that unat_u32_less[of b] by simp
  with assms show ?thesis by (auto simp: cells_def)
qed

text \<open>The layers the built-in parser finds, and the grid of them.\<close>

definition layers_ok ::
  "NvDsInferLayerInfo list \<Rightarrow> NvDsInferNetworkInfo \<Rightarrow> NvDsInferParseDetectionParams \<Rightarrow> bool" where
  "layers_ok layers net params \<longleftrightarrow>
     (case (find_layer ''cov'' layers, find_layer ''bbox'' layers) of
        (Some cov, Some bbox) \<Rightarrow>
          let cd = getDimsCHWFromDims (inferDims cov); bd = getDimsCHWFromDims (inferDims bbox)
          in dims_w bd \<noteq> 0 \<and> dims_h bd \<noteq> 0 \<and> NaN \<notin> set (layer_buffer bbox) \<and>
             grid_shape (unat (dims_c cd))
               \<lparr>g_coverage = layer_buffer cov, g_bboxes = layer_buffer bbox, g_cov = cd, g_bbox = bd,
                g_strideX = 0, g_strideY = 0\<rparr>
      | _ \<Rightarrow> False)"

text \<open>
  For layers whose buffers have the size their dimensions say and hold no NaN box, and
  thresholds for all the configured classes, the built-in parser reads inside of the buffers, and every
  object it returns belongs to a configured class, is not below the threshold of its class, and lies
  inside of the frame: its left and top edge are at least 0, its width and height are not negative,
  and its right and bottom edge are less than the size of the network input.
\<close>

lemma parse_boxes_in_frame:
  assumes "layers_ok layers net params" "net_ok net"
    and "length (perClassPreclusterThreshold params) = unat (numClassesConfigured params)"
  shows "\<exists>objs. parseBoundingBox layers net params = Some (Some objs) \<and>
    (\<forall>ob\<in>set objs. unat (classId ob) < unat (numClassesConfigured params) \<and>
       \<not> detectionConfidence ob < perClassPreclusterThreshold params ! unat (classId ob) \<and> in_frame net ob)"
proof -
  from assms(1) obtain cov bbox where find: "find_layer ''cov'' layers = Some cov" "find_layer ''bbox'' layers = Some bbox"
    by (auto simp: layers_ok_def split: option.splits)
  define cd where "cd = getDimsCHWFromDims (inferDims cov)"
  define bd where "bd = getDimsCHWFromDims (inferDims bbox)"
  have ok: "dims_w bd \<noteq> 0 \<and> dims_h bd \<noteq> 0 \<and> NaN \<notin> set (layer_buffer bbox) \<and>
      grid_shape (unat (dims_c cd)) \<lparr>g_coverage = layer_buffer cov, g_bboxes = layer_buffer bbox,
        g_cov = cd, g_bbox = bd, g_strideX = 0, g_strideY = 0\<rparr>"
    using assms(1) unfolding layers_ok_def find cd_def bd_def Let_def by simp
  then have bd: "dims_w bd \<noteq> 0" "dims_h bd \<noteq> 0" and nan: "NaN \<notin> set (layer_buffer bbox)" by blast+
  have shape: "grid_shape (unat (dims_c cd)) \<lparr>g_coverage = layer_buffer cov, g_bboxes = layer_buffer bbox,
      g_cov = cd, g_bbox = bd, g_strideX = sx, g_strideY = sy\<rparr>" for sx sy
    using ok by (simp add: grid_shape_def)
  obtain sx sy where s: "DIVIDE_AND_ROUND_UP (net_width net) (dims_w bd) = Some sx"
    "DIVIDE_AND_ROUND_UP (net_height net) (dims_h bd) = Some sy"
    using bd by (simp add: DIVIDE_AND_ROUND_UP_def)
  define g where "g = \<lparr>g_coverage = layer_buffer cov, g_bboxes = layer_buffer bbox, g_cov = cd, g_bbox = bd,
      g_strideX = sx, g_strideY = sy\<rparr>"
  define n where "n = min (dims_c cd) (numClassesConfigured params)"
  let ?f = "parse_cell g net (perClassPreclusterThreshold params)"
  let ?cells = "cells n (dims_h cd) (dims_w cd)"
  have n: "unat n \<le> unat (dims_c cd)" "unat n \<le> unat (numClassesConfigured params)"
    by (simp_all add: n_def min_def word_le_nat_alt)
  have parse: "parseBoundingBox layers net params = map_option Some (collect ?f ?cells)"
    by (simp add: parseBoundingBox_def find cd_def bd_def s[unfolded bd_def] g_def n_def Let_def)
  have "?f p \<noteq> None" if "p \<in> set ?cells" for p
  proof -
    obtain c y x where p: "p = (c, y, x)" by (cases p)
    from cells_range[OF that[unfolded p]] n assms(3) show ?thesis
      unfolding p by (intro parse_cell_defined[OF shape[of sx sy, folded g_def]]) (simp_all add: g_def)
  qed
  then obtain objs where objs: "collect ?f ?cells = Some objs" using collect_defined[of ?cells ?f] by blast
  have "unat (classId ob) < unat (numClassesConfigured params) \<and>
      \<not> detectionConfidence ob < perClassPreclusterThreshold params ! unat (classId ob) \<and> in_frame net ob"
    if "ob \<in> set objs" for ob
  proof -
    from collect_mem[OF objs that] obtain c y x where "?f (c, y, x) = Some (Some ob)" by (metis prod_cases3)
    from parse_cell_in_frame[OF this assms(2)] nan assms(3) show ?thesis by (simp add: g_def)
  qed
  with parse objs show ?thesis by simp
qed

definition sample_layers :: "NvDsInferLayerInfo list" where
  "sample_layers =
     [\<lparr>inferDims = [4, 1, 1], layerName = ''conv_bbox'', layer_buffer = [Fin (- 1), Fin (- 1), Fin 2, Fin 2]\<rparr>,
      \<lparr>inferDims = [1, 1, 1], layerName = ''conv_cov'', layer_buffer = [Fin (9 / 10)]\<rparr>]"

definition sample_net :: NvDsInferNetworkInfo where
  "sample_net = \<lparr>net_width = 100, net_height = 60\<rparr>"

definition sample_parse_params :: NvDsInferParseDetectionParams where
  "sample_parse_params = \<lparr>numClassesConfigured = 1, perClassPreclusterThreshold = [Fin (1 / 5)],
     perClassPostclusterThreshold = [Fin (2 / 5)]\<rparr>"

lemma sample_layers_found:
  "find_layer ''cov'' sample_layers = Some (sample_layers ! 1)"
  "find_layer ''bbox'' sample_layers = Some (sample_layers ! 0)"
  by (simp_all add: sample_layers_def has_substring_def upt_rec)

lemma sample_layers_ok: "layers_ok sample_layers sample_net sample_parse_params"
  unfolding layers_ok_def sample_layers_found
  by (simp add: sample_layers_def getDimsCHWFromDims_def grid_shape_def)

text \<open>The box is clipped at the lower edge of a 100 x 60 frame.\<close>

lemma parse_boxes_in_frame_witness:
  "parseBoundingBox sample_layers sample_net sample_parse_params = Some (Some
     [\<lparr>classId = 0, det_left = Fin (71 / 2), det_top = Fin (71 / 2), det_width = Fin 35, det_height = Fin (47 / 2),
       detectionConfidence = Fin (9 / 10)\<rparr>]) \<and> net_ok sample_net"
proof -
  have net: "net_ok sample_net" by (simp add: net_ok_def sample_net_def)
  have len: "length (perClassPreclusterThreshold sample_parse_params) = unat (numClassesConfigured sample_parse_params)"
    by (simp add: sample_parse_params_def)
  note result = parse_boxes_in_frame[OF sample_layers_ok net len]
  have "parseBoundingBox sample_layers sample_net sample_parse_params = Some (Some
     [\<lparr>classId = 0, det_left = Fin (71 / 2), det_top = Fin (71 / 2), det_width = Fin 35, det_height = Fin (47 / 2),
       detectionConfidence = Fin (9 / 10)\<rparr>])"
    unfolding parseBoundingBox_def sample_layers_found
    by (simp add: sample_layers_def sample_net_def sample_parse_params_def getDimsCHWFromDims_def
        DIVIDE_AND_ROUND_UP_def cells_def parse_cell_def read_float_def grid_center_def bboxNorm_def
        clip_def clip_high_def clip_low_def dbl_of_u32_def dbl_of_int_def zero_dbl_Fin Let_def)
  with result net show ?thesis by simp
qed

section \<open>The output of a frame\<close>

text \<open>What the initialisation establishes and every frame keeps.\<close>

definition det_ok :: "DetectPostprocessor \<Rightarrow> bool" where
  "det_ok p \<longleftrightarrow>
     length (m_PerClassDetectionParams p) = unat (m_NumDetectedClasses p) \<and>
     m_DetectionParams p = class_thresholds (m_NumDetectedClasses p) (m_PerClassDetectionParams p) \<and>
     length (m_PerClassObjectList p) = unat (m_NumDetectedClasses p)"

lemma length_vec_resize [simp]: "length (vec_resize d n xs) = n"
  by (simp add: vec_resize_def)

lemma init_rects_simps [simp]:
  "m_PerClassDetectionParams (init_rects L p) = m_PerClassDetectionParams p"
  "m_NumDetectedClasses (init_rects L p) = m_NumDetectedClasses p"
  "m_DetectionParams (init_rects L p) = m_DetectionParams p"
  "m_PerClassObjectList (init_rects L p) = m_PerClassObjectList p"
  "m_Labels (init_rects L p) = m_Labels p"
  by (simp_all add: init_rects_def)

lemma class_params_length: "class_params n arr = Some ps \<Longrightarrow> length ps = unat n"
  by (auto simp: class_params_def Let_def split: if_splits)

lemma init_dbscan_ok: "init_dbscan env p = (p', st) \<Longrightarrow> det_ok p' = det_ok p"
  by (auto simp: init_dbscan_def det_ok_def split: if_splits)

lemma Detect_initResource_ok:
  assumes "Detect_initResource L env ip p0 = Some (p, NVDSINFER_SUCCESS)"
  shows "det_ok p"
  using assms
  by (auto simp: Detect_initResource_def det_ok_def class_params_length Let_def init_dbscan_def
      split: prod.splits if_splits option.splits)

lemma those_map_Some: "(\<And>x. x \<in> set xs \<Longrightarrow> f x = Some (g x)) \<Longrightarrow> those (map f xs) = Some (map g xs)"
  by (induction xs) auto

lemma for_classes_Some:
  assumes "length ls = unat n" "length ps = unat n" "\<And>c. c < unat n \<Longrightarrow> f (ps ! c) (ls ! c) = Some (r c)"
  shows "for_classes n ps f ls = Some (map r [0..<unat n])"
  using assms those_map_Some[of "[0..<unat n]" "\<lambda>c. f (ps ! c) (ls ! c)" r] by (simp add: for_classes_def)

lemma distribute_Some:
  "\<forall>ob\<in>set obs. unat (classId ob) < length ls \<Longrightarrow>
   distribute obs ls = Some (map (\<lambda>c. ls ! c @ filter (\<lambda>ob. unat (classId ob) = c) obs) [0..<length ls])"
proof (induction obs arbitrary: ls)
  case Nil
  then show ?case by (simp add: map_nth)
next
  case (Cons ob obs)
  let ?c = "unat (classId ob)"
  have c: "?c < length ls" using Cons.prems by simp
  have "distribute (ob # obs) ls = distribute obs (ls[?c := ls ! ?c @ [ob]])" using c by (simp add: Let_def)
  also have "\<dots> = Some (map (\<lambda>i. ls[?c := ls ! ?c @ [ob]] ! i @ filter (\<lambda>ob. unat (classId ob) = i) obs)
      [0..<length ls])"
    using Cons.IH[of "ls[?c := ls ! ?c @ [ob]]"] Cons.prems by simp
  finally show ?case using c by (auto simp: nth_list_update)
qed

lemma collect_keep:
  "\<forall>x\<in>set xs. f x = Some (if P x then Some x else None) \<Longrightarrow> collect f xs = Some (filter P xs)"
  by (induction xs) auto

definition pre_kept :: "NvDsInferParseDetectionParams \<Rightarrow> 'a NvDsInferObjectDetectionInfo_scheme \<Rightarrow> bool" where
  "pre_kept params ob \<longleftrightarrow>
     classId ob < numClassesConfigured params \<and>
     \<not> detectionConfidence ob < perClassPreclusterThreshold params ! unat (classId ob)"

lemma preClusteringThreshold_Some:
  assumes "length (perClassPreclusterThreshold params) = unat (numClassesConfigured params)"
  shows "preClusteringThreshold params objs = Some (filter (pre_kept params) objs)"
  unfolding preClusteringThreshold_def using assms
  by (intro collect_keep) (auto simp: pre_keep_def pre_kept_def word_le_nat_alt word_less_nat_alt)

text \<open>The objects of one class in a list of classes.\<close>

lemma length_filter_concat:
  assumes "c < n" "\<And>i x. i < n \<Longrightarrow> x \<in> set (r i) \<Longrightarrow> P x \<longleftrightarrow> i = c"
  shows "length (filter P (concat (map r [0..<n]))) = length (r c)"
  using assms
proof (induction n)
  case (Suc n)
  have last: "filter P (r n) = (if n = c then r n else [])"
    using Suc.prems(2)[of n] by (auto simp: filter_empty_conv filter_id_conv)
  show ?case
  proof (cases "n = c")
    case True
    then have "\<not> P x" if "i < n" "x \<in> set (r i)" for i x using Suc.prems(2)[of i x] that by simp
    then have "filter P (concat (map r [0..<n])) = []" by (auto simp: filter_empty_conv)
    then show ?thesis using last True by simp
  next
    case False
    then have "length (filter P (concat (map r [0..<n]))) = length (r c)" using Suc by simp
    then show ?thesis using last False by simp
  qed
qed simp

text \<open>A frame changes nothing but the lists of objects.\<close>

definition same_config :: "DetectPostprocessor \<Rightarrow> DetectPostprocessor \<Rightarrow> bool" where
  "same_config p p' \<longleftrightarrow>
     p' = p\<lparr>m_ObjectList := m_ObjectList p', m_PerClassObjectList := m_PerClassObjectList p'\<rparr>"

text \<open>What the consumer of a frame may rely on.\<close>

definition frame_ok :: "DetectPostprocessor \<Rightarrow> NvDsInferObjectDetectionInfo list \<Rightarrow> NvDsInferDetectionOutput \<Rightarrow> bool" where
  "frame_ok p objs out \<longleftrightarrow>
     numObjects out = of_nat (length (out_objects out)) \<and>
     (\<forall>ob\<in>set (out_objects out).
        0 \<le> classIndex ob \<and> classIndex ob < int (unat (m_NumDetectedClasses p)) \<and>
        obj_label ob = class_label (m_Labels p) (nat (classIndex ob)) \<and>
        \<not> confidence ob < preClusterThreshold (m_PerClassDetectionParams p ! nat (classIndex ob)) \<and>
        (m_ClusterMode p = NVDSINFER_CLUSTER_NMS \<longrightarrow>
           postClusterThreshold (m_PerClassDetectionParams p ! nat (classIndex ob)) < confidence ob) \<and>
        (\<exists>d\<in>set objs. classIndex ob = sint (classId d) \<and> ob = make_object (classIndex ob) (obj_label ob) d)) \<and>
     (\<forall>c<unat (m_NumDetectedClasses p). 0 \<le> topK (m_PerClassDetectionParams p ! c) \<longrightarrow>
        length (filter (\<lambda>ob. classIndex ob = int c) (out_objects out)) \<le> nat (topK (m_PerClassDetectionParams p ! c)))"

abbreviation own_object :: "string list list \<Rightarrow> NvDsInferObjectDetectionInfo \<Rightarrow> NvDsInferObject" where
  "own_object labels ob \<equiv> make_object (sint (classId ob)) (class_label labels (unat (classId ob))) ob"

lemma make_object_simps [simp]:
  "classIndex (make_object c l ob) = c" "obj_label (make_object c l ob) = l"
  "confidence (make_object c l ob) = detectionConfidence ob"
  by (simp_all add: make_object_def)

lemma sint_small_class: "unat w < n \<Longrightarrow> n \<le> 2 ^ 31 \<Longrightarrow> sint w = int (unat w)" for w :: u32
  by (subst sint_eq_uint_small) (simp_all, metis less_le_trans of_nat_less_iff of_nat_numeral uint_nat)

lemma frame_from_classes:
  assumes ok: "det_ok p" "unat (m_NumDetectedClasses p) \<le> 2 ^ 31"
    and r: "\<And>c ob. c < unat (m_NumDetectedClasses p) \<Longrightarrow> ob \<in> set (r c) \<Longrightarrow>
        ob \<in> set objs \<and> pre_kept (m_DetectionParams p) ob \<and> unat (classId ob) = c \<and>
        (m_ClusterMode p = NVDSINFER_CLUSTER_NMS \<longrightarrow>
           postClusterThreshold (m_PerClassDetectionParams p ! c) < detectionConfidence ob)"
    and k: "\<And>c. c < unat (m_NumDetectedClasses p) \<Longrightarrow> 0 \<le> topK (m_PerClassDetectionParams p ! c) \<Longrightarrow>
        length (r c) \<le> nat (topK (m_PerClassDetectionParams p ! c))"
  shows "frame_ok p objs (make_output (map (own_object (m_Labels p)) (concat (map r [0..<unat (m_NumDetectedClasses p)]))))"
    (is "frame_ok p objs (make_output (map ?own ?obs))")
proof -
  let ?n = "unat (m_NumDetectedClasses p)"
  have each: "0 \<le> classIndex (?own d) \<and> classIndex (?own d) < int ?n \<and>
      obj_label (?own d) = class_label (m_Labels p) (nat (classIndex (?own d))) \<and>
      \<not> confidence (?own d) < preClusterThreshold (m_PerClassDetectionParams p ! nat (classIndex (?own d))) \<and>
      (m_ClusterMode p = NVDSINFER_CLUSTER_NMS \<longrightarrow>
         postClusterThreshold (m_PerClassDetectionParams p ! nat (classIndex (?own d))) < confidence (?own d)) \<and>
      (\<exists>e\<in>set objs. classIndex (?own d) = sint (classId e) \<and> ?own d = make_object (classIndex (?own d)) (obj_label (?own d)) e)"
    if d: "c < ?n" "d \<in> set (r c)" for c d
  proof -
    from r[OF d] have d': "d \<in> set objs" "pre_kept (m_DetectionParams p) d" "unat (classId d) = c"
      "m_ClusterMode p = NVDSINFER_CLUSTER_NMS \<longrightarrow>
         postClusterThreshold (m_PerClassDetectionParams p ! c) < detectionConfidence d" by auto
    have "sint (classId d) = int c" using sint_small_class[of "classId d" ?n] d(1) d'(3) ok(2) by simp
    moreover have "\<not> detectionConfidence d < preClusterThreshold (m_PerClassDetectionParams p ! c)"
      using d'(2,3) ok(1) d(1) by (simp add: pre_kept_def det_ok_def class_thresholds_def)
    moreover have "int c < int ?n" unfolding of_nat_less_iff by (rule d(1))
    ultimately show ?thesis
      unfolding make_object_simps d'(3) using d'(1,4) by (metis nat_int of_nat_0_le_iff)
  qed
  have count: "length (filter (\<lambda>ob. classIndex ob = int c) (map ?own ?obs)) = length (r c)" if "c < ?n" for c
  proof -
    have "length (filter (\<lambda>ob. classIndex ob = int c) (map ?own ?obs)) =
        length (filter (\<lambda>d. sint (classId d) = int c) ?obs)"
      by (simp add: filter_map o_def)
    also have "\<dots> = length (r c)"
    proof (rule length_filter_concat[OF that])
      show "(sint (classId d) = int c) = (i = c)" if "i < ?n" "d \<in> set (r i)" for i d
        using r[OF that] sint_small_class[of "classId d" ?n] that(1) ok(2) by auto
    qed
    finally show ?thesis .
  qed
  show ?thesis
    unfolding frame_ok_def make_output_def NvDsInferDetectionOutput.simps
    using each count k by fastforce
qed

text \<open>The lists of the classes after the split.\<close>

abbreviation class_list ::
  "'a NvDsInferObjectDetectionInfo_scheme list \<Rightarrow> nat \<Rightarrow> 'a NvDsInferObjectDetectionInfo_scheme list" where
  "class_list objs c \<equiv> filter (\<lambda>ob. unat (classId ob) = c) objs"

lemma distribute_classes:
  assumes "\<forall>ob\<in>set objs. unat (classId ob) < length ls"
  shows "distribute objs (map (\<lambda>_. []) ls) = Some (map (class_list objs) [0..<length ls])"
  using distribute_Some[of objs "map (\<lambda>_. []) ls"] assms by (simp cong: map_cong)

lemma pre_kept_class: "pre_kept (class_thresholds n ps) ob \<Longrightarrow> unat (classId ob) < unat n"
  by (simp add: pre_kept_def class_thresholds_def word_less_nat_alt)

lemma nms_class_result:
  assumes "NaN \<notin> detectionConfidence ` set objs"
  shows "\<exists>r. nms_class p objs = Some r \<and> set r \<subseteq> set objs \<and>
    (\<forall>ob\<in>set r. postClusterThreshold p < detectionConfidence ob) \<and>
    (0 \<le> topK p \<longrightarrow> length r \<le> nat (topK p))"
  by (rule nms_class_parts[OF assms, of p]) (auto dest: in_set_takeD)

lemma nms_object_own:
  assumes "length labels < 2 ^ 31" "unat (classId ob) < 2 ^ 31"
  shows "nms_object labels ob = Some (own_object labels ob)"
proof -
  have len: "sint (of_nat (length labels) :: u32) = int (length labels)"
    using assms(1) by (subst sint_eq_uint_small) (simp_all add: uint_nat)
  have cls: "sint (classId ob) = int (unat (classId ob))"
    using assms(2) by (intro sint_small_class[of _ "2 ^ 31"]) simp_all
  show ?thesis
    by (simp only: nms_object_def Let_def len cls of_nat_less_iff nat_int)
      (simp add: class_label_def)
qed

lemma clusterAndFillDetectionOutputNMS_frame:
  assumes ok: "det_ok p" "m_NumDetectedClasses p \<noteq> 0" "unat (m_NumDetectedClasses p) \<le> 2 ^ 31"
      "length (m_Labels p) < 2 ^ 31"
    and ls: "m_PerClassObjectList p = map (class_list kept) [0..<unat (m_NumDetectedClasses p)]"
    and kept: "\<forall>ob\<in>set kept. ob \<in> set objs \<and> pre_kept (m_DetectionParams p) ob"
      "NaN \<notin> detectionConfidence ` set kept"
  shows "\<exists>out. clusterAndFillDetectionOutputNMS p = Some out \<and> frame_ok p objs out"
proof -
  let ?n = "unat (m_NumDetectedClasses p)" and ?ps = "m_PerClassDetectionParams p"
  have "\<exists>r. nms_class (?ps ! c) (class_list kept c) = Some r \<and> set r \<subseteq> set (class_list kept c) \<and>
      (\<forall>ob\<in>set r. postClusterThreshold (?ps ! c) < detectionConfidence ob) \<and>
      (0 \<le> topK (?ps ! c) \<longrightarrow> length r \<le> nat (topK (?ps ! c)))" for c
    using kept(2) by (intro nms_class_result) auto
  then obtain r where r: "\<And>c. nms_class (?ps ! c) (class_list kept c) = Some (r c)"
    "\<And>c. set (r c) \<subseteq> set (class_list kept c)"
    "\<And>c ob. ob \<in> set (r c) \<Longrightarrow> postClusterThreshold (?ps ! c) < detectionConfidence ob"
    "\<And>c. 0 \<le> topK (?ps ! c) \<Longrightarrow> length (r c) \<le> nat (topK (?ps ! c))" by metis
  have "for_classes (m_NumDetectedClasses p) ?ps nms_class (m_PerClassObjectList p) = Some (map r [0..<?n])"
    by (rule for_classes_Some) (use ok(1) r(1) in \<open>simp_all add: ls det_ok_def\<close>)
  moreover have "those (map (nms_object (m_Labels p)) (concat (map r [0..<?n]))) =
      Some (map (own_object (m_Labels p)) (concat (map r [0..<?n])))"
  proof (intro those_map_Some nms_object_own[OF ok(4)])
    fix ob assume "ob \<in> set (concat (map r [0..<?n]))"
    then obtain c where "c < ?n" "ob \<in> set (r c)" by auto
    then have "unat (classId ob) < ?n" using r(2)[of c] by auto
    then show "unat (classId ob) < 2 ^ 31" using ok(3) by simp
  qed
  moreover have "m_PerClassObjectList p \<noteq> []" using ok(2) by (simp add: ls unat_eq_zero)
  ultimately have "clusterAndFillDetectionOutputNMS p =
      Some (make_output (map (own_object (m_Labels p)) (concat (map r [0..<?n]))))"
    by (simp add: clusterAndFillDetectionOutputNMS_def)
  moreover have "frame_ok p objs (make_output (map (own_object (m_Labels p)) (concat (map r [0..<?n]))))"
    by (rule frame_from_classes[OF ok(1,3)]) (use r(2-4) kept(1) in fastforce)+
  ultimately show ?thesis by blast
qed

lemma filterTopKOutputs_result:
  assumes "NaN \<notin> detectionConfidence ` set objs"
  shows "\<exists>r. filterTopKOutputs k objs = Some r \<and> set r \<subseteq> set objs \<and> (0 \<le> k \<longrightarrow> length r \<le> nat k)"
  using filterTopKOutputs_no_NaN[OF assms, of k] filterTopKOutputs_subset[of k objs] filterTopKOutputs_length[of k objs]
  by blast

lemma fillUnclusteredOutput_frame:
  assumes ok: "det_ok p" "unat (m_NumDetectedClasses p) \<le> 2 ^ 31" "m_ClusterMode p = NVDSINFER_CLUSTER_NONE"
    and ls: "m_PerClassObjectList p = map (\<lambda>_. []) ls" "length ls = unat (m_NumDetectedClasses p)"
    and kept: "\<forall>ob\<in>set (m_ObjectList p). ob \<in> set objs \<and> pre_kept (m_DetectionParams p) ob"
      "NaN \<notin> detectionConfidence ` set (m_ObjectList p)"
  shows "\<exists>p' out. fillUnclusteredOutput p = Some (p', out) \<and> frame_ok p objs out \<and> det_ok p' \<and> same_config p p'"
proof -
  let ?n = "unat (m_NumDetectedClasses p)" and ?ps = "m_PerClassDetectionParams p" and ?kept = "m_ObjectList p"
  have "\<exists>r. filterTopKOutputs (topK (?ps ! c)) (class_list ?kept c) = Some r \<and> set r \<subseteq> set (class_list ?kept c) \<and>
      (0 \<le> topK (?ps ! c) \<longrightarrow> length r \<le> nat (topK (?ps ! c)))" for c
    using kept(2) by (intro filterTopKOutputs_result) auto
  then obtain r where r: "\<And>c. filterTopKOutputs (topK (?ps ! c)) (class_list ?kept c) = Some (r c)"
    "\<And>c. set (r c) \<subseteq> set (class_list ?kept c)"
    "\<And>c. 0 \<le> topK (?ps ! c) \<Longrightarrow> length (r c) \<le> nat (topK (?ps ! c))" by metis
  have "\<forall>ob\<in>set ?kept. unat (classId ob) < length ls"
    using kept(1) ok(1) ls(2) by (auto simp: det_ok_def dest: pre_kept_class)
  then have d: "distribute ?kept (m_PerClassObjectList p) = Some (map (class_list ?kept) [0..<?n])"
    unfolding ls(1) by (simp add: distribute_classes ls(2))
  have f: "for_classes (m_NumDetectedClasses p) ?ps (\<lambda>q. filterTopKOutputs (topK q)) (map (class_list ?kept) [0..<?n])
      = Some (map r [0..<?n])"
    by (rule for_classes_Some) (use ok(1) r(1) in \<open>simp_all add: det_ok_def\<close>)
  let ?p' = "set_class_lists (map r [0..<?n]) (p\<lparr>m_PerClassObjectList := map (class_list ?kept) [0..<?n]\<rparr>)"
  have "fillUnclusteredOutput p = Some (?p', make_output (map (own_object (m_Labels p)) (concat (map r [0..<?n]))))"
    unfolding fillUnclusteredOutput_def d f option.case by simp
  moreover have "frame_ok p objs (make_output (map (own_object (m_Labels p)) (concat (map r [0..<?n]))))"
    by (rule frame_from_classes[OF ok(1,2)]) (use r(2,3) kept(1) ok(3) in fastforce)+
  moreover have "det_ok ?p'" using ok(1) by (simp add: det_ok_def set_class_lists_def)
  moreover have "same_config p ?p'" by (simp add: same_config_def set_class_lists_def)
  ultimately show ?thesis by blast
qed

lemma fill_output_result:
  assumes ok: "det_ok p" "m_NumDetectedClasses p \<noteq> 0" "unat (m_NumDetectedClasses p) \<le> 2 ^ 31"
      "length (m_Labels p) < 2 ^ 31"
    and mode: "m_ClusterMode p \<in> {NVDSINFER_CLUSTER_NMS, NVDSINFER_CLUSTER_NONE}"
    and parsed: "parse_objects L (clears_lists p) layers = Some (Inr objs)" "NaN \<notin> detectionConfidence ` set objs"
  shows "\<exists>p' out'. fillDetectionOutput L p layers out = Some (p', NVDSINFER_SUCCESS, Some out') \<and>
    frame_ok p objs out' \<and> det_ok p' \<and> same_config p p'"
proof -
  define kept where "kept = filter (pre_kept (m_DetectionParams p)) objs"
  let ?q = "\<lambda>ls. (clears_lists p)\<lparr>m_ObjectList := kept, m_PerClassObjectList := ls\<rparr>"
  let ?empty = "map (\<lambda>_. []) (m_PerClassObjectList p)"
  let ?split = "map (class_list kept) [0..<unat (m_NumDetectedClasses p)]"
  have keep: "\<forall>ob\<in>set kept. ob \<in> set objs \<and> pre_kept (m_DetectionParams p) ob"
    "NaN \<notin> detectionConfidence ` set kept" using parsed(2) by (auto simp: kept_def)
  have dp: "m_DetectionParams p = class_thresholds (m_NumDetectedClasses p) (m_PerClassDetectionParams p)"
    and len: "length (m_PerClassObjectList p) = unat (m_NumDetectedClasses p)"
    "length (m_PerClassDetectionParams p) = unat (m_NumDetectedClasses p)"
    using ok(1) by (simp_all add: det_ok_def)
  have pre: "preClusteringThreshold (m_DetectionParams p) objs = Some kept"
    unfolding kept_def by (rule preClusteringThreshold_Some) (simp add: dp class_thresholds_def len)
  have dist: "distribute kept ?empty = Some ?split"
    using distribute_classes[of kept "m_PerClassObjectList p"] keep(1) len by (auto simp: dp dest: pre_kept_class)
  have fr: "frame_ok (?q ls) objs o' = frame_ok p objs o'" for ls o' by (simp add: frame_ok_def clears_lists_def)
  from mode consider (nms) "m_ClusterMode p = NVDSINFER_CLUSTER_NMS" | (none) "m_ClusterMode p = NVDSINFER_CLUSTER_NONE"
    by blast
  then show ?thesis
  proof cases
    case nms
    have "same_config p (?q ?split)" by (simp add: same_config_def clears_lists_def)
    moreover have "det_ok (?q ?split)" using ok(1) by (simp add: det_ok_def clears_lists_def)
    moreover from this obtain out' where "clusterAndFillDetectionOutputNMS (?q ?split) = Some out'"
      "frame_ok (?q ?split) objs out'"
      using clusterAndFillDetectionOutputNMS_frame[of "?q ?split" kept objs] ok(2-4) keep
      by (auto simp: clears_lists_def)
    ultimately show ?thesis
      using dist pre parsed(1) nms
      by (intro exI[of _ "?q ?split"] exI[of _ out'])
        (simp add: fillDetectionOutput_def splits_classes_def cluster_and_fill_def fr Let_def, simp add: clears_lists_def splits_classes_def cluster_and_fill_def)
  next
    case none
    have "det_ok (?q ?empty)" using ok(1) by (simp add: det_ok_def clears_lists_def)
    from fillUnclusteredOutput_frame[OF this, of "m_PerClassObjectList p" objs] ok(3) keep none len
    obtain p' out' where "fillUnclusteredOutput (?q ?empty) = Some (p', out')" "frame_ok (?q ?empty) objs out'" "det_ok p'"
      "same_config (?q ?empty) p'"
      by (auto simp: clears_lists_def)
    moreover from this(4) have "same_config p p'" by (simp add: same_config_def clears_lists_def)
    ultimately show ?thesis
      using pre parsed(1) none
      by (intro exI[of _ p'] exI[of _ out'])
        (simp add: fillDetectionOutput_def splits_classes_def cluster_and_fill_def fr Let_def, simp add: clears_lists_def splits_classes_def cluster_and_fill_def)
  qed
qed

text \<open>
  Property C29. For an initialised post-processor with suppression or without clustering, a frame whose
  layers are parsed into objects without a NaN confidence always succeeds. Every object written is one
  of the parsed objects, its class is a configured one, its label is the label of that class, its
  confidence is not below the pre-cluster threshold of the class and, with suppression, above its
  post-cluster threshold; a class with topK has at most that many objects; the object count is the
  length of the array, and the post-processor is ready for the next frame.
\<close>

theorem fill_output_contract:
  assumes ok: "det_ok p" "m_NumDetectedClasses p \<noteq> 0" "unat (m_NumDetectedClasses p) \<le> 2 ^ 31"
      "length (m_Labels p) < 2 ^ 31"
    and mode: "m_ClusterMode p \<in> {NVDSINFER_CLUSTER_NMS, NVDSINFER_CLUSTER_NONE}"
    and parsed: "parse_objects L (clears_lists p) layers = Some (Inr objs)" "NaN \<notin> detectionConfidence ` set objs"
  shows "\<exists>p' out'. fillDetectionOutput L p layers out = Some (p', NVDSINFER_SUCCESS, Some out') \<and>
    frame_ok p objs out' \<and> det_ok p'"
  using fill_output_result[OF assms, of out] by blast

definition sample_detector :: DetectPostprocessor where
  "sample_detector = \<lparr>m_ClusterMode = NVDSINFER_CLUSTER_NMS, m_NumDetectedClasses = 1,
     m_PerClassDetectionParams = [sample_params], m_DetectionParams = sample_parse_params, m_ObjectList = [],
     m_PerClassCvRectList = [], m_PerClassObjectList = [[]], m_Labels = [[''car'']], m_NetworkInfo = sample_net,
     m_CustomBBoxParseFunc = True, m_DBScanHandle = False\<rparr>"

definition sample_libs :: "NvDsInferObjectDetectionInfo list option \<Rightarrow> detect_libs" where
  "sample_libs custom = \<lparr>custom_bbox_parse = \<lambda>_ _ _. custom, dbscan_cluster = \<lambda>_ obs. (obs, length obs),
     dbscan_hybrid = \<lambda>_ obs. (obs, length obs), group_rectangles = \<lambda>_ _ rs. rs, float_to_int = \<lambda>_. 0,
     with_opencv = False\<rparr>"

lemma sample_detector_ok: "det_ok sample_detector"
  by (simp add: det_ok_def sample_detector_def class_thresholds_def sample_parse_params_def sample_params_def)

text \<open>Two overlapping cars and an object of a class that is not configured.\<close>

theorem fill_output_contract_witness:
  "\<exists>p'. fillDetectionOutput (sample_libs (Some [sample_box 0 0 (9/10), sample_box 0 1 (1/2), sample_box 7 0 1]))
     sample_detector [] None =
     Some (p', NVDSINFER_SUCCESS, Some (make_output [make_object 0 (Some ''car'') (sample_box 0 0 (9/10))]))"
proof -
  let ?objs = "[sample_box 0 0 (9/10), sample_box 0 1 (1/2), sample_box 7 0 1]"
  let ?L = "sample_libs (Some ?objs)"
  have p: "parse_objects ?L (clears_lists sample_detector) [] = Some (Inr ?objs)"
    by (simp add: parse_objects_def clears_lists_def sample_detector_def sample_libs_def)
  have "m_NumDetectedClasses sample_detector \<noteq> 0" "unat (m_NumDetectedClasses sample_detector) \<le> 2 ^ 31"
    "length (m_Labels sample_detector) < 2 ^ 31"
    "m_ClusterMode sample_detector \<in> {NVDSINFER_CLUSTER_NMS, NVDSINFER_CLUSTER_NONE}"
    "NaN \<notin> detectionConfidence ` set ?objs" by (simp_all add: sample_detector_def)
  from fill_output_contract[OF sample_detector_ok this(1-4) p this(5), of None] obtain p' out' where
    eq: "fillDetectionOutput ?L sample_detector [] None = Some (p', NVDSINFER_SUCCESS, Some out')" by blast
  have pre: "preClusteringThreshold (m_DetectionParams sample_detector) ?objs =
      Some [sample_box 0 0 (9/10), sample_box 0 1 (1/2)]"
    by (simp add: preClusteringThreshold_def pre_keep_def sample_detector_def sample_parse_params_def)
  have nms: "nms_class sample_params [sample_box 0 0 (9/10), sample_box 0 1 (1/2)] = Some [sample_box 0 0 (9/10)]"
    by (simp add: nms_class_def stable_sort_desc_def weakly_ordered_def nonMaximumSuppression_def sample_iou
        overlap_def iou_rat_def sample_params_def filterTopKOutputs_def)
  let ?q = "(clears_lists sample_detector)\<lparr>m_ObjectList := [sample_box 0 0 (9/10), sample_box 0 1 (1/2)],
    m_PerClassObjectList := [[sample_box 0 0 (9/10), sample_box 0 1 (1/2)]]\<rparr>"
  have "clusterAndFillDetectionOutputNMS ?q = Some (make_output [make_object 0 (Some ''car'') (sample_box 0 0 (9/10))])"
    by (simp add: clusterAndFillDetectionOutputNMS_def for_classes_def clears_lists_def sample_detector_def nms
        nms_object_def class_label_def)
  moreover have "m_PerClassObjectList sample_detector = [[]]" "m_ClusterMode sample_detector = NVDSINFER_CLUSTER_NMS"
    by (simp_all add: sample_detector_def)
  ultimately have "map_option (snd \<circ> snd) (fillDetectionOutput ?L sample_detector [] None) =
      Some (Some (make_output [make_object 0 (Some ''car'') (sample_box 0 0 (9/10))]))"
    using pre by (simp add: fillDetectionOutput_def p Let_def)
      (simp add: clears_lists_def splits_classes_def cluster_and_fill_def)
  then show ?thesis by (simp add: eq)
qed

section \<open>A frame that cannot be parsed\<close>

text \<open>The operation returns the error and leaves the output memory as it was.\<close>

lemma fillDetectionOutput_failed:
  assumes "parse_objects L (clears_lists p) layers = Some (Inl e)"
  shows "fillDetectionOutput L p layers out = Some (clears_lists p, e, out)"
  using assms by (simp add: fillDetectionOutput_def)

text \<open>Without OpenCV, grouping of rectangles succeeds and writes nothing either.\<close>

lemma group_rectangles_unwritten:
  assumes "det_ok p" "m_ClusterMode p = NVDSINFER_CLUSTER_GROUP_RECTANGLES" "\<not> with_opencv L"
    and "parse_objects L (clears_lists p) layers = Some (Inr objs)"
  shows "\<exists>p'. fillDetectionOutput L p layers out = Some (p', NVDSINFER_SUCCESS, out)"
proof -
  let ?kept = "filter (pre_kept (m_DetectionParams p)) objs"
  have dp: "m_DetectionParams p = class_thresholds (m_NumDetectedClasses p) (m_PerClassDetectionParams p)"
    and len: "length (m_PerClassObjectList p) = unat (m_NumDetectedClasses p)"
    "length (m_PerClassDetectionParams p) = unat (m_NumDetectedClasses p)"
    using assms(1) by (simp_all add: det_ok_def)
  have "preClusteringThreshold (m_DetectionParams p) objs = Some ?kept"
    by (rule preClusteringThreshold_Some) (simp add: dp class_thresholds_def len)
  moreover have "distribute ?kept (map (\<lambda>_. []) (m_PerClassObjectList p)) =
      Some (map (class_list ?kept) [0..<unat (m_NumDetectedClasses p)])"
    using distribute_classes[of ?kept "m_PerClassObjectList p"] len by (auto simp: dp dest: pre_kept_class)
  ultimately show ?thesis
    using assms(2-4)
    by (simp add: fillDetectionOutput_def Let_def) (simp add: clears_lists_def splits_classes_def cluster_and_fill_def)
qed

end
