(* ===== verification/InferPostProps.thy ===== *)
theory InferPostProps
  imports FrameParser DetectContract
begin

text \<open>
  Properties of the classifier, the segmentation and the handling of a frame: the most probable class
  is chosen and the first one of equal classes, the class map covers every pixel, the labels file is
  read back, and a parser that fails is reported as a success with an uninitialised output.
\<close>

section \<open>The scan over the classes\<close>

lemma scan_best_append:
  "scan_best thr prob (xs @ ys) m b = Option.bind (scan_best thr prob xs m b) (\<lambda>(b', m'). scan_best thr prob ys m' b')"
  by (induction thr prob xs m b rule: scan_best.induct) (auto split: option.splits)

definition first_best :: "dbl \<Rightarrow> (nat \<Rightarrow> dbl) \<Rightarrow> nat \<Rightarrow> dbl \<Rightarrow> nat option \<Rightarrow> bool" where
  "first_best thr p n m best \<longleftrightarrow>
     (case best of
        None \<Rightarrow> \<forall>c<n. \<not> (thr < p c \<and> m < p c)
      | Some k \<Rightarrow> k < n \<and> thr < p k \<and> m < p k \<and> (\<forall>c<n. \<not> p k < p c) \<and> (\<forall>c<k. \<not> p k \<le> p c))"

lemma dless_le_trans: "a < b \<Longrightarrow> b \<le> c \<Longrightarrow> a < c" for a b c :: dbl
  by (cases a; cases b; cases c) (auto simp: dbl_class_defs)

lemma dless_not_le: "a < b \<Longrightarrow> \<not> b \<le> a" for a b :: dbl
  by (cases a; cases b) (auto simp: dbl_class_defs)

lemma dless_asym: "a < b \<Longrightarrow> \<not> b < a" for a b :: dbl
  by (cases a; cases b) (auto simp: dbl_class_defs)

lemma scan_best_step:
  assumes "first_best thr p n start b" "M = (case b of None \<Rightarrow> start | Some k \<Rightarrow> p k)"
  shows "first_best thr p (Suc n) start (if thr < p n \<and> M < p n then Some n else b)"
proof (cases b)
  case None
  then show ?thesis
    using assms by (auto simp: first_best_def less_Suc_eq dest: dless_le_trans dless_trans)
next
  case (Some k)
  then have k: "k < n" "thr < p k" "start < p k" "\<forall>c<n. \<not> p k < p c" "\<forall>c<k. \<not> p k \<le> p c" and M: "M = p k"
    using assms by (auto simp: first_best_def)
  show ?thesis
  proof (cases "thr < p n \<and> p k < p n")
    case True
    then have "start < p n" using k(3) dless_trans by blast
    moreover have "\<not> p n < p c" "\<not> p n \<le> p c" if "c < n" for c
      using True k(4) that dless_trans[of "p k" "p n" "p c"] dless_le_trans[of "p k" "p n" "p c"] by auto
    ultimately show ?thesis using True by (auto simp: first_best_def M less_Suc_eq)
  next
    case False
    then have "\<not> p k < p n" using k(2) dless_trans by blast
    with False k show ?thesis by (auto simp: first_best_def M Some less_Suc_eq)
  qed
qed

lemma scan_best_first:
  assumes "\<And>c. c < n \<Longrightarrow> prob c = Some (p c)"
  shows "\<exists>b. scan_best thr prob [0..<n] start None = Some (b, case b of None \<Rightarrow> start | Some k \<Rightarrow> p k) \<and>
    first_best thr p n start b"
  using assms
proof (induction n)
  case 0
  then show ?case by (simp add: first_best_def)
next
  case (Suc n)
  from Suc.IH[OF Suc.prems] obtain b where
    b: "scan_best thr prob [0..<n] start None = Some (b, case b of None \<Rightarrow> start | Some k \<Rightarrow> p k)" "first_best thr p n start b"
    by auto
  let ?M = "case b of None \<Rightarrow> start | Some k \<Rightarrow> p k"
  have "scan_best thr prob [0..<Suc n] start None =
      Some (if thr < p n \<and> ?M < p n then (Some n, p n) else (b, ?M))"
    using Suc.prems[of n] b(1) by (simp add: scan_best_append)
  then show ?case using scan_best_step[OF b(2) refl] by (auto split: if_splits)
qed

section \<open>Classification\<close>

definition layer_classes :: "NvDsInferLayerInfo \<Rightarrow> nat" where
  "layer_classes l = unat (dims_c (getDimsCHWFromDims (inferDims l)))"

definition has_attribute :: "dbl \<Rightarrow> NvDsInferLayerInfo \<Rightarrow> bool" where
  "has_attribute thr l \<longleftrightarrow> (\<exists>c<layer_classes l. thr < layer_buffer l ! c \<and> 0 < layer_buffer l ! c)"

text \<open>The attribute of a layer: the first of its most probable classes.\<close>

definition attribute_of :: "ClassifyPostprocessor \<Rightarrow> NvDsInferAttribute \<Rightarrow> bool" where
  "attribute_of p a \<longleftrightarrow>
     (let l = m_OutputLayerInfo p ! unat (attributeIndex a); q = (!) (layer_buffer l); k = unat (attributeValue a)
      in k < layer_classes l \<and> attributeConfidence a = q k \<and> m_ClassifierThreshold p < q k \<and> 0 < q k \<and>
         (\<forall>c<layer_classes l. \<not> q k < q c) \<and> (\<forall>c<k. \<not> q k \<le> q c) \<and>
         attributeLabel a = attribute_label (classify_Labels p) (attributeIndex a) (attributeValue a))"

lemma parse_layer_result:
  assumes "layer_classes layer \<le> length (layer_buffer layer)" "l < 2 ^ 32" "m_OutputLayerInfo p ! l = layer"
  shows "\<exists>a. parse_layer p l layer = Some a \<and>
    (case a of None \<Rightarrow> \<not> has_attribute (m_ClassifierThreshold p) layer
     | Some w \<Rightarrow> has_attribute (m_ClassifierThreshold p) layer \<and> unat (attributeIndex w) = l \<and> attribute_of p w)"
proof -
  let ?n = "layer_classes layer" and ?q = "(!) (layer_buffer layer)"
  have "read_float (layer_buffer layer) (int c) = Some (?q c)" if "c < ?n" for c
    using that assms(1) by (simp add: read_float_def)
  from scan_best_first[where n = ?n and p = ?q and prob = "\<lambda>c. read_float (layer_buffer layer) (int c)" and
      thr = "m_ClassifierThreshold p" and start = 0, OF this] obtain b where
    b: "scan_best (m_ClassifierThreshold p) (\<lambda>c. read_float (layer_buffer layer) (int c)) [0..<?n] 0 None =
        Some (b, case b of None \<Rightarrow> 0 | Some k \<Rightarrow> ?q k)" "first_best (m_ClassifierThreshold p) ?q ?n 0 b"
    by blast
  show ?thesis
  proof (cases b)
    case None
    then show ?thesis using b
      by (auto simp: parse_layer_def layer_classes_def has_attribute_def first_best_def)
  next
    case (Some k)
    then have k: "k < ?n" "m_ClassifierThreshold p < ?q k" "0 < ?q k" "\<forall>c<?n. \<not> ?q k < ?q c" "\<forall>c<k. \<not> ?q k \<le> ?q c"
      using b(2) by (simp_all add: first_best_def)
    have "unat (of_nat k :: u32) = k"
      using k(1) unat_u32_less[of "dims_c (getDimsCHWFromDims (inferDims layer))"]
      by (intro unat_of_nat_u32) (simp add: layer_classes_def)
    then show ?thesis
      using b(1) Some k assms(2,3)
      by (auto simp: parse_layer_def layer_classes_def has_attribute_def attribute_of_def Let_def)
  qed
qed

lemma collect_indices:
  assumes "\<And>x. x \<in> set xs \<Longrightarrow> \<exists>a. f x = Some a \<and> (case a of None \<Rightarrow> \<not> P x | Some y \<Rightarrow> P x \<and> g y = x \<and> Q y)"
  shows "\<exists>ys. collect f xs = Some ys \<and> map g ys = filter P xs \<and> (\<forall>y\<in>set ys. Q y)"
  using assms
proof (induction xs)
  case (Cons x xs)
  from Cons.prems[of x] obtain a where a: "f x = Some a"
    "case a of None \<Rightarrow> \<not> P x | Some y \<Rightarrow> P x \<and> g y = x \<and> Q y" by auto
  from Cons obtain ys where "collect f xs = Some ys" "map g ys = filter P xs" "\<forall>y\<in>set ys. Q y" by auto
  then show ?case using a by (cases a) auto
qed simp

lemma classify_result:
  assumes "\<forall>l\<in>set (m_OutputLayerInfo p). layer_classes l \<le> length (layer_buffer l)"
    and "length (m_OutputLayerInfo p) < 2 ^ 32"
  shows "\<exists>as. parseAttributesFromSoftmaxLayers p = Some (as, attr_text as) \<and>
    map (unat \<circ> attributeIndex) as =
      filter (\<lambda>l. has_attribute (m_ClassifierThreshold p) (m_OutputLayerInfo p ! l)) [0..<length (m_OutputLayerInfo p)] \<and>
    (\<forall>a\<in>set as. attribute_of p a)"
proof -
  have "\<exists>a. parse_layer p l (m_OutputLayerInfo p ! l) = Some a \<and>
      (case a of None \<Rightarrow> \<not> has_attribute (m_ClassifierThreshold p) (m_OutputLayerInfo p ! l)
       | Some w \<Rightarrow> has_attribute (m_ClassifierThreshold p) (m_OutputLayerInfo p ! l) \<and>
           (unat \<circ> attributeIndex) w = l \<and> attribute_of p w)"
    if "l \<in> set [0..<length (m_OutputLayerInfo p)]" for l
    unfolding o_apply using that assms by (intro parse_layer_result) simp_all
  then have "\<exists>as. collect (\<lambda>l. parse_layer p l (m_OutputLayerInfo p ! l)) [0..<length (m_OutputLayerInfo p)] = Some as \<and>
      map (unat \<circ> attributeIndex) as =
        filter (\<lambda>l. has_attribute (m_ClassifierThreshold p) (m_OutputLayerInfo p ! l)) [0..<length (m_OutputLayerInfo p)] \<and>
      (\<forall>a\<in>set as. attribute_of p a)"
    by (rule collect_indices)
  then obtain as where "collect (\<lambda>l. parse_layer p l (m_OutputLayerInfo p ! l)) [0..<length (m_OutputLayerInfo p)] = Some as"
    "map (unat \<circ> attributeIndex) as =
      filter (\<lambda>l. has_attribute (m_ClassifierThreshold p) (m_OutputLayerInfo p ! l)) [0..<length (m_OutputLayerInfo p)]"
    "\<forall>a\<in>set as. attribute_of p a" by blast
  then show ?thesis unfolding parseAttributesFromSoftmaxLayers_def by (intro exI[of _ as]) simp
qed

text \<open>
  Property C32. If every output layer holds a probability for each of its classes, the built-in
  classifier always succeeds and gives, in the order of the layers, exactly one attribute for every
  layer in which some class is above the threshold and above 0: the class of the highest probability,
  the first one if several have it, with its probability and the label of that layer and class.
\<close>

theorem classify_first_argmax:
  assumes "\<forall>l\<in>set (m_OutputLayerInfo p). layer_classes l \<le> length (layer_buffer l)"
    and "length (m_OutputLayerInfo p) < 2 ^ 32"
  shows "\<exists>as. parseAttributesFromSoftmaxLayers p = Some (as, attr_text as) \<and>
    map (unat \<circ> attributeIndex) as =
      filter (\<lambda>l. has_attribute (m_ClassifierThreshold p) (m_OutputLayerInfo p ! l)) [0..<length (m_OutputLayerInfo p)] \<and>
    (\<forall>a\<in>set as. attribute_of p a)"
  by (rule classify_result[OF assms])

definition sample_classifier :: ClassifyPostprocessor where
  "sample_classifier = \<lparr>m_ClassifierThreshold = Fin (3 / 10), classify_Labels = [[''red'', ''blue'', ''green'']],
     m_OutputLayerInfo =
       [\<lparr>inferDims = [3, 1, 1], layerName = ''color'', layer_buffer = [Fin (1 / 5), Fin (2 / 5), Fin (2 / 5)]\<rparr>,
        \<lparr>inferDims = [2, 1, 1], layerName = ''make'', layer_buffer = [Fin (1 / 10), NaN]\<rparr>],
     classify_NetworkInfo = sample_net, m_CustomClassifierParseFunc = False\<rparr>"

text \<open>The first of two equal probabilities is chosen; no class of the second layer reaches the threshold.\<close>

theorem classify_first_argmax_witness:
  "parseAttributesFromSoftmaxLayers sample_classifier =
     Some ([\<lparr>attributeIndex = 0, attributeValue = 1, attributeConfidence = Fin (2 / 5), attributeLabel = Some ''blue''\<rparr>],
       ''blue '')"
proof -
  have "\<forall>l\<in>set (m_OutputLayerInfo sample_classifier). layer_classes l \<le> length (layer_buffer l)"
    "length (m_OutputLayerInfo sample_classifier) < 2 ^ 32"
    by (simp_all add: sample_classifier_def layer_classes_def getDimsCHWFromDims_def)
  from classify_first_argmax[OF this]
  show ?thesis
    by (simp add: parseAttributesFromSoftmaxLayers_def sample_classifier_def parse_layer_def getDimsCHWFromDims_def
        read_float_def upt_rec attribute_label_def attr_text_def zero_dbl_Fin)
qed

section \<open>Segmentation\<close>

text \<open>The probability of class \<open>c\<close> at a pixel, in the order of the tensor.\<close>

definition seg_index :: "NvDsInferTensorOrder \<Rightarrow> nat \<Rightarrow> nat \<Rightarrow> nat \<Rightarrow> nat \<Rightarrow> nat \<Rightarrow> nat \<Rightarrow> nat" where
  "seg_index order n h w x y c =
     (if order = NvDsInferTensorOrder_kNHWC then n * (y * w + x) + c else c * w * h + y * w + x)"

text \<open>The class of a pixel: the first of the most probable ones above the threshold, or -1.\<close>

definition pixel_class :: "dbl \<Rightarrow> (nat \<Rightarrow> dbl) \<Rightarrow> nat \<Rightarrow> int \<Rightarrow> bool" where
  "pixel_class thr q n k \<longleftrightarrow>
     k = -1 \<and> (\<forall>c<n. \<not> (thr < q c \<and> Fin (- 1) < q c)) \<or>
     0 \<le> k \<and> nat k < n \<and> thr < q (nat k) \<and> (\<forall>c<n. \<not> q (nat k) < q c) \<and> (\<forall>c<nat k. \<not> q (nat k) \<le> q c)"

lemma seg_index_less:
  assumes "x < w" "y < h" "c < n"
  shows "seg_index order n h w x y c < n * (w * h)"
proof -
  have xy: "x + y * w < w * h" by (rule grid_index_less[OF assms(1,2)])
  show ?thesis
  proof (cases "order = NvDsInferTensorOrder_kNHWC")
    case True
    then show ?thesis
      using class_index_less[of "x + y * w" "w * h" c n] xy assms(3)
      by (simp add: seg_index_def algebra_simps)
  next
    case False
    then show ?thesis
      using class_index_less[of c n "x + y * w" "w * h"] xy assms(3)
      by (simp add: seg_index_def algebra_simps)
  qed
qed

lemma indAlongChannel_exact:
  assumes "unat x < unat (dims_w d)" "unat y < unat (dims_h d)" "unat c < unat (dims_c d)"
    and "unat (dims_c d) * (unat (dims_w d) * unat (dims_h d)) < 2 ^ 32"
  shows "unat (indAlongChannel order d x y c) =
    seg_index order (unat (dims_c d)) (unat (dims_h d)) (unat (dims_w d)) (unat x) (unat y) (unat c)"
proof -
  let ?i = "seg_index order (unat (dims_c d)) (unat (dims_h d)) (unat (dims_w d)) (unat x) (unat y) (unat c)"
  have "?i < 2 ^ 32" using seg_index_less[OF assms(1-3), of order] assms(4) by simp
  moreover have "of_nat ?i = indAlongChannel order d x y c"
    by (cases order) (simp_all add: seg_index_def indAlongChannel_def)
  ultimately show ?thesis by (metis unat_of_nat_u32)
qed

lemma segment_loop_result:
  assumes "\<forall>q\<in>set ps. pixel (snd q) (fst q) = Some (g q) \<and> idx q < length cmap"
    and "inj_on idx (set ps)" "\<And>q. idx q = unat (fst q * w + snd q)"
  shows "\<exists>cm. segment_loop pixel w ps cmap = Some cm \<and> length cm = length cmap \<and>
    (\<forall>q\<in>set ps. cm ! idx q = Some (g q)) \<and> (\<forall>i. i \<notin> idx ` set ps \<longrightarrow> cm ! i = cmap ! i)"
  using assms(1,2)
proof (induction ps arbitrary: cmap)
  case (Cons q ps)
  let ?cmap = "cmap[idx q := Some (g q)]"
  have step: "segment_loop pixel w (q # ps) cmap = segment_loop pixel w ps ?cmap"
    using Cons.prems(1) assms(3)[of q] by (cases q) simp
  have "\<forall>q\<in>set ps. pixel (snd q) (fst q) = Some (g q) \<and> idx q < length ?cmap" "inj_on idx (set ps)"
    using Cons.prems by (auto simp: inj_on_def)
  from Cons.IH[OF this] obtain cm where cm: "segment_loop pixel w ps ?cmap = Some cm" "length cm = length cmap"
    "\<forall>q\<in>set ps. cm ! idx q = Some (g q)" "\<forall>i. i \<notin> idx ` set ps \<longrightarrow> cm ! i = ?cmap ! i" by auto
  have "cm ! idx q = Some (g q)"
  proof (cases "q \<in> set ps")
    case False
    then have "idx q \<notin> idx ` set ps" using Cons.prems(2) by (auto simp: inj_on_def)
    then show ?thesis using cm(4) Cons.prems(1) by simp
  qed (use cm(3) in simp)
  then show ?case using cm step by (auto simp: image_iff)
qed simp

lemma set_pixels: "set (pixels h w) = {q. unat (fst q) < unat h \<and> unat (snd q) < unat w}"
proof -
  have *: "unat (of_nat i :: u32) = i" if "i < unat b" for i and b :: u32
    using that unat_u32_less[of b] by simp
  have "(y, x) \<in> set (pixels h w)" if "unat y < unat h" "unat x < unat w" for y x
  proof -
    have "set (pixels h w) = (\<lambda>q. (of_nat (fst q), of_nat (snd q))) ` ({..<unat h} \<times> {..<unat w})"
      by (force simp: pixels_def)
    then show ?thesis using that by (simp add: image_iff) (rule conjI, rule bexI[of _ "unat y"], simp, simp, rule bexI[of _ "unat x"], simp_all)
  qed
  then show ?thesis by (auto simp: pixels_def *)
qed

lemma pixel_index:
  fixes x y w h :: u32
  assumes "unat y < unat h" "unat x < unat w" "unat w * unat h < 2 ^ 32"
  shows "unat (y * w + x) = unat y * unat w + unat x" "unat y * unat w + unat x < unat w * unat h"
proof -
  show less: "unat y * unat w + unat x < unat w * unat h"
    using grid_index_less[OF assms(2,1)] by (simp add: add.commute)
  have "unat (y * w) = unat y * unat w" by (rule unat_mult_small) (use less assms(3) in simp)
  then show "unat (y * w + x) = unat y * unat w + unat x"
    by (subst unat_plus_small) (use less assms(3) in simp_all)
qed

lemma index_inj: "(y::nat) * w + x = y' * w + x' \<Longrightarrow> x < w \<Longrightarrow> x' < w \<Longrightarrow> y = y' \<and> x = x'"
  by (metis add.commute add_right_cancel div_mult_self3 div_less less_nat_zero_code plus_nat.add_0)

lemma segment_pixel_class:
  fixes d :: NvDsInferDimsCHW
  defines "n \<equiv> unat (dims_c d)" and "w \<equiv> unat (dims_w d)" and "h \<equiv> unat (dims_h d)"
  assumes "unat x < w" "unat y < h" "n * (w * h) \<le> length buf" "n * (w * h) < 2 ^ 31"
  shows "\<exists>k. segment_pixel p d buf x y = Some k \<and>
    pixel_class (m_SegmentationThreshold p)
      (\<lambda>c. buf ! seg_index (m_SegmentationOutputOrder p) n h w (unat x) (unat y) c) n k"
proof -
  let ?ord = "m_SegmentationOutputOrder p" and ?thr = "m_SegmentationThreshold p"
  let ?q = "\<lambda>c. buf ! seg_index ?ord n h w (unat x) (unat y) c"
  let ?read = "\<lambda>c. read_float buf (uint (indAlongChannel ?ord d x y (of_nat c)))"
  have c: "unat (of_nat c :: u32) = c" if "c < n" for c
    using that unat_u32_less[of "dims_c d"] by (intro unat_of_nat_u32) (simp add: n_def)
  have "?read c = Some (?q c)" if "c < n" for c
  proof -
    have "unat (indAlongChannel ?ord d x y (of_nat c)) = seg_index ?ord n h w (unat x) (unat y) c"
      using indAlongChannel_exact[of x d y "of_nat c" ?ord] assms c[OF that] that by simp
    moreover have "seg_index ?ord n h w (unat x) (unat y) c < length buf"
      using seg_index_less[OF assms(4,5) that, of ?ord] assms(6) by simp
    ultimately show ?thesis by (simp add: read_float_def uint_nat)
  qed
  from scan_best_first[where n = n and p = ?q and prob = ?read and thr = ?thr and start = "Fin (- 1)", OF this]
  obtain b where b: "scan_best ?thr ?read [0..<n] (Fin (- 1)) None =
      Some (b, case b of None \<Rightarrow> Fin (- 1) | Some k \<Rightarrow> ?q k)" "first_best ?thr ?q n (Fin (- 1)) b" by blast
  then show ?thesis
  proof (cases b)
    case None
    then show ?thesis using b by (simp add: segment_pixel_def pixel_class_def first_best_def flip: n_def)
  next
    case (Some k)
    then have k: "k < n" "?thr < ?q k" "\<forall>c<n. \<not> ?q k < ?q c" "\<forall>c<k. \<not> ?q k \<le> ?q c"
      using b(2) by (simp_all add: first_best_def)
    have "1 \<le> w * h" using assms(4,5) by (simp add: Suc_le_eq)
    then have "n \<le> n * (w * h)" by simp
    then have "n \<le> 2 ^ 31" using assms(7) by linarith
    then have "sint (of_nat k :: u32) = int k"
      using sint_small_class[of "of_nat k" n] c[OF k(1)] k(1) by simp
    then show ?thesis using b(1) k Some by (simp add: segment_pixel_def pixel_class_def flip: n_def)
  qed
qed

lemma segmentation_result:
  fixes layer :: NvDsInferLayerInfo and p :: SegmentPostprocessor
  defines "d \<equiv> seg_dims (m_SegmentationOutputOrder p) (inferDims layer)"
  defines "n \<equiv> unat (dims_c d)" and "w \<equiv> unat (dims_w d)" and "h \<equiv> unat (dims_h d)"
  assumes "n * (w * h) \<le> length (layer_buffer layer)" "n * (w * h) < 2 ^ 31" "w * h < 2 ^ 32"
  shows "\<exists>out. fillSegmentationOutput p (layer # rest) = Some (NVDSINFER_SUCCESS, out) \<and>
    seg_width out = dims_w d \<and> seg_height out = dims_h d \<and> seg_classes out = dims_c d \<and>
    length (class_map out) = w * h \<and>
    (\<forall>x<w. \<forall>y<h. \<exists>k. class_map out ! (y * w + x) = Some k \<and>
       pixel_class (m_SegmentationThreshold p)
         (\<lambda>c. layer_buffer layer ! seg_index (m_SegmentationOutputOrder p) n h w x y c) n k)"
proof -
  let ?pix = "segment_pixel p d (layer_buffer layer)" and ?ps = "pixels (dims_h d) (dims_w d)"
  let ?idx = "\<lambda>q. unat (fst q * dims_w d + snd q)"
  let ?P = "\<lambda>x y. pixel_class (m_SegmentationThreshold p)
      (\<lambda>c. layer_buffer layer ! seg_index (m_SegmentationOutputOrder p) n h w x y c) n"
  have "\<exists>k. ?pix (snd q) (fst q) = Some k \<and> ?P (unat (snd q)) (unat (fst q)) k" if "q \<in> set ?ps" for q
    using segment_pixel_class[of "snd q" d "fst q" "layer_buffer layer" p] that assms(5,6)
    by (simp add: set_pixels n_def w_def h_def)
  then obtain g where g: "\<And>q. q \<in> set ?ps \<Longrightarrow> ?pix (snd q) (fst q) = Some (g q) \<and> ?P (unat (snd q)) (unat (fst q)) (g q)"
    by metis
  have size_ok: "unat (dims_w d * dims_h d) = w * h"
    unfolding w_def h_def by (rule unat_mult_small) (use assms(7) in \<open>simp add: w_def h_def\<close>)
  have idx: "?idx q = unat (fst q) * w + unat (snd q) \<and> ?idx q < w * h" if "q \<in> set ?ps" for q
    using pixel_index[of "fst q" "dims_h d" "snd q" "dims_w d"] that assms(7)
    by (simp add: set_pixels w_def h_def)
  have inj: "inj_on ?idx (set ?ps)"
  proof (rule inj_onI)
    fix q q' assume q: "q \<in> set ?ps" "q' \<in> set ?ps" "?idx q = ?idx q'"
    then have "unat (fst q) * w + unat (snd q) = unat (fst q') * w + unat (snd q')" using idx by metis
    from index_inj[OF this] q(1,2) have "unat (fst q) = unat (fst q')" "unat (snd q) = unat (snd q')"
      by (simp_all add: set_pixels w_def)
    then show "q = q'" by (simp add: prod_eq_iff word_unat_eq_iff)
  qed
  have "\<forall>q\<in>set ?ps. ?pix (snd q) (fst q) = Some (g q) \<and> ?idx q < length (replicate (w * h) (None :: int option))"
  proof (intro ballI conjI)
    fix q assume q: "q \<in> set ?ps"
    show "?pix (snd q) (fst q) = Some (g q)" using g[OF q] by simp
    show "?idx q < length (replicate (w * h) (None :: int option))"
      unfolding length_replicate using idx[OF q] by blast
  qed
  from segment_loop_result[OF this inj refl] obtain cm where
    cm: "segment_loop ?pix (dims_w d) ?ps (replicate (w * h) None) = Some cm" "length cm = w * h"
      "\<forall>q\<in>set ?ps. cm ! ?idx q = Some (g q)" by auto
  have cells: "\<exists>k. cm ! (y * w + x) = Some k \<and> ?P x y k" if "x < w" "y < h" for x y
  proof -
    let ?q = "(of_nat y, of_nat x) :: u32 \<times> u32"
    have u: "unat (of_nat y :: u32) = y" "unat (of_nat x :: u32) = x"
      using that unat_u32_less[of "dims_h d"] unat_u32_less[of "dims_w d"] by (simp_all add: w_def h_def)
    have mem: "?q \<in> set ?ps" using that u by (simp add: set_pixels w_def h_def)
    from bspec[OF cm(3) mem] g[OF mem] idx[OF mem] show ?thesis by (auto simp: u)
  qed
  have "fillSegmentationOutput p (layer # rest) = Some (NVDSINFER_SUCCESS,
      \<lparr>seg_width = dims_w d, seg_height = dims_h d, seg_classes = dims_c d, class_map = cm,
        class_probability_map = layer_buffer layer\<rparr>)"
    unfolding fillSegmentationOutput_def list.case Let_def d_def[symmetric] size_ok cm(1) by simp
  then show ?thesis using cm(2) cells by simp
qed

text \<open>
  Property C31. If the first output layer holds the probabilities its dimensions announce, for planar and
  for interleaved tensors, the segmentation writes every cell of the class map: the cell of a pixel holds
  the first of the most probable classes above the threshold, or -1 when no class is above it.
\<close>

theorem segmentation_argmax:
  fixes layer :: NvDsInferLayerInfo and p :: SegmentPostprocessor
  defines "d \<equiv> seg_dims (m_SegmentationOutputOrder p) (inferDims layer)"
  defines "n \<equiv> unat (dims_c d)" and "w \<equiv> unat (dims_w d)" and "h \<equiv> unat (dims_h d)"
  assumes "n * (w * h) \<le> length (layer_buffer layer)" "n * (w * h) < 2 ^ 31" "w * h < 2 ^ 32"
  shows "\<exists>out. fillSegmentationOutput p (layer # rest) = Some (NVDSINFER_SUCCESS, out) \<and>
    seg_width out = dims_w d \<and> seg_height out = dims_h d \<and> seg_classes out = dims_c d \<and>
    length (class_map out) = w * h \<and>
    (\<forall>x<w. \<forall>y<h. \<exists>k. class_map out ! (y * w + x) = Some k \<and>
       pixel_class (m_SegmentationThreshold p)
         (\<lambda>c. layer_buffer layer ! seg_index (m_SegmentationOutputOrder p) n h w x y c) n k)"
  unfolding d_def n_def w_def h_def
  by (rule segmentation_result) (use assms in \<open>simp_all add: d_def n_def w_def h_def\<close>)

definition sample_segment :: SegmentPostprocessor where
  "sample_segment = \<lparr>m_SegmentationThreshold = Fin (1 / 2), m_SegmentationOutputOrder = NvDsInferTensorOrder_kNCHW,
     segment_Labels = []\<rparr>"

definition sample_seg_layer :: NvDsInferLayerInfo where
  "sample_seg_layer = \<lparr>inferDims = [2, 1, 3], layerName = ''seg'',
     layer_buffer = [Fin (1 / 5), Fin (9 / 10), Fin (1 / 10), Fin (4 / 5), Fin (1 / 10), Fin (2 / 5)]\<rparr>"

theorem segmentation_argmax_witness:
  "map_option (class_map \<circ> snd) (fillSegmentationOutput sample_segment [sample_seg_layer]) =
     Some [Some 1, Some 0, Some (- 1)]"
proof -
  have d: "seg_dims (m_SegmentationOutputOrder sample_segment) (inferDims sample_seg_layer) =
      \<lparr>dims_c = 2, dims_h = 1, dims_w = 3\<rparr>"
    by (simp add: sample_segment_def sample_seg_layer_def seg_dims_def getDimsCHWFromDims_def)
  have "\<exists>out. fillSegmentationOutput sample_segment [sample_seg_layer] = Some (NVDSINFER_SUCCESS, out)"
    by (rule exE[OF segmentation_argmax[of sample_segment sample_seg_layer "[]", unfolded d]])
      (simp_all add: sample_seg_layer_def)
  then show ?thesis
    unfolding fillSegmentationOutput_def list.case d Let_def
    by (simp add: sample_segment_def sample_seg_layer_def pixels_def segment_pixel_def read_float_def
        indAlongChannel_def upt_rec)
      (simp add: numeral_3_eq_3 numeral_2_eq_2)
qed

section \<open>Frames that are not parsed\<close>

text \<open>
  Property C36. When the layers of a frame cannot be parsed, the detector reports success for the frame
  and marks it as a detector's output, but has written nothing: in the frame that \<open>postProcessHost\<close>
  just allocated the output is uninitialised memory, and releasing it is undefined behaviour.
\<close>

theorem failed_parse_reported_success:
  assumes "parse_objects L (clears_lists p) layers = Some (Inl e)"
  shows "Detect_parseEachBatch L p layers fr = Some (clears_lists p, NVDSINFER_SUCCESS,
      \<lparr>outputType = NvDsInferNetworkType_Detector, frame_output = frame_output fr\<rparr>) \<and>
    (\<exists>fr'. post_frames (Detect_parseEachBatch L) (\<lambda>_. layers) [0] p = Some (clears_lists p, NVDSINFER_SUCCESS, [fr']) \<and>
      freeBatchOutput [fr'] = None)"
  using fillDetectionOutput_failed[OF assms]
  by (simp add: Detect_parseEachBatch_def store_frame_def freeBatchOutput_def releaseFrameOutput_def)

theorem failed_parse_reported_success_witness:
  "\<exists>p' fr'. post_frames (Detect_parseEachBatch (sample_libs None)) (\<lambda>_. sample_layers) [0] sample_detector =
     Some (p', NVDSINFER_SUCCESS, [fr']) \<and> freeBatchOutput [fr'] = None"
proof -
  have "parse_objects (sample_libs None) (clears_lists sample_detector) sample_layers =
      Some (Inl NVDSINFER_CUSTOM_LIB_FAILED)"
    by (simp add: parse_objects_def sample_libs_def clears_lists_def sample_detector_def)
  from failed_parse_reported_success[OF this] show ?thesis by blast
qed

text \<open>A frame that was filled is released: every label and mask of its objects, and the array.\<close>

lemma release_filled:
  assumes "length os < 2 ^ 32"
  shows "releaseFrameOutput \<lparr>outputType = NvDsInferNetworkType_Detector, frame_output = DetectionOutput (make_output os)\<rparr> =
    Some (concat (map (label_blocks os) [0..<length os]) @ [ObjectArray])"
  using assms by (simp add: releaseFrameOutput_def make_output_def)

text \<open>
  The masks are blocks the custom parser allocated. An object that topK drops is gone with its mask: no
  object of the output has it, so nothing releases it.
\<close>

lemma topk_drops_masks:
  assumes "Instance_filterTopKOutputs k objs = Some kept" "0 \<le> k" "nat k < length objs"
    and "\<forall>ob\<in>set objs. mask ob \<noteq> None"
  shows "length (filter (\<lambda>ob. mask ob \<noteq> None) kept) = nat k \<and> nat k < length (filter (\<lambda>ob. mask ob \<noteq> None) objs)"
proof -
  have kept: "length kept = nat k" "set kept \<subseteq> set objs"
    using assms(1-3) by (auto simp: Instance_filterTopKOutputs_def stable_sort_desc_def split: if_splits dest: in_set_takeD)
  then have "filter (\<lambda>ob. mask ob \<noteq> None) kept = kept" "filter (\<lambda>ob. mask ob \<noteq> None) objs = objs"
    using assms(4) by (auto simp: filter_id_conv)
  then show ?thesis using kept(1) assms(3) by simp
qed

section \<open>The labels file\<close>

definition join_words :: "string list \<Rightarrow> string" where
  "join_words ws = concat (map (\<lambda>w. w @ '';'') (butlast ws)) @ last ws"

definition labels_text :: "string list list \<Rightarrow> string" where
  "labels_text ls = concat (map (\<lambda>ws. join_words ws @ ''\<newline>'') ls)"

lemma takeWhile_until: "c \<notin> set w \<Longrightarrow> takeWhile (\<lambda>x. x \<noteq> c) (w @ c # r) = w"
  by (induction w) auto

lemma dropWhile_until: "c \<notin> set w \<Longrightarrow> dropWhile (\<lambda>x. x \<noteq> c) (w @ c # r) = c # r"
  by (induction w) auto

lemma split_words_single:
  assumes "CHR '';'' \<notin> set w"
  shows "split_words w = [w]"
proof -
  have "\<forall>c\<in>set w. c \<noteq> CHR '';''" using assms by blast
  then have "takeWhile (\<lambda>c. c \<noteq> CHR '';'') w = w" "dropWhile (\<lambda>c. c \<noteq> CHR '';'') w = []"
    unfolding takeWhile_eq_all_conv dropWhile_eq_Nil_conv by blast+
  then show ?thesis by (simp only: split_words.simps[of w] list.case)
qed

lemma split_words_join:
  assumes "ws \<noteq> []" "\<forall>w\<in>set ws. CHR '';'' \<notin> set w"
  shows "split_words (join_words ws) = ws"
  using assms
proof (induction ws)
  case (Cons w ws)
  show ?case
  proof (cases "ws = []")
    case True
    then show ?thesis using Cons.prems split_words_single[of w] by (simp add: join_words_def)
  next
    case False
    then have "join_words (w # ws) = w @ CHR '';'' # join_words ws" by (simp add: join_words_def)
    then show ?thesis
      using Cons False by (simp add: split_words.simps[of "w @ CHR '';'' # join_words ws"] takeWhile_until dropWhile_until)
  qed
qed simp

lemma file_lines_text:
  assumes "\<forall>l\<in>set ls. l \<noteq> [] \<and> CHR ''\<newline>'' \<notin> set l"
  shows "file_lines (concat (map (\<lambda>l. l @ ''\<newline>'') ls)) = ls"
  using assms
proof (induction ls)
  case Nil
  then show ?case by (simp add: file_lines.simps)
next
  case (Cons l ls)
  then show ?case
    by (simp add: file_lines.simps[of "l @ CHR ''\<newline>'' # concat (map (\<lambda>l. l @ ''\<newline>'') ls)"]
        takeWhile_until dropWhile_until)
qed

definition label_rows_ok :: "string list list \<Rightarrow> bool" where
  "label_rows_ok ls \<longleftrightarrow> (\<forall>ws\<in>set ls. ws \<noteq> [] \<and> join_words ws \<noteq> [] \<and>
     (\<forall>w\<in>set ws. CHR '';'' \<notin> set w \<and> CHR ''\<newline>'' \<notin> set w))"

lemma join_words_no_newline:
  "ws \<noteq> [] \<Longrightarrow> \<forall>w\<in>set ws. CHR ''\<newline>'' \<notin> set w \<Longrightarrow> CHR ''\<newline>'' \<notin> set (join_words ws)"
  by (auto simp: join_words_def dest: in_set_butlastD)

lemma labels_roundtrip:
  assumes "label_rows_ok ls" "read_file env path = Some (labels_text ls)"
  shows "parseLabelsFile env path [] = (NVDSINFER_SUCCESS, ls)"
proof -
  have "file_lines (labels_text ls) = map join_words ls"
    using file_lines_text[of "map join_words ls"] assms(1) join_words_no_newline
    by (simp add: labels_text_def label_rows_ok_def o_def)
  moreover have "map split_words (map join_words ls) = ls"
    using assms(1) by (induction ls) (auto simp: label_rows_ok_def split_words_join)
  ultimately show ?thesis using assms(2) by (simp add: parseLabelsFile_def)
qed

section \<open>The providers of the frame parser\<close>

lemmas parse_defs = Detect_parseEachBatch_def Instance_parseEachBatch_def Classify_parseEachBatch_def
  Segment_parseEachBatch_def Other_parseEachBatch_def store_frame_def

interpretation instance_parser: frame_parser "Instance_parseEachBatch custom" NvDsInferNetworkType_InstanceSegmentation
  by unfold_locales (auto simp: parse_defs)

interpretation other_parser: frame_parser Other_parseEachBatch NvDsInferNetworkType_Other
  by unfold_locales (auto simp: parse_defs new_frame_def)

definition classify_ready :: "custom_classify \<Rightarrow> ClassifyPostprocessor \<Rightarrow> NvDsInferLayerInfo list \<Rightarrow> bool" where
  "classify_ready custom p layers \<longleftrightarrow>
     (if m_CustomClassifierParseFunc p then custom layers (classify_NetworkInfo p) (m_ClassifierThreshold p) \<noteq> None
      else (\<forall>l\<in>set (m_OutputLayerInfo p). layer_classes l \<le> length (layer_buffer l)) \<and>
        length (m_OutputLayerInfo p) < 2 ^ 32)"

lemma unat_of_nat_le: "unat (of_nat n :: 'a::len word) \<le> n"
  by (simp add: unsigned_of_nat take_bit_nat_less_eq_self)

lemma classify_fills:
  assumes "classify_ready custom p layers"
  shows "\<exists>out. fillClassificationOutput custom p layers None = Some (NVDSINFER_SUCCESS, Some out) \<and>
    unat (numAttributes out) \<le> length (class_attributes out)"
proof (cases "m_CustomClassifierParseFunc p")
  case True
  then show ?thesis using assms
    by (auto simp: classify_ready_def fillClassificationOutput_def Let_def unat_of_nat_le)
next
  case False
  with assms obtain as where "parseAttributesFromSoftmaxLayers p = Some (as, attr_text as)"
    using classify_result[of p] by (auto simp: classify_ready_def)
  then show ?thesis using False by (simp add: fillClassificationOutput_def Let_def unat_of_nat_le)
qed

interpretation classify_parser: ready_parser "Classify_parseEachBatch custom" NvDsInferNetworkType_Classifier
  "classify_ready custom"
proof unfold_locales
  fix p p' st fr layers
  show "Classify_parseEachBatch custom p layers new_frame = Some (p', st, fr) \<Longrightarrow>
      st = NVDSINFER_SUCCESS \<and> outputType fr = NvDsInferNetworkType_Classifier"
    by (auto simp: parse_defs)
  assume "classify_ready custom p layers"
  from classify_fills[OF this]
  show "\<exists>p' st fr. Classify_parseEachBatch custom p layers new_frame = Some (p', st, fr) \<and>
      releaseFrameOutput fr \<noteq> None \<and> (\<forall>ls. classify_ready custom p ls \<longrightarrow> classify_ready custom p' ls)"
    by (auto simp: parse_defs releaseFrameOutput_def)
qed

definition segment_ready :: "SegmentPostprocessor \<Rightarrow> NvDsInferLayerInfo list \<Rightarrow> bool" where
  "segment_ready p layers \<longleftrightarrow>
     (\<exists>layer rest. layers = layer # rest \<and>
        (let d = seg_dims (m_SegmentationOutputOrder p) (inferDims layer);
             k = unat (dims_c d) * (unat (dims_w d) * unat (dims_h d))
         in k \<le> length (layer_buffer layer) \<and> k < 2 ^ 31 \<and> unat (dims_w d) * unat (dims_h d) < 2 ^ 32))"

lemma segment_fills:
  assumes "segment_ready p layers"
  shows "\<exists>out. fillSegmentationOutput p layers = Some (NVDSINFER_SUCCESS, out)"
proof -
  from assms obtain layer rest where l: "layers = layer # rest"
    and shape: "unat (dims_c (seg_dims (m_SegmentationOutputOrder p) (inferDims layer))) *
        (unat (dims_w (seg_dims (m_SegmentationOutputOrder p) (inferDims layer))) *
         unat (dims_h (seg_dims (m_SegmentationOutputOrder p) (inferDims layer)))) \<le> length (layer_buffer layer)"
      "unat (dims_c (seg_dims (m_SegmentationOutputOrder p) (inferDims layer))) *
        (unat (dims_w (seg_dims (m_SegmentationOutputOrder p) (inferDims layer))) *
         unat (dims_h (seg_dims (m_SegmentationOutputOrder p) (inferDims layer)))) < 2 ^ 31"
      "unat (dims_w (seg_dims (m_SegmentationOutputOrder p) (inferDims layer))) *
         unat (dims_h (seg_dims (m_SegmentationOutputOrder p) (inferDims layer))) < 2 ^ 32"
    unfolding segment_ready_def Let_def by blast
  from segmentation_result[OF shape] show ?thesis unfolding l by blast
qed

interpretation segment_parser: ready_parser Segment_parseEachBatch NvDsInferNetworkType_Segmentation segment_ready
proof unfold_locales
  fix p p' st fr layers
  show "Segment_parseEachBatch p layers new_frame = Some (p', st, fr) \<Longrightarrow>
      st = NVDSINFER_SUCCESS \<and> outputType fr = NvDsInferNetworkType_Segmentation"
    by (auto simp: parse_defs)
  assume "segment_ready p layers"
  from segment_fills[OF this] show "\<exists>p' st fr. Segment_parseEachBatch p layers new_frame = Some (p', st, fr) \<and>
      releaseFrameOutput fr \<noteq> None \<and> (\<forall>ls. segment_ready p ls \<longrightarrow> segment_ready p' ls)"
    by (auto simp: parse_defs releaseFrameOutput_def)
qed

text \<open>The detector, with suppression or without clustering and a parser that gives no NaN.\<close>

definition detect_ready :: "detect_libs \<Rightarrow> DetectPostprocessor \<Rightarrow> NvDsInferLayerInfo list \<Rightarrow> bool" where
  "detect_ready L p layers \<longleftrightarrow>
     det_ok p \<and> m_NumDetectedClasses p \<noteq> 0 \<and> unat (m_NumDetectedClasses p) \<le> 2 ^ 31 \<and> length (m_Labels p) < 2 ^ 31 \<and>
     m_ClusterMode p \<in> {NVDSINFER_CLUSTER_NMS, NVDSINFER_CLUSTER_NONE} \<and>
     (\<exists>objs. parse_objects L (clears_lists p) layers = Some (Inr objs) \<and> NaN \<notin> detectionConfidence ` set objs)"

lemma same_config_ready:
  assumes "same_config p p'" "det_ok p'" "detect_ready L p ls"
  shows "detect_ready L p' ls"
proof -
  from assms(1) obtain os lists' where p': "p' = p\<lparr>m_ObjectList := os, m_PerClassObjectList := lists'\<rparr>"
    unfolding same_config_def by blast
  have "parse_objects L (clears_lists p') ls = parse_objects L (clears_lists p) ls"
    by (simp add: parse_objects_def clears_lists_def p')
  then show ?thesis using assms(2,3) by (simp add: detect_ready_def) (simp add: p')
qed

interpretation detect_parser: ready_parser "Detect_parseEachBatch L" NvDsInferNetworkType_Detector "detect_ready L"
proof unfold_locales
  fix p p' st fr layers
  show "Detect_parseEachBatch L p layers new_frame = Some (p', st, fr) \<Longrightarrow>
      st = NVDSINFER_SUCCESS \<and> outputType fr = NvDsInferNetworkType_Detector"
    by (auto simp: parse_defs)
  assume ready: "detect_ready L p layers"
  then obtain objs where "parse_objects L (clears_lists p) layers = Some (Inr objs)" "NaN \<notin> detectionConfidence ` set objs"
    by (auto simp: detect_ready_def)
  with fill_output_result[of p L layers objs None] ready obtain q out where
    "fillDetectionOutput L p layers None = Some (q, NVDSINFER_SUCCESS, Some out)" "frame_ok p objs out" "det_ok q"
    "same_config p q" by (auto simp: detect_ready_def)
  moreover from this(2) have "unat (numObjects out) \<le> length (out_objects out)"
    by (simp add: frame_ok_def unat_of_nat_le)
  ultimately show "\<exists>p' st fr. Detect_parseEachBatch L p layers new_frame = Some (p', st, fr) \<and>
      releaseFrameOutput fr \<noteq> None \<and> (\<forall>ls. detect_ready L p ls \<longrightarrow> detect_ready L p' ls)"
    by (auto simp: parse_defs releaseFrameOutput_def intro: same_config_ready)
qed

text \<open>
  A batch whose frames can all be parsed, by a detector with suppression or without
  clustering, always succeeds: there is one output per frame, every output has the detector's type and
  was written, and the whole batch can be released. No frame disturbs the next one.
\<close>

lemma detector_batch_released:
  assumes "\<forall>i<n. detect_ready L p (layers_of i)"
  shows "\<exists>p' frs. post_frames (Detect_parseEachBatch L) layers_of [0..<n] p = Some (p', NVDSINFER_SUCCESS, frs) \<and>
    length frs = n \<and> (\<forall>fr\<in>set frs. outputType fr = NvDsInferNetworkType_Detector) \<and> freeBatchOutput frs \<noteq> None"
  using detect_parser.batch_released[of "[0..<n]" L p layers_of] assms by simp

lemma detector_batch_released_witness:
  "\<exists>p' frs. post_frames (Detect_parseEachBatch (sample_libs (Some [sample_box 0 0 (9/10), sample_box 0 1 (1/2)])))
     (\<lambda>_. sample_layers) [0..<3] sample_detector = Some (p', NVDSINFER_SUCCESS, frs) \<and> length frs = 3"
proof -
  let ?L = "sample_libs (Some [sample_box 0 0 (9/10), sample_box 0 1 (1/2)])"
  have "parse_objects ?L (clears_lists sample_detector) sample_layers =
      Some (Inr [sample_box 0 0 (9/10), sample_box 0 1 (1/2)])"
    by (simp add: parse_objects_def clears_lists_def sample_detector_def sample_libs_def)
  then have "detect_ready ?L sample_detector sample_layers"
    using sample_detector_ok by (simp add: detect_ready_def) (simp add: sample_detector_def)
  then have "\<forall>i<3. detect_ready ?L sample_detector ((\<lambda>_. sample_layers) i)" by simp
  from detector_batch_released[OF this] show ?thesis by blast
qed

end
