(* ===== verification/InferMeta.thy ===== *)
theory InferMeta
  imports InferPost
begin

text \<open>
  The metadata the inference element attaches: \<open>src/sources/gst-plugins/gst-nvinfer/gstnvinfer_meta_utils.cpp\<close>,
  the structures of \<open>gstnvinfer.h\<close> and \<open>gstnvinfer_impl.h\<close> it reads, and those of
  \<open>src/sources/includes/nvdsmeta.h\<close> and \<open>nvll_osd_struct.h\<close>. The pools and lists of the metadata are
  in a library outside of the repository: an object or label taken from a pool has the contents
  \<open>pool_object\<close> or \<open>pool_label\<close>, and an added one stands behind the others.
\<close>

section \<open>Metadata\<close>

record NvOSD_ColorParams =
  color_red :: dbl
  color_green :: dbl
  color_blue :: dbl
  color_alpha :: dbl

record NvOSD_RectParams =
  rect_left :: dbl
  rect_top :: dbl
  rect_width :: dbl
  rect_height :: dbl
  border_width :: u32
  border_color :: NvOSD_ColorParams
  has_bg_color :: u32
  bg_color :: NvOSD_ColorParams

record NvOSD_TextParams =
  display_text :: "string option"
  x_offset :: u32
  y_offset :: u32
  font_name :: string
  font_size :: u32
  font_color :: NvOSD_ColorParams
  set_bg_clr :: u32
  text_bg_clr :: NvOSD_ColorParams

record NvDsLabelInfo =
  label_id :: u32
  result_class_id :: u32
  result_prob :: dbl
  result_label :: string

record NvDsClassifierMeta =
  classifier_component_id :: u32
  classifier_type :: string
  label_info_list :: "NvDsLabelInfo list"

text \<open>The mask: its data, width, height, size and threshold. The four numbers of \<open>org_bbox\<close> are the
  position of the box as the detector found it.\<close>

record NvDsObjectMeta =
  unique_component_id :: u32
  class_id :: int
  object_id :: u64
  meta_confidence :: dbl
  rect_params :: NvOSD_RectParams
  org_bbox :: "dbl \<times> dbl \<times> dbl \<times> dbl"
  text_params :: NvOSD_TextParams
  meta_label :: string
  mask_params :: "(dbl list \<times> u32 \<times> u32 \<times> u32 \<times> dbl) option"
  classifier_meta_list :: "NvDsClassifierMeta list"
  segmentation_metas :: "NvDsInferSegmentationOutput list"

text \<open>
  A pointer to a frame or an object: the buffer it came with and its number there. A frame lists the
  objects it came with and the objects the element added, with the address of their parent.
\<close>

type_synonym meta_addr = "nat \<times> nat"

record NvDsFrameMeta =
  pad_index :: u32
  meta_frame_num :: u32
  batch_id :: u32
  bInferDone :: bool
  obj_meta_list :: "meta_addr list"
  added_objects :: "(NvDsObjectMeta \<times> meta_addr option) list"
  frame_segmentation_metas :: "NvDsInferSegmentationOutput list"

definition UNTRACKED_OBJECT_ID :: u64 where "UNTRACKED_OBJECT_ID = 0xFFFFFFFFFFFFFFFF"
definition MAX_LABEL_SIZE :: nat where "MAX_LABEL_SIZE = 128"

definition g_strlcpy :: "string \<Rightarrow> nat \<Rightarrow> string" where
  "g_strlcpy s n = take (n - 1) s"

section \<open>The element's parameters\<close>

record GstNvInferDetectionFilterParams =
  roiTopOffset :: u32
  roiBottomOffset :: u32
  detectionMinWidth :: u32
  detectionMinHeight :: u32
  detectionMaxWidth :: u32
  detectionMaxHeight :: u32

record GstNvInferColorParams =
  have_bg_color :: u32
  class_bg_color :: NvOSD_ColorParams
  class_border_color :: NvOSD_ColorParams

record GstNvInfer =
  max_batch_size :: u32
  unique_id :: u32
  network_width :: u32
  network_height :: u32
  networkType :: NvDsInferNetworkType
  process_full_frame :: bool
  input_tensor_from_meta :: bool
  clip_object_outside_roi :: bool
  maintain_aspect_ratio :: bool
  symmetric_padding :: bool
  perClassDetectionFilterParams :: "GstNvInferDetectionFilterParams list"
  perClassColorParams :: "GstNvInferColorParams list"
  secondary_reinfer_interval :: u32
  min_input_object_width :: u32
  min_input_object_height :: u32
  max_input_object_width :: u32
  max_input_object_height :: u32
  operate_on_gie_id :: u32
  operate_on_class_ids :: "bool list"
  filter_out_class_ids :: "u32 list"
  classifier_async_mode :: bool
  element_classifier_type :: string
  output_instance_mask :: bool
  crop_objects_to_roi_boundary :: bool
  segmentationThreshold :: dbl

record GstNvInferObjectInfo =
  info_attributes :: "NvDsInferAttribute list"
  info_label :: string

text \<open>What the metadata functions read of a frame of a batch; the ROI is the one of the pre-processing element.\<close>

record frame_scale =
  scale_ratio_x :: dbl
  scale_ratio_y :: dbl
  offset_left :: u32
  offset_top :: u32
  roi_left :: u32
  roi_top :: u32
  roi_rect :: "(dbl \<times> dbl \<times> dbl \<times> dbl) option"
  input_surf_size :: "(u32 \<times> u32) option"

text \<open>
  What the functions use of the outside: the contents of pool elements, the conversion of a floating
  point number to an \<open>unsigned int\<close> it does not fit into (undefined behaviour), random colours.
\<close>

record meta_env =
  pool_object :: NvDsObjectMeta
  pool_label :: NvDsLabelInfo
  float_to_u32 :: "dbl \<Rightarrow> u32"
  rand_color :: "nat \<Rightarrow> NvOSD_ColorParams"

section \<open>Attaching the boxes of a detector\<close>

definition scale_object :: "'f frame_scale_scheme \<Rightarrow> NvDsInferObject \<Rightarrow> NvDsInferObject" where
  "scale_object f ob = ob
     \<lparr>obj_left := ddiv (obj_left ob - dbl_of_u32 (offset_left f)) (scale_ratio_x f) + dbl_of_u32 (roi_left f),
      obj_top := ddiv (obj_top ob - dbl_of_u32 (offset_top f)) (scale_ratio_y f) + dbl_of_u32 (roi_top f),
      obj_width := ddiv (obj_width ob) (scale_ratio_x f),
      obj_height := ddiv (obj_height ob) (scale_ratio_y f)\<rparr>"

text \<open>The four conditional assignments in their order.\<close>

definition clip_to_roi :: "(dbl \<times> dbl \<times> dbl \<times> dbl) \<Rightarrow> NvDsInferObject \<Rightarrow> NvDsInferObject" where
  "clip_to_roi roi ob0 =
     (let (rl, rt, rw, rh) = roi;
          ob1 = (if rl + rw \<le> obj_left ob0 + obj_width ob0 then ob0\<lparr>obj_width := rl + rw - obj_left ob0\<rparr> else ob0);
          ob2 = (if rt + rh \<le> obj_top ob1 + obj_height ob1 then ob1\<lparr>obj_height := rt + rh - obj_top ob1\<rparr> else ob1);
          ob3 = (if obj_left ob2 < rl
                 then let ob = ob2\<lparr>obj_left := rl\<rparr> in ob\<lparr>obj_width := obj_width ob - rl + obj_left ob\<rparr> else ob2)
      in if obj_top ob3 < rt
         then let ob = ob3\<lparr>obj_top := rt\<rparr> in ob\<lparr>obj_height := obj_height ob - rt + obj_top ob\<rparr> else ob3)"

definition clip_to_frame :: "NvDsInferObject \<Rightarrow> NvDsInferObject" where
  "clip_to_frame ob0 =
     (let ob1 = (if obj_top ob0 < 0 then ob0\<lparr>obj_top := 0\<rparr> else ob0)
      in if obj_left ob1 < 0 then ob1\<lparr>obj_left := 0\<rparr> else ob1)"

definition filtered_size :: "GstNvInferDetectionFilterParams \<Rightarrow> NvDsInferObject \<Rightarrow> bool" where
  "filtered_size fp ob \<longleftrightarrow>
     obj_width ob < dbl_of_u32 (detectionMinWidth fp) \<or> obj_height ob < dbl_of_u32 (detectionMinHeight fp) \<or>
     0 < detectionMaxWidth fp \<and> dbl_of_u32 (detectionMaxWidth fp) < obj_width ob \<or>
     0 < detectionMaxHeight fp \<and> dbl_of_u32 (detectionMaxHeight fp) < obj_height ob"

text \<open>The last step: cropping to the region of interest, or dropping the box (\<open>None\<close>).\<close>

definition roi_boundary ::
  "bool \<Rightarrow> GstNvInferDetectionFilterParams \<Rightarrow> (u32 \<times> u32) \<Rightarrow> NvDsInferObject \<Rightarrow> NvDsInferObject option" where
  "roi_boundary crop fp surf ob0 =
     (let (w, h) = surf; bottom = dbl_of_u32 (h - roiBottomOffset fp)
      in if crop then
           let ob1 = (if obj_top ob0 < dbl_of_u32 (roiTopOffset fp) then ob0\<lparr>obj_top := dbl_of_u32 (roiTopOffset fp)\<rparr> else ob0);
               ob2 = (if dbl_of_u32 w \<le> obj_left ob1 + obj_width ob1
                      then ob1\<lparr>obj_width := dbl_of_u32 w - obj_left ob1\<rparr> else ob1)
           in Some (if bottom < obj_top ob2 + obj_height ob2 then ob2\<lparr>obj_height := bottom - obj_top ob2\<rparr> else ob2)
         else if obj_top ob0 < dbl_of_u32 (roiTopOffset fp) then None
         else if bottom < obj_top ob0 + obj_height ob0 then None else Some ob0)"

text \<open>
  The box of an object of the network in the frame: undefined (\<open>None\<close>), dropped (\<open>Some None\<close>) or
  kept. The missing ROI of a frame is only looked at when it is clipped to, and a missing surface only
  when the box was not dropped before.
\<close>

definition place_object :: "GstNvInfer \<Rightarrow> 'f frame_scale_scheme \<Rightarrow> NvDsInferObject \<Rightarrow> NvDsInferObject option option" where
  "place_object n f ob =
     (if classIndex ob < 0 \<or> int (length (perClassDetectionFilterParams n)) \<le> classIndex ob then None
      else
        let fp = perClassDetectionFilterParams n ! nat (classIndex ob); ob1 = scale_object f ob;
            clip = input_tensor_from_meta n \<and> clip_object_outside_roi n
        in if clip \<and> roi_rect f = None then None
           else
             let ob2 = clip_to_frame (if clip then clip_to_roi (the (roi_rect f)) ob1 else ob1)
             in if word_of_int (classIndex ob) \<in> set (filter_out_class_ids n) then Some None
                else if filtered_size fp ob2 then Some None
                else if \<not> crop_objects_to_roi_boundary n \<and> obj_top ob2 < dbl_of_u32 (roiTopOffset fp) then Some None
                else (case input_surf_size f of
                        None \<Rightarrow> None
                      | Some surf \<Rightarrow> Some (roi_boundary (crop_objects_to_roi_boundary n) fp surf ob2)))"

definition black :: NvOSD_ColorParams where
  "black = \<lparr>color_red = 0, color_green = 0, color_blue = 0, color_alpha = 1\<rparr>"

definition white :: NvOSD_ColorParams where
  "white = \<lparr>color_red = 1, color_green = 1, color_blue = 1, color_alpha = 1\<rparr>"

definition red :: NvOSD_ColorParams where
  "red = \<lparr>color_red = 1, color_green = 0, color_blue = 0, color_alpha = 1\<rparr>"

text \<open>The text above the left top corner of a box; the offsets are converted to \<open>unsigned int\<close>.\<close>

definition style_text :: "meta_env \<Rightarrow> string option \<Rightarrow> NvOSD_RectParams \<Rightarrow> NvOSD_TextParams \<Rightarrow> NvOSD_TextParams" where
  "style_text env text r t = t
     \<lparr>display_text := text, x_offset := dbl_to_u32 (float_to_u32 env) (rect_left r),
      y_offset := dbl_to_u32 (float_to_u32 env) (rect_top r - Fin 10), set_bg_clr := 1, text_bg_clr := black,
      font_name := ''Serif'', font_size := 11, font_color := white\<rparr>"

text \<open>The colours of a class; its index is compared with \<open>>\<close>, so the first index behind the array is read.\<close>

definition class_colors :: "GstNvInfer \<Rightarrow> int \<Rightarrow> NvOSD_RectParams \<Rightarrow> NvOSD_RectParams option" where
  "class_colors n c r =
     (if int (length (perClassColorParams n)) < c then Some (r\<lparr>has_bg_color := 0, border_color := red\<rparr>)
      else if c < 0 \<or> int (length (perClassColorParams n)) \<le> c then None
      else let cp = perClassColorParams n ! nat c
           in Some (r\<lparr>has_bg_color := have_bg_color cp, bg_color := class_bg_color cp,
                    border_color := class_border_color cp\<rparr>))"

definition make_object_meta ::
  "meta_env \<Rightarrow> GstNvInfer \<Rightarrow> (dbl \<times> dbl) option \<Rightarrow> nat \<Rightarrow> NvDsInferObject \<Rightarrow> NvDsObjectMeta option" where
  "make_object_meta env n parent i ob =
     (let own = \<not> process_full_frame n \<and> \<not> input_tensor_from_meta n
      in if own \<and> parent = None then None
         else
           let (dx, dy) = (if own then the parent else (0, 0));
               r0 = (rect_params (pool_object env))
                      \<lparr>rect_left := (if own then obj_left ob + dx else obj_left ob),
                       rect_top := (if own then obj_top ob + dy else obj_top ob),
                       rect_width := obj_width ob, rect_height := obj_height ob, border_width := 3\<rparr>
           in (case class_colors n (classIndex ob) r0 of
                 None \<Rightarrow> None
               | Some r1 \<Rightarrow>
                   let masked = output_instance_mask n \<and> obj_mask ob \<noteq> None;
                       r2 = (if masked then r1\<lparr>border_color := rand_color env i\<rparr> else r1)
                   in Some ((pool_object env)
                        \<lparr>unique_component_id := unique_id n, meta_confidence := confidence ob,
                         object_id := UNTRACKED_OBJECT_ID, class_id := classIndex ob, rect_params := r2,
                         org_bbox := (rect_left r2, rect_top r2, rect_width r2, rect_height r2),
                         meta_label := (case obj_label ob of None \<Rightarrow> meta_label (pool_object env)
                                        | Some s \<Rightarrow> g_strlcpy s MAX_LABEL_SIZE),
                         text_params := style_text env (obj_label ob) r2 (text_params (pool_object env)),
                         mask_params := (if masked then
                             (case the (obj_mask ob) of (m, w, h, s) \<Rightarrow> Some (m, w, h, s, segmentationThreshold n))
                           else mask_params (pool_object env))\<rparr>)))"

text \<open>
  \<open>parent\<close> is the position of the object the network ran on, if there is one; the result is the list of
  the objects added to the frame.
\<close>

definition attach_object ::
  "meta_env \<Rightarrow> GstNvInfer \<Rightarrow> (dbl \<times> dbl) option \<Rightarrow> 'f frame_scale_scheme \<Rightarrow> nat \<Rightarrow> NvDsInferObject \<Rightarrow> NvDsObjectMeta option option" where
  "attach_object env n parent f i ob =
     (case place_object n f ob of
        None \<Rightarrow> None
      | Some None \<Rightarrow> Some None
      | Some (Some ob') \<Rightarrow> map_option Some (make_object_meta env n parent i ob'))"

definition attach_metadata_detector ::
  "meta_env \<Rightarrow> GstNvInfer \<Rightarrow> (dbl \<times> dbl) option \<Rightarrow> 'f frame_scale_scheme \<Rightarrow> NvDsInferDetectionOutput \<Rightarrow> NvDsObjectMeta list option" where
  "attach_metadata_detector env n parent f out =
     (if length (out_objects out) < unat (numObjects out) then None
      else collect (\<lambda>(i, ob). attach_object env n parent f i ob)
             (enumerate 0 (take (unat (numObjects out)) (out_objects out))))"

section \<open>Attaching the labels of a classifier\<close>

definition make_label_info :: "meta_env \<Rightarrow> NvDsInferAttribute \<Rightarrow> NvDsLabelInfo" where
  "make_label_info env a = (pool_label env)
     \<lparr>label_id := attributeIndex a, result_class_id := attributeValue a, result_prob := attributeConfidence a,
      result_label := (case attributeLabel a of None \<Rightarrow> result_label (pool_label env)
                       | Some s \<Rightarrow> g_strlcpy s MAX_LABEL_SIZE)\<rparr>"

definition make_classifier_meta :: "meta_env \<Rightarrow> GstNvInfer \<Rightarrow> GstNvInferObjectInfo \<Rightarrow> NvDsClassifierMeta" where
  "make_classifier_meta env n info =
     \<lparr>classifier_component_id = unique_id n, classifier_type = element_classifier_type n,
      label_info_list = map (make_label_info env) (info_attributes info)\<rparr>"

text \<open>The object that a classifier of full frames adds.\<close>

definition full_frame_object :: "meta_env \<Rightarrow> (u32 \<times> u32) \<Rightarrow> NvDsObjectMeta" where
  "full_frame_object env surf =
     (let r = (rect_params (pool_object env))
             \<lparr>rect_left := 0, rect_top := 0, rect_width := dbl_of_u32 (fst surf), rect_height := dbl_of_u32 (snd surf),
              has_bg_color := 0, bg_color := \<lparr>color_red = 1, color_green = 1, color_blue = 0, color_alpha = Fin (2/5)\<rparr>,
              border_width := 6, border_color := red\<rparr>
      in (pool_object env)\<lparr>rect_params := r, object_id := UNTRACKED_OBJECT_ID, class_id := - 1,
           text_params := style_text env (Some '''') r (text_params (pool_object env))\<rparr>)"

text \<open>
  The label is not empty here, so the labels of the attributes are not appended to it.
\<close>

definition label_object :: "meta_env \<Rightarrow> string \<Rightarrow> NvDsClassifierMeta \<Rightarrow> NvDsObjectMeta \<Rightarrow> NvDsObjectMeta" where
  "label_object env label m ob =
     (let t = (case display_text (text_params ob) of
                 None \<Rightarrow> style_text env (Some '''') (rect_params ob) (text_params ob)
               | Some _ \<Rightarrow> text_params ob)
      in ob\<lparr>text_params := t\<lparr>display_text := Some (the (display_text t) @ '' '' @ label)\<rparr>,
            classifier_meta_list := classifier_meta_list ob @ [m]\<rparr>)"

text \<open>
  The frame and the object (null pointers are \<open>None\<close>) after the call, and what was added to the region
  of interest.
\<close>

definition attach_metadata_classifier ::
  "meta_env \<Rightarrow> GstNvInfer \<Rightarrow> (u32 \<times> u32) option \<Rightarrow> NvDsFrameMeta option \<Rightarrow> NvDsObjectMeta option \<Rightarrow> GstNvInferObjectInfo \<Rightarrow>
   (NvDsFrameMeta option \<times> NvDsObjectMeta option \<times> NvDsClassifierMeta list) option" where
  "attach_metadata_classifier env n surf fr ob info =
     (if (if process_full_frame n then fr = None else ob = None) then None
      else
        let fr1 = map_option (bInferDone_update (\<lambda>_. True)) fr; m = make_classifier_meta env n info
        in if info_attributes info = [] \<or> info_label info = [] then Some (fr1, ob, [])
           else if input_tensor_from_meta n then
             Some (fr1, map_option (label_object env (info_label info) m) ob, [m])
           else if process_full_frame n then
             (case (surf, fr1) of
                (Some s, Some fm) \<Rightarrow>
                  let new_ob = label_object env (info_label info) m (full_frame_object env s)
                  in Some (Some (fm\<lparr>added_objects := added_objects fm @ [(new_ob, None)]\<rparr>), ob, [])
              | _ \<Rightarrow> None)
           else Some (fr1, map_option (label_object env (info_label info) m) ob, []))"

text \<open>The cached result of an object is replaced.\<close>

definition merge_classification_output :: "GstNvInferObjectInfo \<Rightarrow> GstNvInferObjectInfo \<Rightarrow> GstNvInferObjectInfo" where
  "merge_classification_output cached new_result =
     cached\<lparr>info_attributes := info_attributes new_result, info_label := info_label new_result\<rparr>"

section \<open>Attaching a segmentation\<close>

definition attach_metadata_segmentation ::
  "GstNvInfer \<Rightarrow> NvDsFrameMeta option \<Rightarrow> NvDsObjectMeta option \<Rightarrow> NvDsInferSegmentationOutput \<Rightarrow>
   (NvDsFrameMeta option \<times> NvDsObjectMeta option \<times> NvDsInferSegmentationOutput list) option" where
  "attach_metadata_segmentation n fr ob out =
     (if (if process_full_frame n then fr = None else ob = None) then None
      else
        let fr1 = map_option (bInferDone_update (\<lambda>_. True)) fr
        in if input_tensor_from_meta n then Some (fr1, ob, [out])
           else if process_full_frame n then
             Some (map_option (frame_segmentation_metas_update (\<lambda>ms. ms @ [out])) fr1, ob, [])
           else Some (fr1, map_option (segmentation_metas_update (\<lambda>ms. ms @ [out])) ob, []))"

end
