(* ===== verification/InferConvert.thy ===== *)
theory InferConvert
  imports InferMeta
begin

text \<open>
  Scaling a frame or an object to the resolution of the network: \<open>get_converted_buffer\<close> of
  \<open>gst-nvinfer/gstnvinfer.cpp\<close>. The padding is written by CUDA (\<open>memset_ok\<close>: whether all of the calls
  succeed), the scaling is done later for the whole batch.
\<close>

unbundle bit_operations_syntax

definition GST_ROUND_UP_2 :: "u32 \<Rightarrow> u32" where
  "GST_ROUND_UP_2 n = (n + 1) AND (NOT 1)"

definition GST_ROUND_DOWN_2 :: "u32 \<Rightarrow> u32" where
  "GST_ROUND_DOWN_2 n = n AND (NOT 1)"

text \<open>The destination: a surface of the pool; its format is one of the four with a known pixel size or not.\<close>

record dest_surface =
  dest_frame_width :: u32
  dest_frame_height :: u32
  known_format :: bool

text \<open>The rectangles are top, left, width, height.\<close>

record conversion =
  ratio_x :: dbl
  ratio_y :: dbl
  pad_left :: u32
  pad_top :: u32
  src_rect :: "u32 \<times> u32 \<times> u32 \<times> u32"
  dst_rect :: "u32 \<times> u32 \<times> u32 \<times> u32"

text \<open>The size of the image in the destination that keeps the aspect ratio.\<close>

definition fit_size :: "(dbl \<Rightarrow> u32) \<Rightarrow> dest_surface \<Rightarrow> u32 \<Rightarrow> u32 \<Rightarrow> u32 \<times> u32" where
  "fit_size ub d src_width src_height =
     (let hdest = ddiv (dbl_of_u32 (dest_frame_width d * src_height)) (dbl_of_u32 src_width);
          wdest = ddiv (dbl_of_u32 (dest_frame_height d * src_width)) (dbl_of_u32 src_height)
      in if hdest \<le> dbl_of_u32 (dest_frame_height d) then (dest_frame_width d, dbl_to_u32 ub hdest)
         else (dbl_to_u32 ub wdest, dest_frame_height d))"

text \<open>\<open>None\<close> is the failed assertion, \<open>Some None\<close> the result \<open>GST_FLOW_ERROR\<close>.\<close>

definition get_converted_buffer ::
  "(dbl \<Rightarrow> u32) \<Rightarrow> GstNvInfer \<Rightarrow> dest_surface \<Rightarrow> bool \<Rightarrow> NvOSD_RectParams \<Rightarrow> conversion option option" where
  "get_converted_buffer ub n d memset_ok r =
     (let src_left = GST_ROUND_UP_2 (dbl_to_u32 ub (rect_left r));
          src_top = GST_ROUND_UP_2 (dbl_to_u32 ub (rect_top r));
          src_width = GST_ROUND_DOWN_2 (dbl_to_u32 ub (rect_width r));
          src_height = GST_ROUND_DOWN_2 (dbl_to_u32 ub (rect_height r));
          (dw, dh) = (if maintain_aspect_ratio n then fit_size ub d src_width src_height
                      else (network_width n, network_height n));
          sym_pad = maintain_aspect_ratio n \<and> symmetric_padding n;
          left_off = (if sym_pad then (dest_frame_width d - dw) div 2 else 0);
          top_off = (if sym_pad then (dest_frame_height d - dh) div 2 else 0)
      in if maintain_aspect_ratio n \<and> \<not> known_format d then None
         else if maintain_aspect_ratio n \<and> \<not> memset_ok then Some None
         else Some (Some
           \<lparr>ratio_x = ddiv (dbl_of_u32 dw) (dbl_of_u32 src_width), ratio_y = ddiv (dbl_of_u32 dh) (dbl_of_u32 src_height),
            pad_left = left_off, pad_top = top_off, src_rect = (src_top, src_left, src_width, src_height),
            dst_rect = (if symmetric_padding n then (top_off, left_off, dw, dh) else (0, 0, dw, dh))\<rparr>))"

end
