(* ===== verification/InferObjects.thy ===== *)
theory InferObjects
  imports InferConvert
begin

text \<open>
  The streaming thread of the inference element: \<open>gst_nvinfer_process_full_frame\<close>,
  \<open>gst_nvinfer_process_objects\<close>, \<open>should_infer_object\<close> and \<open>cleanup_history_map\<close> of
  \<open>gst-nvinfer/gstnvinfer.cpp\<close>, and the events that change the sources.

  Objects, frames and histories are shared between threads by pointers, so they live in heaps: maps
  from addresses, without an entry for what is freed or handed over to the next element. A history is
  owned by the map of its source; a \<open>weak_ptr\<close> is its address, \<open>lock()\<close> looks it up.

  The functions run once per object or frame. The lock is given up while a conversion buffer is
  acquired and while the object is converted and the batch is queued; only data of the thread and the
  tail of the queue are touched then, so that one object is one atomic step.
\<close>

section \<open>State\<close>

datatype GstFlowReturn =
  GST_FLOW_OK | GST_FLOW_NOT_LINKED | GST_FLOW_FLUSHING | GST_FLOW_EOS | GST_FLOW_NOT_NEGOTIATED | GST_FLOW_ERROR

record GstNvInferObjectHistory =
  under_inference :: bool
  last_inferred_coords :: NvOSD_RectParams
  last_inferred_frame_num :: u64
  last_accessed_frame_num :: u64
  cached_info :: GstNvInferObjectInfo

record GstNvInferSourceInfo =
  object_history_map :: "(u64 \<times> nat) list"
  last_cleanup_frame_num :: u64
  last_seen_frame_num :: u64

text \<open>What a converted image shows: a buffer, the surface in it, the rectangles of the conversion.\<close>

type_synonym crop = "nat \<times> u32 \<times> (u32 \<times> u32 \<times> u32 \<times> u32) \<times> (u32 \<times> u32 \<times> u32 \<times> u32)"

record GstNvInferFrame = frame_scale +
  obj_meta :: "meta_addr option"
  frame_meta :: "meta_addr option"
  batch_index :: u32
  frame_num :: u64
  converted_frame :: crop
  history :: "nat option"

record GstNvInferBatch =
  frames :: "GstNvInferFrame list"
  inbuf :: "nat option"
  inbuf_batch_num :: u64
  push_buffer :: bool
  event_marker :: bool
  objs_pending_meta_attach :: "(nat \<times> meta_addr) list"

record infer_state =
  source_info :: "(u32 \<times> GstNvInferSourceInfo) list"
  histories :: "nat \<Rightarrow> GstNvInferObjectHistory option"
  next_history :: nat
  last_map_cleanup_frame_num :: u64
  current_batch_num :: u64
  interval :: u32
  interval_counter :: u32
  numFilled :: u32
  objects :: "meta_addr \<Rightarrow> NvDsObjectMeta option"
  frame_metas :: "meta_addr \<Rightarrow> NvDsFrameMeta option"
  input_queue :: "GstNvInferBatch list"
  building :: "GstNvInferBatch option"

definition MAP_CLEANUP_INTERVAL :: u64 where "MAP_CLEANUP_INTERVAL = 1800"
definition CLEANUP_ACCESS_CRITERIA :: u64 where "CLEANUP_ACCESS_CRITERIA = 150"
definition REINFER_AREA_THRESHOLD :: rat where "REINFER_AREA_THRESHOLD = 1/5"
definition DEFAULT_REINFER_INTERVAL :: u32 where "DEFAULT_REINFER_INTERVAL = 2147483647"

text \<open>The results of the outside calls that one step makes at most once each.\<close>

record step_calls =
  acquire_buffer :: GstFlowReturn
  buffer_memory :: bool
  dest_frame :: dest_surface
  padding_ok :: bool
  transform_ok :: bool

text \<open>The thread goes on, or the function returns.\<close>

datatype 'a outcome = Continue 'a | Return GstFlowReturn 'a

text \<open>The result of a call or step that may block or be undefined.\<close>

datatype 's step_result = Blocked | Undefined | Next 's

definition empty_batch :: GstNvInferBatch where
  "empty_batch = \<lparr>frames = [], inbuf = None, inbuf_batch_num = 0, push_buffer = False, event_marker = False,
     objs_pending_meta_attach = []\<rparr>"

text \<open>
  The batch that is filled, a new one if there is none; without a conversion buffer the function
  returns and the batch is dropped.
\<close>

definition ensure_batch :: "step_calls \<Rightarrow> nat option \<Rightarrow> infer_state \<Rightarrow> GstNvInferBatch + GstFlowReturn" where
  "ensure_batch cl buf s =
     (case building s of
        Some b \<Rightarrow> Inl b
      | None \<Rightarrow>
          if acquire_buffer cl \<noteq> GST_FLOW_OK then Inr (acquire_buffer cl)
          else if \<not> buffer_memory cl then Inr GST_FLOW_ERROR
          else Inl (empty_batch\<lparr>inbuf := buf, inbuf_batch_num := current_batch_num s\<rparr>))"

text \<open>A failing conversion leaks the batch; the number of filled surfaces is not set back then.\<close>

definition convert_batch_and_push_to_input_thread :: "step_calls \<Rightarrow> GstNvInferBatch \<Rightarrow> infer_state \<Rightarrow> infer_state outcome" where
  "convert_batch_and_push_to_input_thread cl b s =
     (if transform_ok cl then Continue (s\<lparr>building := None, input_queue := input_queue s @ [b], numFilled := 0\<rparr>)
      else Return GST_FLOW_ERROR (s\<lparr>building := None\<rparr>))"

text \<open>A frame of a batch with what its conversion gives; the other members have their defaults.\<close>

definition converted_image :: "nat \<Rightarrow> u32 \<Rightarrow> conversion \<Rightarrow> GstNvInferFrame" where
  "converted_image buf surf c =
     \<lparr>scale_ratio_x = ratio_x c, scale_ratio_y = ratio_y c, offset_left = pad_left c, offset_top = pad_top c,
      roi_left = 0, roi_top = 0, roi_rect = None, input_surf_size = None, obj_meta = None, frame_meta = None,
      batch_index = 0, frame_num = 0, converted_frame = (buf, surf, src_rect c, dst_rect c), history = None\<rparr>"

text \<open>
  The conversion of one image into the batch and the submission of a full batch. The conversion
  writes to the arrays of \<open>tmp_surf\<close>, of size \<open>max_batch_size\<close>; behind them it is undefined.
\<close>

definition add_frame ::
  "meta_env \<Rightarrow> GstNvInfer \<Rightarrow> step_calls \<Rightarrow> bool \<Rightarrow> NvOSD_RectParams \<Rightarrow> nat \<Rightarrow> u32 \<Rightarrow> (GstNvInferFrame \<Rightarrow> GstNvInferFrame) \<Rightarrow>
   GstNvInferBatch \<Rightarrow> infer_state \<Rightarrow> infer_state outcome option" where
  "add_frame env n cl final r buf surf fill b s =
     (case get_converted_buffer (float_to_u32 env) n (dest_frame cl) (padding_ok cl) r of
        None \<Rightarrow> None
      | Some None \<Rightarrow> Some (Return GST_FLOW_ERROR (s\<lparr>building := None\<rparr>))
      | Some (Some c) \<Rightarrow>
          if max_batch_size n \<le> numFilled s then None
          else
            let f = fill (converted_image buf surf c);
                b1 = b\<lparr>frames := frames b @ [f]\<rparr>; s1 = s\<lparr>numFilled := numFilled s + 1\<rparr>
            in if length (frames b1) = unat (max_batch_size n) \<or> final
               then Some (convert_batch_and_push_to_input_thread cl b1 s1)
               else Some (Continue (s1\<lparr>building := Some b1\<rparr>)))"

section \<open>Full frames\<close>

text \<open>
  Only one batched buffer of \<open>interval + 1\<close> is processed; \<open>None\<close> is the division by zero of the largest
  interval.
\<close>

definition skip_batch :: "infer_state \<Rightarrow> (bool \<times> infer_state) option" where
  "skip_batch s =
     (if interval s + 1 = 0 then None
      else Some (0 < interval_counter s mod (interval s + 1), s\<lparr>interval_counter := interval_counter s + 1\<rparr>))"

definition full_rect :: "NvOSD_RectParams \<Rightarrow> u32 \<times> u32 \<Rightarrow> NvOSD_RectParams" where
  "full_rect r surf = r\<lparr>rect_left := 0, rect_top := 0, rect_width := dbl_of_u32 (fst surf), rect_height := dbl_of_u32 (snd surf)\<rparr>"

text \<open>
  The \<open>i\<close>-th surface of a buffer, of the given size, with the metadata of the \<open>i\<close>-th frame; \<open>final\<close> says
  whether it is the last one. \<open>any\<close> is the rest of the uninitialised rectangle, which is not read.
\<close>

definition process_full_frame_step ::
  "meta_env \<Rightarrow> GstNvInfer \<Rightarrow> NvOSD_RectParams \<Rightarrow> step_calls \<Rightarrow> nat \<Rightarrow> u32 \<Rightarrow> (u32 \<times> u32) \<Rightarrow> meta_addr \<Rightarrow> bool \<Rightarrow> infer_state \<Rightarrow>
   infer_state outcome option" where
  "process_full_frame_step env n any cl buf i surf fr final s =
     (case ensure_batch cl (Some buf) s of
        Inr ret \<Rightarrow> Some (Return ret (s\<lparr>building := None\<rparr>))
      | Inl b \<Rightarrow>
          (case frame_metas s fr of
             None \<Rightarrow> None
           | Some fm \<Rightarrow>
               add_frame env n cl final (full_rect any surf) buf i
                 (\<lambda>f. f\<lparr>frame_meta := Some fr, frame_num := scast (meta_frame_num fm), batch_index := i,
                      input_surf_size := Some surf\<rparr>) b s))"

section \<open>Histories\<close>

definition new_history :: "NvOSD_RectParams \<Rightarrow> GstNvInferObjectHistory" where
  "new_history r = \<lparr>under_inference = False, last_inferred_coords = r, last_inferred_frame_num = 0,
     last_accessed_frame_num = 0, cached_info = \<lparr>info_attributes = [], info_label = []\<rparr>\<rparr>"

definition update_history :: "nat \<Rightarrow> (GstNvInferObjectHistory \<Rightarrow> GstNvInferObjectHistory) \<Rightarrow> infer_state \<Rightarrow> infer_state" where
  "update_history a f s = s\<lparr>histories := (histories s)(a := map_option f (histories s a))\<rparr>"

definition find_history :: "u32 \<Rightarrow> u64 \<Rightarrow> infer_state \<Rightarrow> nat option" where
  "find_history src oid s =
     (if oid = UNTRACKED_OBJECT_ID then None
      else Option.bind (map_of (source_info s) src) (\<lambda>si. map_of (object_history_map si) oid))"

text \<open>A history that the cleanup removes.\<close>

definition stale :: "u64 \<Rightarrow> GstNvInferObjectHistory \<Rightarrow> bool" where
  "stale seen h \<longleftrightarrow> \<not> under_inference h \<and> CLEANUP_ACCESS_CRITERIA < seen - last_accessed_frame_num h"

definition stale_at :: "infer_state \<Rightarrow> u64 \<Rightarrow> nat \<Rightarrow> bool" where
  "stale_at s seen a = (case histories s a of None \<Rightarrow> False | Some h \<Rightarrow> stale seen h)"

definition cleanup_due :: "GstNvInferSourceInfo \<Rightarrow> bool" where
  "cleanup_due si \<longleftrightarrow> MAP_CLEANUP_INTERVAL \<le> last_seen_frame_num si - last_cleanup_frame_num si"

definition cleanup_source :: "infer_state \<Rightarrow> GstNvInferSourceInfo \<Rightarrow> GstNvInferSourceInfo" where
  "cleanup_source s si =
     (if cleanup_due si then
        si\<lparr>last_cleanup_frame_num := last_seen_frame_num si,
           object_history_map := filter (\<lambda>(oid, a). \<not> stale_at s (last_seen_frame_num si) a) (object_history_map si)\<rparr>
      else si)"

text \<open>The histories that lose their owner are freed.\<close>

definition owned :: "infer_state \<Rightarrow> nat list" where
  "owned s = concat (map (\<lambda>(src, si). map snd (object_history_map si)) (source_info s))"

definition free_unowned :: "infer_state \<Rightarrow> infer_state" where
  "free_unowned s = s\<lparr>histories := (\<lambda>a. if a \<in> set (owned s) then histories s a else None)\<rparr>"

definition cleanup_history_map :: "infer_state \<Rightarrow> infer_state" where
  "cleanup_history_map s =
     free_unowned (s\<lparr>source_info := map (\<lambda>(src, si). (src, cleanup_source s si)) (source_info s)\<rparr>)"

section \<open>Objects\<close>

definition box_area :: "NvOSD_RectParams \<Rightarrow> dbl" where
  "box_area r = rect_width r * rect_height r"

text \<open>The conditions on the object; \<open>None\<close> is the exception of \<open>at\<close> for a negative class.\<close>

definition object_accepted :: "GstNvInfer \<Rightarrow> NvDsObjectMeta \<Rightarrow> bool option" where
  "object_accepted n ob =
     (let r = rect_params ob
      in if -1 < sint (operate_on_gie_id n) \<and> unique_component_id ob \<noteq> operate_on_gie_id n then Some False
         else if rect_width r < dbl_of_u32 (min_input_object_width n) then Some False
         else if rect_height r < dbl_of_u32 (min_input_object_height n) then Some False
         else if 0 < max_input_object_width n \<and> dbl_of_u32 (max_input_object_width n) < rect_width r then Some False
         else if 0 < max_input_object_height n \<and> dbl_of_u32 (max_input_object_height n) < rect_height r then Some False
         else if operate_on_class_ids n = [] then Some True
         else if int (length (operate_on_class_ids n)) \<le> class_id ob then Some False
         else if class_id ob < 0 then None
         else Some (operate_on_class_ids n ! nat (class_id ob)))"

definition interval_passed :: "GstNvInfer \<Rightarrow> u64 \<Rightarrow> GstNvInferObjectHistory \<Rightarrow> bool" where
  "interval_passed n num h \<longleftrightarrow> ucast (secondary_reinfer_interval n) < num - last_inferred_frame_num h"

definition reinfer :: "GstNvInfer \<Rightarrow> NvDsObjectMeta \<Rightarrow> u64 \<Rightarrow> GstNvInferObjectHistory \<Rightarrow> bool" where
  "reinfer n ob num h =
     (case networkType n of
        NvDsInferNetworkType_Classifier \<Rightarrow>
          box_area (last_inferred_coords h) * Fin (1 + REINFER_AREA_THRESHOLD) < box_area (rect_params ob) \<or>
          interval_passed n num h
      | NvDsInferNetworkType_Detector \<Rightarrow>
          interval_passed n num h \<or> secondary_reinfer_interval n = DEFAULT_REINFER_INTERVAL
      | _ \<Rightarrow> True)"

definition should_infer_object :: "GstNvInfer \<Rightarrow> NvDsObjectMeta \<Rightarrow> u64 \<Rightarrow> GstNvInferObjectHistory option \<Rightarrow> bool option" where
  "should_infer_object n ob num h =
     (case object_accepted n ob of
        Some True \<Rightarrow> (case h of None \<Rightarrow> Some True | Some h' \<Rightarrow> Some (reinfer n ob num h'))
      | r \<Rightarrow> r)"

text \<open>
  An object that is not inferred on and has cached results: the output thread attaches them.
\<close>

definition defer_attachment ::
  "GstNvInfer \<Rightarrow> step_calls \<Rightarrow> nat \<Rightarrow> u64 \<Rightarrow> meta_addr \<Rightarrow> nat \<Rightarrow> infer_state \<Rightarrow> infer_state outcome" where
  "defer_attachment n cl buf num oa h s =
     (case ensure_batch cl (Some buf) s of
        Inr ret \<Rightarrow> Return ret (s\<lparr>building := None\<rparr>)
      | Inl b \<Rightarrow> Continue ((update_history h (\<lambda>hist. hist\<lparr>last_accessed_frame_num := num\<rparr>) s)
                   \<lparr>building := Some (b\<lparr>objs_pending_meta_attach := objs_pending_meta_attach b @ [(h, oa)]\<rparr>)\<rparr>))"

text \<open>The history of an object that is going to be inferred on, created if the object is tracked.\<close>

definition claim_history ::
  "u32 \<Rightarrow> NvDsObjectMeta \<Rightarrow> u64 \<Rightarrow> nat option \<Rightarrow> infer_state \<Rightarrow> nat option \<times> infer_state" where
  "claim_history src ob num h s =
     (let (h', s1) =
        (case h of
           Some a \<Rightarrow> (Some a, s)
         | None \<Rightarrow>
             if object_id ob = UNTRACKED_OBJECT_ID then (None, s)
             else (Some (next_history s),
               s\<lparr>next_history := Suc (next_history s),
                 histories := (histories s)(next_history s \<mapsto> new_history (rect_params ob)),
                 source_info := map (\<lambda>(k, si). (k, if k = src
                     then si\<lparr>object_history_map := object_history_map si @ [(object_id ob, next_history s)]\<rparr> else si))
                   (source_info s)\<rparr>))
      in (h', case h' of
                None \<Rightarrow> s1
              | Some a \<Rightarrow> update_history a (\<lambda>hist. hist\<lparr>under_inference := True, last_inferred_frame_num := num,
                    last_accessed_frame_num := num, last_inferred_coords := rect_params ob\<rparr>) s1))"

text \<open>Queueing the object for the network; \<open>surfs\<close> are the sizes of the surfaces of the buffer.\<close>

definition infer_object ::
  "meta_env \<Rightarrow> GstNvInfer \<Rightarrow> step_calls \<Rightarrow> nat \<Rightarrow> (u32 \<times> u32) list \<Rightarrow> meta_addr \<Rightarrow> NvDsFrameMeta \<Rightarrow> meta_addr \<Rightarrow> NvDsObjectMeta \<Rightarrow>
   nat option \<Rightarrow> infer_state \<Rightarrow> infer_state outcome option" where
  "infer_object env n cl buf surfs fr fm oa ob h s =
     (let num = scast (meta_frame_num fm); async = classifier_async_mode n;
          (h', s1) = claim_history (pad_index fm) ob num h s
      in (case ensure_batch cl (if async then None else Some buf) s1 of
            Inr ret \<Rightarrow> Some (Return ret (s1\<lparr>building := None\<rparr>))
          | Inl b \<Rightarrow>
              if length surfs \<le> unat (batch_id fm) then None
              else add_frame env n cl False (rect_params ob) buf (batch_id fm)
                (\<lambda>f. f\<lparr>obj_meta := (if async then None else Some oa), frame_meta := Some fr, frame_num := num,
                     batch_index := batch_id fm, history := h',
                     input_surf_size := (if async then None else Some (surfs ! unat (batch_id fm)))\<rparr>) b s1))"

text \<open>
  One object of a frame of a known source. In asynchronous mode the cached results are attached here,
  with neither a frame nor a surface.
\<close>

definition process_object ::
  "meta_env \<Rightarrow> GstNvInfer \<Rightarrow> step_calls \<Rightarrow> nat \<Rightarrow> (u32 \<times> u32) list \<Rightarrow> meta_addr \<Rightarrow> meta_addr \<Rightarrow> infer_state \<Rightarrow> infer_state outcome option" where
  "process_object env n cl buf surfs fr oa s =
     (case (frame_metas s fr, objects s oa) of
        (Some fm, Some ob) \<Rightarrow>
          if classifier_async_mode n \<and> object_id ob = UNTRACKED_OBJECT_ID then Some (Continue s)
          else
            let h = find_history (pad_index fm) (object_id ob) s; num = scast (meta_frame_num fm);
                hist = Option.bind h (histories s)
            in (case should_infer_object n ob num hist of
                  None \<Rightarrow> None
                | Some needs_infer \<Rightarrow>
                    if \<not> needs_infer \<and> networkType n = NvDsInferNetworkType_Classifier \<and> h \<noteq> None
                       \<and> \<not> classifier_async_mode n
                    then Some (defer_attachment n cl buf num oa (the h) s)
                    else
                      (case (if classifier_async_mode n then hist else None) of
                         None \<Rightarrow> if needs_infer then infer_object env n cl buf surfs fr fm oa ob h s else Some (Continue s)
                       | Some hi \<Rightarrow>
                           (case attach_metadata_classifier env n None None (Some ob) (cached_info hi) of
                              Some (_, Some ob', _) \<Rightarrow>
                                let s1 = update_history (the h) (\<lambda>hh. hh\<lparr>last_accessed_frame_num := num\<rparr>)
                                           (s\<lparr>objects := (objects s)(oa \<mapsto> ob')\<rparr>)
                                in if needs_infer then infer_object env n cl buf surfs fr fm oa ob' h s1
                                   else Some (Continue s1)
                            | _ \<Rightarrow> None)))
      | _ \<Rightarrow> None)"

text \<open>
  The frame of an unknown source is passed over; otherwise its number is noted and its objects come next.
\<close>

definition begin_frame :: "meta_addr \<Rightarrow> infer_state \<Rightarrow> (meta_addr list \<times> infer_state) option" where
  "begin_frame fr s =
     (case frame_metas s fr of
        None \<Rightarrow> None
      | Some fm \<Rightarrow>
          (case map_of (source_info s) (pad_index fm) of
             None \<Rightarrow> Some ([], s)
           | Some _ \<Rightarrow> Some (obj_meta_list fm,
               s\<lparr>source_info := map (\<lambda>(k, si). (k, if k = pad_index fm
                     then si\<lparr>last_seen_frame_num := scast (meta_frame_num fm)\<rparr> else si)) (source_info s)\<rparr>)))"

text \<open>What is left is submitted, and the histories are cleaned up from time to time.\<close>

definition end_objects :: "step_calls \<Rightarrow> infer_state \<Rightarrow> infer_state outcome" where
  "end_objects cl s =
     (case (case building s of None \<Rightarrow> Continue s | Some b \<Rightarrow> convert_batch_and_push_to_input_thread cl b s) of
        Return ret s1 \<Rightarrow> Return ret s1
      | Continue s1 \<Rightarrow>
          if MAP_CLEANUP_INTERVAL < current_batch_num s1 - last_map_cleanup_frame_num s1
          then Continue ((cleanup_history_map s1)\<lparr>last_map_cleanup_frame_num := current_batch_num s1\<rparr>)
          else Continue s1)"

section \<open>Events\<close>

definition new_source :: GstNvInferSourceInfo where
  "new_source = \<lparr>object_history_map = [], last_cleanup_frame_num = 0, last_seen_frame_num = 0\<rparr>"

definition pad_added :: "u32 \<Rightarrow> infer_state \<Rightarrow> infer_state" where
  "pad_added src s = s\<lparr>source_info := al_touch new_source src (source_info s)\<rparr>"

definition pad_deleted :: "u32 \<Rightarrow> infer_state \<Rightarrow> infer_state" where
  "pad_deleted src s = free_unowned (s\<lparr>source_info := filter (\<lambda>(k, si). k \<noteq> src) (source_info s)\<rparr>)"

definition stream_eos :: "u32 \<Rightarrow> infer_state \<Rightarrow> infer_state" where
  "stream_eos src s = free_unowned
     (s\<lparr>source_info := map (\<lambda>(k, si). (k, if k = src then si\<lparr>object_history_map := []\<rparr> else si)) (source_info s)\<rparr>)"

text \<open>The state after the element was started: the source 0 is known.\<close>

definition start_infer :: "u32 \<Rightarrow> u32 \<Rightarrow> infer_state" where
  "start_infer iv filled = \<lparr>source_info = [(0, new_source)], histories = (\<lambda>_. None), next_history = 0,
     last_map_cleanup_frame_num = 0, current_batch_num = 0, interval = iv, interval_counter = 0, numFilled = filled,
     objects = (\<lambda>_. None), frame_metas = (\<lambda>_. None), input_queue = [], building = None\<rparr>"

end
