(* ===== verification/InferContext.thy ===== *)
theory InferContext
  imports FrameParser InferObjects
begin

text \<open>
  The batches of the inference context: \<open>queueInputBatch\<close>, \<open>dequeueOutputBatch\<close>, \<open>releaseBatchOutput\<close>,
  \<open>resizeOutputBufferpool\<close> and the destructor of \<open>NvDsInferContextImpl\<close>
  (\<open>src/sources/libs/nvdsinfer/nvdsinfer_context_impl.cpp\<close>), with \<open>postProcessHost\<close>.

  A batch owns the buffers of one inference. It waits in the queue of free batches, carries an inference
  in the process queue, or is with the caller who has its output. CUDA and TensorRT are outside: the
  results of their calls are parameters, and \<open>network\<close> gives the output layers for one image.
\<close>

section \<open>State\<close>

text \<open>The images the network runs on stand for the contents of the device buffers.\<close>

record NvDsInferBatch =
  m_BatchSize :: u32
  m_BuffersWithContext :: bool
  device_input :: "crop list"

text \<open>
  A batch is named by its position in \<open>m_Batches\<close>; a null pointer there is \<open>None\<close>. \<open>calls\<close> gives the
  results of the outside calls for the operation that comes next.
\<close>

record context_calls =
  preprocess_status :: NvDsInferStatus
  memory_low :: bool
  allocated :: nat
  backend_status :: NvDsInferStatus
  output_status :: NvDsInferStatus

record 'p NvDsInferContextImpl =
  m_MaxBatchSize :: u32
  m_AutoIncMem :: bool
  m_Batches :: "NvDsInferBatch option list"
  m_FreeBatchQueue :: "nat list"
  m_ProcessBatchQueue :: "nat list"
  m_Postprocessor :: 'p
  calls :: "nat \<Rightarrow> context_calls"
  operations :: nat

definition new_batch :: NvDsInferBatch where
  "new_batch = \<lparr>m_BatchSize = 0, m_BuffersWithContext = True, device_input = []\<rparr>"

definition next_calls :: "'p NvDsInferContextImpl \<Rightarrow> context_calls" where
  "next_calls c = calls c (operations c)"

definition count_operation :: "'p NvDsInferContextImpl \<Rightarrow> 'p NvDsInferContextImpl" where
  "count_operation c = c\<lparr>operations := Suc (operations c)\<rparr>"

definition update_batch :: "nat \<Rightarrow> (NvDsInferBatch \<Rightarrow> NvDsInferBatch) \<Rightarrow> 'p NvDsInferContextImpl \<Rightarrow> 'p NvDsInferContextImpl" where
  "update_batch i f c = c\<lparr>m_Batches := (m_Batches c)[i := map_option f (m_Batches c ! i)]\<rparr>"

section \<open>Growing the pool\<close>

text \<open>
  \<open>numBuffers\<close> new batches of which the first \<open>allocated\<close> get their memory. The next one is left
  incomplete and the others are null pointers when the memory runs out.
\<close>

definition resizeOutputBufferpool :: "nat \<Rightarrow> context_calls \<Rightarrow> 'p NvDsInferContextImpl \<Rightarrow> NvDsInferStatus \<times> 'p NvDsInferContextImpl" where
  "resizeOutputBufferpool numBuffers cl c =
     (let size = length (m_Batches c)
      in if 0 < size \<and> memory_low cl then (NVDSINFER_MEM_ERROR, c)
         else if numBuffers \<le> allocated cl then
           (NVDSINFER_SUCCESS, c\<lparr>m_Batches := m_Batches c @ replicate numBuffers (Some new_batch),
              m_FreeBatchQueue := m_FreeBatchQueue c @ [size..<size + numBuffers]\<rparr>)
         else
           (NVDSINFER_CUDA_ERROR, c\<lparr>m_Batches := m_Batches c @ replicate (Suc (allocated cl)) (Some new_batch) @
                replicate (numBuffers - Suc (allocated cl)) None,
              m_FreeBatchQueue := m_FreeBatchQueue c @ [size..<size + allocated cl]\<rparr>))"

section \<open>Queueing and dequeueing\<close>

definition queueInputBatch ::
  "crop list \<Rightarrow> 'p NvDsInferContextImpl \<Rightarrow> (NvDsInferStatus \<times> 'p NvDsInferContextImpl) step_result" where
  "queueInputBatch input c0 =
     (let cl = next_calls c0; c = count_operation c0
      in if unat (m_MaxBatchSize c) < length input then Next (NVDSINFER_INVALID_PARAMS, c)
         else if preprocess_status cl \<noteq> NVDSINFER_SUCCESS then Next (preprocess_status cl, c)
         else
           (case (if m_FreeBatchQueue c = [] \<and> m_AutoIncMem c then resizeOutputBufferpool 6 cl c
                  else (NVDSINFER_SUCCESS, c)) of
              (st, c1) \<Rightarrow>
                if st \<noteq> NVDSINFER_SUCCESS then Next (st, c1)
                else (case m_FreeBatchQueue c1 of
                        [] \<Rightarrow> Blocked
                      | i # free \<Rightarrow>
                          if backend_status cl \<noteq> NVDSINFER_SUCCESS
                          then Next (backend_status cl, update_batch i (m_BatchSize_update (\<lambda>_. of_nat (length input)))
                                 (c1\<lparr>m_FreeBatchQueue := free @ [i]\<rparr>))
                          else Next (NVDSINFER_SUCCESS,
                                 update_batch i (\<lambda>b. b\<lparr>m_BatchSize := of_nat (length input), device_input := input\<rparr>)
                                   (c1\<lparr>m_FreeBatchQueue := free, m_ProcessBatchQueue := m_ProcessBatchQueue c1 @ [i]\<rparr>)))))"

text \<open>
  The output of the first batch of the process queue, with the pointer \<open>priv\<close>. \<open>output_status\<close> is what
  waiting for the copies gives. A batch without an output goes back to the free ones.
\<close>

definition dequeueOutputBatch ::
  "('p \<Rightarrow> NvDsInferLayerInfo list \<Rightarrow> NvDsInferFrameOutput \<Rightarrow> ('p \<times> NvDsInferStatus \<times> NvDsInferFrameOutput) option) \<Rightarrow>
   (crop \<Rightarrow> NvDsInferLayerInfo list) \<Rightarrow> 'p NvDsInferContextImpl \<Rightarrow>
   (NvDsInferStatus \<times> NvDsInferFrameOutput list \<times> nat \<times> 'p NvDsInferContextImpl) step_result" where
  "dequeueOutputBatch parse network c0 =
     (let cl = next_calls c0; c = count_operation c0
      in case m_ProcessBatchQueue c of
           [] \<Rightarrow> Blocked
         | i # rest \<Rightarrow>
             (case (if i < length (m_Batches c) then m_Batches c ! i else None) of
                None \<Rightarrow> Undefined
              | Some b \<Rightarrow>
                  let c1 = c\<lparr>m_ProcessBatchQueue := rest\<rparr>;
                      recycled = c1\<lparr>m_FreeBatchQueue := m_FreeBatchQueue c @ [i]\<rparr>
                  in if output_status cl \<noteq> NVDSINFER_SUCCESS then Next (output_status cl, [], i, recycled)
                     else (case post_frames parse (\<lambda>k. network (device_input b ! k)) [0..<unat (m_BatchSize b)]
                                  (m_Postprocessor c) of
                             None \<Rightarrow> Undefined
                           | Some (p, st, outs) \<Rightarrow>
                               if st \<noteq> NVDSINFER_SUCCESS then Next (st, [], i, recycled\<lparr>m_Postprocessor := p\<rparr>)
                               else Next (NVDSINFER_SUCCESS, outs, i,
                                      update_batch i (m_BuffersWithContext_update (\<lambda>_. False)) (c1\<lparr>m_Postprocessor := p\<rparr>)))))"

text \<open>An output that is not known or already given back is ignored.\<close>

definition with_caller :: "nat \<Rightarrow> 'p NvDsInferContextImpl \<Rightarrow> bool" where
  "with_caller i c \<longleftrightarrow> i < length (m_Batches c) \<and>
     (case m_Batches c ! i of None \<Rightarrow> False | Some b \<Rightarrow> \<not> m_BuffersWithContext b)"

definition releaseBatchOutput :: "nat \<Rightarrow> 'p NvDsInferContextImpl \<Rightarrow> 'p NvDsInferContextImpl" where
  "releaseBatchOutput i c =
     (if with_caller i c then
        update_batch i (m_BuffersWithContext_update (\<lambda>_. True)) (c\<lparr>m_FreeBatchQueue := m_FreeBatchQueue c @ [i]\<rparr>)
      else c)"

text \<open>The destructor looks at every batch; the result says whether it warns of outputs not given back.\<close>

definition destroy_context :: "'p NvDsInferContextImpl \<Rightarrow> bool option" where
  "destroy_context c =
     (if None \<in> set (m_Batches c) then None
      else Some (\<exists>b\<in>set (m_Batches c). b \<noteq> None \<and> \<not> m_BuffersWithContext (the b)))"

definition start_context :: "u32 \<Rightarrow> bool \<Rightarrow> 'p \<Rightarrow> (nat \<Rightarrow> context_calls) \<Rightarrow> 'p NvDsInferContextImpl" where
  "start_context mx auto p cls =
     \<lparr>m_MaxBatchSize = mx, m_AutoIncMem = auto, m_Batches = [], m_FreeBatchQueue = [], m_ProcessBatchQueue = [],
      m_Postprocessor = p, calls = cls, operations = 0\<rparr>"

end
