(* ===== verification/InferPipeline.thy ===== *)
theory InferPipeline
  imports InferContext
begin

text \<open>
  The threads of the inference element and their queues: \<open>gst_nvinfer_submit_input_buffer\<close>,
  \<open>gst_nvinfer_sink_event\<close>, \<open>gst_nvinfer_input_queue_loop\<close>, \<open>gst_nvinfer_output_loop\<close> of
  \<open>gst-nvinfer/gstnvinfer.cpp\<close>, and the replacement of the model at run time in \<open>gstnvinfer_impl.cpp\<close>.

  The streaming thread fills batches and puts them into the input queue, the input queue thread hands
  them to the inference context and moves them to the process queue, the output thread takes the
  results and attaches them. A step is what a thread does while it holds the lock; a batch that a
  thread holds while it has given up the lock is in its hand. The inference context is a record of its
  two operations, which may block; the pool of conversion buffers is not modelled.
\<close>

section \<open>State\<close>

record NvBuffer =
  buf_surfaces :: "(u32 \<times> u32) list"
  buf_frames :: "NvDsFrameMeta list"
  buf_objects :: "NvDsObjectMeta list"
  mappable :: bool
  has_batch_meta :: bool
  memory_compatible :: bool

text \<open>
  What the element calls of the inference context. The output of a batch comes with the pointer that
  gives it back; after an error that pointer is not initialised, and giving it back has no effect.
\<close>

record 'c infer_context =
  queue_input :: "'c \<Rightarrow> crop list \<Rightarrow> (NvDsInferStatus \<times> 'c) step_result"
  dequeue_output :: "'c \<Rightarrow> (NvDsInferStatus \<times> NvDsInferFrameOutput list \<times> nat \<times> 'c) step_result"
  release_output :: "nat \<Rightarrow> 'c \<Rightarrow> 'c"

datatype infer_event =
  PadAdded u32 | PadDeleted u32 | StreamEos u32 | IntervalUpdate u32 | Eos | Tag | OtherEvent bool

datatype downstream_item = PushedBuffer nat | ForwardedEvent infer_event

text \<open>What the streaming thread has still to do for a buffer, and what it waits for.\<close>

datatype todo =
  FrameTodo meta_addr | ObjectTodo meta_addr meta_addr | FullTodo nat bool | EndTodo | PushTodo

datatype 'c waiting = ForEvent infer_event | ForModel 'c nat NvBuffer

datatype 'c streaming =
  Idle | Working nat "(u32 \<times> u32) list" "todo list" | DrainInput "'c waiting" | DrainProcess "'c waiting"

record 'c infer_pipeline =
  elem :: infer_state
  process_queue :: "GstNvInferBatch list"
  input_hand :: "GstNvInferBatch option"
  output_hand :: "GstNvInferBatch option"
  thread :: "'c streaming"
  ctx :: 'c
  last_flow_ret :: GstFlowReturn
  model_number :: nat
  held_outputs :: "(nat \<times> nat) list"
  next_buffer :: nat
  accepted :: "downstream_item list"
  delivered :: "downstream_item list"

text \<open>
  Buffers are numbered as they arrive, models as they are installed. \<open>held_outputs\<close> are the outputs that
  attached metadata points to, each with the number of the model whose context it goes back to.
  \<open>accepted\<close> records the buffers and serialized events the element took, \<open>delivered\<close> those it handed to
  the next element; no code depends on them.
\<close>

datatype 'c label =
  Submit NvBuffer "'c option" | Event infer_event | Stream step_calls GstFlowReturn
| InputPop | InputQueue | OutputPop | OutputRun GstFlowReturn | MetaFreed "nat \<times> nat"

section \<open>Buffers\<close>

definition install_buffer :: "nat \<Rightarrow> NvBuffer \<Rightarrow> infer_state \<Rightarrow> infer_state" where
  "install_buffer b buf s = s
     \<lparr>objects := (\<lambda>(b', i). if b' = b then (if i < length (buf_objects buf) then Some (buf_objects buf ! i) else None)
                            else objects s (b', i)),
      frame_metas := (\<lambda>(b', i). if b' = b then (if i < length (buf_frames buf) then Some (buf_frames buf ! i) else None)
                                else frame_metas s (b', i))\<rparr>"

text \<open>The metadata belongs to the next element when the buffer was pushed.\<close>

definition remove_buffer :: "nat \<Rightarrow> infer_state \<Rightarrow> infer_state" where
  "remove_buffer b s = s\<lparr>objects := (\<lambda>(b', i). if b' = b then None else objects s (b', i)),
     frame_metas := (\<lambda>(b', i). if b' = b then None else frame_metas s (b', i))\<rparr>"

definition deliver :: "nat \<Rightarrow> GstFlowReturn \<Rightarrow> 'c infer_pipeline \<Rightarrow> 'c infer_pipeline" where
  "deliver b ret s = s\<lparr>elem := remove_buffer b (elem s), last_flow_ret := ret, delivered := delivered s @ [PushedBuffer b]\<rparr>"

section \<open>The streaming thread\<close>

text \<open>The thread of the input queue does not exist when tensors come from the pre-processing element.\<close>

definition queue_batch :: "GstNvInfer \<Rightarrow> GstNvInferBatch \<Rightarrow> 'c infer_pipeline \<Rightarrow> 'c infer_pipeline" where
  "queue_batch n b s =
     (if input_tensor_from_meta n then s\<lparr>process_queue := process_queue s @ [b]\<rparr>
      else s\<lparr>elem := (elem s)\<lparr>input_queue := input_queue (elem s) @ [b]\<rparr>\<rparr>)"

definition marker :: GstNvInferBatch where
  "marker = empty_batch\<lparr>event_marker := True\<rparr>"

definition push_batch :: "nat \<Rightarrow> GstNvInferBatch" where
  "push_batch b = empty_batch\<lparr>inbuf := Some b, push_buffer := True\<rparr>"

text \<open>
  The beginning of \<open>submit_input_buffer\<close> and of the function for the mode of the element; \<open>None\<close> as
  list of things to do is the result \<open>GST_FLOW_ERROR\<close>.
\<close>

definition first_todo :: "GstNvInfer \<Rightarrow> nat \<Rightarrow> NvBuffer \<Rightarrow> infer_state \<Rightarrow> (todo list option \<times> infer_state) option" where
  "first_todo n b buf s =
     (let m = length (buf_frames buf)
      in if \<not> mappable buf then Some (None, s)
         else if process_full_frame n then
           (case skip_batch s of
              None \<Rightarrow> None
            | Some (True, s1) \<Rightarrow> Some (Some [PushTodo], s1)
            | Some (False, s1) \<Rightarrow>
                if \<not> memory_compatible buf \<or> \<not> has_batch_meta buf then Some (None, s1)
                else Some (Some (map (\<lambda>i. FullTodo i (Suc i = m)) [0..<m] @ [PushTodo]), s1))
         else if \<not> has_batch_meta buf then Some (None, s)
         else Some (Some (map (\<lambda>i. FrameTodo (b, i)) [0..<m] @ [EndTodo, PushTodo]), s))"

definition start_work :: "GstNvInfer \<Rightarrow> nat \<Rightarrow> NvBuffer \<Rightarrow> 'c infer_pipeline \<Rightarrow> 'c infer_pipeline step_result" where
  "start_work n b buf s =
     (let e = install_buffer b buf ((elem s)\<lparr>current_batch_num := current_batch_num (elem s) + 1\<rparr>)
      in case first_todo n b buf e of
           None \<Rightarrow> Undefined
         | Some (None, e1) \<Rightarrow> Next (s\<lparr>elem := e1, thread := Idle\<rparr>)
         | Some (Some ts, e1) \<Rightarrow> Next (s\<lparr>elem := e1, thread := Working b (buf_surfaces buf) ts\<rparr>))"

definition idle :: "'c infer_pipeline \<Rightarrow> bool" where
  "idle s = (case thread s of Idle \<Rightarrow> True | _ \<Rightarrow> False)"

lemma idle_iff [simp]: "idle s \<longleftrightarrow> thread s = Idle"
  by (simp add: idle_def split: streaming.split)

text \<open>
  The pointers of a buffer lead to metadata of the buffer. A new model is waited for and installed first; its marker goes
  into the input queue in every mode. Regions of interest and tensors of the pre-processing element
  are not modelled, so such a buffer is not accepted beyond that point.
\<close>

definition buffer_ok :: "nat \<Rightarrow> NvBuffer \<Rightarrow> bool" where
  "buffer_ok b buf \<longleftrightarrow>
     (\<forall>fm\<in>set (buf_frames buf). \<forall>(b', i)\<in>set (obj_meta_list fm). b' = b \<and> i < length (buf_objects buf))"

definition submit :: "GstNvInfer \<Rightarrow> NvBuffer \<Rightarrow> 'c option \<Rightarrow> 'c infer_pipeline \<Rightarrow> 'c infer_pipeline step_result" where
  "submit n buf model s0 =
     (let b = next_buffer s0; s = s0\<lparr>next_buffer := Suc b\<rparr>
      in if \<not> idle s \<or> \<not> buffer_ok b buf then Blocked
         else (case model of
                 Some c \<Rightarrow> Next (s\<lparr>elem := (elem s)\<lparr>input_queue := input_queue (elem s) @ [marker]\<rparr>,
                                  thread := DrainInput (ForModel c b buf)\<rparr>)
               | None \<Rightarrow> if input_tensor_from_meta n then Blocked else start_work n b buf s))"

definition handle_event :: "infer_event \<Rightarrow> infer_state \<Rightarrow> infer_state" where
  "handle_event ev s =
     (case ev of
        PadAdded src \<Rightarrow> pad_added src s
      | PadDeleted src \<Rightarrow> pad_deleted src s
      | StreamEos src \<Rightarrow> stream_eos src s
      | IntervalUpdate v \<Rightarrow> s\<lparr>interval := v\<rparr>
      | Eos \<Rightarrow> s\<lparr>interval_counter := 0\<rparr>
      | _ \<Rightarrow> s)"

text \<open>Tag events are serialized too, but not treated so.\<close>

fun treated_serialized :: "infer_event \<Rightarrow> bool" where
  "treated_serialized Tag = False"
| "treated_serialized (OtherEvent serialized) = serialized"
| "treated_serialized _ = True"

definition sink_event :: "GstNvInfer \<Rightarrow> infer_event \<Rightarrow> 'c infer_pipeline \<Rightarrow> 'c infer_pipeline step_result" where
  "sink_event n ev s =
     (if \<not> idle s then Blocked
      else if treated_serialized ev \<and> \<not> classifier_async_mode n
      then Next ((queue_batch n marker s)\<lparr>thread := DrainInput (ForEvent ev), accepted := accepted s @ [ForwardedEvent ev]\<rparr>)
      else Next (s\<lparr>elem := handle_event ev (elem s)\<rparr>))"

definition clear_histories :: "infer_state \<Rightarrow> infer_state" where
  "clear_histories s = free_unowned
     (s\<lparr>source_info := map (\<lambda>(src, si). (src, si\<lparr>object_history_map := []\<rparr>)) (source_info s)\<rparr>)"

definition drained :: "GstNvInfer \<Rightarrow> 'c waiting \<Rightarrow> 'c infer_pipeline \<Rightarrow> 'c infer_pipeline step_result" where
  "drained n w s =
     (case w of
        ForEvent ev \<Rightarrow> Next (s\<lparr>elem := handle_event ev (elem s), thread := Idle, delivered := delivered s @ [ForwardedEvent ev]\<rparr>)
      | ForModel c b buf \<Rightarrow> start_work n b buf (s\<lparr>elem := clear_histories (elem s), ctx := c, model_number := Suc (model_number s)\<rparr>))"

text \<open>
  The result of a step for a buffer: after \<open>GST_FLOW_ERROR\<close> the buffer is given up, after any other
  result it is pushed.
\<close>

definition continue_work ::
  "nat \<Rightarrow> (u32 \<times> u32) list \<Rightarrow> todo list \<Rightarrow> infer_state outcome option \<Rightarrow> 'c infer_pipeline \<Rightarrow> 'c infer_pipeline step_result" where
  "continue_work b surfs ts r s =
     (case r of
        None \<Rightarrow> Undefined
      | Some (Continue e) \<Rightarrow> Next (s\<lparr>elem := e, thread := Working b surfs ts\<rparr>)
      | Some (Return ret e) \<Rightarrow>
          Next (s\<lparr>elem := e, thread := (if ret = GST_FLOW_ERROR then Idle else Working b surfs [PushTodo])\<rparr>))"

definition work ::
  "meta_env \<Rightarrow> GstNvInfer \<Rightarrow> NvOSD_RectParams \<Rightarrow> step_calls \<Rightarrow> GstFlowReturn \<Rightarrow> nat \<Rightarrow> (u32 \<times> u32) list \<Rightarrow> todo \<Rightarrow>
   todo list \<Rightarrow> 'c infer_pipeline \<Rightarrow> 'c infer_pipeline step_result" where
  "work env n any cl pushed b surfs t ts s =
     (case t of
        FrameTodo fr \<Rightarrow>
          (case begin_frame fr (elem s) of
             None \<Rightarrow> Undefined
           | Some (os, e) \<Rightarrow> Next (s\<lparr>elem := e, thread := Working b surfs (map (ObjectTodo fr) os @ ts)\<rparr>))
      | ObjectTodo fr oa \<Rightarrow> continue_work b surfs ts (process_object env n cl b surfs fr oa (elem s)) s
      | FullTodo i final \<Rightarrow>
          if length surfs \<le> i then Undefined
          else continue_work b surfs ts
                 (process_full_frame_step env n any cl b (of_nat i) (surfs ! i) (b, i) final (elem s)) s
      | EndTodo \<Rightarrow> continue_work b surfs ts (Some (end_objects cl (elem s))) s
      | PushTodo \<Rightarrow>
          let s1 = s\<lparr>accepted := accepted s @ [PushedBuffer b], thread := Idle\<rparr>
          in Next (if classifier_async_mode n then deliver b pushed s1 else queue_batch n (push_batch b) s1))"

definition stream_step ::
  "meta_env \<Rightarrow> GstNvInfer \<Rightarrow> NvOSD_RectParams \<Rightarrow> step_calls \<Rightarrow> GstFlowReturn \<Rightarrow> 'c infer_pipeline \<Rightarrow> 'c infer_pipeline step_result" where
  "stream_step env n any cl pushed s =
     (case thread s of
        Working b surfs (t # ts) \<Rightarrow> work env n any cl pushed b surfs t ts s
      | DrainInput w \<Rightarrow> if input_queue (elem s) = [] then Next (s\<lparr>thread := DrainProcess w\<rparr>) else Blocked
      | DrainProcess w \<Rightarrow> if process_queue s = [] then drained n w s else Blocked
      | _ \<Rightarrow> Blocked)"

section \<open>The input queue thread\<close>

definition inferred :: "GstNvInferBatch \<Rightarrow> bool" where
  "inferred b \<longleftrightarrow> \<not> push_buffer b \<and> \<not> event_marker b \<and> frames b \<noteq> []"

definition input_pop :: "GstNvInfer \<Rightarrow> 'c infer_pipeline \<Rightarrow> 'c infer_pipeline step_result" where
  "input_pop n s =
     (if input_tensor_from_meta n then Blocked
      else (case (input_hand s, input_queue (elem s)) of
              (None, b # bs) \<Rightarrow>
                let s1 = s\<lparr>elem := (elem s)\<lparr>input_queue := bs\<rparr>\<rparr>
                in Next (if inferred b then s1\<lparr>input_hand := Some b\<rparr> else s1\<lparr>process_queue := process_queue s @ [b]\<rparr>)
            | _ \<Rightarrow> Blocked))"

text \<open>A batch that cannot be queued is dropped, freed or not.\<close>

definition input_queue_step :: "'c infer_context \<Rightarrow> 'c infer_pipeline \<Rightarrow> 'c infer_pipeline step_result" where
  "input_queue_step ops s =
     (case input_hand s of
        None \<Rightarrow> Blocked
      | Some b \<Rightarrow>
          (case queue_input ops (ctx s) (map converted_frame (frames b)) of
             Blocked \<Rightarrow> Blocked
           | Undefined \<Rightarrow> Undefined
           | Next (st, c) \<Rightarrow>
               let s1 = s\<lparr>ctx := c, input_hand := None\<rparr>
               in Next (if st = NVDSINFER_SUCCESS then s1\<lparr>process_queue := process_queue s @ [b]\<rparr> else s1)))"

section \<open>The output thread\<close>

text \<open>Following a pointer: a null pointer is \<open>Some None\<close>, a dangling one \<open>None\<close>.\<close>

definition follow :: "('a \<Rightarrow> 'b option) \<Rightarrow> 'a option \<Rightarrow> 'b option option" where
  "follow heap p = (case p of None \<Rightarrow> Some None | Some a \<Rightarrow> map_option Some (heap a))"

definition store_at :: "'a option \<Rightarrow> 'b option \<Rightarrow> ('a \<Rightarrow> 'b option) \<Rightarrow> 'a \<Rightarrow> 'b option" where
  "store_at p v heap = (case p of None \<Rightarrow> heap | Some a \<Rightarrow> heap(a := v))"

text \<open>Attaching a classification to the frame and the object of \<open>f\<close>; what goes to a region of interest is not kept.\<close>

definition attach_classifier :: "meta_env \<Rightarrow> GstNvInfer \<Rightarrow> GstNvInferFrame \<Rightarrow> GstNvInferObjectInfo \<Rightarrow> infer_state \<Rightarrow> infer_state option" where
  "attach_classifier env n f info s =
     (case (follow (frame_metas s) (frame_meta f), follow (objects s) (obj_meta f)) of
        (Some fm, Some ob) \<Rightarrow>
          map_option (\<lambda>(fm', ob', _). s\<lparr>frame_metas := store_at (frame_meta f) fm' (frame_metas s),
                                       objects := store_at (obj_meta f) ob' (objects s)\<rparr>)
            (attach_metadata_classifier env n (input_surf_size f) fm ob info)
      | _ \<Rightarrow> None)"

definition attach_segmentation :: "GstNvInfer \<Rightarrow> GstNvInferFrame \<Rightarrow> NvDsInferSegmentationOutput \<Rightarrow> infer_state \<Rightarrow> infer_state option" where
  "attach_segmentation n f out s =
     (case (follow (frame_metas s) (frame_meta f), follow (objects s) (obj_meta f)) of
        (Some fm, Some ob) \<Rightarrow>
          map_option (\<lambda>(fm', ob', _). s\<lparr>frame_metas := store_at (frame_meta f) fm' (frame_metas s),
                                       objects := store_at (obj_meta f) ob' (objects s)\<rparr>)
            (attach_metadata_segmentation n fm ob out)
      | _ \<Rightarrow> None)"

definition attach_detector :: "meta_env \<Rightarrow> GstNvInfer \<Rightarrow> GstNvInferFrame \<Rightarrow> NvDsInferDetectionOutput \<Rightarrow> infer_state \<Rightarrow> infer_state option" where
  "attach_detector env n f out s =
     (case (follow (frame_metas s) (frame_meta f), follow (objects s) (obj_meta f)) of
        (Some (Some fm), Some ob) \<Rightarrow>
          map_option (\<lambda>new_objs. s\<lparr>frame_metas := store_at (frame_meta f)
                (Some (fm\<lparr>bInferDone := True, added_objects := added_objects fm @ map (\<lambda>o'. (o', obj_meta f)) new_objs\<rparr>))
                (frame_metas s)\<rparr>)
            (attach_metadata_detector env n
               (map_option (\<lambda>o'. (rect_left (rect_params o'), rect_top (rect_params o'))) ob) f out)
      | _ \<Rightarrow> None)"

definition finish_inference :: "GstNvInferFrame \<Rightarrow> infer_state \<Rightarrow> infer_state" where
  "finish_inference f s =
     (case history f of
        None \<Rightarrow> s
      | Some a \<Rightarrow> update_history a (\<lambda>h. if last_inferred_frame_num h = frame_num f then h\<lparr>under_inference := False\<rparr> else h) s)"

definition classification_info :: "NvDsInferClassificationOutput \<Rightarrow> GstNvInferObjectInfo" where
  "classification_info out =
     \<lparr>info_attributes = take (unat (numAttributes out)) (class_attributes out), info_label = attr_string out\<rparr>"

text \<open>The output of a frame must be of the kind that the network has; reading another one is undefined.\<close>

definition attach_frame :: "meta_env \<Rightarrow> GstNvInfer \<Rightarrow> GstNvInferFrame \<Rightarrow> NvDsInferFrameOutput \<Rightarrow> infer_state \<Rightarrow> infer_state option" where
  "attach_frame env n f fo s0 =
     (let s = finish_inference f s0
      in case (networkType n, frame_output fo) of
           (NvDsInferNetworkType_Detector, DetectionOutput out) \<Rightarrow> attach_detector env n f out s
         | (NvDsInferNetworkType_InstanceSegmentation, DetectionOutput out) \<Rightarrow> attach_detector env n f out s
         | (NvDsInferNetworkType_Classifier, ClassificationOutput out) \<Rightarrow>
             if length (class_attributes out) < unat (numAttributes out) then None
             else
               let new_info = classification_info out;
                   s1 = (case history f of
                           None \<Rightarrow> s
                         | Some a \<Rightarrow> update_history a (\<lambda>h. h\<lparr>cached_info := merge_classification_output (cached_info h) new_info\<rparr>) s);
                   info = (case Option.bind (history f) (histories s1) of None \<Rightarrow> new_info | Some h \<Rightarrow> cached_info h)
               in if classifier_async_mode n then Some s1 else attach_classifier env n f info s1
         | (NvDsInferNetworkType_Segmentation, SegmentationOutput out) \<Rightarrow> attach_segmentation n f out s
         | (NvDsInferNetworkType_Other, _) \<Rightarrow> Some s
         | _ \<Rightarrow> None)"

fun attach_frames :: "meta_env \<Rightarrow> GstNvInfer \<Rightarrow> GstNvInferFrame list \<Rightarrow> NvDsInferFrameOutput list \<Rightarrow> infer_state \<Rightarrow> infer_state option" where
  "attach_frames env n [] outs s = Some s"
| "attach_frames env n (f # fs) [] s = None"
| "attach_frames env n (f # fs) (fo # outs) s = Option.bind (attach_frame env n f fo s) (attach_frames env n fs outs)"

text \<open>A weak pointer that has expired is dereferenced as a null pointer here.\<close>

definition empty_frame :: "meta_addr \<Rightarrow> GstNvInferFrame" where
  "empty_frame oa = \<lparr>scale_ratio_x = 0, scale_ratio_y = 0, offset_left = 0, offset_top = 0, roi_left = 0, roi_top = 0,
     roi_rect = None, input_surf_size = None, obj_meta = Some oa, frame_meta = None, batch_index = 0, frame_num = 0,
     converted_frame = (0, 0, (0, 0, 0, 0), (0, 0, 0, 0)), history = None\<rparr>"

fun attach_pending :: "meta_env \<Rightarrow> GstNvInfer \<Rightarrow> (nat \<times> meta_addr) list \<Rightarrow> infer_state \<Rightarrow> infer_state option" where
  "attach_pending env n [] s = Some s"
| "attach_pending env n ((a, oa) # ps) s =
     (case histories s a of
        None \<Rightarrow> None
      | Some h \<Rightarrow> Option.bind (attach_classifier env n (empty_frame oa) (cached_info h) s) (attach_pending env n ps))"

definition run_attach ::
  "infer_state option \<Rightarrow> 'c infer_pipeline \<Rightarrow> 'c infer_pipeline step_result" where
  "run_attach r s = (case r of None \<Rightarrow> Undefined | Some e \<Rightarrow> Next (s\<lparr>elem := e\<rparr>))"

definition output_pop :: "meta_env \<Rightarrow> GstNvInfer \<Rightarrow> 'c infer_pipeline \<Rightarrow> 'c infer_pipeline step_result" where
  "output_pop env n s =
     (case (output_hand s, process_queue s) of
        (None, b # bs) \<Rightarrow>
          let s1 = s\<lparr>process_queue := bs\<rparr>
          in if event_marker b then Next s1
             else if frames b = [] \<and> \<not> push_buffer b
             then run_attach (attach_pending env n (objs_pending_meta_attach b) (elem s1)) s1
             else Next (s1\<lparr>output_hand := Some b\<rparr>)
      | _ \<Rightarrow> Blocked)"

definition output_run ::
  "meta_env \<Rightarrow> GstNvInfer \<Rightarrow> 'c infer_context \<Rightarrow> GstFlowReturn \<Rightarrow> 'c infer_pipeline \<Rightarrow> 'c infer_pipeline step_result" where
  "output_run env n ops pushed s =
     (case output_hand s of
        None \<Rightarrow> Blocked
      | Some b \<Rightarrow>
          let s1 = s\<lparr>output_hand := None\<rparr>
          in if push_buffer b then
               (case inbuf b of None \<Rightarrow> Undefined | Some buf \<Rightarrow> Next (deliver buf pushed s1))
             else (case dequeue_output ops (ctx s) of
                     Blocked \<Rightarrow> Blocked
                   | Undefined \<Rightarrow> Undefined
                   | Next (st, outs, priv, c) \<Rightarrow>
                       if st \<noteq> NVDSINFER_SUCCESS then Next (s1\<lparr>ctx := c\<rparr>)
                       else
                         let held = networkType n = NvDsInferNetworkType_Segmentation;
                             s2 = (if held then s1\<lparr>ctx := c, held_outputs := held_outputs s @ [(model_number s, priv)]\<rparr>
                                   else s1\<lparr>ctx := release_output ops priv c\<rparr>)
                         in run_attach (Option.bind (attach_frames env n (frames b) outs (elem s2))
                              (attach_pending env n (objs_pending_meta_attach b))) s2))"

text \<open>
  A segmentation points into the output of its batch, which is given back when the metadata is freed. A
  context that was replaced lives until then, and no other step uses it.
\<close>

definition meta_freed :: "'c infer_context \<Rightarrow> nat \<times> nat \<Rightarrow> 'c infer_pipeline \<Rightarrow> 'c infer_pipeline step_result" where
  "meta_freed ops held s =
     (if held \<in> set (held_outputs s)
      then Next (s\<lparr>held_outputs := remove1 held (held_outputs s),
                   ctx := (if fst held = model_number s then release_output ops (snd held) (ctx s) else ctx s)\<rparr>)
      else Blocked)"

section \<open>The element\<close>

definition infer_step ::
  "meta_env \<Rightarrow> GstNvInfer \<Rightarrow> NvOSD_RectParams \<Rightarrow> 'c infer_context \<Rightarrow> 'c label \<Rightarrow> 'c infer_pipeline \<Rightarrow> 'c infer_pipeline step_result" where
  "infer_step env n any ops l s =
     (case l of
        Submit buf model \<Rightarrow> submit n buf model s
      | Event ev \<Rightarrow> sink_event n ev s
      | Stream cl pushed \<Rightarrow> stream_step env n any cl pushed s
      | InputPop \<Rightarrow> input_pop n s
      | InputQueue \<Rightarrow> input_queue_step ops s
      | OutputPop \<Rightarrow> output_pop env n s
      | OutputRun pushed \<Rightarrow> output_run env n ops pushed s
      | MetaFreed held \<Rightarrow> meta_freed ops held s)"

definition start_pipeline :: "u32 \<Rightarrow> u32 \<Rightarrow> 'c \<Rightarrow> 'c infer_pipeline" where
  "start_pipeline iv filled c =
     \<lparr>elem = start_infer iv filled, process_queue = [], input_hand = None, output_hand = None, thread = Idle, ctx = c,
      last_flow_ret = GST_FLOW_OK, model_number = 0, held_outputs = [], next_buffer = 0, accepted = [], delivered = []\<rparr>"

end
