(* ===== verification/InferFifo.thy ===== *)
theory InferFifo
  imports InferPipeline
begin

text \<open>
  The inference context as the inference element relies on it: a queue of batches of images, whose
  outputs come in the order of the inputs. \<open>pending\<close> is what was queued and not dequeued, \<open>produces\<close>
  relates an image to an output of its frame. The context of the library is the provider
  (\<open>InferContextProps\<close>).
\<close>

locale fifo_context =
  fixes ops :: "'c infer_context"
    and context_inv :: "'c \<Rightarrow> bool"
    and pending :: "'c \<Rightarrow> crop list list"
    and produces :: "crop \<Rightarrow> NvDsInferFrameOutput \<Rightarrow> bool"
  assumes queue_success: "context_inv c \<Longrightarrow> queue_input ops c i = Next (NVDSINFER_SUCCESS, c') \<Longrightarrow>
      context_inv c' \<and> pending c' = pending c @ [i]"
    and queue_failure: "context_inv c \<Longrightarrow> queue_input ops c i = Next (st, c') \<Longrightarrow> st \<noteq> NVDSINFER_SUCCESS \<Longrightarrow>
      context_inv c' \<and> pending c' = pending c"
    and queue_defined: "queue_input ops c i \<noteq> Undefined"
    and dequeue_blocks: "context_inv c \<Longrightarrow> pending c = [] \<Longrightarrow> dequeue_output ops c = Blocked"
    and dequeue_pops: "context_inv c \<Longrightarrow> dequeue_output ops c = Next (st, outs, priv, c') \<Longrightarrow>
      context_inv c' \<and> pending c \<noteq> [] \<and> pending c' = tl (pending c)"
    and dequeue_success: "context_inv c \<Longrightarrow> dequeue_output ops c = Next (NVDSINFER_SUCCESS, outs, priv, c') \<Longrightarrow>
      list_all2 produces (hd (pending c)) outs"
    and release_keeps: "context_inv c \<Longrightarrow> context_inv (release_output ops priv c) \<and>
      pending (release_output ops priv c) = pending c"

text \<open>
  A context that lends out its outputs: \<open>lent\<close> are those that the caller has. Queueing waits only while
  something is to come back, and there is an output as soon as something was queued.
\<close>

locale lending_context = fifo_context +
  fixes lent :: "'a \<Rightarrow> nat set"
  assumes queue_lends: "context_inv c \<Longrightarrow> queue_input ops c i = Next (st, c') \<Longrightarrow> lent c' = lent c"
    and dequeue_lends: "context_inv c \<Longrightarrow> dequeue_output ops c = Next (st, outs, priv, c') \<Longrightarrow>
      lent c' \<subseteq> (if st = NVDSINFER_SUCCESS then insert priv (lent c) else lent c)"
    and release_lends: "context_inv c \<Longrightarrow> lent (release_output ops priv c) \<subseteq> lent c - {priv}"
    and queue_waits: "context_inv c \<Longrightarrow> queue_input ops c i = Blocked \<Longrightarrow> pending c \<noteq> [] \<or> lent c \<noteq> {}"
    and dequeue_ready: "context_inv c \<Longrightarrow> pending c \<noteq> [] \<Longrightarrow> dequeue_output ops c \<noteq> Blocked"

end
