(* ===== verification/InferPipelineProps.thy ===== *)
theory InferPipelineProps
  imports InferFifo
begin

text \<open>
  The invariant of the queues of the inference element, for a synchronous element without tensor input:
  batches are in one line from the streaming thread to the next element, buffers and serialized events
  keep their order, a buffer is not handed over while a batch refers to its metadata, and an event is
  handled when the line is empty.
\<close>

text \<open>Addresses are pairs, and quantified variables for them stay variables.\<close>

declare split_paired_All [simp del] split_paired_Ex [simp del]

section \<open>Steps of the streaming thread\<close>

definition opt_list :: "'a option \<Rightarrow> 'a list" where
  "opt_list x = (case x of None \<Rightarrow> [] | Some a \<Rightarrow> [a])"

lemma opt_list_simps [simp]: "opt_list None = []" "opt_list (Some x) = [x]"
  by (simp_all add: opt_list_def)

lemma set_opt_list [simp]: "set (opt_list x) = set_option x"
  by (cases x) auto

text \<open>What a batch for buffer \<open>k\<close> refers to is there.\<close>

definition alive :: "infer_state \<Rightarrow> nat \<Rightarrow> meta_addr \<Rightarrow> bool" where
  "alive e k a \<longleftrightarrow> fst a = k \<and> a \<in> dom (objects e)"

definition frame_alive :: "infer_state \<Rightarrow> nat \<Rightarrow> meta_addr \<Rightarrow> bool" where
  "frame_alive e k a \<longleftrightarrow> fst a = k \<and> a \<in> dom (frame_metas e)"

definition refs_ok :: "infer_state \<Rightarrow> nat \<Rightarrow> GstNvInferFrame \<Rightarrow> bool" where
  "refs_ok e k f \<longleftrightarrow> (case frame_meta f of None \<Rightarrow> False | Some a \<Rightarrow> frame_alive e k a) \<and>
     (case obj_meta f of None \<Rightarrow> True | Some a \<Rightarrow> alive e k a) \<and> fst (converted_frame f) = k"

definition work_batch :: "infer_state \<Rightarrow> nat \<Rightarrow> GstNvInferBatch \<Rightarrow> bool" where
  "work_batch e k b \<longleftrightarrow> inbuf b = Some k \<and> \<not> push_buffer b \<and> \<not> event_marker b \<and>
     (\<forall>f\<in>set (frames b). refs_ok e k f) \<and> (\<forall>(h, a)\<in>set (objs_pending_meta_attach b). alive e k a)"

definition same_metas :: "infer_state \<Rightarrow> infer_state \<Rightarrow> bool" where
  "same_metas e e' \<longleftrightarrow> dom (objects e') = dom (objects e) \<and> dom (frame_metas e') = dom (frame_metas e)"

lemma same_metas_refl [simp]: "same_metas e e" by (simp add: same_metas_def)

lemma same_metas_trans: "same_metas e e' \<Longrightarrow> same_metas e' e'' \<Longrightarrow> same_metas e e''"
  by (simp add: same_metas_def)

lemma same_metas_fields [simp]:
  "same_metas e (e'\<lparr>building := x\<rparr>) = same_metas e e'" "same_metas e (e'\<lparr>input_queue := q\<rparr>) = same_metas e e'"
  "same_metas e (e'\<lparr>numFilled := m\<rparr>) = same_metas e e'" "same_metas e (e'\<lparr>histories := hs\<rparr>) = same_metas e e'"
  "same_metas e (e'\<lparr>source_info := si\<rparr>) = same_metas e e'" "same_metas e (e'\<lparr>next_history := m'\<rparr>) = same_metas e e'"
  "same_metas e (e'\<lparr>last_map_cleanup_frame_num := g\<rparr>) = same_metas e e'"
  "same_metas e (e'\<lparr>interval_counter := ic\<rparr>) = same_metas e e'" "same_metas e (e'\<lparr>interval := iv\<rparr>) = same_metas e e'"
  by (simp_all add: same_metas_def)

lemma alive_same: "same_metas e e' \<Longrightarrow> alive e' = alive e" "same_metas e e' \<Longrightarrow> frame_alive e' = frame_alive e"
  by (auto simp: same_metas_def alive_def frame_alive_def fun_eq_iff)

lemma refs_ok_same: "same_metas e e' \<Longrightarrow> refs_ok e' k f = refs_ok e k f"
  by (simp add: refs_ok_def alive_same split: option.split)

lemma work_batch_same: "same_metas e e' \<Longrightarrow> work_batch e' k b = work_batch e k b"
  by (simp add: work_batch_def refs_ok_same alive_same)

lemma work_batch_fields [simp]:
  "work_batch (e\<lparr>building := x\<rparr>) k b = work_batch e k b" "work_batch (e\<lparr>input_queue := q\<rparr>) k b = work_batch e k b"
  "work_batch (e\<lparr>numFilled := m\<rparr>) k b = work_batch e k b"
  "work_batch (e\<lparr>last_map_cleanup_frame_num := g\<rparr>) k b = work_batch e k b"
  by (rule work_batch_same, simp)+

text \<open>
  A step for buffer \<open>k\<close> appends at most one batch to the input queue and leaves batches for \<open>k\<close>.
\<close>

definition stream_effect :: "nat \<Rightarrow> infer_state \<Rightarrow> infer_state \<Rightarrow> bool" where
  "stream_effect k e e' \<longleftrightarrow> same_metas e e' \<and> frame_metas e' = frame_metas e \<and>
     (\<exists>q. input_queue e' = input_queue e @ q \<and> (\<forall>b\<in>set q \<union> set_option (building e'). work_batch e' k b))"

fun outcome_state :: "'a outcome \<Rightarrow> 'a" where
  "outcome_state (Continue s) = s"
| "outcome_state (Return ret s) = s"

definition stream_ready :: "nat \<Rightarrow> infer_state \<Rightarrow> bool" where
  "stream_ready k e \<longleftrightarrow> (\<forall>b\<in>set_option (building e). work_batch e k b)"

lemma stream_effect_refl: "stream_ready k e \<Longrightarrow> stream_effect k e e"
  by (auto simp: stream_effect_def stream_ready_def)

lemma stream_effect_drop: "stream_effect k e (e\<lparr>building := None\<rparr>)"
  by (simp add: stream_effect_def)

lemma stream_effect_trans:
  "same_metas e e1 \<Longrightarrow> frame_metas e1 = frame_metas e \<Longrightarrow> input_queue e1 = input_queue e \<Longrightarrow>
     stream_effect k e1 e' \<Longrightarrow> stream_effect k e e'"
  by (auto simp: stream_effect_def intro: same_metas_trans)

lemma ensure_batch_work:
  assumes "ensure_batch cl (Some k) e = Inl b" "stream_ready k e"
  shows "work_batch e k b"
  using assms by (auto simp: ensure_batch_def stream_ready_def work_batch_def empty_batch_def split: option.splits if_splits)

lemma convert_batch_effect:
  assumes "work_batch e k b"
  shows "stream_effect k e (outcome_state (convert_batch_and_push_to_input_thread cl b e))"
  using assms by (auto simp: convert_batch_and_push_to_input_thread_def stream_effect_def)

lemma add_frame_cases:
  assumes "add_frame env n cl final r buf surf fill b e = Some out"
  obtains (failed) "out = Return GST_FLOW_ERROR (e\<lparr>building := None\<rparr>)"
  | (added) f e1 where
      "e1 = e\<lparr>numFilled := numFilled e + 1\<rparr>" "\<exists>c. f = fill (converted_image buf surf c)"
      "out = convert_batch_and_push_to_input_thread cl (b\<lparr>frames := frames b @ [f]\<rparr>) e1 \<or>
       out = Continue (e1\<lparr>building := Some (b\<lparr>frames := frames b @ [f]\<rparr>)\<rparr>)"
proof (cases "get_converted_buffer (float_to_u32 env) n (dest_frame cl) (padding_ok cl) r")
  case None
  then show thesis using assms by (simp add: add_frame_def)
next
  case (Some c)
  show thesis
  proof (cases c)
    case None
    then show thesis using assms Some failed by (simp add: add_frame_def)
  next
    case (Some c')
    show thesis
      by (rule added[of _ "fill (converted_image buf surf c')", OF refl])
        (use assms \<open>get_converted_buffer _ _ _ _ _ = Some c\<close> Some in \<open>auto simp: add_frame_def Let_def split: if_splits\<close>)
  qed
qed

lemma add_frame_effect:
  assumes "add_frame env n cl final r buf surf fill b e = Some out" "work_batch e k b"
    "\<And>c. refs_ok e k (fill (converted_image buf surf c))"
  shows "stream_effect k e (outcome_state out)"
  using assms(1)
proof (cases rule: add_frame_cases)
  case failed
  then show ?thesis by (simp add: stream_effect_drop)
next
  case (added f e1)
  then have f: "refs_ok e k f" using assms(3) by blast
  have e1: "same_metas e e1" using added(1) by simp
  have b: "work_batch e1 k (b\<lparr>frames := frames b @ [f]\<rparr>)"
    using assms(2) f unfolding work_batch_same[OF e1] by (auto simp: work_batch_def)
  from added(3) show ?thesis
  proof
    assume "out = convert_batch_and_push_to_input_thread cl (b\<lparr>frames := frames b @ [f]\<rparr>) e1"
    with stream_effect_trans[OF e1 _ _ convert_batch_effect[OF b, of cl]] added(1) show ?thesis by simp
  next
    assume "out = Continue (e1\<lparr>building := Some (b\<lparr>frames := frames b @ [f]\<rparr>)\<rparr>)"
    with b e1 added(1) show ?thesis by (auto simp: stream_effect_def)
  qed
qed

lemma process_full_frame_effect:
  assumes "process_full_frame_step env n any cl k i surf fr final e = Some out" "stream_ready k e" "fst fr = k"
  shows "stream_effect k e (outcome_state out)"
proof (cases "ensure_batch cl (Some k) e")
  case (Inl b)
  with assms(1) obtain fm where fm: "frame_metas e fr = Some fm"
    by (auto simp: process_full_frame_step_def split: option.splits)
  show ?thesis
    by (rule add_frame_effect[OF _ ensure_batch_work[OF Inl assms(2)]])
      (use assms(1,3) Inl fm in \<open>auto simp: process_full_frame_step_def refs_ok_def frame_alive_def converted_image_def\<close>)
next
  case (Inr ret)
  then show ?thesis using assms(1) by (auto simp: process_full_frame_step_def stream_effect_drop)
qed

lemma update_history_fields [simp]:
  "objects (update_history a f s) = objects s" "frame_metas (update_history a f s) = frame_metas s"
  "input_queue (update_history a f s) = input_queue s" "building (update_history a f s) = building s"
  "source_info (update_history a f s) = source_info s" "next_history (update_history a f s) = next_history s"
  "numFilled (update_history a f s) = numFilled s" "current_batch_num (update_history a f s) = current_batch_num s"
  by (simp_all add: update_history_def)

lemma same_metas_update_history [simp]: "same_metas e (update_history a f s) = same_metas e s"
  by (simp add: same_metas_def)

lemma claim_history_same:
  assumes "claim_history src ob num h e = (h', e1)"
  shows "same_metas e e1" "input_queue e1 = input_queue e" "building e1 = building e"
    "current_batch_num e1 = current_batch_num e" "numFilled e1 = numFilled e" "frame_metas e1 = frame_metas e"
  using assms by (auto simp: claim_history_def same_metas_def Let_def split: option.splits if_splits prod.splits)

lemma infer_object_effect:
  assumes "infer_object env n cl k surfs fr fm oa ob h e = Some out" "stream_ready k e" "frame_alive e k fr" "alive e k oa"
    "\<not> classifier_async_mode n"
  shows "stream_effect k e (outcome_state out)"
proof -
  obtain h' e1 where c: "claim_history (pad_index fm) ob (scast (meta_frame_num fm)) h e = (h', e1)" by fastforce
  note same = claim_history_same[OF c]
  have ready: "stream_ready k e1" using assms(2) same by (simp add: stream_ready_def work_batch_same)
  have "stream_effect k e1 (outcome_state out)"
  proof (cases "ensure_batch cl (Some k) e1")
    case (Inl b)
    show ?thesis
      by (rule add_frame_effect[OF _ ensure_batch_work[OF Inl ready]])
        (use assms c Inl in \<open>auto simp: infer_object_def refs_ok_def alive_same[OF same(1)] converted_image_def split: if_splits\<close>)
  next
    case (Inr ret)
    then show ?thesis using assms(1,5) c by (auto simp: infer_object_def stream_effect_drop)
  qed
  then show ?thesis using stream_effect_trans[OF same(1,6,2)] by simp
qed

lemma defer_attachment_effect:
  assumes "stream_ready k e" "alive e k oa"
  shows "stream_effect k e (outcome_state (defer_attachment n cl k num oa h e))"
proof (cases "ensure_batch cl (Some k) e")
  case (Inl b)
  let ?b = "b\<lparr>objs_pending_meta_attach := objs_pending_meta_attach b @ [(h, oa)]\<rparr>"
  let ?e = "(update_history h (\<lambda>hist. hist\<lparr>last_accessed_frame_num := num\<rparr>) e)\<lparr>building := Some ?b\<rparr>"
  have same: "same_metas e ?e" by simp
  have "work_batch e k ?b" using ensure_batch_work[OF Inl assms(1)] assms(2) by (auto simp: work_batch_def)
  then have "work_batch ?e k ?b" by (simp only: work_batch_same[OF same])
  with same Inl show ?thesis by (auto simp: defer_attachment_def stream_effect_def)
next
  case (Inr ret)
  then show ?thesis by (simp add: defer_attachment_def stream_effect_drop)
qed

lemma process_object_cases:
  assumes "process_object env n cl k surfs fr oa e = Some out" "\<not> classifier_async_mode n"
  obtains fm ob h needs where "frame_metas e fr = Some fm" "objects e oa = Some ob"
    "h = find_history (pad_index fm) (object_id ob) e"
    "should_infer_object n ob (scast (meta_frame_num fm)) (Option.bind h (histories e)) = Some needs"
    "if needs then infer_object env n cl k surfs fr fm oa ob h e = Some out
     else if networkType n = NvDsInferNetworkType_Classifier \<and> h \<noteq> None
     then out = defer_attachment n cl k (scast (meta_frame_num fm)) oa (the h) e else out = Continue e"
proof -
  obtain fm ob where m: "frame_metas e fr = Some fm" "objects e oa = Some ob"
    using assms(1) by (auto simp: process_object_def split: option.splits)
  define h where "h = find_history (pad_index fm) (object_id ob) e"
  obtain needs where needs: "should_infer_object n ob (scast (meta_frame_num fm)) (Option.bind h (histories e)) = Some needs"
    using assms m by (auto simp: process_object_def h_def Let_def split: option.splits)
  show thesis
    by (rule that[OF m h_def needs])
      (use assms m needs in \<open>auto simp: process_object_def h_def[symmetric] Let_def split: if_splits\<close>)
qed

lemma process_object_effect:
  assumes "process_object env n cl k surfs fr oa e = Some out" "stream_ready k e" "fst fr = k" "fst oa = k"
    "\<not> classifier_async_mode n"
  shows "stream_effect k e (outcome_state out)"
  using assms(1,5)
proof (cases rule: process_object_cases)
  case (1 fm ob h needs)
  then have "frame_alive e k fr" "alive e k oa" using assms(3,4) by (auto simp: frame_alive_def alive_def)
  then show ?thesis
    using 1(5) infer_object_effect[OF _ assms(2) _ _ assms(5)] defer_attachment_effect[OF assms(2)]
      stream_effect_refl[OF assms(2)] by (auto split: if_splits)
qed

lemma free_unowned_fields [simp]:
  "objects (free_unowned s) = objects s" "frame_metas (free_unowned s) = frame_metas s"
  "input_queue (free_unowned s) = input_queue s" "building (free_unowned s) = building s"
  "source_info (free_unowned s) = source_info s" "next_history (free_unowned s) = next_history s"
  "current_batch_num (free_unowned s) = current_batch_num s"
  by (simp_all add: free_unowned_def)

lemma same_metas_free_unowned [simp]: "same_metas e (free_unowned s) = same_metas e s"
  by (simp add: same_metas_def)

lemma cleanup_same [simp]:
  "frame_metas (cleanup_history_map s) = frame_metas s" "objects (cleanup_history_map s) = objects s"
  "same_metas e (cleanup_history_map s) = same_metas e s" "input_queue (cleanup_history_map s) = input_queue s"
  "building (cleanup_history_map s) = building s"
  by (simp_all add: cleanup_history_map_def)

lemma work_batch_cleanup [simp]: "work_batch (cleanup_history_map e) k b = work_batch e k b"
  by (rule work_batch_same) simp

lemma end_objects_effect:
  assumes "stream_ready k e"
  shows "stream_effect k e (outcome_state (end_objects cl e)) \<and> building (outcome_state (end_objects cl e)) = None"
proof (cases "building e")
  case None
  then show ?thesis by (auto simp: end_objects_def stream_effect_def)
next
  case (Some b)
  then have "work_batch e k b" using assms by (simp add: stream_ready_def)
  from convert_batch_effect[OF this, of cl] show ?thesis using Some
    by (auto simp: end_objects_def convert_batch_and_push_to_input_thread_def stream_effect_def)
qed

section \<open>The line of batches\<close>

definition pushes :: "GstNvInferBatch list \<Rightarrow> nat list" where
  "pushes bs = concat (map (\<lambda>b. if push_buffer b then opt_list (inbuf b) else []) bs)"

lemma pushes_simps [simp]:
  "pushes [] = []" "pushes (b # bs) = (if push_buffer b then opt_list (inbuf b) else []) @ pushes bs"
  "pushes (xs @ ys) = pushes xs @ pushes ys"
  by (simp_all add: pushes_def)

text \<open>No batch for a buffer stands behind the batch that pushes it; \<open>P\<close> are the buffers pushed before.\<close>

fun unserved :: "nat set \<Rightarrow> GstNvInferBatch list \<Rightarrow> bool" where
  "unserved P [] = True"
| "unserved P (b # bs) \<longleftrightarrow> (push_buffer b \<or> event_marker b \<or> (case inbuf b of None \<Rightarrow> False | Some k \<Rightarrow> k \<notin> P)) \<and>
     unserved (P \<union> set (pushes [b])) bs"

definition batch_shape :: "infer_state \<Rightarrow> GstNvInferBatch \<Rightarrow> bool" where
  "batch_shape e b \<longleftrightarrow> event_marker b \<and> \<not> push_buffer b \<or> push_buffer b \<and> \<not> event_marker b \<and> inbuf b \<noteq> None \<or>
     (\<exists>k. work_batch e k b)"

definition line_ok :: "infer_state \<Rightarrow> nat set \<Rightarrow> GstNvInferBatch list \<Rightarrow> bool" where
  "line_ok e P bs \<longleftrightarrow> (\<forall>b\<in>set bs. batch_shape e b) \<and> unserved P bs"

lemma unserved_append: "unserved P (xs @ ys) \<longleftrightarrow> unserved P xs \<and> unserved (P \<union> set (pushes xs)) ys"
  by (induction xs arbitrary: P) (auto simp: Un_assoc)

lemma line_ok_Nil [simp]: "line_ok e P []"
  by (simp add: line_ok_def)

lemma line_ok_append: "line_ok e P (xs @ ys) \<longleftrightarrow> line_ok e P xs \<and> line_ok e (P \<union> set (pushes xs)) ys"
  by (auto simp: line_ok_def unserved_append)

lemma line_ok_Cons: "line_ok e P (b # bs) \<longleftrightarrow> line_ok e P [b] \<and> line_ok e (P \<union> set (pushes [b])) bs"
  using line_ok_append[of e P "[b]" bs] by simp

lemma line_ok_same: "same_metas e e' \<Longrightarrow> line_ok e' P bs = line_ok e P bs"
  by (simp add: line_ok_def batch_shape_def work_batch_same)

lemma line_ok_drop: "line_ok e P (xs @ b # ys) \<Longrightarrow> \<not> push_buffer b \<Longrightarrow> line_ok e P (xs @ ys)"
  by (simp add: line_ok_append line_ok_Cons[of _ _ b ys])

lemma line_ok_front: "line_ok e P (b # bs) \<Longrightarrow> \<not> push_buffer b \<Longrightarrow> line_ok e P bs"
  using line_ok_drop[of e P "[]"] by simp

lemma line_ok_marker [simp]: "line_ok e P [marker]" "\<not> push_buffer marker" "event_marker marker" "frames marker = []"
  by (simp_all add: line_ok_def batch_shape_def marker_def empty_batch_def)

lemma line_ok_push [simp]: "line_ok e P [push_batch k]" "push_buffer (push_batch k)" "inbuf (push_batch k) = Some k"
  "\<not> event_marker (push_batch k)"
  by (simp_all add: line_ok_def batch_shape_def push_batch_def empty_batch_def)

lemma line_ok_work:
  assumes "\<forall>b\<in>set bs. work_batch e k b" "k \<notin> P"
  shows "line_ok e P bs" "pushes bs = []"
  using assms by (induction bs) (auto simp: line_ok_def batch_shape_def work_batch_def)

lemma work_batch_key: "work_batch e k b \<Longrightarrow> inbuf b = Some k \<and> \<not> push_buffer b \<and> \<not> event_marker b"
  by (simp add: work_batch_def)

lemma remove_alive [simp]:
  "alive (remove_buffer j e) k a \<longleftrightarrow> k \<noteq> j \<and> alive e k a"
  "frame_alive (remove_buffer j e) k a \<longleftrightarrow> k \<noteq> j \<and> frame_alive e k a"
  by (cases a; auto simp: alive_def frame_alive_def remove_buffer_def split: if_splits)+

lemma refs_ok_remove: "k \<noteq> j \<Longrightarrow> refs_ok (remove_buffer j e) k f = refs_ok e k f"
  by (simp add: refs_ok_def split: option.split)

lemma work_batch_remove: "k \<noteq> j \<Longrightarrow> work_batch (remove_buffer j e) k b = work_batch e k b"
  by (simp add: work_batch_def refs_ok_remove)

lemma line_ok_remove: "line_ok e P bs \<Longrightarrow> j \<in> P \<Longrightarrow> line_ok (remove_buffer j e) P bs"
proof (induction bs arbitrary: P)
  case (Cons b bs)
  from Cons.prems(1) have b: "line_ok e P [b]" and bs: "line_ok e (P \<union> set (pushes [b])) bs"
    using line_ok_Cons by blast+
  have "batch_shape (remove_buffer j e) b"
  proof (cases "\<exists>k. work_batch e k b")
    case True
    then obtain k where k: "work_batch e k b" by blast
    with b have "k \<notin> P" using work_batch_key[OF k] by (auto simp: line_ok_def)
    with Cons.prems(2) have "k \<noteq> j" by auto
    with k have "work_batch (remove_buffer j e) k b" by (simp add: work_batch_remove)
    then show ?thesis unfolding batch_shape_def by blast
  next
    case False
    then show ?thesis using b by (auto simp: line_ok_def batch_shape_def)
  qed
  then have "line_ok (remove_buffer j e) P [b]" using b by (simp add: line_ok_def)
  moreover have "line_ok (remove_buffer j e) (P \<union> set (pushes [b])) bs"
    by (rule Cons.IH[OF bs]) (use Cons.prems(2) in simp)
  ultimately show ?case using line_ok_Cons by blast
qed simp

section \<open>The invariant\<close>

definition line :: "'c infer_pipeline \<Rightarrow> GstNvInferBatch list" where
  "line s = opt_list (output_hand s) @ process_queue s @ opt_list (input_hand s) @ input_queue (elem s) @ opt_list (building (elem s))"

definition buffers_of :: "downstream_item list \<Rightarrow> nat set" where
  "buffers_of xs = {k. PushedBuffer k \<in> set xs}"

lemma buffers_of_simps [simp]:
  "buffers_of (xs @ ys) = buffers_of xs \<union> buffers_of ys" "buffers_of [] = {}" "buffers_of [PushedBuffer k] = {k}"
  "buffers_of [ForwardedEvent ev] = {}" "buffers_of (map PushedBuffer ks) = set ks"
  by (auto simp: buffers_of_def)

text \<open>A frame lists objects of its buffer; addresses are of buffers that arrived.\<close>

definition metas_ok :: "nat \<Rightarrow> infer_state \<Rightarrow> bool" where
  "metas_ok m e \<longleftrightarrow> (\<forall>fr fm. frame_metas e fr = Some fm \<longrightarrow> (\<forall>oa\<in>set (obj_meta_list fm). alive e (fst fr) oa)) \<and>
     fst ` dom (objects e) \<subseteq> {..<m} \<and> fst ` dom (frame_metas e) \<subseteq> {..<m}"

fun todo_ok :: "infer_state \<Rightarrow> nat \<Rightarrow> todo \<Rightarrow> bool" where
  "todo_ok e k (FrameTodo fr) = frame_alive e k fr"
| "todo_ok e k (ObjectTodo fr oa) = (frame_alive e k fr \<and> alive e k oa)"
| "todo_ok e k (FullTodo i final) = frame_alive e k (k, i)"
| "todo_ok e k _ = True"

text \<open>The batch that is filled is submitted before the buffer is pushed, which comes last.\<close>

fun todos_wf :: "bool \<Rightarrow> todo list \<Rightarrow> bool" where
  "todos_wf filling [] = False"
| "todos_wf filling (PushTodo # ts) = (\<not> filling \<and> ts = [])"
| "todos_wf filling (EndTodo # ts) = todos_wf False ts"
| "todos_wf filling (FullTodo i final # ts) = todos_wf (\<not> final) ts"
| "todos_wf filling (FrameTodo fr # ts) = todos_wf True ts"
| "todos_wf filling (ObjectTodo fr oa # ts) = todos_wf True ts"

fun waited_event :: "'c streaming \<Rightarrow> downstream_item list" where
  "waited_event (DrainInput (ForEvent ev)) = [ForwardedEvent ev]"
| "waited_event (DrainProcess (ForEvent ev)) = [ForwardedEvent ev]"
| "waited_event _ = []"

fun arrived :: "'c infer_pipeline \<Rightarrow> 'c waiting \<Rightarrow> bool" where
  "arrived s (ForEvent ev) = True"
| "arrived s (ForModel c k buf) = (k < next_buffer s \<and> k \<notin> buffers_of (accepted s) \<and> buffer_ok k buf)"

definition marked :: "GstNvInferBatch list \<Rightarrow> bool" where
  "marked bs \<longleftrightarrow> bs = [] \<or> event_marker (last bs)"

definition thread_ok :: "'c infer_pipeline \<Rightarrow> bool" where
  "thread_ok s \<longleftrightarrow>
     (case thread s of
        Idle \<Rightarrow> building (elem s) = None
      | Working k surfs ts \<Rightarrow> k < next_buffer s \<and> k \<notin> buffers_of (accepted s) \<and> stream_ready k (elem s) \<and>
          (\<forall>t\<in>set ts. todo_ok (elem s) k t) \<and> todos_wf (building (elem s) \<noteq> None) ts
      | DrainInput w \<Rightarrow> building (elem s) = None \<and> arrived s w \<and> marked (line s)
      | DrainProcess w \<Rightarrow> building (elem s) = None \<and> arrived s w \<and> marked (line s) \<and>
          input_queue (elem s) = [] \<and> input_hand s = None)"

definition hands_ok :: "'c infer_pipeline \<Rightarrow> bool" where
  "hands_ok s \<longleftrightarrow> (\<forall>b\<in>set_option (output_hand s). \<not> event_marker b \<and> (push_buffer b \<or> frames b \<noteq> [])) \<and>
     (\<forall>b\<in>set_option (input_hand s). inferred b)"

definition pipe_inv :: "'c infer_pipeline \<Rightarrow> bool" where
  "pipe_inv s \<longleftrightarrow> line_ok (elem s) (buffers_of (delivered s)) (line s) \<and> hands_ok s \<and> metas_ok (next_buffer s) (elem s) \<and>
     accepted s = delivered s @ map PushedBuffer (pushes (line s)) @ waited_event (thread s) \<and>
     buffers_of (accepted s) \<subseteq> {..<next_buffer s} \<and> thread_ok s"

lemma pipe_invD:
  assumes "pipe_inv s"
  shows "line_ok (elem s) (buffers_of (delivered s)) (line s)" "hands_ok s" "metas_ok (next_buffer s) (elem s)"
    "accepted s = delivered s @ map PushedBuffer (pushes (line s)) @ waited_event (thread s)"
    "buffers_of (accepted s) \<subseteq> {..<next_buffer s}" "thread_ok s"
  using assms unfolding pipe_inv_def by blast+

lemma pipe_invI:
  assumes "line_ok (elem s) (buffers_of (delivered s)) (line s)" "hands_ok s" "metas_ok (next_buffer s) (elem s)"
    "accepted s = delivered s @ map PushedBuffer (pushes (line s)) @ waited_event (thread s)"
    "buffers_of (accepted s) \<subseteq> {..<next_buffer s}" "thread_ok s"
  shows "pipe_inv s"
  using assms unfolding pipe_inv_def by blast

lemma todos_wf_mono: "todos_wf True ts \<Longrightarrow> todos_wf b ts"
  by (induction b ts rule: todos_wf.induct) auto

lemma pipe_inv_start: "pipe_inv (start_pipeline iv filled c)"
  by (simp add: pipe_inv_def start_pipeline_def start_infer_def line_def hands_ok_def metas_ok_def thread_ok_def)

section \<open>The threads that empty the line\<close>

lemma todo_ok_same: "same_metas e e' \<Longrightarrow> todo_ok e' k t = todo_ok e k t"
  by (cases t) (simp_all add: alive_same)

text \<open>
  A step that removes the first batch, or one in the hand of the input queue thread, that pushes nothing.
\<close>

lemma thread_ok_shrunk:
  assumes "thread_ok s" "thread s' = thread s" "next_buffer s' = next_buffer s" "accepted s' = accepted s"
    "same_metas (elem s) (elem s')" "building (elem s') = building (elem s)"
    "marked (line s) \<Longrightarrow> marked (line s')"
    "input_queue (elem s) = [] \<Longrightarrow> input_hand s = None \<Longrightarrow> input_queue (elem s') = [] \<and> input_hand s' = None"
  shows "thread_ok s'"
proof (cases "thread s")
  case (Working k surfs ts)
  then show ?thesis using assms by (simp add: thread_ok_def stream_ready_def work_batch_same todo_ok_same)
next
  case (DrainInput w)
  then show ?thesis using assms by (cases w) (auto simp: thread_ok_def)
next
  case (DrainProcess w)
  then show ?thesis using assms by (cases w) (auto simp: thread_ok_def)
qed (use assms in \<open>simp add: thread_ok_def\<close>)

lemma marked_tail: "marked (b # bs) \<Longrightarrow> marked bs"
  by (auto simp: marked_def split: if_splits)

lemma marked_middle: "marked (xs @ b # ys) \<Longrightarrow> \<not> event_marker b \<Longrightarrow> marked (xs @ ys)"
  by (cases ys rule: rev_cases) (auto simp: marked_def)

lemma hands_okI: "hands_ok s \<Longrightarrow> set_option (output_hand s') \<subseteq> set_option (output_hand s) \<Longrightarrow>
    set_option (input_hand s') \<subseteq> set_option (input_hand s) \<Longrightarrow> hands_ok s'"
  unfolding hands_ok_def by blast

lemma pipe_inv_input_pop:
  assumes "input_pop n s = Next s'" "pipe_inv s"
  shows "pipe_inv s'" "line s' = line s"
proof -
  obtain b bs where q: "input_hand s = None" "input_queue (elem s) = b # bs"
    "s' = (if inferred b then s\<lparr>elem := (elem s)\<lparr>input_queue := bs\<rparr>, input_hand := Some b\<rparr>
       else s\<lparr>elem := (elem s)\<lparr>input_queue := bs\<rparr>, process_queue := process_queue s @ [b]\<rparr>)"
    using assms(1) by (auto simp: input_pop_def Let_def split: if_splits option.splits list.splits)
  have same: "same_metas (elem s) (elem s')" "thread s' = thread s" "next_buffer s' = next_buffer s" "accepted s' = accepted s"
    "delivered s' = delivered s" "building (elem s') = building (elem s)" "output_hand s' = output_hand s"
    using q(3) by (auto simp: Let_def)
  show line: "line s' = line s" using q by (auto simp: line_def Let_def)
  note inv = pipe_invD[OF assms(2)]
  show "pipe_inv s'"
  proof (rule pipe_invI)
    show "thread_ok s'" by (rule thread_ok_shrunk[OF inv(6)]) (use same line q(2) in auto)
    show "hands_ok s'" using inv(2) q by (auto simp: hands_ok_def)
    show "metas_ok (next_buffer s') (elem s')" using inv(3) q(3) by (auto simp: metas_ok_def alive_def)
    show "line_ok (elem s') (buffers_of (delivered s')) (line s')"
      using inv(1) by (simp add: same line line_ok_same[OF same(1)])
  qed (use inv(4,5) in \<open>simp_all only: same line\<close>)
qed

lemma inferred_simps: "inferred b \<Longrightarrow> \<not> push_buffer b \<and> \<not> event_marker b \<and> frames b \<noteq> []"
  by (simp add: inferred_def)

lemma pipe_inv_input_queue:
  assumes "input_queue_step ops s = Next s'" "pipe_inv s"
  shows "pipe_inv s'"
proof -
  obtain b st c where q: "input_hand s = Some b"
    "s' = (if st = NVDSINFER_SUCCESS then s\<lparr>ctx := c, input_hand := None, process_queue := process_queue s @ [b]\<rparr>
       else s\<lparr>ctx := c, input_hand := None\<rparr>)"
    using assms(1) by (auto simp: input_queue_step_def Let_def split: option.splits step_result.splits)
  have b: "\<not> push_buffer b" "\<not> event_marker b" using assms(2) q(1) inferred_simps by (auto simp: pipe_inv_def hands_ok_def)
  define xs ys where "xs = opt_list (output_hand s) @ process_queue s" and
    "ys = input_queue (elem s) @ opt_list (building (elem s))"
  then have xs: "line s = xs @ b # ys" "line s' = xs @ b # ys \<or> line s' = xs @ ys"
    using q by (auto simp: line_def)
  have same: "elem s' = elem s" "thread s' = thread s" "next_buffer s' = next_buffer s" "accepted s' = accepted s"
    "delivered s' = delivered s" "output_hand s' = output_hand s" "input_hand s' = None"
    using q(2) by auto
  have pushes: "pushes (line s') = pushes (line s)" using xs b by auto
  note inv = pipe_invD[OF assms(2)]
  show ?thesis
  proof (rule pipe_invI)
    show "thread_ok s'" by (rule thread_ok_shrunk[OF inv(6)]) (use same xs b marked_middle in auto)
    show "hands_ok s'" by (rule hands_okI[OF inv(2)]) (simp_all add: same)
    show "line_ok (elem s') (buffers_of (delivered s')) (line s')" using inv(1) xs b(1) line_ok_drop by (auto simp: same)
  qed (use inv(3,4,5) in \<open>simp_all only: same pushes\<close>)
qed

text \<open>The metadata functions keep what is there, and the objects of every frame.\<close>

definition meta_step :: "infer_state \<Rightarrow> infer_state \<Rightarrow> bool" where
  "meta_step e e' \<longleftrightarrow> same_metas e e' \<and> input_queue e' = input_queue e \<and> building e' = building e \<and>
     (\<forall>fr. map_option obj_meta_list (frame_metas e' fr) = map_option obj_meta_list (frame_metas e fr))"

lemma meta_step_refl [simp]: "meta_step e e"
  by (simp add: meta_step_def)

lemma meta_step_trans: "meta_step e e' \<Longrightarrow> meta_step e' e'' \<Longrightarrow> meta_step e e''"
  by (simp add: meta_step_def same_metas_def)

lemma meta_step_update_history [simp]: "meta_step e (update_history a f e)"
  by (simp add: meta_step_def)

lemma metas_ok_step:
  assumes "meta_step e e'" "metas_ok m e"
  shows "metas_ok m e'"
  unfolding metas_ok_def
proof (intro conjI allI impI)
  have same: "same_metas e e'" using assms(1) by (simp add: meta_step_def)
  then show "fst ` dom (objects e') \<subseteq> {..<m}" "fst ` dom (frame_metas e') \<subseteq> {..<m}"
    using assms(2) by (auto simp: metas_ok_def same_metas_def)
  fix fr fm
  assume "frame_metas e' fr = Some fm"
  then have "map_option obj_meta_list (frame_metas e fr) = Some (obj_meta_list fm)"
    using assms(1) by (metis meta_step_def option.map(2))
  then show "\<forall>oa\<in>set (obj_meta_list fm). alive e' (fst fr) oa"
    using assms(2) by (auto simp: metas_ok_def alive_same[OF same])
qed

lemma classifier_metas:
  assumes "attach_metadata_classifier env n surf fr ob info = Some (fr', ob', rois)"
  shows "map_option obj_meta_list fr' = map_option obj_meta_list fr" "(ob' = None) = (ob = None)"
  using assms by (auto simp: attach_metadata_classifier_def Let_def option.map_comp o_def split: if_splits option.splits)

lemma segmentation_metas:
  assumes "attach_metadata_segmentation n fr ob out = Some (fr', ob', rois)"
  shows "map_option obj_meta_list fr' = map_option obj_meta_list fr" "(ob' = None) = (ob = None)"
  using assms by (auto simp: attach_metadata_segmentation_def Let_def option.map_comp o_def split: if_splits)

lemma follow_Some:
  assumes "follow heap p = Some v"
  shows "case p of None \<Rightarrow> v = None | Some a \<Rightarrow> \<exists>x. heap a = Some x \<and> v = Some x"
  using assms by (auto simp: follow_def split: option.splits)

lemma meta_step_store:
  assumes "follow (frame_metas e) pf = Some fm" "follow (objects e) po = Some ob"
    "map_option obj_meta_list fm' = map_option obj_meta_list fm" "(ob' = None) = (ob = None)"
  shows "meta_step e (e\<lparr>frame_metas := store_at pf fm' (frame_metas e), objects := store_at po ob' (objects e)\<rparr>)"
proof -
  have "dom (store_at po ob' (objects e)) = dom (objects e)"
    using follow_Some[OF assms(2)] assms(4) by (auto simp: store_at_def dom_def split: option.splits)
  moreover have fr: "map_option obj_meta_list (store_at pf fm' (frame_metas e) a) = map_option obj_meta_list (frame_metas e a)" for a
    using follow_Some[OF assms(1)] assms(3) by (auto simp: store_at_def split: option.splits)
  moreover have "dom (store_at pf fm' (frame_metas e)) = dom (frame_metas e)"
    using fr by (auto simp: dom_def) (metis option.map_disc_iff option.distinct(1) not_None_eq)+
  ultimately show ?thesis by (simp add: meta_step_def same_metas_def)
qed

lemma attach_classifier_step: "attach_classifier env n f info e = Some e' \<Longrightarrow> meta_step e e'"
  by (auto simp: attach_classifier_def split: option.splits intro!: meta_step_store dest: classifier_metas)

lemma attach_segmentation_step: "attach_segmentation n f out e = Some e' \<Longrightarrow> meta_step e e'"
  by (auto simp: attach_segmentation_def split: option.splits intro!: meta_step_store dest: segmentation_metas)

lemma attach_detector_step: "attach_detector env n f out e = Some e' \<Longrightarrow> meta_step e e'"
proof -
  assume a: "attach_detector env n f out e = Some e'"
  then obtain fm ob objs where o: "follow (frame_metas e) (frame_meta f) = Some (Some fm)" "follow (objects e) (obj_meta f) = Some ob"
    "e' = e\<lparr>frame_metas := store_at (frame_meta f) (Some (fm\<lparr>bInferDone := True,
        added_objects := added_objects fm @ map (\<lambda>o'. (o', obj_meta f)) objs\<rparr>)) (frame_metas e)\<rparr>"
    by (auto simp: attach_detector_def split: option.splits)
  have keep: "store_at (obj_meta f) ob (objects e) = objects e"
    using follow_Some[OF o(2)] by (auto simp: store_at_def fun_eq_iff split: option.splits)
  have "e' = e\<lparr>frame_metas := store_at (frame_meta f) (Some (fm\<lparr>bInferDone := True,
        added_objects := added_objects fm @ map (\<lambda>o'. (o', obj_meta f)) objs\<rparr>)) (frame_metas e),
      objects := store_at (obj_meta f) ob (objects e)\<rparr>"
    unfolding keep by (simp add: o(3))
  with meta_step_store[OF o(1,2), of "Some (fm\<lparr>bInferDone := True,
        added_objects := added_objects fm @ map (\<lambda>o'. (o', obj_meta f)) objs\<rparr>)" ob] show ?thesis by simp
qed

lemma finish_inference_step: "meta_step e (finish_inference f e)"
  by (cases "history f") (simp_all add: finish_inference_def)

lemma attach_frame_step: "attach_frame env n f fo e = Some e' \<Longrightarrow> meta_step e e'"
proof -
  assume a: "attach_frame env n f fo e = Some e'"
  define e1 where "e1 = finish_inference f e"
  have hist: "meta_step e1 (case history f of None \<Rightarrow> e1 | Some h \<Rightarrow> update_history h g e1)" for g
    by (cases "history f") simp_all
  have "meta_step e1 e'"
    using a hist
    by (auto simp: attach_frame_def e1_def[symmetric] Let_def
        split: NvDsInferNetworkType.splits frame_union.splits if_splits
        dest!: attach_detector_step attach_segmentation_step attach_classifier_step intro: meta_step_trans)
  then show ?thesis using meta_step_trans[OF finish_inference_step] by (simp add: e1_def)
qed

lemma attach_frames_step: "attach_frames env n fs outs e = Some e' \<Longrightarrow> meta_step e e'"
  by (induction env n fs outs e rule: attach_frames.induct)
    (auto simp: Option.bind_eq_Some_conv, blast intro: meta_step_trans[OF attach_frame_step])

lemma attach_pending_step: "attach_pending env n ps e = Some e' \<Longrightarrow> meta_step e e'"
  by (induction env n ps e rule: attach_pending.induct)
    (auto simp: Option.bind_eq_Some_conv split: option.splits, blast intro: meta_step_trans[OF attach_classifier_step])

text \<open>The output thread removes the first batch of the line.\<close>

lemma pipe_inv_front:
  assumes "pipe_inv s" "line s = b # line s'" "\<not> push_buffer b" "meta_step (elem s) (elem s')"
    "thread s' = thread s" "next_buffer s' = next_buffer s" "accepted s' = accepted s" "delivered s' = delivered s"
    "input_hand s' = input_hand s" "output_hand s' = None"
  shows "pipe_inv s'"
proof (rule pipe_invI)
  note inv = pipe_invD[OF assms(1)]
  have same: "same_metas (elem s) (elem s')" using assms(4) by (simp add: meta_step_def)
  show "thread_ok s'"
    by (rule thread_ok_shrunk[OF inv(6)])
      (use assms(2,4-9) marked_tail same in \<open>auto simp: meta_step_def\<close>)
  show "hands_ok s'" by (rule hands_okI[OF inv(2)]) (simp_all add: assms(9,10))
  show "metas_ok (next_buffer s') (elem s')" using metas_ok_step[OF assms(4) inv(3)] by (simp add: assms(6))
  show "line_ok (elem s') (buffers_of (delivered s')) (line s')"
    using inv(1) line_ok_front assms(2,3) by (simp add: assms(8) line_ok_same[OF same])
  have "pushes (line s) = pushes (line s')" using assms(2,3) by simp
  then show "accepted s' = delivered s' @ map PushedBuffer (pushes (line s')) @ waited_event (thread s')"
    using inv(4) by (simp only: assms(5,7,8))
qed (use pipe_invD(5)[OF assms(1)] in \<open>simp only: assms(6,7)\<close>)

lemma line_pop:
  assumes "output_hand s = None" "process_queue s = b # bs"
  shows "line s = b # line (s\<lparr>process_queue := bs\<rparr>)" "line (s\<lparr>process_queue := bs, output_hand := Some b\<rparr>) = line s"
  using assms by (simp_all add: line_def)

lemma line_cong: "meta_step (elem s) e \<Longrightarrow> line (s\<lparr>elem := e\<rparr>) = line s"
  by (simp add: line_def meta_step_def)

lemma pipe_inv_output_pop:
  assumes "output_pop env n s = Next s'" "pipe_inv s"
  shows "pipe_inv s'"
proof -
  obtain b bs where q: "output_hand s = None" "process_queue s = b # bs"
    using assms(1) by (auto simp: output_pop_def split: option.splits list.splits)
  let ?s1 = "s\<lparr>process_queue := bs\<rparr>"
  note inv = pipe_invD[OF assms(2)]
  have shape: "batch_shape (elem s) b" using inv(1) line_pop(1)[OF q] by (simp add: line_ok_def)
  consider (mark) "event_marker b" "s' = ?s1"
    | (pending) e where "\<not> event_marker b" "frames b = []" "\<not> push_buffer b"
        "attach_pending env n (objs_pending_meta_attach b) (elem s) = Some e" "s' = ?s1\<lparr>elem := e\<rparr>"
    | (hand) "\<not> event_marker b" "push_buffer b \<or> frames b \<noteq> []" "s' = ?s1\<lparr>output_hand := Some b\<rparr>"
    using assms(1) q by (auto simp: output_pop_def run_attach_def Let_def split: if_splits option.splits)
  then show ?thesis
  proof cases
    case mark
    then have "\<not> push_buffer b" using shape by (auto simp: batch_shape_def dest: work_batch_key)
    then show ?thesis
      by (intro pipe_inv_front[OF assms(2), of b]) (simp_all add: mark line_pop(1)[OF q] q(1))
  next
    case pending
    then have m: "meta_step (elem ?s1) e" using attach_pending_step by simp
    show ?thesis
      by (rule pipe_inv_front[OF assms(2), of b]) (use m in \<open>simp_all add: pending line_pop(1)[OF q] line_cong q(1)\<close>)
  next
    case hand
    have line: "line s' = line s" using line_pop(2)[OF q] hand(3) by simp
    have same: "elem s' = elem s" "thread s' = thread s" "next_buffer s' = next_buffer s" "accepted s' = accepted s"
      "delivered s' = delivered s" "input_hand s' = input_hand s" by (simp_all add: hand(3))
    show ?thesis
    proof (rule pipe_invI)
      show "thread_ok s'" by (rule thread_ok_shrunk[OF inv(6)]) (use same line in auto)
      show "hands_ok s'" using inv(2) hand by (auto simp: hands_ok_def)
    qed (use inv in \<open>simp_all only: same line\<close>)
  qed
qed

lemma metas_ok_remove: "metas_ok m e \<Longrightarrow> metas_ok m (remove_buffer j e)"
  unfolding metas_ok_def
proof (intro conjI allI impI)
  assume e: "(\<forall>fr fm. frame_metas e fr = Some fm \<longrightarrow> (\<forall>oa\<in>set (obj_meta_list fm). alive e (fst fr) oa)) \<and>
    fst ` dom (objects e) \<subseteq> {..<m} \<and> fst ` dom (frame_metas e) \<subseteq> {..<m}"
  then show "fst ` dom (objects (remove_buffer j e)) \<subseteq> {..<m}" "fst ` dom (frame_metas (remove_buffer j e)) \<subseteq> {..<m}"
    by (auto simp: remove_buffer_def image_subset_iff split: if_splits)
  fix fr fm
  assume "frame_metas (remove_buffer j e) fr = Some fm"
  then have "fst fr \<noteq> j" "frame_metas e fr = Some fm" by (auto simp: remove_buffer_def split: prod.splits if_splits)
  with e show "\<forall>oa\<in>set (obj_meta_list fm). alive (remove_buffer j e) (fst fr) oa" by simp
qed

lemma remove_buffer_fields [simp]:
  "input_queue (remove_buffer j e) = input_queue e" "building (remove_buffer j e) = building e"
  "histories (remove_buffer j e) = histories e" "source_info (remove_buffer j e) = source_info e"
  by (simp_all add: remove_buffer_def)

lemma todo_ok_remove: "k \<noteq> j \<Longrightarrow> todo_ok (remove_buffer j e) k t = todo_ok e k t"
  by (cases t) auto

lemma pipe_inv_deliver:
  assumes "pipe_inv s" "output_hand s = Some b" "push_buffer b" "inbuf b = Some j"
  shows "pipe_inv (deliver j ret (s\<lparr>output_hand := None\<rparr>))"
proof (rule pipe_invI)
  let ?s = "deliver j ret (s\<lparr>output_hand := None\<rparr>)"
  note inv = pipe_invD[OF assms(1)]
  have line: "line s = b # line ?s" using assms(2) by (simp add: line_def deliver_def)
  have acc: "accepted s = delivered s @ PushedBuffer j # map PushedBuffer (pushes (line ?s)) @ waited_event (thread s)"
    using inv(4) line assms(3,4) by simp
  then have j: "j \<in> buffers_of (accepted s)" by (simp add: buffers_of_def)
  show "line_ok (elem ?s) (buffers_of (delivered ?s)) (line ?s)"
    using inv(1) line assms(3,4) line_ok_Cons[of "elem s" _ b "line ?s"]
    by (auto simp: deliver_def line_ok_remove)
  show "hands_ok ?s" by (rule hands_okI[OF inv(2)]) (simp_all add: deliver_def)
  show "metas_ok (next_buffer ?s) (elem ?s)" using inv(3) metas_ok_remove by (simp add: deliver_def)
  show "accepted ?s = delivered ?s @ map PushedBuffer (pushes (line ?s)) @ waited_event (thread ?s)"
    using acc by (simp add: deliver_def)
  show "buffers_of (accepted ?s) \<subseteq> {..<next_buffer ?s}" using inv(5) by (simp add: deliver_def)
  have "thread_ok s" by (rule inv(6))
  moreover have "marked (line s) \<Longrightarrow> marked (line ?s)" using line marked_tail by simp
  ultimately show "thread_ok ?s"
  proof (cases "thread s")
    case (Working k surfs ts)
    with inv(6) j have "k \<noteq> j" by (auto simp: thread_ok_def)
    then show ?thesis using inv(6) Working
      by (auto simp: thread_ok_def deliver_def stream_ready_def work_batch_remove todo_ok_remove)
  next
    case (DrainInput w)
    then show ?thesis using inv(6) \<open>marked (line s) \<Longrightarrow> marked (line ?s)\<close> by (cases w) (auto simp: thread_ok_def deliver_def)
  next
    case (DrainProcess w)
    then show ?thesis using inv(6) \<open>marked (line s) \<Longrightarrow> marked (line ?s)\<close> by (cases w) (auto simp: thread_ok_def deliver_def)
  qed (simp add: thread_ok_def deliver_def)
qed

lemma output_run_cases:
  assumes "output_run env n ops pushed s = Next s'"
  obtains (push) b j where "output_hand s = Some b" "push_buffer b" "inbuf b = Some j" "s' = deliver j pushed (s\<lparr>output_hand := None\<rparr>)"
  | (failed) b st outs priv c where "output_hand s = Some b" "\<not> push_buffer b" "dequeue_output ops (ctx s) = Next (st, outs, priv, c)"
      "st \<noteq> NVDSINFER_SUCCESS" "s' = s\<lparr>output_hand := None, ctx := c\<rparr>"
  | (attached) b outs priv c e1 e where "output_hand s = Some b" "\<not> push_buffer b"
      "dequeue_output ops (ctx s) = Next (NVDSINFER_SUCCESS, outs, priv, c)"
      "attach_frames env n (frames b) outs (elem s) = Some e1"
      "attach_pending env n (objs_pending_meta_attach b) e1 = Some e"
      "networkType n = NvDsInferNetworkType_Segmentation \<and>
         s' = s\<lparr>output_hand := None, ctx := c, held_outputs := held_outputs s @ [(model_number s, priv)], elem := e\<rparr> \<or>
       networkType n \<noteq> NvDsInferNetworkType_Segmentation \<and>
         s' = s\<lparr>output_hand := None, ctx := release_output ops priv c, elem := e\<rparr>"
proof -
  obtain b where b: "output_hand s = Some b" using assms by (auto simp: output_run_def split: option.splits)
  show thesis
  proof (cases "push_buffer b")
    case True
    then show thesis using assms b push by (auto simp: output_run_def split: option.splits)
  next
    case False
    then obtain st outs priv c where d: "dequeue_output ops (ctx s) = Next (st, outs, priv, c)"
      using assms b by (auto simp: output_run_def Let_def split: step_result.splits)
    show thesis
    proof (cases "st = NVDSINFER_SUCCESS")
      case True
      let ?held = "networkType n = NvDsInferNetworkType_Segmentation"
      obtain e1 e where e: "attach_frames env n (frames b) outs (elem s) = Some e1"
        "attach_pending env n (objs_pending_meta_attach b) e1 = Some e"
        using assms b False d True
        by (cases ?held) (auto simp: output_run_def Let_def run_attach_def Option.bind_eq_Some_conv split: option.splits)
      show thesis
        by (rule attached[OF b False _ e])
          (use assms b False d True e in \<open>auto simp: output_run_def Let_def run_attach_def split: option.splits if_splits\<close>)
    next
      case st: False
      then show thesis using assms b False d failed by (auto simp: output_run_def Let_def)
    qed
  qed
qed

lemma pipe_inv_output_run:
  assumes "output_run env n ops pushed s = Next s'" "pipe_inv s"
  shows "pipe_inv s'"
  using assms(1)
proof (cases rule: output_run_cases)
  case (push b j)
  then show ?thesis using pipe_inv_deliver[OF assms(2)] by simp
next
  case (failed b st outs priv c)
  then show ?thesis by (intro pipe_inv_front[OF assms(2), of b]) (simp_all add: line_def)
next
  case (attached b outs priv c e1 e)
  then have m: "meta_step (elem s) e" using attach_frames_step attach_pending_step meta_step_trans by blast
  then have same: "input_queue e = input_queue (elem s)" "building e = building (elem s)" by (auto simp: meta_step_def)
  show ?thesis
    by (rule pipe_inv_front[OF assms(2), of b]) (use attached(1,2,6) m same in \<open>auto simp: line_def\<close>)
qed

section \<open>Events and new buffers\<close>

lemma handle_event_fields [simp]:
  "objects (handle_event ev e) = objects e" "frame_metas (handle_event ev e) = frame_metas e"
  "input_queue (handle_event ev e) = input_queue e" "building (handle_event ev e) = building e"
  by (simp_all add: handle_event_def pad_added_def pad_deleted_def stream_eos_def split: infer_event.split)

lemma clear_histories_fields [simp]:
  "objects (clear_histories e) = objects e" "frame_metas (clear_histories e) = frame_metas e"
  "input_queue (clear_histories e) = input_queue e" "building (clear_histories e) = building e"
  by (simp_all add: clear_histories_def)

lemma line_ok_cong:
  "objects e' = objects e \<Longrightarrow> frame_metas e' = frame_metas e \<Longrightarrow> line_ok e' P bs = line_ok e P bs"
  by (rule line_ok_same) (simp add: same_metas_def)

lemma metas_ok_cong:
  "objects e' = objects e \<Longrightarrow> frame_metas e' = frame_metas e \<Longrightarrow> metas_ok m e' = metas_ok m e"
  by (simp add: metas_ok_def alive_def)

lemma line_ok_marker_end: "line_ok e P bs \<Longrightarrow> line_ok e P (bs @ [marker])"
  by (simp add: line_ok_append)

lemma metas_ok_mono: "metas_ok m e \<Longrightarrow> m \<le> m' \<Longrightarrow> metas_ok m' e"
  unfolding metas_ok_def by fastforce

lemma pipe_inv_event:
  assumes "sink_event n ev s = Next s'" "pipe_inv s" "\<not> input_tensor_from_meta n"
  shows "pipe_inv s'"
proof -
  note inv = pipe_invD[OF assms(2)]
  have idle: "thread s = Idle" "building (elem s) = None"
    using assms(1) inv(6) by (auto simp: sink_event_def thread_ok_def split: if_splits)
  have acc: "accepted s = delivered s @ map PushedBuffer (pushes (line s))" using inv(4) idle(1) by simp
  consider (wait) "s' = (queue_batch n marker s)\<lparr>thread := DrainInput (ForEvent ev), accepted := accepted s @ [ForwardedEvent ev]\<rparr>"
    | (direct) "s' = s\<lparr>elem := handle_event ev (elem s)\<rparr>"
    using assms(1) by (auto simp: sink_event_def split: if_splits)
  then show ?thesis
  proof cases
    case wait
    have line: "line s' = line s @ [marker]" using idle(2) assms(3) by (simp add: wait line_def queue_batch_def)
    have e: "elem s' = (elem s)\<lparr>input_queue := input_queue (elem s) @ [marker]\<rparr>" "delivered s' = delivered s"
      "next_buffer s' = next_buffer s" using assms(3) by (simp_all add: wait queue_batch_def)
    have w: "accepted s' = accepted s @ [ForwardedEvent ev]" "thread s' = DrainInput (ForEvent ev)" by (simp_all add: wait)
    show ?thesis
    proof (rule pipe_invI)
      show "line_ok (elem s') (buffers_of (delivered s')) (line s')"
        using line_ok_marker_end[OF inv(1)] by (simp add: line e line_ok_cong[of "(elem s)\<lparr>input_queue := _\<rparr>" "elem s"])
      show "hands_ok s'" using inv(2) assms(3) by (simp add: hands_ok_def wait queue_batch_def)
      show "metas_ok (next_buffer s') (elem s')" using inv(3) by (simp add: e metas_ok_cong[of "(elem s)\<lparr>input_queue := _\<rparr>" "elem s"])
      show "accepted s' = delivered s' @ map PushedBuffer (pushes (line s')) @ waited_event (thread s')"
        by (simp add: line e(2) w) (simp add: acc)
      show "buffers_of (accepted s') \<subseteq> {..<next_buffer s'}" using inv(5) unfolding e(3) w by simp
      have "marked (line s')" by (simp add: line marked_def)
      then show "thread_ok s'" unfolding thread_ok_def w e(1) using idle(2) by simp
    qed
  next
    case direct
    have line: "line s' = line s" by (simp add: direct line_def)
    show ?thesis
    proof (rule pipe_invI)
      show "line_ok (elem s') (buffers_of (delivered s')) (line s')" using inv(1)
        by (simp add: direct line[unfolded direct] line_ok_cong[of "handle_event ev (elem s)" "elem s"])
      show "metas_ok (next_buffer s') (elem s')" using inv(3)
        by (simp add: direct metas_ok_cong[of "handle_event ev (elem s)" "elem s"])
      show "thread_ok s'" using idle by (simp add: thread_ok_def direct)
    qed (use inv(2,4,5) line in \<open>simp_all add: direct hands_ok_def\<close>)
  qed
qed

lemma todos_wf_objects: "todos_wf True (ts @ [EndTodo, PushTodo])" if "\<forall>t\<in>set ts. \<exists>fr. t = FrameTodo fr"
  using that by (induction ts) auto

lemma todos_wf_full: "j < m \<Longrightarrow> todos_wf b (map (\<lambda>i. FullTodo i (Suc i = m)) [j..<m] @ [PushTodo])"
proof (induction "m - j" arbitrary: j b)
  case (Suc k)
  then have "[j..<m] = j # [Suc j..<m]" by (simp add: upt_conv_Cons)
  with Suc show ?case by (cases "Suc j = m") auto
qed simp

lemma first_todo_ok:
  assumes "first_todo n b buf e = Some (Some ts, e')"
  shows "todos_wf False ts"
    and "\<forall>t\<in>set ts. case t of FrameTodo (b', i) \<Rightarrow> b' = b \<and> i < length (buf_frames buf)
       | FullTodo i f \<Rightarrow> i < length (buf_frames buf) | ObjectTodo _ _ \<Rightarrow> False | _ \<Rightarrow> True"
proof -
  let ?m = "length (buf_frames buf)"
  consider "ts = [PushTodo]" | "ts = map (\<lambda>i. FullTodo i (Suc i = ?m)) [0..<?m] @ [PushTodo]"
    | "ts = map (\<lambda>i. FrameTodo (b, i)) [0..<?m] @ [EndTodo, PushTodo]"
    using assms by (auto simp: first_todo_def Let_def split: if_splits option.splits bool.splits)
  note c = this
  from c show "todos_wf False ts"
    by cases (use todos_wf_full[of 0 ?m False] todos_wf_mono[OF todos_wf_objects] in \<open>cases "?m = 0"; auto\<close>)+
  from c show "\<forall>t\<in>set ts. case t of FrameTodo (b', i) \<Rightarrow> b' = b \<and> i < ?m
       | FullTodo i f \<Rightarrow> i < ?m | ObjectTodo _ _ \<Rightarrow> False | _ \<Rightarrow> True"
    by cases auto
qed

lemma first_todo_state:
  assumes "first_todo n b buf e = Some (r, e')"
  shows "objects e' = objects e" "frame_metas e' = frame_metas e" "input_queue e' = input_queue e" "building e' = building e"
    "histories e' = histories e" "source_info e' = source_info e"
  using assms by (auto simp: first_todo_def skip_batch_def Let_def split: if_splits option.splits bool.splits)

lemma install_simps:
  "objects (install_buffer b buf e) a = (if fst a = b then (if snd a < length (buf_objects buf) then Some (buf_objects buf ! snd a) else None)
     else objects e a)"
  "frame_metas (install_buffer b buf e) a = (if fst a = b then (if snd a < length (buf_frames buf) then Some (buf_frames buf ! snd a) else None)
     else frame_metas e a)"
  "input_queue (install_buffer b buf e) = input_queue e" "building (install_buffer b buf e) = building e"
  "histories (install_buffer b buf e) = histories e" "source_info (install_buffer b buf e) = source_info e"
  by (cases a; simp add: install_buffer_def)+

lemma install_alive:
  "k \<noteq> b \<Longrightarrow> alive (install_buffer b buf e) k a = alive e k a"
  "k \<noteq> b \<Longrightarrow> frame_alive (install_buffer b buf e) k a = frame_alive e k a"
  "alive (install_buffer b buf e) b a \<longleftrightarrow> fst a = b \<and> snd a < length (buf_objects buf)"
  "frame_alive (install_buffer b buf e) b a \<longleftrightarrow> fst a = b \<and> snd a < length (buf_frames buf)"
  by (auto simp: alive_def frame_alive_def domIff install_simps)

lemma metas_ok_install:
  assumes "metas_ok m e" "buffer_ok b buf" "b < m"
  shows "metas_ok m (install_buffer b buf e)"
  unfolding metas_ok_def
proof (intro conjI allI impI)
  show "fst ` dom (objects (install_buffer b buf e)) \<subseteq> {..<m}" "fst ` dom (frame_metas (install_buffer b buf e)) \<subseteq> {..<m}"
    using assms(1,3) by (auto simp: metas_ok_def install_simps dom_def image_subset_iff split: if_splits)
  fix fr fm
  assume fm: "frame_metas (install_buffer b buf e) fr = Some fm"
  show "\<forall>oa\<in>set (obj_meta_list fm). alive (install_buffer b buf e) (fst fr) oa"
  proof (cases "fst fr = b")
    case True
    then have "fm \<in> set (buf_frames buf)" using fm by (auto simp: install_simps split: if_splits)
    with assms(2) True show ?thesis by (fastforce simp: buffer_ok_def install_alive)
  next
    case False
    then show ?thesis using fm assms(1) by (auto simp: install_simps metas_ok_def install_alive)
  qed
qed

lemma refs_ok_install: "k \<noteq> b \<Longrightarrow> refs_ok (install_buffer b buf e) k f = refs_ok e k f"
  by (simp add: refs_ok_def install_alive split: option.split)

lemma work_batch_install: "k \<noteq> b \<Longrightarrow> work_batch (install_buffer b buf e) k x = work_batch e k x"
  by (simp add: work_batch_def refs_ok_install install_alive)

lemma line_ok_install:
  assumes "line_ok e P bs" "b \<notin> fst ` dom (frame_metas e)" "b \<notin> fst ` dom (objects e)"
  shows "line_ok (install_buffer b buf e) P bs"
proof -
  have "batch_shape (install_buffer b buf e) x" if "batch_shape e x" for x
  proof (cases "\<exists>k. work_batch e k x")
    case True
    then obtain k where k: "work_batch e k x" by blast
    show ?thesis
    proof (cases "k = b")
      case False
      then show ?thesis using k work_batch_install unfolding batch_shape_def by blast
    next
      case True
      have no: "\<not> alive e b a" "\<not> frame_alive e b a" for a
        using assms(2,3) by (auto simp: alive_def frame_alive_def image_iff)
      then have "\<not> refs_ok e b f" for f by (simp add: refs_ok_def split: option.split)
      then have "frames x = []" using k True by (cases "frames x") (auto simp: work_batch_def)
      moreover have "objs_pending_meta_attach x = []"
        using k True no by (cases "objs_pending_meta_attach x") (auto simp: work_batch_def)
      ultimately
      have "work_batch (install_buffer b buf e) k x" using k by (simp add: work_batch_def)
      then show ?thesis unfolding batch_shape_def by blast
    qed
  next
    case False
    then show ?thesis using that by (auto simp: batch_shape_def)
  qed
  with assms(1) show ?thesis by (simp add: line_ok_def)
qed

text \<open>The function for the mode of the element begins.\<close>

lemma pipe_inv_start_work:
  assumes "start_work n b buf s = Next s'" "line_ok (elem s) (buffers_of (delivered s)) (line s)" "hands_ok s"
    "metas_ok (next_buffer s) (elem s)" "accepted s = delivered s @ map PushedBuffer (pushes (line s))"
    "buffers_of (accepted s) \<subseteq> {..<next_buffer s}" "building (elem s) = None" "b < next_buffer s"
    "b \<notin> buffers_of (accepted s)" "buffer_ok b buf"
    "line s = [] \<or> b \<notin> fst ` dom (frame_metas (elem s)) \<and> b \<notin> fst ` dom (objects (elem s))"
  shows "pipe_inv s'"
proof -
  let ?e = "install_buffer b buf ((elem s)\<lparr>current_batch_num := current_batch_num (elem s) + 1\<rparr>)"
  obtain r e1 where r: "first_todo n b buf ?e = Some (r, e1)"
    "s' = s\<lparr>elem := e1, thread := (case r of None \<Rightarrow> Idle | Some ts \<Rightarrow> Working b (buf_surfaces buf) ts)\<rparr>"
    using assms(1) by (auto simp: start_work_def Let_def split: option.splits)
  note st = first_todo_state[OF r(1)]
  have line: "line s' = line s" by (simp add: r(2) line_def st(3,4) install_simps)
  have same: "same_metas (install_buffer b buf (elem s)) e1"
    by (simp add: same_metas_def st(1,2) dom_def install_simps fun_eq_iff)
  show ?thesis
  proof (rule pipe_invI)
    have "line_ok (install_buffer b buf (elem s)) (buffers_of (delivered s)) (line s)"
      using assms(2,11) line_ok_install by fastforce
    then show "line_ok (elem s') (buffers_of (delivered s')) (line s')"
      unfolding line by (simp add: r(2) line_ok_same[OF same])
    show "hands_ok s'" using assms(3) by (simp add: r(2) hands_ok_def)
    have "metas_ok (next_buffer s) ((elem s)\<lparr>current_batch_num := current_batch_num (elem s) + 1\<rparr>)"
      using assms(4) by (simp add: metas_ok_def alive_def)
    then have "metas_ok (next_buffer s) ?e" by (rule metas_ok_install[OF _ assms(10,8)])
    then show "metas_ok (next_buffer s') (elem s')" by (simp add: r(2) metas_ok_cong[OF st(1,2)])
    show "accepted s' = delivered s' @ map PushedBuffer (pushes (line s')) @ waited_event (thread s')"
      unfolding line using assms(5) by (simp add: r(2) split: option.split)
    show "buffers_of (accepted s') \<subseteq> {..<next_buffer s'}" using assms(6) by (simp add: r(2))
    have b: "building e1 = None" using assms(7) st(4) by (simp add: install_simps)
    show "thread_ok s'"
    proof (cases r)
      case None
      then show ?thesis by (simp add: r(2) thread_ok_def b)
    next
      case (Some ts)
      have "todo_ok e1 b t" if "t \<in> set ts" for t
        using first_todo_ok(2)[OF r(1)[unfolded Some]] that
        by (cases t) (auto simp: alive_same(2)[OF same] install_alive split: prod.splits)
      then show ?thesis using assms(8,9) first_todo_ok(1)[OF r(1)[unfolded Some]]
        by (simp add: r(2) Some thread_ok_def b stream_ready_def)
    qed
  qed
qed

lemma pipe_inv_submit:
  assumes "submit n buf model s = Next s'" "pipe_inv s"
  shows "pipe_inv s'"
proof -
  note inv = pipe_invD[OF assms(2)]
  let ?b = "next_buffer s" and ?s = "s\<lparr>next_buffer := Suc (next_buffer s)\<rparr>"
  have idle: "thread s = Idle" "building (elem s) = None" "buffer_ok ?b buf"
    using assms(1) inv(6) by (auto simp: submit_def Let_def thread_ok_def split: if_splits)
  have acc: "accepted s = delivered s @ map PushedBuffer (pushes (line s))" using inv(4) idle(1) by simp
  have new_id: "?b \<notin> buffers_of (accepted s)" "?b \<notin> fst ` dom (frame_metas (elem s))" "?b \<notin> fst ` dom (objects (elem s))"
    using inv(3,5) unfolding metas_ok_def by (meson lessThan_iff less_irrefl subsetD)+
  have line: "line ?s = line s" by (simp add: line_def)
  have bound: "buffers_of (accepted s) \<subseteq> {..<Suc ?b}" "metas_ok (Suc ?b) (elem s)"
    using inv(5) metas_ok_mono[OF inv(3)] by auto
  show ?thesis
  proof (cases model)
    case None
    then have "start_work n ?b buf ?s = Next s'" using assms(1) by (auto simp: submit_def Let_def split: if_splits)
    then show ?thesis
      by (rule pipe_inv_start_work)
        (use inv(1,2) acc new_id bound idle line in \<open>auto simp: hands_ok_def\<close>)
  next
    case (Some c)
    then have s': "s' = ?s\<lparr>elem := (elem s)\<lparr>input_queue := input_queue (elem s) @ [marker]\<rparr>, thread := DrainInput (ForModel c ?b buf)\<rparr>"
      using assms(1) by (auto simp: submit_def Let_def split: if_splits)
    have line': "line s' = line s @ [marker]" using idle(2) by (simp add: s' line_def)
    show ?thesis
    proof (rule pipe_invI)
      show "line_ok (elem s') (buffers_of (delivered s')) (line s')" unfolding line'
        using line_ok_marker_end[OF inv(1)] by (simp add: s' line_ok_cong[of "(elem s)\<lparr>input_queue := _\<rparr>" "elem s"])
      show "hands_ok s'" using inv(2) by (simp add: s' hands_ok_def)
      show "metas_ok (next_buffer s') (elem s')" using bound(2)
        by (simp add: s' metas_ok_cong[of "(elem s)\<lparr>input_queue := _\<rparr>" "elem s"])
      show "accepted s' = delivered s' @ map PushedBuffer (pushes (line s')) @ waited_event (thread s')"
        unfolding line' by (simp add: s' acc)
      show "buffers_of (accepted s') \<subseteq> {..<next_buffer s'}" using bound(1) by (simp add: s')
      have "marked (line s')" by (simp add: line' marked_def)
      then show "thread_ok s'" using new_id idle by (simp add: s' thread_ok_def)
    qed
  qed
qed

section \<open>The streaming thread\<close>

text \<open>A function that returns early leaves no batch behind, nor does one that submitted it.\<close>

fun settled :: "infer_state outcome \<Rightarrow> bool" where
  "settled (Continue e) = True"
| "settled (Return ret e) = (building e = None)"

lemma convert_batch_settled:
  "settled (convert_batch_and_push_to_input_thread cl b e)"
  "building (outcome_state (convert_batch_and_push_to_input_thread cl b e)) = None"
  by (simp_all add: convert_batch_and_push_to_input_thread_def)

lemma add_frame_settled:
  assumes "add_frame env n cl final r buf surf fill b e = Some out"
  shows "settled out" "final \<Longrightarrow> building (outcome_state out) = None"
  using assms convert_batch_settled
  by (auto simp: add_frame_def Let_def split: option.splits if_splits)

lemma process_full_frame_settled:
  assumes "process_full_frame_step env n any cl k i surf fr final e = Some out"
  shows "settled out" "final \<Longrightarrow> building (outcome_state out) = None"
  using assms add_frame_settled by (auto simp: process_full_frame_step_def split: sum.splits option.splits)

lemma process_object_settled:
  assumes "process_object env n cl k surfs fr oa e = Some out" "\<not> classifier_async_mode n"
  shows "settled out"
  using assms
proof (cases rule: process_object_cases)
  case (1 fm ob h needs)
  have "settled (defer_attachment n cl k num oa a e)" for num a
    by (simp add: defer_attachment_def split: sum.split)
  moreover have "infer_object env n cl k surfs fr fm oa ob h e = Some out \<Longrightarrow> settled out"
    using add_frame_settled(1) by (auto simp: infer_object_def Let_def split: sum.splits prod.splits if_splits)
  ultimately show ?thesis using 1(5) by (auto split: if_splits)
qed

lemma end_objects_settled:
  "settled (end_objects cl e)" "building (outcome_state (end_objects cl e)) = None"
  by (auto simp: end_objects_def convert_batch_and_push_to_input_thread_def split: option.split)

lemma pipe_inv_stream_effect:
  assumes "pipe_inv s" "thread s = Working k surfs ts0" "stream_effect k (elem s) e"
    "case th of Working k' surfs' ts \<Rightarrow> k' = k \<and> (\<forall>t\<in>set ts. todo_ok (elem s) k t) \<and> todos_wf (building e \<noteq> None) ts
       | Idle \<Rightarrow> building e = None | _ \<Rightarrow> False"
  shows "pipe_inv (s\<lparr>elem := e, thread := th\<rparr>)"
proof (rule pipe_invI)
  let ?s = "s\<lparr>elem := e, thread := th\<rparr>"
  let ?front = "opt_list (output_hand s) @ process_queue s @ opt_list (input_hand s) @ input_queue (elem s)"
  note inv = pipe_invD[OF assms(1)]
  obtain q where q: "same_metas (elem s) e" "frame_metas e = frame_metas (elem s)" "input_queue e = input_queue (elem s) @ q"
    "\<forall>b\<in>set q \<union> set_option (building e). work_batch e k b"
    using assms(3) by (auto simp: stream_effect_def)
  have k: "k < next_buffer s" "k \<notin> buffers_of (accepted s)" "stream_ready k (elem s)"
    using inv(6) assms(2) by (auto simp: thread_ok_def)
  have ev: "waited_event (thread s) = []" "waited_event th = []"
    using assms(2,4) by (cases th; simp)+
  have line: "line s = ?front @ opt_list (building (elem s))" "line ?s = ?front @ (q @ opt_list (building e))"
    using q(3) by (simp_all add: line_def)
  have old_work: "\<forall>b\<in>set (opt_list (building (elem s))). work_batch (elem s) k b" using k(3) by (simp add: stream_ready_def)
  have "k \<notin> buffers_of (delivered s)" "k \<notin> set (pushes (line s))" using k(2) inv(4) by auto
  then have kP: "k \<notin> buffers_of (delivered s) \<union> set (pushes ?front)" unfolding line(1) pushes_simps(3) by auto
  have old_pushes: "pushes (opt_list (building (elem s))) = []" by (rule line_ok_work(2)[OF old_work kP])
  have new_work: "line_ok e (buffers_of (delivered s) \<union> set (pushes ?front)) (q @ opt_list (building e))"
    "pushes (q @ opt_list (building e)) = []"
    by (rule line_ok_work[OF _ kP]; use q(4) in simp)+
  have pushes: "pushes (line ?s) = pushes (line s)" unfolding line using old_pushes new_work(2) by simp
  have "line_ok (elem s) (buffers_of (delivered s)) ?front" using inv(1) unfolding line(1) line_ok_append[of _ _ ?front] by blast
  then have "line_ok e (buffers_of (delivered s)) ?front" by (simp only: line_ok_same[OF q(1)])
  with new_work(1) show "line_ok (elem ?s) (buffers_of (delivered ?s)) (line ?s)"
    unfolding line(2) line_ok_append[of _ _ ?front] by simp
  show "hands_ok ?s" using inv(2) by (simp add: hands_ok_def)
  show "metas_ok (next_buffer ?s) (elem ?s)"
    using inv(3) q(1,2) by (auto simp: metas_ok_def alive_same[OF q(1)] same_metas_def)
  show "accepted ?s = delivered ?s @ map PushedBuffer (pushes (line ?s)) @ waited_event (thread ?s)"
    using inv(4) ev unfolding pushes by simp
  show "buffers_of (accepted ?s) \<subseteq> {..<next_buffer ?s}" using inv(5) by simp
  show "thread_ok ?s"
  proof (cases th)
    case Idle
    then show ?thesis using assms(4) by (simp add: thread_ok_def)
  next
    case (Working k' surfs' ts)
    then show ?thesis using assms(4) k q(4) by (auto simp: thread_ok_def stream_ready_def todo_ok_same[OF q(1)])
  qed (use assms(4) in simp_all)
qed

lemma pipe_inv_continue_work:
  fixes s s' :: "'c infer_pipeline"
  assumes "continue_work k surfs ts r s = Next s'" "pipe_inv s" "thread s = Working k surfs (t # ts)"
    "\<And>out. r = Some out \<Longrightarrow> stream_effect k (elem s) (outcome_state out) \<and> settled out"
    "\<And>e. r = Some (Continue e) \<Longrightarrow> todos_wf (building e \<noteq> None) ts"
  shows "pipe_inv s'"
proof -
  have ts: "\<forall>t\<in>set ts. todo_ok (elem s) k t" using pipe_invD(6)[OF assms(2)] assms(3) by (simp add: thread_ok_def)
  obtain out where r: "r = Some out" using assms(1) by (auto simp: continue_work_def split: option.splits)
  define th :: "'c streaming" where "th = (case out of Continue e \<Rightarrow> Working k surfs ts
      | Return ret e \<Rightarrow> if ret = GST_FLOW_ERROR then Idle else Working k surfs [PushTodo])"
  have s': "s' = s\<lparr>elem := outcome_state out, thread := th\<rparr>"
    using assms(1) r by (auto simp: continue_work_def th_def split: outcome.splits)
  show ?thesis unfolding s'
    by (rule pipe_inv_stream_effect[OF assms(2,3)])
      (use assms(4,5) r ts in \<open>auto simp: th_def split: outcome.split\<close>)
qed

lemma begin_frame_effect:
  assumes "begin_frame fr e = Some (os, e')" "stream_ready k e"
  shows "stream_effect k e e'" "building e' = building e" "objects e' = objects e" "frame_metas e' = frame_metas e"
    "os = [] \<or> (\<exists>fm. frame_metas e fr = Some fm \<and> os = obj_meta_list fm)"
proof -
  show same: "building e' = building e" "objects e' = objects e" "frame_metas e' = frame_metas e"
    using assms(1) by (auto simp: begin_frame_def split: option.splits)
  have "input_queue e' = input_queue e" using assms(1) by (auto simp: begin_frame_def split: option.splits)
  moreover have "same_metas e e'" using same by (simp add: same_metas_def)
  ultimately show "stream_effect k e e'" using assms(2) same
    by (auto simp: stream_effect_def stream_ready_def work_batch_same)
  show "os = [] \<or> (\<exists>fm. frame_metas e fr = Some fm \<and> os = obj_meta_list fm)"
    using assms(1) by (auto simp: begin_frame_def split: option.splits)
qed

lemma todos_wf_append_objects:
  "todos_wf True ts \<Longrightarrow> todos_wf b (map (ObjectTodo fr) os @ ts)"
  by (induction os arbitrary: b) (auto intro: todos_wf_mono)

lemma pipe_inv_push:
  assumes "pipe_inv s" "thread s = Working k surfs (PushTodo # ts)" "\<not> input_tensor_from_meta n"
  shows "pipe_inv (queue_batch n (push_batch k) (s\<lparr>accepted := accepted s @ [PushedBuffer k], thread := Idle\<rparr>))"
    (is "pipe_inv ?s")
proof (rule pipe_invI)
  note inv = pipe_invD[OF assms(1)]
  have k: "k < next_buffer s" "ts = []" "building (elem s) = None"
    using inv(6) assms(2) by (auto simp: thread_ok_def)
  have line: "line ?s = line s @ [push_batch k]" using assms(3) k(3) by (simp add: line_def queue_batch_def)
  have e: "elem ?s = (elem s)\<lparr>input_queue := input_queue (elem s) @ [push_batch k]\<rparr>" "delivered ?s = delivered s"
    "next_buffer ?s = next_buffer s" "accepted ?s = accepted s @ [PushedBuffer k]" "thread ?s = Idle"
    using assms(3) by (simp_all add: queue_batch_def)
  have "line_ok (elem s) (buffers_of (delivered s)) (line s @ [push_batch k])" using inv(1) by (simp add: line_ok_append)
  then show "line_ok (elem ?s) (buffers_of (delivered ?s)) (line ?s)"
    unfolding line e(1,2) by (simp add: line_ok_cong[of "(elem s)\<lparr>input_queue := _\<rparr>" "elem s"])
  show "hands_ok ?s" using inv(2) assms(3) by (simp add: hands_ok_def queue_batch_def)
  show "metas_ok (next_buffer ?s) (elem ?s)" unfolding e(1,3) using inv(3)
    by (simp add: metas_ok_cong[of "(elem s)\<lparr>input_queue := _\<rparr>" "elem s"])
  show "accepted ?s = delivered ?s @ map PushedBuffer (pushes (line ?s)) @ waited_event (thread ?s)"
    unfolding e line using inv(4) assms(2) by simp
  show "buffers_of (accepted ?s) \<subseteq> {..<next_buffer ?s}" unfolding e using inv(5) k(1) by simp
  show "thread_ok ?s" unfolding thread_ok_def e using k(3) by simp
qed

lemma pipe_inv_work:
  assumes "work env n any cl pushed k surfs t ts s = Next s'" "pipe_inv s" "thread s = Working k surfs (t # ts)"
    "\<not> classifier_async_mode n" "\<not> input_tensor_from_meta n"
  shows "pipe_inv s'"
proof -
  note inv = pipe_invD[OF assms(2)]
  have th: "stream_ready k (elem s)" "todo_ok (elem s) k t" "\<forall>t\<in>set ts. todo_ok (elem s) k t"
    "todos_wf (building (elem s) \<noteq> None) (t # ts)"
    using inv(6) assms(3) by (auto simp: thread_ok_def)
  show ?thesis
  proof (cases t)
    case (FrameTodo fr)
    then obtain os e where f: "begin_frame fr (elem s) = Some (os, e)"
      "s' = s\<lparr>elem := e, thread := Working k surfs (map (ObjectTodo fr) os @ ts)\<rparr>"
      using assms(1) by (auto simp: work_def split: option.splits)
    note be = begin_frame_effect[OF f(1) th(1)]
    have os: "\<forall>oa\<in>set os. alive (elem s) k oa"
      using be(5) inv(3) th(2) FrameTodo by (auto simp: metas_ok_def frame_alive_def)
    show ?thesis unfolding f(2)
      by (rule pipe_inv_stream_effect[OF assms(2,3) be(1)])
        (use os th FrameTodo in \<open>auto intro: todos_wf_append_objects\<close>)
  next
    case (ObjectTodo fr oa)
    show ?thesis
    proof (rule pipe_inv_continue_work[OF _ assms(2,3)])
      show "continue_work k surfs ts (process_object env n cl k surfs fr oa (elem s)) s = Next s'"
        using assms(1) ObjectTodo by (simp add: work_def)
      show "stream_effect k (elem s) (outcome_state out) \<and> settled out"
        if "process_object env n cl k surfs fr oa (elem s) = Some out" for out
        using process_object_effect[OF that th(1) _ _ assms(4)] process_object_settled[OF that assms(4)] th(2) ObjectTodo
        by (simp add: alive_def frame_alive_def)
      show "todos_wf (building e \<noteq> None) ts" for e using th(4) ObjectTodo todos_wf_mono by simp
    qed
  next
    case (FullTodo i final)
    let ?r = "process_full_frame_step env n any cl k (of_nat i) (surfs ! i) (k, i) final (elem s)"
    show ?thesis
    proof (rule pipe_inv_continue_work[OF _ assms(2,3)])
      show "continue_work k surfs ts ?r s = Next s'"
        using assms(1) FullTodo by (simp add: work_def split: if_splits)
      show "stream_effect k (elem s) (outcome_state out) \<and> settled out" if "?r = Some out" for out
        using process_full_frame_effect[OF that th(1)] process_full_frame_settled(1)[OF that] by simp
      show "todos_wf (building e \<noteq> None) ts" if "?r = Some (Continue e)" for e
        using process_full_frame_settled(2)[OF that] th(4) FullTodo todos_wf_mono by (cases final) auto
    qed
  next
    case EndTodo
    show ?thesis
    proof (rule pipe_inv_continue_work[OF _ assms(2,3)])
      show "continue_work k surfs ts (Some (end_objects cl (elem s))) s = Next s'"
        using assms(1) EndTodo by (simp add: work_def)
      show "stream_effect k (elem s) (outcome_state out) \<and> settled out"
        if "Some (end_objects cl (elem s)) = Some out" for out
        using end_objects_effect[OF th(1), of cl] end_objects_settled(1)[of cl "elem s"] that by simp
      show "todos_wf (building e \<noteq> None) ts" if "Some (end_objects cl (elem s)) = Some (Continue e)" for e
        using end_objects_settled(2)[of cl "elem s"] that th(4) EndTodo by simp
    qed
  next
    case PushTodo
    then have "s' = queue_batch n (push_batch k) (s\<lparr>accepted := accepted s @ [PushedBuffer k], thread := Idle\<rparr>)"
      using assms(1,4) by (simp add: work_def Let_def)
    then show ?thesis using pipe_inv_push[OF assms(2) _ assms(5)] assms(3) PushTodo by simp
  qed
qed

text \<open>When both queues were found empty, the line is.\<close>

lemma drained_line:
  assumes "pipe_inv s" "thread s = DrainProcess w" "process_queue s = []"
  shows "line s = []"
proof -
  note inv = pipe_invD[OF assms(1)]
  have "line s = opt_list (output_hand s)" "marked (line s)"
    using inv(6) assms(2,3) by (auto simp: thread_ok_def line_def)
  then show ?thesis using inv(2) by (cases "output_hand s") (auto simp: marked_def hands_ok_def)
qed

lemma drained_cases:
  assumes "stream_step env n any cl pushed s = Next s'"
  obtains (working) k surfs t ts where "thread s = Working k surfs (t # ts)" "work env n any cl pushed k surfs t ts s = Next s'"
  | (first) w where "thread s = DrainInput w" "input_queue (elem s) = []" "s' = s\<lparr>thread := DrainProcess w\<rparr>"
  | (second) w where "thread s = DrainProcess w" "process_queue s = []" "drained n w s = Next s'"
  using assms by (auto simp: stream_step_def split: streaming.splits list.splits if_splits)

lemma pipe_inv_stream:
  assumes "stream_step env n any cl pushed s = Next s'" "pipe_inv s" "\<not> classifier_async_mode n" "\<not> input_tensor_from_meta n"
  shows "pipe_inv s'"
  using assms(1)
proof (cases rule: drained_cases)
  case (working k surfs t ts)
  then show ?thesis using pipe_inv_work[OF _ assms(2) _ assms(3,4)] by blast
next
  case (first w)
  note inv = pipe_invD[OF assms(2)]
  have th: "building (elem s) = None" "arrived s w" "marked (line s)" using inv(6) first(1) by (auto simp: thread_ok_def)
  have "input_hand s = None"
  proof (cases "input_hand s")
    case (Some b)
    then have "last (line s) = b" "line s \<noteq> []" using first(2) th(1) by (simp_all add: line_def)
    moreover have "\<not> event_marker b" using inv(2) Some inferred_simps by (auto simp: hands_ok_def)
    ultimately show ?thesis using th(3) by (simp add: marked_def)
  qed
  moreover have "line s' = line s" "waited_event (thread s') = waited_event (thread s)"
    using first by (cases w; simp add: line_def)+
  moreover have "arrived s' w" using th(2) first(3) by (cases w) auto
  ultimately show ?thesis using inv first th by (intro pipe_invI) (auto simp: hands_ok_def thread_ok_def)
next
  case (second w)
  note inv = pipe_invD[OF assms(2)]
  have line: "line s = []" by (rule drained_line[OF assms(2) second(1,2)])
  have th: "building (elem s) = None" "arrived s w" using inv(6) second(1) by (auto simp: thread_ok_def)
  show ?thesis
  proof (cases w)
    case (ForEvent ev)
    then have s': "s' = s\<lparr>elem := handle_event ev (elem s), thread := Idle, delivered := delivered s @ [ForwardedEvent ev]\<rparr>"
      using second(3) by (simp add: drained_def)
    have line': "line s' = []" using line by (simp add: s' line_def)
    show ?thesis
    proof (rule pipe_invI)
      show "accepted s' = delivered s' @ map PushedBuffer (pushes (line s')) @ waited_event (thread s')"
        unfolding line' using inv(4) line second(1) ForEvent by (simp add: s')
      show "metas_ok (next_buffer s') (elem s')" using inv(3)
        by (simp add: s' metas_ok_cong[of "handle_event ev (elem s)" "elem s"])
    qed (use inv(2,5) th line' in \<open>simp_all add: s' hands_ok_def thread_ok_def\<close>)
  next
    case (ForModel c b buf)
    let ?s = "s\<lparr>elem := clear_histories (elem s), ctx := c, model_number := Suc (model_number s)\<rparr>"
    have line': "line ?s = []" using line by (simp add: line_def)
    have acc: "accepted s = delivered s" using inv(4) line second(1) ForModel by simp
    have m: "metas_ok (next_buffer s) (clear_histories (elem s))" using inv(3)
      by (simp add: metas_ok_cong[of "clear_histories (elem s)" "elem s"])
    have "start_work n b buf ?s = Next s'" using second(3) ForModel by (simp add: drained_def)
    then show ?thesis
      by (rule pipe_inv_start_work)
        (use inv(2,5) line' m acc th ForModel in \<open>auto simp: hands_ok_def\<close>)
  qed
qed

lemma pipe_inv_step:
  assumes "infer_step env n any ops l s = Next s'" "pipe_inv s" "\<not> classifier_async_mode n" "\<not> input_tensor_from_meta n"
  shows "pipe_inv s'"
proof (cases l)
  case (MetaFreed priv)
  then have s': "elem s' = elem s" "line s' = line s" "thread s' = thread s" "accepted s' = accepted s" "delivered s' = delivered s"
    "next_buffer s' = next_buffer s" "output_hand s' = output_hand s" "input_hand s' = input_hand s"
    using assms(1) by (auto simp: infer_step_def meta_freed_def line_def split: if_splits)
  note inv = pipe_invD[OF assms(2)]
  have "thread_ok s'" by (rule thread_ok_shrunk[OF inv(6)]) (simp_all add: s')
  moreover have "hands_ok s'" by (rule hands_okI[OF inv(2)]) (simp_all add: s')
  ultimately show ?thesis by (intro pipe_invI) (use inv in \<open>simp_all only: s'\<close>)
qed (use assms pipe_inv_submit pipe_inv_event pipe_inv_stream pipe_inv_input_pop pipe_inv_input_queue pipe_inv_output_pop
      pipe_inv_output_run in \<open>auto simp: infer_step_def\<close>)

end
