(* ===== verification/InferReach.thy ===== *)
theory InferReach
  imports InferPipelineProps
begin

text \<open>
  The runs of the inference element: the states that its threads, the sources of buffers and events
  and the next element reach together. Batches keep their order, the metadata they refer to is there,
  and an event or a new model waits for the buffers before it.
\<close>

section \<open>Reachable states\<close>

text \<open>Of the labels only those that \<open>permitted\<close> allows are taken.\<close>

inductive infer_reachable ::
  "meta_env \<Rightarrow> GstNvInfer \<Rightarrow> NvOSD_RectParams \<Rightarrow> 'c infer_context \<Rightarrow> ('c label \<Rightarrow> bool) \<Rightarrow> 'c infer_pipeline \<Rightarrow>
   'c infer_pipeline \<Rightarrow> bool"
  for env n any ops permitted s0
where
  initially: "infer_reachable env n any ops permitted s0 s0"
| step: "infer_reachable env n any ops permitted s0 s \<Longrightarrow> permitted l \<Longrightarrow> infer_step env n any ops l s = Next s' \<Longrightarrow>
     infer_reachable env n any ops permitted s0 s'"

text \<open>A run given by its labels.\<close>

fun infer_run ::
  "meta_env \<Rightarrow> GstNvInfer \<Rightarrow> NvOSD_RectParams \<Rightarrow> 'c infer_context \<Rightarrow> 'c label list \<Rightarrow> 'c infer_pipeline \<Rightarrow>
   'c infer_pipeline step_result" where
  "infer_run env n any ops [] s = Next s"
| "infer_run env n any ops (l # ls) s =
     (case infer_step env n any ops l s of Next s' \<Rightarrow> infer_run env n any ops ls s' | r \<Rightarrow> r)"

lemma infer_run_reachable:
  assumes "infer_run env n any ops ls s = Next s'" "\<forall>l\<in>set ls. permitted l" "infer_reachable env n any ops permitted s0 s"
  shows "infer_reachable env n any ops permitted s0 s'"
  using assms
proof (induction ls arbitrary: s)
  case (Cons l ls)
  then obtain s1 where "infer_step env n any ops l s = Next s1" "infer_run env n any ops ls s1 = Next s'"
    by (auto split: step_result.splits)
  with Cons step show ?case by (metis list.set_intros)
qed simp

lemma infer_reachable_run:
  assumes "infer_reachable env n any ops permitted s0 s"
  shows "\<exists>ls. infer_run env n any ops ls s0 = Next s \<and> (\<forall>l\<in>set ls. permitted l)"
  using assms
proof induction
  case initially
  show ?case by (rule exI[of _ "[]"]) simp
next
  case (step s l s')
  have run: "infer_run env n any ops (ls @ [l]) a = (case infer_run env n any ops ls a of
      Next b \<Rightarrow> infer_step env n any ops l b | r \<Rightarrow> r)" for ls a
    by (induction ls arbitrary: a) (auto split: step_result.split)
  from step obtain ls where "infer_run env n any ops ls s0 = Next s" "\<forall>l\<in>set ls. permitted l" by blast
  with step run show ?case by (intro exI[of _ "ls @ [l]"]) auto
qed

lemma reachable_pipe_inv:
  assumes "infer_reachable env n any ops permitted (start_pipeline iv filled c) s"
    "\<not> classifier_async_mode n" "\<not> input_tensor_from_meta n"
  shows "pipe_inv s"
  using assms(1)
proof induction
  case initially
  then show ?case by (rule pipe_inv_start)
next
  case (step s l s')
  then show ?case using pipe_inv_step assms(2,3) by blast
qed

section \<open>The order of the buffers\<close>

fun pushed_buffers :: "downstream_item list \<Rightarrow> nat list" where
  "pushed_buffers [] = []"
| "pushed_buffers (PushedBuffer k # xs) = k # pushed_buffers xs"
| "pushed_buffers (ForwardedEvent ev # xs) = pushed_buffers xs"

lemma pushed_buffers_append [simp]: "pushed_buffers (xs @ ys) = pushed_buffers xs @ pushed_buffers ys"
  by (induction xs rule: pushed_buffers.induct) simp_all

text \<open>The number of the buffer the streaming thread has.\<close>

fun held_buffer :: "'c streaming \<Rightarrow> nat option" where
  "held_buffer (Working k surfs ts) = Some k"
| "held_buffer (DrainInput (ForModel c k buf)) = Some k"
| "held_buffer (DrainProcess (ForModel c k buf)) = Some k"
| "held_buffer _ = None"

fun or_next :: "nat \<Rightarrow> nat option \<Rightarrow> nat" where
  "or_next m None = m"
| "or_next m (Some k) = k"

definition ascending :: "'c infer_pipeline \<Rightarrow> bool" where
  "ascending s \<longleftrightarrow> sorted_wrt (<) (pushed_buffers (accepted s)) \<and>
     (\<forall>j\<in>set (pushed_buffers (accepted s)). j < or_next (next_buffer s) (held_buffer (thread s))) \<and>
     (\<forall>k\<in>set_option (held_buffer (thread s)). k < next_buffer s)"

lemma ascending_cong:
  "accepted s' = accepted s \<Longrightarrow> thread s' = thread s \<Longrightarrow> next_buffer s' = next_buffer s \<Longrightarrow> ascending s \<Longrightarrow> ascending s'"
  by (simp add: ascending_def)

lemma queue_batch_fields [simp]:
  "accepted (queue_batch n b s) = accepted s" "thread (queue_batch n b s) = thread s"
  "next_buffer (queue_batch n b s) = next_buffer s" "delivered (queue_batch n b s) = delivered s"
  by (simp_all add: queue_batch_def)

lemma ascending_start_work:
  assumes "start_work n b buf s = Next s'" "ascending (s\<lparr>thread := Working b x y\<rparr>)"
  shows "ascending s'"
proof -
  have "accepted s' = accepted s" "next_buffer s' = next_buffer s" "thread s' = Idle \<or> (\<exists>x y. thread s' = Working b x y)"
    using assms(1) by (auto simp: start_work_def Let_def split: option.splits)
  with assms(2) show ?thesis by (auto simp: ascending_def)
qed

lemma ascending_stream:
  assumes "stream_step env n any cl pushed s = Next s'" "ascending s" "\<not> classifier_async_mode n"
  shows "ascending s'"
  using assms(1)
proof (cases rule: drained_cases)
  case (working k surfs t ts)
  have keep: "ascending s'" if "accepted s' = accepted s" "next_buffer s' = next_buffer s"
    "thread s' = Idle \<or> (\<exists>x y. thread s' = Working k x y)"
    using that assms(2) working(1) by (auto simp: ascending_def)
  show ?thesis
  proof (cases "t = PushTodo")
    case True
    then have "accepted s' = accepted s @ [PushedBuffer k]" "next_buffer s' = next_buffer s" "thread s' = Idle"
      using working assms(3) by (auto simp: work_def Let_def)
    then show ?thesis using working(1) assms(2) by (auto simp: ascending_def sorted_wrt_append dest: less_trans)
  next
    case False
    show ?thesis
      by (rule keep) (use working False in \<open>auto simp: work_def continue_work_def split: todo.splits option.splits
          prod.splits outcome.splits if_splits\<close>)
  qed
next
  case (first w)
  then show ?thesis using assms(2) by (cases w) (auto simp: ascending_def)
next
  case (second w)
  show ?thesis
  proof (cases w)
    case (ForEvent ev)
    then show ?thesis using second assms(2) by (auto simp: drained_def ascending_def)
  next
    case (ForModel c b buf)
    then have "start_work n b buf (s\<lparr>elem := clear_histories (elem s), ctx := c, model_number := Suc (model_number s)\<rparr>) = Next s'"
      using second(3) by (simp add: drained_def)
    then show ?thesis
      by (rule ascending_start_work) (use second(1) ForModel assms(2) in \<open>simp add: ascending_def\<close>)
  qed
qed

lemma ascending_step:
  assumes "infer_step env n any ops l s = Next s'" "ascending s" "\<not> classifier_async_mode n"
  shows "ascending s'"
proof (cases l)
  case (Submit buf model)
  then have sub: "submit n buf model s = Next s'" "thread s = Idle"
    using assms(1) by (auto simp: infer_step_def submit_def Let_def split: if_splits)
  show ?thesis
  proof (cases model)
    case None
    then have "start_work n (next_buffer s) buf (s\<lparr>next_buffer := Suc (next_buffer s)\<rparr>) = Next s'"
      using sub by (auto simp: submit_def Let_def split: if_splits)
    then show ?thesis
      by (rule ascending_start_work) (use assms(2) sub(2) in \<open>simp add: ascending_def\<close>)
  next
    case (Some c)
    then show ?thesis using sub assms(2) by (auto simp: submit_def Let_def ascending_def split: if_splits)
  qed
next
  case (Event ev)
  then have "thread s = Idle" "(thread s' = Idle \<or> thread s' = DrainInput (ForEvent ev)) \<and> next_buffer s' = next_buffer s \<and>
      (accepted s' = accepted s \<or> accepted s' = accepted s @ [ForwardedEvent ev])"
    using assms(1) by (auto simp: infer_step_def sink_event_def split: if_splits)
  then show ?thesis using assms(2) by (auto simp: ascending_def)
next
  case (Stream cl pushed)
  then show ?thesis using ascending_stream assms by (simp add: infer_step_def)
next
  case InputPop
  then show ?thesis using assms(1,2)
    by (intro ascending_cong[of s' s]) (auto simp: infer_step_def input_pop_def Let_def split: if_splits option.splits list.splits)
next
  case InputQueue
  then show ?thesis using assms(1,2)
    by (intro ascending_cong[of s' s]) (auto simp: infer_step_def input_queue_step_def Let_def split: option.splits step_result.splits)
next
  case OutputPop
  then show ?thesis using assms(1,2)
    by (intro ascending_cong[of s' s])
      (auto simp: infer_step_def output_pop_def run_attach_def Let_def split: option.splits list.splits if_splits)
next
  case (OutputRun pushed)
  then have "output_run env n ops pushed s = Next s'" using assms(1) by (simp add: infer_step_def)
  then show ?thesis
    by (cases rule: output_run_cases) (use assms(2) in \<open>auto simp: ascending_def deliver_def\<close>)
next
  case (MetaFreed priv)
  then show ?thesis using assms(1,2)
    by (intro ascending_cong[of s' s]) (auto simp: infer_step_def meta_freed_def split: if_splits)
qed

lemma reachable_ascending:
  assumes "infer_reachable env n any ops permitted (start_pipeline iv filled c) s" "\<not> classifier_async_mode n"
  shows "ascending s"
  using assms(1)
proof induction
  case initially
  show ?case by (simp add: ascending_def start_pipeline_def)
next
  case (step s l s')
  then show ?case using ascending_step assms(2) by blast
qed

end
