(* ===== verification/InferContextProps.thy ===== *)
theory InferContextProps
  imports InferFifo
begin

text \<open>
  The batches of the inference context: each is free, in process or with the caller, never two of them
  (\<open>context_exclusive\<close>), and the context is a queue in the sense of \<open>fifo_context\<close>.
\<close>

section \<open>Every batch is in one place\<close>

definition batch_at :: "'p NvDsInferContextImpl \<Rightarrow> nat \<Rightarrow> NvDsInferBatch option" where
  "batch_at c i = (if i < length (m_Batches c) then m_Batches c ! i else None)"

definition queued :: "'p NvDsInferContextImpl \<Rightarrow> nat list" where
  "queued c = m_FreeBatchQueue c @ m_ProcessBatchQueue c"

definition carries_input :: "'p NvDsInferContextImpl \<Rightarrow> nat \<Rightarrow> bool" where
  "carries_input c i \<longleftrightarrow> (\<exists>b. batch_at c i = Some b \<and> m_BatchSize b = of_nat (length (device_input b)) \<and>
     length (device_input b) \<le> unat (m_MaxBatchSize c))"

definition context_wf :: "'p NvDsInferContextImpl \<Rightarrow> bool" where
  "context_wf c \<longleftrightarrow> distinct (queued c) \<and>
     (\<forall>i\<in>set (queued c). \<exists>b. batch_at c i = Some b \<and> m_BuffersWithContext b) \<and>
     (\<forall>i\<in>set (m_ProcessBatchQueue c). carries_input c i)"

text \<open>No batch got lost: each is queued or with the caller.\<close>

definition accounted :: "'p NvDsInferContextImpl \<Rightarrow> bool" where
  "accounted c \<longleftrightarrow> (\<forall>i<length (m_Batches c). m_Batches c ! i \<noteq> None \<and> (i \<in> set (queued c) \<or> with_caller i c))"

definition pending_inputs :: "'p NvDsInferContextImpl \<Rightarrow> crop list list" where
  "pending_inputs c = map (\<lambda>i. device_input (the (batch_at c i))) (m_ProcessBatchQueue c)"

lemma batch_at_update [simp]:
  "batch_at (update_batch i f c) j = (if i = j then map_option f (batch_at c j) else batch_at c j)"
  by (auto simp: batch_at_def update_batch_def)

lemma update_batch_fields [simp]:
  "m_MaxBatchSize (update_batch i f c) = m_MaxBatchSize c" "m_AutoIncMem (update_batch i f c) = m_AutoIncMem c"
  "m_FreeBatchQueue (update_batch i f c) = m_FreeBatchQueue c"
  "m_ProcessBatchQueue (update_batch i f c) = m_ProcessBatchQueue c"
  "length (m_Batches (update_batch i f c)) = length (m_Batches c)"
  "m_Postprocessor (update_batch i f c) = m_Postprocessor c"
  by (simp_all add: update_batch_def)

lemma count_operation_fields [simp]:
  "m_MaxBatchSize (count_operation c) = m_MaxBatchSize c" "m_AutoIncMem (count_operation c) = m_AutoIncMem c"
  "m_FreeBatchQueue (count_operation c) = m_FreeBatchQueue c" "m_Batches (count_operation c) = m_Batches c"
  "m_ProcessBatchQueue (count_operation c) = m_ProcessBatchQueue c"
  "m_Postprocessor (count_operation c) = m_Postprocessor c"
  by (simp_all add: count_operation_def)

lemma batch_at_cong: "m_Batches c' = m_Batches c \<Longrightarrow> batch_at c' = batch_at c"
  by (simp add: batch_at_def fun_eq_iff)

lemma batch_at_fields [simp]:
  "batch_at (c\<lparr>m_FreeBatchQueue := q\<rparr>) = batch_at c" "batch_at (c\<lparr>m_ProcessBatchQueue := q\<rparr>) = batch_at c"
  "batch_at (c\<lparr>m_Postprocessor := p\<rparr>) = batch_at c" "batch_at (count_operation c) = batch_at c"
  by (simp_all add: batch_at_def fun_eq_iff count_operation_def)

lemma with_caller_batch: "with_caller i c \<longleftrightarrow> (\<exists>b. batch_at c i = Some b \<and> \<not> m_BuffersWithContext b)"
  by (auto simp: with_caller_def batch_at_def split: option.splits)

lemma context_wf_count [simp]: "context_wf (count_operation c) = context_wf c"
  by (simp add: context_wf_def queued_def carries_input_def)

lemma accounted_count [simp]: "accounted (count_operation c) = accounted c"
  by (simp add: accounted_def queued_def with_caller_batch)

lemma pending_count [simp]: "pending_inputs (count_operation c) = pending_inputs c"
  by (simp add: pending_inputs_def)

text \<open>Growing adds new batches behind the others.\<close>

lemma batch_at_old:
  "m_Batches c' = m_Batches c @ bs \<Longrightarrow> batch_at c i = Some b \<Longrightarrow> batch_at c' i = Some b"
  by (auto simp: batch_at_def nth_append split: if_splits)

lemma resize_result:
  assumes "resizeOutputBufferpool k cl c = (st, c')"
  obtains (unchanged) "c' = c" "st = NVDSINFER_MEM_ERROR"
  | (grown) bs j where "m_Batches c' = m_Batches c @ bs" "m_FreeBatchQueue c' = m_FreeBatchQueue c @ [length (m_Batches c)..<length (m_Batches c) + j]"
      "m_ProcessBatchQueue c' = m_ProcessBatchQueue c" "m_MaxBatchSize c' = m_MaxBatchSize c" "j \<le> length bs"
      "\<forall>i<j. bs ! i = Some new_batch" "st = NVDSINFER_SUCCESS \<Longrightarrow> j = length bs \<and> j = k"
      "st \<noteq> NVDSINFER_SUCCESS \<Longrightarrow> allocated cl < k" "m_Postprocessor c' = m_Postprocessor c"
proof (cases "0 < length (m_Batches c) \<and> memory_low cl")
  case True
  then show thesis using assms unchanged by (auto simp: resizeOutputBufferpool_def)
next
  case low: False
  show thesis
  proof (cases "k \<le> allocated cl")
    case True
    show thesis by (rule grown[of "replicate k (Some new_batch)" k])
        (use assms low True in \<open>auto simp: resizeOutputBufferpool_def Let_def\<close>)
  next
    case False
    show thesis by (rule grown[of "replicate (Suc (allocated cl)) (Some new_batch) @
          replicate (k - Suc (allocated cl)) None" "allocated cl"])
        (use assms low False in \<open>auto simp: resizeOutputBufferpool_def Let_def nth_append less_Suc_eq nth_Cons'\<close>)
  qed
qed

lemma resize_wf:
  assumes "resizeOutputBufferpool k cl c = (st, c')" "context_wf c"
  shows "context_wf c' \<and> pending_inputs c' = pending_inputs c"
  using assms(1)
proof (cases rule: resize_result)
  case (grown bs j)
  have old: "batch_at c' i = batch_at c i" if "i \<in> set (queued c)" for i
    using assms(2) that grown(1) batch_at_old by (fastforce simp: context_wf_def)
  have small: "i < length (m_Batches c)" if "i \<in> set (queued c)" for i
    using assms(2) that by (auto simp: context_wf_def batch_at_def split: if_splits)
  have apart: "set (queued c) \<inter> {length (m_Batches c)..<length (m_Batches c) + j} = {}"
    using small by fastforce
  have new_ones: "batch_at c' i = Some new_batch" if "length (m_Batches c) \<le> i" "i < length (m_Batches c) + j" for i
    using that grown(1,5,6) by (auto simp: batch_at_def nth_append)
  have "context_wf c'"
    unfolding context_wf_def
  proof (intro conjI ballI)
    show "distinct (queued c')"
      using assms(2) apart grown(2,3) by (auto simp: context_wf_def queued_def)
    show "\<exists>b. batch_at c' i = Some b \<and> m_BuffersWithContext b" if "i \<in> set (queued c')" for i
    proof (cases "i \<in> set (queued c)")
      case True
      then show ?thesis using assms(2) old by (auto simp: context_wf_def)
    next
      case False
      then show ?thesis using that grown(2,3) new_ones by (auto simp: queued_def new_batch_def)
    qed
    show "carries_input c' i" if "i \<in> set (m_ProcessBatchQueue c')" for i
      using that assms(2) old grown(3,4) by (auto simp: context_wf_def carries_input_def queued_def)
  qed
  moreover have "pending_inputs c' = pending_inputs c"
    using old grown(3) by (auto simp: pending_inputs_def queued_def)
  ultimately show ?thesis by simp
qed (use assms in auto)

lemma resize_accounted:
  assumes "resizeOutputBufferpool k cl c = (NVDSINFER_SUCCESS, c')" "accounted c"
  shows "accounted c'"
  using assms(1)
proof (cases rule: resize_result)
  case (grown bs j)
  then have j: "j = length bs" by simp
  show ?thesis
    unfolding accounted_def
  proof (intro allI impI)
    fix i
    assume i: "i < length (m_Batches c')"
    show "m_Batches c' ! i \<noteq> None \<and> (i \<in> set (queued c') \<or> with_caller i c')"
    proof (cases "i < length (m_Batches c)")
      case True
      then show ?thesis using assms(2) grown(1,2,3)
        by (auto simp: accounted_def nth_append with_caller_def queued_def)
    next
      case False
      then show ?thesis using i grown(1,2,6) j by (auto simp: nth_append queued_def)
    qed
  qed
qed (use assms in auto)

section \<open>The operations\<close>

lemma queued_apart:
  assumes "context_wf c" "m_FreeBatchQueue c = i # free"
  shows "i \<notin> set free" "i \<notin> set (m_ProcessBatchQueue c)" "\<exists>b. batch_at c i = Some b \<and> m_BuffersWithContext b"
  using assms by (auto simp: context_wf_def queued_def)

lemma context_wf_refill:
  assumes "context_wf c" "m_FreeBatchQueue c = i # free"
  shows "context_wf (update_batch i (m_BatchSize_update f) (c\<lparr>m_FreeBatchQueue := free @ [i]\<rparr>))"
    "pending_inputs (update_batch i (m_BatchSize_update f) (c\<lparr>m_FreeBatchQueue := free @ [i]\<rparr>)) = pending_inputs c"
  using assms queued_apart[OF assms] by (auto simp: context_wf_def queued_def carries_input_def pending_inputs_def)

lemma context_wf_take:
  assumes "context_wf c" "m_FreeBatchQueue c = i # free" "length input \<le> unat (m_MaxBatchSize c)"
  defines "c' \<equiv> update_batch i (\<lambda>b. b\<lparr>m_BatchSize := of_nat (length input), device_input := input\<rparr>)
      (c\<lparr>m_FreeBatchQueue := free, m_ProcessBatchQueue := m_ProcessBatchQueue c @ [i]\<rparr>)"
  shows "context_wf c'" "pending_inputs c' = pending_inputs c @ [input]"
proof -
  obtain b where b: "batch_at c i = Some b" "m_BuffersWithContext b" using queued_apart(3)[OF assms(1,2)] by auto
  show "context_wf c'" "pending_inputs c' = pending_inputs c @ [input]"
    using assms(1-3) b queued_apart(1,2)[OF assms(1,2)]
    by (auto simp: c'_def context_wf_def queued_def carries_input_def pending_inputs_def)
qed

lemma queueInputBatch_cases:
  assumes "queueInputBatch input c = Next (st, c')"
  obtains (refused) "st \<noteq> NVDSINFER_SUCCESS" "c' = count_operation c"
  | (failed) "resizeOutputBufferpool 6 (next_calls c) (count_operation c) = (st, c')" "st \<noteq> NVDSINFER_SUCCESS"
      "m_AutoIncMem c"
  | (ran) d i free where "d = count_operation c \<or> m_AutoIncMem c \<and>
        resizeOutputBufferpool 6 (next_calls c) (count_operation c) = (NVDSINFER_SUCCESS, d)"
      "m_FreeBatchQueue d = i # free" "m_MaxBatchSize d = m_MaxBatchSize c" "length input \<le> unat (m_MaxBatchSize c)"
      "if st = NVDSINFER_SUCCESS
       then c' = update_batch i (\<lambda>b. b\<lparr>m_BatchSize := of_nat (length input), device_input := input\<rparr>)
             (d\<lparr>m_FreeBatchQueue := free, m_ProcessBatchQueue := m_ProcessBatchQueue d @ [i]\<rparr>)
       else c' = update_batch i (m_BatchSize_update (\<lambda>_. of_nat (length input))) (d\<lparr>m_FreeBatchQueue := free @ [i]\<rparr>)"
proof -
  define grow where "grow = (if m_FreeBatchQueue c = [] \<and> m_AutoIncMem c
      then resizeOutputBufferpool 6 (next_calls c) (count_operation c) else (NVDSINFER_SUCCESS, count_operation c))"
  obtain st1 d where d: "grow = (st1, d)" by (cases grow)
  have mx: "m_MaxBatchSize d = m_MaxBatchSize c"
    using d by (auto simp: grow_def resizeOutputBufferpool_def Let_def split: if_splits)
  consider (a) "unat (m_MaxBatchSize c) < length input \<or> preprocess_status (next_calls c) \<noteq> NVDSINFER_SUCCESS"
    | (b) "length input \<le> unat (m_MaxBatchSize c)" "preprocess_status (next_calls c) = NVDSINFER_SUCCESS" "st1 \<noteq> NVDSINFER_SUCCESS"
    | (c) "length input \<le> unat (m_MaxBatchSize c)" "preprocess_status (next_calls c) = NVDSINFER_SUCCESS" "st1 = NVDSINFER_SUCCESS"
    by fastforce
  then show thesis
  proof cases
    case a
    then show thesis using assms by (intro refused) (auto simp: queueInputBatch_def Let_def split: if_splits)
  next
    case b
    then show thesis using assms d
      by (intro failed) (auto simp: queueInputBatch_def Let_def grow_def split: if_splits)
  next
    case c
    have eq: "queueInputBatch input c = (case m_FreeBatchQueue d of [] \<Rightarrow> Blocked
        | i # free \<Rightarrow> if backend_status (next_calls c) \<noteq> NVDSINFER_SUCCESS
            then Next (backend_status (next_calls c), update_batch i (m_BatchSize_update (\<lambda>_. of_nat (length input)))
                   (d\<lparr>m_FreeBatchQueue := free @ [i]\<rparr>))
            else Next (NVDSINFER_SUCCESS, update_batch i (\<lambda>b. b\<lparr>m_BatchSize := of_nat (length input), device_input := input\<rparr>)
                   (d\<lparr>m_FreeBatchQueue := free, m_ProcessBatchQueue := m_ProcessBatchQueue d @ [i]\<rparr>)))"
      using c d by (simp add: queueInputBatch_def Let_def grow_def split: if_splits)
    from assms eq obtain i free where q: "m_FreeBatchQueue d = i # free" by (cases "m_FreeBatchQueue d") auto
    show thesis
      by (rule ran[of d i free]) (use assms eq q c d mx in \<open>auto simp: grow_def split: if_splits\<close>)
  qed
qed

lemma queueInputBatch_wf:
  assumes "queueInputBatch input c = Next (st, c')" "context_wf c"
  shows "context_wf c' \<and> pending_inputs c' = pending_inputs c @ (if st = NVDSINFER_SUCCESS then [input] else [])"
  using assms(1)
proof (cases rule: queueInputBatch_cases)
  case refused
  then show ?thesis using assms(2) by simp
next
  case failed
  then show ?thesis using resize_wf assms(2) by fastforce
next
  case (ran d i free)
  then have d: "context_wf d" "pending_inputs d = pending_inputs c"
    using resize_wf[of 6 "next_calls c" "count_operation c" NVDSINFER_SUCCESS d] assms(2) by auto
  show ?thesis using ran(5) context_wf_refill[OF d(1) ran(2)] context_wf_take[OF d(1) ran(2), of input] ran(3,4) d(2)
    by (auto split: if_splits)
qed

lemma queueInputBatch_defined: "queueInputBatch input c \<noteq> Undefined"
  by (auto simp: queueInputBatch_def Let_def split: prod.splits list.splits)

lemma dequeueOutputBatch_cases:
  assumes "dequeueOutputBatch parse network c = Next (st, outs, priv, c')"
  obtains i rest b where "m_ProcessBatchQueue c = i # rest" "batch_at c i = Some b" "priv = i"
    "if st = NVDSINFER_SUCCESS
     then \<exists>p. post_frames parse (\<lambda>k. network (device_input b ! k)) [0..<unat (m_BatchSize b)] (m_Postprocessor c) = Some (p, st, outs) \<and>
        c' = update_batch i (m_BuffersWithContext_update (\<lambda>_. False))
          ((count_operation c)\<lparr>m_ProcessBatchQueue := rest, m_Postprocessor := p\<rparr>)
     else \<exists>p. c' = (count_operation c)\<lparr>m_ProcessBatchQueue := rest, m_FreeBatchQueue := m_FreeBatchQueue c @ [i], m_Postprocessor := p\<rparr>"
proof -
  obtain i rest where q: "m_ProcessBatchQueue c = i # rest"
    using assms by (auto simp: dequeueOutputBatch_def Let_def split: list.splits)
  obtain b where b: "batch_at c i = Some b"
    using assms q by (auto simp: dequeueOutputBatch_def Let_def batch_at_def split: list.splits option.splits if_splits)
  have eq: "dequeueOutputBatch parse network c =
      (let recycled = (count_operation c)\<lparr>m_ProcessBatchQueue := rest, m_FreeBatchQueue := m_FreeBatchQueue c @ [i]\<rparr>
       in if output_status (next_calls c) \<noteq> NVDSINFER_SUCCESS then Next (output_status (next_calls c), [], i, recycled)
          else case post_frames parse (\<lambda>k. network (device_input b ! k)) [0..<unat (m_BatchSize b)] (m_Postprocessor c) of
             None \<Rightarrow> Undefined
           | Some (p, st, outs) \<Rightarrow>
               if st \<noteq> NVDSINFER_SUCCESS then Next (st, [], i, recycled\<lparr>m_Postprocessor := p\<rparr>)
               else Next (NVDSINFER_SUCCESS, outs, i, update_batch i (m_BuffersWithContext_update (\<lambda>_. False))
                      ((count_operation c)\<lparr>m_ProcessBatchQueue := rest, m_Postprocessor := p\<rparr>)))"
    using q b by (auto simp: dequeueOutputBatch_def Let_def batch_at_def split: option.splits if_splits)
  let ?r = "(count_operation c)\<lparr>m_ProcessBatchQueue := rest, m_FreeBatchQueue := m_FreeBatchQueue c @ [i]\<rparr>"
  have same: "?r = ?r\<lparr>m_Postprocessor := m_Postprocessor c\<rparr>" by (simp add: count_operation_def)
  show thesis
  proof (cases "output_status (next_calls c) = NVDSINFER_SUCCESS")
    case True
    with assms eq show thesis
      by (intro that[of i rest b]) (auto simp: q b Let_def split: option.splits if_splits)
  next
    case False
    from assms have "Next (output_status (next_calls c), [], i, ?r) = Next (st, outs, priv, c')"
      unfolding eq Let_def by (simp only: False not_False_eq_True if_True)
    then have "output_status (next_calls c) = st \<and> [] = outs \<and> i = priv \<and> ?r = c'"
      unfolding step_result.inject prod.inject .
    then have r: "output_status (next_calls c) = st" "i = priv" "?r = c'" by blast+
    show thesis
      by (rule that[OF q b r(2)[symmetric]])
        (simp only: False[unfolded r(1)] if_False, rule exI, rule trans[OF r(3)[symmetric] same])
  qed
qed

lemma dequeueOutputBatch_wf:
  assumes "dequeueOutputBatch parse network c = Next (st, outs, priv, c')" "context_wf c"
  shows "context_wf c' \<and> pending_inputs c \<noteq> [] \<and> pending_inputs c' = tl (pending_inputs c)"
  using assms(1)
proof (cases rule: dequeueOutputBatch_cases)
  case (1 i rest b)
  then have i: "i \<notin> set rest" "i \<notin> set (m_FreeBatchQueue c)" "m_BuffersWithContext b"
    using assms(2) by (auto simp: context_wf_def queued_def)
  show ?thesis using 1 i assms(2)
    by (auto simp: context_wf_def queued_def carries_input_def pending_inputs_def split: if_splits)
qed

lemma releaseBatchOutput_wf:
  assumes "context_wf c"
  shows "context_wf (releaseBatchOutput i c) \<and> pending_inputs (releaseBatchOutput i c) = pending_inputs c"
proof (cases "with_caller i c")
  case True
  then obtain b where b: "batch_at c i = Some b" "\<not> m_BuffersWithContext b" by (auto simp: with_caller_batch)
  then have "i \<notin> set (queued c)" using assms by (auto simp: context_wf_def)
  with assms b show ?thesis
    by (auto simp: releaseBatchOutput_def context_wf_def queued_def carries_input_def pending_inputs_def with_caller_batch)
next
  case False
  then show ?thesis using assms by (simp add: releaseBatchOutput_def)
qed

text \<open>Only a growth that fails loses batches.\<close>

lemma calls_kept:
  "resizeOutputBufferpool k cl c = (st, c') \<Longrightarrow> calls c' = calls c"
  "calls (update_batch i f c) = calls c" "calls (count_operation c) = calls c"
  by (auto simp: resizeOutputBufferpool_def Let_def update_batch_def count_operation_def split: if_splits)

lemma accounted_update:
  assumes "accounted c" "\<And>j. j \<noteq> i \<Longrightarrow> j \<in> set (queued c') \<longleftrightarrow> j \<in> set (queued c)"
    "m_Batches c' = m_Batches c" "i \<in> set (queued (update_batch i f c')) \<or> with_caller i (update_batch i f c')"
  shows "accounted (update_batch i f c')"
  unfolding accounted_def
proof (intro allI impI)
  fix j
  assume j: "j < length (m_Batches (update_batch i f c'))"
  then have old: "m_Batches c ! j \<noteq> None" "j \<in> set (queued c) \<or> with_caller j c"
    using assms(1,3) by (auto simp: accounted_def)
  have nn: "m_Batches (update_batch i f c') ! j \<noteq> None"
    using old(1) j assms(3) by (cases "i = j") (auto simp: update_batch_def)
  have "queued (update_batch i f c') = queued c'" by (simp add: queued_def)
  then show "m_Batches (update_batch i f c') ! j \<noteq> None \<and>
      (j \<in> set (queued (update_batch i f c')) \<or> with_caller j (update_batch i f c'))"
    using nn old(2) assms(2,3,4) by (cases "i = j") (auto simp: with_caller_batch batch_at_cong[OF assms(3)])
qed

definition grows_safely :: "'p NvDsInferContextImpl \<Rightarrow> bool" where
  "grows_safely c \<longleftrightarrow> (\<forall>k. 6 \<le> allocated (calls c k))"

lemma queueInputBatch_accounted:
  assumes "queueInputBatch input c = Next (st, c')" "accounted c" "grows_safely c"
  shows "accounted c' \<and> calls c' = calls c"
  using assms(1)
proof (cases rule: queueInputBatch_cases)
  case refused
  then show ?thesis using assms(2) by (simp add: calls_kept)
next
  case failed
  have "6 \<le> allocated (next_calls c)" using assms(3) by (simp add: grows_safely_def next_calls_def)
  with failed have "c' = count_operation c" by (cases rule: resize_result) auto
  then show ?thesis using assms(2) by (simp add: calls_kept)
next
  case (ran d i free)
  then have d: "accounted d" "calls d = calls c"
    using resize_accounted[of 6 "next_calls c" "count_operation c" d] assms(2) by (auto simp: calls_kept)
  let ?set = "\<lambda>b. b\<lparr>m_BatchSize := of_nat (length input), device_input := input\<rparr>"
  have "accounted (update_batch i ?set (d\<lparr>m_FreeBatchQueue := free, m_ProcessBatchQueue := m_ProcessBatchQueue d @ [i]\<rparr>))"
    by (rule accounted_update[OF d(1)]) (auto simp: queued_def ran(2))
  moreover have "accounted (update_batch i (m_BatchSize_update (\<lambda>_. of_nat (length input))) (d\<lparr>m_FreeBatchQueue := free @ [i]\<rparr>))"
    by (rule accounted_update[OF d(1)]) (auto simp: queued_def ran(2))
  ultimately show ?thesis using ran(5) d(2) by (auto simp: calls_kept split: if_splits)
qed

lemma dequeueOutputBatch_accounted:
  assumes "dequeueOutputBatch parse network c = Next (st, outs, priv, c')" "accounted c"
  shows "accounted c' \<and> calls c' = calls c"
  using assms(1)
proof (cases rule: dequeueOutputBatch_cases)
  case (1 i rest b)
  have "accounted (update_batch i (m_BuffersWithContext_update (\<lambda>_. False))
      ((count_operation c)\<lparr>m_ProcessBatchQueue := rest, m_Postprocessor := p\<rparr>))" for p
    by (rule accounted_update[OF assms(2)]) (use 1(1,2) in \<open>auto simp: queued_def with_caller_batch\<close>)
  moreover have "accounted ((count_operation c)\<lparr>m_ProcessBatchQueue := rest, m_FreeBatchQueue := m_FreeBatchQueue c @ [i], m_Postprocessor := p\<rparr>)" for p
    using assms(2) 1(1) by (auto simp: accounted_def queued_def with_caller_batch)
  ultimately show ?thesis using 1(4) by (auto simp: calls_kept split: if_splits)
qed

lemma releaseBatchOutput_accounted:
  assumes "accounted c"
  shows "accounted (releaseBatchOutput i c) \<and> calls (releaseBatchOutput i c) = calls c"
proof (cases "with_caller i c")
  case True
  have "accounted (update_batch i (m_BuffersWithContext_update (\<lambda>_. True)) (c\<lparr>m_FreeBatchQueue := m_FreeBatchQueue c @ [i]\<rparr>))"
    by (rule accounted_update[OF assms]) (auto simp: queued_def)
  then show ?thesis using True by (simp add: releaseBatchOutput_def calls_kept)
qed (use assms in \<open>simp add: releaseBatchOutput_def\<close>)

text \<open>Without growth no batch is ever lost.\<close>

lemma operations_keep_policy:
  "resizeOutputBufferpool k cl c = (st, c1) \<Longrightarrow> m_AutoIncMem c1 = m_AutoIncMem c"
  "queueInputBatch input c = Next (st, c') \<Longrightarrow> m_AutoIncMem c' = m_AutoIncMem c"
  "dequeueOutputBatch parse network c = Next (st, outs, priv, c') \<Longrightarrow> m_AutoIncMem c' = m_AutoIncMem c"
  "m_AutoIncMem (releaseBatchOutput i c) = m_AutoIncMem c"
proof -
  show resize: "m_AutoIncMem c1 = m_AutoIncMem c" if "resizeOutputBufferpool k cl c = (st, c1)" for k cl c st and c1 :: "'p NvDsInferContextImpl"
    using that by (auto simp: resizeOutputBufferpool_def Let_def split: if_splits)
  show "m_AutoIncMem c' = m_AutoIncMem c" if "queueInputBatch input c = Next (st, c')"
    using that by (cases rule: queueInputBatch_cases) (auto dest: resize split: if_splits)
  show "m_AutoIncMem c' = m_AutoIncMem c" if "dequeueOutputBatch parse network c = Next (st, outs, priv, c')"
    using that by (cases rule: dequeueOutputBatch_cases) (auto split: if_splits)
  show "m_AutoIncMem (releaseBatchOutput i c) = m_AutoIncMem c" by (simp add: releaseBatchOutput_def)
qed

lemma fixed_pool_accounted:
  assumes "queueInputBatch input c = Next (st, c')" "accounted c" "\<not> m_AutoIncMem c"
  shows "accounted c' \<and> length (m_Batches c') = length (m_Batches c)"
  using assms(1)
proof (cases rule: queueInputBatch_cases)
  case (ran d i free)
  let ?set = "\<lambda>b. b\<lparr>m_BatchSize := of_nat (length input), device_input := input\<rparr>"
  have d: "d = count_operation c" "accounted d" using ran(1) assms(2,3) by auto
  have "accounted (update_batch i ?set (d\<lparr>m_FreeBatchQueue := free, m_ProcessBatchQueue := m_ProcessBatchQueue d @ [i]\<rparr>))"
    by (rule accounted_update[OF d(2)]) (auto simp: queued_def ran(2))
  moreover have "accounted (update_batch i (m_BatchSize_update (\<lambda>_. of_nat (length input))) (d\<lparr>m_FreeBatchQueue := free @ [i]\<rparr>))"
    by (rule accounted_update[OF d(2)]) (auto simp: queued_def ran(2))
  ultimately show ?thesis using ran(5) d(1) by (auto split: if_splits)
qed (use assms in simp_all)

text \<open>The outputs that the caller has.\<close>

definition lent_outputs :: "'p NvDsInferContextImpl \<Rightarrow> nat set" where
  "lent_outputs c = {i. with_caller i c}"

lemma lent_resize: "resizeOutputBufferpool k cl c = (st, c') \<Longrightarrow> lent_outputs c' = lent_outputs c"
  by (auto simp: resizeOutputBufferpool_def lent_outputs_def with_caller_def Let_def nth_append new_batch_def nth_Cons'
      split: if_splits option.splits)

lemma lent_cong: "m_Batches c' = m_Batches c \<Longrightarrow> lent_outputs c' = lent_outputs c"
  by (simp add: lent_outputs_def with_caller_def)

lemma lent_update:
  assumes "\<And>b. m_BuffersWithContext (f b) = m_BuffersWithContext b"
  shows "lent_outputs (update_batch i f c) = lent_outputs c"
  by (auto simp: lent_outputs_def with_caller_batch assms)

lemma lent_queue:
  assumes "queueInputBatch input c = Next (st, c')"
  shows "lent_outputs c' = lent_outputs c"
proof -
  have count: "lent_outputs (count_operation c) = lent_outputs c" by (rule lent_cong) simp
  from assms show ?thesis
  proof (cases rule: queueInputBatch_cases)
    case (ran d i free)
    have "lent_outputs d = lent_outputs c" using ran(1) count lent_resize by blast
    moreover have "lent_outputs (d\<lparr>m_FreeBatchQueue := q\<rparr>) = lent_outputs d"
      "lent_outputs (d\<lparr>m_FreeBatchQueue := q, m_ProcessBatchQueue := q'\<rparr>) = lent_outputs d" for q q'
      by (rule lent_cong, simp)+
    ultimately show ?thesis using ran(5) by (auto simp: lent_update split: if_splits)
  qed (use count lent_resize[of 6 "next_calls c" "count_operation c" st c'] in simp_all)
qed

lemma lent_dequeue:
  assumes "dequeueOutputBatch parse network c = Next (st, outs, priv, c')"
  shows "lent_outputs c' \<subseteq> (if st = NVDSINFER_SUCCESS then insert priv (lent_outputs c) else lent_outputs c)"
  using assms
proof (cases rule: dequeueOutputBatch_cases)
  case (1 i rest b)
  have "lent_outputs ((count_operation c)\<lparr>m_ProcessBatchQueue := rest, m_FreeBatchQueue := q, m_Postprocessor := p\<rparr>) = lent_outputs c" for q p
    by (rule lent_cong) simp
  then show ?thesis using 1 by (auto simp: lent_outputs_def with_caller_batch split: if_splits)
qed

lemma lent_release: "lent_outputs (releaseBatchOutput i c) \<subseteq> lent_outputs c - {i}"
  by (auto simp: lent_outputs_def releaseBatchOutput_def with_caller_batch split: if_splits)

section \<open>Any sequence of operations\<close>

datatype context_op = QueueOp "crop list" | DequeueOp | ReleaseOp nat

definition context_step ::
  "('p \<Rightarrow> NvDsInferLayerInfo list \<Rightarrow> NvDsInferFrameOutput \<Rightarrow> ('p \<times> NvDsInferStatus \<times> NvDsInferFrameOutput) option) \<Rightarrow>
   (crop \<Rightarrow> NvDsInferLayerInfo list) \<Rightarrow> context_op \<Rightarrow> 'p NvDsInferContextImpl \<Rightarrow> 'p NvDsInferContextImpl step_result" where
  "context_step parse network op c =
     (case op of
        QueueOp i \<Rightarrow> (case queueInputBatch i c of Next (st, c') \<Rightarrow> Next c' | Undefined \<Rightarrow> Undefined | Blocked \<Rightarrow> Blocked)
      | DequeueOp \<Rightarrow> (case dequeueOutputBatch parse network c of
            Next (st, outs, priv, c') \<Rightarrow> Next c' | Undefined \<Rightarrow> Undefined | Blocked \<Rightarrow> Blocked)
      | ReleaseOp i \<Rightarrow> Next (releaseBatchOutput i c))"

inductive context_reachable ::
  "('p \<Rightarrow> NvDsInferLayerInfo list \<Rightarrow> NvDsInferFrameOutput \<Rightarrow> ('p \<times> NvDsInferStatus \<times> NvDsInferFrameOutput) option) \<Rightarrow>
   (crop \<Rightarrow> NvDsInferLayerInfo list) \<Rightarrow> 'p NvDsInferContextImpl \<Rightarrow> 'p NvDsInferContextImpl \<Rightarrow> bool"
  for parse network start
where
  initialised: "context_reachable parse network start start"
| operation: "context_reachable parse network start c \<Longrightarrow> context_step parse network op c = Next c' \<Longrightarrow>
    context_reachable parse network start c'"

lemma context_step_keeps:
  assumes "context_step parse network op c = Next c'" "context_wf c"
  shows "context_wf c' \<and> (grows_safely c \<longrightarrow> accounted c \<longrightarrow> accounted c' \<and> grows_safely c')"
proof (cases op)
  case (QueueOp i)
  with assms(1) obtain st where "queueInputBatch i c = Next (st, c')"
    by (auto simp: context_step_def split: step_result.splits)
  from queueInputBatch_wf[OF this assms(2)] queueInputBatch_accounted[OF this] show ?thesis
    by (auto simp: grows_safely_def)
next
  case DequeueOp
  with assms(1) obtain st outs priv where "dequeueOutputBatch parse network c = Next (st, outs, priv, c')"
    by (auto simp: context_step_def split: step_result.splits)
  from dequeueOutputBatch_wf[OF this assms(2)] dequeueOutputBatch_accounted[OF this] show ?thesis
    by (auto simp: grows_safely_def)
next
  case (ReleaseOp i)
  then show ?thesis using assms releaseBatchOutput_wf[OF assms(2)] releaseBatchOutput_accounted
    by (auto simp: context_step_def grows_safely_def)
qed

lemma context_reachable_wf:
  assumes "context_reachable parse network start c" "context_wf start"
  shows "context_wf c \<and> (grows_safely start \<longrightarrow> accounted start \<longrightarrow> accounted c \<and> grows_safely c)"
  using assms by (induction rule: context_reachable.induct) (auto dest: context_step_keeps)

lemma start_context_wf:
  assumes "resizeOutputBufferpool k cl (start_context mx auto p cls) = (st, c)"
  shows "context_wf c \<and> calls c = cls \<and> (st = NVDSINFER_SUCCESS \<longrightarrow> accounted c)"
  using resize_wf[OF assms] resize_accounted[of k cl "start_context mx auto p cls" c] calls_kept(1)[OF assms] assms
  by (auto simp: start_context_def context_wf_def queued_def accounted_def)

lemma count_list_distinct: "distinct xs \<Longrightarrow> count_list xs i = of_bool (i \<in> set xs)"
  by (induction xs) auto

lemma places_le:
  "context_wf c \<Longrightarrow> count_list (queued c) i + of_bool (with_caller i c) \<le> 1"
  by (auto simp: context_wf_def with_caller_batch count_list_distinct of_bool_def)

lemma places_eq:
  "context_wf c \<Longrightarrow> accounted c \<Longrightarrow> i < length (m_Batches c) \<Longrightarrow>
     count_list (queued c) i + of_bool (with_caller i c) = 1"
  by (auto simp: context_wf_def accounted_def with_caller_batch count_list_distinct of_bool_def)

lemma release_twice: "releaseBatchOutput i (releaseBatchOutput i c) = releaseBatchOutput i c"
  by (cases "with_caller i c") (auto simp: releaseBatchOutput_def with_caller_batch)

lemma context_places:
  assumes "resizeOutputBufferpool k cl (start_context mx auto p cls) = (NVDSINFER_SUCCESS, start)"
    "context_reachable parse network start c" "i < length (m_Batches c)"
  shows "count_list (queued c) i + of_bool (with_caller i c) \<le> 1"
    and "(\<forall>j. 6 \<le> allocated (cls j)) \<longrightarrow> count_list (queued c) i + of_bool (with_caller i c) = 1"
proof -
  have st: "context_wf start" "accounted start" "calls start = cls" using start_context_wf[OF assms(1)] by auto
  have wf: "context_wf c" "(\<forall>j. 6 \<le> allocated (cls j)) \<longrightarrow> accounted c"
    using context_reachable_wf[OF assms(2) st(1)] st(2,3) by (auto simp: grows_safely_def)
  show "count_list (queued c) i + of_bool (with_caller i c) \<le> 1" using places_le[OF wf(1)] .
  show "(\<forall>j. 6 \<le> allocated (cls j)) \<longrightarrow> count_list (queued c) i + of_bool (with_caller i c) = 1"
    using places_eq[OF wf(1) _ assms(3)] wf(2) by blast
qed

text \<open>
  Property C14. After any sequence of queueing, dequeueing and giving back outputs, known or not, a batch
  of the context is at most once in one of the queue of free batches, the process queue and the hands
  of the caller, and exactly once as long as the pool could be grown when it had to be; giving back an
  output twice is the same as giving it back once.
\<close>

theorem context_exclusive:
  assumes "resizeOutputBufferpool k cl (start_context mx auto p cls) = (NVDSINFER_SUCCESS, start)"
    and "context_reachable parse network start c" and "i < length (m_Batches c)"
  shows "count_list (m_FreeBatchQueue c @ m_ProcessBatchQueue c) i + of_bool (with_caller i c) \<le> 1 \<and>
    ((\<forall>j. 6 \<le> allocated (cls j)) \<longrightarrow>
       count_list (m_FreeBatchQueue c @ m_ProcessBatchQueue c) i + of_bool (with_caller i c) = 1) \<and>
    releaseBatchOutput i (releaseBatchOutput i c) = releaseBatchOutput i c"
  using context_places[OF assms] release_twice unfolding queued_def by blast

definition sample_calls :: "nat \<Rightarrow> context_calls" where
  "sample_calls k = \<lparr>preprocess_status = NVDSINFER_SUCCESS, memory_low = False, allocated = 6,
     backend_status = NVDSINFER_SUCCESS, output_status = NVDSINFER_SUCCESS\<rparr>"

definition sample_context :: "nat NvDsInferContextImpl" where
  "sample_context = snd (resizeOutputBufferpool 2 (sample_calls 0) (start_context 4 True 0 sample_calls))"

definition sample_parse :: "nat \<Rightarrow> NvDsInferLayerInfo list \<Rightarrow> NvDsInferFrameOutput \<Rightarrow> (nat \<times> NvDsInferStatus \<times> NvDsInferFrameOutput) option" where
  "sample_parse p layers fr = Some (Suc p, NVDSINFER_SUCCESS, fr)"

definition busy_context :: "nat NvDsInferContextImpl" where
  "busy_context = sample_context\<lparr>m_FreeBatchQueue := [1], m_ProcessBatchQueue := [0], operations := 1\<rparr>"

definition lent_context :: "nat NvDsInferContextImpl" where
  "lent_context = busy_context\<lparr>m_ProcessBatchQueue := [], operations := 2, 
     m_Batches := [Some (new_batch\<lparr>m_BuffersWithContext := False\<rparr>), Some new_batch]\<rparr>"

lemma sample_context_eq:
  "sample_context = (start_context 4 True 0 sample_calls)\<lparr>m_Batches := [Some new_batch, Some new_batch], m_FreeBatchQueue := [0, 1]\<rparr>"
  by (simp add: sample_context_def resizeOutputBufferpool_def start_context_def sample_calls_def upt_rec numeral_2_eq_2)

lemma sample_queue: "queueInputBatch [] sample_context = Next (NVDSINFER_SUCCESS, busy_context)"
  by (simp add: queueInputBatch_def next_calls_def sample_calls_def sample_context_eq busy_context_def start_context_def
    count_operation_def update_batch_def new_batch_def)

lemma sample_dequeue: "dequeueOutputBatch sample_parse (\<lambda>_. []) busy_context = Next (NVDSINFER_SUCCESS, [], 0, lent_context)"
  by (simp add: dequeueOutputBatch_def next_calls_def sample_calls_def sample_context_eq busy_context_def lent_context_def
    start_context_def count_operation_def update_batch_def new_batch_def numeral_2_eq_2)

lemma lent_reachable: "context_reachable sample_parse (\<lambda>_. []) sample_context lent_context"
  by (rule operation[where op = DequeueOp and c = busy_context, OF operation[where op = "QueueOp []", OF initialised]])
    (simp_all add: context_step_def sample_queue sample_dequeue)

theorem context_exclusive_witness:
  "count_list (m_FreeBatchQueue lent_context @ m_ProcessBatchQueue lent_context) 0 + of_bool (with_caller 0 lent_context) = 1"
proof -
  have "resizeOutputBufferpool 2 (sample_calls 0) (start_context 4 True 0 sample_calls) = (NVDSINFER_SUCCESS, sample_context)"
    by (simp add: sample_context_def resizeOutputBufferpool_def start_context_def sample_calls_def)
  moreover have "0 < length (m_Batches lent_context)" by (simp add: lent_context_def)
  ultimately show ?thesis
    using context_exclusive[OF _ lent_reachable, of 2 "sample_calls 0" 4 True 0 sample_calls 0] by (simp add: sample_calls_def)
qed

text \<open>A pool that cannot be completed leaves null pointers behind, which the destructor follows.\<close>

lemma failed_growth_undefined_destructor:
  assumes "resizeOutputBufferpool k cl c = (NVDSINFER_CUDA_ERROR, c')" "Suc (allocated cl) < k"
  shows "destroy_context c' = None"
  using assms by (auto simp: resizeOutputBufferpool_def destroy_context_def Let_def split: if_splits)

section \<open>The context is a queue\<close>

definition context_ops ::
  "('p \<Rightarrow> NvDsInferLayerInfo list \<Rightarrow> NvDsInferFrameOutput \<Rightarrow> ('p \<times> NvDsInferStatus \<times> NvDsInferFrameOutput) option) \<Rightarrow>
   (crop \<Rightarrow> NvDsInferLayerInfo list) \<Rightarrow> 'p NvDsInferContextImpl infer_context" where
  "context_ops parse network =
     \<lparr>queue_input = (\<lambda>c i. queueInputBatch i c), dequeue_output = dequeueOutputBatch parse network,
      release_output = releaseBatchOutput\<rparr>"

definition output_of ::
  "('p \<Rightarrow> NvDsInferLayerInfo list \<Rightarrow> NvDsInferFrameOutput \<Rightarrow> ('p \<times> NvDsInferStatus \<times> NvDsInferFrameOutput) option) \<Rightarrow>
   (crop \<Rightarrow> NvDsInferLayerInfo list) \<Rightarrow> crop \<Rightarrow> NvDsInferFrameOutput \<Rightarrow> bool" where
  "output_of parse network i fo \<longleftrightarrow> (\<exists>p p' st. parse p (network i) new_frame = Some (p', st, fo))"

lemma post_frames_outputs:
  assumes "post_frames parse layers_of is p = Some (p', NVDSINFER_SUCCESS, frs)"
  shows "list_all2 (\<lambda>i fo. \<exists>q q' st. parse q (layers_of i) new_frame = Some (q', st, fo)) is frs"
  using assms
proof (induction "is" arbitrary: p frs)
  case (Cons i "is")
  from Cons.prems obtain q st fr frs' where "parse p (layers_of i) new_frame = Some (q, st, fr)" "frs = fr # frs'"
    "post_frames parse layers_of is q = Some (p', NVDSINFER_SUCCESS, frs')"
    by (auto simp: new_frame_def split: option.splits if_splits)
  then show ?case using Cons.IH by auto
qed simp

lemma dequeued_outputs:
  assumes "dequeueOutputBatch parse network c = Next (NVDSINFER_SUCCESS, outs, priv, c')" "context_wf c"
  shows "list_all2 (output_of parse network) (hd (pending_inputs c)) outs"
  using assms(1)
proof (cases rule: dequeueOutputBatch_cases)
  case (1 i rest b)
  then obtain p where p: "post_frames parse (\<lambda>k. network (device_input b ! k)) [0..<unat (m_BatchSize b)] (m_Postprocessor c) =
      Some (p, NVDSINFER_SUCCESS, outs)" by auto
  have "carries_input c i" using assms(2) 1(1) by (auto simp: context_wf_def)
  then have len: "m_BatchSize b = of_nat (length (device_input b))" "length (device_input b) < 2 ^ 32"
    using 1(2) unat_u32_less[of "m_MaxBatchSize c"] by (auto simp: carries_input_def)
  then have "unat (m_BatchSize b) = length (device_input b)" by simp
  with post_frames_outputs[OF p] have "list_all2 (output_of parse network) (device_input b) outs"
    by (simp add: list_all2_conv_all_nth output_of_def)
  then show ?thesis using 1(1,2) by (simp add: pending_inputs_def)
qed

interpretation context_fifo: fifo_context "context_ops parse network" context_wf pending_inputs "output_of parse network"
  for parse :: "'p \<Rightarrow> NvDsInferLayerInfo list \<Rightarrow> NvDsInferFrameOutput \<Rightarrow> ('p \<times> NvDsInferStatus \<times> NvDsInferFrameOutput) option"
    and network :: "crop \<Rightarrow> NvDsInferLayerInfo list"
proof
  fix c c' :: "'p NvDsInferContextImpl" and i st outs priv
  assume c: "context_wf c"
  show "context_wf c' \<and> pending_inputs c' = pending_inputs c @ [i]"
    if "queue_input (context_ops parse network) c i = Next (NVDSINFER_SUCCESS, c')"
    using queueInputBatch_wf[OF _ c, of i NVDSINFER_SUCCESS c'] that by (simp add: context_ops_def)
  show "context_wf c' \<and> pending_inputs c' = pending_inputs c"
    if "queue_input (context_ops parse network) c i = Next (st, c')" "st \<noteq> NVDSINFER_SUCCESS"
    using queueInputBatch_wf[OF _ c, of i st c'] that by (simp add: context_ops_def)
  show "context_wf c' \<and> pending_inputs c \<noteq> [] \<and> pending_inputs c' = tl (pending_inputs c)"
    if "dequeue_output (context_ops parse network) c = Next (st, outs, priv, c')"
    using dequeueOutputBatch_wf[OF _ c, of parse network st outs priv c'] that by (simp add: context_ops_def)
  show "dequeue_output (context_ops parse network) c = Blocked" if "pending_inputs c = []"
    using that by (simp add: context_ops_def dequeueOutputBatch_def pending_inputs_def)
  show "list_all2 (output_of parse network) (hd (pending_inputs c)) outs"
    if "dequeue_output (context_ops parse network) c = Next (NVDSINFER_SUCCESS, outs, priv, c')"
    using dequeued_outputs[OF _ c, of parse network outs priv c'] that by (simp add: context_ops_def)
  show "context_wf (release_output (context_ops parse network) priv c) \<and>
      pending_inputs (release_output (context_ops parse network) priv c) = pending_inputs c"
    using releaseBatchOutput_wf[OF c] by (simp add: context_ops_def)
next
  show "queue_input (context_ops parse network) c i \<noteq> Undefined" for c i
    using queueInputBatch_defined by (simp add: context_ops_def)
qed

text \<open>A pool of a fixed size has at least one batch.\<close>

definition pool_ok :: "'p NvDsInferContextImpl \<Rightarrow> bool" where
  "pool_ok c \<longleftrightarrow> context_wf c \<and> (\<not> m_AutoIncMem c \<longrightarrow> accounted c \<and> m_Batches c \<noteq> [])"

lemma queue_waits_fixed:
  assumes "queueInputBatch input c = Blocked" "pool_ok c"
  shows "pending_inputs c \<noteq> [] \<or> lent_outputs c \<noteq> {}"
proof -
  have grown: "m_FreeBatchQueue d \<noteq> []" if "resizeOutputBufferpool 6 cl c' = (NVDSINFER_SUCCESS, d)" for cl and c' d :: "'a NvDsInferContextImpl"
    using that by (auto simp: resizeOutputBufferpool_def Let_def split: if_splits)
  have "m_FreeBatchQueue c = [] \<and> \<not> m_AutoIncMem c"
    using assms(1) by (auto simp: queueInputBatch_def Let_def dest!: grown split: if_splits prod.splits list.splits)
  moreover from this have "0 < length (m_Batches c)" "accounted c" using assms(2) by (auto simp: pool_ok_def)
  ultimately show ?thesis by (auto simp: accounted_def queued_def pending_inputs_def lent_outputs_def)
qed

lemma pool_ok_steps:
  assumes "pool_ok c"
  shows "queueInputBatch input c = Next (st, c') \<Longrightarrow> pool_ok c'"
    "dequeueOutputBatch parse network c = Next (st, outs, priv, c') \<Longrightarrow> pool_ok c'"
    "pool_ok (releaseBatchOutput i c)"
proof -
  show "pool_ok c'" if "queueInputBatch input c = Next (st, c')"
    using assms queueInputBatch_wf[OF that] fixed_pool_accounted[OF that] operations_keep_policy(2)[OF that]
    by (auto simp: pool_ok_def)
  show "pool_ok c'" if d: "dequeueOutputBatch parse network c = Next (st, outs, priv, c')"
  proof -
    have "length (m_Batches c') = length (m_Batches c)" using d by (cases rule: dequeueOutputBatch_cases) (auto split: if_splits)
    then show ?thesis using assms dequeueOutputBatch_wf[OF d] dequeueOutputBatch_accounted[OF d] operations_keep_policy(3)[OF d]
      by (auto simp: pool_ok_def)
  qed
  have "length (m_Batches (releaseBatchOutput i c)) = length (m_Batches c)" by (simp add: releaseBatchOutput_def)
  then show "pool_ok (releaseBatchOutput i c)"
    using assms releaseBatchOutput_wf[of c i] releaseBatchOutput_accounted[of c i]
    by (auto simp: pool_ok_def operations_keep_policy(4))
qed

interpretation context_pool: lending_context "context_ops parse network" pool_ok pending_inputs "output_of parse network" lent_outputs
  for parse :: "'p \<Rightarrow> NvDsInferLayerInfo list \<Rightarrow> NvDsInferFrameOutput \<Rightarrow> ('p \<times> NvDsInferStatus \<times> NvDsInferFrameOutput) option"
    and network :: "crop \<Rightarrow> NvDsInferLayerInfo list"
proof
  fix c c' :: "'p NvDsInferContextImpl" and i st outs priv
  assume c: "pool_ok c"
  then have wf: "context_wf c" by (simp add: pool_ok_def)
  note fifo = context_fifo.queue_success[OF wf] context_fifo.queue_failure[OF wf] context_fifo.dequeue_pops[OF wf]
  show "pool_ok c' \<and> pending_inputs c' = pending_inputs c @ [i]"
    if "queue_input (context_ops parse network) c i = Next (NVDSINFER_SUCCESS, c')"
    using fifo(1)[OF that] pool_ok_steps(1)[OF c] that by (simp add: context_ops_def)
  show "pool_ok c' \<and> pending_inputs c' = pending_inputs c"
    if "queue_input (context_ops parse network) c i = Next (st, c')" "st \<noteq> NVDSINFER_SUCCESS"
    using fifo(2)[OF that] pool_ok_steps(1)[OF c] that by (simp add: context_ops_def)
  show "pool_ok c' \<and> pending_inputs c \<noteq> [] \<and> pending_inputs c' = tl (pending_inputs c)"
    if "dequeue_output (context_ops parse network) c = Next (st, outs, priv, c')"
    using fifo(3)[OF that] pool_ok_steps(2)[OF c] that by (simp add: context_ops_def)
  show "dequeue_output (context_ops parse network) c = Blocked" if "pending_inputs c = []"
    by (rule context_fifo.dequeue_blocks[OF wf that])
  show "list_all2 (output_of parse network) (hd (pending_inputs c)) outs"
    if "dequeue_output (context_ops parse network) c = Next (NVDSINFER_SUCCESS, outs, priv, c')"
    by (rule context_fifo.dequeue_success[OF wf that])
  show "pool_ok (release_output (context_ops parse network) priv c) \<and>
      pending_inputs (release_output (context_ops parse network) priv c) = pending_inputs c"
    using pool_ok_steps(3)[OF c] context_fifo.release_keeps[OF wf] by (simp add: context_ops_def)
  show "lent_outputs c' = lent_outputs c" if "queue_input (context_ops parse network) c i = Next (st, c')"
    using that lent_queue by (simp add: context_ops_def)
  show "lent_outputs c' \<subseteq> (if st = NVDSINFER_SUCCESS then insert priv (lent_outputs c) else lent_outputs c)"
    if "dequeue_output (context_ops parse network) c = Next (st, outs, priv, c')"
    by (rule lent_dequeue[of parse network c st outs priv c']) (use that in \<open>simp add: context_ops_def\<close>)
  show "lent_outputs (release_output (context_ops parse network) priv c) \<subseteq> lent_outputs c - {priv}"
    using lent_release by (simp add: context_ops_def)
  show "pending_inputs c \<noteq> [] \<or> lent_outputs c \<noteq> {}" if "queue_input (context_ops parse network) c i = Blocked"
    using that queue_waits_fixed[OF _ c] by (simp add: context_ops_def)
  show "dequeue_output (context_ops parse network) c \<noteq> Blocked" if "pending_inputs c \<noteq> []"
    using that by (auto simp: context_ops_def dequeueOutputBatch_def pending_inputs_def Let_def
        split: list.splits option.splits prod.splits)
next
  show "queue_input (context_ops parse network) c i \<noteq> Undefined" for c i
    using queueInputBatch_defined by (simp add: context_ops_def)
qed

end
