(* ===== verification/InferSamples.thy ===== *)
theory InferSamples
  imports InferReach InferContextProps
begin

text \<open>
  A small configuration of the inference element on which the properties are tried: a classifier of
  objects with the context of the library, and one buffer after the other with one tracked object.
\<close>

definition sample_rect :: NvOSD_RectParams where
  "sample_rect = \<lparr>rect_left = Fin 0, rect_top = Fin 0, rect_width = Fin 64, rect_height = Fin 64, border_width = 0,
     border_color = black, has_bg_color = 0, bg_color = black\<rparr>"

definition sample_text :: NvOSD_TextParams where
  "sample_text = \<lparr>display_text = None, x_offset = 0, y_offset = 0, font_name = [], font_size = 0, font_color = black,
     set_bg_clr = 0, text_bg_clr = black\<rparr>"

definition sample_object :: "u64 \<Rightarrow> NvDsObjectMeta" where
  "sample_object oid = \<lparr>unique_component_id = 1, class_id = 0, object_id = oid, meta_confidence = 0, rect_params = sample_rect,
     org_bbox = (0, 0, 0, 0), text_params = sample_text, meta_label = [], mask_params = None, classifier_meta_list = [],
     segmentation_metas = []\<rparr>"

definition sample_frame :: "nat \<Rightarrow> u32 \<Rightarrow> NvDsFrameMeta" where
  "sample_frame b num = \<lparr>pad_index = 0, meta_frame_num = num, batch_id = 0, bInferDone = False, obj_meta_list = [(b, 0)],
     added_objects = [], frame_segmentation_metas = []\<rparr>"

definition sample_buffer :: "nat \<Rightarrow> u32 \<Rightarrow> NvBuffer" where
  "sample_buffer b num = \<lparr>buf_surfaces = [(640, 480)], buf_frames = [sample_frame b num], buf_objects = [sample_object 7],
     mappable = True, has_batch_meta = True, memory_compatible = True\<rparr>"

definition sample_env :: meta_env where
  "sample_env = \<lparr>pool_object = sample_object 0,
     pool_label = \<lparr>label_id = 0, result_class_id = 0, result_prob = 0, result_label = []\<rparr>,
     float_to_u32 = (\<lambda>_. 0), rand_color = (\<lambda>_. black)\<rparr>"

definition sample_element :: GstNvInfer where
  "sample_element = \<lparr>max_batch_size = 2, unique_id = 5, network_width = 32, network_height = 32,
     networkType = NvDsInferNetworkType_Classifier, process_full_frame = False, input_tensor_from_meta = False,
     clip_object_outside_roi = False, maintain_aspect_ratio = False, symmetric_padding = False,
     perClassDetectionFilterParams = [], perClassColorParams = [], secondary_reinfer_interval = 100,
     min_input_object_width = 0, min_input_object_height = 0, max_input_object_width = 0, max_input_object_height = 0,
     operate_on_gie_id = -1, operate_on_class_ids = [], filter_out_class_ids = [], classifier_async_mode = False,
     element_classifier_type = [], output_instance_mask = False, crop_objects_to_roi_boundary = False,
     segmentationThreshold = 0\<rparr>"

definition all_ok :: step_calls where
  "all_ok = \<lparr>acquire_buffer = GST_FLOW_OK, buffer_memory = True,
     dest_frame = \<lparr>dest_frame_width = 32, dest_frame_height = 32, known_format = True\<rparr>, padding_ok = True,
     transform_ok = True\<rparr>"

text \<open>A post-processor that calls everything a car.\<close>

definition car :: NvDsInferClassificationOutput where
  "car = \<lparr>class_attributes = [\<lparr>attributeIndex = 0, attributeValue = 3, attributeConfidence = 1,
     attributeLabel = Some ''car''\<rparr>], numAttributes = 1, attr_string = ''car ''\<rparr>"

definition classify ::
  "nat \<Rightarrow> NvDsInferLayerInfo list \<Rightarrow> NvDsInferFrameOutput \<Rightarrow> (nat \<times> NvDsInferStatus \<times> NvDsInferFrameOutput) option" where
  "classify p layers fr = Some (Suc p, NVDSINFER_SUCCESS, fr\<lparr>frame_output := ClassificationOutput car\<rparr>)"

definition sample_ops :: "nat NvDsInferContextImpl infer_context" where
  "sample_ops = context_ops classify (\<lambda>_. [])"

abbreviation sample_run :: "nat NvDsInferContextImpl label list \<Rightarrow> nat NvDsInferContextImpl infer_pipeline step_result" where
  "sample_run ls \<equiv> infer_run sample_env sample_element sample_rect sample_ops ls (start_pipeline 0 0 sample_context)"

abbreviation sample_reachable :: "nat NvDsInferContextImpl infer_pipeline \<Rightarrow> bool" where
  "sample_reachable \<equiv> infer_reachable sample_env sample_element sample_rect sample_ops (\<lambda>_. True)
     (start_pipeline 0 0 sample_context)"

abbreviation stream :: "nat NvDsInferContextImpl label" where
  "stream \<equiv> Stream all_ok GST_FLOW_OK"

text \<open>What holds after a run, if it can be made.\<close>

definition after :: "'c infer_pipeline step_result \<Rightarrow> ('c infer_pipeline \<Rightarrow> bool) \<Rightarrow> bool" where
  "after r P = (case r of Next s \<Rightarrow> P s | _ \<Rightarrow> False)"

lemma after_run_permitted:
  assumes "after (sample_run ls) P" "\<forall>l\<in>set ls. permitted l"
  obtains s where "infer_reachable sample_env sample_element sample_rect sample_ops permitted (start_pipeline 0 0 sample_context) s"
    "P s"
proof -
  obtain s where s: "sample_run ls = Next s" "P s" using assms(1) by (auto simp: after_def split: step_result.splits)
  from infer_run_reachable[OF s(1) assms(2) initially] s(2) show thesis by (rule that)
qed

lemma after_run:
  assumes "after (sample_run ls) P"
  obtains s where "sample_reachable s" "P s"
  by (rule after_run_permitted[OF assms, of "\<lambda>_. True"]) (simp, rule that)

lemma sample_element_modes [simp]: "\<not> classifier_async_mode sample_element" "\<not> input_tensor_from_meta sample_element"
  "networkType sample_element = NvDsInferNetworkType_Classifier"
  by (simp_all add: sample_element_def)

text \<open>An object inferred on, its results attached, and the buffer passed on.\<close>

lemma sample_whole_run:
  "after (sample_run [Submit (sample_buffer 0 1) None, stream, stream, stream, stream, InputPop, InputQueue, InputPop,
     OutputPop, OutputRun GST_FLOW_OK])
     (\<lambda>s. map_option (display_text \<circ> text_params) (objects (elem s) (0, 0)) = Some (Some '' car '') \<and>
        delivered s = [] \<and> map push_buffer (process_queue s) = [True])"
  by code_simp

end
