(* ===== verification/InferOrder.thy ===== *)
theory InferOrder
  imports InferSamples
begin

text \<open>
  What the invariant of the queues gives: the order of the buffers, the life time of the metadata that
  batches refer to, and the changes that wait for the buffers before them.
\<close>

section \<open>Order\<close>

lemma buffers_in_order:
  assumes "infer_reachable env n any ops permitted (start_pipeline iv filled c) s"
    "\<not> classifier_async_mode n" "\<not> input_tensor_from_meta n"
  shows "accepted s = delivered s @ map PushedBuffer (pushes (line s)) @ waited_event (thread s)"
    "sorted_wrt (<) (pushed_buffers (accepted s))"
  using pipe_invD(4)[OF reachable_pipe_inv[OF assms]] reachable_ascending[OF assms(1,2)] by (auto simp: ascending_def)

text \<open>
  Property C7. Whatever the threads do, the buffers and serialized events that the element took are those it has handed
  over to the next element, followed by the buffers whose batches wait and the event that is waited
  for: nothing is lost, repeated or overtaken, and the buffers leave in the order of their arrival.
\<close>

theorem infer_keeps_order:
  assumes "infer_reachable env n any ops permitted (start_pipeline iv filled c) s"
    and "\<not> classifier_async_mode n" "\<not> input_tensor_from_meta n"
  shows "accepted s = delivered s @ map PushedBuffer (pushes (line s)) @ waited_event (thread s) \<and>
    sorted_wrt (<) (pushed_buffers (accepted s))"
  using buffers_in_order[OF assms] by blast

lemma eos_behind_buffer:
  "after (sample_run [Submit (sample_buffer 0 1) None, stream, stream, stream, stream, InputPop, InputQueue, InputPop,
     OutputPop, OutputRun GST_FLOW_OK, Event (StreamEos 0), OutputPop, OutputRun GST_FLOW_OK])
     (\<lambda>s. delivered s = [PushedBuffer 0] \<and> accepted s = [PushedBuffer 0, ForwardedEvent (StreamEos 0)])"
  by code_simp

theorem infer_keeps_order_witness:
  "\<exists>s :: nat NvDsInferContextImpl infer_pipeline. delivered s = [PushedBuffer 0] \<and> accepted s = [PushedBuffer 0, ForwardedEvent (StreamEos 0)] \<and>
     accepted s = delivered s @ map PushedBuffer (pushes (line s)) @ waited_event (thread s)"
proof -
  obtain s where s: "sample_reachable s" "delivered s = [PushedBuffer 0]"
    "accepted s = [PushedBuffer 0, ForwardedEvent (StreamEos 0)]"
    by (rule after_run[OF eos_behind_buffer]) blast
  show ?thesis
    by (rule exI[of _ s]) (use infer_keeps_order[OF s(1) sample_element_modes(1,2)] s(2,3) in blast)
qed

section \<open>Life time of the metadata\<close>

lemma unserved_member: "unserved P bs \<Longrightarrow> b \<in> set bs \<Longrightarrow> \<not> push_buffer b \<Longrightarrow> \<not> event_marker b \<Longrightarrow>
    \<exists>k. inbuf b = Some k \<and> k \<notin> P"
  by (induction P bs rule: unserved.induct) (auto split: option.splits)

lemma batch_metadata_alive:
  assumes "pipe_inv s" "b \<in> set (line s)" "\<not> push_buffer b" "\<not> event_marker b"
  obtains k where "inbuf b = Some k" "PushedBuffer k \<notin> set (delivered s)" "work_batch (elem s) k b"
proof -
  note inv = pipe_invD(1)[OF assms(1), unfolded line_ok_def]
  obtain k where k: "inbuf b = Some k" "k \<notin> buffers_of (delivered s)"
    using unserved_member[OF conjunct2[OF inv] assms(2-4)] by blast
  moreover have "work_batch (elem s) k b" using inv assms(2-4) k(1) work_batch_key by (fastforce simp: batch_shape_def)
  ultimately show thesis using that by (auto simp: buffers_of_def)
qed

lemma metadata_alive:
  assumes "infer_reachable env n any ops permitted (start_pipeline iv filled c) s"
    "\<not> classifier_async_mode n" "\<not> input_tensor_from_meta n" "b \<in> set (line s)" "\<not> push_buffer b" "\<not> event_marker b"
  shows "\<exists>k. inbuf b = Some k \<and> PushedBuffer k \<notin> set (delivered s) \<and>
    (\<forall>f\<in>set (frames b). \<exists>fr. frame_meta f = Some fr \<and> fst fr = k \<and> frame_metas (elem s) fr \<noteq> None \<and>
       (\<forall>oa\<in>set_option (obj_meta f). fst oa = k \<and> objects (elem s) oa \<noteq> None) \<and> fst (converted_frame f) = k) \<and>
    (\<forall>(h, oa)\<in>set (objs_pending_meta_attach b). fst oa = k \<and> objects (elem s) oa \<noteq> None)"
proof -
  obtain k where k: "inbuf b = Some k" "PushedBuffer k \<notin> set (delivered s)" "work_batch (elem s) k b"
    by (rule batch_metadata_alive[OF reachable_pipe_inv[OF assms(1-3)] assms(4-6)])
  then show ?thesis
    by (intro exI[of _ k]) (fastforce simp: work_batch_def refs_ok_def alive_def frame_alive_def split: option.splits)
qed

text \<open>
  Property C8. Every batch that waits belongs to a buffer that was not yet handed over, and the frames,
  objects and images that it refers to are those of this buffer and are there: the output thread
  attaches to metadata of the right buffer and never to freed metadata.
\<close>

theorem infer_metadata_alive:
  assumes "infer_reachable env n any ops permitted (start_pipeline iv filled c) s"
    and "\<not> classifier_async_mode n" "\<not> input_tensor_from_meta n" and "b \<in> set (line s)" "\<not> push_buffer b" "\<not> event_marker b"
  shows "\<exists>k. inbuf b = Some k \<and> PushedBuffer k \<notin> set (delivered s) \<and>
    (\<forall>f\<in>set (frames b). \<exists>fr. frame_meta f = Some fr \<and> fst fr = k \<and> frame_metas (elem s) fr \<noteq> None \<and>
       (\<forall>oa\<in>set_option (obj_meta f). fst oa = k \<and> objects (elem s) oa \<noteq> None) \<and> fst (converted_frame f) = k) \<and>
    (\<forall>(h, oa)\<in>set (objs_pending_meta_attach b). fst oa = k \<and> objects (elem s) oa \<noteq> None)"
  by (rule metadata_alive[OF assms])

lemma batch_waits:
  "after (sample_run [Submit (sample_buffer 0 1) None, stream, stream, stream, stream, InputPop])
     (\<lambda>s. map (\<lambda>b. (push_buffer b, event_marker b, length (frames b))) (line s) = [(False, False, 1), (True, False, 0)])"
  by code_simp

theorem infer_metadata_alive_witness:
  "\<exists>(s :: nat NvDsInferContextImpl infer_pipeline) b k. b \<in> set (line s) \<and> length (frames b) = 1 \<and> inbuf b = Some k \<and>
     (\<forall>f\<in>set (frames b). \<exists>fr. frame_meta f = Some fr \<and> frame_metas (elem s) fr \<noteq> None)"
proof -
  obtain s where s: "sample_reachable s"
    "map (\<lambda>b. (push_buffer b, event_marker b, length (frames b))) (line s) = [(False, False, 1), (True, False, 0)]"
    by (rule after_run[OF batch_waits]) (rule that)
  then obtain b bs where q: "line s = b # bs" by (cases "line s") simp_all
  from s(2) have b': "\<not> push_buffer b" "\<not> event_marker b" and l: "length (frames b) = 1" unfolding q by simp_all
  from q have b: "b \<in> set (line s)" by simp
  from infer_metadata_alive[OF s(1) sample_element_modes(1,2) b b'] obtain k where k: "inbuf b = Some k"
    "\<forall>f\<in>set (frames b). \<exists>fr. frame_meta f = Some fr \<and> fst fr = k \<and> frame_metas (elem s) fr \<noteq> None \<and>
       (\<forall>oa\<in>set_option (obj_meta f). fst oa = k \<and> objects (elem s) oa \<noteq> None) \<and> fst (converted_frame f) = k"
    by (elim exE conjE)
  show ?thesis
  proof (rule exI[of _ s], rule exI[of _ b], rule exI[of _ k], intro conjI ballI)
    show "\<exists>fr. frame_meta f = Some fr \<and> frame_metas (elem s) fr \<noteq> None" if "f \<in> set (frames b)" for f
      using bspec[OF k(2) that] by (elim exE conjE) (intro exI conjI)
  qed (rule b l k(1))+
qed

section \<open>Changes\<close>

text \<open>
  When the streaming thread has found both queues empty, no batch is left in any thread:
  everything that was taken before the event or the new model has been handed over, so that the step
  that handles it, which is then possible, changes sources, histories and network with nothing in flight.
\<close>

lemma infer_change_waits:
  assumes "infer_reachable env n any ops permitted (start_pipeline iv filled c) s"
    and "\<not> classifier_async_mode n" "\<not> input_tensor_from_meta n"
    and "thread s = DrainProcess w" "process_queue s = []"
  shows "line s = [] \<and> accepted s = delivered s @ waited_event (thread s) \<and>
    infer_step env n any ops (Stream cl pushed) s = drained n w s"
proof -
  have "line s = []" by (rule drained_line[OF reachable_pipe_inv[OF assms(1-3)] assms(4,5)])
  then show ?thesis using buffers_in_order(1)[OF assms(1-3)] assms(4,5) by (simp add: infer_step_def stream_step_def)
qed

lemma pad_deleted_behind_buffer:
  "after (sample_run [Submit (sample_buffer 0 1) None, stream, stream, stream, stream, InputPop, InputQueue, InputPop,
     OutputPop, OutputRun GST_FLOW_OK, Event (PadDeleted 0), InputPop, stream, OutputPop, OutputRun GST_FLOW_OK, OutputPop])
     (\<lambda>s. process_queue s = [] \<and> delivered s = [PushedBuffer 0] \<and>
        (case thread s of DrainProcess (ForEvent ev) \<Rightarrow> ev = PadDeleted 0 | _ \<Rightarrow> False))"
  by code_simp

lemma infer_change_waits_witness:
  "\<exists>s :: nat NvDsInferContextImpl infer_pipeline. thread s = DrainProcess (ForEvent (PadDeleted 0)) \<and> line s = [] \<and>
     accepted s = [PushedBuffer 0, ForwardedEvent (PadDeleted 0)]"
proof -
  obtain s where s: "sample_reachable s" "process_queue s = []" "delivered s = [PushedBuffer 0]"
    "thread s = DrainProcess (ForEvent (PadDeleted 0))"
    by (rule after_run[OF pad_deleted_behind_buffer]) (auto split: streaming.splits waiting.splits)
  then show ?thesis using infer_change_waits[OF s(1) sample_element_modes(1,2) s(4,2), of all_ok GST_FLOW_OK]
    by (intro exI[of _ s]) simp
qed

end
