(* ===== verification/InferPairing.thy ===== *)
theory InferPairing
  imports InferSamples
begin

text \<open>
  The batches between the queue to the inference context and the output thread are those the context
  has, in the same order, so that the output thread attaches to every frame the output of its own
  image. This rests on the laws of \<open>fifo_context\<close> only.
\<close>

section \<open>What the context has\<close>

definition in_context :: "'c infer_pipeline \<Rightarrow> GstNvInferBatch list" where
  "in_context s = filter inferred (opt_list (output_hand s) @ process_queue s)"

definition images_of :: "GstNvInferBatch list \<Rightarrow> crop list list" where
  "images_of bs = map (\<lambda>b. map converted_frame (frames b)) bs"

lemma images_of_simps [simp]:
  "images_of [] = []" "images_of (b # bs) = map converted_frame (frames b) # images_of bs"
  "images_of (xs @ ys) = images_of xs @ images_of ys" "images_of bs = [] \<longleftrightarrow> bs = []"
  by (simp_all add: images_of_def)

text \<open>A model that waits to be installed.\<close>

fun waiting_model :: "'c streaming \<Rightarrow> 'c set" where
  "waiting_model (DrainInput (ForModel c k buf)) = {c}"
| "waiting_model (DrainProcess (ForModel c k buf)) = {c}"
| "waiting_model _ = {}"

definition paired :: "('c \<Rightarrow> bool) \<Rightarrow> ('c \<Rightarrow> crop list list) \<Rightarrow> ('c \<Rightarrow> bool) \<Rightarrow> 'c infer_pipeline \<Rightarrow> bool" where
  "paired context_inv pending fresh s \<longleftrightarrow> context_inv (ctx s) \<and> pending (ctx s) = images_of (in_context s) \<and>
     (\<forall>c\<in>waiting_model (thread s). fresh c)"

text \<open>A new model is one that nothing was queued to.\<close>

fun new_models :: "('c \<Rightarrow> bool) \<Rightarrow> 'c label \<Rightarrow> bool" where
  "new_models fresh (Submit buf (Some c)) = fresh c"
| "new_models fresh _ = True"

text \<open>What the streaming thread does to the queues behind the input queue and to the context.\<close>

definition same_context :: "'c infer_pipeline \<Rightarrow> 'c infer_pipeline \<Rightarrow> bool" where
  "same_context s s' \<longleftrightarrow> ctx s' = ctx s \<and> model_number s' = model_number s \<and> held_outputs s' = held_outputs s \<and>
     in_context s' = in_context s \<and> waiting_model (thread s') \<subseteq> waiting_model (thread s)"

lemma same_contextI:
  "ctx s' = ctx s \<Longrightarrow> model_number s' = model_number s \<Longrightarrow> held_outputs s' = held_outputs s \<Longrightarrow>
   process_queue s' = process_queue s \<Longrightarrow> output_hand s' = output_hand s \<Longrightarrow>
   waiting_model (thread s') \<subseteq> waiting_model (thread s) \<Longrightarrow> same_context s s'"
  by (simp add: same_context_def in_context_def)

lemma start_work_context:
  assumes "start_work n b buf s = Next s'"
  shows "ctx s' = ctx s" "model_number s' = model_number s" "held_outputs s' = held_outputs s"
    "process_queue s' = process_queue s" "output_hand s' = output_hand s" "waiting_model (thread s') = {}"
  using assms by (auto simp: start_work_def Let_def split: option.splits)

lemma work_context:
  assumes "work env n any cl pushed k surfs t ts s = Next s'" "\<not> classifier_async_mode n" "\<not> input_tensor_from_meta n"
  shows "ctx s' = ctx s" "model_number s' = model_number s" "held_outputs s' = held_outputs s"
    "process_queue s' = process_queue s" "output_hand s' = output_hand s" "waiting_model (thread s') = {}"
  using assms by (auto simp: work_def continue_work_def queue_batch_def split: todo.splits option.splits outcome.splits if_splits)

lemma context_step_cases:
  assumes "infer_step env n any ops l s = Next s'" "pipe_inv s" "\<not> classifier_async_mode n" "\<not> input_tensor_from_meta n"
  obtains (same) "same_context s s'"
  | (submitted) buf c where "l = Submit buf (Some c)" "waiting_model (thread s') = {c}" "ctx s' = ctx s"
      "model_number s' = model_number s" "held_outputs s' = held_outputs s" "in_context s' = in_context s"
  | (installed) c where "c \<in> waiting_model (thread s)" "ctx s' = c" "model_number s' = Suc (model_number s)"
      "held_outputs s' = held_outputs s" "in_context s = []" "in_context s' = []" "waiting_model (thread s') = {}"
  | (queued) b st c where "input_hand s = Some b" "queue_input ops (ctx s) (map converted_frame (frames b)) = Next (st, c)"
      "inferred b" "ctx s' = c" "model_number s' = model_number s" "held_outputs s' = held_outputs s" "thread s' = thread s"
      "in_context s' = (if st = NVDSINFER_SUCCESS then in_context s @ [b] else in_context s)"
  | (dequeued) b st outs priv c where "output_hand s = Some b" "dequeue_output ops (ctx s) = Next (st, outs, priv, c)"
      "model_number s' = model_number s" "in_context s = b # in_context s'" "thread s' = thread s"
      "ctx s' = c \<and> held_outputs s' = held_outputs s \<and> st \<noteq> NVDSINFER_SUCCESS \<or>
       ctx s' = c \<and> held_outputs s' = held_outputs s @ [(model_number s, priv)] \<or>
       ctx s' = release_output ops priv c \<and> held_outputs s' = held_outputs s"
  | (freed) held where "held \<in> set (held_outputs s)" "held_outputs s' = remove1 held (held_outputs s)"
      "ctx s' = (if fst held = model_number s then release_output ops (snd held) (ctx s) else ctx s)"
      "model_number s' = model_number s" "in_context s' = in_context s" "thread s' = thread s"
proof (cases l)
  case (Submit buf model)
  note s = assms(1)[unfolded Submit infer_step_def label.case]
  show thesis
  proof (cases model)
    case None
    with s assms(4) have "start_work n (next_buffer s) buf (s\<lparr>next_buffer := Suc (next_buffer s)\<rparr>) = Next s'"
      by (auto simp: submit_def Let_def split: if_splits)
    from start_work_context[OF this] show thesis by (intro same same_contextI) simp_all
  next
    case (Some c)
    with s show thesis
      by (intro submitted[of buf c]) (auto simp: submit_def Let_def in_context_def Submit split: if_splits)
  qed
next
  case (Event ev)
  with assms(1,4) show thesis
    by (intro same same_contextI) (auto simp: infer_step_def sink_event_def queue_batch_def split: if_splits)
next
  case (Stream cl pushed)
  then have "stream_step env n any cl pushed s = Next s'" using assms(1) by (simp add: infer_step_def)
  then show thesis
  proof (cases rule: drained_cases)
    case (working k surfs t ts)
    with work_context[OF working(2) assms(3,4)] show thesis by (intro same same_contextI) simp_all
  next
    case (first w)
    then show thesis by (intro same same_contextI) (cases w; simp)+
  next
    case (second w)
    show thesis
    proof (cases w)
      case (ForEvent ev)
      with second show thesis by (intro same same_contextI) (auto simp: drained_def)
    next
      case (ForModel c k buf)
      have "line s = []" by (rule drained_line[OF assms(2) second(1,2)])
      then have empty: "in_context s = []" by (simp add: in_context_def line_def)
      from second(3) ForModel have
        "start_work n k buf (s\<lparr>elem := clear_histories (elem s), ctx := c, model_number := Suc (model_number s)\<rparr>) = Next s'"
        by (simp add: drained_def)
      from start_work_context[OF this] second(1) ForModel empty show thesis
        by (intro installed[of c]) (simp_all add: in_context_def)
    qed
  qed
next
  case InputPop
  with assms(1,4) show thesis
    by (intro same) (auto simp: infer_step_def input_pop_def same_context_def in_context_def Let_def
        split: option.splits list.splits if_splits)
next
  case InputQueue
  then obtain b st c where q: "input_hand s = Some b" "queue_input ops (ctx s) (map converted_frame (frames b)) = Next (st, c)"
    "s' = (if st = NVDSINFER_SUCCESS then s\<lparr>ctx := c, input_hand := None, process_queue := process_queue s @ [b]\<rparr>
       else s\<lparr>ctx := c, input_hand := None\<rparr>)"
    using assms(1) by (auto simp: infer_step_def input_queue_step_def Let_def split: option.splits step_result.splits)
  have "inferred b" using pipe_invD(2)[OF assms(2)] q(1) by (simp add: hands_ok_def)
  with q show thesis by (intro queued[of b st c]) (auto simp: in_context_def)
next
  case OutputPop
  with assms(1) show thesis
    by (intro same) (auto simp: infer_step_def output_pop_def same_context_def in_context_def run_attach_def inferred_def Let_def
        split: option.splits list.splits if_splits)
next
  case (OutputRun pushed)
  then have run: "output_run env n ops pushed s = Next s'" using assms(1) by (simp add: infer_step_def)
  have hand: "inferred b" if "output_hand s = Some b" "\<not> push_buffer b" for b
    using that pipe_invD(2)[OF assms(2)] by (simp add: hands_ok_def inferred_def)
  from run show thesis
  proof (cases rule: output_run_cases)
    case (push b j)
    then show thesis by (intro same) (simp add: same_context_def in_context_def deliver_def inferred_def)
  next
    case (failed b st outs priv c)
    with hand show thesis by (intro dequeued[of b st outs priv c]) (simp_all add: in_context_def)
  next
    case (attached b outs priv c e1 e)
    with hand show thesis
      by (intro dequeued[of b NVDSINFER_SUCCESS outs priv c]) (auto simp: in_context_def)
  qed
next
  case (MetaFreed held)
  with assms(1) show thesis
    by (intro freed[of held]) (auto simp: infer_step_def meta_freed_def in_context_def split: if_splits)
qed

section \<open>Frames and outputs\<close>

context fifo_context begin

abbreviation fresh :: "'c \<Rightarrow> bool" where
  "fresh c \<equiv> context_inv c \<and> pending c = []"

lemma paired_step:
  assumes "infer_step env n any ops l s = Next s'" "pipe_inv s" "\<not> classifier_async_mode n" "\<not> input_tensor_from_meta n"
    "paired context_inv pending fresh s" "new_models fresh l"
  shows "paired context_inv pending fresh s'"
  using assms(1-4)
proof (cases rule: context_step_cases)
  case same
  then show ?thesis using assms(5) by (auto simp: paired_def same_context_def)
next
  case (submitted buf c)
  then show ?thesis using assms(5,6) by (simp add: paired_def)
next
  case (installed c)
  then show ?thesis using assms(5) by (auto simp: paired_def)
next
  case (queued b st c)
  have ctx: "context_inv (ctx s)" "pending (ctx s) = images_of (in_context s)" using assms(5) by (simp_all add: paired_def)
  have "context_inv c \<and> pending c = images_of (in_context s')"
  proof (cases "st = NVDSINFER_SUCCESS")
    case True
    then show ?thesis using queue_success[OF ctx(1)] queued(2,8) ctx(2) by simp
  next
    case False
    then show ?thesis using queue_failure[OF ctx(1) queued(2)] queued(8) ctx(2) by simp
  qed
  then show ?thesis using assms(5) queued(4,7) by (simp add: paired_def)
next
  case (dequeued b st outs priv c)
  have ctx: "context_inv (ctx s)" "pending (ctx s) = images_of (in_context s)" using assms(5) by (simp_all add: paired_def)
  have c: "context_inv c" "pending c = images_of (in_context s')"
    using dequeue_pops[OF ctx(1) dequeued(2)] ctx(2) dequeued(4) by simp_all
  from dequeued(6) have "context_inv (ctx s') \<and> pending (ctx s') = images_of (in_context s')"
    using c release_keeps[OF c(1), of priv] by metis
  then show ?thesis using assms(5) dequeued(5) by (simp add: paired_def)
next
  case (freed held)
  have ctx: "context_inv (ctx s)" "pending (ctx s) = images_of (in_context s)" using assms(5) by (simp_all add: paired_def)
  then show ?thesis using assms(5) freed(3,5,6) release_keeps[OF ctx(1), of "snd held"] by (simp add: paired_def)
qed

lemma paired_reachable:
  assumes "infer_reachable env n any ops permitted (start_pipeline iv filled c) s"
    "\<not> classifier_async_mode n" "\<not> input_tensor_from_meta n" "fresh c" "\<And>l. permitted l \<Longrightarrow> new_models fresh l"
  shows "paired context_inv pending fresh s"
  using assms(1)
proof induction
  case initially
  then show ?case using assms(4) by (simp add: paired_def start_pipeline_def in_context_def)
next
  case (step s l s')
  then show ?case using paired_step[OF step(3) reachable_pipe_inv[OF step(1) assms(2,3)] assms(2,3)] assms(5) by blast
qed

lemma own_output:
  assumes "paired context_inv pending fresh s" "pipe_inv s" "output_hand s = Some b" "\<not> push_buffer b"
    "dequeue_output ops (ctx s) = Next (NVDSINFER_SUCCESS, outs, priv, c)"
  shows "list_all2 (\<lambda>f fo. produces (converted_frame f) fo) (frames b) outs"
proof -
  have "inferred b" using assms(3,4) pipe_invD(2)[OF assms(2)] by (simp add: hands_ok_def inferred_def)
  then have "hd (pending (ctx s)) = map converted_frame (frames b)"
    using assms(1,3) by (simp add: paired_def in_context_def)
  with dequeue_success[OF _ assms(5)] assms(1) show ?thesis by (simp add: paired_def list_all2_map1)
qed

end

section \<open>The context of the library\<close>

text \<open>A context as its initialisation leaves it, with the batches allocated.\<close>

definition initialised :: "'p NvDsInferContextImpl \<Rightarrow> bool" where
  "initialised c \<longleftrightarrow> (\<exists>k cl mx auto p cls. 0 < k \<and>
     resizeOutputBufferpool k cl (start_context mx auto p cls) = (NVDSINFER_SUCCESS, c))"

lemma initialised_context:
  assumes "initialised c"
  shows "context_wf c" "pending_inputs c = []" "accounted c" "m_Batches c \<noteq> []" "\<not> with_caller i c"
proof -
  obtain k cl mx auto p cls where k: "0 < k" "resizeOutputBufferpool k cl (start_context mx auto p cls) = (NVDSINFER_SUCCESS, c)"
    using assms by (auto simp: initialised_def)
  then have c: "c = (start_context mx auto p cls)\<lparr>m_Batches := replicate k (Some new_batch), m_FreeBatchQueue := [0..<k]\<rparr>"
    by (auto simp: resizeOutputBufferpool_def start_context_def Let_def split: if_splits)
  show "context_wf c" "accounted c" using start_context_wf[OF k(2)] by auto
  show "pending_inputs c = []" "m_Batches c \<noteq> []" using k(1) by (simp_all add: c pending_inputs_def start_context_def)
  show "\<not> with_caller i c" by (simp add: c with_caller_def new_batch_def)
qed

lemma new_models_mono: "(\<And>c. P c \<Longrightarrow> Q c) \<Longrightarrow> new_models P l \<Longrightarrow> new_models Q l"
  by (induction P l rule: new_models.induct) auto

lemma own_outputs:
  assumes "infer_reachable env n any (context_ops parse network) (new_models initialised) (start_pipeline iv filled c) s"
    "\<not> classifier_async_mode n" "\<not> input_tensor_from_meta n" "initialised c" "output_hand s = Some b" "\<not> push_buffer b"
    "dequeueOutputBatch parse network (ctx s) = Next (NVDSINFER_SUCCESS, outs, priv, c')"
  shows "list_all2 (\<lambda>f fo. output_of parse network (converted_frame f) fo) (frames b) outs"
    "\<exists>k. inbuf b = Some k \<and> work_batch (elem s) k b"
proof -
  have inv: "pipe_inv s" by (rule reachable_pipe_inv[OF assms(1-3)])
  have mono: "new_models initialised l \<Longrightarrow> new_models (\<lambda>c. context_wf c \<and> pending_inputs c = []) l" for l
    by (rule new_models_mono[of initialised]) (use initialised_context in auto)
  have "paired context_wf pending_inputs (\<lambda>c. context_wf c \<and> pending_inputs c = []) s"
    by (rule context_fifo.paired_reachable[OF assms(1-3)]) (use initialised_context[OF assms(4)] mono in auto)
  then show "list_all2 (\<lambda>f fo. output_of parse network (converted_frame f) fo) (frames b) outs"
    by (rule context_fifo.own_output[OF _ inv assms(5,6)]) (use assms(7) in \<open>simp add: context_ops_def\<close>)
  have "b \<in> set (line s)" using assms(5) by (simp add: line_def)
  moreover have "\<not> event_marker b" using pipe_invD(2)[OF inv] assms(5) by (simp add: hands_ok_def)
  ultimately show "\<exists>k. inbuf b = Some k \<and> work_batch (elem s) k b"
    using pipe_invD(1)[OF inv] assms(6) work_batch_key by (fastforce simp: line_ok_def batch_shape_def)
qed

section \<open>Attaching\<close>

text \<open>The states between the frames: frame \<open>i\<close> is worked on with output \<open>i\<close>.\<close>

lemma attach_frames_states:
  "attach_frames env n fs outs e = Some e' \<Longrightarrow> length outs = length fs \<Longrightarrow>
     \<exists>es. length es = Suc (length fs) \<and> es ! 0 = e \<and> es ! length fs = e' \<and>
       (\<forall>i<length fs. attach_frame env n (fs ! i) (outs ! i) (es ! i) = Some (es ! Suc i))"
proof (induction env n fs outs e rule: attach_frames.induct)
  case (1 env n outs e)
  then show ?case by (intro exI[of _ "[e]"]) simp
next
  case (3 env n f fs fo outs e)
  then obtain e1 where e1: "attach_frame env n f fo e = Some e1" "attach_frames env n fs outs e1 = Some e'"
    by (auto simp: bind_eq_Some_conv)
  from 3(1)[OF e1] 3(3) obtain es where es: "length es = Suc (length fs)" "es ! 0 = e1" "es ! length fs = e'"
      "\<forall>i<length fs. attach_frame env n (fs ! i) (outs ! i) (es ! i) = Some (es ! Suc i)" by auto
  have "attach_frame env n ((f # fs) ! i) ((fo # outs) ! i) ((e # es) ! i) = Some ((e # es) ! Suc i)" if "i < length (f # fs)" for i
    using that es e1(1) by (cases i) auto
  then show ?case using es by (intro exI[of _ "e # es"]) simp
qed simp

text \<open>The objects that a frame of a detector gets for an image of it.\<close>

definition detections ::
  "meta_env \<Rightarrow> GstNvInfer \<Rightarrow> (meta_addr \<Rightarrow> NvDsObjectMeta option) \<Rightarrow> meta_addr \<Rightarrow> GstNvInferFrame \<Rightarrow> NvDsInferFrameOutput \<Rightarrow>
   (NvDsObjectMeta \<times> meta_addr option) list" where
  "detections env n heap fr f fo =
     (if frame_meta f \<noteq> Some fr then []
      else case frame_output fo of
             DetectionOutput out \<Rightarrow>
               (let parent = map_option (\<lambda>o'. (rect_left (rect_params o'), rect_top (rect_params o'))) (Option.bind (obj_meta f) heap)
                in map (\<lambda>o'. (o', obj_meta f)) (the (attach_metadata_detector env n parent f out)))
           | _ \<Rightarrow> [])"

lemma finish_inference_metas [simp]:
  "frame_metas (finish_inference f s) = frame_metas s" "objects (finish_inference f s) = objects s"
  by (simp_all add: finish_inference_def update_history_def split: option.split)

lemma attach_frame_detects:
  assumes "attach_frame env n f fo e = Some e'" "networkType n = NvDsInferNetworkType_Detector"
  shows "objects e' = objects e" "map_option added_objects (frame_metas e' fr) =
     map_option (\<lambda>fm. added_objects fm @ detections env n (objects e) fr f fo) (frame_metas e fr)"
proof -
  obtain out where out: "frame_output fo = DetectionOutput out" "attach_detector env n f out (finish_inference f e) = Some e'"
    using assms by (cases "frame_output fo") (simp_all add: attach_frame_def Let_def)
  then obtain a fm ob objs where a: "frame_meta f = Some a" "frame_metas e a = Some fm" "follow (objects e) (obj_meta f) = Some ob"
      "attach_metadata_detector env n (map_option (\<lambda>o'. (rect_left (rect_params o'), rect_top (rect_params o'))) ob) f out = Some objs"
      "e' = (finish_inference f e)\<lparr>frame_metas := (frame_metas e)(a \<mapsto>
          fm\<lparr>bInferDone := True, added_objects := added_objects fm @ map (\<lambda>o'. (o', obj_meta f)) objs\<rparr>)\<rparr>"
    by (auto simp: attach_detector_def follow_def store_at_def split: option.splits)
  have "ob = Option.bind (obj_meta f) (objects e)" using a(3) by (auto simp: follow_def split: option.splits)
  then show "objects e' = objects e" "map_option added_objects (frame_metas e' fr) =
     map_option (\<lambda>fm. added_objects fm @ detections env n (objects e) fr f fo) (frame_metas e fr)"
    using a out(1) by (auto simp: detections_def)
qed

lemma attach_frames_detects:
  "attach_frames env n fs outs e = Some e' \<Longrightarrow> networkType n = NvDsInferNetworkType_Detector \<Longrightarrow> length outs = length fs \<Longrightarrow>
   objects e' = objects e \<and> map_option added_objects (frame_metas e' fr) =
     map_option (\<lambda>fm. added_objects fm @ concat (map (\<lambda>i. detections env n (objects e) fr (fs ! i) (outs ! i)) [0..<length fs]))
       (frame_metas e fr)"
proof (induction env n fs outs e rule: attach_frames.induct)
  case (1 env n outs e)
  then show ?case by (simp add: option.map_ident)
next
  case (3 env n f fs fo outs e)
  then obtain e1 where e1: "attach_frame env n f fo e = Some e1" "attach_frames env n fs outs e1 = Some e'"
    by (auto simp: bind_eq_Some_conv)
  note d = attach_frame_detects[OF e1(1) 3(3)]
  have IH: "objects e' = objects e1 \<and> map_option added_objects (frame_metas e' fr) =
     map_option (\<lambda>fm. added_objects fm @ concat (map (\<lambda>i. detections env n (objects e1) fr (fs ! i) (outs ! i)) [0..<length fs]))
       (frame_metas e1 fr)" using 3(1)[OF e1 3(3)] 3(4) by simp
  have list: "concat (map (\<lambda>i. detections env n (objects e) fr ((f # fs) ! i) ((fo # outs) ! i)) [0..<length (f # fs)]) =
      detections env n (objects e) fr f fo @ concat (map (\<lambda>i. detections env n (objects e) fr (fs ! i) (outs ! i)) [0..<length fs])"
    by (simp add: upt_conv_Cons map_Suc_upt[symmetric] comp_def del: upt_Suc)
  have "frame_metas e1 fr = None \<longleftrightarrow> frame_metas e fr = None" using arg_cong[OF d(2)[of fr], of "\<lambda>x. x = None"] by simp
  then show ?case unfolding list using IH d(1) d(2)[of fr] by (cases "frame_metas e fr"; cases "frame_metas e1 fr") auto
qed simp

lemma attach_pending_frames: "attach_pending env n ps e = Some e' \<Longrightarrow> frame_metas e' = frame_metas e"
proof (induction env n ps e rule: attach_pending.induct)
  case (2 env n a oa ps e)
  then obtain h e1 where e1: "histories e a = Some h" "attach_classifier env n (empty_frame oa) (cached_info h) e = Some e1"
      "attach_pending env n ps e1 = Some e'"
    by (auto simp: bind_eq_Some_conv split: option.splits)
  then have "frame_metas e1 = frame_metas e"
    by (auto simp: attach_classifier_def empty_frame_def store_at_def follow_def split: option.splits)
  with 2(1)[OF e1] show ?case by simp
qed simp

lemma output_run_attaches:
  assumes "output_run env n ops pushed s = Next s'" "output_hand s = Some b" "\<not> push_buffer b"
    "dequeue_output ops (ctx s) = Next (NVDSINFER_SUCCESS, outs, priv, c)"
  obtains e where "attach_frames env n (frames b) outs (elem s) = Some e"
    "attach_pending env n (objs_pending_meta_attach b) e = Some (elem s')"
  using assms by (auto simp: output_run_def run_attach_def Let_def bind_eq_Some_conv split: option.splits if_splits)

text \<open>
  Property C5. However the threads of the element and the inference context interleave, and although batches are
  dropped when the context refuses or loses them: when the output thread takes the output of a batch, there is
  one output for every frame of the batch, computed by the network from the image of just this frame,
  image and metadata of the frame are of the buffer of the batch, and the thread attaches it to this frame: it goes
  through the frames in order and works on each with its own output. For a detector, every frame of the buffer gets
  the objects of the outputs of its own images, in order, and nothing else.
\<close>

theorem infer_own_output:
  assumes "infer_reachable env n any (context_ops parse network) (new_models initialised) (start_pipeline iv filled c) s"
    and "\<not> classifier_async_mode n" "\<not> input_tensor_from_meta n" "initialised c" and "output_hand s = Some b" "\<not> push_buffer b"
    and "dequeueOutputBatch parse network (ctx s) = Next (NVDSINFER_SUCCESS, outs, priv, c')"
    and "output_run env n (context_ops parse network) pushed s = Next s'"
  shows "length outs = length (frames b) \<and>
    (\<forall>i<length (frames b). output_of parse network (converted_frame (frames b ! i)) (outs ! i)) \<and>
    (\<exists>k. inbuf b = Some k \<and> (\<forall>f\<in>set (frames b). fst (converted_frame f) = k \<and> (\<exists>i. frame_meta f = Some (k, i)))) \<and>
    (\<exists>es. es ! 0 = elem s \<and> (\<forall>i<length (frames b). attach_frame env n (frames b ! i) (outs ! i) (es ! i) = Some (es ! Suc i)) \<and>
       attach_pending env n (objs_pending_meta_attach b) (es ! length (frames b)) = Some (elem s')) \<and>
    (networkType n = NvDsInferNetworkType_Detector \<longrightarrow> (\<forall>fr. map_option added_objects (frame_metas (elem s') fr) =
       map_option (\<lambda>fm. added_objects fm @ concat (map (\<lambda>i. detections env n (objects (elem s)) fr (frames b ! i) (outs ! i))
         [0..<length (frames b)])) (frame_metas (elem s) fr)))"
proof -
  obtain k where k: "inbuf b = Some k" "work_batch (elem s) k b" using own_outputs(2)[OF assms(1-7)] by blast
  have "\<exists>i. frame_meta f = Some (k, i)" if "refs_ok (elem s) k f" for f
    using that by (auto simp: refs_ok_def frame_alive_def split: option.splits)
  with k have bufs: "\<exists>k. inbuf b = Some k \<and> (\<forall>f\<in>set (frames b). fst (converted_frame f) = k \<and> (\<exists>i. frame_meta f = Some (k, i)))"
    by (auto simp: work_batch_def refs_ok_def)
  have own: "length outs = length (frames b)" "\<forall>i<length (frames b). output_of parse network (converted_frame (frames b ! i)) (outs ! i)"
    using own_outputs(1)[OF assms(1-7)] by (auto simp: list_all2_conv_all_nth)
  have "dequeue_output (context_ops parse network) (ctx s) = Next (NVDSINFER_SUCCESS, outs, priv, c')"
    using assms(7) by (simp add: context_ops_def)
  from output_run_attaches[OF assms(8,5,6) this] obtain e where e: "attach_frames env n (frames b) outs (elem s) = Some e"
    "attach_pending env n (objs_pending_meta_attach b) e = Some (elem s')" by blast
  from attach_frames_states[OF e(1) own(1)] e(2)
  have states: "\<exists>es. es ! 0 = elem s \<and> (\<forall>i<length (frames b). attach_frame env n (frames b ! i) (outs ! i) (es ! i) = Some (es ! Suc i)) \<and>
       attach_pending env n (objs_pending_meta_attach b) (es ! length (frames b)) = Some (elem s')" by metis
  show ?thesis
    using own bufs states attach_frames_detects[OF e(1) _ own(1)] attach_pending_frames[OF e(2)] by simp
qed

lemma sample_initialised: "initialised sample_context"
  unfolding initialised_def sample_context_def
  by (rule exI[of _ 2], rule exI[of _ "sample_calls 0"], rule exI[of _ 4], rule exI[of _ True], rule exI[of _ 0],
      rule exI[of _ sample_calls]) (simp add: resizeOutputBufferpool_def start_context_def sample_calls_def)

lemma output_taken:
  "after (sample_run [Submit (sample_buffer 0 1) None, stream, stream, stream, stream, InputPop, InputQueue, OutputPop])
     (\<lambda>s. case output_hand s of None \<Rightarrow> False | Some b \<Rightarrow> \<not> push_buffer b \<and> length (frames b) = 1 \<and>
        (case dequeueOutputBatch classify (\<lambda>_. []) (ctx s) of Next (st, _) \<Rightarrow> st = NVDSINFER_SUCCESS | _ \<Rightarrow> False) \<and>
        after (output_run sample_env sample_element sample_ops GST_FLOW_OK s) (\<lambda>s'. output_hand s' = None))"
  by code_simp

theorem infer_own_output_witness:
  "\<exists>(s :: nat NvDsInferContextImpl infer_pipeline) b outs priv c' e. output_hand s = Some b \<and>
     dequeueOutputBatch classify (\<lambda>_. []) (ctx s) = Next (NVDSINFER_SUCCESS, outs, priv, c') \<and>
     length outs = 1 \<and> output_of classify (\<lambda>_. []) (converted_frame (frames b ! 0)) (outs ! 0) \<and>
     attach_frame sample_env sample_element (frames b ! 0) (outs ! 0) (elem s) = Some e"
proof -
  obtain s where s: "infer_reachable sample_env sample_element sample_rect sample_ops (new_models initialised)
      (start_pipeline 0 0 sample_context) s"
    and t: "case output_hand s of None \<Rightarrow> False | Some b \<Rightarrow> \<not> push_buffer b \<and> length (frames b) = 1 \<and>
        (case dequeueOutputBatch classify (\<lambda>_. []) (ctx s) of Next (st, _) \<Rightarrow> st = NVDSINFER_SUCCESS | _ \<Rightarrow> False) \<and>
        after (output_run sample_env sample_element sample_ops GST_FLOW_OK s) (\<lambda>s'. output_hand s' = None)"
    by (rule after_run_permitted[OF output_taken, of "new_models initialised"]) (simp, rule that)
  from t obtain b where b: "output_hand s = Some b" "\<not> push_buffer b" "length (frames b) = 1" by (auto split: option.splits)
  with t obtain outs priv c' where d: "dequeueOutputBatch classify (\<lambda>_. []) (ctx s) = Next (NVDSINFER_SUCCESS, outs, priv, c')"
    by (auto split: step_result.splits)
  from t b(1) obtain s' where r: "output_run sample_env sample_element sample_ops GST_FLOW_OK s = Next s'"
    by (cases "output_run sample_env sample_element sample_ops GST_FLOW_OK s") (simp_all add: after_def)
  note own = infer_own_output[OF s[unfolded sample_ops_def] sample_element_modes(1,2) sample_initialised b(1,2) d r[unfolded sample_ops_def]]
  then obtain es where "es ! 0 = elem s" "attach_frame sample_env sample_element (frames b ! 0) (outs ! 0) (es ! 0) = Some (es ! Suc 0)"
    using b(3) by auto
  moreover have "length outs = 1" "output_of classify (\<lambda>_. []) (converted_frame (frames b ! 0)) (outs ! 0)"
    using own b(3) by simp_all
  ultimately show ?thesis using b(1) d by metis
qed

end
