(* ===== verification/InferDrain.thy ===== *)
theory InferDrain
  imports InferPairing
begin

text \<open>
  The threads of the inference element never wait for each other for ever, and when no new work comes
  they finish it in a bounded number of steps.
\<close>

declare split_paired_All [simp del] split_paired_Ex [simp del]

section \<open>The work that is left\<close>

text \<open>The steps that need no new buffer or event.\<close>

fun internal :: "'c label \<Rightarrow> bool" where
  "internal (Submit buf model) = False"
| "internal (Event ev) = False"
| "internal l = True"

definition object_count :: "infer_state \<Rightarrow> meta_addr \<Rightarrow> nat" where
  "object_count e fr = (case frame_metas e fr of None \<Rightarrow> 0 | Some fm \<Rightarrow> length (obj_meta_list fm))"

fun todo_work :: "infer_state \<Rightarrow> todo \<Rightarrow> nat" where
  "todo_work e (FrameTodo fr) = 2 + 12 * object_count e fr"
| "todo_work e EndTodo = 1"
| "todo_work e _ = 12"

definition buffer_work :: "NvBuffer \<Rightarrow> nat" where
  "buffer_work buf = 13 + (\<Sum>fm\<leftarrow>buf_frames buf. 12 + 12 * length (obj_meta_list fm))"

fun waiting_work :: "'c waiting \<Rightarrow> nat" where
  "waiting_work (ForEvent ev) = 0"
| "waiting_work (ForModel c k buf) = buffer_work buf"

fun thread_work :: "infer_state \<Rightarrow> 'c streaming \<Rightarrow> nat" where
  "thread_work e Idle = 0"
| "thread_work e (Working k surfs ts) = (\<Sum>t\<leftarrow>ts. todo_work e t)"
| "thread_work e (DrainInput w) = 2 + waiting_work w"
| "thread_work e (DrainProcess w) = 1 + waiting_work w"

definition queue_work :: "infer_state \<Rightarrow> nat" where
  "queue_work e = 8 * length (input_queue e) + 9 * length (opt_list (building e))"

definition work_left :: "'c infer_pipeline \<Rightarrow> nat" where
  "work_left s = thread_work (elem s) (thread s) + queue_work (elem s) + 6 * length (opt_list (input_hand s)) +
     4 * length (process_queue s) + 2 * length (opt_list (output_hand s)) + length (held_outputs s)"

lemma thread_work_mono:
  assumes "\<And>fr. object_count e' fr \<le> object_count e fr"
  shows "thread_work e' th \<le> thread_work e th"
proof (cases th)
  case (Working k surfs ts)
  have "todo_work e' t \<le> todo_work e t" for t using assms by (cases t) auto
  then show ?thesis using Working by (auto intro: sum_list_mono)
qed simp_all

lemma thread_work_same: "frame_metas e' = frame_metas e \<Longrightarrow> thread_work e' th = thread_work e th"
  by (intro antisym thread_work_mono) (simp_all add: object_count_def)

lemma meta_step_count:
  assumes "meta_step e e'"
  shows "object_count e' fr = object_count e fr"
proof -
  have "map_option obj_meta_list (frame_metas e' fr) = map_option obj_meta_list (frame_metas e fr)"
    using assms by (simp add: meta_step_def)
  then show ?thesis by (cases "frame_metas e' fr"; cases "frame_metas e fr") (auto simp: object_count_def)
qed

lemma meta_step_work:
  assumes "meta_step e e'"
  shows "thread_work e' th \<le> thread_work e th" "queue_work e' = queue_work e"
  using assms thread_work_mono[of e' e th] meta_step_count[OF assms] by (auto simp: queue_work_def meta_step_def)

text \<open>A step of the streaming thread for an object or a frame adds at most one batch.\<close>

lemma add_frame_work:
  assumes "add_frame env n cl final r buf surf fill b e = Some out"
  shows "queue_work (outcome_state out) \<le> 8 * length (input_queue e) + 9"
  using assms
proof (cases rule: add_frame_cases)
  case (added f e1)
  from added(3) show ?thesis
    by (rule disjE) (simp_all add: added(1) convert_batch_and_push_to_input_thread_def queue_work_def)
qed (simp add: queue_work_def)

lemma process_full_frame_work:
  assumes "process_full_frame_step env n any cl k i surf fr final e = Some out"
  shows "queue_work (outcome_state out) \<le> 8 * length (input_queue e) + 9"
  using assms add_frame_work by (auto simp: process_full_frame_step_def queue_work_def split: sum.splits option.splits)

lemma process_object_work:
  assumes "process_object env n cl k surfs fr oa e = Some out" "\<not> classifier_async_mode n"
  shows "queue_work (outcome_state out) \<le> queue_work e + 9"
  using assms
proof (cases rule: process_object_cases)
  case (1 fm ob h needs)
  have deferred: "queue_work (outcome_state (defer_attachment n cl k num oa a e)) \<le> queue_work e + 9" for num a
    by (simp add: defer_attachment_def queue_work_def split: sum.split)
  have infer: "queue_work (outcome_state out) \<le> queue_work e + 9"
    if i: "infer_object env n cl k surfs fr fm oa ob h e = Some out"
  proof -
    obtain h' e1 where c: "claim_history (pad_index fm) ob (scast (meta_frame_num fm)) h e = (h', e1)" by fastforce
    note q = claim_history_same(2)[OF c]
    show ?thesis
    proof (cases "ensure_batch cl (Some k) e1")
      case (Inl b)
      then obtain fill r where "add_frame env n cl False r k (batch_id fm) fill b e1 = Some out"
        using i c assms(2) by (auto simp: infer_object_def split: if_splits)
      from add_frame_work[OF this] q show ?thesis by (simp add: queue_work_def)
    next
      case (Inr ret)
      then show ?thesis using i c assms(2) q by (auto simp: infer_object_def queue_work_def)
    qed
  qed
  show ?thesis using 1(5) deferred infer by (auto split: if_splits)
qed

lemma end_objects_work: "queue_work (outcome_state (end_objects cl e)) \<le> queue_work e"
  by (auto simp: end_objects_def convert_batch_and_push_to_input_thread_def queue_work_def split: option.split)

lemma todos_wf_work: "todos_wf b ts \<Longrightarrow> 12 \<le> (\<Sum>t\<leftarrow>ts. todo_work e t)"
  by (induction b ts rule: todos_wf.induct) auto

section \<open>Every step finishes some work\<close>

definition rest_work :: "'c infer_pipeline \<Rightarrow> nat" where
  "rest_work s = 6 * length (opt_list (input_hand s)) + 4 * length (process_queue s) + 2 * length (opt_list (output_hand s)) +
     length (held_outputs s)"

lemma work_left_split: "work_left s = thread_work (elem s) (thread s) + queue_work (elem s) + rest_work s"
  by (simp add: work_left_def rest_work_def)

lemma rest_work_cong:
  "input_hand s' = input_hand s \<Longrightarrow> process_queue s' = process_queue s \<Longrightarrow> output_hand s' = output_hand s \<Longrightarrow>
   held_outputs s' = held_outputs s \<Longrightarrow> rest_work s' = rest_work s"
  by (simp add: rest_work_def)

lemma continue_work_left:
  fixes s s' :: "'c infer_pipeline"
  assumes "continue_work k surfs ts r s = Next s'" "thread s = Working k surfs (t # ts)" "todos_wf b ts"
    "\<And>out. r = Some out \<Longrightarrow> frame_metas (outcome_state out) = frame_metas (elem s) \<and>
       queue_work (outcome_state out) < queue_work (elem s) + todo_work (elem s) t"
  shows "work_left s' < work_left s"
proof -
  obtain out where r: "r = Some out" using assms(1) by (auto simp: continue_work_def split: option.splits)
  define th :: "'c streaming" where "th = (case out of Continue e \<Rightarrow> Working k surfs ts
      | Return ret e \<Rightarrow> if ret = GST_FLOW_ERROR then Idle else Working k surfs [PushTodo])"
  have s': "s' = s\<lparr>elem := outcome_state out, thread := th\<rparr>"
    using assms(1) r by (auto simp: continue_work_def th_def split: outcome.splits)
  have fm: "frame_metas (outcome_state out) = frame_metas (elem s)"
    and q: "queue_work (outcome_state out) < queue_work (elem s) + todo_work (elem s) t" using assms(4)[OF r] by auto
  have "thread_work (elem s) th \<le> (\<Sum>t\<leftarrow>ts. todo_work (elem s) t)"
    using todos_wf_work[OF assms(3), of "elem s"] by (cases out) (simp_all add: th_def)
  then have "thread_work (outcome_state out) th \<le> (\<Sum>t\<leftarrow>ts. todo_work (elem s) t)"
    by (simp add: thread_work_same[OF fm])
  moreover have "rest_work s' = rest_work s" by (rule rest_work_cong) (simp_all add: s')
  ultimately show ?thesis using q assms(2) by (simp add: work_left_split s')
qed

lemma todos_wf_tail: "todos_wf b (t # ts) \<Longrightarrow> t \<noteq> PushTodo \<Longrightarrow> \<exists>b'. todos_wf b' ts"
  by (cases t) auto

lemma work_work:
  assumes "work env n any cl pushed k surfs t ts s = Next s'" "pipe_inv s" "thread s = Working k surfs (t # ts)"
    "\<not> classifier_async_mode n" "\<not> input_tensor_from_meta n"
  shows "work_left s' < work_left s"
proof -
  note inv = pipe_invD[OF assms(2)]
  have th: "stream_ready k (elem s)" "todo_ok (elem s) k t" "todos_wf (building (elem s) \<noteq> None) (t # ts)"
    using inv(6) assms(3) by (auto simp: thread_ok_def)
  have tail: "\<exists>b. todos_wf b ts" if "t \<noteq> PushTodo" using todos_wf_tail[OF th(3) that] .
  have keep: "stream_effect k (elem s) e \<Longrightarrow> frame_metas e = frame_metas (elem s)" for e by (simp add: stream_effect_def)
  show ?thesis
  proof (cases t)
    case (FrameTodo fr)
    then obtain os e where f: "begin_frame fr (elem s) = Some (os, e)"
      "s' = s\<lparr>elem := e, thread := Working k surfs (map (ObjectTodo fr) os @ ts)\<rparr>"
      using assms(1) by (auto simp: work_def split: option.splits)
    note be = begin_frame_effect[OF f(1) th(1)]
    have "input_queue e = input_queue (elem s)" using f(1) by (auto simp: begin_frame_def split: option.splits)
    then have q: "queue_work e = queue_work (elem s)" using be(2) by (simp add: queue_work_def)
    have os: "length os \<le> object_count (elem s) fr" using be(5) by (auto simp: object_count_def)
    have "(\<Sum>t\<leftarrow>map (ObjectTodo fr) os. todo_work (elem s) t) = 12 * length os"
      by (induction os) simp_all
    then have "thread_work e (thread s') < thread_work (elem s) (thread s)"
      unfolding thread_work_same[OF be(4)] using os assms(3) by (simp add: f(2) FrameTodo)
    moreover have "rest_work s' = rest_work s" by (rule rest_work_cong) (simp_all add: f(2))
    ultimately show ?thesis using q by (simp add: work_left_split f(2))
  next
    case (ObjectTodo fr oa)
    with tail obtain b where b: "todos_wf b ts" by blast
    let ?r = "process_object env n cl k surfs fr oa (elem s)"
    have c: "continue_work k surfs ts ?r s = Next s'" using assms(1) ObjectTodo by (simp add: work_def)
    show ?thesis
      by (rule continue_work_left[OF c assms(3) b])
        (use process_object_effect[OF _ th(1) _ _ assms(4)] process_object_work[OF _ assms(4)] keep th(2) ObjectTodo
          in \<open>fastforce simp: alive_def frame_alive_def\<close>)
  next
    case (FullTodo i final)
    with tail obtain b where b: "todos_wf b ts" by blast
    let ?r = "process_full_frame_step env n any cl k (of_nat i) (surfs ! i) (k, i) final (elem s)"
    have c: "continue_work k surfs ts ?r s = Next s'" using assms(1) FullTodo by (simp add: work_def split: if_splits)
    show ?thesis
      by (rule continue_work_left[OF c assms(3) b])
        (use process_full_frame_effect[OF _ th(1)] process_full_frame_work keep FullTodo
          in \<open>fastforce simp: queue_work_def\<close>)
  next
    case EndTodo
    with tail obtain b where b: "todos_wf b ts" by blast
    have c: "continue_work k surfs ts (Some (end_objects cl (elem s))) s = Next s'" using assms(1) EndTodo by (simp add: work_def)
    show ?thesis
      by (rule continue_work_left[OF c assms(3) b])
        (use end_objects_effect[OF th(1), of cl] end_objects_work[of cl "elem s"] keep EndTodo in auto)
  next
    case PushTodo
    then have s': "s' = queue_batch n (push_batch k) (s\<lparr>accepted := accepted s @ [PushedBuffer k], thread := Idle\<rparr>)"
      using assms(1,4) by (simp add: work_def Let_def)
    have "rest_work s' = rest_work s" by (rule rest_work_cong) (simp_all add: s' queue_batch_def assms(5))
    then show ?thesis using assms(3,5) PushTodo
      by (simp add: work_left_split s' queue_batch_def queue_work_def)
  qed
qed

lemma first_todo_work:
  assumes "first_todo n b buf e = Some (Some ts, e')"
  shows "(\<Sum>t\<leftarrow>ts. todo_work (install_buffer b buf e0) t) \<le> buffer_work buf"
proof -
  let ?m = "length (buf_frames buf)" and ?e = "install_buffer b buf e0"
  have base: "12 * length fms \<le> (\<Sum>fm\<leftarrow>fms. 12 + 12 * length (obj_meta_list fm))" for fms :: "NvDsFrameMeta list"
    by (induction fms) auto
  have full: "(\<Sum>t\<leftarrow>map (\<lambda>i. FullTodo i (f i)) xs. todo_work ?e t) = 12 * length xs" for f xs
    by (induction xs) simp_all
  have count: "object_count ?e (b, i) = length (obj_meta_list (buf_frames buf ! i))" if "i < ?m" for i
    using that by (simp add: object_count_def install_simps)
  have frames: "(\<Sum>t\<leftarrow>map (\<lambda>i. FrameTodo (b, i)) [0..<?m]. todo_work ?e t) \<le>
      (\<Sum>fm\<leftarrow>buf_frames buf. 12 + 12 * length (obj_meta_list fm))"
  proof -
    have "(\<Sum>fm\<leftarrow>buf_frames buf. 12 + 12 * length (obj_meta_list fm)) =
        (\<Sum>i\<leftarrow>[0..<?m]. 12 + 12 * length (obj_meta_list (buf_frames buf ! i)))"
      by (metis (no_types, lifting) map_nth map_map comp_def map_eq_conv)
    moreover have "(\<Sum>i\<leftarrow>[0..<?m]. 2 + 12 * object_count ?e (b, i)) \<le>
        (\<Sum>i\<leftarrow>[0..<?m]. 12 + 12 * length (obj_meta_list (buf_frames buf ! i)))"
      by (rule sum_list_mono) (simp add: count)
    ultimately show ?thesis by (simp add: comp_def)
  qed
  consider "ts = [PushTodo]" | "ts = map (\<lambda>i. FullTodo i (Suc i = ?m)) [0..<?m] @ [PushTodo]"
    | "ts = map (\<lambda>i. FrameTodo (b, i)) [0..<?m] @ [EndTodo, PushTodo]"
    using assms by (auto simp: first_todo_def Let_def split: if_splits option.splits bool.splits)
  then show ?thesis
  proof cases
    case 2
    then show ?thesis using base[of "buf_frames buf"] full[of "\<lambda>i. Suc i = ?m" "[0..<?m]"] by (simp add: buffer_work_def del: map_map)
  next
    case 3
    then show ?thesis using frames by (simp add: buffer_work_def)
  qed (simp add: buffer_work_def)
qed

lemma start_work_left:
  assumes "start_work n b buf s = Next s'"
  shows "work_left s' \<le> buffer_work buf + queue_work (elem s) + rest_work s"
proof -
  let ?e = "install_buffer b buf ((elem s)\<lparr>current_batch_num := current_batch_num (elem s) + 1\<rparr>)"
  obtain r e1 where r: "first_todo n b buf ?e = Some (r, e1)"
    "s' = s\<lparr>elem := e1, thread := (case r of None \<Rightarrow> Idle | Some ts \<Rightarrow> Working b (buf_surfaces buf) ts)\<rparr>"
    using assms(1) by (auto simp: start_work_def Let_def split: option.splits)
  note st = first_todo_state[OF r(1)]
  have q: "queue_work e1 = queue_work (elem s)" by (simp add: queue_work_def st(3,4) install_simps)
  have rest: "rest_work s' = rest_work s" by (rule rest_work_cong) (simp_all add: r(2))
  have "thread_work e1 (thread s') \<le> buffer_work buf"
  proof (cases r)
    case (Some ts)
    have "thread_work ?e (thread s') \<le> buffer_work buf"
      using first_todo_work[OF r(1)[unfolded Some]] Some by (simp add: r(2))
    then show ?thesis by (simp add: thread_work_same[OF st(2)])
  qed (simp add: r(2))
  then show ?thesis using q rest by (simp add: work_left_split r(2))
qed

lemma stream_left:
  assumes "stream_step env n any cl pushed s = Next s'" "pipe_inv s" "\<not> classifier_async_mode n" "\<not> input_tensor_from_meta n"
  shows "work_left s' < work_left s"
  using assms(1)
proof (cases rule: drained_cases)
  case (working k surfs t ts)
  then show ?thesis using work_work[OF _ assms(2) _ assms(3,4)] by blast
next
  case (first w)
  then show ?thesis by (simp add: work_left_split rest_work_def)
next
  case (second w)
  show ?thesis
  proof (cases w)
    case (ForEvent ev)
    then have "s' = s\<lparr>elem := handle_event ev (elem s), thread := Idle, delivered := delivered s @ [ForwardedEvent ev]\<rparr>"
      using second(3) by (simp add: drained_def)
    then show ?thesis using second(1) ForEvent by (simp add: work_left_split rest_work_def queue_work_def)
  next
    case (ForModel c k buf)
    let ?s = "s\<lparr>elem := clear_histories (elem s), ctx := c, model_number := Suc (model_number s)\<rparr>"
    have "start_work n k buf ?s = Next s'" using second(3) ForModel by (simp add: drained_def)
    from start_work_left[OF this] show ?thesis using second(1) ForModel
      by (simp add: work_left_split rest_work_def queue_work_def)
  qed
qed

lemma remove_buffer_count: "object_count (remove_buffer j e) fr \<le> object_count e fr"
  by (cases fr) (simp add: object_count_def remove_buffer_def)

lemma output_run_left:
  assumes "output_run env n ops pushed s = Next s'"
  shows "work_left s' < work_left s"
  using assms
proof (cases rule: output_run_cases)
  case (push b j)
  then have "thread_work (elem s') (thread s') \<le> thread_work (elem s) (thread s)"
    using thread_work_mono[of "remove_buffer j (elem s)" "elem s" "thread s"] remove_buffer_count by (simp add: deliver_def)
  then show ?thesis using push by (simp add: work_left_split rest_work_def deliver_def queue_work_def)
next
  case (failed b st outs priv c)
  then show ?thesis by (simp add: work_left_split rest_work_def)
next
  case (attached b outs priv c e1 e)
  then have m: "meta_step (elem s) e" using attach_frames_step attach_pending_step meta_step_trans by blast
  from attached(6) show ?thesis
    using attached(1) meta_step_work(1)[OF m, of "thread s"] meta_step_work(2)[OF m] by (auto simp: work_left_split rest_work_def)
qed

lemma internal_step_left:
  assumes "infer_step env n any ops l s = Next s'" "internal l" "pipe_inv s" "\<not> classifier_async_mode n" "\<not> input_tensor_from_meta n"
  shows "work_left s' < work_left s"
proof (cases l)
  case (Stream cl pushed)
  then show ?thesis using assms stream_left by (simp add: infer_step_def)
next
  case InputPop
  then obtain b bs where q: "input_hand s = None" "input_queue (elem s) = b # bs"
    "s' = (if inferred b then s\<lparr>elem := (elem s)\<lparr>input_queue := bs\<rparr>, input_hand := Some b\<rparr>
       else s\<lparr>elem := (elem s)\<lparr>input_queue := bs\<rparr>, process_queue := process_queue s @ [b]\<rparr>)"
    using assms(1) by (auto simp: infer_step_def input_pop_def Let_def split: if_splits option.splits list.splits)
  have "thread_work ((elem s)\<lparr>input_queue := bs\<rparr>) (thread s) = thread_work (elem s) (thread s)"
    by (rule thread_work_same) simp
  then show ?thesis using q by (simp add: work_left_split rest_work_def queue_work_def)
next
  case InputQueue
  then show ?thesis using assms(1)
    by (auto simp: infer_step_def input_queue_step_def Let_def work_left_split rest_work_def split: option.splits step_result.splits)
next
  case OutputPop
  then obtain b bs where q: "output_hand s = None" "process_queue s = b # bs"
    and s': "s' = s\<lparr>process_queue := bs\<rparr> \<or> s' = s\<lparr>process_queue := bs, output_hand := Some b\<rparr> \<or>
      (\<exists>e. attach_pending env n (objs_pending_meta_attach b) (elem s) = Some e \<and> s' = s\<lparr>process_queue := bs, elem := e\<rparr>)"
    using assms(1)
    by (auto simp: infer_step_def output_pop_def run_attach_def Let_def split: if_splits option.splits list.splits)
  from s' show ?thesis
  proof (elim disjE exE conjE)
    fix e
    assume e: "attach_pending env n (objs_pending_meta_attach b) (elem s) = Some e" "s' = s\<lparr>process_queue := bs, elem := e\<rparr>"
    then show ?thesis using q meta_step_work(1)[OF attach_pending_step[OF e(1)], of "thread s"] meta_step_work(2)[OF attach_pending_step[OF e(1)]] by (simp add: work_left_split rest_work_def)
  qed (use q in \<open>simp_all add: work_left_split rest_work_def\<close>)
next
  case (OutputRun pushed)
  then show ?thesis using assms(1) output_run_left by (simp add: infer_step_def)
next
  case (MetaFreed held)
  then have "held \<in> set (held_outputs s)" "held_outputs s' = remove1 held (held_outputs s)"
    "elem s' = elem s" "thread s' = thread s" "input_hand s' = input_hand s" "process_queue s' = process_queue s"
    "output_hand s' = output_hand s"
    using assms(1) by (auto simp: infer_step_def meta_freed_def split: if_splits)
  moreover from this(1) have "0 < length (held_outputs s)" by (cases "held_outputs s") auto
  ultimately show ?thesis by (simp add: work_left_split rest_work_def length_remove1)
qed (use assms(2) in simp_all)

section \<open>Nothing waits for ever\<close>

text \<open>The outputs of the context in use that were not given back are those that metadata points to.\<close>

definition lends :: "('c \<Rightarrow> nat set) \<Rightarrow> 'c infer_pipeline \<Rightarrow> bool" where
  "lends lent s \<longleftrightarrow> (\<forall>i\<in>lent (ctx s). (model_number s, i) \<in> set (held_outputs s)) \<and>
     (\<forall>c\<in>waiting_model (thread s). lent c = {})"

context lending_context begin

lemma lends_step:
  assumes "infer_step env n any ops l s = Next s'" "pipe_inv s" "\<not> classifier_async_mode n" "\<not> input_tensor_from_meta n"
    "lends lent s" "context_inv (ctx s)" "new_models (\<lambda>c. lent c = {}) l"
  shows "lends lent s'"
  using assms(1-4)
proof (cases rule: context_step_cases)
  case same
  then show ?thesis using assms(5) by (auto simp: lends_def same_context_def)
next
  case (submitted buf c)
  then show ?thesis using assms(5,7) by (simp add: lends_def)
next
  case (installed c)
  then show ?thesis using assms(5) by (simp add: lends_def)
next
  case (queued b st c)
  then show ?thesis using assms(5) queue_lends[OF assms(6) queued(2)] by (simp add: lends_def)
next
  case (dequeued b st outs priv c)
  note l = dequeue_lends[OF assms(6) dequeued(2)]
  have r: "lent (release_output ops priv c) \<subseteq> lent c - {priv}"
    using release_lends dequeue_pops[OF assms(6) dequeued(2)] by blast
  have s: "lends lent s" by (rule assms(5))
  from dequeued(6) show ?thesis
  proof (elim disjE conjE)
    assume "ctx s' = c" "held_outputs s' = held_outputs s" "st \<noteq> NVDSINFER_SUCCESS"
    then show ?thesis using s l dequeued(3,5) by (auto simp: lends_def)
  next
    assume "ctx s' = c" "held_outputs s' = held_outputs s @ [(model_number s, priv)]"
    then show ?thesis using s l dequeued(3,5) by (auto simp: lends_def split: if_splits)
  next
    assume "ctx s' = release_output ops priv c" "held_outputs s' = held_outputs s"
    then show ?thesis using s l r dequeued(3,5) by (auto simp: lends_def split: if_splits)
  qed
next
  case (freed held)
  have rel: "lent (release_output ops (snd held) (ctx s)) \<subseteq> lent (ctx s) - {snd held}" by (rule release_lends[OF assms(6)])
  have "(model_number s, i) \<in> set (remove1 held (held_outputs s))" if i: "i \<in> lent (ctx s')" for i
  proof -
    have "i \<in> lent (ctx s) \<and> (fst held = model_number s \<longrightarrow> i \<noteq> snd held)"
      using i rel freed(3) by (auto split: if_splits)
    then have "(model_number s, i) \<in> set (held_outputs s)" "(model_number s, i) \<noteq> held"
      using assms(5) by (auto simp: lends_def)
    then show ?thesis by simp
  qed
  then show ?thesis using assms(5) freed(2,4,6) by (simp add: lends_def)
qed

lemma lends_reachable:
  assumes "infer_reachable env n any ops permitted (start_pipeline iv filled c) s"
    "\<not> classifier_async_mode n" "\<not> input_tensor_from_meta n" "context_inv c \<and> pending c = []" "lent c = {}"
    "\<And>l. permitted l \<Longrightarrow> new_models (\<lambda>c. context_inv c \<and> pending c = []) l \<and> new_models (\<lambda>c. lent c = {}) l"
  shows "lends lent s"
  using assms(1)
proof induction
  case initially
  then show ?case using assms(5) by (simp add: lends_def start_pipeline_def)
next
  case (step s l s')
  have "paired context_inv pending (\<lambda>c. context_inv c \<and> pending c = []) s"
    by (rule paired_reachable[OF step(1) assms(2-4)]) (use assms(6) in blast)
  then have "context_inv (ctx s)" by (simp add: paired_def)
  with lends_step[OF step(3) reachable_pipe_inv[OF step(1) assms(2,3)] assms(2,3) step(4)] assms(6)[OF step(2)]
  show ?case by blast
qed

lemma run_attach_not_blocked: "run_attach r s \<noteq> Blocked"
  by (simp add: run_attach_def split: option.split)

text \<open>The output thread can go on while the context or its queue has a batch.\<close>

lemma output_enabled:
  assumes "pipe_inv s" "context_inv (ctx s)" "pending (ctx s) = images_of (in_context s)"
    "output_hand s \<noteq> None \<or> process_queue s \<noteq> []"
  shows "\<exists>l. internal l \<and> infer_step env n any ops l s \<noteq> Blocked"
proof (cases "output_hand s")
  case None
  then obtain b bs where "process_queue s = b # bs" using assms(4) by (cases "process_queue s") auto
  then have "infer_step env n any ops OutputPop s \<noteq> Blocked"
    using None by (auto simp: infer_step_def output_pop_def run_attach_def Let_def split: option.splits)
  then show ?thesis by (intro exI[of _ OutputPop]) simp
next
  case (Some b)
  have "infer_step env n any ops (OutputRun GST_FLOW_OK) s \<noteq> Blocked"
  proof (cases "push_buffer b")
    case True
    then show ?thesis using Some by (auto simp: infer_step_def output_run_def split: option.split)
  next
    case False
    then have "inferred b" using pipe_invD(2)[OF assms(1)] Some by (simp add: hands_ok_def inferred_def)
    then have "pending (ctx s) \<noteq> []" using assms(3) Some by (simp add: in_context_def)
    from dequeue_ready[OF assms(2) this] show ?thesis using Some False
      by (auto simp: infer_step_def output_run_def run_attach_not_blocked Let_def split: step_result.split if_splits)
  qed
  then show ?thesis by (intro exI[of _ "OutputRun GST_FLOW_OK"]) simp
qed

lemma not_stuck:
  assumes "pipe_inv s" "context_inv (ctx s)" "pending (ctx s) = images_of (in_context s)" "lends lent s"
    "\<not> input_tensor_from_meta n" "thread s \<noteq> Idle \<or> line s \<noteq> []"
  shows "\<exists>l. internal l \<and> infer_step env n any ops l s \<noteq> Blocked"
proof (rule ccontr)
  assume stuck: "\<not> ?thesis"
  then have b: "infer_step env n any ops l s = Blocked" if "internal l" for l using that by blast
  note th = pipe_invD(6)[OF assms(1), unfolded thread_ok_def]
  have out: "output_hand s = None" "process_queue s = []"
    using output_enabled[OF assms(1-3)] stuck by blast+
  have "input_hand s = None"
  proof (cases "input_hand s")
    case (Some x)
    then have "queue_input ops (ctx s) (map converted_frame (frames x)) = Blocked"
      using b[of InputQueue] queue_defined by (auto simp: infer_step_def input_queue_step_def Let_def split: step_result.splits if_splits)
    then have "pending (ctx s) \<noteq> [] \<or> lent (ctx s) \<noteq> {}" by (rule queue_waits[OF assms(2)])
    moreover have "pending (ctx s) = []" using assms(3) out by (simp add: in_context_def)
    ultimately obtain i where "(model_number s, i) \<in> set (held_outputs s)" using assms(4) by (auto simp: lends_def)
    then have "infer_step env n any ops (MetaFreed (model_number s, i)) s \<noteq> Blocked"
      by (simp add: infer_step_def meta_freed_def)
    then show ?thesis using b by simp
  qed
  moreover from this have q: "input_queue (elem s) = []"
    using b[of InputPop] assms(5) by (auto simp: infer_step_def input_pop_def Let_def split: list.splits)
  moreover have "thread s = Idle"
  proof -
    have st: "stream_step env n any cl pushed s = Blocked" for cl pushed
      using b[of "Stream cl pushed"] by (simp add: infer_step_def)
    show ?thesis
    proof (cases "thread s")
      case (Working k surfs ts)
      then obtain t ts' where ts: "ts = t # ts'" using th by (cases ts) auto
      have "work env n any cl pushed k surfs t ts' s \<noteq> Blocked" for cl pushed
        by (auto simp: work_def continue_work_def Let_def split: todo.split option.split outcome.split)
      then show ?thesis using st Working ts by (simp add: stream_step_def)
    next
      case (DrainInput w)
      then show ?thesis using st q by (simp add: stream_step_def)
    next
      case (DrainProcess w)
      have "drained n w s \<noteq> Blocked"
        by (auto simp: drained_def start_work_def Let_def split: waiting.split option.split prod.split)
      then show ?thesis using st out DrainProcess by (simp add: stream_step_def)
    qed
  qed
  moreover from this have "building (elem s) = None" using th by simp
  ultimately show False using assms(6) out by (simp add: line_def)
qed

end

section \<open>Draining\<close>

lemma internal_permitted: "internal l \<Longrightarrow> new_models P l"
  by (cases l) auto

lemma infer_reachable_extend:
  assumes "infer_run env n any ops ls s = Next s'" "infer_reachable env n any ops permitted s0 s" "\<forall>l\<in>set ls. permitted l"
  shows "infer_reachable env n any ops permitted s0 s'"
  using infer_run_reachable[OF assms(1,3,2)] .

lemma internal_run_bounded:
  assumes "infer_run env n any ops ls s = Next s'" "\<forall>l\<in>set ls. internal l" "pipe_inv s"
    "\<not> classifier_async_mode n" "\<not> input_tensor_from_meta n"
  shows "length ls + work_left s' \<le> work_left s"
  using assms(1-3)
proof (induction ls arbitrary: s)
  case (Cons l ls)
  then obtain s1 where s1: "infer_step env n any ops l s = Next s1" "infer_run env n any ops ls s1 = Next s'"
    by (auto split: step_result.splits)
  have "pipe_inv s1" by (rule pipe_inv_step[OF s1(1) Cons.prems(3) assms(4,5)])
  with Cons.IH[OF s1(2)] Cons.prems(2) internal_step_left[OF s1(1) _ Cons.prems(3) assms(4,5)] show ?case by simp
qed simp

lemma library_not_stuck:
  assumes "infer_reachable env n any (context_ops parse network) (new_models initialised) (start_pipeline iv filled c) s"
    "\<not> classifier_async_mode n" "\<not> input_tensor_from_meta n" "initialised c" "thread s \<noteq> Idle \<or> line s \<noteq> []"
  shows "\<exists>l. internal l \<and> infer_step env n any (context_ops parse network) l s \<noteq> Blocked"
proof -
  let ?fresh = "\<lambda>c. pool_ok c \<and> pending_inputs c = []"
  have ok: "?fresh d \<and> lent_outputs d = {}" if "initialised d" for d
    using initialised_context[OF that] by (auto simp: pool_ok_def lent_outputs_def)
  have new_ok: "new_models ?fresh l \<and> new_models (\<lambda>c. lent_outputs c = {}) l" if "new_models initialised l" for l
    using new_models_mono[of initialised ?fresh, OF _ that] new_models_mono[of initialised "\<lambda>c. lent_outputs c = {}", OF _ that] ok
    by blast
  have "paired pool_ok pending_inputs ?fresh s"
    by (rule context_pool.paired_reachable[OF assms(1-3)]) (use ok[OF assms(4)] new_ok in auto)
  moreover have "lends lent_outputs s"
    by (rule context_pool.lends_reachable[OF assms(1-3)]) (use ok[OF assms(4)] new_ok in auto)
  ultimately show ?thesis
    using context_pool.not_stuck[OF reachable_pipe_inv[OF assms(1-3)] _ _ _ assms(3,5)] by (simp add: paired_def)
qed

text \<open>
  Property C6. From any state that the element reaches, its threads and the release of metadata downstream make at most
  \<open>work_left\<close> steps without a new buffer or event, in whatever order they are scheduled; and they can
  only come to rest, none of them able to go on, when the streaming thread is idle, no batch is left and every
  buffer and serialized event that was taken has been handed over. So no buffer, event or change of the
  model is stuck in the element, even with a pool of batches of fixed size.
\<close>

theorem infer_drains:
  assumes "infer_reachable env n any (context_ops parse network) (new_models initialised) (start_pipeline iv filled c) s"
    and "\<not> classifier_async_mode n" "\<not> input_tensor_from_meta n" "initialised c"
    and "infer_run env n any (context_ops parse network) ls s = Next s'" "\<forall>l\<in>set ls. internal l"
  shows "length ls \<le> work_left s \<and>
    ((\<forall>l. internal l \<longrightarrow> infer_step env n any (context_ops parse network) l s' = Blocked) \<longrightarrow>
       thread s' = Idle \<and> line s' = [] \<and> delivered s' = accepted s')"
proof -
  have r: "infer_reachable env n any (context_ops parse network) (new_models initialised) (start_pipeline iv filled c) s'"
    by (rule infer_reachable_extend[OF assms(5,1)]) (use assms(6) internal_permitted in blast)
  have "thread s' = Idle \<and> line s' = [] \<and> delivered s' = accepted s'"
    if "\<forall>l. internal l \<longrightarrow> infer_step env n any (context_ops parse network) l s' = Blocked"
  proof -
    have "thread s' = Idle" "line s' = []" using library_not_stuck[OF r assms(2-4)] that by blast+
    then show ?thesis using pipe_invD(4)[OF reachable_pipe_inv[OF r assms(2,3)]] by simp
  qed
  then show ?thesis using internal_run_bounded[OF assms(5,6) reachable_pipe_inv[OF assms(1-3)] assms(2,3)] by simp
qed

lemma at_rest:
  assumes "thread s = Idle" "input_hand s = None" "input_queue (elem s) = []" "process_queue s = []" "output_hand s = None"
    "held_outputs s = []" "internal l"
  shows "infer_step env n any ops l s = Blocked"
  using assms by (cases l) (simp_all add: infer_step_def stream_step_def input_pop_def input_queue_step_def output_pop_def
      output_run_def meta_freed_def)

abbreviation drain_labels :: "nat NvDsInferContextImpl label list" where
  "drain_labels \<equiv> [stream, stream, stream, stream, InputPop, InputQueue, InputPop, OutputPop, OutputRun GST_FLOW_OK,
     OutputPop, OutputRun GST_FLOW_OK]"

lemma drained_run:
  "after (sample_run (Submit (sample_buffer 0 1) None # drain_labels))
     (\<lambda>s. (case thread s of Idle \<Rightarrow> True | _ \<Rightarrow> False) \<and> input_hand s = None \<and> input_queue (elem s) = [] \<and> process_queue s = [] \<and>
        output_hand s = None \<and> held_outputs s = [] \<and> accepted s = [PushedBuffer 0])"
  by code_simp

theorem infer_drains_witness:
  "\<exists>s1 s2 :: nat NvDsInferContextImpl infer_pipeline.
     infer_step sample_env sample_element sample_rect sample_ops (Submit (sample_buffer 0 1) None)
       (start_pipeline 0 0 sample_context) = Next s1 \<and>
     infer_run sample_env sample_element sample_rect sample_ops drain_labels s1 = Next s2 \<and>
     11 \<le> work_left s1 \<and> delivered s2 = [PushedBuffer 0]"
proof -
  obtain s2 where run: "sample_run (Submit (sample_buffer 0 1) None # drain_labels) = Next s2"
    and idle: "case thread s2 of Idle \<Rightarrow> True | _ \<Rightarrow> False"
    and s2: "input_hand s2 = None" "input_queue (elem s2) = []" "process_queue s2 = []" "output_hand s2 = None"
      "held_outputs s2 = []" "accepted s2 = [PushedBuffer 0]"
    using drained_run unfolding after_def by (auto split: step_result.splits)
  then obtain s1 where s1: "infer_step sample_env sample_element sample_rect sample_ops (Submit (sample_buffer 0 1) None)
      (start_pipeline 0 0 sample_context) = Next s1"
    "infer_run sample_env sample_element sample_rect sample_ops drain_labels s1 = Next s2"
    by (auto split: step_result.splits)
  have r: "infer_reachable sample_env sample_element sample_rect (context_ops classify (\<lambda>_. [])) (new_models initialised)
      (start_pipeline 0 0 sample_context) s1"
    by (rule step[OF initially _ s1(1)[unfolded sample_ops_def]]) simp
  have "thread s2 = Idle" using idle by (simp split: streaming.splits)
  then have "\<forall>l. internal l \<longrightarrow>
      infer_step sample_env sample_element sample_rect (context_ops classify (\<lambda>_. [])) l s2 = Blocked"
    using at_rest s2(1-5) by blast
  moreover have "\<forall>l\<in>set drain_labels. internal l" by simp
  ultimately have "11 \<le> work_left s1 \<and> delivered s2 = accepted s2"
    using infer_drains[OF r sample_element_modes(1,2) sample_initialised s1(2)[unfolded sample_ops_def]] by simp
  with s1 s2(6) show ?thesis by simp
qed

section \<open>A new model with tensors of the pre-processing element\<close>

text \<open>The marker of a new model is in the input queue, which no thread reads when the tensors come from the metadata.\<close>

lemma marker_stays:
  assumes "infer_step env n any ops l s = Next s'" "input_tensor_from_meta n" "thread s = DrainInput w" "input_queue (elem s) \<noteq> []"
  shows "thread s' = DrainInput w \<and> input_queue (elem s') = input_queue (elem s)"
proof (cases l)
  case OutputPop
  then obtain b bs where "process_queue s = b # bs"
    and s': "elem s' = elem s \<or> attach_pending env n (objs_pending_meta_attach b) (elem s) = Some (elem s')" "thread s' = thread s"
    using assms(1) by (auto simp: infer_step_def output_pop_def run_attach_def Let_def split: if_splits option.splits list.splits)
  then show ?thesis using assms(3) attach_pending_step by (auto simp: meta_step_def)
next
  case (OutputRun pushed)
  then have "output_run env n ops pushed s = Next s'" using assms(1) by (simp add: infer_step_def)
  then show ?thesis
  proof (cases rule: output_run_cases)
    case (push b j)
    then show ?thesis using assms(3) by (simp add: deliver_def)
  next
    case (attached b outs priv c e1 e)
    then have "meta_step (elem s) e" using attach_frames_step attach_pending_step meta_step_trans by blast
    then show ?thesis using attached(6) assms(3) by (auto simp: meta_step_def)
  qed (use assms(3) in simp)
qed (use assms in \<open>auto simp: infer_step_def submit_def sink_event_def stream_step_def input_pop_def input_queue_step_def
      meta_freed_def Let_def split: option.splits step_result.splits if_splits\<close>)

lemma marker_stays_run:
  assumes "infer_run env n any ops ls s = Next s'" "input_tensor_from_meta n" "thread s = DrainInput w" "input_queue (elem s) \<noteq> []"
  shows "thread s' = DrainInput w \<and> input_queue (elem s') = input_queue (elem s)"
  using assms(1,3,4)
proof (induction ls arbitrary: s)
  case (Cons l ls)
  then obtain s1 where "infer_step env n any ops l s = Next s1" "infer_run env n any ops ls s1 = Next s'"
    by (auto split: step_result.splits)
  with Cons marker_stays[OF _ assms(2)] show ?case by metis
qed simp

text \<open>
  Property C35. With tensors from the pre-processing element a new model stops the element for ever: the streaming
  thread waits until the input queue is empty, but its marker is put there although the thread that
  reads this queue was not created. Whatever the other threads do, it waits on, and every buffer and event
  is refused.
\<close>

theorem model_update_deadlock:
  assumes "input_tensor_from_meta n" and "infer_step env n any ops (Submit buf (Some c)) s = Next s1"
    and "infer_run env n any ops ls s1 = Next s2"
  shows "thread s2 = DrainInput (ForModel c (next_buffer s) buf) \<and> marker \<in> set (input_queue (elem s2)) \<and>
    infer_step env n any ops (Stream cl pushed) s2 = Blocked \<and> infer_step env n any ops (Submit buf' model) s2 = Blocked \<and>
    infer_step env n any ops (Event ev) s2 = Blocked"
proof -
  have s1: "thread s1 = DrainInput (ForModel c (next_buffer s) buf)" "input_queue (elem s1) = input_queue (elem s) @ [marker]"
    using assms(2) by (auto simp: infer_step_def submit_def Let_def split: if_splits)
  then have s2: "thread s2 = DrainInput (ForModel c (next_buffer s) buf)" "input_queue (elem s2) = input_queue (elem s) @ [marker]"
    using marker_stays_run[OF assms(3,1) s1(1)] by auto
  then show ?thesis by (simp add: infer_step_def stream_step_def submit_def sink_event_def Let_def)
qed

definition tensor_element :: GstNvInfer where
  "tensor_element = sample_element\<lparr>input_tensor_from_meta := True\<rparr>"

lemma sample_model_update:
  "\<exists>s1. infer_step sample_env tensor_element sample_rect sample_ops (Submit (sample_buffer 0 1) (Some sample_context))
     (start_pipeline 0 0 sample_context) = Next s1"
  by (simp add: infer_step_def submit_def Let_def start_pipeline_def buffer_ok_def sample_buffer_def sample_frame_def)

theorem model_update_deadlock_witness:
  "\<exists>s1. infer_step sample_env tensor_element sample_rect sample_ops (Submit (sample_buffer 0 1) (Some sample_context))
     (start_pipeline 0 0 sample_context) = Next s1 \<and>
   infer_step sample_env tensor_element sample_rect sample_ops stream s1 = Blocked"
proof -
  obtain s1 where s1: "infer_step sample_env tensor_element sample_rect sample_ops (Submit (sample_buffer 0 1) (Some sample_context))
     (start_pipeline 0 0 sample_context) = Next s1"
    using sample_model_update by blast
  moreover have "input_tensor_from_meta tensor_element" by (simp add: tensor_element_def)
  ultimately show ?thesis using model_update_deadlock[of tensor_element _ _ _ _ _ _ s1 "[]" s1] by fastforce
qed

end
