(* ===== verification/InferAttach.thy ===== *)
theory InferAttach
  imports InferSamples
begin

text \<open>
  Scaling images for the network and its results back, the filters on the boxes that become metadata,
  and the interval between the batched buffers that are inferred on.
\<close>

section \<open>Scaling\<close>

lemma floor_word:
  assumes "0 \<le> q" "q < 2 ^ 32"
  shows "uint (dbl_to_u32 ub (Fin q)) = \<lfloor>q\<rfloor>"
proof -
  have "0 \<le> \<lfloor>q\<rfloor>" "\<lfloor>q\<rfloor> < 2 ^ 32" using assms by (simp_all add: floor_less_iff)
  then show ?thesis using assms(1) by (simp add: dbl_to_u32_def rat_trunc_def uint_word_of_int take_bit_int_eq_self)
qed

text \<open>The rational number of a word.\<close>

definition rat_of :: "u32 \<Rightarrow> rat" where
  "rat_of w = rat_of_int (uint w)"

lemma dbl_of_rat: "dbl_of_u32 w = Fin (rat_of w)"
  by (simp only: dbl_of_u32_def rat_of_def)

lemma rat_of_facts: "0 \<le> rat_of w" "rat_of w < 2 ^ 32" "rat_of w = 0 \<longleftrightarrow> w = 0" "rat_of v \<le> rat_of w \<longleftrightarrow> v \<le> w"
proof -
  have "rat_of_int (uint w) < rat_of_int (2 ^ 32)" using uint_bounded[of w] by (simp only: of_int_less_iff) simp
  then show "rat_of w < 2 ^ 32" by (simp add: rat_of_def)
qed (simp_all only: rat_of_def of_int_0_le_iff uint_ge_0 of_int_eq_0_iff uint_eq_0_iff_word of_int_le_iff word_le_def)

lemma rat_of_mult:
  assumes "unat a * unat b < 2 ^ 32"
  shows "rat_of (a * b) = rat_of a * rat_of b"
proof -
  have "unat (a * b) = unat a * unat b" using assms unat_mult_lem[of a b] by simp
  then have "uint (a * b) = uint a * uint b" by (simp only: uint_nat of_nat_mult)
  then show ?thesis by (simp only: rat_of_def of_int_mult)
qed

lemma rat_of_floor:
  assumes "0 \<le> q" "q \<le> rat_of w"
  shows "dbl_to_u32 ub (Fin q) \<le> w"
proof -
  have "uint (dbl_to_u32 ub (Fin q)) = \<lfloor>q\<rfloor>" using assms rat_of_facts(2)[of w] by (intro floor_word) auto
  moreover have "\<lfloor>q\<rfloor> \<le> uint w" using floor_mono[OF assms(2)] by (simp only: rat_of_def floor_of_int)
  ultimately show ?thesis by (simp add: word_le_def)
qed

lemma fit_size_le:
  assumes "fit_size ub d w h = (dw, dh)" "w \<noteq> 0" "h \<noteq> 0"
    "unat (dest_frame_width d) * unat h < 2 ^ 32" "unat (dest_frame_height d) * unat w < 2 ^ 32"
  shows "dw \<le> dest_frame_width d \<and> dh \<le> dest_frame_height d \<and> (dw = dest_frame_width d \<or> dh = dest_frame_height d)"
proof -
  let ?W = "rat_of (dest_frame_width d)" and ?H = "rat_of (dest_frame_height d)"
  have pos: "0 < rat_of w" "0 < rat_of h" using assms(2,3) rat_of_facts(1,3) by (simp_all add: less_le)
  have fit: "fit_size ub d w h = (if ?W * rat_of h / rat_of w \<le> ?H
      then (dest_frame_width d, dbl_to_u32 ub (Fin (?W * rat_of h / rat_of w)))
      else (dbl_to_u32 ub (Fin (?H * rat_of w / rat_of h)), dest_frame_height d))"
    using pos by (simp add: fit_size_def dbl_of_rat rat_of_mult[OF assms(4)] rat_of_mult[OF assms(5)] Let_def)
  show ?thesis
  proof (cases "?W * rat_of h / rat_of w \<le> ?H")
    case True
    then have "dbl_to_u32 ub (Fin (?W * rat_of h / rat_of w)) \<le> dest_frame_height d"
      by (intro rat_of_floor) (simp_all add: rat_of_facts(1))
    then show ?thesis using assms(1) True by (auto simp: fit)
  next
    case False
    then have "?H * rat_of w / rat_of h \<le> ?W" using pos by (simp add: field_simps)
    then have "dbl_to_u32 ub (Fin (?H * rat_of w / rat_of h)) \<le> dest_frame_width d"
      by (intro rat_of_floor) (simp_all add: rat_of_facts(1))
    then show ?thesis using assms(1) False by (auto simp: fit)
  qed
qed

text \<open>The padding is half of what the image leaves free.\<close>

lemma half_pad:
  fixes a b :: u32
  assumes "a \<le> b"
  shows "unat ((b - a) div 2) + unat a \<le> unat b"
  using assms by (simp add: unat_div unat_sub word_le_nat_alt)

lemma get_converted_buffer_SomeD:
  assumes "get_converted_buffer ub n d ok r = Some (Some c)"
  obtains l t w h dw dh where "src_rect c = (t, l, w, h)"
    "(dw, dh) = (if maintain_aspect_ratio n then fit_size ub d w h else (network_width n, network_height n))"
    "ratio_x c = ddiv (dbl_of_u32 dw) (dbl_of_u32 w)" "ratio_y c = ddiv (dbl_of_u32 dh) (dbl_of_u32 h)"
    "pad_left c = (if maintain_aspect_ratio n \<and> symmetric_padding n then (dest_frame_width d - dw) div 2 else 0)"
    "pad_top c = (if maintain_aspect_ratio n \<and> symmetric_padding n then (dest_frame_height d - dh) div 2 else 0)"
    "dst_rect c = (pad_top c, pad_left c, dw, dh)"
proof -
  define w where "w = GST_ROUND_DOWN_2 (dbl_to_u32 ub (rect_width r))"
  define h where "h = GST_ROUND_DOWN_2 (dbl_to_u32 ub (rect_height r))"
  obtain dw dh where d: "(dw, dh) = (if maintain_aspect_ratio n then fit_size ub d w h else (network_width n, network_height n))"
    by (metis surj_pair)
  show thesis
    by (rule that[OF _ d]) (use assms in \<open>auto simp: get_converted_buffer_def Let_def w_def[symmetric] h_def[symmetric] d[symmetric]
        split: if_splits\<close>)
qed

text \<open>
  Property C34. With the aspect ratio kept, the scaled image lies inside the surface of the pool and fills it in one
  direction, with or without symmetric padding, whatever the size of the cropped rectangle is, as long as the two
  products of sizes fit into 32 bits.
\<close>

theorem conversion_fits:
  assumes "get_converted_buffer ub n d ok r = Some (Some c)" "maintain_aspect_ratio n"
    and "src_rect c = (t, l, w, h)" "w \<noteq> 0" "h \<noteq> 0"
    and "unat (dest_frame_width d) * unat h < 2 ^ 32" "unat (dest_frame_height d) * unat w < 2 ^ 32"
  shows "case dst_rect c of (dt, dl, dw, dh) \<Rightarrow> unat dl + unat dw \<le> unat (dest_frame_width d) \<and>
    unat dt + unat dh \<le> unat (dest_frame_height d) \<and> (dw = dest_frame_width d \<or> dh = dest_frame_height d) \<and>
    dl = pad_left c \<and> dt = pad_top c"
  using assms(1)
proof (cases rule: get_converted_buffer_SomeD)
  case (1 l' t' w' h' dw dh)
  then have "fit_size ub d w h = (dw, dh)" using assms(2,3) by simp
  from fit_size_le[OF this assms(4-7)] have le: "dw \<le> dest_frame_width d" "dh \<le> dest_frame_height d"
    "dw = dest_frame_width d \<or> dh = dest_frame_height d" by auto
  have "unat (pad_left c) + unat dw \<le> unat (dest_frame_width d)" "unat (pad_top c) + unat dh \<le> unat (dest_frame_height d)"
    using half_pad[OF le(1)] half_pad[OF le(2)] le(1,2) by (simp_all add: 1(5,6) word_le_nat_alt)
  then show ?thesis using 1(7) le(3) by simp
qed

definition sample_surface :: dest_surface where
  "sample_surface = \<lparr>dest_frame_width = 32, dest_frame_height = 32, known_format = True\<rparr>"

definition padded_element :: GstNvInfer where
  "padded_element = sample_element\<lparr>maintain_aspect_ratio := True, symmetric_padding := True\<rparr>"

definition sample_conversion :: conversion where
  "sample_conversion = \<lparr>ratio_x = Fin (1/4), ratio_y = Fin (1/4), pad_left = 0, pad_top = 8, src_rect = (0, 0, 128, 64),
     dst_rect = (8, 0, 32, 16)\<rparr>"

lemma sample_converted:
  "get_converted_buffer (\<lambda>_. 0) padded_element sample_surface True (sample_rect\<lparr>rect_width := Fin 128\<rparr>) = Some (Some sample_conversion)"
  by code_simp

theorem conversion_fits_witness:
  "unat (8 :: u32) + unat (16 :: u32) \<le> unat (dest_frame_height sample_surface)"
  using conversion_fits[OF sample_converted, of 0 0 128 64]
  by (simp add: padded_element_def sample_conversion_def sample_surface_def)

text \<open>A box of the image, where the network sees it.\<close>

definition network_box :: "conversion \<Rightarrow> NvDsInferObject \<Rightarrow> NvDsInferObject" where
  "network_box c ob = ob
     \<lparr>obj_left := obj_left ob * ratio_x c + dbl_of_u32 (pad_left c), obj_top := obj_top ob * ratio_y c + dbl_of_u32 (pad_top c),
      obj_width := obj_width ob * ratio_x c, obj_height := obj_height ob * ratio_y c\<rparr>"

lemma scale_point:
  assumes "a \<noteq> 0"
  shows "ddiv (Fin x * Fin a + Fin p - Fin p) (Fin a) + Fin 0 = Fin x" "ddiv (Fin x * Fin a) (Fin a) = Fin x"
  using assms by simp_all

text \<open>
  Scaling the boxes of the network back inverts the scaling of the image, up to the rounding of the floating
  point numbers, which the model leaves out: a box of the cropped rectangle that the network finds where the conversion put
  it gets back its coordinates, relative to the rectangle, and the right lower corner of the rectangle is the one of the
  scaled image.
\<close>

lemma scale_back:
  assumes "get_converted_buffer ub n d ok r = Some (Some c)"
    and "src_rect c = (t, l, w, h)" "dst_rect c = (dt, dl, dw, dh)" "w \<noteq> 0" "h \<noteq> 0" "dw \<noteq> 0" "dh \<noteq> 0"
    and "obj_left ob = Fin x" "obj_top ob = Fin y" "obj_width ob = Fin bw" "obj_height ob = Fin bh"
  shows "scale_object (converted_image buf surf c) (network_box c ob) = ob \<and>
    dbl_of_u32 w * ratio_x c + dbl_of_u32 (pad_left c) = dbl_of_u32 dl + dbl_of_u32 dw \<and>
    dbl_of_u32 h * ratio_y c + dbl_of_u32 (pad_top c) = dbl_of_u32 dt + dbl_of_u32 dh"
  using assms(1)
proof (cases rule: get_converted_buffer_SomeD)
  case (1 l' t' w' h' dw' dh')
  have pos: "rat_of w \<noteq> 0" "rat_of h \<noteq> 0" "rat_of dw \<noteq> 0" "rat_of dh \<noteq> 0" using assms(4-7) rat_of_facts(3) by auto
  have rx: "ratio_x c = Fin (rat_of dw / rat_of w)" "ratio_y c = Fin (rat_of dh / rat_of h)"
    using 1(1,3,4,7) assms(2,3) pos by (simp_all add: dbl_of_rat)
  have pads: "dl = pad_left c" "dt = pad_top c" using 1(7) assms(3) by simp_all
  have "scale_object (converted_image buf surf c) (network_box c ob) =
      ob\<lparr>obj_left := Fin x, obj_top := Fin y, obj_width := Fin bw, obj_height := Fin bh\<rparr>"
    using pos by (simp add: scale_object_def converted_image_def network_box_def assms(8-11) rx dbl_of_rat
        rat_of_facts(3))
  moreover have "\<dots> = ob" using assms(8-11) by simp
  ultimately show ?thesis using pos rx by (simp add: dbl_of_rat pads add.commute)
qed

definition sample_box :: NvDsInferObject where
  "sample_box = \<lparr>obj_left = Fin 10, obj_top = Fin 6, obj_width = Fin 20, obj_height = Fin 30, classIndex = 0, obj_label = None,
     confidence = 1, obj_mask = None\<rparr>"

lemma scale_back_witness:
  "scale_object (converted_image 0 0 sample_conversion) (network_box sample_conversion sample_box) = sample_box \<and>
   obj_top (network_box sample_conversion sample_box) = Fin (19 / 2)"
  using scale_back[OF sample_converted, of 0 0 128 64 8 0 32 16 sample_box 10 6 20 30 0 0]
  by (simp add: sample_conversion_def sample_box_def network_box_def dbl_of_u32_def)

section \<open>Boxes that become metadata\<close>

text \<open>
  What the filters promise of an attached box. The lower end is compared with the height less the offset, which is
  computed in 32 bits; the right end is only looked at when boxes are cropped.
\<close>

definition box_admitted :: "GstNvInfer \<Rightarrow> u32 \<times> u32 \<Rightarrow> NvDsInferObject \<Rightarrow> bool" where
  "box_admitted n surf ob \<longleftrightarrow>
     (let fp = perClassDetectionFilterParams n ! nat (classIndex ob)
      in 0 \<le> classIndex ob \<and> classIndex ob < int (length (perClassDetectionFilterParams n)) \<and>
         word_of_int (classIndex ob) \<notin> set (filter_out_class_ids n) \<and>
         \<not> obj_left ob < 0 \<and> \<not> obj_top ob < 0 \<and> \<not> obj_top ob < dbl_of_u32 (roiTopOffset fp) \<and>
         \<not> dbl_of_u32 (snd surf - roiBottomOffset fp) < obj_top ob + obj_height ob \<and>
         (roiBottomOffset fp \<le> snd surf \<longrightarrow>
            \<not> dbl_of_u32 (snd surf) - dbl_of_u32 (roiBottomOffset fp) < obj_top ob + obj_height ob) \<and>
         (crop_objects_to_roi_boundary n \<longrightarrow> \<not> dbl_of_u32 (fst surf) < obj_left ob + obj_width ob) \<and>
         (\<not> crop_objects_to_roi_boundary n \<longrightarrow> \<not> filtered_size fp ob))"

lemma rat_of_diff: "b \<le> a \<Longrightarrow> dbl_of_u32 (a - b) = dbl_of_u32 a - dbl_of_u32 b"
  by (simp add: dbl_of_rat rat_of_def uint_sub_if' word_le_def)

lemma dbl_fill_up: "\<not> Fin b < a + (Fin b - a)" for a :: dbl
  by (cases a) (simp_all add: dbl_class_defs)

lemma clip_to_frame_nonneg:
  "\<not> obj_left (clip_to_frame ob) < 0" "\<not> obj_top (clip_to_frame ob) < 0"
  "classIndex (clip_to_frame ob) = classIndex ob"
  by (simp_all add: clip_to_frame_def Let_def)

lemma clip_to_roi_fields [simp]:
  "classIndex (clip_to_roi roi ob) = classIndex ob" "confidence (clip_to_roi roi ob) = confidence ob"
  "obj_label (clip_to_roi roi ob) = obj_label ob" "obj_mask (clip_to_roi roi ob) = obj_mask ob"
  by (simp_all add: clip_to_roi_def Let_def split: prod.split)

lemma roi_boundary_admits:
  assumes "roi_boundary crop fp surf ob = Some ob'" "\<not> obj_left ob < 0" "\<not> obj_top ob < 0"
  shows "\<not> obj_left ob' < 0" "\<not> obj_top ob' < 0" "\<not> obj_top ob' < dbl_of_u32 (roiTopOffset fp)"
    "\<not> dbl_of_u32 (snd surf - roiBottomOffset fp) < obj_top ob' + obj_height ob'"
    "crop \<Longrightarrow> \<not> dbl_of_u32 (fst surf) < obj_left ob' + obj_width ob'" "\<not> crop \<Longrightarrow> ob' = ob"
    "classIndex ob' = classIndex ob"
proof -
  obtain w h where surf: "surf = (w, h)" by (cases surf)
  have pos: "\<not> dbl_of_u32 x < 0" for x by (simp add: dbl_of_rat zero_dbl_Fin rat_of_facts(1) not_less)
  have fill: "\<not> dbl_of_u32 b < a + (dbl_of_u32 b - a)" for a b unfolding dbl_of_rat by (rule dbl_fill_up)
  have le: "\<not> dbl_of_u32 b \<le> a \<Longrightarrow> \<not> dbl_of_u32 b < a" for a b using dless_imp_dle by blast
  show "\<not> obj_left ob' < 0" "\<not> obj_top ob' < 0" "\<not> obj_top ob' < dbl_of_u32 (roiTopOffset fp)"
    "\<not> dbl_of_u32 (snd surf - roiBottomOffset fp) < obj_top ob' + obj_height ob'"
    "crop \<Longrightarrow> \<not> dbl_of_u32 (fst surf) < obj_left ob' + obj_width ob'" "\<not> crop \<Longrightarrow> ob' = ob"
    "classIndex ob' = classIndex ob"
    using assms pos fill le by (auto simp: roi_boundary_def surf Let_def split: if_splits)
qed

lemma place_object_admits:
  assumes "place_object n f ob = Some (Some ob')" "input_surf_size f = Some surf"
  shows "box_admitted n surf ob'" "classIndex ob' = classIndex ob"
proof -
  let ?fp = "perClassDetectionFilterParams n ! nat (classIndex ob)"
  let ?clip = "input_tensor_from_meta n \<and> clip_object_outside_roi n"
  let ?ob = "clip_to_frame (if ?clip then clip_to_roi (the (roi_rect f)) (scale_object f ob) else scale_object f ob)"
  have ob: "classIndex ?ob = classIndex ob" by (simp add: clip_to_frame_nonneg(3) scale_object_def)
  have r: "roi_boundary (crop_objects_to_roi_boundary n) ?fp surf ?ob = Some ob'" "\<not> filtered_size ?fp ?ob"
    "0 \<le> classIndex ob" "classIndex ob < int (length (perClassDetectionFilterParams n))"
    "word_of_int (classIndex ob) \<notin> set (filter_out_class_ids n)"
    using assms by (auto simp: place_object_def Let_def split: if_splits)
  note a = roi_boundary_admits[OF r(1) clip_to_frame_nonneg(1,2)]
  show "classIndex ob' = classIndex ob" using a(7) ob by simp
  then show "box_admitted n surf ob'" using a r by (simp add: box_admitted_def Let_def rat_of_diff[symmetric])
qed

text \<open>The boxes of an output that pass the filters, in their order.\<close>

definition placed :: "GstNvInfer \<Rightarrow> 'f frame_scale_scheme \<Rightarrow> NvDsInferObject list \<Rightarrow> NvDsInferObject list" where
  "placed n f obs = concat (map (\<lambda>ob. case place_object n f ob of Some (Some ob') \<Rightarrow> [ob'] | _ \<Rightarrow> []) obs)"

lemma placed_simps [simp]:
  "placed n f [] = []"
  "placed n f (ob # obs) = (case place_object n f ob of Some (Some ob') \<Rightarrow> [ob'] | _ \<Rightarrow> []) @ placed n f obs"
  by (simp_all add: placed_def)

lemma placed_admitted:
  assumes "ob' \<in> set (placed n f obs)" "input_surf_size f = Some surf"
  shows "box_admitted n surf ob'"
  using assms place_object_admits(1)[OF _ assms(2)] by (auto simp: placed_def split: option.splits)

text \<open>The position of the object the network ran on, which the boxes of a secondary detector are relative to.\<close>

definition origin :: "GstNvInfer \<Rightarrow> (dbl \<times> dbl) option \<Rightarrow> (dbl \<times> dbl) option" where
  "origin n parent = (if process_full_frame n \<or> input_tensor_from_meta n then None else parent)"

definition carries_box :: "GstNvInfer \<Rightarrow> (dbl \<times> dbl) option \<Rightarrow> NvDsObjectMeta \<Rightarrow> NvDsInferObject \<Rightarrow> bool" where
  "carries_box n parent m ob \<longleftrightarrow>
     (let r = rect_params m
      in (rect_left r, rect_top r) = (case origin n parent of None \<Rightarrow> (obj_left ob, obj_top ob)
                                       | Some (dx, dy) \<Rightarrow> (obj_left ob + dx, obj_top ob + dy)) \<and>
         rect_width r = obj_width ob \<and> rect_height r = obj_height ob \<and>
         org_bbox m = (rect_left r, rect_top r, rect_width r, rect_height r)) \<and>
     class_id m = classIndex ob \<and> meta_confidence m = confidence ob \<and> unique_component_id m = unique_id n \<and>
     object_id m = UNTRACKED_OBJECT_ID \<and> display_text (text_params m) = obj_label ob"

lemma class_colors_rect:
  assumes "class_colors n c r = Some r'"
  shows "rect_left r' = rect_left r" "rect_top r' = rect_top r" "rect_width r' = rect_width r" "rect_height r' = rect_height r"
  using assms by (auto simp: class_colors_def Let_def split: if_splits)

lemma make_object_meta_carries:
  assumes "make_object_meta env n parent i ob = Some m"
  shows "carries_box n parent m ob"
proof (cases "\<not> process_full_frame n \<and> \<not> input_tensor_from_meta n")
  case True
  with assms obtain dx dy where "parent = Some (dx, dy)" by (cases parent) (auto simp: make_object_meta_def)
  with assms True class_colors_rect show ?thesis
    by (auto simp: make_object_meta_def carries_box_def origin_def style_text_def Let_def split: option.splits)
next
  case False
  then have "origin n parent = None" by (auto simp: origin_def)
  with assms False class_colors_rect show ?thesis
    by (auto simp: make_object_meta_def carries_box_def style_text_def Let_def simp del: de_Morgan_conj split: option.splits)
qed

lemma collect_placed:
  assumes "collect (\<lambda>(i, ob). attach_object env n parent f i ob) (enumerate k obs) = Some ms"
  shows "list_all2 (carries_box n parent) ms (placed n f obs)"
  using assms
proof (induction obs arbitrary: k ms)
  case (Cons ob obs)
  then obtain r ms' where r: "attach_object env n parent f k ob = Some r"
    "collect (\<lambda>(i, ob). attach_object env n parent f i ob) (enumerate (Suc k) obs) = Some ms'"
    "ms = (case r of None \<Rightarrow> ms' | Some m \<Rightarrow> m # ms')"
    by (auto split: option.splits)
  note rest = Cons.IH[OF r(2)]
  show ?case
  proof (cases r)
    case None
    then have "place_object n f ob = Some None" using r(1) by (auto simp: attach_object_def split: option.splits)
    then show ?thesis using rest r(3) None by simp
  next
    case (Some m)
    then obtain ob' where "place_object n f ob = Some (Some ob')" "make_object_meta env n parent k ob' = Some m"
      using r(1) by (auto simp: attach_object_def split: option.splits)
    then show ?thesis using rest r(3) Some make_object_meta_carries by auto
  qed
qed simp

text \<open>
  Property C33. The objects that are attached for a detector are the detections of the network that pass the filters, one
  for each and in the same order, with their class, confidence and scaled box, relative to the parent object for a
  secondary detector. Every such box has an admitted class, begins neither left of the surface nor above it nor above the
  upper offset of its class, does not end below the lower offset if that is smaller than the surface, does not end right of
  the surface when boxes are cropped, and has the configured size when they are not.
\<close>

theorem attached_boxes:
  assumes "attach_metadata_detector env n parent f out = Some ms" "input_surf_size f = Some surf"
  shows "list_all2 (carries_box n parent) ms (placed n f (take (unat (numObjects out)) (out_objects out))) \<and>
    (\<forall>ob\<in>set (placed n f (take (unat (numObjects out)) (out_objects out))). box_admitted n surf ob)"
  using assms(1) collect_placed placed_admitted[OF _ assms(2)]
  by (auto simp: attach_metadata_detector_def split: if_splits)

definition sample_detector :: GstNvInfer where
  "sample_detector = sample_element\<lparr>process_full_frame := True, networkType := NvDsInferNetworkType_Detector,
     perClassDetectionFilterParams := [\<lparr>roiTopOffset = 10, roiBottomOffset = 80, detectionMinWidth = 8, detectionMinHeight = 8,
       detectionMaxWidth = 0, detectionMaxHeight = 0\<rparr>],
     perClassColorParams := [\<lparr>have_bg_color = 0, class_bg_color = black, class_border_color = red\<rparr>]\<rparr>"

definition detector_frame :: GstNvInferFrame where
  "detector_frame = (converted_image 0 0 sample_conversion)\<lparr>input_surf_size := Some (640, 480), frame_meta := Some (0, 0)\<rparr>"

definition two_boxes :: NvDsInferDetectionOutput where
  "two_boxes = \<lparr>out_objects = [network_box sample_conversion sample_box,
     network_box sample_conversion (sample_box\<lparr>obj_top := Fin 12\<rparr>)], numObjects = 2\<rparr>"

lemma two_boxes_attached:
  "(case attach_metadata_detector sample_env sample_detector None detector_frame two_boxes of
      None \<Rightarrow> False | Some ms \<Rightarrow> map (rect_top \<circ> rect_params) ms = [Fin 12])"
  by code_simp

theorem attached_boxes_witness:
  "\<exists>m. attach_metadata_detector sample_env sample_detector None detector_frame two_boxes = Some [m] \<and>
     rect_top (rect_params m) = Fin 12 \<and> object_id m = UNTRACKED_OBJECT_ID"
proof -
  obtain m where m: "attach_metadata_detector sample_env sample_detector None detector_frame two_boxes = Some [m]"
    "rect_top (rect_params m) = Fin 12"
    using two_boxes_attached by (auto split: option.splits)
  have f: "input_surf_size detector_frame = Some (640, 480)" by (simp add: detector_frame_def)
  from attached_boxes[OF m(1) f] obtain ob where "carries_box sample_detector None m ob" by (auto simp: list_all2_Cons1)
  with m show ?thesis by (auto simp: carries_box_def)
qed

section \<open>Boxes outside of the region\<close>

text \<open>
  With \<open>crop-objects-to-roi-boundary\<close>, a box that begins below the lower offset of its class is not dropped but
  attached with a negative height, and one that ends above the upper offset is not cropped to nothing but moved down
  with its size, into the region it does not touch.
\<close>

lemma crop_attaches_outside:
  assumes "obj_top ob = Fin t" "obj_height ob = Fin h" "0 < h"
    and "rat_of_int (uint (snd surf - roiBottomOffset fp)) = b" "rat_of_int (uint (roiTopOffset fp)) = a"
  shows "(a \<le> t \<longrightarrow> b < t \<longrightarrow> (\<exists>ob'. roi_boundary True fp surf ob = Some ob' \<and> obj_top ob' = Fin t \<and>
      obj_height ob' = Fin (b - t) \<and> obj_height ob' < 0)) \<and>
    (t + h \<le> a \<longrightarrow> a + h \<le> b \<longrightarrow> (\<exists>ob'. roi_boundary True fp surf ob = Some ob' \<and> obj_top ob' = Fin a \<and>
      obj_height ob' = Fin h))"
proof -
  have w: "dbl_of_u32 (snd surf - roiBottomOffset fp) = Fin b" "dbl_of_u32 (roiTopOffset fp) = Fin a"
    using assms(4,5) by (simp_all only: dbl_of_u32_def)
  show ?thesis
    using assms(1-3) by (cases surf) (use w in \<open>auto simp: roi_boundary_def Let_def zero_dbl_Fin\<close>)
qed

lemma crop_attaches_outside_witness:
  "\<exists>ob'. roi_boundary True (perClassDetectionFilterParams sample_detector ! 0) (640, 480) (sample_box\<lparr>obj_top := Fin 470\<rparr>) = Some ob' \<and>
     obj_height ob' = Fin (- 70)"
  using crop_attaches_outside[of "sample_box\<lparr>obj_top := Fin 470\<rparr>" 470 30 "(640, 480)"
      "perClassDetectionFilterParams sample_detector ! 0" 400 10]
  by (auto simp: sample_detector_def sample_box_def)

text \<open>
  Clipping a box to a region of interest of the pre-processing element sets the left (upper) edge before it
  computes what is cut off, which is then nothing: the box keeps its width and its right edge moves to the right by as much as the
  box had stuck out to the left.
\<close>

lemma roi_clip_shifts:
  assumes "obj_left ob = Fin l" "obj_width ob = Fin w" "obj_top ob = Fin t" "obj_height ob = Fin h"
    and "l < rl" "l + w < rl + rw" "rt \<le> t" "t + h < rt + rh"
  shows "clip_to_roi (Fin rl, Fin rt, Fin rw, Fin rh) ob = ob\<lparr>obj_left := Fin rl\<rparr> \<and>
    obj_left ob + obj_width ob < obj_left (clip_to_roi (Fin rl, Fin rt, Fin rw, Fin rh) ob) + obj_width (clip_to_roi (Fin rl, Fin rt, Fin rw, Fin rh) ob)"
proof -
  have "clip_to_roi (Fin rl, Fin rt, Fin rw, Fin rh) ob = ob\<lparr>obj_left := Fin rl, obj_width := Fin w\<rparr>"
    using assms by (simp add: clip_to_roi_def Let_def)
  moreover have "\<dots> = ob\<lparr>obj_left := Fin rl\<rparr>" using assms(2) by simp
  ultimately show ?thesis using assms(1,2,5) by simp
qed

lemma roi_clip_shifts_witness:
  "clip_to_roi (Fin 15, Fin 0, Fin 100, Fin 100) sample_box = sample_box\<lparr>obj_left := Fin 15\<rparr>"
  using roi_clip_shifts[of sample_box 10 20 6 30 15 100 0 100] by (simp add: sample_box_def)

section \<open>The interval\<close>

text \<open>The decisions for the next buffers, \<open>True\<close> for a skipped one.\<close>

fun skip_batches :: "nat \<Rightarrow> infer_state \<Rightarrow> (bool list \<times> infer_state) option" where
  "skip_batches 0 s = Some ([], s)"
| "skip_batches (Suc k) s =
     (case skip_batch s of
        None \<Rightarrow> None
      | Some (b, s1) \<Rightarrow> map_option (\<lambda>(bs, s2). (b # bs, s2)) (skip_batches k s1))"

lemma skip_batches_exact:
  assumes "unat (interval_counter s) + k \<le> 2 ^ 32" "interval s + 1 \<noteq> 0"
  shows "\<exists>s'. skip_batches k s = Some (map (\<lambda>j. 0 < (unat (interval_counter s) + j) mod Suc (unat (interval s))) [0..<k], s')"
  using assms
proof (induction k arbitrary: s)
  case (Suc k)
  let ?c = "unat (interval_counter s)" and ?m = "Suc (unat (interval s))"
  have m: "unat (interval s + 1) = ?m" using unatSuc[of "interval s"] Suc.prems(2) by (simp add: add.commute)
  have b: "0 < interval_counter s mod (interval s + 1) \<longleftrightarrow> 0 < ?c mod ?m"
    by (simp add: word_less_nat_alt unat_mod m)
  let ?s = "s\<lparr>interval_counter := interval_counter s + 1\<rparr>"
  have step: "skip_batch s = Some (0 < ?c mod ?m, ?s)" using Suc.prems(2) b by (simp add: skip_batch_def)
  have list: "map (\<lambda>j. 0 < (?c + j) mod ?m) [0..<Suc k] = (0 < ?c mod ?m) # map (\<lambda>j. 0 < (Suc ?c + j) mod ?m) [0..<k]"
    by (simp add: upt_conv_Cons map_Suc_upt[symmetric] comp_def del: upt_Suc)
  show ?case
  proof (cases "k = 0")
    case True
    then show ?thesis using step by simp
  next
    case False
    then have c: "unat (interval_counter ?s) = Suc ?c" using Suc.prems(1) by (simp add: unat_word_ariths)
    then have "unat (interval_counter ?s) + k \<le> 2 ^ 32" using Suc.prems(1) by simp
    from Suc.IH[OF this] Suc.prems(2) obtain s' where
      "skip_batches k ?s = Some (map (\<lambda>j. 0 < (Suc ?c + j) mod ?m) [0..<k], s')" using c by auto
    then show ?thesis unfolding list using step by simp
  qed
qed simp

lemma one_multiple: "count_list (map (\<lambda>j. 0 < (c + j) mod m) [0..<m]) False = 1" if "0 < m" for c m :: nat
proof -
  let ?P = "\<lambda>j. (c + j) mod m = 0"
  have "{j. j < m \<and> ?P j} = {(m - c mod m) mod m}"
  proof (intro equalityI subsetI)
    fix j assume "j \<in> {j. j < m \<and> ?P j}"
    then have j: "j < m" "(c mod m + j) mod m = 0" by (simp_all add: mod_add_left_eq)
    show "j \<in> {(m - c mod m) mod m}"
    proof (cases "c mod m + j < m")
      case True
      with j show ?thesis by simp
    next
      case False
      then have "c mod m + j - m = 0" using j that
        by (metis le_mod_geq less_diff_conv2 mod_less mod_less_divisor not_less add.commute nat_add_left_cancel_less less_imp_le add_less_mono)
      with False have "j = m - c mod m" by simp
      with j show ?thesis by simp
    qed
  next
    fix j assume "j \<in> {(m - c mod m) mod m}"
    then have "j = (m - c mod m) mod m" by simp
    then have "(c + j) mod m = (c mod m + (m - c mod m)) mod m" by (simp add: mod_add_eq mod_add_left_eq mod_add_right_eq)
    also have "\<dots> = 0" using that by (simp add: less_imp_le)
    finally show "j \<in> {j. j < m \<and> ?P j}" using that \<open>j = _\<close> by simp
  qed
  then have "card {j. j < m \<and> ?P j} = 1" by simp
  moreover have "count_list (map (\<lambda>j. 0 < (c + j) mod m) xs) False = length (filter ?P xs)" for xs
    by (induction xs) auto
  moreover have "length (filter ?P [0..<m]) = card {j. j < m \<and> ?P j}"
    by (subst distinct_card[symmetric]) (auto intro!: arg_cong[of _ _ card])
  ultimately show ?thesis by simp
qed

text \<open>
  Of any \<open>interval + 1\<close> consecutive buffers exactly one is inferred on, as long as the counter does not pass
  \<open>2 ^ 32\<close>; with the largest interval the decision divides by zero.
\<close>

lemma interval_exact:
  assumes "unat (interval_counter s) + Suc (unat (interval s)) \<le> 2 ^ 32"
  shows "if interval s = - 1 then skip_batches (Suc k) s = None
    else \<exists>bs s'. skip_batches (Suc (unat (interval s))) s = Some (bs, s') \<and> length bs = Suc (unat (interval s)) \<and> count_list bs False = 1"
proof (cases "interval s = - 1")
  case True
  then show ?thesis by (simp add: skip_batch_def)
next
  case False
  then have "interval s + 1 \<noteq> 0" by (metis add_eq_0_iff2)
  from skip_batches_exact[OF assms this] one_multiple[of "Suc (unat (interval s))" "unat (interval_counter s)"] False
  show ?thesis by auto
qed

lemma interval_exact_witness:
  "\<exists>bs s'. skip_batches 4 (start_infer 3 0) = Some (bs, s') \<and> count_list bs False = 1"
  using interval_exact[of "start_infer 3 0" 0] by (auto simp: start_infer_def)

end
