(* ===== verification/TrackSlots.thy ===== *)
theory TrackSlots
  imports Prelude
begin

text \<open>
  The streams of the tracker plugin and their places in the sub-batches:
  \<open>mapStreamToSubBatch\<close>, \<open>removeSource\<close> and the maps set up by \<open>init\<close> of \<open>NvTrackerProc\<close>
  (\<open>src/sources/gst-plugins/gst-nvtracker/nvtracker_proc.cpp\<close>, \<open>nvtracker_proc.h\<close>, \<open>invtracker_proc.h\<close>).

  A \<open>std::map\<close> is an association list in the order of its keys. Numbers of sub-batches and places in
  a sub-batch are natural numbers: they are below sizes of vectors.
\<close>

unbundle bit_operations_syntax

section \<open>Ordered maps\<close>

fun map_put :: "'k::linorder \<Rightarrow> 'v \<Rightarrow> ('k \<times> 'v) list \<Rightarrow> ('k \<times> 'v) list" where
  "map_put k v [] = [(k, v)]"
| "map_put k v ((k', v') # m) =
     (if k < k' then (k, v) # (k', v') # m else if k = k' then (k, v) # m else (k', v') # map_put k v m)"

definition map_touch :: "'k::linorder \<Rightarrow> 'v \<Rightarrow> ('k \<times> 'v) list \<Rightarrow> ('k \<times> 'v) list" where
  "map_touch k v m = (if map_of m k = None then map_put k v m else m)"

lemma map_of_map_put [simp]: "map_of (map_put k v m) = (map_of m)(k \<mapsto> v)"
  by (induction k v m rule: map_put.induct) auto

lemma map_of_map_touch: "map_of (map_touch k v m) = (case map_of m k of None \<Rightarrow> (map_of m)(k \<mapsto> v) | Some _ \<Rightarrow> map_of m)"
  by (auto simp: map_touch_def split: option.split)

abbreviation map_wf :: "('k::linorder \<times> 'v) list \<Rightarrow> bool" where
  "map_wf m \<equiv> sorted_wrt (<) (map fst m)"

lemma keys_map_put [simp]: "fst ` set (map_put k v m) = insert k (fst ` set m)"
  by (induction k v m rule: map_put.induct) auto

lemma map_wf_put [simp]: "map_wf m \<Longrightarrow> map_wf (map_put k v m)"
proof (induction k v m rule: map_put.induct)
  case (2 k v k' v' m)
  have "set (map fst (map_put k v m)) = insert k (set (map fst m))" by simp
  with 2 show ?case by (auto simp del: set_map)
qed simp

lemma map_wf_delete [simp]: "map_wf m \<Longrightarrow> map_wf (AList.delete k m)"
  by (induction m) (auto simp: AList.delete_eq image_iff)

lemma map_wf_filter [simp]: "map_wf m \<Longrightarrow> map_wf (filter P m)"
  by (induction m) (auto simp: image_iff)

lemma map_wf_touch [simp]: "map_wf m \<Longrightarrow> map_wf (map_touch k v m)"
  by (simp add: map_touch_def)

lemma map_wf_distinct: "map_wf m \<Longrightarrow> distinct (map fst m)"
  by (simp add: strict_sorted_iff)

section \<open>Streams\<close>

definition getSurfaceStreamId :: "u32 \<Rightarrow> u32 \<Rightarrow> u64" where
  "getSurfaceStreamId streamId surfaceId = push_bit 32 (ucast streamId) OR ucast surfaceId"

definition getStreamId :: "u64 \<Rightarrow> u32" where
  "getStreamId ssId = ucast (drop_bit 32 ssId)"

definition getSurfaceId :: "u64 \<Rightarrow> u32" where
  "getSurfaceId ssId = ucast ssId"

section \<open>State\<close>

text \<open>The fields of \<open>TrackerConfig\<close> the model reads; the sources of a static sub-batch are compared as unsigned numbers.\<close>

record TrackerConfig =
  batchSize :: u32
  trackerWidth :: u32
  trackerHeight :: u32
  displayTrackingId :: bool
  trackingIdResetMode :: u32
  trackingSurfType :: u32
  trackingSurfTypeFromConfig :: bool
  inputTensorMeta :: bool
  subBatchesConfig :: "u32 list list"
  subBatchSizes :: "u32 list"
  dynamicSubBatching :: bool
  subBatchErrRecoveryTrialCnt :: u32
  numTransforms :: u32
  maxTargetsPerStream :: u32
  outputReidTensor :: bool
  outputVisibility :: bool
  outputFootLocation :: bool
  outputConvexHull :: bool

type_synonym slots = "(nat \<times> u64 \<times> u32) list"

record stream_maps =
  m_SsidSubBatchMap :: "(u64 \<times> nat) list"
  m_PadIndexSeqIndexMap :: "(u32 \<times> nat) list"
  m_SubBatchAllocationMap :: "(nat \<times> slots) list"
  m_ObjectIdOffsetMap :: "(u64 \<times> u64) list"
  m_MaxSubBatchSize :: nat

section \<open>The maps that \<open>init\<close> sets up\<close>

text \<open>Static sub-batches: the place of every source in its sub-batch; \<open>None\<close> when a source occurs again.\<close>

fun static_places :: "nat \<Rightarrow> u32 list \<Rightarrow> (u32 \<times> nat) list \<Rightarrow> (u32 \<times> nat) list option" where
  "static_places j [] m = Some m"
| "static_places j (p # ps) m =
     (if map_of m p = None then static_places (Suc j) ps (map_put p j m) else None)"

fun static_maps :: "u32 list list \<Rightarrow> (u32 \<times> nat) list \<Rightarrow> (u32 \<times> nat) list option" where
  "static_maps [] m = Some m"
| "static_maps (b # bs) m = Option.bind (static_places 0 b m) (static_maps bs)"

definition empty_maps :: stream_maps where
  "empty_maps = \<lparr>m_SsidSubBatchMap = [], m_PadIndexSeqIndexMap = [], m_SubBatchAllocationMap = [],
     m_ObjectIdOffsetMap = [], m_MaxSubBatchSize = 0\<rparr>"

definition init_maps :: "TrackerConfig \<Rightarrow> stream_maps option" where
  "init_maps cfg =
     (if subBatchSizes cfg = [] then
        Some (empty_maps\<lparr>m_PadIndexSeqIndexMap := map (\<lambda>i. (of_nat i, i)) [0..<unat (batchSize cfg)]\<rparr>)
      else if \<not> dynamicSubBatching cfg then
        map_option (\<lambda>m. empty_maps\<lparr>m_PadIndexSeqIndexMap := m,
            m_MaxSubBatchSize := foldr max (map length (subBatchesConfig cfg)) 0\<rparr>)
          (static_maps (subBatchesConfig cfg) [])
      else Some (empty_maps\<lparr>m_MaxSubBatchSize := foldr max (map unat (subBatchSizes cfg)) 0\<rparr>))"

section \<open>Giving a stream its place\<close>

text \<open>The inner loop: the first sub-batch with less than \<open>cnt\<close> streams and room. Entries are made on the way.\<close>

fun scan_sub_batches :: "u32 list \<Rightarrow> nat \<Rightarrow> nat list \<Rightarrow> (nat \<times> slots) list \<Rightarrow> (nat \<times> slots) list \<times> nat option" where
  "scan_sub_batches sizes cnt [] a = (a, None)"
| "scan_sub_batches sizes cnt (sb # sbs) a =
     (let a1 = map_touch sb [] a; cur = length (the (map_of a1 sb))
      in if cur < cnt \<and> cur < unat (sizes ! sb) then (a1, Some sb) else scan_sub_batches sizes cnt sbs a1)"

fun scan_loads :: "u32 list \<Rightarrow> nat list \<Rightarrow> (nat \<times> slots) list \<Rightarrow> (nat \<times> slots) list \<times> nat option" where
  "scan_loads sizes [] a = (a, None)"
| "scan_loads sizes (cnt # cnts) a =
     (case scan_sub_batches sizes cnt [0..<length sizes] a of
        (a1, Some sb) \<Rightarrow> (a1, Some sb)
      | (a1, None) \<Rightarrow> scan_loads sizes cnts a1)"

definition free_place :: "u32 \<Rightarrow> slots \<Rightarrow> nat option" where
  "free_place room sl = find (\<lambda>q. map_of sl q = None) [0..<unat room]"

definition map_dynamic :: "TrackerConfig \<Rightarrow> u64 \<Rightarrow> u32 \<Rightarrow> stream_maps \<Rightarrow> bool \<times> stream_maps" where
  "map_dynamic cfg ssId pad s =
     (case scan_loads (subBatchSizes cfg) [1..<Suc (m_MaxSubBatchSize s)] (m_SubBatchAllocationMap s) of
        (a, None) \<Rightarrow> (False, s\<lparr>m_SubBatchAllocationMap := a\<rparr>)
      | (a, Some sb) \<Rightarrow>
          (case free_place (subBatchSizes cfg ! sb) (the (map_of a sb)) of
             None \<Rightarrow> (False, s\<lparr>m_SubBatchAllocationMap := a\<rparr>)
           | Some q \<Rightarrow>
               (True, s\<lparr>m_SubBatchAllocationMap := map_put sb (map_put q (ssId, pad) (the (map_of a sb))) a,
                        m_SsidSubBatchMap := map_put ssId sb (m_SsidSubBatchMap s),
                        m_PadIndexSeqIndexMap := map_put pad q (m_PadIndexSeqIndexMap s)\<rparr>)))"

definition mapStreamToSubBatch :: "TrackerConfig \<Rightarrow> u64 \<Rightarrow> u32 \<Rightarrow> stream_maps \<Rightarrow> bool \<times> stream_maps" where
  "mapStreamToSubBatch cfg ssId pad s =
     (if dynamicSubBatching cfg then map_dynamic cfg ssId pad s
      else case find (\<lambda>sb. pad \<in> set (subBatchesConfig cfg ! sb)) [0..<length (subBatchesConfig cfg)] of
             None \<Rightarrow> (False, s)
           | Some sb \<Rightarrow> (True, s\<lparr>m_SsidSubBatchMap := map_put ssId sb (m_SsidSubBatchMap s)\<rparr>))"

section \<open>Removing a source\<close>

text \<open>
  The place of a stream in its sub-batch is given up. The map of the places of the pads is read by
  \<open>[]\<close>, which makes a missing entry; a difference is an error.
\<close>

definition erase_slot :: "u64 \<Rightarrow> nat \<Rightarrow> stream_maps \<Rightarrow> bool \<times> stream_maps" where
  "erase_slot ssId sb s =
     (case map_of (m_SubBatchAllocationMap s) sb of
        None \<Rightarrow> (True, s)
      | Some sl \<Rightarrow>
          (case find (\<lambda>(q, ss, pad). ss = ssId) sl of
             None \<Rightarrow> (True, s)
           | Some (q, ss, pad) \<Rightarrow>
               let sl1 = AList.delete q sl;
                   s1 = s\<lparr>m_SubBatchAllocationMap := (if sl1 = [] then AList.delete sb (m_SubBatchAllocationMap s)
                            else map_put sb sl1 (m_SubBatchAllocationMap s)),
                          m_PadIndexSeqIndexMap := map_touch pad 0 (m_PadIndexSeqIndexMap s)\<rparr>
               in if map_of (m_PadIndexSeqIndexMap s1) pad \<noteq> Some q then (False, s1)
                  else (True, s1\<lparr>m_PadIndexSeqIndexMap := AList.delete pad (m_PadIndexSeqIndexMap s1)\<rparr>)))"

text \<open>
  With sub-batches: the streams of the source are those with an object id. The second result are the
  requests for the threads of the sub-batches, in order.
\<close>

fun remove_streams :: "TrackerConfig \<Rightarrow> u32 \<Rightarrow> u64 list \<Rightarrow> stream_maps \<Rightarrow> bool \<times> (nat \<times> u64) list \<times> stream_maps" where
  "remove_streams cfg src [] s = (True, [], s)"
| "remove_streams cfg src (ss # sss) s =
     (if getStreamId ss \<noteq> src then remove_streams cfg src sss s
      else case map_of (m_SsidSubBatchMap s) ss of
             None \<Rightarrow> (False, [], s)
           | Some sb \<Rightarrow>
               (case erase_slot ss sb (s\<lparr>m_SsidSubBatchMap := AList.delete ss (m_SsidSubBatchMap s)\<rparr>) of
                  (False, s1) \<Rightarrow> (False, [], s1)
                | (True, s1) \<Rightarrow>
                    if length (subBatchSizes cfg) \<le> sb then (False, [], s1)
                    else (case remove_streams cfg src sss s1 of (ok, reqs, s2) \<Rightarrow> (ok, (sb, ss) # reqs, s2))))"

text \<open>Without sub-batches the library is told directly; \<open>removed\<close> is its answer for a stream.\<close>

definition removeSource ::
  "TrackerConfig \<Rightarrow> (u64 \<Rightarrow> bool) \<Rightarrow> u32 \<Rightarrow> bool \<Rightarrow> stream_maps \<Rightarrow> bool \<times> (nat \<times> u64) list \<times> stream_maps" where
  "removeSource cfg removed src forget s =
     (let known = map fst (m_ObjectIdOffsetMap s);
          (ok, reqs, s1) = (if subBatchSizes cfg = []
                            then (list_all removed (filter (\<lambda>ss. getStreamId ss = src) known), [], s)
                            else remove_streams cfg src known s)
      in if \<not> ok then (False, reqs, s1)
         else (True, reqs, if forget
           then s1\<lparr>m_ObjectIdOffsetMap := filter (\<lambda>(ss, off). getStreamId ss \<noteq> src) (m_ObjectIdOffsetMap s1)\<rparr> else s1))"

section \<open>The first object of a stream\<close>

text \<open>The id of the first object of a stream is kept as its offset (the beginning of \<open>objectIdMapping\<close>).\<close>

definition record_offset :: "u64 \<Rightarrow> u64 \<Rightarrow> stream_maps \<Rightarrow> stream_maps" where
  "record_offset ssId objectId s = s\<lparr>m_ObjectIdOffsetMap := map_touch ssId objectId (m_ObjectIdOffsetMap s)\<rparr>"

section \<open>What happens to the maps\<close>

text \<open>
  A frame of a surface of a pad arrives (\<open>dispatchSubBatches\<close> maps its stream if it is new), an
  object is found in a stream, a source is removed. \<open>permitted\<close> says which of these can happen.
\<close>

datatype stream_op = FrameOf u32 u32 | ObjectOf u64 u64 | RemoveOf u32 bool

definition slot_step :: "TrackerConfig \<Rightarrow> stream_op \<Rightarrow> stream_maps \<Rightarrow> stream_maps" where
  "slot_step cfg op s =
     (case op of
        FrameOf pad surface \<Rightarrow>
          (let ss = getSurfaceStreamId pad surface
           in if map_of (m_SsidSubBatchMap s) ss = None then snd (mapStreamToSubBatch cfg ss pad s) else s)
      | ObjectOf ss i \<Rightarrow> record_offset ss i s
      | RemoveOf src forget \<Rightarrow> snd (snd (removeSource cfg (\<lambda>_. True) src forget s)))"

inductive slots_reachable :: "TrackerConfig \<Rightarrow> (stream_op \<Rightarrow> bool) \<Rightarrow> stream_maps \<Rightarrow> stream_maps \<Rightarrow> bool"
  for cfg permitted s0 where
  start: "slots_reachable cfg permitted s0 s0"
| step: "slots_reachable cfg permitted s0 s \<Longrightarrow> permitted op \<Longrightarrow> slots_reachable cfg permitted s0 (slot_step cfg op s)"

lemma slots_reachable_fold:
  "slots_reachable cfg permitted s0 s \<Longrightarrow> \<forall>op\<in>set ops. permitted op \<Longrightarrow>
     slots_reachable cfg permitted s0 (fold (slot_step cfg) ops s)"
  by (induction ops arbitrary: s) (auto intro: step)

end
