(* ===== verification/TrackObjects.thy ===== *)
theory TrackObjects
  imports InferMeta TrackSlots
begin

text \<open>
  The metadata the tracker plugin reads and writes: \<open>queueFrames\<close>, \<open>fillMOTFrame\<close>, \<open>clipBBox\<close>,
  \<open>objectIdMapping\<close>, \<open>updateFrameMeta\<close>, \<open>updateBatchMeta\<close> and \<open>removeUntrackedObjects\<close> of
  \<open>src/sources/gst-plugins/gst-nvtracker/nvtracker_proc.cpp\<close>, with the structures of
  \<open>src/sources/includes/nvdstracker.h\<close>.

  The objects of a frame are a list of addresses with contents. The low-level library names the object
  that a tracked one belongs to by its address. \<open>None\<close> is undefined behaviour.
\<close>

section \<open>Structures\<close>

type_synonym box = "dbl \<times> dbl \<times> dbl \<times> dbl"

text \<open>Boxes are left, top, width, height. User metadata of an object, as the tracker makes it.\<close>

datatype obj_user_meta =
  ReidMeta u32 | VisibilityMeta dbl | ImageFootMeta dbl dbl | WorldFootMeta dbl dbl | ConvexHullMeta "(int \<times> int) list"

record tracked_object = NvDsObjectMeta +
  tracker_bbox :: box
  tracker_confidence :: dbl
  obj_user_meta_list :: "obj_user_meta list"

record track_frame =
  f_pad_index :: u32
  f_surface_index :: u32
  f_surface_type :: u32
  f_batch_id :: u32
  f_frame_num :: u32
  f_infer_done :: bool
  f_objects :: "(nat \<times> tracked_object) list"
  next_address :: nat

record NvMOTObjToTrack =
  in_classId :: "16 word"
  in_bbox :: box
  in_confidence :: dbl
  pPreservedData :: nat

record NvMOTFrame =
  mot_streamID :: u64
  seq_index :: nat
  mot_frameNum :: u32
  srcFrameSize :: "u32 \<times> u32"
  bufferList :: "(nat \<times> u32) list"
  objectsIn :: "NvMOTObjToTrack list"
  detectionDone :: bool

record NvMOTTrackedObj =
  out_classId :: "16 word"
  trackingId :: u64
  out_bbox :: box
  out_confidence :: dbl
  associatedObjectIn :: "nat option"
  reid_featureSize :: u32
  reid_pointers :: bool
  visibility :: dbl
  ptImgFeet :: "dbl \<times> dbl"
  ptWorldFeet :: "dbl \<times> dbl"
  hull_points :: "(dbl \<times> dbl) list"
  hull_allocated :: nat

record NvMOTTrackedObjList =
  list_streamID :: u64
  tracked_list :: "NvMOTTrackedObj list"

record ClassInfo =
  info_rect :: NvOSD_RectParams
  info_text :: NvOSD_TextParams
  displayTextString :: string
  objLabel :: string
  uniqueComponentId :: u32

text \<open>
  What the functions use of the outside: an object from the pool, conversions of floating point numbers
  that do not fit (undefined behaviour), what is printed for a null pointer, the sizes of the surfaces.
\<close>

record track_env =
  pool_tracked :: tracked_object
  odd_u32 :: "dbl \<Rightarrow> u32"
  odd_int :: "dbl \<Rightarrow> int"
  null_text :: string
  surface_size :: "u32 \<Rightarrow> u32 \<times> u32"

section \<open>The frames of a batch\<close>

definition selected_frame :: "TrackerConfig \<Rightarrow> track_frame \<Rightarrow> bool" where
  "selected_frame cfg f \<longleftrightarrow>
     \<not> (f_surface_type f \<noteq> 0 \<and> trackingSurfTypeFromConfig cfg \<and> f_surface_type f \<noteq> trackingSurfType cfg)"

definition frame_ssid :: "track_frame \<Rightarrow> u64" where
  "frame_ssid f = getSurfaceStreamId (f_pad_index f) (f_surface_index f)"

text \<open>
  The frames of the batch, by their number in it, go into rounds: the \<open>k\<close>-th frame of a stream into
  the \<open>k\<close>-th. \<open>frameCount\<close> counts the frames of each stream.
\<close>

fun queue_frames ::
  "TrackerConfig \<Rightarrow> (nat \<times> track_frame) list \<Rightarrow> (u64 \<Rightarrow> nat) \<Rightarrow> (u64 \<times> nat) list list \<Rightarrow> (u64 \<times> nat) list list" where
  "queue_frames cfg [] frameCount batchList = batchList"
| "queue_frames cfg ((i, f) # fs) frameCount batchList =
     (if \<not> selected_frame cfg f then queue_frames cfg fs frameCount batchList
      else
        let ss = frame_ssid f; k = frameCount ss;
            bl = batchList @ replicate (Suc k - length batchList) []
        in queue_frames cfg fs (frameCount(ss := Suc k)) (bl[k := map_put ss i (bl ! k)]))"

definition queueFrames :: "TrackerConfig \<Rightarrow> track_frame list \<Rightarrow> (u64 \<times> nat) list list" where
  "queueFrames cfg fs = queue_frames cfg (enumerate 0 fs) (\<lambda>_. 0) []"

section \<open>Input of the library\<close>

definition scale_box :: "dbl \<Rightarrow> dbl \<Rightarrow> box \<Rightarrow> box" where
  "scale_box sw sh b = (case b of (l, t, w, h) \<Rightarrow> (l * sw, t * sh, w * sw, h * sh))"

definition rect_box :: "NvOSD_RectParams \<Rightarrow> box" where
  "rect_box r = (rect_left r, rect_top r, rect_width r, rect_height r)"

definition to_track :: "dbl \<Rightarrow> dbl \<Rightarrow> nat \<times> tracked_object \<Rightarrow> NvMOTObjToTrack" where
  "to_track sw sh = (\<lambda>(a, ob). \<lparr>in_classId = word_of_int (class_id ob), in_bbox = scale_box sw sh (rect_box (rect_params ob)),
     in_confidence = meta_confidence ob, pPreservedData = a\<rparr>)"

text \<open>The first object of a class is remembered; null texts leave the strings empty.\<close>

definition class_info :: "tracked_object \<Rightarrow> ClassInfo" where
  "class_info ob = \<lparr>info_rect = rect_params ob, info_text = text_params ob,
     displayTextString = (case display_text (text_params ob) of None \<Rightarrow> [] | Some t \<Rightarrow> t), objLabel = meta_label ob,
     uniqueComponentId = unique_component_id ob\<rparr>"

definition remember_class :: "nat \<times> tracked_object \<Rightarrow> (int \<Rightarrow> ClassInfo option) \<Rightarrow> int \<Rightarrow> ClassInfo option" where
  "remember_class = (\<lambda>(a, ob) m. if m (class_id ob) = None then m(class_id ob \<mapsto> class_info ob) else m)"

definition fillMOTFrame ::
  "track_env \<Rightarrow> TrackerConfig \<Rightarrow> u64 \<Rightarrow> nat option \<Rightarrow> track_frame \<Rightarrow> (int \<Rightarrow> ClassInfo option) \<Rightarrow> stream_maps \<Rightarrow>
   NvMOTFrame \<times> (int \<Rightarrow> ClassInfo option) \<times> stream_maps" where
  "fillMOTFrame env cfg ss convBuf f classes maps =
     (let size = surface_size env (f_batch_id f);
          sw = ddiv (dbl_of_u32 (trackerWidth cfg)) (dbl_of_u32 (fst size));
          sh = ddiv (dbl_of_u32 (trackerHeight cfg)) (dbl_of_u32 (snd size));
          obs = take (unat (maxTargetsPerStream cfg)) (f_objects f);
          maps1 = maps\<lparr>m_PadIndexSeqIndexMap := map_touch (f_pad_index f) 0 (m_PadIndexSeqIndexMap maps)\<rparr>
      in (\<lparr>mot_streamID = ss, seq_index = the (map_of (m_PadIndexSeqIndexMap maps1) (f_pad_index f)),
           mot_frameNum = f_frame_num f, srcFrameSize = size,
           bufferList = (case convBuf of None \<Rightarrow> [] | Some b \<Rightarrow> [(b, f_batch_id f)]),
           objectsIn = map (to_track sw sh) obs, detectionDone = f_infer_done f\<rparr>,
          fold remember_class obs classes, maps1))"

section \<open>Boxes and ids of tracked objects\<close>

text \<open>The box relative to the frame; \<open>False\<close> means that nothing of it is inside.\<close>

definition clipBBox :: "u32 \<Rightarrow> u32 \<Rightarrow> box \<Rightarrow> bool \<times> box" where
  "clipBBox frameWidth frameHeight b =
     (let (l0, t0, w0, h0) = b; W = dbl_of_u32 frameWidth; H = dbl_of_u32 frameHeight;
          (l, w) = (if l0 < 0 then (0, w0 + l0) else (l0, w0));
          (t, h) = (if t0 < 0 then (0, h0 + t0) else (t0, h0))
      in if W \<le> l \<or> H \<le> t \<or> w \<le> 0 \<or> h \<le> 0 then (False, (l, t, w, h))
         else (True, (l, t, if W < l + w then W - l else w, if H < t + h then H - t else h)))"

definition from_zero :: "TrackerConfig \<Rightarrow> bool" where
  "from_zero cfg \<longleftrightarrow> trackingIdResetMode cfg AND 2 \<noteq> 0"

definition objectIdMapping :: "TrackerConfig \<Rightarrow> u64 \<Rightarrow> u64 \<Rightarrow> stream_maps \<Rightarrow> u64 \<times> stream_maps" where
  "objectIdMapping cfg objectId ssId s =
     (let s1 = record_offset ssId objectId s
      in (if from_zero cfg
          then (objectId AND 0xffffffff00000000) +
               ucast (ucast (objectId - the (map_of (m_ObjectIdOffsetMap s1) ssId)) :: u32)
          else objectId, s1))"

section \<open>Output of the library\<close>

definition dbl_to_int :: "track_env \<Rightarrow> dbl \<Rightarrow> int" where
  "dbl_to_int env d = (case d of
      Fin r \<Rightarrow> if - (2 ^ 31) \<le> rat_trunc r \<and> rat_trunc r < 2 ^ 31 then rat_trunc r else odd_int env d
    | _ \<Rightarrow> odd_int env d)"

definition updateObjectReidMeta :: "TrackerConfig \<Rightarrow> NvMOTTrackedObj \<Rightarrow> obj_user_meta list" where
  "updateObjectReidMeta cfg t =
     (if outputReidTensor cfg \<and> 0 < reid_featureSize t \<and> reid_pointers t then [ReidMeta (reid_featureSize t)] else [])"

text \<open>\<open>None\<close>: more points than the array has room for.\<close>

definition updateObjectProjectionMeta ::
  "track_env \<Rightarrow> TrackerConfig \<Rightarrow> dbl \<Rightarrow> dbl \<Rightarrow> NvMOTTrackedObj \<Rightarrow> obj_user_meta list option" where
  "updateObjectProjectionMeta env cfg sw sh t =
     (let hulls = outputConvexHull cfg \<and> hull_allocated t \<noteq> 0
      in if hulls \<and> hull_allocated t < length (hull_points t) then None
         else Some ((if outputVisibility cfg then [VisibilityMeta (visibility t)] else []) @
           (if outputFootLocation cfg then [ImageFootMeta (fst (ptImgFeet t) * sw) (snd (ptImgFeet t) * sh),
              WorldFootMeta (fst (ptWorldFeet t)) (snd (ptWorldFeet t))] else []) @
           (if hulls then [ConvexHullMeta (map (\<lambda>(x, y). (dbl_to_int env (x * sw), dbl_to_int env (y * sh))) (hull_points t))]
            else [])))"

definition set_box :: "box \<Rightarrow> NvOSD_RectParams \<Rightarrow> NvOSD_RectParams" where
  "set_box b r = (case b of (l, t, w, h) \<Rightarrow> r\<lparr>rect_left := l, rect_top := t, rect_width := w, rect_height := h\<rparr>)"

text \<open>What is stored in an object that is tracked: the box, the unclipped box, confidence and user metadata.\<close>

definition set_tracked ::
  "track_env \<Rightarrow> TrackerConfig \<Rightarrow> dbl \<Rightarrow> dbl \<Rightarrow> NvMOTTrackedObj \<Rightarrow> box \<Rightarrow> tracked_object \<Rightarrow> tracked_object option" where
  "set_tracked env cfg sw sh t b ob =
     map_option (\<lambda>ms. ob\<lparr>rect_params := set_box b (rect_params ob), tracker_bbox := scale_box sw sh (out_bbox t),
         tracker_confidence := out_confidence t,
         obj_user_meta_list := obj_user_meta_list ob @ updateObjectReidMeta cfg t @ ms\<rparr>)
       (updateObjectProjectionMeta env cfg sw sh t)"

text \<open>An object that the detector missed: what is known of its class, and no detector box.\<close>

definition missed_object :: "track_env \<Rightarrow> (int \<Rightarrow> ClassInfo option) \<Rightarrow> NvMOTTrackedObj \<Rightarrow> tracked_object" where
  "missed_object env classes t =
     (let ob = pool_tracked env;
          ob1 = (case classes (uint (out_classId t)) of
                   None \<Rightarrow> ob
                 | Some ci \<Rightarrow> ob\<lparr>rect_params := info_rect ci,
                     text_params := (info_text ci)\<lparr>display_text := Some (displayTextString ci)\<rparr>,
                     unique_component_id := uniqueComponentId ci, meta_label := g_strlcpy (objLabel ci) MAX_LABEL_SIZE\<rparr>)
      in ob1\<lparr>org_bbox := (0, 0, 0, 0), meta_confidence := Fin (- 1 / 10), class_id := uint (out_classId t)\<rparr>)"

fun decimal :: "nat \<Rightarrow> string" where
  "decimal n = (if n < 10 then [char_of (48 + n)] else decimal (n div 10) @ [char_of (48 + n mod 10)])"

declare decimal.simps [simp del]

text \<open>
  The text with the id, in an array of 128 characters. The second call of \<open>snprintf\<close> writes behind the
  end when the first one had more than 127 characters to print.
\<close>

definition id_text :: "track_env \<Rightarrow> string option \<Rightarrow> u64 \<Rightarrow> string option" where
  "id_text env text i =
     (let shown = (case text of None \<Rightarrow> null_text env | Some t \<Rightarrow> t) @ '' ''
      in if 128 < length shown then None else Some (take 127 (shown @ decimal (unat i))))"

definition style_tracked :: "track_env \<Rightarrow> TrackerConfig \<Rightarrow> tracked_object \<Rightarrow> tracked_object option" where
  "style_tracked env cfg ob =
     (let tp = text_params ob
      in map_option (\<lambda>shown. ob\<lparr>text_params := tp\<lparr>display_text := shown,
             x_offset := dbl_to_u32 (odd_u32 env) (rect_left (rect_params ob)),
             y_offset := dbl_to_u32 (odd_u32 env) (rect_top (rect_params ob) - Fin 20), font_name := ''Serif'', font_size := 10,
             font_color := white, set_bg_clr := 1, text_bg_clr := black\<rparr>\<rparr>)
           (if displayTrackingId cfg then map_option Some (id_text env (display_text tp) (object_id ob))
            else Some (display_text tp)))"

definition put_object :: "nat \<Rightarrow> tracked_object \<Rightarrow> track_frame \<Rightarrow> track_frame" where
  "put_object a ob f = f\<lparr>f_objects := map (\<lambda>(a', ob'). (a', if a' = a then ob else ob')) (f_objects f)\<rparr>"

definition remove_object :: "nat \<Rightarrow> track_frame \<Rightarrow> track_frame" where
  "remove_object a f = f\<lparr>f_objects := filter (\<lambda>(a', ob). a' \<noteq> a) (f_objects f)\<rparr>"

definition add_object :: "tracked_object \<Rightarrow> track_frame \<Rightarrow> track_frame" where
  "add_object ob f = f\<lparr>f_objects := f_objects f @ [(next_address f, ob)], next_address := Suc (next_address f)\<rparr>"

text \<open>One tracked object; \<open>sw\<close> and \<open>sh\<close> scale to the surface of the frame, of size \<open>(W, H)\<close>.\<close>

definition update_object ::
  "track_env \<Rightarrow> TrackerConfig \<Rightarrow> (int \<Rightarrow> ClassInfo option) \<Rightarrow> u32 \<times> u32 \<Rightarrow> u64 \<Rightarrow> NvMOTTrackedObj \<Rightarrow>
   track_frame \<times> stream_maps \<Rightarrow> (track_frame \<times> stream_maps) option" where
  "update_object env cfg classes surf ss t = (\<lambda>(f, maps).
     let sw = ddiv (dbl_of_u32 (fst surf)) (dbl_of_u32 (trackerWidth cfg));
         sh = ddiv (dbl_of_u32 (snd surf)) (dbl_of_u32 (trackerHeight cfg));
         (inside, b) = clipBBox (fst surf) (snd surf) (scale_box sw sh (out_bbox t))
     in case associatedObjectIn t of
          Some a \<Rightarrow>
            (case map_of (f_objects f) a of
               None \<Rightarrow> None
             | Some ob \<Rightarrow>
                 let (i, maps1) = objectIdMapping cfg (trackingId t) ss maps; ob1 = ob\<lparr>object_id := i\<rparr>
                 in if \<not> inside then Some (remove_object a f, maps1)
                    else map_option (\<lambda>ob2. (put_object a ob2 f, maps1))
                      (Option.bind (if class_id ob \<noteq> uint (out_classId t) then Some ob1 else set_tracked env cfg sw sh t b ob1)
                         (style_tracked env cfg)))
        | None \<Rightarrow>
            if \<not> inside then Some (f, maps)
            else
              let (i, maps1) = objectIdMapping cfg (trackingId t) ss maps;
                  ob = (missed_object env classes t)\<lparr>object_id := i\<rparr>
              in map_option (\<lambda>ob2. (add_object ob2 f, maps1))
                   (Option.bind (set_tracked env cfg sw sh t b ob) (style_tracked env cfg)))"

fun update_objects ::
  "track_env \<Rightarrow> TrackerConfig \<Rightarrow> (int \<Rightarrow> ClassInfo option) \<Rightarrow> u32 \<times> u32 \<Rightarrow> u64 \<Rightarrow> NvMOTTrackedObj list \<Rightarrow>
   track_frame \<times> stream_maps \<Rightarrow> (track_frame \<times> stream_maps) option" where
  "update_objects env cfg classes surf ss [] fm = Some fm"
| "update_objects env cfg classes surf ss (t # ts) fm =
     Option.bind (update_object env cfg classes surf ss t fm) (update_objects env cfg classes surf ss ts)"

definition updateFrameMeta ::
  "track_env \<Rightarrow> TrackerConfig \<Rightarrow> (int \<Rightarrow> ClassInfo option) \<Rightarrow> NvMOTTrackedObjList \<Rightarrow> track_frame \<times> stream_maps \<Rightarrow>
   (track_frame \<times> stream_maps) option" where
  "updateFrameMeta env cfg classes out fm =
     update_objects env cfg classes (surface_size env (f_batch_id (fst fm))) (list_streamID out) (tracked_list out) fm"

definition removeUntrackedObjects :: "track_frame \<Rightarrow> track_frame" where
  "removeUntrackedObjects f = f\<lparr>f_objects := filter (\<lambda>(a, ob). object_id ob \<noteq> UNTRACKED_OBJECT_ID) (f_objects f)\<rparr>"

text \<open>The frames of a round by their streams. Output for an unknown stream is skipped.\<close>

fun update_lists ::
  "track_env \<Rightarrow> TrackerConfig \<Rightarrow> (int \<Rightarrow> ClassInfo option) \<Rightarrow> NvMOTTrackedObjList list \<Rightarrow> (u64 \<times> track_frame) list \<times> stream_maps \<Rightarrow>
   ((u64 \<times> track_frame) list \<times> stream_maps) option" where
  "update_lists env cfg classes [] fm = Some fm"
| "update_lists env cfg classes (out # outs) (fm, maps) =
     (case map_of fm (list_streamID out) of
        None \<Rightarrow> update_lists env cfg classes outs (fm, maps)
      | Some f \<Rightarrow>
          (case updateFrameMeta env cfg classes out (f, maps) of
             None \<Rightarrow> None
           | Some (f', maps') \<Rightarrow> update_lists env cfg classes outs (map_put (list_streamID out) f' fm, maps')))"

definition updateBatchMeta ::
  "track_env \<Rightarrow> TrackerConfig \<Rightarrow> (int \<Rightarrow> ClassInfo option) \<Rightarrow> NvMOTTrackedObjList list \<Rightarrow> (u64 \<times> track_frame) list \<times> stream_maps \<Rightarrow>
   ((u64 \<times> track_frame) list \<times> stream_maps) option" where
  "updateBatchMeta env cfg classes outs fm =
     map_option (\<lambda>(fm', maps'). (map (\<lambda>(ss, f). (ss, removeUntrackedObjects f)) fm', maps')) (update_lists env cfg classes outs fm)"

end
