(* ===== verification/TrackProc.thy ===== *)
theory TrackProc
  imports TrackObjects InferObjects ConvPool
begin

text \<open>
  The threads of the tracker plugin: \<open>submitInput\<close>, \<open>dispatchSubBatches\<close>, \<open>processBatch\<close>,
  \<open>processSubBatch\<close>, \<open>waitForCompletion\<close> and \<open>flushReqs\<close> of \<open>nvtracker_proc.cpp\<close>, and the streaming thread
  and the output loop of \<open>gstnvtracker.cpp\<close> (\<open>src/sources/gst-plugins/gst-nvtracker\<close>).

  Without sub-batches one thread takes the batches from a queue. With sub-batches each has a thread with a
  queue of requests, and a batch is complete when the requests for it are. A step is what a thread does
  between two critical sections with one of them. The surfaces come from the pool of \<open>ConvPool\<close>. The low-level library is a
  parameter of the steps that call it. Input tensors of the pre-processing element, the user metadata of
  a batch and the shutdown of the threads are not modelled.
\<close>

section \<open>State\<close>

text \<open>Buffers are numbered as they arrive. In the completion queue \<open>None\<close> is the marker of an event.\<close>

record ProcParams =
  p_buffer :: nat
  pConvBuf :: "nat option"
  bufSetSyncObjs :: "nat option"
  batchId :: u32

datatype DispatchReq = TrackReq ProcParams "(u64 \<times> nat) list" | RemoveReq u64

datatype proc_phase = ProcIdle | ProcHas ProcParams | ProcTracked ProcParams | ProcReturn ProcParams

datatype sub_phase = SubIdle | SubHas ProcParams "(u64 \<times> nat) list" | SubTracked ProcParams bool | SubRecover

text \<open>\<open>trials\<close> is the thread's number of recoveries in a row.\<close>

record sub_thread =
  phase :: sub_phase
  trials :: u32

datatype track_event = PadAdded u32 | PadDeleted u32 | StreamReset u32 | StreamEos u32 | OtherEvent bool

datatype after_flush = ThenEvent track_event | ThenPush nat

datatype streaming = Streaming | Flushing after_flush | WaitMarker after_flush | Signalled after_flush

datatype track_item = BufferItem nat | EmptyItem nat | EventItem track_event

record NvTrackerProc =
  maps :: stream_maps
  m_ClassInfoMap :: "int \<Rightarrow> ClassInfo option"
  m_ConvBufMgr :: ConvBufManager
  m_PendingBatch :: "(u32 \<times> nat list) list"
  m_BatchId :: u32
  m_ConvBufComplete :: "(u32 \<times> bool) list"
  m_ProcQueue :: "ProcParams list"
  reqQueues :: "DispatchReq list list"
  m_CompletionQueue :: "nat option list"
  m_TrackerLibError :: bool
  process_thread :: proc_phase
  sub_threads :: "sub_thread list"
  streaming_thread :: streaming
  batch_metas :: "nat \<Rightarrow> track_frame list option"
  next_buffer :: nat
  taken :: "nat list"
  pushed :: "track_item list"

text \<open>
  \<open>taken\<close> records the buffers with frames whose batches became pending, \<open>pushed\<close> what was handed to the next element.
  A buffer without frames never becomes a batch: the streaming thread pushes it itself, and it is an \<open>EmptyItem\<close> of
  \<open>pushed\<close> and not in \<open>taken\<close>. No code depends on the two.
\<close>

type_synonym mot_library = "NvMOTFrame list \<Rightarrow> bool \<times> bool \<times> NvMOTTrackedObjList list"

text \<open>
  The labels carry what comes from outside: the frames of a buffer and the outcomes of its conversion, the
  library (does it succeed, does retrieving the other data succeed, the tracked objects), its answers
  when streams are removed or a context is made again. \<open>SpuriousWakeup\<close>: \<open>g_cond_wait\<close> may return without a signal.
\<close>

datatype track_label =
  Submit "track_frame list" conv_libs | Event track_event | FlushTest | HandleSignal "u64 \<Rightarrow> bool" | OutputPop
| SpuriousWakeup | ProcPop | ProcTrack mot_library | ProcComplete | ProcReturnBuffer
| SubPop nat bool | SubTrack nat mot_library | SubComplete nat | SubReinit nat bool

section \<open>Dispatching a batch to the sub-batches\<close>

text \<open>The streams of a round go to the lists of their sub-batches; a new stream is assigned first.\<close>

fun split_round ::
  "TrackerConfig \<Rightarrow> (nat \<Rightarrow> u32) \<Rightarrow> (u64 \<times> nat) list \<Rightarrow> stream_maps \<Rightarrow> (u64 \<times> nat) list list \<Rightarrow>
   (bool \<times> stream_maps \<times> (u64 \<times> nat) list list) option" where
  "split_round cfg pad_of [] mp ls = Some (True, mp, ls)"
| "split_round cfg pad_of ((ss, i) # r) mp ls =
     (case (if map_of (m_SsidSubBatchMap mp) ss = None then mapStreamToSubBatch cfg ss (pad_of i) mp else (True, mp)) of
        (False, mp1) \<Rightarrow> Some (False, mp1, ls)
      | (True, mp1) \<Rightarrow>
          let sb = the (map_of (m_SsidSubBatchMap mp1) ss)
          in if length ls \<le> sb then None
             else split_round cfg pad_of r mp1 (ls[sb := map_put ss i (ls ! sb)]))"

text \<open>One request for each sub-batch with frames; the sub-batch is noted in the pending batch.\<close>

fun push_requests :: "ProcParams \<Rightarrow> nat \<Rightarrow> (u64 \<times> nat) list list \<Rightarrow> NvTrackerProc \<Rightarrow> NvTrackerProc" where
  "push_requests p sb [] s = s"
| "push_requests p sb (l # ls) s =
     push_requests p (Suc sb) ls
       (if l = [] then s
        else s\<lparr>m_PendingBatch := map_put (batchId p) (the (map_of (m_PendingBatch s) (batchId p)) @ [sb]) (m_PendingBatch s),
               reqQueues := (reqQueues s)[sb := reqQueues s ! sb @ [TrackReq p l]]\<rparr>)"

fun dispatch_rounds ::
  "TrackerConfig \<Rightarrow> (nat \<Rightarrow> u32) \<Rightarrow> ProcParams \<Rightarrow> (u64 \<times> nat) list list \<Rightarrow> NvTrackerProc \<Rightarrow> (bool \<times> NvTrackerProc) option" where
  "dispatch_rounds cfg pad_of p [] s = Some (True, s)"
| "dispatch_rounds cfg pad_of p (r # rs) s =
     (case split_round cfg pad_of r (maps s) (replicate (length (subBatchSizes cfg)) []) of
        None \<Rightarrow> None
      | Some (False, mp, ls) \<Rightarrow> Some (False, s\<lparr>maps := mp\<rparr>)
      | Some (True, mp, ls) \<Rightarrow> dispatch_rounds cfg pad_of p rs (push_requests p 0 ls (s\<lparr>maps := mp\<rparr>)))"

definition note_batch :: "ProcParams \<Rightarrow> NvTrackerProc \<Rightarrow> NvTrackerProc" where
  "note_batch p s = s\<lparr>m_PendingBatch := map_put (batchId p) [] (m_PendingBatch s), taken := taken s @ [p_buffer p]\<rparr>"

definition dispatchSubBatches ::
  "TrackerConfig \<Rightarrow> track_frame list \<Rightarrow> ProcParams \<Rightarrow> NvTrackerProc \<Rightarrow> (bool \<times> NvTrackerProc) option" where
  "dispatchSubBatches cfg fs p s =
     (if map_of (m_PendingBatch s) (batchId p) \<noteq> None then Some (False, s)
      else
        case dispatch_rounds cfg (\<lambda>i. f_pad_index (fs ! i)) p (queueFrames cfg fs)
               (note_batch p (s\<lparr>m_ConvBufComplete := map_put (batchId p) False (m_ConvBufComplete s)\<rparr>)) of
          None \<Rightarrow> None
        | Some (False, s1) \<Rightarrow> Some (False, s1)
        | Some (True, s1) \<Rightarrow> Some (True, s1\<lparr>m_BatchId := m_BatchId s1 + 1\<rparr>))"

section \<open>Submitting a batch\<close>

definition queue_whole_batch :: "ProcParams \<Rightarrow> NvTrackerProc \<Rightarrow> bool \<times> NvTrackerProc" where
  "queue_whole_batch p s =
     (if map_of (m_PendingBatch s) (batchId p) \<noteq> None then (False, s)
      else (True, (note_batch p s)\<lparr>m_BatchId := m_BatchId s + 1, m_ProcQueue := m_ProcQueue s @ [p]\<rparr>))"

text \<open>
  A surface for the conversion is waited for. The branch for tensors of the pre-processing element is left out:
  \<open>submit_input_buffer\<close> does not get here with them.
\<close>

definition submitInput ::
  "TrackerConfig \<Rightarrow> nat \<Rightarrow> track_frame list \<Rightarrow> conv_libs \<Rightarrow> NvTrackerProc \<Rightarrow> (bool \<times> NvTrackerProc) step_result" where
  "submitInput cfg b fs L s =
     (if m_TrackerLibError s then Next (False, s)
      else if numTransforms cfg \<noteq> 0 \<and> isQueueEmpty (m_ConvBufMgr s) then Blocked
      else
        case (if numTransforms cfg = 0 then Some (None, None, m_ConvBufMgr s) else convertBatchAsync L b (m_ConvBufMgr s)) of
          None \<Rightarrow> Undefined
        | Some (surf, sync, m) \<Rightarrow>
            let s1 = s\<lparr>m_ConvBufMgr := m\<rparr>;
                p = \<lparr>p_buffer = b, pConvBuf = surf, bufSetSyncObjs = sync, batchId = m_BatchId s\<rparr>
            in if numTransforms cfg \<noteq> 0 \<and> surf = None then Next (False, s1)
               else if subBatchSizes cfg = [] then Next (queue_whole_batch p s1)
               else (case dispatchSubBatches cfg fs p s1 of None \<Rightarrow> Undefined | Some r \<Rightarrow> Next r))"

text \<open>
  The element: an empty batch waits for the pending ones, a batch that is too large or cannot be submitted is
  an error and given up. The memory of the input is of the right kind.
\<close>

definition submit_input_buffer ::
  "TrackerConfig \<Rightarrow> track_frame list \<Rightarrow> conv_libs \<Rightarrow> NvTrackerProc \<Rightarrow> NvTrackerProc step_result" where
  "submit_input_buffer cfg fs L s0 =
     (let b = next_buffer s0; s = s0\<lparr>next_buffer := Suc b\<rparr>
      in if streaming_thread s \<noteq> Streaming \<or> inputTensorMeta cfg then Blocked
         else if fs = [] then Next (s\<lparr>streaming_thread := Flushing (ThenPush b)\<rparr>)
         else if unat (batchSize cfg) < length fs then Next s
         else (case submitInput cfg b fs L (s\<lparr>batch_metas := (batch_metas s)(b \<mapsto> fs)\<rparr>) of
                 Blocked \<Rightarrow> Blocked | Undefined \<Rightarrow> Undefined | Next (ok, s1) \<Rightarrow> Next s1))"

section \<open>Events\<close>

fun flushed_event :: "track_event \<Rightarrow> bool" where
  "flushed_event (OtherEvent serialized) = serialized"
| "flushed_event ev = True"

definition push_removals :: "(nat \<times> u64) list \<Rightarrow> NvTrackerProc \<Rightarrow> NvTrackerProc" where
  "push_removals reqs s = s\<lparr>reqQueues := fold (\<lambda>(sb, ss) qs. qs[sb := qs ! sb @ [RemoveReq ss]]) reqs (reqQueues s)\<rparr>"

text \<open>
  Removing a source without sub-batches sets the error of the library when it refuses. The result is
  \<open>False\<close> when the event is not handled.
\<close>

definition handle_removal :: "TrackerConfig \<Rightarrow> (u64 \<Rightarrow> bool) \<Rightarrow> u32 \<Rightarrow> bool \<Rightarrow> NvTrackerProc \<Rightarrow> bool \<times> NvTrackerProc" where
  "handle_removal cfg removed src forget s =
     (case removeSource cfg removed src forget (maps s) of
        (ok, reqs, mp) \<Rightarrow> (ok, push_removals reqs (s\<lparr>maps := mp,
          m_TrackerLibError := (m_TrackerLibError s \<or> subBatchSizes cfg = [] \<and> \<not> ok)\<rparr>)))"

definition handle_event :: "TrackerConfig \<Rightarrow> (u64 \<Rightarrow> bool) \<Rightarrow> track_event \<Rightarrow> NvTrackerProc \<Rightarrow> bool \<times> NvTrackerProc" where
  "handle_event cfg removed ev s =
     (case ev of
        PadDeleted src \<Rightarrow> handle_removal cfg removed src True s
      | StreamReset src \<Rightarrow>
          if trackingIdResetMode cfg AND 1 \<noteq> 0 then handle_removal cfg removed src False s else (True, s)
      | StreamEos src \<Rightarrow> if from_zero cfg then handle_removal cfg removed src True s else (True, s)
      | _ \<Rightarrow> (True, s))"

definition sink_event :: "TrackerConfig \<Rightarrow> track_event \<Rightarrow> NvTrackerProc \<Rightarrow> NvTrackerProc step_result" where
  "sink_event cfg ev s =
     (if streaming_thread s \<noteq> Streaming then Blocked
      else if flushed_event ev then Next (s\<lparr>streaming_thread := Flushing (ThenEvent ev)\<rparr>)
      else Next s)"

text \<open>
  \<open>flushReqs\<close> looks at the pending batches again and again; a look that finds one changes nothing and is not a step
  (\<open>Blocked\<close>). When there is none the marker goes to the output thread, and the streaming thread waits for its
  signal. It waits once, without a condition of its own, so a spurious wakeup lets it go on.
\<close>

definition flush_test :: "NvTrackerProc \<Rightarrow> NvTrackerProc step_result" where
  "flush_test s =
     (case streaming_thread s of
        Flushing a \<Rightarrow>
          if m_PendingBatch s = [] then Next (s\<lparr>m_CompletionQueue := m_CompletionQueue s @ [None], streaming_thread := WaitMarker a\<rparr>)
          else Blocked
      | _ \<Rightarrow> Blocked)"

definition spurious_wakeup :: "NvTrackerProc \<Rightarrow> NvTrackerProc step_result" where
  "spurious_wakeup s =
     (case streaming_thread s of WaitMarker a \<Rightarrow> Next (s\<lparr>streaming_thread := Signalled a\<rparr>) | _ \<Rightarrow> Blocked)"

definition handle_signal :: "TrackerConfig \<Rightarrow> (u64 \<Rightarrow> bool) \<Rightarrow> NvTrackerProc \<Rightarrow> NvTrackerProc step_result" where
  "handle_signal cfg removed s =
     (case streaming_thread s of
        Signalled (ThenPush b) \<Rightarrow> Next (s\<lparr>streaming_thread := Streaming, pushed := pushed s @ [EmptyItem b]\<rparr>)
      | Signalled (ThenEvent ev) \<Rightarrow>
          (case handle_event cfg removed ev (s\<lparr>streaming_thread := Streaming\<rparr>) of
             (ok, s1) \<Rightarrow> Next (if ok then s1\<lparr>pushed := pushed s1 @ [EventItem ev]\<rparr> else s1))
      | _ \<Rightarrow> Blocked)"

section \<open>The output thread\<close>

text \<open>
  The metadata goes with the buffer. For a marker the thread signals with the lock of the events, which the streaming
  thread holds while it flushes and gives up in its wait: the marker is done with, in one step, when the lock is free.
  A signal nobody waits for is lost.
\<close>

definition output_pop :: "NvTrackerProc \<Rightarrow> NvTrackerProc step_result" where
  "output_pop s =
     (case m_CompletionQueue s of
        [] \<Rightarrow> Blocked
      | None # q \<Rightarrow>
          (case streaming_thread s of
             Flushing a \<Rightarrow> Blocked
           | WaitMarker a \<Rightarrow> Next (s\<lparr>m_CompletionQueue := q, streaming_thread := Signalled a\<rparr>)
           | _ \<Rightarrow> Next (s\<lparr>m_CompletionQueue := q\<rparr>))
      | Some b # q \<Rightarrow>
          Next (s\<lparr>m_CompletionQueue := q, pushed := pushed s @ [BufferItem b], batch_metas := (batch_metas s)(b := None)\<rparr>))"

section \<open>Tracking a round\<close>

fun fetch_frames :: "track_frame list \<Rightarrow> (u64 \<times> nat) list \<Rightarrow> (u64 \<times> track_frame) list option" where
  "fetch_frames fs [] = Some []"
| "fetch_frames fs ((ss, i) # r) =
     (if length fs \<le> i then None else map_option (Cons (ss, fs ! i)) (fetch_frames fs r))"

fun fill_frames ::
  "track_env \<Rightarrow> TrackerConfig \<Rightarrow> nat option \<Rightarrow> (u64 \<times> track_frame) list \<Rightarrow> (int \<Rightarrow> ClassInfo option) \<Rightarrow> stream_maps \<Rightarrow>
   NvMOTFrame list \<times> (int \<Rightarrow> ClassInfo option) \<times> stream_maps" where
  "fill_frames env cfg conv [] classes mp = ([], classes, mp)"
| "fill_frames env cfg conv ((ss, f) # r) classes mp =
     (case fillMOTFrame env cfg ss conv f classes mp of
        (m, classes1, mp1) \<Rightarrow>
          (case fill_frames env cfg conv r classes1 mp1 of (ms, classes2, mp2) \<Rightarrow> (m # ms, classes2, mp2)))"

fun store_frames :: "(u64 \<times> nat) list \<Rightarrow> (u64 \<times> track_frame) list \<Rightarrow> track_frame list \<Rightarrow> track_frame list" where
  "store_frames ((ss, i) # r) ((ss', f) # fm) fs = store_frames r fm (fs[i := f])"
| "store_frames _ _ fs = fs"

text \<open>
  The library is called with the frames of the round. \<open>always\<close>: without sub-batches its output is used even
  when it fails. The result says whether the two calls succeeded. \<open>None\<close>: metadata that is not there.
\<close>

definition track_round ::
  "track_env \<Rightarrow> TrackerConfig \<Rightarrow> mot_library \<Rightarrow> bool \<Rightarrow> ProcParams \<Rightarrow> (u64 \<times> nat) list \<Rightarrow> NvTrackerProc \<Rightarrow>
   (bool \<times> bool \<times> NvTrackerProc) option" where
  "track_round env cfg lib always p r s =
     (case batch_metas s (p_buffer p) of
        None \<Rightarrow> None
      | Some fs \<Rightarrow>
          (case fetch_frames fs r of
             None \<Rightarrow> None
           | Some fm \<Rightarrow>
               (case fill_frames env cfg (pConvBuf p) fm (m_ClassInfoMap s) (maps s) of
                  (mots, classes, mp) \<Rightarrow>
                    (case lib mots of
                       (ok, misc_ok, outs) \<Rightarrow>
                         let s1 = s\<lparr>m_ClassInfoMap := classes, maps := mp\<rparr>
                         in if \<not> ok \<and> \<not> always then Some (ok, misc_ok, s1)
                            else map_option (\<lambda>(fm', mp').
                                (ok, misc_ok, s1\<lparr>maps := mp', batch_metas := (batch_metas s)(p_buffer p \<mapsto> store_frames r fm' fs)\<rparr>))
                              (updateBatchMeta env cfg classes outs (fm, mp))))))"

section \<open>The thread without sub-batches\<close>

fun track_rounds ::
  "track_env \<Rightarrow> TrackerConfig \<Rightarrow> mot_library \<Rightarrow> ProcParams \<Rightarrow> (u64 \<times> nat) list list \<Rightarrow> NvTrackerProc \<Rightarrow> NvTrackerProc option" where
  "track_rounds env cfg lib p [] s = Some s"
| "track_rounds env cfg lib p (r # rs) s =
     (case track_round env cfg lib True p r s of
        None \<Rightarrow> None
      | Some (ok, misc_ok, s1) \<Rightarrow>
          track_rounds env cfg lib p rs (s1\<lparr>m_TrackerLibError := (m_TrackerLibError s1 \<or> \<not> ok \<or> \<not> misc_ok)\<rparr>))"

definition proc_pop :: "NvTrackerProc \<Rightarrow> NvTrackerProc step_result" where
  "proc_pop s =
     (case (process_thread s, m_ProcQueue s) of
        (ProcIdle, p # q) \<Rightarrow> Next (s\<lparr>m_ProcQueue := q, process_thread := ProcHas p\<rparr>)
      | _ \<Rightarrow> Blocked)"

text \<open>After tracking, the batch is no longer pending.\<close>

definition proc_track :: "track_env \<Rightarrow> TrackerConfig \<Rightarrow> mot_library \<Rightarrow> NvTrackerProc \<Rightarrow> NvTrackerProc step_result" where
  "proc_track env cfg lib s =
     (case process_thread s of
        ProcHas p \<Rightarrow>
          (case (if m_TrackerLibError s then Some s
                 else case batch_metas s (p_buffer p) of
                        None \<Rightarrow> None
                      | Some fs \<Rightarrow> track_rounds env cfg lib p (queueFrames cfg fs) s) of
             None \<Rightarrow> Undefined
           | Some s1 \<Rightarrow>
               Next ((if map_of (m_PendingBatch s1) (batchId p) \<noteq> None
                      then s1\<lparr>m_PendingBatch := AList.delete (batchId p) (m_PendingBatch s1)\<rparr>
                      else s1\<lparr>m_TrackerLibError := True\<rparr>)\<lparr>process_thread := ProcTracked p\<rparr>))
      | _ \<Rightarrow> Blocked)"

definition proc_complete :: "NvTrackerProc \<Rightarrow> NvTrackerProc step_result" where
  "proc_complete s =
     (case process_thread s of
        ProcTracked p \<Rightarrow>
          Next (s\<lparr>m_CompletionQueue := m_CompletionQueue s @ [Some (p_buffer p)], process_thread := ProcReturn p\<rparr>)
      | _ \<Rightarrow> Blocked)"

definition proc_return :: "NvTrackerProc \<Rightarrow> NvTrackerProc step_result" where
  "proc_return s =
     (case process_thread s of
        ProcReturn p \<Rightarrow> Next (s\<lparr>m_ConvBufMgr := returnBuffer (pConvBuf p) (m_ConvBufMgr s), process_thread := ProcIdle\<rparr>)
      | _ \<Rightarrow> Blocked)"

section \<open>The threads of the sub-batches\<close>

definition set_phase :: "nat \<Rightarrow> sub_phase \<Rightarrow> NvTrackerProc \<Rightarrow> NvTrackerProc" where
  "set_phase sb ph s = s\<lparr>sub_threads := (sub_threads s)[sb := (sub_threads s ! sb)\<lparr>phase := ph\<rparr>]\<rparr>"

definition set_trials :: "nat \<Rightarrow> u32 \<Rightarrow> NvTrackerProc \<Rightarrow> NvTrackerProc" where
  "set_trials sb n s = s\<lparr>sub_threads := (sub_threads s)[sb := (sub_threads s ! sb)\<lparr>trials := n\<rparr>]\<rparr>"

definition sub_pop :: "nat \<Rightarrow> bool \<Rightarrow> NvTrackerProc \<Rightarrow> NvTrackerProc step_result" where
  "sub_pop sb removed s =
     (if length (sub_threads s) \<le> sb then Blocked
      else case (phase (sub_threads s ! sb), reqQueues s ! sb) of
             (SubIdle, req # q) \<Rightarrow>
               let s1 = s\<lparr>reqQueues := (reqQueues s)[sb := q]\<rparr>
               in Next (case req of
                          RemoveReq ss \<Rightarrow> s1\<lparr>m_TrackerLibError := (m_TrackerLibError s1 \<or> \<not> removed)\<rparr>
                        | TrackReq p r \<Rightarrow> set_phase sb (SubHas p r) s1)
           | _ \<Rightarrow> Blocked)"

text \<open>The first thread of a batch waits for the conversion; a batch that is not known sets the error.\<close>

definition sync_conversion :: "ProcParams \<Rightarrow> NvTrackerProc \<Rightarrow> NvTrackerProc" where
  "sync_conversion p s =
     (case map_of (m_ConvBufComplete s) (batchId p) of
        None \<Rightarrow> s\<lparr>m_TrackerLibError := True\<rparr>
      | Some _ \<Rightarrow> s\<lparr>m_ConvBufComplete := map_put (batchId p) True (m_ConvBufComplete s)\<rparr>)"

definition sub_track :: "track_env \<Rightarrow> TrackerConfig \<Rightarrow> nat \<Rightarrow> mot_library \<Rightarrow> NvTrackerProc \<Rightarrow> NvTrackerProc step_result" where
  "sub_track env cfg sb lib s =
     (if length (sub_threads s) \<le> sb then Blocked
      else case phase (sub_threads s ! sb) of
             SubHas p r \<Rightarrow>
               if m_TrackerLibError s then Next (set_phase sb (SubTracked p False) s)
               else (case track_round env cfg lib False p r (sync_conversion p s) of
                       None \<Rightarrow> Undefined
                     | Some (ok, misc_ok, s1) \<Rightarrow>
                         Next (set_phase sb (SubTracked p (\<not> ok))
                           (if \<not> ok then s1
                            else (set_trials sb 0 s1)\<lparr>m_TrackerLibError := (m_TrackerLibError s1 \<or> \<not> misc_ok)\<rparr>)))
           | _ \<Rightarrow> Blocked)"

text \<open>The request is done; with the last one the batch is complete. All of it holds the lock of the pending batches.\<close>

definition complete_request :: "nat \<Rightarrow> ProcParams \<Rightarrow> NvTrackerProc \<Rightarrow> NvTrackerProc" where
  "complete_request sb p s =
     (case map_of (m_PendingBatch s) (batchId p) of
        None \<Rightarrow> s\<lparr>m_TrackerLibError := True\<rparr>
      | Some sbs \<Rightarrow>
          if sb \<notin> set sbs then s\<lparr>m_TrackerLibError := True\<rparr>
          else if remove1 sb sbs \<noteq> [] then s\<lparr>m_PendingBatch := map_put (batchId p) (remove1 sb sbs) (m_PendingBatch s)\<rparr>
          else s\<lparr>m_ConvBufMgr := returnBuffer (pConvBuf p) (m_ConvBufMgr s),
                 m_PendingBatch := AList.delete (batchId p) (m_PendingBatch s),
                 m_ConvBufComplete := AList.delete (batchId p) (m_ConvBufComplete s),
                 m_CompletionQueue := m_CompletionQueue s @ [Some (p_buffer p)]\<rparr>)"

definition may_recover :: "TrackerConfig \<Rightarrow> u32 \<Rightarrow> bool" where
  "may_recover cfg n \<longleftrightarrow> subBatchErrRecoveryTrialCnt cfg = - 1 \<or> sint n < sint (subBatchErrRecoveryTrialCnt cfg)"

definition sub_complete :: "TrackerConfig \<Rightarrow> nat \<Rightarrow> NvTrackerProc \<Rightarrow> NvTrackerProc step_result" where
  "sub_complete cfg sb s =
     (if length (sub_threads s) \<le> sb then Blocked
      else case phase (sub_threads s ! sb) of
             SubTracked p err \<Rightarrow>
               let s1 = complete_request sb p s
               in Next (if \<not> err then set_phase sb SubIdle s1
                        else if may_recover cfg (trials (sub_threads s ! sb)) then set_phase sb SubRecover s1
                        else set_phase sb SubIdle (s1\<lparr>m_TrackerLibError := True\<rparr>))
           | _ \<Rightarrow> Blocked)"

definition sub_reinit :: "nat \<Rightarrow> bool \<Rightarrow> NvTrackerProc \<Rightarrow> NvTrackerProc step_result" where
  "sub_reinit sb ok s =
     (if length (sub_threads s) \<le> sb then Blocked
      else case phase (sub_threads s ! sb) of
             SubRecover \<Rightarrow>
               Next (set_phase sb SubIdle (set_trials sb (trials (sub_threads s ! sb) + 1)
                 (s\<lparr>m_TrackerLibError := (m_TrackerLibError s \<or> \<not> ok)\<rparr>)))
           | _ \<Rightarrow> Blocked)"

section \<open>The plugin\<close>

definition tracker_step :: "track_env \<Rightarrow> TrackerConfig \<Rightarrow> track_label \<Rightarrow> NvTrackerProc \<Rightarrow> NvTrackerProc step_result" where
  "tracker_step env cfg l s =
     (case l of
        Submit fs L \<Rightarrow> submit_input_buffer cfg fs L s
      | Event ev \<Rightarrow> sink_event cfg ev s
      | FlushTest \<Rightarrow> flush_test s
      | HandleSignal removed \<Rightarrow> handle_signal cfg removed s
      | SpuriousWakeup \<Rightarrow> spurious_wakeup s
      | OutputPop \<Rightarrow> output_pop s
      | ProcPop \<Rightarrow> proc_pop s
      | ProcTrack lib \<Rightarrow> proc_track env cfg lib s
      | ProcComplete \<Rightarrow> proc_complete s
      | ProcReturnBuffer \<Rightarrow> proc_return s
      | SubPop sb removed \<Rightarrow> sub_pop sb removed s
      | SubTrack sb lib \<Rightarrow> sub_track env cfg sb lib s
      | SubComplete sb \<Rightarrow> sub_complete cfg sb s
      | SubReinit sb ok \<Rightarrow> sub_reinit sb ok s)"

definition start_tracker :: "TrackerConfig \<Rightarrow> stream_maps \<Rightarrow> ConvBufManager \<Rightarrow> NvTrackerProc" where
  "start_tracker cfg mp m =
     \<lparr>maps = mp, m_ClassInfoMap = (\<lambda>_. None), m_ConvBufMgr = m, m_PendingBatch = [], m_BatchId = 0, m_ConvBufComplete = [],
      m_ProcQueue = [], reqQueues = replicate (length (subBatchSizes cfg)) [], m_CompletionQueue = [], m_TrackerLibError = False,
      process_thread = ProcIdle,
      sub_threads = replicate (length (subBatchSizes cfg)) \<lparr>phase = SubIdle, trials = 0\<rparr>,
      streaming_thread = Streaming, batch_metas = (\<lambda>_. None), next_buffer = 0, taken = [], pushed = []\<rparr>"

inductive tracker_reachable ::
  "track_env \<Rightarrow> TrackerConfig \<Rightarrow> (track_label \<Rightarrow> bool) \<Rightarrow> NvTrackerProc \<Rightarrow> NvTrackerProc \<Rightarrow> bool"
  for env cfg permitted s0 where
  initially: "tracker_reachable env cfg permitted s0 s0"
| moves: "tracker_reachable env cfg permitted s0 s \<Longrightarrow> permitted l \<Longrightarrow> tracker_step env cfg l s = Next s' \<Longrightarrow>
     tracker_reachable env cfg permitted s0 s'"

text \<open>A run given by its labels.\<close>

fun tracker_run :: "track_env \<Rightarrow> TrackerConfig \<Rightarrow> track_label list \<Rightarrow> NvTrackerProc \<Rightarrow> NvTrackerProc step_result" where
  "tracker_run env cfg [] s = Next s"
| "tracker_run env cfg (l # ls) s =
     (case tracker_step env cfg l s of Next s' \<Rightarrow> tracker_run env cfg ls s' | r \<Rightarrow> r)"

end
