(* ===== verification/TrackSlotsProps.thy ===== *)
theory TrackSlotsProps
  imports TrackSlots
begin

text \<open>
  Streams never share a place in a sub-batch, a new stream goes to the least loaded sub-batch that has
  room, and what happens to the place of a stream that never had an object.
\<close>

section \<open>Packing of stream numbers\<close>

lemma bit_ucast_u32: "bit (ucast (w :: u32) :: u64) i \<longleftrightarrow> bit w i"
  using bit_imp_le_length[of w i] by (auto simp: bit_ucast_iff)

lemma bit_getSurfaceStreamId:
  "bit (getSurfaceStreamId a b) i \<longleftrightarrow> i < 64 \<and> (if 32 \<le> i then bit a (i - 32) else bit b i)"
proof -
  have "\<not> bit b i" if "32 \<le> i" using that bit_imp_le_length[of b i] by auto
  then show ?thesis by (auto simp: getSurfaceStreamId_def bit_or_iff bit_push_bit_iff bit_ucast_u32)
qed

lemma stream_id_inverse [simp]:
  "getStreamId (getSurfaceStreamId a b) = a" "getSurfaceId (getSurfaceStreamId a b) = b"
   apply (rule bit_word_eqI)
   apply (simp add: getStreamId_def bit_ucast_iff bit_drop_bit_eq bit_getSurfaceStreamId)
  apply (rule bit_word_eqI)
  apply (simp add: getSurfaceId_def bit_ucast_iff bit_getSurfaceStreamId)
  done

lemma stream_id_split: "getSurfaceStreamId (getStreamId s) (getSurfaceId s) = s"
  by (rule bit_word_eqI)
    (auto simp: bit_getSurfaceStreamId getStreamId_def getSurfaceId_def bit_ucast_iff bit_drop_bit_eq)

section \<open>Searching for a sub-batch\<close>

definition slots_at :: "(nat \<times> slots) list \<Rightarrow> nat \<Rightarrow> slots" where
  "slots_at a sb = (case map_of a sb of None \<Rightarrow> [] | Some sl \<Rightarrow> sl)"

text \<open>Entries made on the way are empty.\<close>

definition only_touched :: "nat \<Rightarrow> (nat \<times> slots) list \<Rightarrow> (nat \<times> slots) list \<Rightarrow> bool" where
  "only_touched n a a' \<longleftrightarrow> (map_wf a \<longrightarrow> map_wf a') \<and> slots_at a' = slots_at a \<and>
     (\<forall>sb. map_of a' sb \<noteq> None \<longrightarrow> sb < n \<or> map_of a sb \<noteq> None)"

lemma only_touched_refl [simp]: "only_touched n a a"
  by (simp add: only_touched_def)

lemma only_touched_trans: "only_touched n a b \<Longrightarrow> only_touched n b c \<Longrightarrow> only_touched n a c"
  unfolding only_touched_def by metis

lemma only_touched_touch: "sb < n \<Longrightarrow> only_touched n a (map_touch sb [] a)"
  by (auto simp: only_touched_def map_of_map_touch slots_at_def fun_eq_iff split: option.splits)

definition has_room :: "u32 list \<Rightarrow> nat \<Rightarrow> (nat \<times> slots) list \<Rightarrow> nat \<Rightarrow> bool" where
  "has_room sizes cnt a sb \<longleftrightarrow> length (slots_at a sb) < cnt \<and> length (slots_at a sb) < unat (sizes ! sb)"

lemma has_room_touched: "only_touched n a a' \<Longrightarrow> has_room sizes cnt a' = has_room sizes cnt a"
  by (simp add: only_touched_def has_room_def fun_eq_iff)

lemma scan_sub_batches_find:
  assumes "\<forall>sb\<in>set sbs. sb < n"
  shows "snd (scan_sub_batches sizes cnt sbs a) = find (has_room sizes cnt a) sbs \<and>
    only_touched n a (fst (scan_sub_batches sizes cnt sbs a)) \<and>
    (\<forall>sb. snd (scan_sub_batches sizes cnt sbs a) = Some sb \<longrightarrow>
       map_of (fst (scan_sub_batches sizes cnt sbs a)) sb = Some (slots_at a sb))"
  using assms
proof (induction sbs arbitrary: a)
  case (Cons sb sbs)
  let ?a = "map_touch sb [] a"
  have t: "only_touched n a ?a" using Cons.prems only_touched_touch by simp
  have at: "map_of ?a sb = Some (slots_at a sb)"
    by (simp add: map_of_map_touch slots_at_def split: option.split)
  have same: "slots_at ?a = slots_at a" "has_room sizes cnt ?a = has_room sizes cnt a"
    using t has_room_touched[OF t] by (simp_all add: only_touched_def)
  show ?case
  proof (cases "has_room sizes cnt a sb")
    case True
    then show ?thesis using t at by (simp add: has_room_def Let_def)
  next
    case False
    then have "scan_sub_batches sizes cnt (sb # sbs) a = scan_sub_batches sizes cnt sbs ?a"
      using at by (auto simp: has_room_def Let_def)
    with Cons.IH[of ?a] Cons.prems False same t only_touched_trans show ?thesis by simp
  qed
qed simp

fun pick :: "u32 list \<Rightarrow> nat list \<Rightarrow> (nat \<times> slots) list \<Rightarrow> nat option" where
  "pick sizes [] a = None"
| "pick sizes (cnt # cnts) a =
     (case find (has_room sizes cnt a) [0..<length sizes] of Some sb \<Rightarrow> Some sb | None \<Rightarrow> pick sizes cnts a)"

lemma pick_touched: "only_touched n a a' \<Longrightarrow> pick sizes cnts a' = pick sizes cnts a"
  by (induction cnts) (simp_all add: has_room_touched cong: option.case_cong)

lemma scan_loads_pick:
  "snd (scan_loads sizes cnts a) = pick sizes cnts a \<and> only_touched (length sizes) a (fst (scan_loads sizes cnts a)) \<and>
   (\<forall>sb. snd (scan_loads sizes cnts a) = Some sb \<longrightarrow>
      map_of (fst (scan_loads sizes cnts a)) sb = Some (slots_at a sb))"
proof (induction cnts arbitrary: a)
  case (Cons cnt cnts)
  let ?n = "length sizes"
  obtain a1 r where s: "scan_sub_batches sizes cnt [0..<?n] a = (a1, r)" by fastforce
  then have f: "r = find (has_room sizes cnt a) [0..<?n]" "only_touched ?n a a1"
    "\<forall>sb. r = Some sb \<longrightarrow> map_of a1 sb = Some (slots_at a sb)"
    using scan_sub_batches_find[of "[0..<?n]" ?n sizes cnt a] by auto
  show ?case
  proof (cases r)
    case None
    have same: "slots_at a1 = slots_at a" using f(2) by (simp add: only_touched_def)
    have unf: "scan_loads sizes (cnt # cnts) a = scan_loads sizes cnts a1" using s None by simp
    show ?thesis using Cons.IH[of a1] f(1) None only_touched_trans[OF f(2)] unfolding unf
      by (simp add: pick_touched[OF f(2)] same)
  next
    case (Some sb)
    then show ?thesis using s f by simp
  qed
qed simp

text \<open>With the numbers \<open>1\<close> to \<open>M\<close> tried in turn, a least loaded sub-batch with room is found, the first of them.\<close>

lemma pick_least:
  assumes "\<forall>sb<length sizes. unat (sizes ! sb) \<le> M" "\<forall>c. 0 < c \<and> c < c0 \<longrightarrow> (\<forall>sb<length sizes. \<not> has_room sizes c a sb)" "0 < c0"
  shows "case pick sizes [c0..<Suc M] a of
      None \<Rightarrow> \<forall>sb<length sizes. unat (sizes ! sb) \<le> length (slots_at a sb)
    | Some sb \<Rightarrow> sb < length sizes \<and> length (slots_at a sb) < unat (sizes ! sb) \<and>
        (\<forall>b<length sizes. length (slots_at a b) < unat (sizes ! b) \<longrightarrow>
           length (slots_at a sb) \<le> length (slots_at a b) \<and> (b < sb \<longrightarrow> length (slots_at a sb) < length (slots_at a b)))"
  using assms(2,3)
proof (induction "Suc M - c0" arbitrary: c0)
  case 0
  have "unat (sizes ! sb) \<le> length (slots_at a sb)" if sb: "sb < length sizes" for sb
  proof (rule ccontr)
    assume "\<not> ?thesis"
    then have l: "length (slots_at a sb) < unat (sizes ! sb)" by simp
    moreover have "unat (sizes ! sb) \<le> M" using assms(1) sb by blast
    ultimately have "Suc (length (slots_at a sb)) < c0" using 0(1) by linarith
    with 0(2) sb have "\<not> has_room sizes (Suc (length (slots_at a sb))) a sb" by blast
    with l show False by (simp add: has_room_def)
  qed
  with 0(1) show ?case by simp
next
  case (Suc k)
  then have c: "[c0..<Suc M] = c0 # [Suc c0..<Suc M]" by (subst upt_conv_Cons) (auto simp del: upt_Suc)
  show ?case
  proof (cases "find (has_room sizes c0 a) [0..<length sizes]")
    case None
    then have "\<forall>sb<length sizes. \<not> has_room sizes c0 a sb" by (auto simp: find_None_iff)
    with Suc(3) have "\<forall>c. 0 < c \<and> c < Suc c0 \<longrightarrow> (\<forall>sb<length sizes. \<not> has_room sizes c a sb)" by (auto simp: less_Suc_eq)
    from Suc(1)[OF _ this] Suc(2) None show ?thesis unfolding c by (simp del: upt_Suc)
  next
    case (Some sb)
    then obtain i where i: "i < length sizes" "sb = i" "has_room sizes c0 a sb" "\<forall>j<i. \<not> has_room sizes c0 a j"
      by (auto simp: find_Some_iff)
    have "length (slots_at a sb) \<le> length (slots_at a b) \<and> (b < sb \<longrightarrow> length (slots_at a sb) < length (slots_at a b))"
      if b: "b < length sizes" "length (slots_at a b) < unat (sizes ! b)" for b
    proof -
      have "\<not> Suc (length (slots_at a b)) < c0"
        using Suc(3) b by (auto simp: has_room_def)
      moreover have "length (slots_at a sb) < c0" using i(3) by (simp add: has_room_def)
      moreover have "c0 \<le> length (slots_at a b)" if "b < sb" using i(2,4) that b(2) by (auto simp: has_room_def)
      ultimately show ?thesis by auto
    qed
    then show ?thesis using Some i(1,2,3) unfolding c by (simp add: has_room_def del: upt_Suc)
  qed
qed

section \<open>The invariant of dynamic sub-batches\<close>

abbreviation alloc_at :: "stream_maps \<Rightarrow> nat \<Rightarrow> slots" where
  "alloc_at s \<equiv> slots_at (m_SubBatchAllocationMap s)"

definition stream_at :: "stream_maps \<Rightarrow> nat \<Rightarrow> nat \<Rightarrow> u64 \<Rightarrow> u32 \<Rightarrow> bool" where
  "stream_at s sb q ss pad \<longleftrightarrow> map_of (alloc_at s sb) q = Some (ss, pad)"

definition place_ok :: "TrackerConfig \<Rightarrow> stream_maps \<Rightarrow> nat \<Rightarrow> nat \<Rightarrow> u64 \<Rightarrow> u32 \<Rightarrow> bool" where
  "place_ok cfg s sb q ss pad \<longleftrightarrow> q < unat (subBatchSizes cfg ! sb) \<and> map_of (m_SsidSubBatchMap s) ss = Some sb \<and>
     pad = getStreamId ss"

definition dynamic_inv :: "TrackerConfig \<Rightarrow> stream_maps \<Rightarrow> bool" where
  "dynamic_inv cfg s \<longleftrightarrow>
     map_wf (m_SubBatchAllocationMap s) \<and> map_wf (m_SsidSubBatchMap s) \<and> map_wf (m_PadIndexSeqIndexMap s) \<and>
     (\<forall>sb. map_of (m_SubBatchAllocationMap s) sb \<noteq> None \<longrightarrow> sb < length (subBatchSizes cfg)) \<and>
     (\<forall>sb. map_wf (alloc_at s sb)) \<and>
     (\<forall>sb q ss pad. stream_at s sb q ss pad \<longrightarrow> place_ok cfg s sb q ss pad) \<and>
     (\<forall>ss sb. map_of (m_SsidSubBatchMap s) ss = Some sb \<longrightarrow> (\<exists>q. stream_at s sb q ss (getStreamId ss))) \<and>
     (\<forall>sb q q' ss pad pad'. stream_at s sb q ss pad \<longrightarrow> stream_at s sb q' ss pad' \<longrightarrow> q' = q) \<and>
     (\<forall>sb<length (subBatchSizes cfg). unat (subBatchSizes cfg ! sb) \<le> m_MaxSubBatchSize s)"

lemma dynamic_invD:
  assumes "dynamic_inv cfg s"
  shows "map_wf (m_SubBatchAllocationMap s)" "map_wf (m_SsidSubBatchMap s)" "map_wf (m_PadIndexSeqIndexMap s)"
    "map_of (m_SubBatchAllocationMap s) sb \<noteq> None \<Longrightarrow> sb < length (subBatchSizes cfg)"
    "map_wf (alloc_at s sb)" "stream_at s sb q ss pad \<Longrightarrow> place_ok cfg s sb q ss pad"
    "map_of (m_SsidSubBatchMap s) ss = Some sb \<Longrightarrow> \<exists>q. stream_at s sb q ss (getStreamId ss)"
    "\<forall>sb<length (subBatchSizes cfg). unat (subBatchSizes cfg ! sb) \<le> m_MaxSubBatchSize s"
    "stream_at s sb q ss pad \<Longrightarrow> stream_at s sb q' ss pad' \<Longrightarrow> q' = q"
  using assms unfolding dynamic_inv_def by blast+

lemma slots_at_put [simp]: "slots_at (map_put sb sl a) b = (if b = sb then sl else slots_at a b)"
  by (simp add: slots_at_def)

lemma slots_at_delete [simp]: "slots_at (AList.delete sb a) b = (if b = sb then [] else slots_at a b)"
  by (simp add: slots_at_def delete_conv')

text \<open>When every pad has one surface, a stream is known by its pad.\<close>

lemma one_surface:
  "getSurfaceId ss = surface (getStreamId ss) \<Longrightarrow> getSurfaceId ss' = surface (getStreamId ss') \<Longrightarrow>
     getStreamId ss = getStreamId ss' \<Longrightarrow> ss = ss'"
  by (metis stream_id_split)

lemma full_places:
  assumes "dynamic_inv cfg s" "sb < length (subBatchSizes cfg)"
  shows "length (alloc_at s sb) \<le> unat (subBatchSizes cfg ! sb)"
    "length (alloc_at s sb) < unat (subBatchSizes cfg ! sb) \<Longrightarrow> free_place (subBatchSizes cfg ! sb) (alloc_at s sb) \<noteq> None"
proof -
  let ?K = "set (map fst (alloc_at s sb))"
  have d: "distinct (map fst (alloc_at s sb))" using dynamic_invD(5)[OF assms(1)] map_wf_distinct by blast
  then have c: "card ?K = length (alloc_at s sb)" by (metis distinct_card length_map)
  have sub: "?K \<subseteq> {..<unat (subBatchSizes cfg ! sb)}"
  proof
    fix q assume "q \<in> ?K"
    then obtain ss pad where "(q, ss, pad) \<in> set (alloc_at s sb)" by auto
    then have "stream_at s sb q ss pad" using d by (simp add: stream_at_def)
    then show "q \<in> {..<unat (subBatchSizes cfg ! sb)}" using dynamic_invD(6)[OF assms(1)] by (auto simp: place_ok_def)
  qed
  show "length (alloc_at s sb) \<le> unat (subBatchSizes cfg ! sb)" using card_mono[OF _ sub] c by simp
  assume less: "length (alloc_at s sb) < unat (subBatchSizes cfg ! sb)"
  show "free_place (subBatchSizes cfg ! sb) (alloc_at s sb) \<noteq> None"
  proof
    assume "free_place (subBatchSizes cfg ! sb) (alloc_at s sb) = None"
    then have "{..<unat (subBatchSizes cfg ! sb)} \<subseteq> ?K"
      by (auto simp: free_place_def find_None_iff map_of_eq_None_iff)
    then have "unat (subBatchSizes cfg ! sb) \<le> card ?K" by (metis List.finite_set card_lessThan card_mono)
    with less c show False by simp
  qed
qed

text \<open>What mapping a new stream does, in one place.\<close>

lemma map_dynamic_cases:
  assumes "dynamic_inv cfg s"
  obtains (full) a where "map_dynamic cfg ss pad s = (False, s\<lparr>m_SubBatchAllocationMap := a\<rparr>)"
      "only_touched (length (subBatchSizes cfg)) (m_SubBatchAllocationMap s) a"
      "\<forall>sb<length (subBatchSizes cfg). length (alloc_at s sb) = unat (subBatchSizes cfg ! sb)"
  | (placed) a sb q where "only_touched (length (subBatchSizes cfg)) (m_SubBatchAllocationMap s) a"
      "map_dynamic cfg ss pad s = (True, s\<lparr>m_SubBatchAllocationMap := map_put sb (map_put q (ss, pad) (alloc_at s sb)) a,
          m_SsidSubBatchMap := map_put ss sb (m_SsidSubBatchMap s), m_PadIndexSeqIndexMap := map_put pad q (m_PadIndexSeqIndexMap s)\<rparr>)"
      "sb < length (subBatchSizes cfg)" "length (alloc_at s sb) < unat (subBatchSizes cfg ! sb)"
      "\<forall>b<length (subBatchSizes cfg). length (alloc_at s b) < unat (subBatchSizes cfg ! b) \<longrightarrow>
         length (alloc_at s sb) \<le> length (alloc_at s b) \<and> (b < sb \<longrightarrow> length (alloc_at s sb) < length (alloc_at s b))"
      "q < unat (subBatchSizes cfg ! sb)" "map_of (alloc_at s sb) q = None" "\<forall>q'<q. map_of (alloc_at s sb) q' \<noteq> None"
proof -
  let ?A = "m_SubBatchAllocationMap s" and ?S = "subBatchSizes cfg"
  obtain a r where sl: "scan_loads ?S [1..<Suc (m_MaxSubBatchSize s)] ?A = (a, r)" by fastforce
  then have p: "r = pick ?S [1..<Suc (m_MaxSubBatchSize s)] ?A" "only_touched (length ?S) ?A a"
    "\<forall>sb. r = Some sb \<longrightarrow> map_of a sb = Some (alloc_at s sb)"
    using scan_loads_pick[of ?S "[1..<Suc (m_MaxSubBatchSize s)]" ?A] by (auto simp del: upt_Suc)
  have l: "case r of
      None \<Rightarrow> \<forall>sb<length ?S. unat (?S ! sb) \<le> length (alloc_at s sb)
    | Some sb \<Rightarrow> sb < length ?S \<and> length (alloc_at s sb) < unat (?S ! sb) \<and>
        (\<forall>b<length ?S. length (alloc_at s b) < unat (?S ! b) \<longrightarrow>
           length (alloc_at s sb) \<le> length (alloc_at s b) \<and> (b < sb \<longrightarrow> length (alloc_at s sb) < length (alloc_at s b)))"
    unfolding p(1) by (rule pick_least[OF dynamic_invD(8)[OF assms]]) auto
  show thesis
  proof (cases r)
    case None
    then have "\<forall>sb<length ?S. length (alloc_at s sb) = unat (?S ! sb)"
      using l full_places(1)[OF assms] by (simp add: le_antisym)
    then show thesis using full[of a] p(2) sl None by (simp add: map_dynamic_def del: upt_Suc)
  next
    case (Some sb)
    with l have sb: "sb < length ?S" "length (alloc_at s sb) < unat (?S ! sb)" by simp_all
    from full_places(2)[OF assms this] obtain q where q: "free_place (?S ! sb) (alloc_at s sb) = Some q" by blast
    then have "q < unat (?S ! sb)" "map_of (alloc_at s sb) q = None" "\<forall>q'<q. map_of (alloc_at s sb) q' \<noteq> None"
      by (auto simp: free_place_def find_Some_iff)
    then show thesis
      using placed[where a = a and sb = sb and q = q] p(2,3) sl Some sb l q by (simp add: map_dynamic_def del: upt_Suc)
  qed
qed

lemma alloc_at_touched: "only_touched n (m_SubBatchAllocationMap s) a \<Longrightarrow> slots_at a = alloc_at s"
  by (simp add: only_touched_def)

lemma touched_keys:
  assumes "only_touched (length (subBatchSizes cfg)) (m_SubBatchAllocationMap s) a" "dynamic_inv cfg s"
  shows "map_wf a" "map_of a sb \<noteq> None \<Longrightarrow> sb < length (subBatchSizes cfg)"
  using assms dynamic_invD(1,4)[OF assms(2)] unfolding only_touched_def by blast+

lemma dynamic_inv_map:
  assumes "dynamic_inv cfg s" "map_of (m_SsidSubBatchMap s) ss = None"
  shows "dynamic_inv cfg (snd (map_dynamic cfg ss (getStreamId ss) s))"
  using assms(1)
proof (cases rule: map_dynamic_cases[where ss = ss and pad = "getStreamId ss"])
  case (full a)
  then show ?thesis using assms(1) touched_keys[OF full(2) assms(1)] alloc_at_touched[OF full(2)]
    unfolding full(1) dynamic_inv_def by (auto simp: stream_at_def place_ok_def)
next
  case (placed a sb q)
  note D = dynamic_invD[OF assms(1)] and T = touched_keys[OF placed(1) assms(1)] and A = alloc_at_touched[OF placed(1)]
  have fresh: "ss' \<noteq> ss" if "stream_at s b q' ss' pad" for b q' ss' pad
    using D(6)[OF that] assms(2) by (auto simp: place_ok_def)
  let ?s = "snd (map_dynamic cfg ss (getStreamId ss) s)"
  have at: "stream_at ?s b q' ss' pad \<longleftrightarrow>
      b = sb \<and> q' = q \<and> ss' = ss \<and> pad = getStreamId ss \<or> stream_at s b q' ss' pad" for b q' ss' pad
    using placed(7) by (auto simp: placed(2) stream_at_def A)
  have maps: "m_SsidSubBatchMap ?s = map_put ss sb (m_SsidSubBatchMap s)"
    "m_PadIndexSeqIndexMap ?s = map_put (getStreamId ss) q (m_PadIndexSeqIndexMap s)"
    "m_MaxSubBatchSize ?s = m_MaxSubBatchSize s"
    by (simp_all add: placed(2))
  have "place_ok cfg ?s b q' ss' pad" if "stream_at ?s b q' ss' pad" for b q' ss' pad
    using that[unfolded at] fresh[of b q' ss' pad] D(6)[of b q' ss' pad] placed(6)
    by (auto simp: place_ok_def maps)
  moreover have "q2 = q1" if "stream_at ?s b q1 ss' pad" "stream_at ?s b q2 ss' pad'" for b q1 q2 ss' pad pad'
    using that[unfolded at] fresh D(9) by blast
  moreover have "\<exists>q'. stream_at ?s b q' ss' (getStreamId ss')" if "map_of (m_SsidSubBatchMap ?s) ss' = Some b" for ss' b
    using that D(7)[of ss' b] by (auto simp: maps at split: if_splits)
  moreover have "map_wf (slots_at (m_SubBatchAllocationMap ?s) b)" for b using D(5) by (simp add: placed(2) A)
  moreover have "b < length (subBatchSizes cfg)" if "map_of (m_SubBatchAllocationMap ?s) b \<noteq> None" for b
    using that T(2)[of b] placed(3) by (auto simp: placed(2) split: if_splits)
  moreover have "map_wf (m_SubBatchAllocationMap ?s)" using T(1) by (simp add: placed(2))
  ultimately show ?thesis using D(2,3,8) unfolding dynamic_inv_def maps by auto
qed

lemma find_SomeD: "find P xs = Some x \<Longrightarrow> x \<in> set xs \<and> P x"
  by (induction xs) (auto split: if_splits)

lemma find_place:
  assumes "dynamic_inv cfg s" "stream_at s sb q ss pad"
  shows "find (\<lambda>(q, ss', pad). ss' = ss) (alloc_at s sb) = Some (q, ss, pad)"
proof -
  have d: "distinct (map fst (alloc_at s sb))" using dynamic_invD(5)[OF assms(1)] map_wf_distinct by blast
  have unique: "x = (q, ss, pad)" if mem: "x \<in> set (alloc_at s sb)" and ss: "fst (snd x) = ss" for x
  proof -
    obtain q' pad' where x: "x = (q', ss, pad')" using ss by (cases x) auto
    then have "stream_at s sb q' ss pad'" using mem d by (simp add: stream_at_def)
    from dynamic_invD(6)[OF assms(1) this] dynamic_invD(6)[OF assms(1,2)] dynamic_invD(9)[OF assms this]
    show ?thesis unfolding x place_ok_def by simp
  qed
  have "(q, ss, pad) \<in> set (alloc_at s sb)" using assms(2) by (auto simp: stream_at_def dest: map_of_SomeD)
  then have "find (\<lambda>(q, ss', pad). ss' = ss) (alloc_at s sb) \<noteq> None" unfolding find_None_iff by fastforce
  then obtain x where x: "find (\<lambda>(q, ss', pad). ss' = ss) (alloc_at s sb) = Some x" by blast
  from find_SomeD[OF x] have mem: "x \<in> set (alloc_at s sb)" "fst (snd x) = ss" by (simp_all split: prod.splits)
  show ?thesis unfolding x unique[OF mem] by (rule refl)
qed

text \<open>
  Giving up the place of a stream that is mapped: the other streams keep theirs. It succeeds if the place is the one
  that is noted for the pad; a missing note reads as place 0.
\<close>

lemma erase_slot_step:
  assumes "dynamic_inv cfg s" "map_of (m_SsidSubBatchMap s) ss = Some sb"
    and run: "erase_slot ss sb (s\<lparr>m_SsidSubBatchMap := AList.delete ss (m_SsidSubBatchMap s)\<rparr>) = (ok, s')"
  obtains q where "stream_at s sb q ss (getStreamId ss)" "dynamic_inv cfg s'"
    "m_SsidSubBatchMap s' = AList.delete ss (m_SsidSubBatchMap s)" "m_ObjectIdOffsetMap s' = m_ObjectIdOffsetMap s"
    "\<And>b q' ss' pad. stream_at s' b q' ss' pad \<longleftrightarrow> stream_at s b q' ss' pad \<and> ss' \<noteq> ss"
    "ok \<longleftrightarrow> (case map_of (m_PadIndexSeqIndexMap s) (getStreamId ss) of None \<Rightarrow> q = 0 | Some e \<Rightarrow> e = q)"
    "ok \<Longrightarrow> map_of (m_PadIndexSeqIndexMap s') = (map_of (m_PadIndexSeqIndexMap s))(getStreamId ss := None)"
proof -
  note D = dynamic_invD[OF assms(1)]
  let ?A = "m_SubBatchAllocationMap s" and ?p = "getStreamId ss" and ?P = "m_PadIndexSeqIndexMap s"
  obtain q where q: "stream_at s sb q ss ?p" using D(7)[OF assms(2)] by blast
  then obtain sl where sl: "map_of ?A sb = Some sl" "alloc_at s sb = sl"
    by (auto simp: stream_at_def slots_at_def split: option.splits)
  define sl1 where "sl1 = AList.delete q sl"
  let ?P1 = "map_touch ?p 0 ?P"
  have okq: "ok \<longleftrightarrow> map_of ?P1 ?p = Some q"
    and s': "s' = s\<lparr>m_SsidSubBatchMap := AList.delete ss (m_SsidSubBatchMap s),
      m_SubBatchAllocationMap := (if sl1 = [] then AList.delete sb ?A else map_put sb sl1 ?A),
      m_PadIndexSeqIndexMap := (if ok then AList.delete ?p ?P1 else ?P1)\<rparr>"
    using run find_place[OF assms(1) q] sl by (auto simp: erase_slot_def Let_def sl1_def split: if_splits)
  have at': "alloc_at s' b = (if b = sb then sl1 else alloc_at s b)" for b by (simp add: s')
  have at: "stream_at s' b q' ss' pad \<longleftrightarrow> stream_at s b q' ss' pad \<and> \<not> (b = sb \<and> q' = q)" for b q' ss' pad
    using sl(2) by (auto simp: stream_at_def at' sl1_def delete_conv')
  have other: "\<not> (b = sb \<and> q' = q) \<longleftrightarrow> ss' \<noteq> ss" if "stream_at s b q' ss' pad" for b q' ss' pad
  proof -
    have "map_of (m_SsidSubBatchMap s) ss' = Some b" using D(6)[OF that] by (simp add: place_ok_def)
    moreover have "q' = q" if e: "ss' = ss" "b = sb"
    proof -
      have "stream_at s sb q' ss pad" using \<open>stream_at s b q' ss' pad\<close> e by simp
      from D(9)[OF q this] show ?thesis .
    qed
    ultimately show ?thesis using assms(2) that q by (auto simp: stream_at_def)
  qed
  have at2: "stream_at s' b q' ss' pad \<longleftrightarrow> stream_at s b q' ss' pad \<and> ss' \<noteq> ss" for b q' ss' pad
    using at other by blast
  have "place_ok cfg s' b q' ss' pad" if "stream_at s' b q' ss' pad" for b q' ss' pad
    using D(6)[of b q' ss' pad] that at2 unfolding place_ok_def by (auto simp: s' delete_conv')
  moreover have "\<exists>q'. stream_at s' b q' ss' (getStreamId ss')" if "map_of (m_SsidSubBatchMap s') ss' = Some b" for ss' b
    using that D(7)[of ss' b] at2 by (auto simp: s' delete_conv' split: if_splits)
  moreover have "q2 = q1" if "stream_at s' b q1 ss' pad" "stream_at s' b q2 ss' pad'" for b q1 q2 ss' pad pad'
    using that D(9) unfolding at2 by blast
  moreover have "map_wf (alloc_at s' b)" for b using D(5)[of b] D(5)[of sb] sl(2) by (simp add: at' sl1_def)
  moreover have "b < length (subBatchSizes cfg)" if "map_of (m_SubBatchAllocationMap s') b \<noteq> None" for b
    using that D(4)[of b] sl(1) by (auto simp: s' delete_conv' split: if_splits)
  moreover have "map_wf (m_SubBatchAllocationMap s')" using D(1) by (simp add: s')
  moreover have "map_wf (m_SsidSubBatchMap s')" "map_wf (m_PadIndexSeqIndexMap s')" "m_MaxSubBatchSize s' = m_MaxSubBatchSize s"
    using D(2,3) by (simp_all add: s')
  ultimately have inv: "dynamic_inv cfg s'" using D(8) unfolding dynamic_inv_def by auto
  have pad: "ok \<longleftrightarrow> (case map_of ?P ?p of None \<Rightarrow> q = 0 | Some e \<Rightarrow> e = q)"
    "ok \<Longrightarrow> map_of (m_PadIndexSeqIndexMap s') = (map_of ?P)(?p := None)"
    unfolding okq by (auto simp: s' okq map_of_map_touch delete_conv' fun_eq_iff split: option.splits)
  show thesis using that[OF q inv _ _ at2 pad] by (simp add: s')
qed

lemma remove_streams_inv:
  assumes "dynamic_inv cfg s"
  shows "dynamic_inv cfg (snd (snd (remove_streams cfg src sss s))) \<and>
    m_ObjectIdOffsetMap (snd (snd (remove_streams cfg src sss s))) = m_ObjectIdOffsetMap s"
  using assms
proof (induction sss arbitrary: s)
  case (Cons ss sss)
  show ?case
  proof (cases "getStreamId ss \<noteq> src \<or> map_of (m_SsidSubBatchMap s) ss = None")
    case False
    then obtain sb where sb: "map_of (m_SsidSubBatchMap s) ss = Some sb" by blast
    obtain ok s' where run: "erase_slot ss sb (s\<lparr>m_SsidSubBatchMap := AList.delete ss (m_SsidSubBatchMap s)\<rparr>) = (ok, s')"
      by fastforce
    then have "dynamic_inv cfg s' \<and> m_ObjectIdOffsetMap s' = m_ObjectIdOffsetMap s"
      using erase_slot_step[OF Cons.prems sb run] by metis
    then show ?thesis using False sb run Cons.IH[of s'] by (cases ok) (auto split: prod.splits)
  qed (use Cons in auto)
qed simp

lemma dynamic_inv_offsets [simp]: "dynamic_inv cfg (s\<lparr>m_ObjectIdOffsetMap := x\<rparr>) = dynamic_inv cfg s"
  by (simp add: dynamic_inv_def stream_at_def place_ok_def)

lemma dynamic_inv_step:
  assumes "dynamic_inv cfg s" "dynamicSubBatching cfg" "subBatchSizes cfg \<noteq> []"
  shows "dynamic_inv cfg (slot_step cfg op s)"
proof (cases op)
  case (FrameOf pad su)
  then show ?thesis using assms dynamic_inv_map[OF assms(1), of "getSurfaceStreamId pad su"]
    by (simp add: slot_step_def mapStreamToSubBatch_def Let_def)
next
  case (ObjectOf ss i)
  then show ?thesis using assms(1) by (simp add: slot_step_def record_offset_def)
next
  case (RemoveOf src forget)
  then show ?thesis using remove_streams_inv[OF assms(1)] assms(1,3)
    by (simp add: slot_step_def removeSource_def Let_def split: prod.splits) (metis snd_conv)
qed

lemma foldr_max_ge: "x \<in> set xs \<Longrightarrow> x \<le> foldr max xs (0 :: nat)"
  by (induction xs) auto

lemma dynamic_inv_start:
  assumes "init_maps cfg = Some s0" "dynamicSubBatching cfg" "subBatchSizes cfg \<noteq> []"
  shows "dynamic_inv cfg s0 \<and> (\<forall>sb q ss pad. \<not> stream_at s0 sb q ss pad)"
proof -
  have "\<forall>sb<length (subBatchSizes cfg). unat (subBatchSizes cfg ! sb) \<le> foldr max (map unat (subBatchSizes cfg)) 0"
    by (simp add: foldr_max_ge)
  then show ?thesis using assms
    by (auto simp: init_maps_def empty_maps_def dynamic_inv_def stream_at_def slots_at_def)
qed

lemma dynamic_inv_reachable:
  assumes "init_maps cfg = Some s0" "slots_reachable cfg permitted s0 s" "dynamicSubBatching cfg" "subBatchSizes cfg \<noteq> []"
  shows "dynamic_inv cfg s"
  using assms(2)
proof induction
  case start
  show ?case using dynamic_inv_start[OF assms(1,3,4)] by blast
next
  case (step s op)
  then show ?case using dynamic_inv_step assms(3,4) by blast
qed

section \<open>Dynamic sub-batches and pads with one surface\<close>

text \<open>\<open>surface\<close> gives the surface of a pad. The place noted for a pad is then the one of its stream.\<close>

definition pads_inv :: "(u32 \<Rightarrow> u32) \<Rightarrow> stream_maps \<Rightarrow> bool" where
  "pads_inv surface s \<longleftrightarrow> (\<forall>sb q ss pad. stream_at s sb q ss pad \<longrightarrow>
     map_of (m_PadIndexSeqIndexMap s) pad = Some q \<and> getSurfaceId ss = surface (getStreamId ss))"

lemma pads_inv_map:
  assumes "dynamic_inv cfg s" "pads_inv surface s" "map_of (m_SsidSubBatchMap s) ss = None"
    and "getSurfaceId ss = surface (getStreamId ss)"
  shows "pads_inv surface (snd (map_dynamic cfg ss (getStreamId ss) s))"
  using assms(1)
proof (cases rule: map_dynamic_cases[where ss = ss and pad = "getStreamId ss"])
  case (full a)
  then show ?thesis using assms(2) alloc_at_touched[OF full(2)] by (simp add: pads_inv_def stream_at_def)
next
  case (placed a sb q)
  note D = dynamic_invD[OF assms(1)] and A = alloc_at_touched[OF placed(1)]
  have "pad \<noteq> getStreamId ss" if "stream_at s b q' ss' pad" for b q' ss' pad
    using D(6)[OF that] assms(2-4) that one_surface[of ss' surface ss] unfolding pads_inv_def place_ok_def by auto
  then show ?thesis using assms(2,4) placed(7) unfolding placed(2) pads_inv_def
    by (auto simp: stream_at_def A)
qed

lemma pads_inv_remove:
  assumes "dynamic_inv cfg s" "pads_inv surface s"
  shows "pads_inv surface (snd (snd (remove_streams cfg src sss s)))"
  using assms
proof (induction sss arbitrary: s)
  case (Cons ss sss)
  show ?case
  proof (cases "getStreamId ss \<noteq> src \<or> map_of (m_SsidSubBatchMap s) ss = None")
    case False
    then obtain sb where sb: "map_of (m_SsidSubBatchMap s) ss = Some sb" by blast
    obtain ok s' where run: "erase_slot ss sb (s\<lparr>m_SsidSubBatchMap := AList.delete ss (m_SsidSubBatchMap s)\<rparr>) = (ok, s')"
      by fastforce
    from erase_slot_step[OF Cons.prems(1) sb run] obtain q where q: "stream_at s sb q ss (getStreamId ss)" "dynamic_inv cfg s'"
      "\<And>b q' ss' pad. stream_at s' b q' ss' pad \<longleftrightarrow> stream_at s b q' ss' pad \<and> ss' \<noteq> ss"
      "ok \<longleftrightarrow> (case map_of (m_PadIndexSeqIndexMap s) (getStreamId ss) of None \<Rightarrow> q = 0 | Some e \<Rightarrow> e = q)"
      "ok \<Longrightarrow> map_of (m_PadIndexSeqIndexMap s') = (map_of (m_PadIndexSeqIndexMap s))(getStreamId ss := None)" by metis
    have ok: ok using q(1,4) Cons.prems(2) by (simp add: pads_inv_def)
    have "pad \<noteq> getStreamId ss" if "stream_at s b q' ss' pad" "ss' \<noteq> ss" for b q' ss' pad
      using that q(1) Cons.prems dynamic_invD(6)[OF Cons.prems(1) that(1)] one_surface[of ss' surface ss]
      unfolding pads_inv_def place_ok_def by auto
    then have "pads_inv surface s'" using Cons.prems(2) q(3) unfolding pads_inv_def q(5)[OF ok] by auto
    then show ?thesis using False sb run ok q(2) Cons.IH[of s'] by (auto split: prod.splits)
  qed (use Cons in auto)
qed simp

lemma pads_inv_offsets [simp]: "pads_inv surface (s\<lparr>m_ObjectIdOffsetMap := x\<rparr>) = pads_inv surface s"
  by (simp add: pads_inv_def stream_at_def)

lemma pads_inv_reachable:
  assumes "init_maps cfg = Some s0" "slots_reachable cfg permitted s0 s" "dynamicSubBatching cfg" "subBatchSizes cfg \<noteq> []"
    and "\<forall>pad su. permitted (FrameOf pad su) \<longrightarrow> su = surface pad"
  shows "pads_inv surface s"
  using assms(2)
proof induction
  case start
  show ?case using dynamic_inv_start[OF assms(1,3,4)] by (simp add: pads_inv_def)
next
  case (step s op)
  note inv = dynamic_inv_reachable[OF assms(1) step(1) assms(3,4)]
  show ?case
  proof (cases op)
    case (FrameOf pad su)
    then have "su = surface pad" using step.hyps(2) assms(5) by blast
    then show ?thesis using step.IH FrameOf assms(3) pads_inv_map[OF inv step.IH, of "getSurfaceStreamId pad su"]
      by (simp add: slot_step_def mapStreamToSubBatch_def Let_def)
  next
    case (ObjectOf ss i)
    then show ?thesis using step.IH by (simp add: slot_step_def record_offset_def)
  next
    case (RemoveOf src forget)
    then show ?thesis using pads_inv_remove[OF inv step.IH] step.IH assms(4)
      by (simp add: slot_step_def removeSource_def Let_def split: prod.splits) (metis snd_conv)
  qed
qed

section \<open>The invariant of static sub-batches\<close>

lemma static_places_Some:
  assumes "static_places j ps m = Some m'"
  shows "(\<forall>p\<in>set ps. map_of m p = None) \<and> (\<forall>p. p \<notin> set ps \<longrightarrow> map_of m' p = map_of m p) \<and>
    (\<forall>i<length ps. map_of m' (ps ! i) = Some (j + i))"
  using assms
proof (induction j ps m rule: static_places.induct)
  case (2 j p ps m)
  then have p: "map_of m p = None" "static_places (Suc j) ps (map_put p j m) = Some m'" by (auto split: if_splits)
  from 2(1)[OF this] have IH: "\<forall>q\<in>set ps. map_of (map_put p j m) q = None"
    "\<forall>q. q \<notin> set ps \<longrightarrow> map_of m' q = map_of (map_put p j m) q" "\<forall>i<length ps. map_of m' (ps ! i) = Some (Suc j + i)"
    by blast+
  have np: "p \<notin> set ps" using IH(1) by auto
  have "map_of m' ((p # ps) ! i) = Some (j + i)" if "i < length (p # ps)" for i
    using that IH(2,3) np by (cases i) auto
  then show ?case using p(1) IH(1,2) by (auto split: if_splits)
qed simp

lemma static_maps_Some:
  assumes "static_maps bs m = Some m'"
  shows "(\<forall>b\<in>set bs. \<forall>p\<in>set b. map_of m p = None) \<and> (\<forall>p. (\<forall>b\<in>set bs. p \<notin> set b) \<longrightarrow> map_of m' p = map_of m p) \<and>
    (\<forall>b\<in>set bs. \<forall>i<length b. map_of m' (b ! i) = Some i)"
  using assms
proof (induction bs m rule: static_maps.induct)
  case (2 b bs m)
  then obtain m1 where m1: "static_places 0 b m = Some m1" "static_maps bs m1 = Some m'" by (auto simp: bind_eq_Some_conv)
  note b = static_places_Some[OF m1(1)]
  have IH: "\<forall>c\<in>set bs. \<forall>p\<in>set c. map_of m1 p = None" "\<forall>p. (\<forall>c\<in>set bs. p \<notin> set c) \<longrightarrow> map_of m' p = map_of m1 p"
    "\<forall>c\<in>set bs. \<forall>i<length c. map_of m' (c ! i) = Some i"
    using 2(1)[OF m1] by blast+
  have later: "\<forall>c\<in>set bs. p \<notin> set c" if "p \<in> set b" for p
    using that IH(1) b by (metis in_set_conv_nth option.distinct(1))
  have "map_of m' (b ! i) = Some i" if "i < length b" for i
    using IH(2) later b that by (metis add_0 nth_mem)
  moreover have "map_of m p = None" if "c \<in> set bs" "p \<in> set c" for c p
    using IH(1) b that by (metis in_set_conv_nth option.distinct(1))
  ultimately show ?case using b IH(2,3) by simp
qed simp

definition static_inv :: "TrackerConfig \<Rightarrow> (u32 \<Rightarrow> u32) \<Rightarrow> (u32 \<times> nat) list \<Rightarrow> stream_maps \<Rightarrow> bool" where
  "static_inv cfg surface m s \<longleftrightarrow> m_PadIndexSeqIndexMap s = m \<and> m_SubBatchAllocationMap s = [] \<and> map_wf (m_SsidSubBatchMap s) \<and>
     (\<forall>ss sb. map_of (m_SsidSubBatchMap s) ss = Some sb \<longrightarrow>
        sb < length (subBatchesConfig cfg) \<and> getStreamId ss \<in> set (subBatchesConfig cfg ! sb) \<and>
        getSurfaceId ss = surface (getStreamId ss))"

lemma static_inv_remove:
  assumes "static_inv cfg surface m s"
  shows "static_inv cfg surface m (snd (snd (remove_streams cfg src sss s)))"
  using assms
proof (induction sss arbitrary: s)
  case (Cons ss sss)
  show ?case
  proof (cases "getStreamId ss \<noteq> src \<or> map_of (m_SsidSubBatchMap s) ss = None")
    case False
    then obtain sb where sb: "map_of (m_SsidSubBatchMap s) ss = Some sb" by blast
    let ?s = "s\<lparr>m_SsidSubBatchMap := AList.delete ss (m_SsidSubBatchMap s)\<rparr>"
    have "erase_slot ss sb ?s = (True, ?s)" using Cons.prems by (simp add: erase_slot_def static_inv_def)
    moreover have "static_inv cfg surface m ?s" using Cons.prems by (auto simp: static_inv_def delete_conv' split: if_splits)
    ultimately show ?thesis using False sb Cons.IH[of ?s] by (auto split: prod.splits)
  qed (use Cons in auto)
qed simp

lemma static_inv_step:
  assumes "static_inv cfg surface m s" "\<not> dynamicSubBatching cfg" "subBatchSizes cfg \<noteq> []"
    and "\<And>pad su. op = FrameOf pad su \<Longrightarrow> su = surface pad"
  shows "static_inv cfg surface m (slot_step cfg op s)"
proof (cases op)
  case (FrameOf pad su)
  then show ?thesis using assms
    by (auto simp: slot_step_def mapStreamToSubBatch_def Let_def static_inv_def find_Some_iff split: option.splits)
next
  case (ObjectOf ss i)
  then show ?thesis using assms(1) by (simp add: slot_step_def record_offset_def static_inv_def)
next
  case (RemoveOf src forget)
  then show ?thesis using static_inv_remove[OF assms(1)] assms(1,3)
    by (simp add: slot_step_def removeSource_def Let_def static_inv_def split: prod.splits) (metis snd_conv)
qed

section \<open>Places\<close>

text \<open>The sizes of static sub-batches are those of their lists of sources (\<open>gst_nv_tracker_set_property\<close>).\<close>

definition sizes_agree :: "TrackerConfig \<Rightarrow> bool" where
  "sizes_agree cfg \<longleftrightarrow> dynamicSubBatching cfg \<or> map unat (subBatchSizes cfg) = map length (subBatchesConfig cfg)"

lemma static_place:
  assumes "init_maps cfg = Some s0" "slots_reachable cfg permitted s0 s" "\<not> dynamicSubBatching cfg" "subBatchSizes cfg \<noteq> []"
    and "\<forall>pad su. permitted (FrameOf pad su) \<longrightarrow> su = surface pad" "map_of (m_SsidSubBatchMap s) ss = Some sb"
  shows "sb < length (subBatchesConfig cfg) \<and> getSurfaceId ss = surface (getStreamId ss) \<and>
    (\<exists>i<length (subBatchesConfig cfg ! sb). subBatchesConfig cfg ! sb ! i = getStreamId ss \<and>
       map_of (m_PadIndexSeqIndexMap s) (getStreamId ss) = Some i)"
proof -
  obtain m where m: "static_maps (subBatchesConfig cfg) [] = Some m" "m_PadIndexSeqIndexMap s0 = m"
    "m_SubBatchAllocationMap s0 = []" "m_SsidSubBatchMap s0 = []"
    using assms(1,3,4) by (auto simp: init_maps_def empty_maps_def)
  have "static_inv cfg surface m s" using assms(2)
  proof induction
    case start
    then show ?case using m by (simp add: static_inv_def)
  next
    case (step s op)
    show ?case by (rule static_inv_step[OF step.IH assms(3,4)]) (use step.hyps(2) assms(5) in blast)
  qed
  then have i: "sb < length (subBatchesConfig cfg)" "getStreamId ss \<in> set (subBatchesConfig cfg ! sb)"
    "getSurfaceId ss = surface (getStreamId ss)" "m_PadIndexSeqIndexMap s = m" using assms(6) by (auto simp: static_inv_def)
  then obtain j where j: "j < length (subBatchesConfig cfg ! sb)" "subBatchesConfig cfg ! sb ! j = getStreamId ss"
    by (auto simp: in_set_conv_nth)
  have "map_of m (subBatchesConfig cfg ! sb ! j) = Some j" using static_maps_Some[OF m(1)] i(1) j(1) nth_mem by blast
  with i j show ?thesis by auto
qed

text \<open>
  Property C13. When every pad has one surface, streams never share a place: however streams come, have objects and are
  removed, a stream that is assigned to a sub-batch has the number of a place below the size of the sub-batch, and no
  other stream of the sub-batch has the same number, for static and dynamic sub-batches. The code notes the number for
  the pad, so the condition is needed: see \<open>second_surface_blocks_removal\<close>.
\<close>

theorem stream_places_exclusive:
  assumes "init_maps cfg = Some s0" "slots_reachable cfg permitted s0 s" "subBatchSizes cfg \<noteq> []" "sizes_agree cfg"
    and "\<forall>pad su. permitted (FrameOf pad su) \<longrightarrow> su = surface pad" "map_of (m_SsidSubBatchMap s) ss = Some sb"
  shows "sb < length (subBatchSizes cfg) \<and>
    (\<exists>q<unat (subBatchSizes cfg ! sb). map_of (m_PadIndexSeqIndexMap s) (getStreamId ss) = Some q \<and>
       (\<forall>ss'. ss' \<noteq> ss \<longrightarrow> map_of (m_SsidSubBatchMap s) ss' = Some sb \<longrightarrow>
          map_of (m_PadIndexSeqIndexMap s) (getStreamId ss') \<noteq> Some q))"
proof (cases "dynamicSubBatching cfg")
  case True
  note inv = dynamic_inv_reachable[OF assms(1,2) True assms(3)]
  note D = dynamic_invD[OF inv]
  have P: "map_of (m_PadIndexSeqIndexMap s) pad = Some q" if "stream_at s sb q ss pad" for sb q ss pad
    using pads_inv_reachable[OF assms(1,2) True assms(3,5)] that by (simp add: pads_inv_def)
  obtain q where q: "stream_at s sb q ss (getStreamId ss)" using D(7)[OF assms(6)] by blast
  have "sb < length (subBatchSizes cfg)"
    using q D(4)[of sb] by (auto simp: stream_at_def slots_at_def split: option.splits)
  moreover have "map_of (m_PadIndexSeqIndexMap s) (getStreamId ss') \<noteq> Some q"
    if ss': "ss' \<noteq> ss" "map_of (m_SsidSubBatchMap s) ss' = Some sb" for ss'
  proof -
    obtain q' where q': "stream_at s sb q' ss' (getStreamId ss')" using D(7)[OF ss'(2)] by blast
    with ss'(1) q have "q' \<noteq> q" by (auto simp: stream_at_def)
    then show ?thesis using P[OF q'] by simp
  qed
  ultimately show ?thesis using D(6)[OF q] P[OF q] by (auto simp: place_ok_def)
next
  case False
  have len: "length (subBatchSizes cfg) = length (subBatchesConfig cfg)"
    "unat (subBatchSizes cfg ! b) = length (subBatchesConfig cfg ! b)" if "b < length (subBatchesConfig cfg)" for b
    using assms(4) False that by (auto simp: sizes_agree_def dest: map_eq_imp_length_eq) (metis length_map nth_map)
  note place = static_place[where surface = surface, OF assms(1,2) False assms(3,5)]
  from place[OF assms(6)] obtain i where i: "sb < length (subBatchesConfig cfg)" "getSurfaceId ss = surface (getStreamId ss)"
    "i < length (subBatchesConfig cfg ! sb)" "subBatchesConfig cfg ! sb ! i = getStreamId ss"
    "map_of (m_PadIndexSeqIndexMap s) (getStreamId ss) = Some i" by blast
  have "map_of (m_PadIndexSeqIndexMap s) (getStreamId ss') \<noteq> Some i"
    if "ss' \<noteq> ss" "map_of (m_SsidSubBatchMap s) ss' = Some sb" for ss'
    using place[OF that(2)] i(2,4) that(1) one_surface[of ss' surface ss] by auto
  then show ?thesis using i len[OF i(1)] by auto
qed

section \<open>A second surface of a pad\<close>

text \<open>When no place is noted for a pad, a stream of it that is not at place 0 stops the removal.\<close>

lemma removal_stops:
  assumes "dynamic_inv cfg s" "map_of (m_PadIndexSeqIndexMap s) src = None"
    and "ss \<in> set sss" "stream_at s sb q ss src" "q \<noteq> 0"
  shows "\<not> fst (remove_streams cfg src sss s)"
  using assms
proof (induction sss arbitrary: s)
  case (Cons x sss)
  have src: "getStreamId ss = src" using dynamic_invD(6)[OF Cons.prems(1,4)] by (simp add: place_ok_def)
  show ?case
  proof (cases "getStreamId x = src \<and> map_of (m_SsidSubBatchMap s) x \<noteq> None")
    case True
    then obtain b where b: "map_of (m_SsidSubBatchMap s) x = Some b" by blast
    obtain ok s' where run: "erase_slot x b (s\<lparr>m_SsidSubBatchMap := AList.delete x (m_SsidSubBatchMap s)\<rparr>) = (ok, s')"
      by fastforce
    from erase_slot_step[OF Cons.prems(1) b run] obtain qx where qx: "stream_at s b qx x (getStreamId x)" "dynamic_inv cfg s'"
      "\<And>b q' ss' pad. stream_at s' b q' ss' pad \<longleftrightarrow> stream_at s b q' ss' pad \<and> ss' \<noteq> x"
      "ok \<longleftrightarrow> (case map_of (m_PadIndexSeqIndexMap s) (getStreamId x) of None \<Rightarrow> qx = 0 | Some e \<Rightarrow> e = qx)"
      "ok \<Longrightarrow> map_of (m_PadIndexSeqIndexMap s') = (map_of (m_PadIndexSeqIndexMap s))(getStreamId x := None)" by metis
    show ?thesis
    proof (cases ok)
      case okT: True
      then have "qx = 0" using qx(4) Cons.prems(2) True by simp
      then have "x \<noteq> ss"
        using dynamic_invD(6)[OF Cons.prems(1,4)] dynamic_invD(9)[OF Cons.prems(1) Cons.prems(4)] qx(1) b Cons.prems(5)
        by (auto simp: place_ok_def)
      then have "\<not> fst (remove_streams cfg src sss s')"
        using Cons.prems(2-5) True qx(3) qx(5)[OF okT] by (intro Cons.IH[OF qx(2)]) auto
      then show ?thesis using True b run okT by (auto split: prod.splits)
    qed (use True b run in auto)
  next
    case False
    then show ?thesis using Cons src dynamic_invD(6)[OF Cons.prems(1,4)] by (auto simp: place_ok_def)
  qed
qed simp

lemma second_surface_stops:
  assumes "dynamic_inv cfg s" "stream_at s sb q ss src" "q \<noteq> 0" "stream_at s sb' q' ss' src" "q' \<noteq> 0" "ss \<noteq> ss'"
    and "ss \<in> set sss" "ss' \<in> set sss"
  shows "\<not> fst (remove_streams cfg src sss s)"
  using assms
proof (induction sss arbitrary: s)
  case (Cons x sss)
  note at = Cons.prems(2,4)
  have src: "getStreamId ss = src" "getStreamId ss' = src"
    using dynamic_invD(6)[OF Cons.prems(1) at(1)] dynamic_invD(6)[OF Cons.prems(1) at(2)] by (simp_all add: place_ok_def)
  show ?case
  proof (cases "getStreamId x = src \<and> map_of (m_SsidSubBatchMap s) x \<noteq> None")
    case True
    then obtain b where b: "map_of (m_SsidSubBatchMap s) x = Some b" by blast
    obtain ok s' where run: "erase_slot x b (s\<lparr>m_SsidSubBatchMap := AList.delete x (m_SsidSubBatchMap s)\<rparr>) = (ok, s')"
      by fastforce
    from erase_slot_step[OF Cons.prems(1) b run] have S: "dynamic_inv cfg s'"
      "\<And>b q' ss' pad. stream_at s' b q' ss' pad \<longleftrightarrow> stream_at s b q' ss' pad \<and> ss' \<noteq> x"
      "ok \<Longrightarrow> map_of (m_PadIndexSeqIndexMap s') = (map_of (m_PadIndexSeqIndexMap s))(getStreamId x := None)" by metis+
    show ?thesis
    proof (cases ok)
      case okT: True
      have none: "map_of (m_PadIndexSeqIndexMap s') src = None" using S(3)[OF okT] True by simp
      have "\<not> fst (remove_streams cfg src sss s')"
      proof (cases "x = ss \<or> x = ss'")
        case x: True
        then show ?thesis
        proof
          assume "x = ss"
          then show ?thesis using Cons.prems S(2) by (intro removal_stops[OF S(1) none, of ss' sss sb' q']) auto
        next
          assume "x = ss'"
          then show ?thesis using Cons.prems S(2) by (intro removal_stops[OF S(1) none, of ss sss sb q]) auto
        qed
      next
        case False
        then show ?thesis using Cons.prems S(2) by (intro Cons.IH[OF S(1)]) auto
      qed
      then show ?thesis using True b run okT by (auto split: prod.splits)
    qed (use True b run in auto)
  next
    case False
    moreover have "map_of (m_SsidSubBatchMap s) ss \<noteq> None" "map_of (m_SsidSubBatchMap s) ss' \<noteq> None"
      using dynamic_invD(6)[OF Cons.prems(1) at(1)] dynamic_invD(6)[OF Cons.prems(1) at(2)] by (simp_all add: place_ok_def)
    ultimately show ?thesis using Cons src by auto
  qed
qed simp

text \<open>
  Property C39. A source with two surfaces cannot be removed: the place of a stream is noted for its pad, so the second
  surface overwrites the note of the first. When objects were found in both and neither has place 0, every removal of the
  source from dynamic sub-batches fails, and the event is not sent on.
\<close>

theorem second_surface_blocks_removal:
  assumes "init_maps cfg = Some s0" "slots_reachable cfg permitted s0 s" "dynamicSubBatching cfg" "subBatchSizes cfg \<noteq> []"
    and "stream_at s sb q ss pad" "q \<noteq> 0" "stream_at s sb' q' ss' pad" "q' \<noteq> 0" "ss \<noteq> ss'"
    and "{ss, ss'} \<subseteq> fst ` set (m_ObjectIdOffsetMap s)"
  shows "\<not> fst (removeSource cfg removed pad forget s)"
proof -
  have "\<not> fst (remove_streams cfg pad (map fst (m_ObjectIdOffsetMap s)) s)"
    using assms(10) by (intro second_surface_stops[OF dynamic_inv_reachable[OF assms(1-4)] assms(5-9)]) auto
  then show ?thesis using assms(4) by (auto simp: removeSource_def Let_def split: prod.splits)
qed

section \<open>The load of the sub-batches\<close>

definition load :: "stream_maps \<Rightarrow> nat \<Rightarrow> nat" where
  "load s sb = length (alloc_at s sb)"

text \<open>
  Property C28. A new stream finds a place in a dynamic sub-batch exactly if one has room; it is put into the
  first of the least loaded sub-batches with room, at the lowest free place, and the other sub-batches stay as they are.
\<close>

theorem new_stream_least_loaded:
  assumes "init_maps cfg = Some s0" "slots_reachable cfg permitted s0 s" "subBatchSizes cfg \<noteq> []" "dynamicSubBatching cfg"
  shows "case mapStreamToSubBatch cfg ss pad s of
      (False, s') \<Rightarrow> \<forall>sb<length (subBatchSizes cfg). load s sb = unat (subBatchSizes cfg ! sb)
    | (True, s') \<Rightarrow> \<exists>sb q. sb < length (subBatchSizes cfg) \<and> load s sb < unat (subBatchSizes cfg ! sb) \<and>
        map_of (m_SsidSubBatchMap s') ss = Some sb \<and> load s' = (load s)(sb := Suc (load s sb)) \<and>
        (\<forall>b<length (subBatchSizes cfg). load s b < unat (subBatchSizes cfg ! b) \<longrightarrow>
           load s sb \<le> load s b \<and> (b < sb \<longrightarrow> load s sb < load s b)) \<and>
        stream_at s' sb q ss pad \<and> (\<forall>q'<q. \<exists>ss' pad'. stream_at s sb q' ss' pad') \<and>
        (\<forall>b q' ss' pad'. stream_at s b q' ss' pad' \<longrightarrow> stream_at s' b q' ss' pad')"
proof -
  note inv = dynamic_inv_reachable[OF assms(1,2,4,3)]
  have len: "length (map_put q v sl) = Suc (length sl)" if "map_of sl q = None" "map_wf sl"
    for q and v :: "u64 \<times> u32" and sl :: slots
  proof -
    have "card (set (map fst (map_put q v sl))) = Suc (card (set (map fst sl)))"
      using that(1) by (simp add: map_of_eq_None_iff)
    then show ?thesis using that(2) by (metis length_map distinct_card map_wf_distinct map_wf_put)
  qed
  show ?thesis
    using inv
  proof (cases rule: map_dynamic_cases[where ss = ss and pad = pad])
    case (full a)
    then show ?thesis using assms(4) by (simp add: mapStreamToSubBatch_def load_def)
  next
    case (placed a sb q)
    note A = alloc_at_touched[OF placed(1)]
    let ?s = "s\<lparr>m_SubBatchAllocationMap := map_put sb (map_put q (ss, pad) (alloc_at s sb)) a,
        m_SsidSubBatchMap := map_put ss sb (m_SsidSubBatchMap s), m_PadIndexSeqIndexMap := map_put pad q (m_PadIndexSeqIndexMap s)\<rparr>"
    have "load ?s = (load s)(sb := Suc (load s sb))"
      using len[OF placed(7) dynamic_invD(5)[OF inv]] by (auto simp: load_def A fun_eq_iff)
    moreover have "stream_at ?s sb q ss pad" by (simp add: stream_at_def)
    moreover have "\<forall>q'<q. \<exists>ss' pad'. stream_at s sb q' ss' pad'" using placed(8) by (auto simp: stream_at_def)
    moreover have "\<forall>b q' ss' pad'. stream_at s b q' ss' pad' \<longrightarrow> stream_at ?s b q' ss' pad'"
      using placed(7) by (auto simp: stream_at_def A)
    ultimately show ?thesis using assms(4) placed(2-5) by (simp add: mapStreamToSubBatch_def load_def) blast
  qed
qed

section \<open>Sources without objects\<close>

text \<open>A source whose streams had no object is removed without giving up its place.\<close>

lemma remove_streams_unknown:
  assumes "\<forall>ss\<in>set sss. getStreamId ss \<noteq> src"
  shows "remove_streams cfg src sss s = (True, [], s)"
  using assms by (induction sss) auto

lemma silent_removal:
  assumes "\<forall>ss\<in>fst ` set (m_ObjectIdOffsetMap s). getStreamId ss \<noteq> src"
  shows "removeSource cfg removed src forget s = (True, [], s)"
proof -
  have "filter (\<lambda>(ss, off). getStreamId ss \<noteq> src) (m_ObjectIdOffsetMap s) = m_ObjectIdOffsetMap s"
    using assms by (auto simp: filter_id_conv image_iff)
  moreover have "filter (\<lambda>ss. getStreamId ss = src) (map fst (m_ObjectIdOffsetMap s)) = []"
    using assms by (auto simp: filter_empty_conv)
  ultimately show ?thesis using assms remove_streams_unknown by (simp add: removeSource_def Let_def)
qed

text \<open>A source whose stream comes, shows frames without objects and is removed.\<close>

definition silent_visit :: "u32 \<times> u32 \<Rightarrow> stream_op list" where
  "silent_visit stream = [FrameOf (fst stream) (snd stream), RemoveOf (fst stream) True]"

definition capacity :: "TrackerConfig \<Rightarrow> nat" where
  "capacity cfg = (\<Sum>sb<length (subBatchSizes cfg). unat (subBatchSizes cfg ! sb))"

definition total_load :: "TrackerConfig \<Rightarrow> stream_maps \<Rightarrow> nat" where
  "total_load cfg s = (\<Sum>sb<length (subBatchSizes cfg). load s sb)"

lemma mapStream_fields:
  "m_ObjectIdOffsetMap (snd (mapStreamToSubBatch cfg ss pad s)) = m_ObjectIdOffsetMap s \<and>
   (\<forall>ss'. map_of (m_SsidSubBatchMap (snd (mapStreamToSubBatch cfg ss pad s))) ss' \<noteq> None \<longrightarrow>
      ss' = ss \<or> map_of (m_SsidSubBatchMap s) ss' \<noteq> None)"
  by (auto simp: mapStreamToSubBatch_def map_dynamic_def split: prod.splits option.splits)

lemma silent_visits_fill:
  assumes "init_maps cfg = Some s0" "subBatchSizes cfg \<noteq> []" "dynamicSubBatching cfg"
    and "distinct streams" "length streams \<le> capacity cfg"
  defines "s \<equiv> fold (slot_step cfg) (concat (map silent_visit streams)) s0"
  shows "total_load cfg s = length streams \<and> m_ObjectIdOffsetMap s = [] \<and>
    (\<forall>ss. map_of (m_SsidSubBatchMap s) ss \<noteq> None \<longrightarrow> (getStreamId ss, getSurfaceId ss) \<in> set streams)"
  using assms(4,5) unfolding s_def
proof (induction streams rule: rev_induct)
  case Nil
  then show ?case using assms(1-3)
    by (auto simp: init_maps_def empty_maps_def total_load_def load_def slots_at_def)
next
  case (snoc stream streams)
  obtain pad su where stream: "stream = (pad, su)" by fastforce
  define s where "s = fold (slot_step cfg) (concat (map silent_visit streams)) s0"
  have r: "slots_reachable cfg (\<lambda>_. True) s0 s" unfolding s_def by (rule slots_reachable_fold[OF start]) simp
  have s: "total_load cfg s = length streams" "m_ObjectIdOffsetMap s = []"
    "\<forall>ss. map_of (m_SsidSubBatchMap s) ss \<noteq> None \<longrightarrow> (getStreamId ss, getSurfaceId ss) \<in> set streams"
    using snoc by (simp_all add: s_def)
  let ?ss = "getSurfaceStreamId pad su"
  have new: "map_of (m_SsidSubBatchMap s) ?ss = None" using s(3) snoc.prems(1) unfolding stream by fastforce
  obtain ok s1 where s1: "mapStreamToSubBatch cfg ?ss pad s = (ok, s1)" by fastforce
  note ll = new_stream_least_loaded[OF assms(1) r assms(2,3), of ?ss pad]
  have ok
  proof (rule ccontr)
    assume "\<not> ok"
    then have "total_load cfg s = capacity cfg" using ll s1 by (simp add: total_load_def capacity_def)
    then show False using s(1) snoc.prems(2) by simp
  qed
  then obtain sb where sb: "sb < length (subBatchSizes cfg)" "load s1 = (load s)(sb := Suc (load s sb))"
    using ll s1 by auto
  have "total_load cfg s1 = (\<Sum>b<length (subBatchSizes cfg). load s b + (if b = sb then 1 else 0))"
    unfolding total_load_def sb(2) by (rule sum.cong) auto
  also have "\<dots> = Suc (total_load cfg s)" using sb(1) by (simp add: total_load_def sum.distrib)
  finally have total: "total_load cfg s1 = Suc (length streams)" using s(1) by simp
  have f: "m_ObjectIdOffsetMap s1 = []" "\<forall>ss. map_of (m_SsidSubBatchMap s1) ss \<noteq> None \<longrightarrow> (getStreamId ss, getSurfaceId ss) \<in> set (streams @ [(pad, su)])"
    using mapStream_fields[of cfg ?ss pad s] s1 s(2,3) by auto
  have "slot_step cfg (RemoveOf pad True) s1 = s1"
    using silent_removal[of s1 pad cfg "\<lambda>_. True" True] f(1) by (simp add: slot_step_def)
  moreover have "slot_step cfg (FrameOf pad su) s = s1" using new s1 by (simp add: slot_step_def Let_def)
  ultimately have "fold (slot_step cfg) (concat (map silent_visit (streams @ [stream]))) s0 = s1"
    by (simp add: silent_visit_def stream flip: s_def)
  then show ?case using total f by (simp add: stream)
qed

text \<open>
  Property C40. The place of a removed source is lost when no object was ever found in its streams: after as many such
  visits of different streams as there are places, all sources are gone but every sub-batch is full, and a new source is refused.
\<close>

theorem silent_sources_fill_sub_batches:
  assumes "init_maps cfg = Some s0" "subBatchSizes cfg \<noteq> []" "dynamicSubBatching cfg"
    and "distinct streams" "length streams = capacity cfg"
  shows "\<not> fst (mapStreamToSubBatch cfg ss pad (fold (slot_step cfg) (concat (map silent_visit streams)) s0))"
proof
  define s where "s = fold (slot_step cfg) (concat (map silent_visit streams)) s0"
  have r: "slots_reachable cfg (\<lambda>_. True) s0 s" unfolding s_def by (rule slots_reachable_fold[OF start]) simp
  have total: "total_load cfg s = capacity cfg" using silent_visits_fill[OF assms(1-4)] assms(5) by (simp add: s_def)
  assume "fst (mapStreamToSubBatch cfg ss pad (fold (slot_step cfg) (concat (map silent_visit streams)) s0))"
  then obtain s' where "mapStreamToSubBatch cfg ss pad s = (True, s')" unfolding s_def by (metis prod.collapse)
  then obtain sb where sb: "sb < length (subBatchSizes cfg)" "load s sb < unat (subBatchSizes cfg ! sb)"
    using new_stream_least_loaded[OF assms(1) r assms(2,3), of ss pad] by auto
  have "load s b \<le> unat (subBatchSizes cfg ! b)" if "b < length (subBatchSizes cfg)" for b
    using full_places(1)[OF dynamic_inv_reachable[OF assms(1) r assms(3,2)] that] by (simp add: load_def)
  then have "total_load cfg s < capacity cfg"
    unfolding total_load_def capacity_def using sb by (intro sum_strict_mono_ex1) auto
  with total show False by simp
qed

section \<open>Removing a source twice\<close>

lemma remove_streams_unmapped:
  assumes "remove_streams cfg src sss s = (True, reqs, s')"
  shows "(\<forall>ss\<in>set sss. getStreamId ss = src \<longrightarrow> map_of (m_SsidSubBatchMap s') ss = None) \<and>
    (\<forall>ss. map_of (m_SsidSubBatchMap s) ss = None \<longrightarrow> map_of (m_SsidSubBatchMap s') ss = None) \<and>
    m_ObjectIdOffsetMap s' = m_ObjectIdOffsetMap s"
  using assms
proof (induction sss arbitrary: s reqs)
  case (Cons ss sss)
  show ?case
  proof (cases "getStreamId ss = src")
    case True
    with Cons.prems obtain sb s1 where s1: "erase_slot ss sb (s\<lparr>m_SsidSubBatchMap := AList.delete ss (m_SsidSubBatchMap s)\<rparr>) = (True, s1)"
      "\<exists>reqs'. remove_streams cfg src sss s1 = (True, reqs', s')"
      by (auto split: option.splits prod.splits bool.splits if_splits)
    then have "m_SsidSubBatchMap s1 = AList.delete ss (m_SsidSubBatchMap s)" "m_ObjectIdOffsetMap s1 = m_ObjectIdOffsetMap s"
      by (auto simp: erase_slot_def Let_def split: option.splits if_splits)
    then show ?thesis using Cons.IH s1(2) by (auto simp: delete_conv')
  qed (use Cons in auto)
qed simp

lemma remove_streams_refused:
  assumes "\<exists>ss\<in>set sss. getStreamId ss = src" "\<forall>ss\<in>set sss. getStreamId ss = src \<longrightarrow> map_of (m_SsidSubBatchMap s) ss = None"
  shows "remove_streams cfg src sss s = (False, [], s)"
  using assms by (induction sss) auto

text \<open>
  After a stream reset that removed the trackers of a source and kept its ids, removing the source
  before its next frame, because it is deleted or reset again, fails, and its ids stay recorded.
\<close>

lemma reset_then_remove_fails:
  assumes "subBatchSizes cfg \<noteq> []" "ss \<in> fst ` set (m_ObjectIdOffsetMap s)"
    and "removeSource cfg removed (getStreamId ss) False s = (True, reqs, s1)"
  shows "removeSource cfg removed' (getStreamId ss) forget s1 = (False, [], s1) \<and> ss \<in> fst ` set (m_ObjectIdOffsetMap s1)"
proof -
  have "remove_streams cfg (getStreamId ss) (map fst (m_ObjectIdOffsetMap s)) s = (True, reqs, s1)"
    using assms(1,3) by (auto simp: removeSource_def Let_def split: prod.splits if_splits)
  from remove_streams_unmapped[OF this] have u: "\<forall>x\<in>set (map fst (m_ObjectIdOffsetMap s1)).
      getStreamId x = getStreamId ss \<longrightarrow> map_of (m_SsidSubBatchMap s1) x = None" "m_ObjectIdOffsetMap s1 = m_ObjectIdOffsetMap s"
    by auto
  then have "remove_streams cfg (getStreamId ss) (map fst (m_ObjectIdOffsetMap s1)) s1 = (False, [], s1)"
    using assms(2) by (intro remove_streams_refused) auto
  then show ?thesis using assms(1,2) u(2) by (simp add: removeSource_def Let_def)
qed

section \<open>A small configuration\<close>

definition sub_batch_config :: TrackerConfig where
  "sub_batch_config = \<lparr>batchSize = 4, trackerWidth = 640, trackerHeight = 384, displayTrackingId = False, trackingIdResetMode = 1,
     trackingSurfType = 0, trackingSurfTypeFromConfig = False, inputTensorMeta = False, subBatchesConfig = [], subBatchSizes = [2, 1],
     dynamicSubBatching = True, subBatchErrRecoveryTrialCnt = 0, numTransforms = 1, maxTargetsPerStream = 10,
     outputReidTensor = False, outputVisibility = False, outputFootLocation = False, outputConvexHull = False\<rparr>"

definition sub_batch_maps :: stream_maps where
  "sub_batch_maps = empty_maps\<lparr>m_MaxSubBatchSize := 2\<rparr>"

lemma sub_batch_init: "init_maps sub_batch_config = Some sub_batch_maps"
  by (simp add: init_maps_def sub_batch_config_def sub_batch_maps_def)

lemma sub_batch_modes: "subBatchSizes sub_batch_config \<noteq> []" "dynamicSubBatching sub_batch_config" "sizes_agree sub_batch_config"
  by (simp_all add: sub_batch_config_def sizes_agree_def)

definition three_streams :: stream_maps where
  "three_streams = fold (slot_step sub_batch_config) [FrameOf 5 0, FrameOf 6 1, FrameOf 7 0, ObjectOf (getSurfaceStreamId 6 1) 40] sub_batch_maps"

definition one_surface_op :: "(u32 \<Rightarrow> u32) \<Rightarrow> stream_op \<Rightarrow> bool" where
  "one_surface_op surface op = (case op of FrameOf pad su \<Rightarrow> su = surface pad | _ \<Rightarrow> True)"

lemma three_streams_reachable:
  "slots_reachable sub_batch_config (one_surface_op (\<lambda>pad. if pad = 6 then 1 else 0)) sub_batch_maps three_streams"
  unfolding three_streams_def by (rule slots_reachable_fold[OF start]) (simp add: one_surface_op_def)

lemma three_streams_mapped:
  "map_of (m_SsidSubBatchMap three_streams) (getSurfaceStreamId 7 0) = Some 0"
  "map_of (m_SsidSubBatchMap three_streams) (getSurfaceStreamId 5 0) = Some 0"
  by code_simp+

theorem stream_places_exclusive_witness:
  "\<exists>q<2. map_of (m_PadIndexSeqIndexMap three_streams) 7 = Some q \<and> map_of (m_PadIndexSeqIndexMap three_streams) 5 \<noteq> Some q"
proof -
  have ne: "getSurfaceStreamId 5 0 \<noteq> getSurfaceStreamId 7 0" by code_simp
  show ?thesis
    using stream_places_exclusive[OF sub_batch_init three_streams_reachable sub_batch_modes(1,3) _ three_streams_mapped(1),
        of "\<lambda>pad. if pad = 6 then 1 else 0"]
      ne three_streams_mapped(2) by (auto simp: sub_batch_config_def one_surface_op_def)
qed

text \<open>One sub-batch with three places; pad 2 has two surfaces.\<close>

definition wide_config :: TrackerConfig where
  "wide_config = sub_batch_config\<lparr>subBatchSizes := [3]\<rparr>"

definition two_surfaces :: stream_maps where
  "two_surfaces = fold (slot_step wide_config) [FrameOf 1 0, FrameOf 2 0, FrameOf 2 1, ObjectOf (getSurfaceStreamId 2 0) 40,
     ObjectOf (getSurfaceStreamId 2 1) 50] (the (init_maps wide_config))"

lemma two_surfaces_places:
  "map_of (alloc_at two_surfaces 0) 1 = Some (getSurfaceStreamId 2 0, 2)"
  "map_of (alloc_at two_surfaces 0) 2 = Some (getSurfaceStreamId 2 1, 2)"
  "map fst (m_ObjectIdOffsetMap two_surfaces) = [getSurfaceStreamId 2 0, getSurfaceStreamId 2 1]"
  by code_simp+

theorem second_surface_blocks_removal_witness:
  "\<not> fst (removeSource wide_config (\<lambda>_. True) 2 True two_surfaces) \<and> load two_surfaces 0 = 3"
proof
  have reach: "slots_reachable wide_config (\<lambda>_. True) (the (init_maps wide_config)) two_surfaces"
    unfolding two_surfaces_def by (rule slots_reachable_fold[OF start]) simp
  have init: "init_maps wide_config = Some (the (init_maps wide_config))"
    by (simp add: init_maps_def wide_config_def sub_batch_config_def)
  have modes: "dynamicSubBatching wide_config" "subBatchSizes wide_config \<noteq> []"
    by (simp_all add: wide_config_def sub_batch_config_def)
  have ne: "getSurfaceStreamId 2 0 \<noteq> getSurfaceStreamId 2 1" by code_simp
  have offs: "{getSurfaceStreamId 2 0, getSurfaceStreamId 2 1} \<subseteq> fst ` set (m_ObjectIdOffsetMap two_surfaces)"
    unfolding set_map[symmetric] two_surfaces_places(3) by simp
  show "\<not> fst (removeSource wide_config (\<lambda>_. True) 2 True two_surfaces)"
    by (rule second_surface_blocks_removal[OF init reach modes _ _ _ _ ne offs, of 0 1 2 0 2])
      (simp_all add: stream_at_def two_surfaces_places two_surfaces_places(1)[unfolded One_nat_def])
  show "load two_surfaces 0 = 3" by code_simp
qed

theorem new_stream_least_loaded_witness:
  "case mapStreamToSubBatch sub_batch_config (getSurfaceStreamId 8 0) 8 three_streams of
     (False, s') \<Rightarrow> load three_streams 0 = 2 | (True, s') \<Rightarrow> False"
proof -
  have "\<not> fst (mapStreamToSubBatch sub_batch_config (getSurfaceStreamId 8 0) 8 three_streams)" by code_simp
  then show ?thesis
    using new_stream_least_loaded[OF sub_batch_init three_streams_reachable sub_batch_modes(1,2), of "getSurfaceStreamId 8 0" 8]
    by (auto simp: sub_batch_config_def split: prod.splits bool.splits)
qed

theorem silent_sources_fill_sub_batches_witness:
  "\<not> fst (mapStreamToSubBatch sub_batch_config (getSurfaceStreamId 9 0) 9
     (fold (slot_step sub_batch_config) (concat (map silent_visit [(1, 0), (2, 0), (2, 1)])) sub_batch_maps))"
  by (rule silent_sources_fill_sub_batches[OF sub_batch_init sub_batch_modes(1,2)])
    (simp_all add: capacity_def sub_batch_config_def lessThan_Suc)

lemma first_reset: "fst (removeSource sub_batch_config (\<lambda>_. True) 6 False three_streams)"
  "getSurfaceStreamId 6 1 \<in> fst ` set (m_ObjectIdOffsetMap three_streams)"
  by code_simp+

lemma reset_then_remove_fails_witness:
  "\<exists>reqs s1. removeSource sub_batch_config (\<lambda>_. True) 6 False three_streams = (True, reqs, s1) \<and>
     fst (removeSource sub_batch_config (\<lambda>_. True) 6 True s1) = False"
proof -
  obtain reqs s1 where "removeSource sub_batch_config (\<lambda>_. True) 6 False three_streams = (True, reqs, s1)"
    using first_reset(1) by (metis prod.collapse)
  then show ?thesis
    using reset_then_remove_fails[OF sub_batch_modes(1) first_reset(2), of "\<lambda>_. True" reqs s1 "\<lambda>_. True" True] by auto
qed

end
