(* ===== verification/TrackObjectsProps.thy ===== *)
theory TrackObjectsProps
  imports TrackObjects TrackSlotsProps
begin

text \<open>
  What the tracker plugin does to the objects of a frame: clipping is the intersection with the frame,
  ids stay distinct within a stream, every object that is left is a tracked one, and the frames of a
  stream are given to the library in their order.
\<close>

section \<open>Clipping\<close>

text \<open>The intersection of a box with a frame, by its edges.\<close>

definition intersection :: "u32 \<Rightarrow> u32 \<Rightarrow> rat \<Rightarrow> rat \<Rightarrow> rat \<Rightarrow> rat \<Rightarrow> (rat \<times> rat \<times> rat \<times> rat) option" where
  "intersection W H l t w h =
     (let x0 = max l 0; y0 = max t 0; x1 = min (l + w) (of_int (uint W)); y1 = min (t + h) (of_int (uint H))
      in if x0 < x1 \<and> y0 < y1 then Some (x0, y0, x1 - x0, y1 - y0) else None)"

text \<open>
  Property C27. Clipping the box of a tracked object gives exactly the part of the box that lies in the frame, and it
  fails exactly when this part is empty, for boxes that stick out on any side, surround the frame or are degenerate.
\<close>

theorem clip_is_intersection:
  "case intersection W H l t w h of
     None \<Rightarrow> \<not> fst (clipBBox W H (Fin l, Fin t, Fin w, Fin h))
   | Some (l', t', w', h') \<Rightarrow> clipBBox W H (Fin l, Fin t, Fin w, Fin h) = (True, (Fin l', Fin t', Fin w', Fin h'))"
proof -
  have "0 \<le> (of_int (uint W) :: rat)" "0 \<le> (of_int (uint H) :: rat)" unfolding of_int_0_le_iff by (rule uint_ge_0)+
  then show ?thesis
    by (auto simp: intersection_def clipBBox_def Let_def zero_dbl_Fin dbl_of_u32_def max_def min_def)
qed

section \<open>Ids\<close>

lemma ucast_add_u32: "(ucast (a + b :: u64) :: u32) = ucast a + ucast b"
proof (transfer, unfold take_bit_eq_mod)
  fix a b :: int
  have "((a mod 2 ^ LENGTH(64)) + (b mod 2 ^ LENGTH(64))) mod 2 ^ LENGTH(32) = (a + b) mod 2 ^ LENGTH(32)"
    by (rule mod_add_cong) (simp_all add: mod_mod_cancel)
  then show "(a + b) mod 2 ^ LENGTH(64) mod 2 ^ LENGTH(32) =
      (a mod 2 ^ LENGTH(64) + b mod 2 ^ LENGTH(64)) mod 2 ^ LENGTH(32)"
    by (simp add: mod_mod_cancel)
qed

text \<open>The two halves of an id.\<close>

lemma bit_high_mask: "bit (0xffffffff00000000 :: u64) i \<longleftrightarrow> 32 \<le> i \<and> i < 64"
proof -
  have "(0xffffffff00000000 :: u64) = push_bit 32 (semiring_bit_operations_class.mask 32)" by code_simp
  then have "bit (0xffffffff00000000 :: u64) i = bit (push_bit 32 (semiring_bit_operations_class.mask 32) :: u64) i"
    by (rule arg_cong)
  also have "\<dots> \<longleftrightarrow> 32 \<le> i \<and> i < 64" by (auto simp: bit_push_bit_iff bit_mask_iff)
  finally show ?thesis .
qed

lemma bit_u32_less: "bit (w :: u32) n \<Longrightarrow> n < 32"
  using bit_imp_le_length[of w n] by simp

lemma bit_halves:
  "bit (getStreamId x) n \<longleftrightarrow> n < 32 \<and> bit x (32 + n)" "bit (getSurfaceId x) n \<longleftrightarrow> n < 32 \<and> bit x n"
  by (auto simp: getStreamId_def getSurfaceId_def bit_ucast_iff bit_drop_bit_eq)

lemma halves:
  fixes a :: u64 and b :: u32
  shows "getStreamId ((a AND 0xffffffff00000000) + ucast b) = getStreamId a" "getSurfaceId ((a AND 0xffffffff00000000) + ucast b) = b"
proof -
  have "(a AND 0xffffffff00000000) AND ucast b = 0"
    by (rule bit_word_eqI) (auto simp only: bit_and_iff bit_high_mask bit_ucast_u32 bit_0_eq bot_apply bot_bool_def
      not_less[symmetric] dest: bit_u32_less)
  then have eq: "(a AND 0xffffffff00000000) + ucast b = (a AND 0xffffffff00000000) OR ucast b"
    by (rule disjunctive_add_eq_or)
  show "getStreamId ((a AND 0xffffffff00000000) + ucast b) = getStreamId a"
    unfolding eq by (rule bit_word_eqI) (auto simp only: bit_halves bit_or_iff bit_and_iff bit_high_mask bit_ucast_u32
        dest: bit_u32_less)
  show "getSurfaceId ((a AND 0xffffffff00000000) + ucast b) = b"
    unfolding eq by (rule bit_word_eqI) (auto simp only: bit_halves bit_or_iff bit_and_iff bit_high_mask bit_ucast_u32
        not_le[symmetric] dest: bit_u32_less)
qed

lemma u64_halves_eq: "getStreamId a = getStreamId b \<Longrightarrow> getSurfaceId a = getSurfaceId b \<Longrightarrow> a = b"
  by (metis stream_id_split)

definition stream_offset :: "stream_maps \<Rightarrow> u64 \<Rightarrow> u64 option" where
  "stream_offset s ss = map_of (m_ObjectIdOffsetMap s) ss"

lemma offset_recorded:
  "stream_offset (snd (objectIdMapping cfg i ss s)) = (case stream_offset s ss of None \<Rightarrow> (stream_offset s)(ss \<mapsto> i) | Some _ \<Rightarrow> stream_offset s)"
  by (auto simp: objectIdMapping_def record_offset_def stream_offset_def map_of_map_touch fun_eq_iff Let_def split: option.split)

lemma mapped_halves:
  assumes "objectIdMapping cfg i ss s = (i', s')"
  shows "getStreamId i' = getStreamId i"
    "getSurfaceId i' = (if from_zero cfg then getSurfaceId i - getSurfaceId (the (stream_offset s' ss)) else getSurfaceId i)"
  using assms
  by (auto simp: objectIdMapping_def Let_def stream_offset_def halves ucast_minus_u32 getSurfaceId_def
      halves(2)[unfolded getSurfaceId_def])

text \<open>
  Property C25. Within a stream the ids that objects get are as distinct as those of the low-level tracker, from the first object
  until the source is removed; the upper half is kept, and in the mode that starts from zero the
  first object of a stream gets the lower half zero.
\<close>

theorem object_ids_distinct:
  assumes "objectIdMapping cfg i ss s = (i', s')" "objectIdMapping cfg j ss s2 = (j', s3)" "stream_offset s2 ss = stream_offset s' ss"
  shows "(i' = j' \<longleftrightarrow> i = j) \<and> getStreamId i' = getStreamId i \<and>
    (from_zero cfg \<and> stream_offset s ss = None \<longrightarrow> getSurfaceId i' = 0)"
proof -
  have off: "stream_offset s' ss \<noteq> None" "stream_offset s ss = None \<longrightarrow> stream_offset s' ss = Some i"
    using offset_recorded[of cfg i ss s] assms(1) by (auto split: option.splits)
  then have "stream_offset s3 ss = stream_offset s' ss"
    using offset_recorded[of cfg j ss s2] assms(2,3) by (auto split: option.splits)
  with mapped_halves[OF assms(1)] mapped_halves[OF assms(2)] have "i' = j' \<longleftrightarrow> i = j"
    using u64_halves_eq by (metis diff_add_cancel)
  with mapped_halves[OF assms(1)] off(2) show ?thesis by auto
qed

section \<open>The objects of a frame after tracking\<close>

fun fin :: "dbl \<Rightarrow> bool" where
  "fin (Fin r) = True"
| "fin _ = False"

definition fin_box :: "box \<Rightarrow> bool" where
  "fin_box b = (case b of (l, t, w, h) \<Rightarrow> fin l \<and> fin t \<and> fin w \<and> fin h)"

text \<open>A box with an area, inside of a frame of that size.\<close>

definition in_frame :: "u32 \<times> u32 \<Rightarrow> box \<Rightarrow> bool" where
  "in_frame surf b = (case b of (l, t, w, h) \<Rightarrow> 0 \<le> l \<and> 0 \<le> t \<and> 0 < w \<and> 0 < h \<and>
     l + w \<le> dbl_of_u32 (fst surf) \<and> t + h \<le> dbl_of_u32 (snd surf))"

lemma clipped_in_frame:
  assumes "clipBBox W H b = (True, b')" "fin_box b"
  shows "in_frame (W, H) b'"
proof -
  obtain l t w h where b: "b = (Fin l, Fin t, Fin w, Fin h)"
    using assms(2) that by (cases b) (auto simp: fin_box_def elim!: fin.elims)
  from clip_is_intersection[of W H l t w h] assms(1) obtain l' t' w' h' where
    "intersection W H l t w h = Some (l', t', w', h')" "b' = (Fin l', Fin t', Fin w', Fin h')"
    by (auto simp: b split: option.splits)
  then show ?thesis
    by (auto simp: intersection_def Let_def in_frame_def zero_dbl_Fin dbl_of_u32_def split: if_splits)
qed

definition object_box :: "tracked_object \<Rightarrow> box" where
  "object_box ob = rect_box (rect_params ob)"

text \<open>The id for an id of the library, once the offset of the stream is known.\<close>

definition mapped_id :: "TrackerConfig \<Rightarrow> u64 \<Rightarrow> u64 \<Rightarrow> u64" where
  "mapped_id cfg off i =
     (if from_zero cfg then (i AND 0xffffffff00000000) + ucast (ucast (i - off) :: u32) else i)"

lemma objectIdMapping_mapped:
  "objectIdMapping cfg i ss s = (i', s') \<Longrightarrow> \<exists>off. stream_offset s' ss = Some off \<and> i' = mapped_id cfg off i \<and>
     (stream_offset s ss \<noteq> None \<longrightarrow> stream_offset s' ss = stream_offset s ss) \<and>
     (\<forall>ss'. ss' \<noteq> ss \<longrightarrow> stream_offset s' ss' = stream_offset s ss')"
  by (rule exI[of _ "the (stream_offset s' ss)"])
    (auto simp: objectIdMapping_def mapped_id_def Let_def stream_offset_def record_offset_def map_of_map_touch
      split: option.split)

text \<open>
  The box of a tracked object on the surface of the frame. \<open>boxed_by\<close>: an object has exactly the clipped box, the
  unclipped box and the confidence of a tracked object, and the box has an area inside of the frame.
\<close>

definition surface_box :: "TrackerConfig \<Rightarrow> u32 \<times> u32 \<Rightarrow> NvMOTTrackedObj \<Rightarrow> box" where
  "surface_box cfg surf t = scale_box (ddiv (dbl_of_u32 (fst surf)) (dbl_of_u32 (trackerWidth cfg)))
     (ddiv (dbl_of_u32 (snd surf)) (dbl_of_u32 (trackerHeight cfg))) (out_bbox t)"

definition boxed_by :: "TrackerConfig \<Rightarrow> u32 \<times> u32 \<Rightarrow> NvMOTTrackedObj \<Rightarrow> tracked_object \<Rightarrow> bool" where
  "boxed_by cfg surf t ob \<longleftrightarrow> class_id ob = uint (out_classId t) \<and>
     clipBBox (fst surf) (snd surf) (surface_box cfg surf t) = (True, object_box ob) \<and> in_frame surf (object_box ob) \<and>
     tracker_bbox ob = surface_box cfg surf t \<and> tracker_confidence ob = out_confidence t"

text \<open>An object with class and boxes as another one: only id and text may differ.\<close>

definition same_box :: "tracked_object \<Rightarrow> tracked_object \<Rightarrow> bool" where
  "same_box ob ob0 \<longleftrightarrow> class_id ob = class_id ob0 \<and> object_box ob = object_box ob0 \<and> tracker_bbox ob = tracker_bbox ob0 \<and>
     tracker_confidence ob = tracker_confidence ob0"

text \<open>
  An object of the library: it has the id of a tracked object and, when the classes agree, its boxes and confidence.
  When the library disputes the class, the object is the one that the tracked object names, and what it had stays: what it
  came with, or what a tracked object before that agreed gave it.
\<close>

definition from_library :: "TrackerConfig \<Rightarrow> u32 \<times> u32 \<Rightarrow> u64 option \<Rightarrow> NvMOTTrackedObj list \<Rightarrow> track_frame \<Rightarrow> nat \<times> tracked_object \<Rightarrow> bool" where
  "from_library cfg surf off ts f0 = (\<lambda>(a, ob). \<exists>t\<in>set ts. off \<noteq> None \<and> object_id ob = mapped_id cfg (the off) (trackingId t) \<and>
     (boxed_by cfg surf t ob \<or>
      class_id ob \<noteq> uint (out_classId t) \<and> associatedObjectIn t = Some a \<and>
        ((\<exists>ob0. (a, ob0) \<in> set (f_objects f0) \<and> same_box ob ob0) \<or> (\<exists>t'\<in>set ts. boxed_by cfg surf t' ob))))"

text \<open>An object as it came, which the library does not name, or one of the library.\<close>

definition object_tracked :: "TrackerConfig \<Rightarrow> u32 \<times> u32 \<Rightarrow> u64 option \<Rightarrow> NvMOTTrackedObj list \<Rightarrow> track_frame \<Rightarrow> nat \<times> tracked_object \<Rightarrow> bool" where
  "object_tracked cfg surf off ts f0 x \<longleftrightarrow>
     x \<in> set (f_objects f0) \<and> (\<forall>t\<in>set ts. associatedObjectIn t \<noteq> Some (fst x)) \<or> from_library cfg surf off ts f0 x"

definition frame_tracked :: "TrackerConfig \<Rightarrow> u32 \<times> u32 \<Rightarrow> u64 option \<Rightarrow> NvMOTTrackedObj list \<Rightarrow> track_frame \<Rightarrow> track_frame \<Rightarrow> bool" where
  "frame_tracked cfg surf off ts f0 f \<longleftrightarrow> f_batch_id f = f_batch_id f0 \<and>
     (\<forall>x\<in>set (f_objects f). object_tracked cfg surf off ts f0 x)"

lemma style_tracked_fields:
  "style_tracked env cfg ob = Some ob' \<Longrightarrow> rect_params ob' = rect_params ob \<and> class_id ob' = class_id ob \<and>
     object_id ob' = object_id ob \<and> tracker_confidence ob' = tracker_confidence ob \<and> tracker_bbox ob' = tracker_bbox ob"
  by (auto simp: style_tracked_def Let_def split: if_splits)

lemma set_tracked_fields:
  "set_tracked env cfg sw sh t b ob = Some ob' \<Longrightarrow> object_box ob' = b \<and> class_id ob' = class_id ob \<and>
     object_id ob' = object_id ob \<and> tracker_confidence ob' = out_confidence t \<and> tracker_bbox ob' = scale_box sw sh (out_bbox t)"
  by (auto simp: set_tracked_def object_box_def set_box_def rect_box_def split: prod.split)

lemma missed_object_class: "class_id (missed_object env classes t) = uint (out_classId t)"
  by (simp add: missed_object_def Let_def)

lemma fin_scale:
  assumes "fin_box b" "m \<noteq> 0" "n \<noteq> 0"
  shows "fin_box (scale_box (ddiv (dbl_of_u32 x) (dbl_of_u32 m)) (ddiv (dbl_of_u32 y) (dbl_of_u32 n)) b)"
proof -
  have nz: "of_int (uint m) \<noteq> (0 :: rat)" "of_int (uint n) \<noteq> (0 :: rat)"
    using assms(2,3) by (simp_all only: of_int_eq_0_iff uint_eq_0_iff_word not_False_eq_True)
  have "ddiv (dbl_of_u32 x) (dbl_of_u32 m) = Fin (of_int (uint x) / of_int (uint m))"
    "ddiv (dbl_of_u32 y) (dbl_of_u32 n) = Fin (of_int (uint y) / of_int (uint n))"
    unfolding dbl_of_u32_def by (rule ddiv_Fin[OF nz(1)], rule ddiv_Fin[OF nz(2)])
  with assms(1) show ?thesis by (cases b) (auto simp: fin_box_def scale_box_def elim!: fin.elims)
qed

lemma from_library_more:
  "from_library cfg surf off ts f0 x \<Longrightarrow> off \<noteq> None \<longrightarrow> off' = off \<Longrightarrow> from_library cfg surf off' (ts @ [t]) f0 x"
  unfolding from_library_def by fastforce

lemma object_tracked_more:
  "object_tracked cfg surf off ts f0 x \<Longrightarrow> off \<noteq> None \<longrightarrow> off' = off \<Longrightarrow> associatedObjectIn t \<noteq> Some (fst x) \<Longrightarrow>
     object_tracked cfg surf off' (ts @ [t]) f0 x"
  unfolding object_tracked_def using from_library_more[of cfg surf off ts f0 x off' t] by auto

text \<open>A tracked object that names an object of the frame and disputes its class.\<close>

lemma disputed_tracked:
  assumes "object_tracked cfg surf off ts f0 (a, ob)" "off \<noteq> None \<longrightarrow> off' = off" "off' \<noteq> None"
    and "associatedObjectIn t = Some a" "class_id ob \<noteq> uint (out_classId t)" "same_box ob2 ob"
    and "object_id ob2 = mapped_id cfg (the off') (trackingId t)"
  shows "from_library cfg surf off' (ts @ [t]) f0 (a, ob2)"
proof -
  have same: "boxed_by cfg surf t' ob2 \<longleftrightarrow> boxed_by cfg surf t' ob" "same_box ob ob0 \<Longrightarrow> same_box ob2 ob0"
    "class_id ob2 = class_id ob" "same_box ob2 ob" for t' ob0
    using assms(6) by (auto simp: same_box_def boxed_by_def)
  have "(\<exists>ob0. (a, ob0) \<in> set (f_objects f0) \<and> same_box ob2 ob0) \<or> (\<exists>t'\<in>set ts. boxed_by cfg surf t' ob2)"
    using assms(1) same unfolding object_tracked_def from_library_def by auto
  then show ?thesis using assms(3-5,7) same(3) unfolding from_library_def by auto
qed

lemma put_object_subset: "set (f_objects (put_object a ob f)) \<subseteq> insert (a, ob) (set (f_objects f))"
  by (auto simp: put_object_def split: if_splits)

lemma update_object_tracked:
  assumes "update_object env cfg classes surf ss t (f, maps) = Some (f', maps')"
    and "frame_tracked cfg surf (stream_offset maps ss) ts f0 f" "fin_box (out_bbox t)" "trackerWidth cfg \<noteq> 0" "trackerHeight cfg \<noteq> 0"
  shows "frame_tracked cfg surf (stream_offset maps' ss) (ts @ [t]) f0 f' \<and>
    (stream_offset maps ss \<noteq> None \<longrightarrow> stream_offset maps' ss = stream_offset maps ss) \<and>
    (\<forall>ss'. ss' \<noteq> ss \<longrightarrow> stream_offset maps' ss' = stream_offset maps ss')"
proof -
  let ?sw = "ddiv (dbl_of_u32 (fst surf)) (dbl_of_u32 (trackerWidth cfg))"
  let ?sh = "ddiv (dbl_of_u32 (snd surf)) (dbl_of_u32 (trackerHeight cfg))"
  obtain inside b where c: "clipBBox (fst surf) (snd surf) (scale_box ?sw ?sh (out_bbox t)) = (inside, b)" by (rule prod.exhaust)
  obtain i maps1 where i: "objectIdMapping cfg (trackingId t) ss maps = (i, maps1)" by (rule prod.exhaust)
  from objectIdMapping_mapped[OF i] obtain off where off: "stream_offset maps1 ss = Some off" "i = mapped_id cfg off (trackingId t)"
    "stream_offset maps ss \<noteq> None \<longrightarrow> stream_offset maps1 ss = stream_offset maps ss"
    "\<forall>ss'. ss' \<noteq> ss \<longrightarrow> stream_offset maps1 ss' = stream_offset maps ss'" by blast
  have box: "in_frame surf b" if inside
    using clipped_in_frame[OF _ fin_scale[OF assms(3-5)]] c that by (metis prod.collapse)
  note upd = assms(1)[unfolded update_object_def Let_def prod.case c i]
  have old: "object_tracked cfg surf (Some off) (ts @ [t]) f0 x"
    if "x \<in> set (f_objects f)" "associatedObjectIn t \<noteq> Some (fst x)" for x
    by (rule object_tracked_more[OF _ _ that(2)]) (use assms(2) that(1) off(1,3) in \<open>auto simp: frame_tracked_def\<close>)
  have new: "from_library cfg surf (Some off) (ts @ [t]) f0 (a, ob3)"
    if "set_tracked env cfg ?sw ?sh t b ob1 = Some ob2" "style_tracked env cfg ob2 = Some ob3" "object_id ob1 = i"
      "class_id ob1 = uint (out_classId t)" inside for a ob1 ob2 ob3
  proof -
    have "boxed_by cfg surf t ob3"
      using that(4,5) set_tracked_fields[OF that(1)] style_tracked_fields[OF that(2)] c box
      by (simp add: boxed_by_def object_box_def surface_box_def)
    then show ?thesis using that(3) set_tracked_fields[OF that(1)] style_tracked_fields[OF that(2)] off(2)
      by (auto simp: from_library_def)
  qed
  show ?thesis
  proof (cases "associatedObjectIn t")
    case None
    show ?thesis
    proof (cases inside)
      case False
      then have "f' = f" "maps' = maps" using upd None by auto
      then show ?thesis using assms(2) None object_tracked_more[of cfg surf "stream_offset maps ss" ts f0 _ "stream_offset maps ss" t]
        unfolding frame_tracked_def by auto
    next
      case True
      with upd None obtain ob1 ob2 where ob: "set_tracked env cfg ?sw ?sh t b ((missed_object env classes t)\<lparr>object_id := i\<rparr>) = Some ob1"
        "style_tracked env cfg ob1 = Some ob2" "f' = add_object ob2 f" "maps' = maps1"
        by (auto simp: bind_eq_Some_conv)
      have "from_library cfg surf (Some off) (ts @ [t]) f0 (next_address f, ob2)"
        by (rule new[OF ob(1,2) _ _ True]) (simp_all add: missed_object_class)
      then show ?thesis using assms(2) old None off ob(3,4) by (auto simp: frame_tracked_def add_object_def object_tracked_def)
    qed
  next
    case (Some a)
    with upd obtain ob where ob: "map_of (f_objects f) a = Some ob" by (auto split: option.splits)
    show ?thesis
    proof (cases inside)
      case False
      then have f': "f' = remove_object a f" "maps' = maps1" using upd Some ob by auto
      have "object_tracked cfg surf (Some off) (ts @ [t]) f0 x" if "x \<in> set (f_objects (remove_object a f))" for x
        using that by (intro old) (auto simp: remove_object_def Some)
      then show ?thesis using assms(2) off f' by (auto simp: frame_tracked_def remove_object_def)
    next
      case True
      with upd Some ob obtain ob1 ob2 where ob1: "(if class_id ob \<noteq> uint (out_classId t) then Some (ob\<lparr>object_id := i\<rparr>)
          else set_tracked env cfg ?sw ?sh t b (ob\<lparr>object_id := i\<rparr>)) = Some ob1"
        "style_tracked env cfg ob1 = Some ob2" "f' = put_object a ob2 f" "maps' = maps1"
        by (auto simp: bind_eq_Some_conv)
      have lib: "from_library cfg surf (Some off) (ts @ [t]) f0 (a, ob2)"
      proof (cases "class_id ob = uint (out_classId t)")
        case True
        then show ?thesis using ob1(1,2) \<open>inside\<close> by (intro new[of "ob\<lparr>object_id := i\<rparr>" ob1]) simp_all
      next
        case False
        then have "ob1 = ob\<lparr>object_id := i\<rparr>" using ob1(1) by simp
        then have same: "same_box ob2 ob" "object_id ob2 = i"
          using style_tracked_fields[OF ob1(2)] by (simp_all add: same_box_def object_box_def)
        have "object_tracked cfg surf (stream_offset maps ss) ts f0 (a, ob)"
          using assms(2) map_of_SomeD[OF ob] by (auto simp: frame_tracked_def)
        then show ?thesis
          by (rule disputed_tracked[OF _ _ _ Some False same(1)]) (use off(1,3) same(2) off(2) in auto)
      qed
      have "object_tracked cfg surf (Some off) (ts @ [t]) f0 x" if x: "x \<in> set (f_objects (put_object a ob2 f))" for x
      proof (cases "fst x = a")
        case True
        then have "x = (a, ob2)" using x by (cases x) (auto simp: put_object_def)
        then show ?thesis using lib by (simp add: object_tracked_def)
      next
        case False
        then have "x \<in> set (f_objects f)" using x put_object_subset[of a ob2 f] by auto
        then show ?thesis using False by (intro old) (simp_all add: Some)
      qed
      then have "frame_tracked cfg surf (Some off) (ts @ [t]) f0 (put_object a ob2 f)"
        using assms(2) unfolding frame_tracked_def by (auto simp: put_object_def)
      then show ?thesis using off ob1(3,4) by auto
    qed
  qed
qed

lemma update_objects_tracked:
  assumes "update_objects env cfg classes surf ss us (f, maps) = Some (f', maps')"
    and "frame_tracked cfg surf (stream_offset maps ss) ts f0 f" "\<forall>t\<in>set us. fin_box (out_bbox t)"
    "trackerWidth cfg \<noteq> 0" "trackerHeight cfg \<noteq> 0"
  shows "frame_tracked cfg surf (stream_offset maps' ss) (ts @ us) f0 f' \<and>
    (\<forall>ss'. ss' \<noteq> ss \<longrightarrow> stream_offset maps' ss' = stream_offset maps ss')"
  using assms(1-3)
proof (induction us arbitrary: f maps ts)
  case (Cons u us)
  then obtain f1 maps1 where u: "update_object env cfg classes surf ss u (f, maps) = Some (f1, maps1)"
    "update_objects env cfg classes surf ss us (f1, maps1) = Some (f', maps')"
    by (auto simp: bind_eq_Some_conv)
  from update_object_tracked[OF u(1) Cons.prems(2) _ assms(4,5)] Cons.prems(3)
  have "frame_tracked cfg surf (stream_offset maps1 ss) (ts @ [u]) f0 f1"
    "\<forall>ss'. ss' \<noteq> ss \<longrightarrow> stream_offset maps1 ss' = stream_offset maps ss'" by simp_all
  with Cons.IH[OF u(2) this(1)] Cons.prems(3) show ?case by simp
qed auto

text \<open>What the library says of a stream.\<close>

definition said_of :: "u64 \<Rightarrow> NvMOTTrackedObjList list \<Rightarrow> NvMOTTrackedObj list" where
  "said_of ss outs = concat (map tracked_list (filter (\<lambda>out. list_streamID out = ss) outs))"

lemma said_of_snoc: "said_of ss (outs @ [out]) = said_of ss outs @ (if list_streamID out = ss then tracked_list out else [])"
  by (simp add: said_of_def)

definition frames_tracked ::
  "track_env \<Rightarrow> TrackerConfig \<Rightarrow> NvMOTTrackedObjList list \<Rightarrow> (u64 \<times> track_frame) list \<Rightarrow> (u64 \<times> track_frame) list \<times> stream_maps \<Rightarrow> bool" where
  "frames_tracked env cfg outs fm0 = (\<lambda>(fm, maps). map fst fm = map fst fm0 \<and>
     (\<forall>ss f0. map_of fm0 ss = Some f0 \<longrightarrow> (\<exists>f. map_of fm ss = Some f \<and>
        frame_tracked cfg (surface_size env (f_batch_id f0)) (stream_offset maps ss) (said_of ss outs) f0 f)))"

lemma frames_trackedD:
  assumes "frames_tracked env cfg outs fm0 (fm, maps)"
  shows "map fst fm = map fst fm0"
    "map_of fm0 ss = Some f0 \<Longrightarrow> map_of fm ss = Some f \<Longrightarrow>
       frame_tracked cfg (surface_size env (f_batch_id f0)) (stream_offset maps ss) (said_of ss outs) f0 f"
  using assms unfolding frames_tracked_def by auto (metis option.inject)

lemma map_fst_put: "map_wf m \<Longrightarrow> k \<in> fst ` set m \<Longrightarrow> map fst (map_put k v m) = map fst m"
  by (induction k v m rule: map_put.induct) auto

lemma update_lists_tracked:
  assumes "update_lists env cfg classes outs (fm, maps) = Some r" "frames_tracked env cfg outs0 fm0 (fm, maps)" "map_wf fm0"
    and "\<forall>out\<in>set outs. \<forall>t\<in>set (tracked_list out). fin_box (out_bbox t)" "trackerWidth cfg \<noteq> 0" "trackerHeight cfg \<noteq> 0"
  shows "frames_tracked env cfg (outs0 @ outs) fm0 r"
  using assms(1,2,4)
proof (induction outs arbitrary: fm maps outs0)
  case (Cons out outs)
  let ?s = "list_streamID out"
  have wf: "map_wf fm" using Cons.prems(2) assms(3) by (simp add: frames_tracked_def)
  show ?case
  proof (cases "map_of fm ?s")
    case None
    then have none: "map_of fm0 ?s = None" using Cons.prems(2) by (auto simp: frames_tracked_def map_of_eq_None_iff
        simp flip: set_map)
    have "frames_tracked env cfg (outs0 @ [out]) fm0 (fm, maps)"
      using Cons.prems(2) none by (auto simp: frames_tracked_def said_of_snoc)
    from Cons.IH[OF _ this] Cons.prems(1,3) None show ?thesis by simp
  next
    case (Some f)
    with Cons.prems(1) obtain f1 maps1 where f1: "updateFrameMeta env cfg classes out (f, maps) = Some (f1, maps1)"
      "update_lists env cfg classes outs (map_put ?s f1 fm, maps1) = Some r"
      by (auto split: option.splits)
    have "?s \<in> fst ` set fm0" using Some Cons.prems(2) by (auto simp: frames_tracked_def dest!: map_of_SomeD)
      (metis fst_conv image_eqI list.set_map)
    then obtain f0 where f0: "map_of fm0 ?s = Some f0" by (metis map_of_eq_None_iff not_None_eq)
    then have t: "frame_tracked cfg (surface_size env (f_batch_id f0)) (stream_offset maps ?s) (said_of ?s outs0) f0 f"
      "f_batch_id f = f_batch_id f0"
      using frames_trackedD(2)[OF Cons.prems(2) f0 Some] by (simp_all add: frame_tracked_def)
    have upd: "update_objects env cfg classes (surface_size env (f_batch_id f0)) ?s (tracked_list out) (f, maps) = Some (f1, maps1)"
      using f1(1) t(2) by (simp add: updateFrameMeta_def)
    from update_objects_tracked[OF upd t(1) _ assms(5,6)] Cons.prems(3)
    have u: "frame_tracked cfg (surface_size env (f_batch_id f0)) (stream_offset maps1 ?s) (said_of ?s outs0 @ tracked_list out) f0 f1"
      "\<forall>ss'. ss' \<noteq> ?s \<longrightarrow> stream_offset maps1 ss' = stream_offset maps ss'" by simp_all
    have "map fst (map_put ?s f1 fm) = map fst fm0"
      using map_fst_put[OF wf] Some Cons.prems(2) by (auto simp: frames_tracked_def dest!: map_of_SomeD) (metis fst_conv image_eqI)
    then have "frames_tracked env cfg (outs0 @ [out]) fm0 (map_put ?s f1 fm, maps1)"
      using Cons.prems(2) u f0 by (auto simp: frames_tracked_def said_of_snoc)
    from Cons.IH[OF f1(2) this] Cons.prems(3) show ?thesis by simp
  qed
qed simp

text \<open>
  Property C24. After the output of the library has been worked in, every object of a frame carries an id, and it is an
  object as it came that no tracked object of the stream names, or it has the id of a tracked object of the stream.
  Then it has exactly the box of the tracked object, scaled to the surface and clipped, which has an area and lies
  inside of the frame, the unclipped box and the confidence; or the library disputes its class, and it keeps its own class and
  boxes. Detections that are not tracked are gone.
\<close>

theorem frame_objects_tracked:
  assumes "updateBatchMeta env cfg classes outs (fm, maps) = Some (fm', maps')" "map_wf fm" "(ss, f') \<in> set fm'"
    and "\<forall>out\<in>set outs. \<forall>t\<in>set (tracked_list out). fin_box (out_bbox t)" "trackerWidth cfg \<noteq> 0" "trackerHeight cfg \<noteq> 0"
  shows "\<exists>f. (ss, f) \<in> set fm \<and> (\<forall>(a, ob)\<in>set (f_objects f'). object_id ob \<noteq> UNTRACKED_OBJECT_ID \<and>
    ((a, ob) \<in> set (f_objects f) \<and> (\<forall>t\<in>set (said_of ss outs). associatedObjectIn t \<noteq> Some a) \<or>
     from_library cfg (surface_size env (f_batch_id f)) (stream_offset maps' ss) (said_of ss outs) f (a, ob)))"
proof -
  obtain fm1 where fm1: "update_lists env cfg classes outs (fm, maps) = Some (fm1, maps')"
    "fm' = map (\<lambda>(ss, f). (ss, removeUntrackedObjects f)) fm1"
    using assms(1) by (auto simp: updateBatchMeta_def)
  have "frames_tracked env cfg [] fm (fm, maps)" by (auto simp: frames_tracked_def frame_tracked_def object_tracked_def said_of_def)
  from update_lists_tracked[OF fm1(1) this assms(2,4-6)] have t: "frames_tracked env cfg outs fm (fm1, maps')" by simp
  obtain f1 where f1: "(ss, f1) \<in> set fm1" "f' = removeUntrackedObjects f1" using assms(3) fm1(2) by auto
  have keys: "map fst fm1 = map fst fm" "distinct (map fst fm1)"
    using t assms(2) map_wf_distinct[OF assms(2)] by (auto simp: frames_tracked_def)
  then have "ss \<in> fst ` set fm" using f1(1) by (metis fst_conv image_eqI list.set_map)
  then obtain f where f: "map_of fm ss = Some f" by (metis map_of_eq_None_iff not_None_eq)
  have "map_of fm1 ss = Some f1" using f1(1) keys(2) by simp
  then have "frame_tracked cfg (surface_size env (f_batch_id f)) (stream_offset maps' ss) (said_of ss outs) f f1"
    using frames_trackedD(2) t f by blast
  then show ?thesis using map_of_SomeD[OF f] f1(2)
    by (intro exI[of _ f]) (fastforce simp: frame_tracked_def object_tracked_def removeUntrackedObjects_def)
qed

section \<open>The rounds of a batch\<close>

text \<open>The frames of a stream in the batch, in their order.\<close>

definition frames_of :: "TrackerConfig \<Rightarrow> (nat \<times> track_frame) list \<Rightarrow> u64 \<Rightarrow> nat list" where
  "frames_of cfg fs ss = map fst (filter (\<lambda>(i, f). selected_frame cfg f \<and> frame_ssid f = ss) fs)"

definition nth_option :: "'a list \<Rightarrow> nat \<Rightarrow> 'a option" where
  "nth_option xs k = (if k < length xs then Some (xs ! k) else None)"

definition rounds_ok :: "(u64 \<Rightarrow> nat list) \<Rightarrow> (u64 \<times> nat) list list \<Rightarrow> bool" where
  "rounds_ok occ bl \<longleftrightarrow> (\<forall>ss. length (occ ss) \<le> length bl) \<and>
     (\<forall>k<length bl. bl ! k \<noteq> [] \<and> map_wf (bl ! k) \<and> (\<forall>ss. map_of (bl ! k) ss = nth_option (occ ss) k))"

lemma map_put_nonempty [simp]: "map_put k v m \<noteq> []"
  by (induction k v m rule: map_put.induct) auto

lemma rounds_ok_add:
  fixes ss :: u64
  assumes "rounds_ok occ bl"
  defines "bl1 \<equiv> bl @ replicate (Suc (length (occ ss)) - length bl) []"
  shows "rounds_ok (occ(ss := occ ss @ [i])) (bl1[length (occ ss) := map_put ss i (bl1 ! length (occ ss))])"
proof -
  let ?k = "length (occ ss)"
  have k: "?k \<le> length bl" using assms(1) by (simp add: rounds_ok_def)
  have bl1: "bl1 = (if ?k = length bl then bl @ [[]] else bl)" "?k < length bl1"
    using k by (auto simp: bl1_def Suc_diff_le)
  have at: "map_of (bl1 ! j) s = (if j < length bl then nth_option (occ s) j else None)" "map_wf (bl1 ! j)"
    "j \<noteq> ?k \<Longrightarrow> bl1 ! j \<noteq> []" if "j < length bl1" for j s
    using that assms(1) bl1(1) by (auto simp: rounds_ok_def nth_append less_Suc_eq split: if_splits)
  have none: "nth_option (occ s) j = None" if "length bl \<le> j" for s j
    using that assms(1) by (auto simp: rounds_ok_def nth_option_def) (meson leD le_trans)
  have later: "nth_option (occ ss @ [i]) j = (if j = ?k then Some i else nth_option (occ ss) j)" for j
    by (auto simp: nth_option_def nth_append)
  show ?thesis
    unfolding rounds_ok_def
  proof (intro conjI allI impI)
    show "length ((occ(ss := occ ss @ [i])) s) \<le> length (bl1[?k := map_put ss i (bl1 ! ?k)])" for s
      using assms(1) bl1 by (auto simp: rounds_ok_def le_Suc_eq)
    fix j assume "j < length (bl1[?k := map_put ss i (bl1 ! ?k)])"
    then have j: "j < length bl1" by simp
    show "bl1[?k := map_put ss i (bl1 ! ?k)] ! j \<noteq> []" using at(3)[OF j] bl1(2) by (cases "j = ?k") auto
    show "map_wf (bl1[?k := map_put ss i (bl1 ! ?k)] ! j)" using at(2) j bl1(2) by (cases "j = ?k") auto
    show "map_of (bl1[?k := map_put ss i (bl1 ! ?k)] ! j) s = nth_option ((occ(ss := occ ss @ [i])) s) j" for s
      using at(1)[OF j, of s] later none[of j s] j bl1(2) by (cases "j = ?k") (auto simp: not_less)
  qed
qed

lemma queue_frames_rounds:
  assumes "rounds_ok occ bl" "fc = (\<lambda>ss. length (occ ss))"
  shows "rounds_ok (\<lambda>ss. occ ss @ frames_of cfg fs ss) (queue_frames cfg fs fc bl)"
  using assms
proof (induction fs arbitrary: occ fc bl)
  case Nil
  then show ?case by (simp add: frames_of_def)
next
  case (Cons p fs)
  obtain i f where p: "p = (i, f)" by (cases p)
  show ?case
  proof (cases "selected_frame cfg f")
    case False
    then have "frames_of cfg (p # fs) = frames_of cfg fs" by (simp add: frames_of_def fun_eq_iff p)
    then show ?thesis using Cons.IH[OF Cons.prems] False by (simp add: p)
  next
    case True
    let ?ss = "frame_ssid f" and ?k = "length (occ (frame_ssid f))"
    let ?bl = "bl @ replicate (Suc ?k - length bl) []" and ?occ = "occ(frame_ssid f := occ (frame_ssid f) @ [i])"
    have "frames_of cfg (p # fs) s = (if s = ?ss then i # frames_of cfg fs s else frames_of cfg fs s)" for s
      using True by (auto simp: frames_of_def p)
    then have occ: "(\<lambda>ss. ?occ ss @ frames_of cfg fs ss) = (\<lambda>ss. occ ss @ frames_of cfg (p # fs) ss)" by auto
    have fc: "fc(?ss := Suc (fc ?ss)) = (\<lambda>ss. length (?occ ss))" using Cons.prems(2) by auto
    have eq: "queue_frames cfg (p # fs) fc bl = queue_frames cfg fs (fc(?ss := Suc (fc ?ss))) (?bl[?k := map_put ?ss i (?bl ! ?k)])"
      using True Cons.prems(2) by (simp add: p Let_def)
    show ?thesis unfolding eq occ[symmetric] by (rule Cons.IH[OF rounds_ok_add[OF Cons.prems(1)] fc])
  qed
qed

text \<open>
  Property C26. The frames of a batch are handed to the library in rounds: the \<open>k\<close>-th selected frame of every stream is
  in the \<open>k\<close>-th round and nothing else, each stream at most once in a round, and no round is empty; so the library sees
  the frames of a stream in their order and every selected frame once.
\<close>

theorem rounds_keep_order:
  "list_all (\<lambda>m. m \<noteq> [] \<and> map_wf m) (queueFrames cfg fs) \<and>
   (\<forall>ss. \<exists>n. map (\<lambda>m. map_of m ss) (queueFrames cfg fs) = map Some (frames_of cfg (enumerate 0 fs) ss) @ replicate n None)"
proof -
  have "rounds_ok (\<lambda>ss. [] @ frames_of cfg (enumerate 0 fs) ss) (queueFrames cfg fs)"
    unfolding queueFrames_def by (rule queue_frames_rounds) (simp_all add: rounds_ok_def)
  then have r: "rounds_ok (frames_of cfg (enumerate 0 fs)) (queueFrames cfg fs)" by simp
  let ?bl = "queueFrames cfg fs" and ?o = "frames_of cfg (enumerate 0 fs)"
  have "map (\<lambda>m. map_of m ss) ?bl = map Some (?o ss) @ replicate (length ?bl - length (?o ss)) None" for ss
    by (rule nth_equalityI) (use r in \<open>auto simp: rounds_ok_def nth_option_def nth_append\<close>)
  then show ?thesis using r unfolding rounds_ok_def list_all_length by blast
qed

section \<open>An example\<close>

definition sample_track_env :: track_env where
  "sample_track_env = \<lparr>pool_tracked = NvDsObjectMeta.extend
       \<lparr>unique_component_id = 0, class_id = 0, object_id = UNTRACKED_OBJECT_ID, meta_confidence = 0,
        rect_params = \<lparr>rect_left = 0, rect_top = 0, rect_width = 0, rect_height = 0, border_width = 0, border_color = black,
          has_bg_color = 0, bg_color = black\<rparr>,
        org_bbox = (0, 0, 0, 0), text_params = \<lparr>display_text = None, x_offset = 0, y_offset = 0, font_name = [], font_size = 0,
          font_color = white, set_bg_clr = 0, text_bg_clr = black\<rparr>,
        meta_label = [], mask_params = None, classifier_meta_list = [], segmentation_metas = []\<rparr>
       \<lparr>tracker_bbox = (0, 0, 0, 0), tracker_confidence = 0, obj_user_meta_list = []\<rparr>,
     odd_u32 = (\<lambda>_. 0), odd_int = (\<lambda>_. 0), null_text = ''(null)'', surface_size = (\<lambda>_. (1280, 768))\<rparr>"

definition detected :: tracked_object where
  "detected = (pool_tracked sample_track_env)\<lparr>rect_params := set_box (Fin 100, Fin 100, Fin 50, Fin 50) (rect_params (pool_tracked sample_track_env))\<rparr>"

definition two_detections :: track_frame where
  "two_detections = \<lparr>f_pad_index = 6, f_surface_index = 0, f_surface_type = 0, f_batch_id = 0, f_frame_num = 1, f_infer_done = True,
     f_objects = [(0, detected), (1, detected)], next_address = 2\<rparr>"

definition tracked_box :: "nat option \<Rightarrow> u64 \<Rightarrow> box \<Rightarrow> NvMOTTrackedObj" where
  "tracked_box a i b = \<lparr>out_classId = 0, trackingId = i, out_bbox = b, out_confidence = 1, associatedObjectIn = a, reid_featureSize = 0,
     reid_pointers = False, visibility = 0, ptImgFeet = (0, 0), ptWorldFeet = (0, 0), hull_points = [], hull_allocated = 0\<rparr>"

definition sample_output :: NvMOTTrackedObjList where
  "sample_output = \<lparr>list_streamID = getSurfaceStreamId 6 0,
     tracked_list = [tracked_box (Some 0) 41 (Fin 55, Fin 55, Fin 25, Fin 25), tracked_box None 42 (Fin (- 10), Fin 0, Fin 30, Fin 30)]\<rparr>"

text \<open>One detection is tracked, the other is dropped, and an object that the detector missed is added.\<close>

lemma sample_update:
  "map_option (\<lambda>(fm, maps). map (\<lambda>(ss, f). (ss, map (\<lambda>(a, ob). (a, object_id ob, object_box ob)) (f_objects f))) fm)
     (updateBatchMeta sample_track_env sub_batch_config (\<lambda>_. None) [sample_output]
        ([(getSurfaceStreamId 6 0, two_detections)], empty_maps)) =
   Some [(getSurfaceStreamId 6 0, [(0, 41, (Fin 110, Fin 110, Fin 50, Fin 50)), (2, 42, (Fin 0, Fin 0, Fin 40, Fin 60))])]"
  by code_simp

theorem frame_objects_tracked_witness:
  "\<exists>fm' maps' f'. updateBatchMeta sample_track_env sub_batch_config (\<lambda>_. None) [sample_output]
     ([(getSurfaceStreamId 6 0, two_detections)], empty_maps) = Some (fm', maps') \<and> (getSurfaceStreamId 6 0, f') \<in> set fm' \<and>
     length (f_objects f') = 2 \<and> (\<forall>(a, ob)\<in>set (f_objects f'). object_id ob \<noteq> UNTRACKED_OBJECT_ID)"
proof -
  obtain fm' maps' f' where u: "updateBatchMeta sample_track_env sub_batch_config (\<lambda>_. None) [sample_output]
     ([(getSurfaceStreamId 6 0, two_detections)], empty_maps) = Some (fm', maps')"
    "fm' = [(getSurfaceStreamId 6 0, f')]" "length (f_objects f') = 2"
    using sample_update by (auto simp: map_eq_Cons_conv split: prod.splits)
  have "\<forall>out\<in>set [sample_output]. \<forall>t\<in>set (tracked_list out). fin_box (out_bbox t)"
    by (simp add: sample_output_def tracked_box_def fin_box_def)
  moreover have "trackerWidth sub_batch_config \<noteq> 0" "trackerHeight sub_batch_config \<noteq> 0" by (simp_all add: sub_batch_config_def)
  ultimately show ?thesis using frame_objects_tracked[OF u(1), of "getSurfaceStreamId 6 0" f'] u by auto
qed

theorem object_ids_distinct_witness:
  "\<exists>s' s3. objectIdMapping (sub_batch_config\<lparr>trackingIdResetMode := 2\<rparr>) 41 7 empty_maps = (0, s') \<and>
     objectIdMapping (sub_batch_config\<lparr>trackingIdResetMode := 2\<rparr>) 43 7 s' = (2, s3) \<and> (0 :: u64) \<noteq> 2"
proof -
  let ?c = "sub_batch_config\<lparr>trackingIdResetMode := 2\<rparr>"
  obtain s' where s': "objectIdMapping ?c 41 7 empty_maps = (0, s')"
    by (simp add: objectIdMapping_def Let_def record_offset_def map_touch_def empty_maps_def from_zero_def sub_batch_config_def)
  then have off: "stream_offset s' 7 = Some 41"
    by (auto simp: objectIdMapping_def Let_def record_offset_def map_touch_def empty_maps_def stream_offset_def)
  obtain s3 where s3: "objectIdMapping ?c 43 7 s' = (2, s3)"
    using off by (simp add: objectIdMapping_def Let_def record_offset_def map_touch_def stream_offset_def from_zero_def sub_batch_config_def)
  from object_ids_distinct[OF s' s3 refl] have "(0 :: u64) \<noteq> 2" by simp
  with s' s3 show ?thesis by blast
qed

end
