(* ===== verification/TrackRuns.thy ===== *)
theory TrackRuns
  imports TrackProc TrackObjectsProps
begin

text \<open>
  Runs of the tracker plugin in which buffers and events leave in the wrong order: without sub-batches an event can overtake the
  buffer before it, with sub-batches a buffer can overtake an earlier one with frames of the same stream.
\<close>

declare split_paired_All [simp del] split_paired_Ex [simp del]

section \<open>A small plugin\<close>

definition plain_frame :: "u32 \<Rightarrow> u32 \<Rightarrow> track_frame" where
  "plain_frame pad num = \<lparr>f_pad_index = pad, f_surface_index = 0, f_surface_type = 0, f_batch_id = pad, f_frame_num = num,
     f_infer_done = True, f_objects = [], next_address = 0\<rparr>"

text \<open>A library that tracks nothing, and a conversion that is not needed.\<close>

definition idle_library :: mot_library where
  "idle_library mots = (True, True, map (\<lambda>m. \<lparr>list_streamID = mot_streamID m, tracked_list = []\<rparr>) mots)"

definition no_conversion :: conv_libs where
  "no_conversion = \<lparr>cudaSetDevice_ok = True, cudaStreamCreate_ok = True, surface_create = Some, surface_batch = (\<lambda>_. 4),
     needs_map = (\<lambda>_. False), is_surface_array = (\<lambda>_. False), surface_map = (\<lambda>_ _. True), map_egl = (\<lambda>_. True),
     session_ok = True, num_filled = (\<lambda>_. 0), plane_size = (\<lambda>_ _. (0, 0)), transform_async = (\<lambda>_ b. Some b)\<rparr>"

definition empty_pool :: ConvBufManager where
  "empty_pool = new_ConvBufManager\<lparr>m_IntentionallyEmpty := True, m_Running := True\<rparr>"

definition whole_config :: TrackerConfig where
  "whole_config = sub_batch_config\<lparr>subBatchSizes := [], dynamicSubBatching := False, numTransforms := 0\<rparr>"

definition split_config :: TrackerConfig where
  "split_config = sub_batch_config\<lparr>numTransforms := 0\<rparr>"

text \<open>The state a run leads to, tested.\<close>

definition after :: "'s step_result \<Rightarrow> ('s \<Rightarrow> bool) \<Rightarrow> bool" where
  "after r P = (case r of Next s \<Rightarrow> P s | _ \<Rightarrow> False)"

abbreviation track_run :: "TrackerConfig \<Rightarrow> track_label list \<Rightarrow> NvTrackerProc step_result" where
  "track_run cfg ls \<equiv> tracker_run sample_track_env cfg ls (start_tracker cfg (the (init_maps cfg)) empty_pool)"

section \<open>An event overtakes a buffer\<close>

text \<open>
  \<open>flushReqs\<close> finds no pending batch although the thread has not yet put the last one into the
  completion queue.
\<close>

definition overtaking_event :: "track_label list" where
  "overtaking_event = [Submit [plain_frame 0 1] no_conversion, Event (StreamEos 0), ProcPop, ProcTrack idle_library, FlushTest,
     OutputPop, HandleSignal (\<lambda>_. True), ProcComplete, OutputPop]"

lemma overtaking_event_run:
  "after (track_run whole_config overtaking_event)
     (\<lambda>s. pushed s = [EventItem (StreamEos 0), BufferItem 0] \<and> taken s = [0])"
  by code_simp

section \<open>A buffer overtakes a buffer\<close>

text \<open>The second batch has no frame for the sub-batch that is slow with the first one.\<close>

definition overtaking_buffer :: "track_label list" where
  "overtaking_buffer = [Submit [plain_frame 0 1, plain_frame 1 1] no_conversion, Submit [plain_frame 0 2] no_conversion,
     SubPop 0 True, SubTrack 0 idle_library, SubComplete 0, SubPop 0 True, SubTrack 0 idle_library, SubComplete 0, OutputPop,
     SubPop 1 True, SubTrack 1 idle_library, SubComplete 1, OutputPop]"

lemma overtaking_buffer_run:
  "after (track_run split_config overtaking_buffer) (\<lambda>s. pushed s = [BufferItem 1, BufferItem 0] \<and> taken s = [0, 1])"
  by code_simp

end
