(* ===== verification/TrackProcProps.thy ===== *)
theory TrackProcProps
  imports TrackRuns
begin

text \<open>
  The invariant of the tracker plugin with sub-batches: every buffer is pushed, complete or pending; a
  pending batch notes exactly the requests that are not done; the requests of a sub-batch are in the order of the batches;
  nothing is pending while the streaming thread waits for the output thread.
\<close>

declare split_paired_All [simp del] split_paired_Ex [simp del]

section \<open>Maps\<close>

lemma mset_map_put: "map_of m k = None \<Longrightarrow> mset (map_put k v m) = add_mset (k, v) (mset m)"
  by (induction k v m rule: map_put.induct) (auto split: if_splits)

lemma mset_map_put_keys: "map_wf m \<Longrightarrow> map_of m k \<noteq> None \<Longrightarrow> map fst (map_put k v m) = map fst m"
  by (rule map_fst_put) (simp_all add: map_of_eq_None_iff del: not_None_eq)

lemma mset_delete:
  assumes "map_wf m" "map_of m k = Some v"
  shows "mset m = add_mset (k, v) (mset (AList.delete k m))"
proof -
  have d: "distinct (map fst m)" by (rule map_wf_distinct[OF assms(1)])
  then show ?thesis using assms(2)
  proof (induction m)
    case (Cons p m)
    show ?case
    proof (cases "fst p = k")
      case True
      with Cons.prems have "AList.delete k (p # m) = m" by (cases p) (auto simp: AList.delete_eq filter_id_conv image_iff)
      then show ?thesis using True Cons.prems(2) by (cases p) auto
    next
      case False
      then show ?thesis using Cons by (cases p) auto
    qed
  qed simp
qed

section \<open>Requests\<close>

fun in_hand :: "sub_phase \<Rightarrow> ProcParams list" where
  "in_hand (SubHas p r) = [p]"
| "in_hand (SubTracked p e) = [p]"
| "in_hand _ = []"

fun queued :: "DispatchReq list \<Rightarrow> ProcParams list" where
  "queued [] = []"
| "queued (TrackReq p r # q) = p # queued q"
| "queued (RemoveReq ss # q) = queued q"

lemma queued_append [simp]: "queued (q @ q') = queued q @ queued q'"
  by (induction q rule: queued.induct) simp_all

definition outstanding :: "NvTrackerProc \<Rightarrow> nat \<Rightarrow> ProcParams list" where
  "outstanding s sb = in_hand (phase (sub_threads s ! sb)) @ queued (reqQueues s ! sb)"

section \<open>The invariant\<close>

text \<open>\<open>par\<close> gives the parameters of a pending batch, \<open>out\<close> the requests of a sub-batch that are not done.\<close>

definition batches_ok ::
  "nat \<Rightarrow> (u32 \<Rightarrow> ProcParams) \<Rightarrow> (nat \<Rightarrow> ProcParams list) \<Rightarrow> (u32 \<times> nat list) list \<Rightarrow> bool" where
  "batches_ok n par out pend \<longleftrightarrow> map_wf pend \<and>
     (\<forall>sb<n. \<forall>p\<in>set (out sb). map_of pend (batchId p) \<noteq> None \<and> par (batchId p) = p) \<and>
     (\<forall>i sbs. map_of pend i = Some sbs \<longrightarrow> batchId (par i) = i \<and> set sbs \<subseteq> {..<n} \<and>
        (\<forall>sb<n. count_list sbs sb = count_list (map batchId (out sb)) i)) \<and>
     (\<forall>sb<n. sorted (map p_buffer (out sb)))"

fun sent_buffers :: "track_item list \<Rightarrow> nat list" where
  "sent_buffers [] = []"
| "sent_buffers (BufferItem b # xs) = b # sent_buffers xs"
| "sent_buffers (x # xs) = sent_buffers xs"

lemma sent_buffers_append [simp]: "sent_buffers (xs @ ys) = sent_buffers xs @ sent_buffers ys"
  by (induction xs rule: sent_buffers.induct) simp_all

definition completed :: "nat option list \<Rightarrow> nat list" where
  "completed q = concat (map (\<lambda>x. case x of None \<Rightarrow> [] | Some b \<Rightarrow> [b]) q)"

lemma completed_simps [simp]: "completed [] = []" "completed (None # q) = completed q" "completed (Some b # q) = b # completed q"
  "completed (q @ q') = completed q @ completed q'"
  by (simp_all add: completed_def)

definition conserved :: "(u32 \<Rightarrow> ProcParams) \<Rightarrow> NvTrackerProc \<Rightarrow> bool" where
  "conserved par s \<longleftrightarrow> mset (taken s) = mset (sent_buffers (pushed s)) + mset (completed (m_CompletionQueue s)) +
     mset (map (p_buffer \<circ> par \<circ> fst) (m_PendingBatch s)) \<and> distinct (taken s) \<and> (\<forall>b\<in>set (taken s). b < next_buffer s)"

definition flush_ok :: "NvTrackerProc \<Rightarrow> bool" where
  "flush_ok s \<longleftrightarrow>
     (case streaming_thread s of
        WaitMarker a \<Rightarrow> m_PendingBatch s = [] | Signalled a \<Rightarrow> m_PendingBatch s = [] | _ \<Rightarrow> True)"

definition tracker_inv :: "nat \<Rightarrow> (u32 \<Rightarrow> ProcParams) \<Rightarrow> NvTrackerProc \<Rightarrow> bool" where
  "tracker_inv n par s \<longleftrightarrow> length (reqQueues s) = n \<and> length (sub_threads s) = n \<and> m_ProcQueue s = [] \<and>
     process_thread s = ProcIdle \<and> batches_ok n par (outstanding s) (m_PendingBatch s) \<and> conserved par s \<and> flush_ok s"

lemma conserved_set:
  "conserved par s \<Longrightarrow> set (taken s) = set (sent_buffers (pushed s)) \<union> set (completed (m_CompletionQueue s)) \<union>
     set (map (p_buffer \<circ> par \<circ> fst) (m_PendingBatch s))"
  unfolding conserved_def by (elim conjE, drule arg_cong[where f = set_mset]) simp

lemma tracker_invD:
  assumes "tracker_inv n par s"
  shows "length (reqQueues s) = n" "length (sub_threads s) = n" "m_ProcQueue s = []" "process_thread s = ProcIdle"
    "batches_ok n par (outstanding s) (m_PendingBatch s)" "conserved par s" "flush_ok s" "map_wf (m_PendingBatch s)"
  using assms by (simp_all add: tracker_inv_def batches_ok_def)

text \<open>Steps that do not touch what the invariant is about.\<close>

lemma tracker_inv_cong:
  assumes "tracker_inv n par s" "length (reqQueues s') = n" "length (sub_threads s') = n" "m_ProcQueue s' = m_ProcQueue s"
    "process_thread s' = process_thread s" "\<And>sb. sb < n \<Longrightarrow> outstanding s' sb = outstanding s sb" "m_PendingBatch s' = m_PendingBatch s"
    "taken s' = taken s" "sent_buffers (pushed s') = sent_buffers (pushed s)" "m_CompletionQueue s' = m_CompletionQueue s"
    "next_buffer s \<le> next_buffer s'" "flush_ok s'"
  shows "tracker_inv n par s'"
  using assms(1,11) unfolding tracker_inv_def batches_ok_def conserved_def
  by (simp add: assms(2-10,12)) (meson less_le_trans)

section \<open>Requests come and go\<close>

lemma batches_push:
  assumes "batches_ok n par out pend" "map_of pend i = Some sbs" "par i = p" "sb < n"
    and "\<forall>q\<in>set (out sb). p_buffer q \<le> p_buffer p"
  shows "batches_ok n par (out(sb := out sb @ [p])) (map_put i (sbs @ [sb]) pend)"
  using assms unfolding batches_ok_def by (auto simp: sorted_append)

lemma batches_note:
  assumes "batches_ok n par out pend" "map_of pend i = None" "batchId p = i"
  shows "batches_ok n (par(i := p)) out (map_put i [] pend)"
proof -
  have "map_of pend (batchId q) \<noteq> None" if "sb < n" "q \<in> set (out sb)" for sb q
    using assms(1) that unfolding batches_ok_def by blast
  then have ne: "batchId q \<noteq> i" if "sb < n" "q \<in> set (out sb)" for sb q using assms(2) that by blast
  then have "count_list (map batchId (out sb)) i = 0" if "sb < n" for sb using that by (auto simp: count_list_0_iff)
  with assms ne show ?thesis unfolding batches_ok_def by auto
qed

lemma batches_done:
  assumes "batches_ok n par out pend" "sb < n" "out sb = p # ps" "map_of pend (batchId p) = Some sbs"
  shows "sb \<in> set sbs"
    "remove1 sb sbs \<noteq> [] \<Longrightarrow> batches_ok n par (out(sb := ps)) (map_put (batchId p) (remove1 sb sbs) pend)"
    "remove1 sb sbs = [] \<Longrightarrow> batches_ok n par (out(sb := ps)) (AList.delete (batchId p) pend)"
proof -
  have c: "\<forall>k<n. count_list sbs k = count_list (map batchId (out k)) (batchId p)" "batchId (par (batchId p)) = batchId p"
    using assms(1,4) by (auto simp: batches_ok_def)
  then have "count_list sbs sb \<noteq> 0" using assms(2,3) by auto
  then show mem: "sb \<in> set sbs" by (metis count_notin)
  have rc: "count_list (remove1 sb sbs) k = (if k = sb then count_list sbs k - 1 else count_list sbs k)" for k
    by (induction sbs) auto
  have out: "k < n \<Longrightarrow> q \<in> set ((out(sb := ps)) k) \<Longrightarrow> q \<in> set (out k)" for k q using assms(3) by (auto split: if_splits)
  have sorted: "sorted (map p_buffer ((out(sb := ps)) k))" if "k < n" for k
    using assms(1,3) that by (auto simp: batches_ok_def)
  show "batches_ok n par (out(sb := ps)) (map_put (batchId p) (remove1 sb sbs) pend)"
    unfolding batches_ok_def
  proof (intro conjI allI impI ballI)
    show "map_wf (map_put (batchId p) (remove1 sb sbs) pend)" using assms(1) by (simp add: batches_ok_def)
    fix k assume k: "k < n"
    show "sorted (map p_buffer ((out(sb := ps)) k))" by (rule sorted[OF k])
    fix q assume "q \<in> set ((out(sb := ps)) k)"
    from out[OF k this] assms(1) k show "map_of (map_put (batchId p) (remove1 sb sbs) pend) (batchId q) \<noteq> None" "par (batchId q) = q"
      by (auto simp: batches_ok_def)
  next
    fix i sbs' assume i: "map_of (map_put (batchId p) (remove1 sb sbs) pend) i = Some sbs'"
    show "batchId (par i) = i" using i assms(1) c(2) by (auto simp: batches_ok_def split: if_splits)
    show "set sbs' \<subseteq> {..<n}" using i assms(1,4) set_remove1_subset[of sb sbs] by (fastforce simp: batches_ok_def split: if_splits)
    show "count_list sbs' k = count_list (map batchId ((out(sb := ps)) k)) i" if "k < n" for k
      using i assms(1,2,3,4) that rc c by (auto simp: batches_ok_def split: if_splits)
  qed
  assume empty: "remove1 sb sbs = []"
  have none: "batchId q \<noteq> batchId p" if "k < n" "q \<in> set ((out(sb := ps)) k)" for k q
  proof -
    have "count_list (map batchId ((out(sb := ps)) k)) (batchId p) = count_list (remove1 sb sbs) k"
      using c(1) that(1) assms(2,3) rc[of k] by auto
    then have "batchId p \<notin> set (map batchId ((out(sb := ps)) k))" using empty by (metis count_list.simps(1) count_list_0_iff)
    then show ?thesis using that(2) by (metis image_eqI list.set_map)
  qed
  show "batches_ok n par (out(sb := ps)) (AList.delete (batchId p) pend)"
    unfolding batches_ok_def
  proof (intro conjI allI impI ballI)
    show "map_wf (AList.delete (batchId p) pend)" using assms(1) by (simp add: batches_ok_def)
    fix k assume k: "k < n"
    show "sorted (map p_buffer ((out(sb := ps)) k))" by (rule sorted[OF k])
    fix q assume q: "q \<in> set ((out(sb := ps)) k)"
    from out[OF k q] none[OF k q] assms(1) k show "map_of (AList.delete (batchId p) pend) (batchId q) \<noteq> None" "par (batchId q) = q"
      by (auto simp: batches_ok_def delete_conv')
  next
    fix i sbs' assume i: "map_of (AList.delete (batchId p) pend) i = Some sbs'"
    then have i': "i \<noteq> batchId p" "map_of pend i = Some sbs'" by (auto simp: delete_conv' split: if_splits)
    then show "batchId (par i) = i" "set sbs' \<subseteq> {..<n}" using assms(1) by (auto simp: batches_ok_def)
    show "count_list sbs' k = count_list (map batchId ((out(sb := ps)) k)) i" if "k < n" for k
      using i' assms(1,3) that by (auto simp: batches_ok_def)
  qed
qed

section \<open>Dispatching keeps the invariant\<close>

definition push_request :: "ProcParams \<Rightarrow> nat \<Rightarrow> (u64 \<times> nat) list \<Rightarrow> NvTrackerProc \<Rightarrow> NvTrackerProc" where
  "push_request p sb l s =
     s\<lparr>m_PendingBatch := map_put (batchId p) (the (map_of (m_PendingBatch s) (batchId p)) @ [sb]) (m_PendingBatch s),
       reqQueues := (reqQueues s)[sb := reqQueues s ! sb @ [TrackReq p l]]\<rparr>"

lemma push_requests_step: "push_requests p sb (l # ls) s = push_requests p (Suc sb) ls (if l = [] then s else push_request p sb l s)"
  by (simp add: push_request_def)

text \<open>While a batch is dispatched it is pending and the last one.\<close>

definition dispatching :: "nat \<Rightarrow> (u32 \<Rightarrow> ProcParams) \<Rightarrow> ProcParams \<Rightarrow> NvTrackerProc \<Rightarrow> bool" where
  "dispatching n par p s \<longleftrightarrow> tracker_inv n par s \<and> map_of (m_PendingBatch s) (batchId p) \<noteq> None \<and> par (batchId p) = p \<and>
     (\<forall>sb<n. \<forall>q\<in>set (outstanding s sb). p_buffer q \<le> p_buffer p) \<and> streaming_thread s = Streaming"

lemma flush_ok_cong:
  "flush_ok s \<Longrightarrow> streaming_thread s' = Streaming \<Longrightarrow> streaming_thread s = Streaming \<Longrightarrow> m_CompletionQueue s' = m_CompletionQueue s \<Longrightarrow>
     flush_ok s'"
  by (simp add: flush_ok_def)

lemma tracker_invI:
  assumes "length (reqQueues s) = n" "length (sub_threads s) = n" "m_ProcQueue s = []" "process_thread s = ProcIdle"
    "batches_ok n par (outstanding s) (m_PendingBatch s)" "conserved par s" "flush_ok s"
  shows "tracker_inv n par s"
  unfolding tracker_inv_def using assms by blast

lemma push_request_fields:
  "m_ProcQueue (push_request p sb l s) = m_ProcQueue s" "process_thread (push_request p sb l s) = process_thread s"
  "length (reqQueues (push_request p sb l s)) = length (reqQueues s)" "sub_threads (push_request p sb l s) = sub_threads s"
  "streaming_thread (push_request p sb l s) = streaming_thread s" "m_CompletionQueue (push_request p sb l s) = m_CompletionQueue s"
  "taken (push_request p sb l s) = taken s" "pushed (push_request p sb l s) = pushed s"
  "next_buffer (push_request p sb l s) = next_buffer s"
  by (simp_all add: push_request_def)

lemma dispatchingD:
  assumes "dispatching n par p s"
  shows "tracker_inv n par s" "map_of (m_PendingBatch s) (batchId p) \<noteq> None" "par (batchId p) = p"
    "\<And>k q. k < n \<Longrightarrow> q \<in> set (outstanding s k) \<Longrightarrow> p_buffer q \<le> p_buffer p" "streaming_thread s = Streaming"
  using assms unfolding dispatching_def by blast+

lemma conserved_pending:
  "conserved par s \<Longrightarrow> map fst (m_PendingBatch s') = map fst (m_PendingBatch s) \<Longrightarrow> taken s' = taken s \<Longrightarrow> pushed s' = pushed s \<Longrightarrow>
     m_CompletionQueue s' = m_CompletionQueue s \<Longrightarrow> next_buffer s' = next_buffer s \<Longrightarrow> conserved par s'"
proof -
  assume c: "conserved par s" and keys: "map fst (m_PendingBatch s') = map fst (m_PendingBatch s)"
    and same: "taken s' = taken s" "pushed s' = pushed s" "m_CompletionQueue s' = m_CompletionQueue s" "next_buffer s' = next_buffer s"
  have "map (p_buffer \<circ> par \<circ> fst) (m_PendingBatch s') = map (p_buffer \<circ> par \<circ> fst) (m_PendingBatch s)"
    using arg_cong[OF keys, of "map (p_buffer \<circ> par)"] unfolding map_map comp_assoc .
  then show ?thesis using c unfolding conserved_def same by (elim conjE) (intro conjI; simp)
qed

lemma push_request_dispatching:
  assumes "dispatching n par p s" "sb < n"
  shows "dispatching n par p (push_request p sb l s)"
proof -
  let ?s = "push_request p sb l s"
  note S = dispatchingD[OF assms(1)] note D = tracker_invD[OF S(1)] note F = push_request_fields[of p sb l s]
  obtain sbs where sbs: "map_of (m_PendingBatch s) (batchId p) = Some sbs" using S(2) by blast
  have pend: "m_PendingBatch ?s = map_put (batchId p) (sbs @ [sb]) (m_PendingBatch s)" using sbs by (simp add: push_request_def)
  have out: "outstanding ?s k = ((outstanding s)(sb := outstanding s sb @ [p])) k" if "k < n" for k
    using D(1) that by (simp add: outstanding_def push_request_def nth_list_update)
  have keys: "map fst (m_PendingBatch ?s) = map fst (m_PendingBatch s)"
    unfolding pend by (rule mset_map_put_keys[OF D(8)]) (simp add: sbs)
  have "batches_ok n par ((outstanding s)(sb := outstanding s sb @ [p])) (m_PendingBatch ?s)"
    unfolding pend by (rule batches_push[OF D(5) sbs S(3) assms(2)]) (use S(4) assms(2) in blast)
  then have b: "batches_ok n par (outstanding ?s) (m_PendingBatch ?s)"
    using out by (simp add: batches_ok_def)
  have "tracker_inv n par ?s"
  proof (rule tracker_invI)
    show "conserved par ?s" by (rule conserved_pending[OF D(6) keys F(7,8,6,9)])
    show "flush_ok ?s" by (rule flush_ok_cong[OF D(7) _ S(5) F(6)]) (simp only: F S(5))
  qed (simp_all only: F D b)
  moreover have "p_buffer q \<le> p_buffer p" if "k < n" "q \<in> set (outstanding ?s k)" for k q
    using that S(4)[of k q] unfolding out[OF that(1)] by (cases "k = sb") auto
  moreover have "map_of (m_PendingBatch ?s) (batchId p) \<noteq> None" by (simp add: pend)
  ultimately show ?thesis unfolding dispatching_def F using S(3,5) by blast
qed

lemma push_requests_dispatching:
  "dispatching n par p s \<Longrightarrow> sb + length ls \<le> n \<Longrightarrow> dispatching n par p (push_requests p sb ls s)"
proof (induction ls arbitrary: sb s)
  case (Cons l ls)
  have "dispatching n par p (if l = [] then s else push_request p sb l s)"
    using Cons.prems push_request_dispatching[of n par p s sb l] by simp
  then show ?case unfolding push_requests_step using Cons.IH Cons.prems(2) by simp
qed simp

lemma dispatching_maps [simp]: "dispatching n par p (s\<lparr>maps := mp\<rparr>) = dispatching n par p s"
proof -
  have "outstanding (s\<lparr>maps := mp\<rparr>) = outstanding s" by (simp add: outstanding_def fun_eq_iff)
  then show ?thesis by (simp add: dispatching_def tracker_inv_def conserved_def flush_ok_def split: streaming.split)
qed

lemma split_round_length: "split_round cfg pad_of r mp ls = Some (ok, mp', ls') \<Longrightarrow> length ls' = length ls"
  by (induction cfg pad_of r mp ls rule: split_round.induct) (auto simp: Let_def split: prod.splits bool.splits if_splits)

lemma dispatch_rounds_dispatching:
  assumes "dispatch_rounds cfg pad_of p rs s = Some (ok, s')" "dispatching (length (subBatchSizes cfg)) par p s"
  shows "dispatching (length (subBatchSizes cfg)) par p s'"
  using assms
proof (induction rs arbitrary: s)
  case (Cons r rs)
  then obtain ok1 mp ls where r: "split_round cfg pad_of r (maps s) (replicate (length (subBatchSizes cfg)) []) = Some (ok1, mp, ls)"
    by (auto split: option.splits)
  note len = split_round_length[OF r]
  show ?case
  proof (cases ok1)
    case True
    have "dispatching (length (subBatchSizes cfg)) par p (push_requests p 0 ls (s\<lparr>maps := mp\<rparr>))"
      by (rule push_requests_dispatching) (use Cons.prems(2) len in simp_all)
    with Cons r True show ?thesis by simp
  next
    case False
    with Cons.prems r show ?thesis by auto
  qed
qed simp

lemma note_batch_dispatching:
  assumes "tracker_inv n par s" "map_of (m_PendingBatch s) (batchId p) = None" "\<forall>b\<in>set (taken s). b < p_buffer p"
    "p_buffer p < next_buffer s" "streaming_thread s = Streaming"
  shows "dispatching n (par(batchId p := p)) p (note_batch p s)"
proof -
  let ?s = "note_batch p s" and ?par = "par(batchId p := p)"
  note D = tracker_invD[OF assms(1)]
  have out: "outstanding ?s = outstanding s" by (simp add: outstanding_def note_batch_def fun_eq_iff)
  have b: "batches_ok n ?par (outstanding s) (map_put (batchId p) [] (m_PendingBatch s))"
    by (rule batches_note[OF D(5) assms(2) refl])
  have same: "map (p_buffer \<circ> ?par \<circ> fst) (m_PendingBatch s) = map (p_buffer \<circ> par \<circ> fst) (m_PendingBatch s)"
    using assms(2) by (auto simp: map_of_eq_None_iff image_iff)
  have c: "mset (map (p_buffer \<circ> ?par \<circ> fst) (map_put (batchId p) [] (m_PendingBatch s))) =
      add_mset (p_buffer p) (mset (map (p_buffer \<circ> par \<circ> fst) (m_PendingBatch s)))"
    unfolding mset_map mset_map_put[OF assms(2)] using arg_cong[OF same, of mset] by simp
  have le: "p_buffer q \<le> p_buffer p" if "k < n" "q \<in> set (outstanding s k)" for k q
  proof -
    have q: "map_of (m_PendingBatch s) (batchId q) \<noteq> None" "par (batchId q) = q"
      using D(5) that unfolding batches_ok_def by blast+
    then obtain v where "(batchId q, v) \<in> set (m_PendingBatch s)" by (auto dest: map_of_SomeD)
    then have "p_buffer q \<in> set (map (p_buffer \<circ> par \<circ> fst) (m_PendingBatch s))" using q(2) by force
    then have "p_buffer q \<in> set (taken s)" unfolding conserved_set[OF tracker_invD(6)[OF assms(1)]] by blast
    then show ?thesis using assms(3) by (simp add: less_imp_le)
  qed
  have F: "m_ProcQueue ?s = m_ProcQueue s" "process_thread ?s = process_thread s" "reqQueues ?s = reqQueues s"
    "sub_threads ?s = sub_threads s" "m_PendingBatch ?s = map_put (batchId p) [] (m_PendingBatch s)"
    "m_CompletionQueue ?s = m_CompletionQueue s" "streaming_thread ?s = streaming_thread s" by (simp_all add: note_batch_def)
  have "conserved ?par ?s"
    unfolding conserved_def
  proof (intro conjI)
    have T: "taken ?s = taken s @ [p_buffer p]" "pushed ?s = pushed s" "next_buffer ?s = next_buffer s" by (simp_all add: note_batch_def)
    have t: "mset (taken s) = mset (sent_buffers (pushed s)) + mset (completed (m_CompletionQueue s)) +
        mset (map (p_buffer \<circ> par \<circ> fst) (m_PendingBatch s))" and old: "distinct (taken s)" "\<forall>b\<in>set (taken s). b < next_buffer s"
      using D(6) unfolding conserved_def by blast+
    show "mset (taken ?s) = mset (sent_buffers (pushed ?s)) + mset (completed (m_CompletionQueue ?s)) +
        mset (map (p_buffer \<circ> ?par \<circ> fst) (m_PendingBatch ?s))"
      unfolding T F c by (simp add: t)
    show "distinct (taken ?s)" unfolding T using old(1) assms(3) by auto
    show "\<forall>b\<in>set (taken ?s). b < next_buffer ?s" unfolding T using old(2) assms(4) by auto
  qed
  moreover have "flush_ok ?s" by (rule flush_ok_cong[OF D(7) _ assms(5) F(6)]) (simp only: F assms(5))
  ultimately have "tracker_inv n ?par ?s" by (intro tracker_invI) (simp_all only: F D b out)
  moreover have "map_of (m_PendingBatch ?s) (batchId p) \<noteq> None" by (simp add: F)
  ultimately show ?thesis unfolding dispatching_def using le by (simp add: out F assms(5))
qed

section \<open>Every step keeps the invariant\<close>

lemma outstanding_cong: "phase (sub_threads s' ! sb) = phase (sub_threads s ! sb) \<Longrightarrow> reqQueues s' = reqQueues s \<Longrightarrow> outstanding s' sb = outstanding s sb"
  by (simp add: outstanding_def)

lemma dispatch_inv:
  assumes inv: "tracker_inv (length (subBatchSizes cfg)) par s" and st: "streaming_thread s = Streaming"
    and new: "\<forall>b\<in>set (taken s). b < p_buffer p" "p_buffer p < next_buffer s"
    and run: "dispatchSubBatches cfg fs p s = Some (ok, s')"
  shows "\<exists>par'. tracker_inv (length (subBatchSizes cfg)) par' s'"
proof (cases "map_of (m_PendingBatch s) (batchId p)")
  case None
  define s0 where "s0 = s\<lparr>m_ConvBufComplete := map_put (batchId p) False (m_ConvBufComplete s)\<rparr>"
  have F: "m_ProcQueue s0 = m_ProcQueue s" "process_thread s0 = process_thread s" "reqQueues s0 = reqQueues s" "sub_threads s0 = sub_threads s"
    "m_PendingBatch s0 = m_PendingBatch s" "taken s0 = taken s" "pushed s0 = pushed s" "m_CompletionQueue s0 = m_CompletionQueue s"
    "next_buffer s0 = next_buffer s" "streaming_thread s0 = streaming_thread s" by (simp_all add: s0_def)
  have "tracker_inv (length (subBatchSizes cfg)) par s0"
    by (rule tracker_inv_cong[OF inv]) (simp_all add: F outstanding_def tracker_invD(1,2)[OF inv] flush_ok_cong[OF tracker_invD(7)[OF inv] _ st] st)
  then have d: "dispatching (length (subBatchSizes cfg)) (par(batchId p := p)) p (note_batch p s0)"
    by (rule note_batch_dispatching) (use None st new in \<open>simp_all add: F\<close>)
  from run None obtain s1 where r: "dispatch_rounds cfg (\<lambda>i. f_pad_index (fs ! i)) p (queueFrames cfg fs) (note_batch p s0) = Some (ok, s1)"
    and s': "s' = (if ok then s1\<lparr>m_BatchId := m_BatchId s1 + 1\<rparr> else s1)"
    unfolding dispatchSubBatches_def s0_def by (auto split: option.splits bool.splits)
  have i1: "dispatching (length (subBatchSizes cfg)) (par(batchId p := p)) p s1" by (rule dispatch_rounds_dispatching[OF r d])
  note S = dispatchingD[OF i1]
  have G: "m_ProcQueue s' = m_ProcQueue s1" "process_thread s' = process_thread s1" "reqQueues s' = reqQueues s1" "sub_threads s' = sub_threads s1"
    "m_PendingBatch s' = m_PendingBatch s1" "taken s' = taken s1" "pushed s' = pushed s1" "m_CompletionQueue s' = m_CompletionQueue s1"
    "next_buffer s' = next_buffer s1" "streaming_thread s' = streaming_thread s1" by (simp_all add: s')
  have "tracker_inv (length (subBatchSizes cfg)) (par(batchId p := p)) s'"
    by (rule tracker_inv_cong[OF S(1)])
      (simp_all add: G outstanding_def tracker_invD(1,2)[OF S(1)] flush_ok_cong[OF tracker_invD(7)[OF S(1)] _ S(5)] S(5))
  then show ?thesis by blast
next
  case (Some v)
  with run have "s' = s" by (simp add: dispatchSubBatches_def)
  with inv show ?thesis by blast
qed

lemma submitInput_inv:
  assumes inv: "tracker_inv (length (subBatchSizes cfg)) par s" and st: "streaming_thread s = Streaming" and n: "subBatchSizes cfg \<noteq> []"
    and new: "\<forall>c\<in>set (taken s). c < b" "b < next_buffer s"
    and run: "submitInput cfg b fs L s = Next (ok, s')"
  shows "\<exists>par'. tracker_inv (length (subBatchSizes cfg)) par' s'"
proof -
  have conv: "tracker_inv (length (subBatchSizes cfg)) par (s\<lparr>m_ConvBufMgr := m\<rparr>)" for m
    by (rule tracker_inv_cong[OF inv]) (simp_all add: outstanding_def tracker_invD(1,2)[OF inv] flush_ok_cong[OF tracker_invD(7)[OF inv] _ st] st)
  show ?thesis
  proof (cases "m_TrackerLibError s \<or> numTransforms cfg \<noteq> 0 \<and> isQueueEmpty (m_ConvBufMgr s)")
    case True
    with run inv show ?thesis by (auto simp: submitInput_def split: if_splits)
  next
    case False
    let ?c = "if numTransforms cfg = 0 then Some (None, None, m_ConvBufMgr s) else convertBatchAsync L b (m_ConvBufMgr s)"
    from run False obtain surf sync m where c: "?c = Some (surf, sync, m)"
      by (cases ?c) (auto simp: submitInput_def split: if_splits)
    define p where "p = \<lparr>p_buffer = b, pConvBuf = surf, bufSetSyncObjs = sync, batchId = m_BatchId s\<rparr>"
    show ?thesis
    proof (cases "numTransforms cfg \<noteq> 0 \<and> surf = None")
      case True
      with run False c have "s' = s\<lparr>m_ConvBufMgr := m\<rparr>" by (simp add: submitInput_def)
      with conv show ?thesis by blast
    next
      case kept: False
      have "dispatchSubBatches cfg fs p (s\<lparr>m_ConvBufMgr := m\<rparr>) = Some (ok, s')"
        using run False c kept n unfolding submitInput_def p_def by (auto simp: Let_def split: option.splits if_splits)
      then show ?thesis
        by (rule dispatch_inv[OF conv, rotated 3]) (use st new in \<open>simp_all add: p_def\<close>)
    qed
  qed
qed

text \<open>Only buffers that were submitted are taken.\<close>

lemma submit_inv:
  assumes inv: "tracker_inv (length (subBatchSizes cfg)) par s" and n: "subBatchSizes cfg \<noteq> []"
    and run: "submit_input_buffer cfg fs L s = Next s'"
  shows "\<exists>par'. tracker_inv (length (subBatchSizes cfg)) par' s'"
proof -
  let ?b = "next_buffer s"
  have st: "streaming_thread s = Streaming" using run by (auto simp: submit_input_buffer_def Let_def split: if_splits)
  note D = tracker_invD[OF inv]
  have same: "tracker_inv (length (subBatchSizes cfg)) par (s\<lparr>next_buffer := Suc ?b, batch_metas := bm, streaming_thread := t\<rparr>)"
    if "\<exists>a. t = Flushing a" for bm t
    by (rule tracker_inv_cong[OF inv]) (use that in \<open>auto simp: outstanding_def D(1,2) flush_ok_def\<close>)
  have keep: "tracker_inv (length (subBatchSizes cfg)) par (s\<lparr>next_buffer := Suc ?b, batch_metas := bm\<rparr>)" for bm
    by (rule tracker_inv_cong[OF inv]) (use st in \<open>auto simp: outstanding_def D(1,2) flush_ok_def\<close>)
  have taken: "\<forall>c\<in>set (taken s). c < ?b" using D(6) unfolding conserved_def by blast
  consider "s' = s\<lparr>next_buffer := Suc ?b, streaming_thread := Flushing (ThenPush ?b)\<rparr>" | "s' = s\<lparr>next_buffer := Suc ?b\<rparr>"
    | ok where "submitInput cfg ?b fs L (s\<lparr>next_buffer := Suc ?b, batch_metas := (batch_metas s)(?b \<mapsto> fs)\<rparr>) = Next (ok, s')"
    using run by (auto simp: submit_input_buffer_def Let_def split: if_splits step_result.splits)
  then show ?thesis
  proof cases
    case 1
    with same[of "Flushing (ThenPush ?b)" "batch_metas s"] show ?thesis by auto
  next
    case 2
    with keep[of "batch_metas s"] show ?thesis by auto
  next
    case 3
    have "tracker_inv (length (subBatchSizes cfg)) par (s\<lparr>next_buffer := Suc ?b, batch_metas := (batch_metas s)(?b \<mapsto> fs)\<rparr>)"
      by (rule keep)
    then show ?thesis by (rule submitInput_inv[OF _ _ n _ _ 3]) (use st taken in simp_all)
  qed
qed

lemma queued_push_removals:
  "queued (reqQueues (push_removals reqs s) ! sb) = queued (reqQueues s ! sb)" "length (reqQueues (push_removals reqs s)) = length (reqQueues s)"
proof -
  have "queued (fold (\<lambda>(sb, ss) qs. qs[sb := qs ! sb @ [RemoveReq ss]]) reqs qs ! k) = queued (qs ! k) \<and>
      length (fold (\<lambda>(sb, ss) qs. qs[sb := qs ! sb @ [RemoveReq ss]]) reqs qs) = length qs" for qs k
  proof (induction reqs arbitrary: qs)
    case (Cons r reqs)
    show ?case using Cons[of "(case r of (sb, ss) \<Rightarrow> qs[sb := qs ! sb @ [RemoveReq ss]])"]
      by (cases r, cases "fst r = k"; cases "k < length qs") (auto simp: nth_list_update list_update_beyond)
  qed simp
  then show "queued (reqQueues (push_removals reqs s) ! sb) = queued (reqQueues s ! sb)"
    "length (reqQueues (push_removals reqs s)) = length (reqQueues s)" by (simp_all add: push_removals_def)
qed

text \<open>What an event changes.\<close>

lemma track_event_fields:
  assumes "handle_event cfg removed ev s = (ok, s')"
  shows "m_ProcQueue s' = m_ProcQueue s" "process_thread s' = process_thread s" "sub_threads s' = sub_threads s"
    "m_PendingBatch s' = m_PendingBatch s" "taken s' = taken s" "pushed s' = pushed s" "m_CompletionQueue s' = m_CompletionQueue s"
    "next_buffer s' = next_buffer s" "streaming_thread s' = streaming_thread s" "length (reqQueues s') = length (reqQueues s)"
    "queued (reqQueues s' ! sb) = queued (reqQueues s ! sb)"
proof -
  have "s' = s \<or> (\<exists>reqs mp e. s' = push_removals reqs (s\<lparr>maps := mp, m_TrackerLibError := e\<rparr>))"
    using assms unfolding handle_event_def handle_removal_def
    by (auto split: track_event.splits if_splits prod.splits)
  note c = this
  have P: "m_ProcQueue (push_removals reqs t) = m_ProcQueue t" "process_thread (push_removals reqs t) = process_thread t"
    "sub_threads (push_removals reqs t) = sub_threads t" "m_PendingBatch (push_removals reqs t) = m_PendingBatch t"
    "taken (push_removals reqs t) = taken t" "pushed (push_removals reqs t) = pushed t"
    "m_CompletionQueue (push_removals reqs t) = m_CompletionQueue t" "next_buffer (push_removals reqs t) = next_buffer t"
    "streaming_thread (push_removals reqs t) = streaming_thread t" for reqs t by (simp_all add: push_removals_def)
  show "m_ProcQueue s' = m_ProcQueue s" "process_thread s' = process_thread s" "sub_threads s' = sub_threads s"
    "m_PendingBatch s' = m_PendingBatch s" "taken s' = taken s" "pushed s' = pushed s" "m_CompletionQueue s' = m_CompletionQueue s"
    "next_buffer s' = next_buffer s" "streaming_thread s' = streaming_thread s" "length (reqQueues s') = length (reqQueues s)"
    "queued (reqQueues s' ! sb) = queued (reqQueues s ! sb)"
    using c by (auto simp: P queued_push_removals)
qed

lemma event_inv: "tracker_inv n par s \<Longrightarrow> sink_event cfg ev s = Next s' \<Longrightarrow> tracker_inv n par s'"
proof -
  assume inv: "tracker_inv n par s" and run: "sink_event cfg ev s = Next s'"
  note D = tracker_invD[OF inv]
  have st: "streaming_thread s = Streaming" and s': "s' = s \<or> s' = s\<lparr>streaming_thread := Flushing (ThenEvent ev)\<rparr>"
    using run by (auto simp: sink_event_def split: if_splits)
  have "tracker_inv n par (s\<lparr>streaming_thread := Flushing (ThenEvent ev)\<rparr>)"
    by (rule tracker_inv_cong[OF inv]) (use D(7) st in \<open>simp_all add: outstanding_def D(1,2) flush_ok_def\<close>)
  with s' inv show ?thesis by auto
qed

lemma conserved_cong:
  "conserved par s \<Longrightarrow> m_PendingBatch s' = m_PendingBatch s \<Longrightarrow> taken s' = taken s \<Longrightarrow> next_buffer s' = next_buffer s \<Longrightarrow>
     mset (sent_buffers (pushed s')) + mset (completed (m_CompletionQueue s')) =
       mset (sent_buffers (pushed s)) + mset (completed (m_CompletionQueue s)) \<Longrightarrow> conserved par s'"
  unfolding conserved_def by simp

lemma flush_test_inv:
  assumes inv: "tracker_inv n par s" and run: "flush_test s = Next s'"
  shows "tracker_inv n par s'"
proof -
  note D = tracker_invD[OF inv]
  obtain a where a: "streaming_thread s = Flushing a" "m_PendingBatch s = []"
      "s' = s\<lparr>m_CompletionQueue := m_CompletionQueue s @ [None], streaming_thread := WaitMarker a\<rparr>"
    using run by (auto simp: flush_test_def split: streaming.splits if_splits)
  have out: "outstanding s' = outstanding s" by (simp add: a(3) outstanding_def fun_eq_iff)
  show ?thesis
  proof (rule tracker_invI)
    have "m_PendingBatch s' = m_PendingBatch s" by (simp add: a(3))
    then show "batches_ok n par (outstanding s') (m_PendingBatch s')" using D(5) unfolding out by (simp only:)
    show "conserved par s'" by (rule conserved_cong[OF D(6)]) (simp_all add: a(3))
    show "flush_ok s'" by (simp add: flush_ok_def a)
  qed (simp_all add: a(3) D(1-4))
qed

lemma spurious_wakeup_inv: "tracker_inv n par s \<Longrightarrow> spurious_wakeup s = Next s' \<Longrightarrow> tracker_inv n par s'"
proof -
  assume inv: "tracker_inv n par s" and run: "spurious_wakeup s = Next s'"
  note D = tracker_invD[OF inv]
  obtain a where a: "streaming_thread s = WaitMarker a" "s' = s\<lparr>streaming_thread := Signalled a\<rparr>"
    using run by (auto simp: spurious_wakeup_def split: streaming.splits)
  show ?thesis unfolding a(2)
    by (rule tracker_inv_cong[OF inv]) (use D(7) a(1) in \<open>simp_all add: outstanding_def D(1,2) flush_ok_def\<close>)
qed

lemma handle_signal_inv:
  assumes inv: "tracker_inv n par s" and run: "handle_signal cfg removed s = Next s'"
  shows "tracker_inv n par s'"
proof -
  note D = tracker_invD[OF inv]
  obtain a where a: "streaming_thread s = Signalled a" using run by (auto simp: handle_signal_def split: streaming.splits)
  have q: "m_PendingBatch s = []" using D(7) a by (simp add: flush_ok_def)
  show ?thesis
  proof (cases a)
    case (ThenPush b)
    with run a have s': "s' = s\<lparr>streaming_thread := Streaming, pushed := pushed s @ [EmptyItem b]\<rparr>" by (simp add: handle_signal_def)
    show ?thesis unfolding s'
      by (rule tracker_inv_cong[OF inv]) (simp_all add: outstanding_def D(1,2) flush_ok_def q)
  next
    case (ThenEvent ev)
    obtain ok s1 where e: "handle_event cfg removed ev (s\<lparr>streaming_thread := Streaming\<rparr>) = (ok, s1)" by fastforce
    note F = track_event_fields[OF e, simplified]
    have s': "s' = (if ok then s1\<lparr>pushed := pushed s1 @ [EventItem ev]\<rparr> else s1)"
      using run a ThenEvent e by (auto simp: handle_signal_def)
    show ?thesis
      by (rule tracker_inv_cong[OF inv]) (simp_all add: s' F outstanding_def D(1,2) flush_ok_def q)
  qed
qed

lemma output_pop_inv:
  assumes inv: "tracker_inv n par s" and run: "output_pop s = Next s'"
  shows "tracker_inv n par s'"
proof -
  note D = tracker_invD[OF inv]
  have same: "m_ProcQueue s' = m_ProcQueue s" "process_thread s' = process_thread s" "sub_threads s' = sub_threads s"
    "reqQueues s' = reqQueues s" "m_PendingBatch s' = m_PendingBatch s" "taken s' = taken s" "next_buffer s' = next_buffer s"
    using run by (auto simp: output_pop_def split: list.splits option.splits streaming.splits)
  have out: "outstanding s' = outstanding s" by (simp add: same outstanding_def fun_eq_iff)
  obtain x q where q: "m_CompletionQueue s = x # q" using run by (auto simp: output_pop_def split: list.splits)
  have c: "conserved par s'"
    by (rule conserved_cong[OF D(6) same(5-7)]) (use run q in \<open>auto simp: output_pop_def split: option.splits streaming.splits\<close>)
  have "flush_ok s'" using D(7) run by (auto simp: output_pop_def flush_ok_def split: list.splits option.splits streaming.splits)
  with D same out c show ?thesis by (intro tracker_invI) simp_all
qed

text \<open>The threads of the sub-batches.\<close>

lemma set_phase_fields:
  "m_ProcQueue (set_phase sb ph s) = m_ProcQueue s" "process_thread (set_phase sb ph s) = process_thread s"
  "reqQueues (set_phase sb ph s) = reqQueues s" "length (sub_threads (set_phase sb ph s)) = length (sub_threads s)"
  "m_PendingBatch (set_phase sb ph s) = m_PendingBatch s" "taken (set_phase sb ph s) = taken s" "pushed (set_phase sb ph s) = pushed s"
  "m_CompletionQueue (set_phase sb ph s) = m_CompletionQueue s" "next_buffer (set_phase sb ph s) = next_buffer s"
  "streaming_thread (set_phase sb ph s) = streaming_thread s"
  "k < length (sub_threads s) \<Longrightarrow> phase (sub_threads (set_phase sb ph s) ! k) = (if k = sb then ph else phase (sub_threads s ! k))"
  by (simp_all add: set_phase_def nth_list_update)

lemma set_trials_fields:
  "m_ProcQueue (set_trials sb i s) = m_ProcQueue s" "process_thread (set_trials sb i s) = process_thread s"
  "reqQueues (set_trials sb i s) = reqQueues s" "length (sub_threads (set_trials sb i s)) = length (sub_threads s)"
  "m_PendingBatch (set_trials sb i s) = m_PendingBatch s" "taken (set_trials sb i s) = taken s" "pushed (set_trials sb i s) = pushed s"
  "m_CompletionQueue (set_trials sb i s) = m_CompletionQueue s" "next_buffer (set_trials sb i s) = next_buffer s"
  "streaming_thread (set_trials sb i s) = streaming_thread s"
  "k < length (sub_threads s) \<Longrightarrow> phase (sub_threads (set_trials sb i s) ! k) = phase (sub_threads s ! k)"
  by (simp_all add: set_trials_def) (cases "k = sb"; simp add: nth_list_update)

lemma flush_ok_same:
  "flush_ok s \<Longrightarrow> streaming_thread s' = streaming_thread s \<Longrightarrow> m_CompletionQueue s' = m_CompletionQueue s \<Longrightarrow>
     m_PendingBatch s' = m_PendingBatch s \<Longrightarrow> flush_ok s'"
  unfolding flush_ok_def by (cases "streaming_thread s") simp_all

lemma sub_pop_inv:
  assumes inv: "tracker_inv n par s" and run: "sub_pop sb removed s = Next s'"
  shows "tracker_inv n par s'"
proof -
  note D = tracker_invD[OF inv]
  obtain req q where q: "sb < n" "phase (sub_threads s ! sb) = SubIdle" "reqQueues s ! sb = req # q"
    using run D(2) by (auto simp: sub_pop_def split: if_splits sub_phase.splits list.splits)
  let ?s1 = "s\<lparr>reqQueues := (reqQueues s)[sb := q]\<rparr>"
  have s': "s' = (case req of RemoveReq ss \<Rightarrow> ?s1\<lparr>m_TrackerLibError := (m_TrackerLibError s \<or> \<not> removed)\<rparr>
                  | TrackReq p r \<Rightarrow> set_phase sb (SubHas p r) ?s1)"
    using run q D(2) by (cases req) (simp_all add: sub_pop_def Let_def)
  show ?thesis
    by (rule tracker_inv_cong[OF inv])
      (use q D(1,2) in \<open>auto simp: s' outstanding_def set_phase_fields nth_list_update flush_ok_same[OF D(7)]
         split: DispatchReq.split\<close>)
qed

lemma sub_reinit_inv:
  assumes inv: "tracker_inv n par s" and run: "sub_reinit sb ok s = Next s'"
  shows "tracker_inv n par s'"
proof -
  note D = tracker_invD[OF inv]
  have sb: "sb < n" "phase (sub_threads s ! sb) = SubRecover"
    and s': "s' = set_phase sb SubIdle (set_trials sb (trials (sub_threads s ! sb) + 1)
                 (s\<lparr>m_TrackerLibError := (m_TrackerLibError s \<or> \<not> ok)\<rparr>))"
    using run D(2) by (auto simp: sub_reinit_def split: if_splits sub_phase.splits)
  show ?thesis
    by (rule tracker_inv_cong[OF inv])
      (use sb D(1,2) in \<open>auto simp: s' outstanding_def set_phase_fields set_trials_fields flush_ok_same[OF D(7)]\<close>)
qed

lemma track_round_fields:
  assumes "track_round env cfg lib always p r s = Some (ok, misc_ok, s')"
  shows "m_ProcQueue s' = m_ProcQueue s" "process_thread s' = process_thread s" "sub_threads s' = sub_threads s"
    "reqQueues s' = reqQueues s" "m_PendingBatch s' = m_PendingBatch s" "taken s' = taken s" "pushed s' = pushed s"
    "m_CompletionQueue s' = m_CompletionQueue s" "next_buffer s' = next_buffer s" "streaming_thread s' = streaming_thread s"
  using assms unfolding track_round_def
  by (auto simp: Let_def split: option.splits prod.splits if_splits)

lemma sync_conversion_fields:
  "m_ProcQueue (sync_conversion p s) = m_ProcQueue s" "process_thread (sync_conversion p s) = process_thread s"
  "sub_threads (sync_conversion p s) = sub_threads s" "reqQueues (sync_conversion p s) = reqQueues s"
  "m_PendingBatch (sync_conversion p s) = m_PendingBatch s" "taken (sync_conversion p s) = taken s"
  "pushed (sync_conversion p s) = pushed s" "m_CompletionQueue (sync_conversion p s) = m_CompletionQueue s"
  "next_buffer (sync_conversion p s) = next_buffer s" "streaming_thread (sync_conversion p s) = streaming_thread s"
  by (simp_all add: sync_conversion_def split: option.split)

lemma sub_track_inv:
  assumes inv: "tracker_inv n par s" and run: "sub_track env cfg sb lib s = Next s'"
  shows "tracker_inv n par s'"
proof -
  note D = tracker_invD[OF inv]
  obtain p r where sb: "sb < n" "phase (sub_threads s ! sb) = SubHas p r"
    using run D(2) by (auto simp: sub_track_def split: if_splits sub_phase.splits)
  show ?thesis
  proof (cases "m_TrackerLibError s")
    case True
    with run sb D(2) have s': "s' = set_phase sb (SubTracked p False) s" by (simp add: sub_track_def)
    show ?thesis
      by (rule tracker_inv_cong[OF inv]) (use sb D(1,2) in \<open>auto simp: s' outstanding_def set_phase_fields flush_ok_same[OF D(7)]\<close>)
  next
    case False
    with run sb D(2) obtain ok misc_ok s1 where t: "track_round env cfg lib False p r (sync_conversion p s) = Some (ok, misc_ok, s1)"
      and s': "s' = set_phase sb (SubTracked p (\<not> ok))
          (if \<not> ok then s1 else (set_trials sb 0 s1)\<lparr>m_TrackerLibError := (m_TrackerLibError s1 \<or> \<not> misc_ok)\<rparr>)"
      by (auto simp: sub_track_def split: option.splits)
    note F = track_round_fields[OF t, unfolded sync_conversion_fields]
    show ?thesis
      by (rule tracker_inv_cong[OF inv])
        (use sb D(1,2) in \<open>auto simp: s' F outstanding_def set_phase_fields set_trials_fields flush_ok_same[OF D(7)]\<close>)
  qed
qed

text \<open>A request that is done leaves the pending batch; with the last one the buffer is complete.\<close>

lemma conserved_done:
  assumes c: "conserved par s" and wf: "map_wf (m_PendingBatch s)" and pend: "map_of (m_PendingBatch s) (batchId p) = Some v"
    and p: "par (batchId p) = p" and m: "m_PendingBatch s' = AList.delete (batchId p) (m_PendingBatch s)"
    and q: "m_CompletionQueue s' = m_CompletionQueue s @ [Some (p_buffer p)]"
    and same: "taken s' = taken s" "pushed s' = pushed s" "next_buffer s' = next_buffer s"
  shows "conserved par s'"
proof -
  have d: "mset (map (p_buffer \<circ> par \<circ> fst) (m_PendingBatch s)) = add_mset (p_buffer p) (mset (map (p_buffer \<circ> par \<circ> fst) (m_PendingBatch s')))"
    unfolding mset_map mset_delete[OF wf pend] m by (simp add: p)
  show ?thesis
    using c d unfolding conserved_def same q by (elim conjE) (intro conjI; simp)
qed

lemma complete_request_inv:
  assumes inv: "tracker_inv n par s" and sb: "sb < n" and ph: "phase (sub_threads s ! sb) = SubTracked p err"
    and run: "s1 = set_phase sb ph' (complete_request sb p s)" and idle: "in_hand ph' = []"
  shows "tracker_inv n par s1"
proof -
  note D = tracker_invD[OF inv]
  let ?q = "queued (reqQueues s ! sb)"
  have o: "outstanding s sb = p # ?q" by (simp add: outstanding_def ph)
  have p: "map_of (m_PendingBatch s) (batchId p) \<noteq> None" "par (batchId p) = p"
    using D(5) sb o unfolding batches_ok_def by (metis list.set_intros(1))+
  then obtain sbs where sbs: "map_of (m_PendingBatch s) (batchId p) = Some sbs" by blast
  note B = batches_done[OF D(5) sb o sbs]
  have fields: "m_ProcQueue s1 = []" "process_thread s1 = ProcIdle" "reqQueues s1 = reqQueues s" "length (sub_threads s1) = n"
      "taken s1 = taken s" "pushed s1 = pushed s" "next_buffer s1 = next_buffer s" "streaming_thread s1 = streaming_thread s"
      "length (sub_threads (complete_request sb p s)) = n" "sub_threads (complete_request sb p s) = sub_threads s"
    using D(1-4) B(1) sbs by (simp_all add: run set_phase_fields complete_request_def)
  have out: "outstanding s1 k = ((outstanding s)(sb := ?q)) k" if "k < n" for k
    using that fields idle by (simp add: outstanding_def run set_phase_fields)
  have busy: "m_PendingBatch s \<noteq> []" using sbs by auto
  have fl: "\<not> (\<exists>a. streaming_thread s = WaitMarker a)" "\<not> (\<exists>a. streaming_thread s = Signalled a)"
    using D(7) busy by (auto simp: flush_ok_def split: streaming.splits)
  show ?thesis
  proof (cases "remove1 sb sbs = []")
    case False
    then have s1: "m_PendingBatch s1 = map_put (batchId p) (remove1 sb sbs) (m_PendingBatch s)" "m_CompletionQueue s1 = m_CompletionQueue s"
      using B(1) sbs by (simp_all add: run set_phase_fields complete_request_def)
    show ?thesis
    proof (rule tracker_invI)
      show "batches_ok n par (outstanding s1) (m_PendingBatch s1)"
        using B(2)[OF False] out unfolding s1 batches_ok_def by simp
      have keys: "map fst (m_PendingBatch s1) = map fst (m_PendingBatch s)"
        unfolding s1 by (rule mset_map_put_keys[OF D(8) p(1)])
      show "conserved par s1" by (rule conserved_pending[OF D(6) keys fields(5,6) s1(2) fields(7)])
      show "flush_ok s1" using fl by (auto simp: flush_ok_def fields s1(2) split: streaming.split)
    qed (simp_all add: fields D(1))
  next
    case True
    then have s1: "m_PendingBatch s1 = AList.delete (batchId p) (m_PendingBatch s)"
        "m_CompletionQueue s1 = m_CompletionQueue s @ [Some (p_buffer p)]"
      using B(1) sbs by (simp_all add: run set_phase_fields complete_request_def)
    show ?thesis
    proof (rule tracker_invI)
      show "batches_ok n par (outstanding s1) (m_PendingBatch s1)"
        using B(3)[OF True] out unfolding s1 batches_ok_def by simp
      show "conserved par s1" by (rule conserved_done[OF D(6,8) sbs p(2) s1 fields(5-7)])
      show "flush_ok s1" using fl by (auto simp: flush_ok_def fields s1(2) split: streaming.split)
    qed (simp_all add: fields D(1))
  qed
qed

lemma sub_complete_inv:
  assumes inv: "tracker_inv n par s" and run: "sub_complete cfg sb s = Next s'"
  shows "tracker_inv n par s'"
proof -
  note D = tracker_invD[OF inv]
  obtain p err where sb: "sb < n" "phase (sub_threads s ! sb) = SubTracked p err"
    using run D(2) by (auto simp: sub_complete_def split: if_splits sub_phase.splits)
  have I: "tracker_inv n par (set_phase sb ph' (complete_request sb p s))" if "in_hand ph' = []" for ph'
    by (rule complete_request_inv[OF inv sb refl that])
  have "tracker_inv n par (t\<lparr>m_TrackerLibError := True\<rparr>)" if "tracker_inv n par t" for t
    by (rule tracker_inv_cong[OF that])
      (simp_all add: tracker_invD(1,2)[OF that] outstanding_def flush_ok_same[OF tracker_invD(7)[OF that]])
  note err = this[OF I, of SubIdle]
  have "set_phase sb SubIdle (t\<lparr>m_TrackerLibError := True\<rparr>) = (set_phase sb SubIdle t)\<lparr>m_TrackerLibError := True\<rparr>" for t
    by (simp add: set_phase_def)
  with err I[of SubIdle] I[of SubRecover] show ?thesis
    using run sb D(2) by (auto simp: sub_complete_def Let_def split: if_splits)
qed

lemma no_batch_queue:
  "tracker_inv n par s \<Longrightarrow> proc_pop s = Blocked" "tracker_inv n par s \<Longrightarrow> proc_track env cfg lib s = Blocked"
  "tracker_inv n par s \<Longrightarrow> proc_complete s = Blocked" "tracker_inv n par s \<Longrightarrow> proc_return s = Blocked"
  by (simp_all add: tracker_invD(3,4) proc_pop_def proc_track_def proc_complete_def proc_return_def)

lemma tracker_step_inv:
  assumes "tracker_inv (length (subBatchSizes cfg)) par s" "subBatchSizes cfg \<noteq> []" "tracker_step env cfg l s = Next s'"
  shows "\<exists>par'. tracker_inv (length (subBatchSizes cfg)) par' s'"
proof (cases l)
  case (Submit fs L)
  then show ?thesis using submit_inv[OF assms(1,2)] assms(3) by (simp add: tracker_step_def)
next
  case (SubTrack sb lib)
  with assms(3) have "sub_track env cfg sb lib s = Next s'" by (simp add: tracker_step_def)
  from sub_track_inv[OF assms(1) this] show ?thesis by (intro exI[of _ par])
next
  case (SubComplete sb)
  with assms(3) have "sub_complete cfg sb s = Next s'" by (simp add: tracker_step_def)
  from sub_complete_inv[OF assms(1) this] show ?thesis by (intro exI[of _ par])
next
  case (SubPop sb r)
  with assms(3) have "sub_pop sb r s = Next s'" by (simp add: tracker_step_def)
  from sub_pop_inv[OF assms(1) this] show ?thesis by (intro exI[of _ par])
next
  case (SubReinit sb ok)
  with assms(3) have "sub_reinit sb ok s = Next s'" by (simp add: tracker_step_def)
  from sub_reinit_inv[OF assms(1) this] show ?thesis by (intro exI[of _ par])
next
  case (HandleSignal r)
  with assms(3) have "handle_signal cfg r s = Next s'" by (simp add: tracker_step_def)
  from handle_signal_inv[OF assms(1) this] show ?thesis by (intro exI[of _ par])
qed (use assms event_inv[OF assms(1)] flush_test_inv[OF assms(1)] spurious_wakeup_inv[OF assms(1)] output_pop_inv[OF assms(1)]
    no_batch_queue[OF assms(1)] in \<open>auto simp: tracker_step_def\<close>)

lemma start_inv: "tracker_inv (length (subBatchSizes cfg)) par (start_tracker cfg mp m)"
  by (rule tracker_invI)
    (simp_all add: start_tracker_def batches_ok_def conserved_def flush_ok_def outstanding_def)

lemma reachable_inv:
  assumes "tracker_reachable env cfg permitted (start_tracker cfg mp m) s" "subBatchSizes cfg \<noteq> []"
  shows "\<exists>par. tracker_inv (length (subBatchSizes cfg)) par s"
  using assms(1)
proof induction
  case initially
  show ?case using start_inv by blast
next
  case (moves s l s')
  then show ?case using tracker_step_inv[OF _ assms(2)] by blast
qed

section \<open>Buffers are kept\<close>

text \<open>
  Property C9. With sub-batches every buffer that was taken is exactly once pushed downstream, in the completion queue or in
  the pending batches, and a pending batch notes as many requests of a sub-batch as there are in the queue and in
  the hands of its thread, in the order of the buffers. No buffer is lost or sent twice and no sub-batch sees a later buffer
  first, whatever the order of the threads and the answers of the library.
\<close>

theorem tracker_keeps_buffers:
  assumes "tracker_reachable env cfg permitted (start_tracker cfg mp m) s" "subBatchSizes cfg \<noteq> []"
  shows "\<exists>buffer_of. mset (taken s) = mset (sent_buffers (pushed s)) + mset (completed (m_CompletionQueue s)) +
       mset (map (buffer_of \<circ> fst) (m_PendingBatch s)) \<and> distinct (taken s) \<and>
     (\<forall>i sbs. map_of (m_PendingBatch s) i = Some sbs \<longrightarrow>
        (\<forall>sb<length (subBatchSizes cfg). count_list sbs sb = count_list (map batchId (outstanding s sb)) i)) \<and>
     (\<forall>sb<length (subBatchSizes cfg). sorted (map p_buffer (outstanding s sb)) \<and>
        (\<forall>p\<in>set (outstanding s sb). buffer_of (batchId p) = p_buffer p))"
proof -
  obtain par where inv: "tracker_inv (length (subBatchSizes cfg)) par s" using reachable_inv[OF assms] by blast
  note D = tracker_invD[OF inv]
  have par: "par (batchId p) = p" if "sb < length (subBatchSizes cfg)" "p \<in> set (outstanding s sb)" for p sb
    using D(5) that unfolding batches_ok_def by blast
  show ?thesis
  proof (intro exI[of _ "p_buffer \<circ> par"] conjI)
    show "mset (taken s) = mset (sent_buffers (pushed s)) + mset (completed (m_CompletionQueue s)) +
       mset (map (p_buffer \<circ> par \<circ> fst) (m_PendingBatch s))" "distinct (taken s)"
      using D(6) unfolding conserved_def by blast+
    show "\<forall>i sbs. map_of (m_PendingBatch s) i = Some sbs \<longrightarrow>
        (\<forall>sb<length (subBatchSizes cfg). count_list sbs sb = count_list (map batchId (outstanding s sb)) i)"
      using D(5) unfolding batches_ok_def by blast
    show "\<forall>sb<length (subBatchSizes cfg). sorted (map p_buffer (outstanding s sb)) \<and>
        (\<forall>p\<in>set (outstanding s sb). (p_buffer \<circ> par) (batchId p) = p_buffer p)"
      using D(5) par unfolding batches_ok_def by (metis comp_apply)
  qed
qed

section \<open>Runs\<close>

lemma track_run_reachable:
  "tracker_run env cfg ls s = Next s' \<Longrightarrow> \<forall>l\<in>set ls. permitted l \<Longrightarrow> tracker_reachable env cfg permitted s0 s \<Longrightarrow>
     tracker_reachable env cfg permitted s0 s'"
  by (induction ls arbitrary: s) (auto split: step_result.splits intro: tracker_reachable.moves)

text \<open>Runs without spurious wakeups.\<close>

fun prompt_step :: "track_label \<Rightarrow> bool" where
  "prompt_step SpuriousWakeup = False"
| "prompt_step _ = True"

lemma after_prompt_run:
  assumes "after (track_run cfg ls) Q" "\<forall>l\<in>set ls. permitted l"
  obtains s where "track_run cfg ls = Next s" "Q s"
    "tracker_reachable sample_track_env cfg permitted (start_tracker cfg (the (init_maps cfg)) empty_pool) s"
proof -
  obtain s where s: "track_run cfg ls = Next s" "Q s" using assms(1) unfolding after_def by (cases "track_run cfg ls") auto
  have "tracker_reachable sample_track_env cfg permitted (start_tracker cfg (the (init_maps cfg)) empty_pool) s"
    using track_run_reachable[OF s(1) assms(2)] tracker_reachable.initially by blast
  then show thesis using that s by blast
qed

lemma after_track_run:
  assumes "after (track_run cfg ls) Q"
  obtains s where "track_run cfg ls = Next s" "Q s"
    "tracker_reachable sample_track_env cfg (\<lambda>_. True) (start_tracker cfg (the (init_maps cfg)) empty_pool) s"
  using after_prompt_run[OF assms, of "\<lambda>_. True"] by blast

lemma split_config_sub_batches: "subBatchSizes split_config = [2, 1]"
  by (simp add: split_config_def sub_batch_config_def)

text \<open>Two batches, one of them still pending; and an event behind a batch with frames for two sub-batches.\<close>

lemma two_batches_run:
  "after (track_run split_config (take 5 overtaking_buffer))
     (\<lambda>s. taken s = [0, 1] \<and> m_PendingBatch s = [(0, [1]), (1, [0])] \<and> map (length \<circ> outstanding s) [0, 1] = [1, 1])"
  by code_simp

theorem tracker_keeps_buffers_witness:
  "\<exists>s. track_run split_config (take 5 overtaking_buffer) = Next s \<and> taken s = [0, 1] \<and> m_PendingBatch s = [(0, [1]), (1, [0])] \<and>
     (\<exists>buffer_of :: u32 \<Rightarrow> nat. mset [0, 1] = mset (sent_buffers (pushed s)) + mset (completed (m_CompletionQueue s)) +
       mset (map (buffer_of \<circ> fst) [(0 :: u32, [1 :: nat]), (1, [0])]))"
proof -
  obtain s where s: "track_run split_config (take 5 overtaking_buffer) = Next s" "taken s = [0, 1] \<and> m_PendingBatch s = [(0, [1]), (1, [0])]"
    and r: "tracker_reachable sample_track_env split_config (\<lambda>_. True)
      (start_tracker split_config (the (init_maps split_config)) empty_pool) s"
    by (rule after_track_run[OF two_batches_run]) blast
  from tracker_keeps_buffers[OF r] split_config_sub_batches s(2)
  obtain buffer_of :: "u32 \<Rightarrow> nat" where "mset [0, 1] = mset (sent_buffers (pushed s)) + mset (completed (m_CompletionQueue s)) +
       mset (map (buffer_of \<circ> fst) [(0 :: u32, [1 :: nat]), (1, [0])])" by (metis list.distinct(1))
  with s show ?thesis by blast
qed

end
