(* ===== verification/TrackSettle.thy ===== *)
theory TrackSettle
  imports TrackProcProps
begin

text \<open>
  More about the threads of the tracker plugin: they come to rest when nothing arrives; without sub-batches the buffers leave in
  the order they came; a batch that cannot be dispatched stops the plugin.
\<close>

declare split_paired_All [simp del] split_paired_Ex [simp del]

section \<open>The threads come to rest\<close>

text \<open>What is left to do: a request four steps and perhaps a recovery, a buffer in the completion queue one.\<close>

fun proc_work :: "proc_phase \<Rightarrow> nat" where
  "proc_work ProcIdle = 0"
| "proc_work (ProcReturn p) = 1"
| "proc_work (ProcTracked p) = 3"
| "proc_work (ProcHas p) = 4"

fun sub_work :: "sub_phase \<Rightarrow> nat" where
  "sub_work SubIdle = 0"
| "sub_work SubRecover = 1"
| "sub_work (SubTracked p e) = 3"
| "sub_work (SubHas p r) = 4"

fun flush_work :: "streaming \<Rightarrow> nat" where
  "flush_work Streaming = 0"
| "flush_work (Signalled a) = 1"
| "flush_work (WaitMarker a) = 2"
| "flush_work (Flushing a) = 3"

definition work :: "NvTrackerProc \<Rightarrow> nat" where
  "work s = proc_work (process_thread s) + 5 * length (m_ProcQueue s) + (\<Sum>t\<leftarrow>sub_threads s. sub_work (phase t)) +
     (\<Sum>q\<leftarrow>reqQueues s. 5 * length q) + length (m_CompletionQueue s)"

fun from_outside :: "track_label \<Rightarrow> bool" where
  "from_outside (Submit fs L) = True"
| "from_outside (Event ev) = True"
| "from_outside _ = False"

lemma sum_list_update_nat: "k < length xs \<Longrightarrow> (\<Sum>x\<leftarrow>xs[k := y]. f x) + f (xs ! k) = (\<Sum>x\<leftarrow>xs. f x) + (f y :: nat)"
  by (induction xs arbitrary: k) (auto split: nat.split)

lemma proc_steps_work:
  "proc_pop s = Next s' \<Longrightarrow> work s' < work s \<and> streaming_thread s' = streaming_thread s"
  "proc_complete s = Next s' \<Longrightarrow> work s' < work s \<and> streaming_thread s' = streaming_thread s"
  "proc_return s = Next s' \<Longrightarrow> work s' < work s \<and> streaming_thread s' = streaming_thread s"
  by (auto simp: proc_pop_def proc_complete_def proc_return_def work_def split: proc_phase.splits list.splits)

lemma track_rounds_fields:
  "track_rounds env cfg lib p rs s = Some s' \<Longrightarrow> m_ProcQueue s' = m_ProcQueue s \<and> process_thread s' = process_thread s \<and>
     sub_threads s' = sub_threads s \<and> reqQueues s' = reqQueues s \<and> taken s' = taken s \<and> pushed s' = pushed s \<and>
     m_CompletionQueue s' = m_CompletionQueue s \<and> streaming_thread s' = streaming_thread s"
proof (induction rs arbitrary: s)
  case (Cons r rs)
  then obtain ok misc_ok s1 where t: "track_round env cfg lib True p r s = Some (ok, misc_ok, s1)"
    and rest: "track_rounds env cfg lib p rs (s1\<lparr>m_TrackerLibError := (m_TrackerLibError s1 \<or> \<not> ok \<or> \<not> misc_ok)\<rparr>) = Some s'"
    by (auto split: option.splits)
  from Cons.IH[OF rest] track_round_fields[OF t] show ?case by simp
qed simp

lemma proc_track_fields:
  assumes "proc_track env cfg lib s = Next s'"
  obtains p where "process_thread s = ProcHas p" "process_thread s' = ProcTracked p" "m_ProcQueue s' = m_ProcQueue s"
    "sub_threads s' = sub_threads s" "reqQueues s' = reqQueues s" "taken s' = taken s" "pushed s' = pushed s"
    "m_CompletionQueue s' = m_CompletionQueue s" "streaming_thread s' = streaming_thread s"
proof -
  obtain p where p: "process_thread s = ProcHas p" using assms by (auto simp: proc_track_def split: proc_phase.splits)
  obtain s1 where s1: "(if m_TrackerLibError s then Some s else case batch_metas s (p_buffer p) of
        None \<Rightarrow> None | Some fs \<Rightarrow> track_rounds env cfg lib p (queueFrames cfg fs) s) = Some s1"
    and s': "s' = (if map_of (m_PendingBatch s1) (batchId p) \<noteq> None
                      then s1\<lparr>m_PendingBatch := AList.delete (batchId p) (m_PendingBatch s1)\<rparr>
                      else s1\<lparr>m_TrackerLibError := True\<rparr>)\<lparr>process_thread := ProcTracked p\<rparr>"
    using assms p unfolding proc_track_def by (simp split: option.splits)
  have "m_ProcQueue s1 = m_ProcQueue s \<and> process_thread s1 = process_thread s \<and>
     sub_threads s1 = sub_threads s \<and> reqQueues s1 = reqQueues s \<and> taken s1 = taken s \<and> pushed s1 = pushed s \<and>
     m_CompletionQueue s1 = m_CompletionQueue s \<and> streaming_thread s1 = streaming_thread s"
    using s1 track_rounds_fields by (fastforce split: if_splits option.splits)
  then show thesis using that p s' by simp
qed

lemma proc_track_work: "proc_track env cfg lib s = Next s' \<Longrightarrow> work s' < work s \<and> streaming_thread s' = streaming_thread s"
  by (erule proc_track_fields) (simp add: work_def)

lemma work_set_phase:
  "sb < length (sub_threads s) \<Longrightarrow>
     work (set_phase sb ph s) + sub_work (phase (sub_threads s ! sb)) = work s + sub_work ph"
  using sum_list_update_nat[of sb "sub_threads s" "\<lambda>t. sub_work (phase t)" "(sub_threads s ! sb)\<lparr>phase := ph\<rparr>"]
  by (simp add: work_def set_phase_def)

lemma work_set_trials: "work (set_trials sb i s) = work s"
proof (cases "sb < length (sub_threads s)")
  case True
  then show ?thesis
    using sum_list_update_nat[of sb "sub_threads s" "\<lambda>t. sub_work (phase t)" "(sub_threads s ! sb)\<lparr>trials := i\<rparr>"]
    by (simp add: work_def set_trials_def)
qed (simp add: work_def set_trials_def list_update_beyond)

lemma work_cong:
  "process_thread s' = process_thread s \<Longrightarrow> m_ProcQueue s' = m_ProcQueue s \<Longrightarrow> sub_threads s' = sub_threads s \<Longrightarrow>
     reqQueues s' = reqQueues s \<Longrightarrow> m_CompletionQueue s' = m_CompletionQueue s \<Longrightarrow> work s' = work s"
  by (simp add: work_def)

lemma sub_pop_work:
  assumes "sub_pop sb removed s = Next s'" "length (reqQueues s) = length (sub_threads s)"
  shows "work s' < work s \<and> streaming_thread s' = streaming_thread s"
proof -
  obtain req q where q: "sb < length (sub_threads s)" "phase (sub_threads s ! sb) = SubIdle" "reqQueues s ! sb = req # q"
    using assms(1) by (auto simp: sub_pop_def split: if_splits sub_phase.splits list.splits)
  let ?s1 = "s\<lparr>reqQueues := (reqQueues s)[sb := q]\<rparr>"
  have w: "work ?s1 + 5 = work s"
    using sum_list_update_nat[of sb "reqQueues s" "\<lambda>q. 5 * length q" q] q(1,3) assms(2) by (simp add: work_def)
  show ?thesis
  proof (cases req)
    case (TrackReq p r)
    with assms(1) q have s': "s' = set_phase sb (SubHas p r) ?s1" by (simp add: sub_pop_def)
    show ?thesis using work_set_phase[of sb ?s1 "SubHas p r"] w q by (simp add: s' set_phase_fields)
  next
    case (RemoveReq ss)
    with assms(1) q have s': "s' = ?s1\<lparr>m_TrackerLibError := (m_TrackerLibError s \<or> \<not> removed)\<rparr>" by (simp add: sub_pop_def Let_def)
    have "work s' = work ?s1" unfolding s' by (rule work_cong) simp_all
    then show ?thesis using w by (simp add: s')
  qed
qed

lemma sub_track_work:
  assumes "sub_track env cfg sb lib s = Next s'"
  shows "work s' < work s \<and> streaming_thread s' = streaming_thread s"
proof -
  obtain p r where sb: "sb < length (sub_threads s)" "phase (sub_threads s ! sb) = SubHas p r"
    using assms by (auto simp: sub_track_def split: if_splits sub_phase.splits)
  have "\<exists>s1 e. s' = set_phase sb (SubTracked p e) s1 \<and> work s1 = work s \<and> phase (sub_threads s1 ! sb) = SubHas p r \<and>
      length (sub_threads s1) = length (sub_threads s) \<and> streaming_thread s1 = streaming_thread s"
  proof (cases "m_TrackerLibError s")
    case True
    with assms sb show ?thesis by (auto simp: sub_track_def)
  next
    case False
    with assms sb obtain ok misc_ok s1 where t: "track_round env cfg lib False p r (sync_conversion p s) = Some (ok, misc_ok, s1)"
      and s': "s' = set_phase sb (SubTracked p (\<not> ok))
          (if \<not> ok then s1 else (set_trials sb 0 s1)\<lparr>m_TrackerLibError := (m_TrackerLibError s1 \<or> \<not> misc_ok)\<rparr>)"
      by (auto simp: sub_track_def split: option.splits)
    note F = track_round_fields[OF t, unfolded sync_conversion_fields]
    have w1: "work s1 = work s" by (rule work_cong) (simp_all add: F)
    have w2: "work ((set_trials sb 0 s1)\<lparr>m_TrackerLibError := e\<rparr>) = work s" for e
      using work_set_trials[of sb 0 s1] work_cong[of "(set_trials sb 0 s1)\<lparr>m_TrackerLibError := e\<rparr>" "set_trials sb 0 s1"] w1 by simp
    show ?thesis
      by (intro exI conjI, rule s') (use sb in \<open>auto simp: F w1 w2 set_trials_fields\<close>)
  qed
  then obtain s1 e where s1: "s' = set_phase sb (SubTracked p e) s1" "work s1 = work s" "phase (sub_threads s1 ! sb) = SubHas p r"
      "length (sub_threads s1) = length (sub_threads s)" "streaming_thread s1 = streaming_thread s" by blast
  then show ?thesis using work_set_phase[of sb s1 "SubTracked p e"] sb(1) by (simp add: set_phase_fields)
qed

lemma complete_request_fields:
  "process_thread (complete_request sb p s) = process_thread s" "m_ProcQueue (complete_request sb p s) = m_ProcQueue s"
  "sub_threads (complete_request sb p s) = sub_threads s" "reqQueues (complete_request sb p s) = reqQueues s"
  "streaming_thread (complete_request sb p s) = streaming_thread s" "taken (complete_request sb p s) = taken s"
  "pushed (complete_request sb p s) = pushed s"
  "length (m_CompletionQueue (complete_request sb p s)) \<le> Suc (length (m_CompletionQueue s))"
  by (auto simp: complete_request_def split: option.split)

lemma sub_complete_work:
  assumes "sub_complete cfg sb s = Next s'"
  shows "work s' < work s \<and> streaming_thread s' = streaming_thread s"
proof -
  obtain p err where sb: "sb < length (sub_threads s)" "phase (sub_threads s ! sb) = SubTracked p err"
    using assms by (auto simp: sub_complete_def split: if_splits sub_phase.splits)
  let ?c = "complete_request sb p s"
  have c: "work ?c \<le> Suc (work s)" using complete_request_fields(8)[of sb p s] by (simp add: work_def complete_request_fields)
  have "s' = set_phase sb SubIdle ?c \<or> s' = set_phase sb SubRecover ?c \<or> s' = set_phase sb SubIdle (?c\<lparr>m_TrackerLibError := True\<rparr>)"
    using assms sb by (auto simp: sub_complete_def Let_def split: if_splits)
  then obtain t ph where t: "s' = set_phase sb ph t" "sub_work ph \<le> 1" "work t = work ?c" "sub_threads t = sub_threads s"
      "streaming_thread t = streaming_thread s"
    using work_cong[of "?c\<lparr>m_TrackerLibError := True\<rparr>" ?c] by (auto simp: complete_request_fields)
  show ?thesis using work_set_phase[of sb t ph] t sb c by (simp add: set_phase_fields)
qed

lemma sub_reinit_work:
  assumes "sub_reinit sb ok s = Next s'"
  shows "work s' < work s \<and> streaming_thread s' = streaming_thread s"
proof -
  have sb: "sb < length (sub_threads s)" "phase (sub_threads s ! sb) = SubRecover"
    using assms by (auto simp: sub_reinit_def split: if_splits sub_phase.splits)
  let ?t = "s\<lparr>m_TrackerLibError := (m_TrackerLibError s \<or> \<not> ok)\<rparr>"
  let ?s1 = "set_trials sb (trials (sub_threads s ! sb) + 1) ?t"
  have s': "s' = set_phase sb SubIdle ?s1" using assms sb by (simp add: sub_reinit_def)
  have "work ?s1 = work s" using work_cong[of ?t s] by (simp add: work_set_trials)
  then show ?thesis using work_set_phase[of sb ?s1 SubIdle] sb by (simp add: s' set_phase_fields set_trials_fields)
qed

lemma inner_step_progress:
  assumes "\<not> from_outside l" "tracker_step env cfg l s = Next s'" "length (reqQueues s) = length (sub_threads s)"
  shows "flush_work (streaming_thread s') < flush_work (streaming_thread s) \<or>
     flush_work (streaming_thread s') = flush_work (streaming_thread s) \<and> work s' < work s"
proof (cases l)
  case FlushTest
  then show ?thesis using assms(2) by (auto simp: tracker_step_def flush_test_def split: streaming.splits if_splits)
next
  case (HandleSignal removed)
  then obtain a where a: "streaming_thread s = Signalled a" and run: "handle_signal cfg removed s = Next s'"
    using assms(2) by (auto simp: tracker_step_def handle_signal_def split: streaming.splits)
  have "streaming_thread s' = Streaming"
  proof (cases a)
    case (ThenPush b)
    with run a show ?thesis by (auto simp: handle_signal_def)
  next
    case (ThenEvent ev)
    obtain ok s1 where e: "handle_event cfg removed ev (s\<lparr>streaming_thread := Streaming\<rparr>) = (ok, s1)" by fastforce
    then show ?thesis using run a ThenEvent track_event_fields(9)[OF e] by (auto simp: handle_signal_def split: if_splits)
  qed
  then show ?thesis by (simp add: a)
next
  case OutputPop
  then show ?thesis using assms(2)
    by (auto simp: tracker_step_def output_pop_def work_def split: list.splits option.splits streaming.splits)
next
  case SpuriousWakeup
  then show ?thesis using assms(2) by (auto simp: tracker_step_def spurious_wakeup_def split: streaming.splits)
next
  case (SubPop sb removed)
  then show ?thesis using assms(2) sub_pop_work[OF _ assms(3)] by (simp add: tracker_step_def)
next
  case (SubTrack sb lib)
  with assms(2) have "sub_track env cfg sb lib s = Next s'" by (simp add: tracker_step_def)
  from sub_track_work[OF this] show ?thesis by simp
next
  case (SubComplete sb)
  with assms(2) have "sub_complete cfg sb s = Next s'" by (simp add: tracker_step_def)
  from sub_complete_work[OF this] show ?thesis by simp
next
  case (SubReinit sb ok)
  with assms(2) have "sub_reinit sb ok s = Next s'" by (simp add: tracker_step_def)
  from sub_reinit_work[OF this] show ?thesis by simp
next
  case (ProcTrack lib)
  with assms(2) have "proc_track env cfg lib s = Next s'" by (simp add: tracker_step_def)
  from proc_track_work[OF this] show ?thesis by simp
qed (use assms(1,2) proc_steps_work in \<open>auto simp: tracker_step_def\<close>)

section \<open>Without sub-batches buffers stay in order\<close>

fun in_process :: "proc_phase \<Rightarrow> nat list" where
  "in_process (ProcHas p) = [p_buffer p]"
| "in_process (ProcTracked p) = [p_buffer p]"
| "in_process _ = []"

definition whole_inv :: "NvTrackerProc \<Rightarrow> bool" where
  "whole_inv s \<longleftrightarrow> sub_threads s = [] \<and> reqQueues s = [] \<and>
     taken s = sent_buffers (pushed s) @ completed (m_CompletionQueue s) @ in_process (process_thread s) @ map p_buffer (m_ProcQueue s)"

lemma whole_inv_cong:
  "whole_inv s \<Longrightarrow> sub_threads s' = sub_threads s \<Longrightarrow> reqQueues s' = reqQueues s \<Longrightarrow> taken s' = taken s \<Longrightarrow>
     sent_buffers (pushed s') @ completed (m_CompletionQueue s') = sent_buffers (pushed s) @ completed (m_CompletionQueue s) \<Longrightarrow>
     in_process (process_thread s') @ map p_buffer (m_ProcQueue s') = in_process (process_thread s) @ map p_buffer (m_ProcQueue s) \<Longrightarrow>
     whole_inv s'"
  unfolding whole_inv_def by (metis append_assoc)

lemma submit_whole:
  assumes inv: "whole_inv s" and cfg: "subBatchSizes cfg = []" and run: "submit_input_buffer cfg fs L s = Next s'"
  shows "whole_inv s'"
proof -
  have keep: "whole_inv (s\<lparr>next_buffer := b, batch_metas := bm\<rparr>)" "whole_inv (s\<lparr>next_buffer := b, streaming_thread := t\<rparr>)"
    "whole_inv (s\<lparr>next_buffer := b\<rparr>)" for b bm t by (rule whole_inv_cong[OF inv]; simp)+
  have queue: "whole_inv (snd (queue_whole_batch p t))" if "whole_inv t" for p t
    using that by (simp add: queue_whole_batch_def note_batch_def whole_inv_def)
  have conv: "whole_inv (t\<lparr>m_ConvBufMgr := m\<rparr>)" if "whole_inv t" for t m by (rule whole_inv_cong[OF that]) simp_all
  have input: "whole_inv t'" if "submitInput cfg b fs L t = Next (ok, t')" "whole_inv t" for b t ok t'
  proof (cases "m_TrackerLibError t \<or> numTransforms cfg \<noteq> 0 \<and> isQueueEmpty (m_ConvBufMgr t)")
    case True
    with that show ?thesis by (auto simp: submitInput_def split: if_splits)
  next
    case False
    let ?c = "if numTransforms cfg = 0 then Some (None, None, m_ConvBufMgr t) else convertBatchAsync L b (m_ConvBufMgr t)"
    from that(1) False obtain surf sync m where c: "?c = Some (surf, sync, m)"
      by (cases ?c) (auto simp: submitInput_def split: if_splits)
    have "t' = t\<lparr>m_ConvBufMgr := m\<rparr> \<or> (\<exists>p. t' = snd (queue_whole_batch p (t\<lparr>m_ConvBufMgr := m\<rparr>)))"
    proof (cases "numTransforms cfg \<noteq> 0 \<and> surf = None")
      case True
      with that(1) False c show ?thesis by (simp add: submitInput_def)
    next
      case kept: False
      define p where "p = \<lparr>p_buffer = b, pConvBuf = surf, bufSetSyncObjs = sync, batchId = m_BatchId t\<rparr>"
      have "queue_whole_batch p (t\<lparr>m_ConvBufMgr := m\<rparr>) = (ok, t')"
        using that(1) False c kept cfg unfolding submitInput_def p_def by (auto simp: Let_def split: option.splits if_splits)
      then show ?thesis by (metis snd_conv)
    qed
    then show ?thesis using conv[OF that(2)] queue by auto
  qed
  show ?thesis using run keep input
    by (fastforce simp: submit_input_buffer_def Let_def split: if_splits step_result.splits)
qed

lemma push_removals_none: "reqQueues s = [] \<Longrightarrow> reqQueues (push_removals reqs s) = []"
proof -
  have "length (fold (\<lambda>(sb, ss) qs. qs[sb := qs ! sb @ [RemoveReq ss]]) reqs qs) = length qs" for qs
    by (induction reqs arbitrary: qs) (simp_all split: prod.split)
  from this[of "[]"] show "reqQueues s = [] \<Longrightarrow> ?thesis" by (simp add: push_removals_def)
qed

lemma whole_step:
  assumes inv: "whole_inv s" and cfg: "subBatchSizes cfg = []" and run: "tracker_step env cfg l s = Next s'"
  shows "whole_inv s'"
proof (cases l)
  case (Submit fs L)
  then show ?thesis using submit_whole[OF inv cfg] run by (simp add: tracker_step_def)
next
  case (Event ev)
  show ?thesis by (rule whole_inv_cong[OF inv]) (use run Event in \<open>auto simp: tracker_step_def sink_event_def split: if_splits\<close>)
next
  case FlushTest
  show ?thesis
    by (rule whole_inv_cong[OF inv])
      (use run FlushTest in \<open>auto simp: tracker_step_def flush_test_def split: if_splits streaming.splits\<close>)
next
  case (HandleSignal removed)
  then obtain a where a: "streaming_thread s = Signalled a" and run': "handle_signal cfg removed s = Next s'"
    using run by (auto simp: tracker_step_def handle_signal_def split: streaming.splits)
  show ?thesis
  proof (cases a)
    case (ThenPush b)
    show ?thesis by (rule whole_inv_cong[OF inv]) (use run' a ThenPush in \<open>auto simp: handle_signal_def\<close>)
  next
    case (ThenEvent ev)
    obtain ok s1 where e: "handle_event cfg removed ev (s\<lparr>streaming_thread := Streaming\<rparr>) = (ok, s1)" by fastforce
    note F = track_event_fields[OF e]
    have "reqQueues s1 = reqQueues s" using F(10) inv by (simp add: whole_inv_def)
    then show ?thesis by (intro whole_inv_cong[OF inv]) (use run' a ThenEvent e F in \<open>auto simp: handle_signal_def split: if_splits\<close>)
  qed
next
  case OutputPop
  show ?thesis
    by (rule whole_inv_cong[OF inv])
      (use run OutputPop in \<open>auto simp: tracker_step_def output_pop_def split: list.splits option.splits streaming.splits\<close>)
next
  case SpuriousWakeup
  show ?thesis
    by (rule whole_inv_cong[OF inv])
      (use run SpuriousWakeup in \<open>auto simp: tracker_step_def spurious_wakeup_def split: streaming.splits\<close>)
next
  case ProcPop
  show ?thesis
    by (rule whole_inv_cong[OF inv]) (use run ProcPop in \<open>auto simp: tracker_step_def proc_pop_def split: list.splits proc_phase.splits\<close>)
next
  case (ProcTrack lib)
  with run have "proc_track env cfg lib s = Next s'" by (simp add: tracker_step_def)
  then show ?thesis by (rule proc_track_fields) (rule whole_inv_cong[OF inv]; simp)
next
  case ProcComplete
  show ?thesis using run ProcComplete inv
    by (auto simp: tracker_step_def proc_complete_def whole_inv_def split: proc_phase.splits)
next
  case ProcReturnBuffer
  show ?thesis
    by (rule whole_inv_cong[OF inv]) (use run ProcReturnBuffer in \<open>auto simp: tracker_step_def proc_return_def split: proc_phase.splits\<close>)
qed (use run inv in \<open>auto simp: tracker_step_def sub_pop_def sub_track_def sub_complete_def sub_reinit_def whole_inv_def\<close>)

lemma whole_start: "subBatchSizes cfg = [] \<Longrightarrow> whole_inv (start_tracker cfg mp m)"
  by (simp add: whole_inv_def start_tracker_def)

lemma whole_reachable:
  assumes "tracker_reachable env cfg permitted (start_tracker cfg mp m) s" "subBatchSizes cfg = []"
  shows "whole_inv s"
  using assms(1) by induction (use whole_start[OF assms(2)] whole_step[OF _ assms(2)] in blast)+

text \<open>
  Property C11. Without sub-batches the buffers with frames leave in the order they came: at any time the buffers taken are,
  in order, those pushed downstream, those in the completion queue, the one the processing thread has and those in its queue.
  A buffer without frames is not among them: the streaming thread sends it when it has waited, as it does an event.
\<close>

theorem whole_batches_in_order:
  assumes "tracker_reachable env cfg permitted (start_tracker cfg mp m) s" "subBatchSizes cfg = []"
  shows "taken s = sent_buffers (pushed s) @ completed (m_CompletionQueue s) @ in_process (process_thread s) @
    map p_buffer (m_ProcQueue s)"
  using whole_reachable[OF assms] unfolding whole_inv_def by blast

text \<open>
  Property C12. The threads of the plugin come to rest: when no buffer and no event arrives there is no
  infinite run of the other steps from a state that can be reached, whatever the library answers.
\<close>

theorem tracker_threads_settle:
  "wf {(s', s). tracker_reachable env cfg permitted (start_tracker cfg mp m) s \<and>
     (\<exists>l. \<not> from_outside l \<and> tracker_step env cfg l s = Next s')}"
proof (rule wf_subset)
  show "wf (measures [\<lambda>s. flush_work (streaming_thread s), work])" by simp
  show "{(s', s). tracker_reachable env cfg permitted (start_tracker cfg mp m) s \<and>
     (\<exists>l. \<not> from_outside l \<and> tracker_step env cfg l s = Next s')} \<subseteq> measures [\<lambda>s. flush_work (streaming_thread s), work]"
  proof (clarsimp, goal_cases)
    case (1 s' s l)
    have "length (reqQueues s) = length (sub_threads s)"
    proof (cases "subBatchSizes cfg = []")
      case True
      then show ?thesis using whole_reachable[OF 1(1)] by (simp add: whole_inv_def)
    next
      case False
      then show ?thesis using reachable_inv[OF 1(1)] tracker_invD(1,2) by (metis (no_types))
    qed
    from inner_step_progress[OF 1(2,3) this] 1(4) show ?case by blast
  qed
qed

end
