(* ===== verification/TrackStuck.thy ===== *)
theory TrackStuck
  imports TrackSettle
begin

text \<open>
  What goes wrong between the threads of the tracker plugin: a batch with a stream for which no sub-batch has room stops it, an event
  overtakes a buffer, a buffer overtakes a buffer.
\<close>

declare split_paired_All [simp del] split_paired_Ex [simp del]

section \<open>A batch without requests stays pending\<close>

definition stopped :: "u32 \<Rightarrow> NvTrackerProc \<Rightarrow> bool" where
  "stopped i s \<longleftrightarrow> map_of (m_PendingBatch s) i = Some [] \<and> m_BatchId s = i"

lemma stopped_cong: "stopped i s \<Longrightarrow> m_PendingBatch s' = m_PendingBatch s \<Longrightarrow> m_BatchId s' = m_BatchId s \<Longrightarrow> stopped i s'"
  by (simp add: stopped_def)

lemma submit_stopped:
  assumes stop: "stopped i s" and n: "subBatchSizes cfg \<noteq> []" and run: "submit_input_buffer cfg fs L s = Next s'"
  shows "stopped i s' \<and> taken s' = taken s"
proof -
  have refused: "dispatchSubBatches cfg fs p t = Some (False, t)" if "stopped i t" "batchId p = i" for p t
    using that by (simp add: dispatchSubBatches_def stopped_def)
  have input: "stopped i t' \<and> taken t' = taken t" if "submitInput cfg b fs L t = Next (ok, t')" "stopped i t" for b t ok t'
  proof (cases "m_TrackerLibError t \<or> numTransforms cfg \<noteq> 0 \<and> isQueueEmpty (m_ConvBufMgr t)")
    case True
    with that show ?thesis by (auto simp: submitInput_def split: if_splits)
  next
    case False
    let ?c = "if numTransforms cfg = 0 then Some (None, None, m_ConvBufMgr t) else convertBatchAsync L b (m_ConvBufMgr t)"
    from that(1) False obtain surf sync m where c: "?c = Some (surf, sync, m)"
      by (cases ?c) (auto simp: submitInput_def split: if_splits)
    define p where "p = \<lparr>p_buffer = b, pConvBuf = surf, bufSetSyncObjs = sync, batchId = m_BatchId t\<rparr>"
    have st: "stopped i (t\<lparr>m_ConvBufMgr := m\<rparr>)" by (rule stopped_cong[OF that(2)]) simp_all
    have "batchId p = i" using that(2) by (simp add: p_def stopped_def)
    from refused[OF st this] that(1) False c n have "t' = t\<lparr>m_ConvBufMgr := m\<rparr>"
      unfolding submitInput_def p_def by (auto simp: Let_def split: if_splits)
    with st show ?thesis by simp
  qed
  have keep: "stopped i (s\<lparr>next_buffer := b, batch_metas := bm\<rparr>)" "stopped i (s\<lparr>next_buffer := b, streaming_thread := t\<rparr>)"
    "stopped i (s\<lparr>next_buffer := b\<rparr>)" for b bm t by (rule stopped_cong[OF stop]; simp)+
  show ?thesis using run keep input[OF _ keep(1)]
    by (fastforce simp: submit_input_buffer_def Let_def split: if_splits step_result.splits)
qed

lemma handle_event_BatchId: "handle_event cfg removed ev s = (ok, s') \<Longrightarrow> m_BatchId s' = m_BatchId s"
  by (auto simp: handle_event_def handle_removal_def push_removals_def split: track_event.splits if_splits prod.splits)

lemma track_round_BatchId: "track_round env cfg lib always p r s = Some (ok, misc_ok, s') \<Longrightarrow> m_BatchId s' = m_BatchId s"
  unfolding track_round_def by (auto simp: Let_def split: option.splits prod.splits if_splits)

lemma sub_track_pending:
  assumes "sub_track env cfg sb lib s = Next s'"
  shows "m_PendingBatch s' = m_PendingBatch s \<and> m_BatchId s' = m_BatchId s \<and> taken s' = taken s"
proof (cases "m_TrackerLibError s")
  case True
  with assms show ?thesis by (auto simp: sub_track_def set_phase_def split: if_splits sub_phase.splits)
next
  case False
  with assms obtain p r ok misc_ok s1 where t: "track_round env cfg lib False p r (sync_conversion p s) = Some (ok, misc_ok, s1)"
    and s': "s' = set_phase sb (SubTracked p (\<not> ok))
        (if \<not> ok then s1 else (set_trials sb 0 s1)\<lparr>m_TrackerLibError := (m_TrackerLibError s1 \<or> \<not> misc_ok)\<rparr>)"
    by (auto simp: sub_track_def split: if_splits option.splits sub_phase.splits)
  have "m_BatchId (sync_conversion p s) = m_BatchId s" by (simp add: sync_conversion_def split: option.split)
  then show ?thesis
    using track_round_fields[OF t, unfolded sync_conversion_fields] track_round_BatchId[OF t]
    by (simp add: s' set_phase_def set_trials_def)
qed

lemma sub_complete_stopped:
  assumes "sub_complete cfg sb s = Next s'" "stopped i s"
  shows "stopped i s' \<and> taken s' = taken s"
proof -
  obtain p err where sb: "phase (sub_threads s ! sb) = SubTracked p err"
    using assms by (auto simp: sub_complete_def split: if_splits sub_phase.splits)
  have c: "stopped i (complete_request sb p s)"
    using assms(2) by (auto simp: complete_request_def stopped_def delete_conv' split: option.split)
  have "m_PendingBatch s' = m_PendingBatch (complete_request sb p s) \<and> m_BatchId s' = m_BatchId (complete_request sb p s) \<and>
      taken s' = taken (complete_request sb p s)"
    using assms(1) sb by (auto simp: sub_complete_def Let_def set_phase_def split: if_splits)
  then show ?thesis using stopped_cong[OF c] by (simp add: complete_request_fields)
qed

lemma stopped_step:
  assumes inv: "tracker_inv n par s" and n: "subBatchSizes cfg \<noteq> []" and stop: "stopped i s" and run: "tracker_step env cfg l s = Next s'"
  shows "stopped i s' \<and> taken s' = taken s"
proof (cases l)
  case (Submit fs L)
  then show ?thesis using submit_stopped[OF stop n] run by (simp add: tracker_step_def)
next
  case (SubTrack sb lib)
  with run have "sub_track env cfg sb lib s = Next s'" by (simp add: tracker_step_def)
  from sub_track_pending[OF this] show ?thesis using stopped_cong[OF stop] by blast
next
  case (SubComplete sb)
  then show ?thesis using sub_complete_stopped[OF _ stop] run by (simp add: tracker_step_def)
next
  case (HandleSignal removed)
  have "m_PendingBatch s \<noteq> []" using stop by (auto simp: stopped_def)
  then have "\<nexists>a. streaming_thread s = Signalled a" using tracker_invD(7)[OF inv] by (auto simp: flush_ok_def)
  then show ?thesis using run HandleSignal by (auto simp: tracker_step_def handle_signal_def split: streaming.splits)
next
  case (SubPop sb removed)
  then have "m_PendingBatch s' = m_PendingBatch s \<and> m_BatchId s' = m_BatchId s \<and> taken s' = taken s"
    using run by (auto simp: tracker_step_def sub_pop_def set_phase_def Let_def
        split: if_splits sub_phase.splits list.splits DispatchReq.splits)
  then show ?thesis using stopped_cong[OF stop] by blast
next
  case (SubReinit sb ok)
  then have "m_PendingBatch s' = m_PendingBatch s \<and> m_BatchId s' = m_BatchId s \<and> taken s' = taken s"
    using run by (auto simp: tracker_step_def sub_reinit_def set_phase_def set_trials_def split: if_splits sub_phase.splits)
  then show ?thesis using stopped_cong[OF stop] by blast
next
  case (Event ev)
  then have "m_PendingBatch s' = m_PendingBatch s \<and> m_BatchId s' = m_BatchId s \<and> taken s' = taken s"
    using run by (auto simp: tracker_step_def sink_event_def split: if_splits)
  then show ?thesis using stopped_cong[OF stop] by blast
next
  case FlushTest
  then have "m_PendingBatch s' = m_PendingBatch s \<and> m_BatchId s' = m_BatchId s \<and> taken s' = taken s"
    using run by (auto simp: tracker_step_def flush_test_def split: if_splits streaming.splits)
  then show ?thesis using stopped_cong[OF stop] by blast
next
  case SpuriousWakeup
  then have "m_PendingBatch s' = m_PendingBatch s \<and> m_BatchId s' = m_BatchId s \<and> taken s' = taken s"
    using run by (auto simp: tracker_step_def spurious_wakeup_def split: streaming.splits)
  then show ?thesis using stopped_cong[OF stop] by blast
next
  case OutputPop
  then have "m_PendingBatch s' = m_PendingBatch s \<and> m_BatchId s' = m_BatchId s \<and> taken s' = taken s"
    using run by (auto simp: tracker_step_def output_pop_def split: list.splits option.splits streaming.splits)
  then show ?thesis using stopped_cong[OF stop] by blast
qed (use run no_batch_queue[OF inv] in \<open>simp_all add: tracker_step_def\<close>)

lemma stopped_reachable:
  assumes "tracker_reachable env cfg permitted t u" "tracker_inv (length (subBatchSizes cfg)) par t" "subBatchSizes cfg \<noteq> []" "stopped i t"
  shows "stopped i u \<and> taken u = taken t \<and> (\<exists>par. tracker_inv (length (subBatchSizes cfg)) par u)"
  using assms(1)
proof induction
  case initially
  show ?case using assms by blast
next
  case (moves u l u')
  then obtain par' where inv: "tracker_inv (length (subBatchSizes cfg)) par' u" by blast
  from moves stopped_step[OF inv assms(3)] tracker_step_inv[OF inv assms(3) moves.hyps(3)] show ?case by metis
qed

text \<open>A batch whose first round has a stream without a place is noted, gets no request and keeps its number.\<close>

lemma failed_dispatch_stopped:
  assumes run: "submit_input_buffer cfg fs L s = Next t" and n: "subBatchSizes cfg \<noteq> []" and took: "taken t \<noteq> taken s"
    and r: "queueFrames cfg fs = r # rs"
    and fail: "split_round cfg (\<lambda>i. f_pad_index (fs ! i)) r (maps s) (replicate (length (subBatchSizes cfg)) []) = Some (False, mp, ls)"
  shows "stopped (m_BatchId s) t"
proof -
  let ?s = "s\<lparr>next_buffer := Suc (next_buffer s), batch_metas := (batch_metas s)(next_buffer s \<mapsto> fs)\<rparr>"
  from run took obtain ok where i: "submitInput cfg (next_buffer s) fs L ?s = Next (ok, t)"
    by (auto simp: submit_input_buffer_def Let_def split: if_splits step_result.splits)
  let ?c = "if numTransforms cfg = 0 then Some (None, None, m_ConvBufMgr s) else convertBatchAsync L (next_buffer s) (m_ConvBufMgr s)"
  from i took have e: "\<not> m_TrackerLibError s" "\<not> (numTransforms cfg \<noteq> 0 \<and> isQueueEmpty (m_ConvBufMgr s))"
    by (auto simp: submitInput_def split: if_splits)
  from i e obtain surf sync m where c: "?c = Some (surf, sync, m)" by (cases ?c) (auto simp: submitInput_def split: if_splits)
  define p where "p = \<lparr>p_buffer = next_buffer s, pConvBuf = surf, bufSetSyncObjs = sync, batchId = m_BatchId s\<rparr>"
  have k: "\<not> (numTransforms cfg \<noteq> 0 \<and> surf = None)" using i e c took by (auto simp: submitInput_def Let_def split: if_splits)
  have d: "dispatchSubBatches cfg fs p (?s\<lparr>m_ConvBufMgr := m\<rparr>) = Some (ok, t)"
    using i e c k n unfolding submitInput_def p_def by (auto simp: Let_def split: option.splits if_splits)
  show ?thesis
    using d took r fail unfolding dispatchSubBatches_def
    by (auto simp: note_batch_def stopped_def p_def split: if_splits)
qed

text \<open>
  Property C37. A batch with a stream for which no sub-batch has room stops the plugin: its number stays pending
  without a request, so no later buffer is ever taken and every event waits for ever.
\<close>

theorem full_sub_batches_stop_plugin:
  assumes "tracker_reachable env cfg permitted (start_tracker cfg mp0 m) s" "subBatchSizes cfg \<noteq> []"
    and "tracker_step env cfg (Submit fs L) s = Next t" "taken t \<noteq> taken s" "queueFrames cfg fs = r # rs"
    and "split_round cfg (\<lambda>i. f_pad_index (fs ! i)) r (maps s) (replicate (length (subBatchSizes cfg)) []) = Some (False, mp, ls)"
    and "tracker_reachable env cfg permitted t u"
  shows "taken u = taken t \<and> flush_test u = Blocked"
proof -
  from assms(3) have run: "submit_input_buffer cfg fs L s = Next t" by (simp add: tracker_step_def)
  obtain par where "tracker_inv (length (subBatchSizes cfg)) par s" using reachable_inv[OF assms(1,2)] by blast
  then obtain par' where "tracker_inv (length (subBatchSizes cfg)) par' t" using tracker_step_inv[OF _ assms(2,3)] by blast
  from stopped_reachable[OF assms(7) this assms(2) failed_dispatch_stopped[OF run assms(2,4-6)]]
  have "taken u = taken t" "m_PendingBatch u \<noteq> []" by (auto simp: stopped_def)
  then show ?thesis by (simp add: flush_test_def split: streaming.split)
qed

text \<open>Four streams and three places; the batch after it is refused.\<close>

definition four_frames :: "track_frame list" where
  "four_frames = [plain_frame 0 1, plain_frame 1 1, plain_frame 2 1, plain_frame 3 1]"

lemma run_one: "tracker_run env cfg [l] s = tracker_step env cfg l s"
  by (simp split: step_result.split)

lemma after_two:
  assumes "after (tracker_run env cfg [l, l'] s) Q"
  obtains t u where "tracker_step env cfg l s = Next t" "tracker_step env cfg l' t = Next u" "Q u"
  using assms by (auto simp: after_def split: step_result.splits)

lemma four_frames_refused:
  "after (track_run split_config [Submit four_frames no_conversion]) (\<lambda>s. taken s = [0])"
  "after (track_run split_config [Submit four_frames no_conversion, Submit [plain_frame 0 2] no_conversion]) (\<lambda>s. next_buffer s = 2)"
  by code_simp+

lemma four_frames_rounds: "map (map snd) (queueFrames split_config four_frames) = [[0, 1, 2, 3]]"
  by code_simp

lemma four_frames_no_place:
  "map_option fst (split_round split_config (\<lambda>i. f_pad_index (four_frames ! i)) (hd (queueFrames split_config four_frames))
     (maps (start_tracker split_config (the (init_maps split_config)) empty_pool)) (replicate (length (subBatchSizes split_config)) [])) =
   Some False"
  by code_simp

theorem full_sub_batches_stop_plugin_witness:
  "\<exists>t u. track_run split_config [Submit four_frames no_conversion] = Next t \<and>
     tracker_step sample_track_env split_config (Submit [plain_frame 0 2] no_conversion) t = Next u \<and>
     taken t = [0] \<and> taken u = taken t \<and> flush_test u = Blocked"
proof -
  let ?s = "start_tracker split_config (the (init_maps split_config)) empty_pool"
  obtain t u where t: "tracker_step sample_track_env split_config (Submit four_frames no_conversion) ?s = Next t"
    and u: "tracker_step sample_track_env split_config (Submit [plain_frame 0 2] no_conversion) t = Next u"
    by (rule after_two[OF four_frames_refused(2)])
  have taken: "taken t = [0]" using four_frames_refused(1) unfolding run_one t by (simp only: after_def step_result.case)
  have took: "taken t \<noteq> taken ?s" unfolding taken by (simp add: start_tracker_def)
  obtain r where q: "queueFrames split_config four_frames = [r]" using four_frames_rounds by (auto simp: map_eq_Cons_conv)
  obtain mp ls where f: "split_round split_config (\<lambda>i. f_pad_index (four_frames ! i)) r (maps ?s)
      (replicate (length (subBatchSizes split_config)) []) = Some (False, mp, ls)"
    using four_frames_no_place unfolding q list.sel by (auto simp only: map_option_eq_Some prod.collapse fst_conv)
  have n: "subBatchSizes split_config \<noteq> []" by (simp add: split_config_sub_batches)
  have ur: "tracker_reachable sample_track_env split_config (\<lambda>_. True) t u"
    by (rule tracker_reachable.moves[OF tracker_reachable.initially _ u]) (rule TrueI)
  have "taken u = taken t \<and> flush_test u = Blocked"
    by (rule full_sub_batches_stop_plugin[OF tracker_reachable.initially n t took q f ur])
  with t u taken show ?thesis unfolding run_one by blast
qed

section \<open>An event overtakes a buffer\<close>

text \<open>
  Without sub-batches an event that waits for the pending batches can still overtake the buffer before it: the
  thread forgets the batch before it puts the buffer into the completion queue, so the end of a stream is handled and
  sent before its last buffer.
\<close>

lemma event_overtakes_buffer:
  "\<exists>ls s. track_run whole_config ls = Next s \<and> taken s = [0] \<and> pushed s = [EventItem (StreamEos 0), BufferItem 0]"
proof -
  obtain s where "track_run whole_config overtaking_event = Next s"
    "pushed s = [EventItem (StreamEos 0), BufferItem 0] \<and> taken s = [0]"
    by (rule after_track_run[OF overtaking_event_run]) blast
  then show ?thesis by blast
qed

section \<open>A buffer overtakes a buffer\<close>

text \<open>
  With sub-batches buffers can leave in another order than they came, although both have a
  frame of the same stream: a buffer that needs a slow sub-batch is overtaken by the next one that does not.
\<close>

lemma buffer_overtakes_buffer:
  "\<exists>ls s. track_run split_config ls = Next s \<and> taken s = [0, 1] \<and> pushed s = [BufferItem 1, BufferItem 0]"
proof -
  obtain s where "track_run split_config overtaking_buffer = Next s" "pushed s = [BufferItem 1, BufferItem 0] \<and> taken s = [0, 1]"
    by (rule after_track_run[OF overtaking_buffer_run]) blast
  then show ?thesis by blast
qed

section \<open>Whole batches\<close>

theorem whole_batches_in_order_witness:
  "\<exists>s. track_run whole_config [Submit [plain_frame 0 1] no_conversion, Submit [plain_frame 0 2] no_conversion, ProcPop, ProcTrack idle_library] =
       Next s \<and> [0, 1] = sent_buffers (pushed s) @ completed (m_CompletionQueue s) @ in_process (process_thread s) @
       map p_buffer (m_ProcQueue s) \<and> length (m_ProcQueue s) = 1"
proof -
  have run: "after (track_run whole_config [Submit [plain_frame 0 1] no_conversion, Submit [plain_frame 0 2] no_conversion, ProcPop,
      ProcTrack idle_library]) (\<lambda>s. taken s = [0, 1] \<and> length (m_ProcQueue s) = 1)" by code_simp
  obtain s where s: "track_run whole_config [Submit [plain_frame 0 1] no_conversion, Submit [plain_frame 0 2] no_conversion, ProcPop,
      ProcTrack idle_library] = Next s" "taken s = [0, 1] \<and> length (m_ProcQueue s) = 1"
    and r: "tracker_reachable sample_track_env whole_config (\<lambda>_. True)
      (start_tracker whole_config (the (init_maps whole_config)) empty_pool) s"
    by (rule after_track_run[OF run]) blast
  have "subBatchSizes whole_config = []" by (simp add: whole_config_def)
  from whole_batches_in_order[OF r this] s show ?thesis by metis
qed

end
