(* ===== verification/TrackEvents.thy ===== *)
theory TrackEvents
  imports TrackStuck
begin

text \<open>
  Events and buffers without frames wait for the buffers before them: what is still on its way when the streaming
  thread goes on, with sub-batches and without, and what a spurious wakeup does to it.
\<close>

declare split_paired_All [simp del] split_paired_Ex [simp del]

section \<open>Markers\<close>

fun waiting :: "streaming \<Rightarrow> bool" where
  "waiting (WaitMarker a) = True"
| "waiting (Signalled a) = True"
| "waiting _ = False"

text \<open>The buffers in the completion queue for which the streaming thread does not wait.\<close>

definition behind :: "nat option list \<Rightarrow> nat list" where
  "behind q = completed (tl (dropWhile (\<lambda>x. x \<noteq> None) q))"

fun not_awaited :: "streaming \<Rightarrow> nat option list \<Rightarrow> nat list" where
  "not_awaited (WaitMarker a) q = behind q"
| "not_awaited (Signalled a) q = completed q"
| "not_awaited _ q = []"

text \<open>At most \<open>k\<close> buffers are not waited for, and the marker of the waiting thread is the only one.\<close>

definition markers_ok :: "nat \<Rightarrow> NvTrackerProc \<Rightarrow> bool" where
  "markers_ok k s \<longleftrightarrow>
     count_list (m_CompletionQueue s) None = (case streaming_thread s of WaitMarker a \<Rightarrow> 1 | _ \<Rightarrow> 0) \<and>
     (waiting (streaming_thread s) \<longrightarrow>
        length (not_awaited (streaming_thread s) (m_CompletionQueue s) @ in_process (process_thread s)) \<le> k)"

lemma behind_append: "None \<in> set q \<Longrightarrow> behind (q @ [Some b]) = behind q @ [b]"
  unfolding behind_def by (induction q) auto

lemma behind_marker: "None \<notin> set q \<Longrightarrow> behind (q @ [None]) = []"
  unfolding behind_def by (induction q) auto

lemma behind_Cons [simp]: "behind (None # q) = completed q" "behind (Some b # q) = behind q"
  by (simp_all add: behind_def)

lemma count_None: "count_list q x = 0 \<longleftrightarrow> x \<notin> set q" "0 < count_list q x \<longleftrightarrow> x \<in> set q"
  using count_list_0_iff[of q x] by auto

text \<open>What a state needs for the next step: nothing is pending, so no batch is in the queue.\<close>

definition quiet :: "nat \<Rightarrow> NvTrackerProc \<Rightarrow> bool" where
  "quiet k s \<longleftrightarrow> (waiting (streaming_thread s) \<longrightarrow> m_PendingBatch s = [] \<and> m_ProcQueue s = []) \<and>
     (m_PendingBatch s = [] \<longrightarrow> length (in_process (process_thread s)) \<le> k)"

lemma markers_cong:
  "markers_ok k s \<Longrightarrow> streaming_thread s' = streaming_thread s \<Longrightarrow> m_CompletionQueue s' = m_CompletionQueue s \<Longrightarrow>
     length (in_process (process_thread s')) \<le> length (in_process (process_thread s)) \<Longrightarrow> markers_ok k s'"
  by (auto simp: markers_ok_def)

lemma markers_awake:
  "markers_ok k s \<Longrightarrow> \<not> waiting (streaming_thread s) \<Longrightarrow> \<not> waiting (streaming_thread s') \<Longrightarrow>
     count_list (m_CompletionQueue s') None = count_list (m_CompletionQueue s) None \<Longrightarrow> markers_ok k s'"
  by (auto simp: markers_ok_def split: streaming.splits)

lemma submit_markers:
  assumes run: "submit_input_buffer cfg fs L s = Next s'" and m: "markers_ok k s"
  shows "markers_ok k s'"
proof -
  have st: "streaming_thread s = Streaming" using run by (auto simp: submit_input_buffer_def Let_def split: if_splits)
  have push: "m_CompletionQueue (push_requests p sb ls t) = m_CompletionQueue t \<and>
      streaming_thread (push_requests p sb ls t) = streaming_thread t" for p sb ls t
    by (induction ls arbitrary: sb t) (simp_all add: push_requests_step push_request_fields del: push_requests.simps(2))
  have rounds: "m_CompletionQueue t' = m_CompletionQueue t \<and> streaming_thread t' = streaming_thread t"
    if "dispatch_rounds cfg pad_of p rs t = Some (ok, t')" for pad_of p rs t ok t'
    using that by (induction rs arbitrary: t) (fastforce simp: push split: option.splits prod.splits bool.splits)+
  have input: "m_CompletionQueue t' = m_CompletionQueue t \<and> streaming_thread t' = streaming_thread t"
    if "submitInput cfg b fs L t = Next (ok, t')" for b t ok t'
    using that unfolding submitInput_def dispatchSubBatches_def queue_whole_batch_def note_batch_def
    by (auto simp: Let_def dest!: rounds split: if_splits option.splits prod.splits bool.splits)
  have "m_CompletionQueue s' = m_CompletionQueue s \<and> \<not> waiting (streaming_thread s')"
    using run st by (auto simp: submit_input_buffer_def Let_def dest!: input split: if_splits step_result.splits)
  then show ?thesis using markers_awake[OF m] st by simp
qed

lemma complete_request_markers:
  assumes "markers_ok k s" "quiet k s"
  shows "markers_ok k (complete_request sb p s)"
  using assms by (cases "waiting (streaming_thread s)")
    (auto simp: complete_request_def markers_ok_def quiet_def split: option.splits streaming.splits)

lemma markers_step:
  assumes m: "markers_ok k s" and q: "quiet k s" and run: "tracker_step env cfg l s = Next s'" and l: "l \<noteq> SpuriousWakeup"
  shows "markers_ok k s'"
proof (cases l)
  case (Submit fs L)
  then show ?thesis using submit_markers[OF _ m] run by (simp add: tracker_step_def)
next
  case (Event ev)
  then show ?thesis using run m by (auto simp: tracker_step_def sink_event_def markers_ok_def split: if_splits streaming.splits)
next
  case FlushTest
  then obtain a where a: "streaming_thread s = Flushing a" "m_PendingBatch s = []"
      "s' = s\<lparr>m_CompletionQueue := m_CompletionQueue s @ [None], streaming_thread := WaitMarker a\<rparr>"
    using run by (auto simp: tracker_step_def flush_test_def split: streaming.splits if_splits)
  then show ?thesis using m q by (simp add: markers_ok_def quiet_def behind_marker count_None)
next
  case (HandleSignal removed)
  then obtain a where a: "streaming_thread s = Signalled a" and run': "handle_signal cfg removed s = Next s'"
    using run by (auto simp: tracker_step_def handle_signal_def split: streaming.splits)
  have "streaming_thread s' = Streaming \<and> m_CompletionQueue s' = m_CompletionQueue s"
  proof (cases a)
    case (ThenPush b)
    then show ?thesis using run' a by (auto simp: handle_signal_def)
  next
    case (ThenEvent ev)
    obtain ok s1 where e: "handle_event cfg removed ev (s\<lparr>streaming_thread := Streaming\<rparr>) = (ok, s1)" by fastforce
    from track_event_fields(7,9)[OF e] show ?thesis using run' a ThenEvent e by (auto simp: handle_signal_def split: if_splits)
  qed
  then show ?thesis using m a by (simp add: markers_ok_def)
next
  case OutputPop
  then have "output_pop s = Next s'" using run by (simp add: tracker_step_def)
  then show ?thesis using m
    by (cases "m_CompletionQueue s")
      (auto simp: output_pop_def markers_ok_def count_None split: option.splits streaming.splits if_splits)
next
  case ProcPop
  then show ?thesis using run m q
    by (auto simp: tracker_step_def proc_pop_def markers_ok_def quiet_def split: list.splits proc_phase.splits streaming.splits)
next
  case (ProcTrack lib)
  with run have "proc_track env cfg lib s = Next s'" by (simp add: tracker_step_def)
  then show ?thesis by (rule proc_track_fields) (rule markers_cong[OF m]; simp)
next
  case ProcComplete
  then obtain p where p: "process_thread s = ProcTracked p"
      "s' = s\<lparr>m_CompletionQueue := m_CompletionQueue s @ [Some (p_buffer p)], process_thread := ProcReturn p\<rparr>"
    using run by (auto simp: tracker_step_def proc_complete_def split: proc_phase.splits)
  have "None \<in> set (m_CompletionQueue s)" if "streaming_thread s = WaitMarker a" for a
    using m that count_None(2)[of "m_CompletionQueue s" None] by (simp add: markers_ok_def)
  then show ?thesis using m p by (auto simp: markers_ok_def behind_append split: streaming.splits)
next
  case ProcReturnBuffer
  then show ?thesis
    using run by (intro markers_cong[OF m]) (auto simp: tracker_step_def proc_return_def split: proc_phase.splits)
next
  case (SubPop sb removed)
  then show ?thesis using run
    by (intro markers_cong[OF m])
      (auto simp: tracker_step_def sub_pop_def set_phase_def Let_def split: if_splits sub_phase.splits list.splits DispatchReq.splits)
next
  case (SubTrack sb lib)
  with run have t: "sub_track env cfg sb lib s = Next s'" by (simp add: tracker_step_def)
  from t have "m_CompletionQueue s' = m_CompletionQueue s \<and> process_thread s' = process_thread s \<and>
      streaming_thread s' = streaming_thread s"
    unfolding sub_track_def
    by (auto simp: set_phase_def set_trials_def track_round_fields(2,8,10)[unfolded sync_conversion_fields]
          track_round_fields(2,8,10) sync_conversion_fields
        split: if_splits option.splits sub_phase.splits)
  then show ?thesis by (intro markers_cong[OF m]) simp_all
next
  case (SubComplete sb)
  with run obtain p err where "phase (sub_threads s ! sb) = SubTracked p err"
    by (auto simp: tracker_step_def sub_complete_def split: if_splits sub_phase.splits)
  with SubComplete run have "m_CompletionQueue s' = m_CompletionQueue (complete_request sb p s) \<and>
      process_thread s' = process_thread s \<and> streaming_thread s' = streaming_thread s"
    by (auto simp: tracker_step_def sub_complete_def Let_def complete_request_fields set_phase_fields split: if_splits)
  then show ?thesis
    by (intro markers_cong[OF complete_request_markers[OF m q, of sb p]]) (simp_all add: complete_request_fields)
next
  case (SubReinit sb ok)
  then show ?thesis using run
    by (intro markers_cong[OF m])
      (auto simp: tracker_step_def sub_reinit_def set_phase_def set_trials_def split: if_splits sub_phase.splits)
qed (use l in simp)

lemma markers_start: "markers_ok k (start_tracker cfg mp m)"
  by (simp add: markers_ok_def start_tracker_def)

lemma markers_reachable:
  assumes "tracker_reachable env cfg permitted (start_tracker cfg mp m) s" "\<not> permitted SpuriousWakeup"
    and "\<And>t. tracker_reachable env cfg permitted (start_tracker cfg mp m) t \<Longrightarrow> quiet k t"
  shows "markers_ok k s"
  using assms(1)
proof induction
  case initially
  show ?case by (rule markers_start)
next
  case (moves s l s')
  from moves(2) assms(2) have "l \<noteq> SpuriousWakeup" by blast
  from markers_step[OF moves.IH assms(3)[OF moves(1)] moves(3) this] show ?case .
qed

section \<open>With sub-batches\<close>

lemma sub_quiet: "tracker_inv n par s \<Longrightarrow> quiet 0 s"
  using tracker_invD(3,4,7)[of n par s] by (cases "streaming_thread s") (simp_all add: quiet_def flush_ok_def)

text \<open>
  Property C10. With sub-batches the streaming thread handles an event, or a buffer without frames, when no batch is pending
  and no thread has a request, even after a spurious wakeup. If its wait ends only with the signal of the output thread,
  moreover all buffers taken before were pushed and the completion queue is empty.
\<close>

theorem events_wait_for_buffers:
  assumes "tracker_reachable env cfg permitted (start_tracker cfg mp m) s" "subBatchSizes cfg \<noteq> []" "streaming_thread s = Signalled a"
  shows "m_PendingBatch s = [] \<and> (\<forall>sb<length (subBatchSizes cfg). outstanding s sb = []) \<and>
    (\<not> permitted SpuriousWakeup \<longrightarrow> m_CompletionQueue s = [] \<and> mset (sent_buffers (pushed s)) = mset (taken s))"
proof (intro conjI impI)
  obtain par where inv: "tracker_inv (length (subBatchSizes cfg)) par s" using reachable_inv[OF assms(1,2)] by blast
  note D = tracker_invD[OF inv]
  show q: "m_PendingBatch s = []" using D(7) assms(3) by (simp add: flush_ok_def)
  show "\<forall>sb<length (subBatchSizes cfg). outstanding s sb = []"
    using D(5) q unfolding batches_ok_def by (metis list.set_intros(1) map_of.simps(1) neq_Nil_conv)
  assume "\<not> permitted SpuriousWakeup"
  then have "markers_ok 0 s"
    by (rule markers_reachable[OF assms(1)]) (use reachable_inv[OF _ assms(2)] sub_quiet in blast)
  then have c: "None \<notin> set (m_CompletionQueue s)" "completed (m_CompletionQueue s) = []"
    by (simp_all add: markers_ok_def assms(3) count_None)
  then show e: "m_CompletionQueue s = []" by (cases "m_CompletionQueue s" rule: list.exhaust; cases "hd (m_CompletionQueue s)") auto
  show "mset (sent_buffers (pushed s)) = mset (taken s)" using D(6) q e unfolding conserved_def by simp
qed

definition event_run :: "track_label list" where
  "event_run = [Submit [plain_frame 0 1, plain_frame 1 1] no_conversion, Event (StreamEos 0), SubPop 0 True, SubTrack 0 idle_library,
     SubComplete 0, SubPop 1 True, SubTrack 1 idle_library, SubComplete 1, FlushTest, OutputPop, OutputPop]"

theorem events_wait_for_buffers_witness:
  "\<exists>s. track_run split_config event_run = Next s \<and> streaming_thread s = Signalled (ThenEvent (StreamEos 0)) \<and> taken s = [0] \<and>
     m_PendingBatch s = [] \<and> m_CompletionQueue s = [] \<and> mset (sent_buffers (pushed s)) = mset [0]"
proof -
  have run: "after (track_run split_config event_run) (\<lambda>s. taken s = [0] \<and> streaming_thread s = Signalled (ThenEvent (StreamEos 0)))"
    by code_simp
  have prompt: "\<forall>l\<in>set event_run. prompt_step l" by (simp add: event_run_def)
  obtain s where s: "track_run split_config event_run = Next s" "taken s = [0] \<and> streaming_thread s = Signalled (ThenEvent (StreamEos 0))"
    and r: "tracker_reachable sample_track_env split_config prompt_step
      (start_tracker split_config (the (init_maps split_config)) empty_pool) s"
    by (rule after_prompt_run[OF run prompt]) blast
  from events_wait_for_buffers[OF r, of "ThenEvent (StreamEos 0)"] split_config_sub_batches s show ?thesis by auto
qed

text \<open>With a spurious wakeup the event passes a buffer that is complete and not yet pushed.\<close>

lemma spurious_wakeup_overtakes:
  "after (track_run split_config (take 9 event_run @ [SpuriousWakeup, HandleSignal (\<lambda>_. True), OutputPop]))
     (\<lambda>s. taken s = [0] \<and> pushed s = [EventItem (StreamEos 0), BufferItem 0])"
  by code_simp

section \<open>Without sub-batches\<close>

fun untracked :: "proc_phase \<Rightarrow> ProcParams list" where
  "untracked (ProcHas p) = [p]"
| "untracked _ = []"

text \<open>Every batch that the thread has not tracked yet is pending.\<close>

definition whole_pending :: "NvTrackerProc \<Rightarrow> bool" where
  "whole_pending s \<longleftrightarrow> map_wf (m_PendingBatch s) \<and>
     distinct (map batchId (untracked (process_thread s) @ m_ProcQueue s)) \<and>
     (\<forall>p\<in>set (untracked (process_thread s) @ m_ProcQueue s). map_of (m_PendingBatch s) (batchId p) \<noteq> None) \<and> flush_ok s"

lemma whole_pending_cong:
  "whole_pending s \<Longrightarrow> m_PendingBatch s' = m_PendingBatch s \<Longrightarrow>
     untracked (process_thread s') @ m_ProcQueue s' = untracked (process_thread s) @ m_ProcQueue s \<Longrightarrow>
     flush_ok s' \<Longrightarrow> whole_pending s'"
  unfolding whole_pending_def by simp

lemma whole_pendingD: "whole_pending s \<Longrightarrow> flush_ok s"
  by (simp add: whole_pending_def)

lemma whole_quiet: "whole_pending s \<Longrightarrow> quiet 1 s"
proof -
  assume w: "whole_pending s"
  have "m_PendingBatch s = [] \<and> m_ProcQueue s = []" if "waiting (streaming_thread s)"
    using w that unfolding whole_pending_def flush_ok_def by (cases "streaming_thread s"; cases "m_ProcQueue s") auto
  moreover have "length (in_process (process_thread s)) \<le> 1" by (cases "process_thread s") simp_all
  ultimately show ?thesis by (simp add: quiet_def)
qed

lemma submit_whole_pending:
  assumes inv: "whole_pending s" and cfg: "subBatchSizes cfg = []" and run: "submit_input_buffer cfg fs L s = Next s'"
  shows "whole_pending s'"
proof -
  have st: "streaming_thread s = Streaming" using run by (auto simp: submit_input_buffer_def Let_def split: if_splits)
  have flush: "flush_ok t" if "streaming_thread t = Streaming \<or> (\<exists>a. streaming_thread t = Flushing a)" for t
    using that by (auto simp: flush_ok_def)
  have queue: "whole_pending (snd (queue_whole_batch p t))" if w: "whole_pending t" "streaming_thread t = Streaming" for p t
  proof (cases "map_of (m_PendingBatch t) (batchId p)")
    case None
    have "batchId p \<notin> batchId ` set (untracked (process_thread t) @ m_ProcQueue t)"
      using w(1) None unfolding whole_pending_def by (metis imageE)
    with w None show ?thesis by (auto simp: queue_whole_batch_def note_batch_def whole_pending_def flush_ok_def)
  qed (use w in \<open>simp add: queue_whole_batch_def\<close>)
  have input: "whole_pending t'"
    if "submitInput cfg b fs L t = Next (ok, t')" and w: "whole_pending t" "streaming_thread t = Streaming" for b t ok t'
  proof -
    have conv: "whole_pending (t\<lparr>m_ConvBufMgr := m\<rparr>)" for m
      by (rule whole_pending_cong[OF w(1)]) (simp_all add: flush w(2))
    have queue': "whole_pending t'" if "queue_whole_batch p u = (ok, t')" "whole_pending u" "streaming_thread u = Streaming" for p u
      using queue[OF that(2,3), of p] that(1) by simp
    show ?thesis using that(1) cfg w unfolding submitInput_def Let_def
      by (auto simp: conv intro: queue' split: if_splits option.splits prod.splits)
  qed
  have keep: "whole_pending (s\<lparr>next_buffer := b, batch_metas := bm\<rparr>)" "whole_pending (s\<lparr>next_buffer := b\<rparr>)"
    "whole_pending (s\<lparr>next_buffer := b, streaming_thread := Flushing a\<rparr>)" for b bm a
    by (rule whole_pending_cong[OF inv]; simp add: flush st)+
  show ?thesis using run keep input[OF _ keep(1)] st
    by (fastforce simp: submit_input_buffer_def Let_def split: if_splits step_result.splits)
qed

lemma proc_track_whole_pending:
  assumes inv: "whole_pending s" and run: "proc_track env cfg lib s = Next s'"
  shows "whole_pending s'"
proof -
  obtain p where p: "process_thread s = ProcHas p" using run by (auto simp: proc_track_def split: proc_phase.splits)
  have rounds: "m_PendingBatch t' = m_PendingBatch t" if "track_rounds env cfg lib p rs t = Some t'" for rs t t'
    using that by (induction rs arbitrary: t) (fastforce simp: track_round_fields(5) split: option.splits)+
  have "m_PendingBatch s' = AList.delete (batchId p) (m_PendingBatch s)"
  proof -
    have pend: "map_of (m_PendingBatch s) (batchId p) \<noteq> None" using inv p by (simp add: whole_pending_def)
    obtain s1 where "m_PendingBatch s1 = m_PendingBatch s"
      and "s' = (if map_of (m_PendingBatch s1) (batchId p) \<noteq> None
                      then s1\<lparr>m_PendingBatch := AList.delete (batchId p) (m_PendingBatch s1)\<rparr>
                      else s1\<lparr>m_TrackerLibError := True\<rparr>)\<lparr>process_thread := ProcTracked p\<rparr>"
      using run p rounds unfolding proc_track_def by (fastforce split: option.splits if_splits)
    then show ?thesis using pend by simp
  qed
  note m = this
  from run show ?thesis
  proof (rule proc_track_fields)
    fix p' assume f: "process_thread s = ProcHas p'" "process_thread s' = ProcTracked p'" "m_ProcQueue s' = m_ProcQueue s"
      "streaming_thread s' = streaming_thread s"
    have "m_PendingBatch s' = []" if "m_PendingBatch s = []" using that m by simp
    then have "flush_ok s'" using whole_pendingD[OF inv] f(4) by (auto simp: flush_ok_def split: streaming.splits)
    moreover have "batchId p \<notin> batchId ` set (m_ProcQueue s)" using inv p by (simp add: whole_pending_def)
    ultimately show "whole_pending s'"
      using inv f p unfolding whole_pending_def m by (auto simp: delete_conv' image_iff)
  qed
qed

lemma whole_pending_step:
  assumes inv: "whole_pending s" "whole_inv s" and cfg: "subBatchSizes cfg = []" and run: "tracker_step env cfg l s = Next s'"
  shows "whole_pending s'"
proof (cases l)
  case (Submit fs L)
  then show ?thesis using submit_whole_pending[OF inv(1) cfg] run by (simp add: tracker_step_def)
next
  case (ProcTrack lib)
  then show ?thesis using proc_track_whole_pending[OF inv(1)] run by (simp add: tracker_step_def)
next
  case (HandleSignal removed)
  then obtain a where a: "streaming_thread s = Signalled a" and run': "handle_signal cfg removed s = Next s'"
    using run by (auto simp: tracker_step_def handle_signal_def split: streaming.splits)
  show ?thesis
  proof (cases a)
    case (ThenPush b)
    then show ?thesis using run' a by (intro whole_pending_cong[OF inv(1)]) (auto simp: handle_signal_def flush_ok_def)
  next
    case (ThenEvent ev)
    obtain ok s1 where e: "handle_event cfg removed ev (s\<lparr>streaming_thread := Streaming\<rparr>) = (ok, s1)" by fastforce
    show ?thesis using run' a ThenEvent e track_event_fields[OF e]
      by (intro whole_pending_cong[OF inv(1)]) (auto simp: handle_signal_def flush_ok_def split: if_splits)
  qed
next
  case (Event ev)
  then show ?thesis using run whole_pendingD[OF inv(1)]
    by (intro whole_pending_cong[OF inv(1)]) (auto simp: tracker_step_def sink_event_def flush_ok_def split: if_splits)
next
  case FlushTest
  then show ?thesis using run
    by (intro whole_pending_cong[OF inv(1)]) (auto simp: tracker_step_def flush_test_def flush_ok_def split: if_splits streaming.splits)
next
  case SpuriousWakeup
  then show ?thesis using run whole_pendingD[OF inv(1)]
    by (intro whole_pending_cong[OF inv(1)]) (auto simp: tracker_step_def spurious_wakeup_def flush_ok_def split: streaming.splits)
next
  case OutputPop
  then show ?thesis using run whole_pendingD[OF inv(1)]
    by (intro whole_pending_cong[OF inv(1)])
      (auto simp: tracker_step_def output_pop_def flush_ok_def split: list.splits option.splits streaming.splits)
next
  case ProcPop
  then show ?thesis using run whole_pendingD[OF inv(1)]
    by (intro whole_pending_cong[OF inv(1)])
      (auto simp: tracker_step_def proc_pop_def flush_ok_def split: list.splits proc_phase.splits streaming.splits)
next
  case ProcComplete
  then show ?thesis using run whole_pendingD[OF inv(1)]
    by (intro whole_pending_cong[OF inv(1)])
      (auto simp: tracker_step_def proc_complete_def flush_ok_def split: proc_phase.splits streaming.splits)
next
  case ProcReturnBuffer
  then show ?thesis using run whole_pendingD[OF inv(1)]
    by (intro whole_pending_cong[OF inv(1)])
      (auto simp: tracker_step_def proc_return_def flush_ok_def split: proc_phase.splits streaming.splits)
qed (use run inv in \<open>auto simp: tracker_step_def sub_pop_def sub_track_def sub_complete_def sub_reinit_def whole_inv_def\<close>)

lemma whole_pending_reachable:
  assumes "tracker_reachable env cfg permitted (start_tracker cfg mp m) s" "subBatchSizes cfg = []"
  shows "whole_pending s"
  using assms(1)
proof induction
  case initially
  show ?case by (simp add: whole_pending_def start_tracker_def flush_ok_def)
next
  case (moves s l s')
  show ?case by (rule whole_pending_step[OF moves.IH whole_reachable[OF moves(1) assms(2)] assms(2) moves(3)])
qed

text \<open>
  Property C38. Without sub-batches the streaming thread handles an event, or a buffer without frames, when of the buffers taken
  before at most the last one is not yet pushed, provided that its wait ends only with the signal of the output
  thread: the batch is forgotten before its buffer goes to the completion queue, so that one can still be on its way.
\<close>

theorem at_most_one_overtaken:
  assumes "tracker_reachable env cfg permitted (start_tracker cfg mp m) s" "subBatchSizes cfg = []" "streaming_thread s = Signalled a"
    and "\<not> permitted SpuriousWakeup"
  shows "\<exists>rest. taken s = sent_buffers (pushed s) @ rest \<and> length rest \<le> 1 \<and> m_PendingBatch s = [] \<and> m_ProcQueue s = []"
proof -
  have "whole_pending t" if "tracker_reachable env cfg permitted (start_tracker cfg mp m) t" for t
    by (rule whole_pending_reachable[OF that assms(2)])
  then have quiet: "quiet 1 t" if "tracker_reachable env cfg permitted (start_tracker cfg mp m) t" for t
    using that whole_quiet by blast
  have "markers_ok 1 s" by (rule markers_reachable[OF assms(1,4) quiet])
  moreover have "m_PendingBatch s = []" "m_ProcQueue s = []" using quiet[OF assms(1)] by (simp_all add: quiet_def assms(3))
  ultimately show ?thesis
    using whole_reachable[OF assms(1,2)] by (simp add: whole_inv_def markers_ok_def assms(3))
qed

theorem at_most_one_overtaken_witness:
  "\<exists>s rest. track_run whole_config (take 6 overtaking_event) = Next s \<and> taken s = [0] \<and> sent_buffers (pushed s) = [] \<and>
     taken s = sent_buffers (pushed s) @ rest \<and> length rest = 1"
proof -
  have run: "after (track_run whole_config (take 6 overtaking_event))
      (\<lambda>s. taken s = [0] \<and> sent_buffers (pushed s) = [] \<and> streaming_thread s = Signalled (ThenEvent (StreamEos 0)))"
    by code_simp
  have prompt: "\<forall>l\<in>set (take 6 overtaking_event). prompt_step l" by (simp add: overtaking_event_def)
  obtain s where s: "track_run whole_config (take 6 overtaking_event) = Next s"
      "taken s = [0] \<and> sent_buffers (pushed s) = [] \<and> streaming_thread s = Signalled (ThenEvent (StreamEos 0))"
    and r: "tracker_reachable sample_track_env whole_config prompt_step
      (start_tracker whole_config (the (init_maps whole_config)) empty_pool) s"
    by (rule after_prompt_run[OF run prompt]) blast
  have "subBatchSizes whole_config = []" by (simp add: whole_config_def)
  from at_most_one_overtaken[OF r this] s obtain rest where "taken s = sent_buffers (pushed s) @ rest" "length rest \<le> 1"
    by auto
  with s show ?thesis by (intro exI[of _ s] exI[of _ rest]) auto
qed

end
