(* ===== verification/Spec2Isabelle.thy ===== *)
theory Spec2Isabelle
  imports MuxExamples MuxTimeSync MuxConfigProps ConvPool MiscPool InferPostProps
    InferOrder InferDrain InferAttach TrackEvents
begin

text \<open>
  A verification library for the open C++ components of the DeepStream 7.0 SDK. Paths are relative to
  \<open>src/sources\<close>.

  The program. A pipeline takes the buffers of many sources, batches them (the stream muxer
  \<open>libs/nvstreammux\<close>, driven by the element \<open>gst-plugins/gst-nvmultistream2\<close>), runs neural networks on
  each batch (\<open>libs/nvdsinfer\<close>, driven by \<open>gst-plugins/gst-nvinfer\<close>), tracks the objects
  (\<open>gst-plugins/gst-nvtracker\<close>), and hands buffers and metadata to sinks and message brokers. The
  components modelled here are the ones whose logic is in the repository; what they call outside of it
  (clocks, CUDA, TensorRT, GStreamer, yaml-cpp, GLib, OpenCV, DBSCAN, custom parser libraries) is a
  parameter: an argument of the definitions or a field of a record of calls.

  Conventions. \<open>None\<close> is undefined behaviour or an exception of the C++ code (an index behind an array,
  a null pointer, \<open>at\<close> out of range, division by zero, reading memory that was not initialised); a
  theorem that an operation is \<open>Some\<close> is a safety statement. Errors the code reports are values
  (statuses, flags). Machine integers are words with wrap-around (theory \<open>Prelude\<close>); floating point
  numbers are the type of theory \<open>Doubles\<close>, with NaN and infinities and without rounding. An operation
  that holds a lock is one atomic step.

  Shared theories. \<open>Prelude\<close>: names of the integer types, association lists as maps in iteration order,
  words. \<open>Doubles\<close>: floating point values, with instances of the library's arithmetic classes.

  The stream muxer (\<open>libs/nvstreammux\<close>).
  \<open>MuxPads\<close> is \<open>nvstreammux_pads.cpp\<close>: the queue of a sink pad, with buffers and events.
  \<open>MuxBatch\<close> is \<open>nvstreammux_batch.cpp\<close>: the batch policy, which decides how many buffers of which source
  a batch gets. \<open>MuxBatchProps\<close> and \<open>MuxBatchOrder\<close> hold its invariant, the bounds of a formed batch,
  and the round robin order as a refinement of serving a list of sources; the locale of the latter is
  interpreted on the policy. \<open>MuxCore\<close> is \<open>nvstreammux.cpp\<close>: pads, events and the copying of buffers into
  a batch; \<open>MuxCoreProps\<close> its preservation lemmas. \<open>MuxLoop\<close> makes a machine of \<open>push_loop\<close> and the calls
  of the other threads, one step per critical section, and proves by rule induction that every
  interleaving is safe and keeps buffers in order, for configurations without sources or with one of the
  default priority; for the others \<open>no_default_priority_undefined\<close> shows that a further pad makes the loop undefined. \<open>MuxTimeSync\<close> is \<open>gstnvtimesynch.cpp\<close>, the provider of
  the synchronisation interface of the batch policy. \<open>MuxConfig\<close> and \<open>MuxConfigProps\<close> are
  \<open>MuxConfigParser.cpp\<close>: both file formats, their agreement, and that the policy made from a file knows exactly
  the sources of its groups, with their settings. \<open>MuxExamples\<close> applies the theorems to concrete states.

  The buffer pools of the tracker (\<open>gst-plugins/gst-nvtracker\<close>). \<open>BufferPool\<close> states the contract of a
  pool as locales: a buffer is free or lent, never both; a client gets clean buffers; shutting down
  waits for the lent ones. A surface can also be lost, when a session fails; the theorem about the pool counts these. \<open>ConvPool\<close> (\<open>convbufmanager.cpp\<close>) and \<open>MiscPool\<close> (\<open>miscdatabufmanager.cpp\<close>)
  model the two pools and interpret the locales.

  The tracker plugin (\<open>gst-plugins/gst-nvtracker\<close>). \<open>TrackSlots\<close> has the maps of \<open>nvtracker_proc.cpp\<close> that
  give every stream its sub-batch and its place in it (\<open>mapStreamToSubBatch\<close>, \<open>removeSource\<close>, the tables made by \<open>init\<close>);
  \<open>TrackSlotsProps\<close> shows that places are exclusive and loads balanced when every pad has one surface, and what a
  second surface of a pad does, whose place overwrites the one of the first. \<open>TrackObjects\<close> is what goes into
  the low-level library and what is made of its answer (\<open>queueFrames\<close>, \<open>fillMOTFrame\<close>, \<open>clipBBox\<close>,
  \<open>objectIdMapping\<close>, \<open>updateFrameMeta\<close>, with the structures of \<open>includes/nvdstracker.h\<close>); \<open>TrackObjectsProps\<close> shows
  which objects a frame has afterwards. \<open>TrackProc\<close> makes a machine of the streaming
  thread with its events (\<open>gstnvtracker.cpp\<close>), the thread for whole batches or the threads of the sub-batches, and the
  output loop; the library and the conversion are in the labels of the steps, the surfaces come from
  \<open>ConvPool\<close>. A wait for the signal of the output thread can also end by itself, as GLib documents (\<open>spurious_wakeup\<close>), and the
  polling of \<open>flushReqs\<close> is a step only when it ends. \<open>TrackProcProps\<close> is the invariant with sub-batches (no buffer is
  lost or sent twice), \<open>TrackSettle\<close> has the order of the buffers with frames without sub-batches and that the threads come to
  rest (a measure of the work left), \<open>TrackEvents\<close> what can still be on its way when an event or a buffer without frames is
  handled, \<open>TrackStuck\<close> and \<open>TrackRuns\<close> the runs that go wrong.

  The post-processing of inference (\<open>libs/nvdsinfer\<close>). \<open>DetectPost\<close> and \<open>DetectFill\<close> are the class
  \<open>DetectPostprocessor\<close>: the parser of the output layers, thresholds, non-maximum suppression and the
  other clusterings, the output of a frame, the initialisation with the labels file. \<open>DetectProps\<close> and
  \<open>DetectContract\<close> prove the filters correct and compose them into the contract of a frame. \<open>InferPost\<close>
  has the classifier, the segmentation, the instance segmentation, and the output and release of a
  batch; \<open>FrameParser\<close> states what the base class relies on in its virtual method as locales, and
  \<open>InferPostProps\<close> interprets them on the five classes and proves the classes of pixels and attributes
  to be the first of the most probable ones.

  The inference element (\<open>gst-plugins/gst-nvinfer\<close>) and the batches of its context (\<open>libs/nvdsinfer\<close>).
  \<open>InferMeta\<close> is \<open>gstnvinfer_meta_utils.cpp\<close> with the metadata structures of \<open>includes/nvdsmeta.h\<close>;
  \<open>InferConvert\<close> is \<open>get_converted_buffer\<close>; \<open>InferObjects\<close> is what the streaming thread of
  \<open>gstnvinfer.cpp\<close> does with frames and objects: the history of tracked objects, the decision to infer, the
  batch under construction; \<open>InferContext\<close> is \<open>queueInputBatch\<close>, \<open>dequeueOutputBatch\<close> and
  \<open>releaseBatchOutput\<close> of \<open>nvdsinfer_context_impl.cpp\<close> with the pool of batches and its growth.
  \<open>InferPipeline\<close> makes a machine of the streaming thread, the input queue thread and the output thread
  and of the replacement of the model (\<open>gstnvinfer_impl.cpp\<close>): one step per stretch of code for which the
  thread holds the lock, and a batch that a thread keeps while it has given up the lock is in its hand.
  \<open>InferFifo\<close> states what the element relies on in a context as locales (a queue with outputs in the
  order of the inputs; a pool that lends outputs), and \<open>InferContextProps\<close> interprets them on the
  context. \<open>InferPipelineProps\<close> is the invariant of the queues: the batches are in one line from the
  streaming thread to the next element. \<open>InferReach\<close> lifts it to all interleavings by rule induction, \<open>InferOrder\<close>
  draws from it the order of buffers and events and the life time of metadata, \<open>InferPairing\<close> shows that each
  frame gets its own output, \<open>InferDrain\<close> that the threads do not deadlock and finish their work in
  \<open>work_left\<close> steps (a measure that every step without new input decreases), \<open>InferAttach\<close> that boxes are scaled
  there and back (in exact arithmetic), filtered and attached, and the interval between inferred buffers. \<open>InferSamples\<close> is a
  small configuration for the witnesses. The theorems about the threads are for a synchronous element that makes its
  own tensors; the other modes are in the definitions, and one theorem shows that the replacement of
  the model hangs with tensors from outside.

  Loops. Loops over lists, classes, pixels and sources are structural recursion, the two loops over
  characters end by a measure. The one loop with fuel is the walk of \<open>form_batch\<close> around the
  sources: its fuel is the number of rounds the code's own condition allows, and the theorems about it
  show that it returns. \<open>push_loop\<close> runs until it is stopped and is a step relation.

  Findings. Theorems of kind error state what the code does where it does not do what it means to: a frame whose
  failed parsing is reported as a success, a model update that never ends, a tracker whose sub-batches fill up with
  sources that had no object, one that stops for ever when a stream has no place, a source with two surfaces that
  cannot be removed. An event can overtake one buffer, and only one (\<open>at_most_one_overtaken\<close>). Lemmas
  state more of them: a surface lost by a failing session, a clustering that leaves the output unwritten, cropped
  boxes of negative height, a stale round robin position, a pad that stays full after a stop, an event that
  overtakes a buffer after a spurious wakeup, a loop over sources none of which has the default priority, an
  exhausted pool whose null pointer is dereferenced, a key file without a batch size, a clipped box that moves, a
  source that cannot be removed after a reset, a buffer that overtakes a buffer.

  Not modelled. Of the inference element: the tensors and regions of the pre-processing element
  (\<open>gst_nvinfer_process_tensor_input\<close>), tensor output metadata, the pool of conversion buffers (its limit
  can only make the streaming thread wait longer), properties and configuration files, the loading of models; the
  configuration, with the resolution of the network, stays the same when the model is replaced.
  Of the tracker: tensors of the pre-processing element (its submission is then blocked in the model), the user
  metadata of a batch (past frames, terminated and shadow tracks, re-identification tensors), loading and
  queries of the library, properties, the checks of the input memory, and the shutdown of the threads; the library is free in
  its answers.
  The other GStreamer elements (property handling, caps, events of the framework),
  the inference engine and the pre-processing kernels (TensorRT and CUDA), the low-level tracker library, the
  protocol adaptors and the REST server (network I/O in client libraries), the message converters
  (json-glib), the sample applications. Rounding of floating point numbers and exhaustion of memory are
  not modelled.
\<close>

end
